(* ===== verification/Prelude.thy ===== *)
theory Prelude
  imports Main "HOL-Library.Char_ord" "HOL-Library.List_Lexorder"
    "HOL-Library.Product_Lexorder" "HOL-Library.Multiset"
begin

text \<open>
  What the Python 2 code of every component uses of its language: exceptions as the
  left part of a sum, loops that stop at the first exception, dictionaries, integers
  and strings as comparable values, \<^verbatim>\<open>int\<close>, \<^verbatim>\<open>str\<close>, \<^verbatim>\<open>split\<close>, \<^verbatim>\<open>join\<close> and \<^verbatim>\<open>strip\<close>.

  A dictionary is an association list in its iteration order, with distinct keys.
  CPython 2.7 leaves that order unspecified: a new key is appended here, and where the
  order can be observed the operation takes it as an argument, a function from the keys to
  a permutation of them (\<open>is_order\<close>), or the theorem holds for a dictionary in any order.
\<close>

named_theorems py_simps "evaluation of the Python helpers"
named_theorems dict_simps "dictionary lookups after updates"

section \<open>Exceptions and loops\<close>

datatype pyerr = KeyErr | IndexErr | ValueErr | TypeErr | AssertErr | AttributeErr | NameErr
  | ZeroDivErr | OtherErr string

type_synonym 'a res = "pyerr + 'a"

definition rbind :: "'a res \<Rightarrow> ('a \<Rightarrow> 'b res) \<Rightarrow> 'b res" where
  "rbind m f = (case m of Inl e \<Rightarrow> Inl e | Inr x \<Rightarrow> f x)"

lemma rbind_simps [simp]: "rbind (Inl e) f = Inl e" "rbind (Inr x) f = f x"
  by (simp_all add: rbind_def)

lemma rbind_eq_Inr: "rbind m f = Inr y \<longleftrightarrow> (\<exists>x. m = Inr x \<and> f x = Inr y)"
  by (cases m) auto

text \<open>A list comprehension whose body may raise.\<close>

fun rmap :: "('a \<Rightarrow> 'b res) \<Rightarrow> 'a list \<Rightarrow> 'b list res" where
  "rmap f [] = Inr []"
| "rmap f (x # xs) = rbind (f x) (\<lambda>y. rbind (rmap f xs) (\<lambda>ys. Inr (y # ys)))"

text \<open>A loop that threads a state and stops at the first exception.\<close>

fun rfold :: "('s \<Rightarrow> 'a \<Rightarrow> 's res) \<Rightarrow> 's \<Rightarrow> 'a list \<Rightarrow> 's res" where
  "rfold f s [] = Inr s"
| "rfold f s (x # xs) = rbind (f s x) (\<lambda>s'. rfold f s' xs)"

lemma rmap_Inr:
  "(\<And>x. x \<in> set xs \<Longrightarrow> f x = Inr (g x)) \<Longrightarrow> rmap f xs = Inr (map g xs)"
  by (induction xs) auto

lemma rmap_eq_Inr_iff:
  "rmap f xs = Inr ys \<longleftrightarrow> list_all2 (\<lambda>x y. f x = Inr y) xs ys"
proof (induction xs arbitrary: ys)
  case Nil
  then show ?case by auto
next
  case (Cons x xs)
  then show ?case
    by (cases ys) (auto simp: rbind_eq_Inr)
qed

lemma rmap_cong:
  "(\<And>x. x \<in> set xs \<Longrightarrow> f x = g x) \<Longrightarrow> rmap f xs = rmap g xs"
  by (induction xs) auto

lemma rmap_map: "rmap f (map g xs) = rmap (\<lambda>x. f (g x)) xs"
  by (induction xs) auto

lemma rfold_append: "rfold f s (xs @ ys) = rbind (rfold f s xs) (\<lambda>s'. rfold f s' ys)"
  by (induction xs arbitrary: s) (auto simp: rbind_def split: sum.splits)

lemma rfold_map: "rfold f s (map g xs) = rfold (\<lambda>s x. f s (g x)) s xs"
  by (induction xs arbitrary: s) auto

lemma rfold_pure:
  "(\<And>s x. x \<in> set xs \<Longrightarrow> P s \<Longrightarrow> f s x = Inr (g s x) \<and> P (g s x)) \<Longrightarrow> P s
    \<Longrightarrow> rfold f s xs = Inr (foldl g s xs) \<and> P (foldl g s xs)"
  by (induction xs arbitrary: s) auto

lemma rfold_inv:
  assumes "rfold f s xs = Inr s'" and "P s"
    and "\<And>s x t. x \<in> set xs \<Longrightarrow> P s \<Longrightarrow> f s x = Inr t \<Longrightarrow> P t"
  shows "P s'"
  using assms
proof (induction xs arbitrary: s)
  case Nil
  then show ?case by simp
next
  case (Cons x xs)
  from Cons.prems(1) obtain t where "f s x = Inr t" and "rfold f t xs = Inr s'"
    by (auto simp: rbind_eq_Inr)
  with Cons.prems Cons.IH show ?case by (metis list.set_intros(1) list.set_intros(2))
qed

definition py_nth :: "'a list \<Rightarrow> nat \<Rightarrow> 'a res" where
  "py_nth xs i = (if i < length xs then Inr (xs ! i) else Inl IndexErr)"

lemma py_nth_simps [simp]:
  "py_nth [] i = Inl IndexErr"
  "py_nth (x # xs) 0 = Inr x"
  "py_nth (x # xs) (Suc i) = py_nth xs i"
  by (simp_all add: py_nth_def)

lemma py_nth_numeral [simp]:
  "py_nth (x # xs) (numeral n) = py_nth xs (pred_numeral n)"
  "py_nth (x # xs) 1 = py_nth xs 0"
  by (simp_all add: numeral_eq_Suc)

declare length_dropWhile_le [termination_simp]

section \<open>Dictionaries\<close>

type_synonym ('k, 'v) dict = "('k \<times> 'v) list"

abbreviation dkeys :: "('k, 'v) dict \<Rightarrow> 'k list" where
  "dkeys d \<equiv> map fst d"

abbreviation dvals :: "('k, 'v) dict \<Rightarrow> 'v list" where
  "dvals d \<equiv> map snd d"

definition dget :: "('k, 'v) dict \<Rightarrow> 'k \<Rightarrow> 'v res" where
  "dget d k = (case map_of d k of None \<Rightarrow> Inl KeyErr | Some v \<Rightarrow> Inr v)"

fun dput :: "('k, 'v) dict \<Rightarrow> 'k \<Rightarrow> 'v \<Rightarrow> ('k, 'v) dict" where
  "dput [] k v = [(k, v)]"
| "dput ((k', v') # d) k v = (if k' = k then (k, v) # d else (k', v') # dput d k v)"

definition ddel :: "('k, 'v) dict \<Rightarrow> 'k \<Rightarrow> ('k, 'v) dict" where
  "ddel d k = filter (\<lambda>p. fst p \<noteq> k) d"

lemma map_of_dput [simp, dict_simps]: "map_of (dput d k v) = (map_of d)(k \<mapsto> v)"
  by (induction d k v rule: dput.induct) (auto simp: fun_eq_iff)

lemma set_dkeys_dput [simp]: "set (dkeys (dput d k v)) = insert k (set (dkeys d))"
  by (induction d k v rule: dput.induct) auto

lemma fst_set_dput [simp]: "fst ` set (dput d k v) = insert k (fst ` set d)"
  using set_dkeys_dput [of d k v] by simp

lemma in_set_dput: "(a, b) \<in> set (dput d k v) \<Longrightarrow> a = k \<or> (a, b) \<in> set d"
  by (induction d k v rule: dput.induct) (auto split: if_splits)

lemma dkeys_dput_present [simp]: "k \<in> set (dkeys d) \<Longrightarrow> dkeys (dput d k v) = dkeys d"
  by (induction d k v rule: dput.induct) auto

lemma dput_new: "k \<notin> set (dkeys d) \<Longrightarrow> dput d k v = d @ [(k, v)]"
  by (induction d k v rule: dput.induct) auto

lemma distinct_dput [simp]: "distinct (dkeys d) \<Longrightarrow> distinct (dkeys (dput d k v))"
  by (induction d k v rule: dput.induct) (auto dest: in_set_dput image_eqI [of _ fst])

lemma dget_dput [dict_simps]: "dget (dput d k v) k' = (if k' = k then Inr v else dget d k')"
  by (simp add: dget_def)

lemma dget_Inr_iff: "dget d k = Inr v \<longleftrightarrow> map_of d k = Some v"
  by (auto simp: dget_def split: option.splits)

lemma dget_in_keys: "k \<in> set (dkeys d) \<Longrightarrow> \<exists>v. dget d k = Inr v \<and> (k, v) \<in> set d"
  by (auto simp: dget_def map_of_eq_None_iff image_iff split: option.splits
      dest: map_of_SomeD)

lemma dget_KeyErr: "k \<notin> set (dkeys d) \<Longrightarrow> dget d k = Inl KeyErr"
  by (simp add: dget_def map_of_eq_None_iff [THEN iffD2])

lemma map_of_ddel [dict_simps]: "map_of (ddel d k) = (map_of d)(k := None)"
  by (induction d) (auto simp: ddel_def fun_eq_iff)

lemma dkeys_ddel: "set (dkeys (ddel d k)) = set (dkeys d) - {k}"
  by (auto simp: ddel_def)

lemma distinct_ddel [simp]: "distinct (dkeys d) \<Longrightarrow> distinct (dkeys (ddel d k))"
  by (simp add: ddel_def distinct_map_filter)

lemma map_of_eq_Some_distinct:
  "distinct (dkeys d) \<Longrightarrow> (map_of d k = Some v) = ((k, v) \<in> set d)"
  by simp

lemma dput_dput [simp]: "dput (dput d k v) k w = dput d k w"
  by (induction d k v rule: dput.induct) auto

lemma dput_same: "map_of d k = Some v \<Longrightarrow> dput d k v = d"
  by (induction d k v rule: dput.induct) (auto split: if_splits)

lemma map_of_in_keys: "map_of d k = Some v \<Longrightarrow> k \<in> set (dkeys d)"
  by (induction d) (auto split: if_splits)

lemma in_keys_iff: "k \<in> set (dkeys d) \<longleftrightarrow> map_of d k \<noteq> None"
  "k \<in> fst ` set d \<longleftrightarrow> map_of d k \<noteq> None"
  by (simp_all add: map_of_eq_None_iff)

lemma key_lookup:
  assumes "k \<in> set (dkeys d)"
  obtains v where "map_of d k = Some v"
proof -
  have "map_of d k \<noteq> None" by (rule in_keys_iff(1) [THEN iffD1, OF assms])
  then show thesis using that by blast
qed

lemma key_lookup_None: "k \<notin> set (dkeys d) \<Longrightarrow> map_of d k = None"
  by (simp add: map_of_eq_None_iff)

text \<open>
  A loop whose body changes the entry of its own key only. With distinct keys every entry
  is the one its own iteration made from the entry before the loop.
\<close>

lemma rfold_per_key:
  assumes "distinct (map key xs)"
    and "\<And>s x. x \<in> set xs \<Longrightarrow> P x (map_of s (key x)) \<Longrightarrow>
           \<exists>t. step s x = Inr t \<and> map_of t = (map_of s)(key x := G x (map_of s (key x)))"
    and "\<And>x. x \<in> set xs \<Longrightarrow> P x (map_of s (key x))"
  shows "\<exists>s'. rfold step s xs = Inr s' \<and>
     (\<forall>k. map_of s' k = (case find (\<lambda>x. key x = k) xs of
        Some x \<Rightarrow> G x (map_of s k) | None \<Rightarrow> map_of s k))"
  using assms
proof (induction xs arbitrary: s)
  case (Cons x xs)
  obtain t where step: "step s x = Inr t"
    and t: "map_of t = (map_of s)(key x := G x (map_of s (key x)))"
    using Cons.prems(2,3) by force
  have nk: "key y \<noteq> key x" if "y \<in> set xs" for y
    using Cons.prems(1) that by (metis distinct.simps(2) imageI list.simps(9) set_map)
  have "\<exists>s'. rfold step t xs = Inr s' \<and>
     (\<forall>k. map_of s' k = (case find (\<lambda>x. key x = k) xs of
        Some x \<Rightarrow> G x (map_of t k) | None \<Rightarrow> map_of t k))"
  proof (rule Cons.IH)
    show "distinct (map key xs)" using Cons.prems(1) by simp
    show "\<And>y. y \<in> set xs \<Longrightarrow> P y (map_of t (key y))"
      using Cons.prems(3) nk by (simp add: t)
    show "\<And>u y. y \<in> set xs \<Longrightarrow> P y (map_of u (key y)) \<Longrightarrow>
        \<exists>v. step u y = Inr v \<and> map_of v = (map_of u)(key y := G y (map_of u (key y)))"
      by (rule Cons.prems(2)) simp_all
  qed
  then obtain s' where s': "rfold step t xs = Inr s'"
    and m: "\<And>k. map_of s' k = (case find (\<lambda>x. key x = k) xs of
        Some x \<Rightarrow> G x (map_of t k) | None \<Rightarrow> map_of t k)" by blast
  have "find (\<lambda>y. key y = key x) xs = None"
    using nk by (auto simp: find_None_iff)
  then have "map_of s' k = (case find (\<lambda>x. key x = k) (x # xs) of
        Some x \<Rightarrow> G x (map_of s k) | None \<Rightarrow> map_of s k)" for k
    using m [of k] by (cases "key x = k") (auto simp: t split: option.split)
  with step s' show ?case by simp
qed simp

lemma find_key:
  "distinct (map key xs) \<Longrightarrow> x \<in> set xs \<Longrightarrow> find (\<lambda>y. key y = key x) xs = Some x"
  by (induction xs) (auto intro: rev_image_eqI)

lemma find_key_None: "k \<notin> key ` set xs \<Longrightarrow> find (\<lambda>y. key y = k) xs = None"
  by (auto simp: find_None_iff)

text \<open>Building a dictionary by a loop over distinct keys lists the pairs in that order.\<close>

lemma foldl_dput_distinct:
  "distinct (map f xs) \<Longrightarrow> set (map f xs) \<inter> set (dkeys d) = {} \<Longrightarrow>
   foldl (\<lambda>d x. dput d (f x) (g x)) d xs = d @ map (\<lambda>x. (f x, g x)) xs"
  by (induction xs arbitrary: d) (auto simp: dput_new)

text \<open>The iteration order of a dictionary, as an argument.\<close>

definition is_order :: "('k list \<Rightarrow> 'k list) \<Rightarrow> bool" where
  "is_order p \<longleftrightarrow> (\<forall>ks. mset (p ks) = mset ks)"

definition reorder :: "('k list \<Rightarrow> 'k list) \<Rightarrow> ('k, 'v) dict \<Rightarrow> ('k, 'v) dict" where
  "reorder p d = concat (map (\<lambda>k. case map_of d k of None \<Rightarrow> [] | Some v \<Rightarrow> [(k, v)]) (p (dkeys d)))"

lemma is_order_set: "is_order p \<Longrightarrow> set (p ks) = set ks"
  by (metis is_order_def set_mset_mset)

lemma is_order_distinct: "is_order p \<Longrightarrow> distinct (p ks) = distinct ks"
  by (metis is_order_def mset_eq_imp_distinct_iff)

lemma is_order_id [simp]: "is_order (\<lambda>ks. ks)"
  by (simp add: is_order_def)

lemma is_order_rev [simp]: "is_order rev"
  by (simp add: is_order_def)

lemma reorder_eq:
  assumes "is_order p"
  shows "reorder p d = map (\<lambda>k. (k, the (map_of d k))) (p (dkeys d))"
proof -
  have "\<forall>k \<in> set (p (dkeys d)). \<exists>v. map_of d k = Some v"
    using is_order_set [OF assms, of "dkeys d"]
    by (metis map_of_eq_None_iff not_None_eq set_map)
  then have "\<forall>k \<in> set ks. \<exists>v. map_of d k = Some v \<Longrightarrow>
      concat (map (\<lambda>k. case map_of d k of None \<Rightarrow> [] | Some v \<Rightarrow> [(k, v)]) ks)
        = map (\<lambda>k. (k, the (map_of d k))) ks" for ks
    by (induction ks) auto
  with \<open>\<forall>k \<in> set (p (dkeys d)). _ k\<close> show ?thesis by (auto simp: reorder_def)
qed

lemma dkeys_reorder [simp]: "is_order p \<Longrightarrow> dkeys (reorder p d) = p (dkeys d)"
  by (simp add: reorder_eq comp_def)

lemma map_of_reorder [simp]: "is_order p \<Longrightarrow> map_of (reorder p d) = map_of d"
proof
  fix k
  assume p: "is_order p"
  have *: "map_of (map (\<lambda>k. (k, f k)) ks) k = (if k \<in> set ks then Some (f k) else None)"
    for f :: "'a \<Rightarrow> 'b" and ks
    by (induction ks) auto
  show "map_of (reorder p d) k = map_of d k"
    using is_order_set [OF p, of "dkeys d"]
    by (auto simp: reorder_eq [OF p] * map_of_eq_None_iff split: if_splits)
       (metis map_of_eq_None_iff option.collapse)
qed

lemma dget_reorder [simp]: "is_order p \<Longrightarrow> dget (reorder p d) k = dget d k"
  by (simp add: dget_def)

lemma set_reorder [simp]: "is_order p \<Longrightarrow> distinct (dkeys d) \<Longrightarrow> set (reorder p d) = set d"
proof -
  assume p: "is_order p" and d: "distinct (dkeys d)"
  then have "distinct (dkeys (reorder p d))" by (simp add: is_order_distinct)
  then show ?thesis
    by (metis d map_of_eq_Some_distinct map_of_reorder p subrelI subset_antisym)
qed

end
