(* ===== verification/PyStr.thy ===== *)
theory PyStr
  imports Prelude
begin

text \<open>
  Python 2 byte strings: decimal notation, \<^verbatim>\<open>int(s)\<close>, \<^verbatim>\<open>str(i)\<close>, \<^verbatim>\<open>split\<close>, \<^verbatim>\<open>join\<close>,
  \<^verbatim>\<open>strip\<close>, \<^verbatim>\<open>in\<close>, the splitting of \<^verbatim>\<open>re.split('(\d+)', s)\<close>, and the ordering of a value
  that is an integer or a string (an integer is smaller than any string).
\<close>

section \<open>Decimal notation\<close>

definition is_digit :: "char \<Rightarrow> bool" where
  "is_digit c \<longleftrightarrow> 48 \<le> (of_char c :: nat) \<and> (of_char c :: nat) \<le> 57"

definition digit_val :: "char \<Rightarrow> nat" where
  "digit_val c = of_char c - 48"

definition digit_char :: "nat \<Rightarrow> char" where
  "digit_char d = char_of (48 + d)"

lemma of_digit_char [simp]: "d < 10 \<Longrightarrow> (of_char (digit_char d) :: nat) = 48 + d"
  by (simp add: digit_char_def)

lemma is_digit_digit_char [simp]: "d < 10 \<Longrightarrow> is_digit (digit_char d)"
  by (simp add: is_digit_def)

lemma digit_val_digit_char [simp]: "d < 10 \<Longrightarrow> digit_val (digit_char d) = d"
  by (simp add: digit_val_def)

fun str_of_nat :: "nat \<Rightarrow> string" where
  "str_of_nat n = (if n < 10 then [digit_char n] else str_of_nat (n div 10) @ [digit_char (n mod 10)])"

declare str_of_nat.simps [simp del]

definition str_of_int :: "int \<Rightarrow> string" where
  "str_of_int i = (if i < 0 then CHR ''-'' # str_of_nat (nat (- i)) else str_of_nat (nat i))"

definition nat_of_str :: "string \<Rightarrow> nat" where
  "nat_of_str s = foldl (\<lambda>n c. 10 * n + digit_val c) 0 s"

definition py_isdigit :: "string \<Rightarrow> bool" where
  "py_isdigit s \<longleftrightarrow> s \<noteq> [] \<and> list_all is_digit s"

lemma str_of_nat_nonempty [simp]: "str_of_nat n \<noteq> []"
  by (subst str_of_nat.simps) simp

lemma str_of_nat_digits: "\<forall>c \<in> set (str_of_nat n). is_digit c"
proof (induction n rule: str_of_nat.induct)
  case (1 n)
  then show ?case by (subst str_of_nat.simps) auto
qed

lemma py_isdigit_str_of_nat [simp]: "py_isdigit (str_of_nat n)"
  using str_of_nat_digits by (simp add: py_isdigit_def list_all_iff)

lemma nat_of_str_append_digit: "nat_of_str (s @ [c]) = 10 * nat_of_str s + digit_val c"
  by (simp add: nat_of_str_def)

lemma nat_of_str_of_nat [simp]: "nat_of_str (str_of_nat n) = n"
proof (induction n rule: str_of_nat.induct)
  case (1 n)
  then show ?case
    by (subst str_of_nat.simps) (auto simp: nat_of_str_append_digit, simp add: nat_of_str_def)
qed

lemma str_of_nat_inject [simp]: "str_of_nat m = str_of_nat n \<longleftrightarrow> m = n"
  by (metis nat_of_str_of_nat)

lemma str_of_nat_not_in: "\<not> is_digit c \<Longrightarrow> c \<notin> set (str_of_nat n)"
  using str_of_nat_digits by blast

section \<open>White space and int\<close>

definition is_space :: "char \<Rightarrow> bool" where
  "is_space c \<longleftrightarrow> (of_char c :: nat) = 32 \<or> (9 \<le> (of_char c :: nat) \<and> (of_char c :: nat) \<le> 13)"

definition py_strip :: "string \<Rightarrow> string" where
  "py_strip s = rev (dropWhile is_space (rev (dropWhile is_space s)))"

lemma not_digit_space: "is_digit c \<Longrightarrow> \<not> is_space c"
  by (auto simp: is_digit_def is_space_def)

lemma py_strip_id:
  assumes "s \<noteq> []" and "\<not> is_space (hd s)" and "\<not> is_space (last s)"
  shows "py_strip s = s"
proof -
  from assms(1,2) have "dropWhile is_space s = s" by (cases s) auto
  moreover from assms(1,3) have "dropWhile is_space (rev s) = rev s"
    by (cases "rev s") (auto simp: last_rev [symmetric] hd_rev dest: arg_cong [of _ _ rev])
  ultimately show ?thesis by (simp add: py_strip_def)
qed

lemma py_strip_Nil [simp]: "py_strip [] = []"
  by (simp add: py_strip_def)

lemma py_strip_append_space:
  "is_space c \<Longrightarrow> \<not> list_all is_space s \<Longrightarrow> py_strip (s @ [c]) = py_strip s"
proof (induction s)
  case (Cons x s)
  show ?case
  proof (cases "is_space x")
    case True
    with Cons show ?thesis by (simp add: py_strip_def)
  next
    case False
    with Cons.prems(1) show ?thesis by (simp add: py_strip_def)
  qed
qed simp

text \<open>
  \<^verbatim>\<open>int(s)\<close>: white space around the literal, one optional sign, at least one digit;
  anything else is a \<^verbatim>\<open>ValueError\<close>.
\<close>

definition py_int :: "string \<Rightarrow> int res" where
  "py_int s =
     (case py_strip s of
        [] \<Rightarrow> Inl ValueErr
      | c # ds \<Rightarrow>
          if c = CHR ''-'' then
            (if py_isdigit ds then Inr (- int (nat_of_str ds)) else Inl ValueErr)
          else if c = CHR ''+'' then
            (if py_isdigit ds then Inr (int (nat_of_str ds)) else Inl ValueErr)
          else if py_isdigit (c # ds) then Inr (int (nat_of_str (c # ds))) else Inl ValueErr)"

lemma strip_digits:
  assumes "s \<noteq> []" and "\<forall>c \<in> set s. \<not> is_space c"
  shows "py_strip s = s"
  using assms by (intro py_strip_id) auto

lemma sign_not_digit: "\<not> is_digit (CHR ''-'')" "\<not> is_digit (CHR ''+'')"
  "\<not> is_space (CHR ''-'')"
  by (simp_all add: is_digit_def is_space_def)

lemma py_int_str_of_nat [simp]: "py_int (str_of_nat n) = Inr (int n)"
proof -
  have st: "py_strip (str_of_nat n) = str_of_nat n"
    using str_of_nat_digits not_digit_space by (intro strip_digits) auto
  obtain c ds where cs: "str_of_nat n = c # ds" by (meson list.exhaust str_of_nat_nonempty)
  have "is_digit c" using str_of_nat_digits [of n] cs by simp
  then have "c \<noteq> CHR ''-''" "c \<noteq> CHR ''+''" using sign_not_digit by auto
  moreover have "py_isdigit (c # ds)" "nat_of_str (c # ds) = n"
    using cs [symmetric] by simp_all
  ultimately show ?thesis using st by (simp add: py_int_def cs)
qed

lemma py_int_str_of_int [simp]: "py_int (str_of_int i) = Inr i"
proof (cases "i < 0")
  case True
  have "py_strip (CHR ''-'' # str_of_nat (nat (- i))) = CHR ''-'' # str_of_nat (nat (- i))"
    using str_of_nat_digits not_digit_space sign_not_digit by (intro strip_digits) auto
  with True show ?thesis by (simp add: str_of_int_def py_int_def)
next
  case False
  then show ?thesis by (simp add: str_of_int_def)
qed

section \<open>split, join and in\<close>

fun split_on :: "char \<Rightarrow> string \<Rightarrow> string list" where
  "split_on c [] = [[]]"
| "split_on c (x # xs) =
     (if x = c then [] # split_on c xs
      else case split_on c xs of [] \<Rightarrow> [[x]] | y # ys \<Rightarrow> (x # y) # ys)"

fun py_join :: "string \<Rightarrow> string list \<Rightarrow> string" where
  "py_join sep [] = []"
| "py_join sep [x] = x"
| "py_join sep (x # y # xs) = x @ sep @ py_join sep (y # xs)"

text \<open>\<^verbatim>\<open>x in s\<close> on strings: \<^verbatim>\<open>x\<close> is a substring.\<close>

definition py_substr :: "string \<Rightarrow> string \<Rightarrow> bool" where
  "py_substr x s \<longleftrightarrow> list_ex (\<lambda>i. take (length x) (drop i s) = x) [0..<Suc (length s)]"

lemma split_on_nonempty [simp]: "split_on c s \<noteq> []"
  by (induction c s rule: split_on.induct) (auto split: list.splits)

lemma split_on_no_sep [simp]: "c \<notin> set s \<Longrightarrow> split_on c s = [s]"
  by (induction s) auto

lemma split_on_append_sep: "c \<notin> set s \<Longrightarrow> split_on c (s @ c # t) = s # split_on c t"
proof (induction s)
  case (Cons x s)
  then show ?case by (auto split: list.splits)
qed simp

lemma split_on_join [simp]:
  "xs \<noteq> [] \<Longrightarrow> \<forall>x \<in> set xs. c \<notin> set x \<Longrightarrow> split_on c (py_join [c] xs) = xs"
  by (induction "[c]" xs rule: py_join.induct) (auto simp: split_on_append_sep)

lemma join_split_on: "py_join [c] (split_on c s) = s"
proof (induction s)
  case (Cons x s)
  show ?case
  proof (cases "split_on c s")
    case Nil
    then show ?thesis by simp
  next
    case (Cons y ys)
    with Cons.IH show ?thesis
      by (cases ys) auto
  qed
qed simp

lemma set_py_join: "set (py_join sep xs) \<subseteq> set sep \<union> \<Union> (set ` set xs)"
  by (induction sep xs rule: py_join.induct) auto

lemma py_join_eq_Nil: "sep \<noteq> [] \<Longrightarrow> py_join sep xs = [] \<longleftrightarrow> xs = [] \<or> xs = [[]]"
  by (cases "(sep, xs)" rule: py_join.cases) auto

lemma py_join_Cons: "py_join sep (x # xs) = x @ (if xs = [] then [] else sep @ py_join sep xs)"
  by (cases xs) auto

section \<open>Values with Python 2's ordering\<close>

datatype pyatom = PInt int | PStr string

instantiation pyatom :: linorder
begin

fun less_eq_pyatom :: "pyatom \<Rightarrow> pyatom \<Rightarrow> bool" where
  "PInt i \<le> PInt j \<longleftrightarrow> i \<le> j"
| "PInt i \<le> PStr t \<longleftrightarrow> True"
| "PStr s \<le> PInt j \<longleftrightarrow> False"
| "PStr s \<le> PStr t \<longleftrightarrow> s \<le> t"

definition less_pyatom :: "pyatom \<Rightarrow> pyatom \<Rightarrow> bool" where
  "x < y \<longleftrightarrow> x \<le> y \<and> \<not> y \<le> (x :: pyatom)"

instance
proof
  fix x y z :: pyatom
  show "x < y \<longleftrightarrow> x \<le> y \<and> \<not> y \<le> x" by (rule less_pyatom_def)
  show "x \<le> x" by (cases x) auto
  show "x \<le> y \<Longrightarrow> y \<le> z \<Longrightarrow> x \<le> z" by (cases x; cases y; cases z) auto
  show "x \<le> y \<Longrightarrow> y \<le> x \<Longrightarrow> x = y" by (cases x; cases y) auto
  show "x \<le> y \<or> y \<le> x" by (cases x; cases y) auto
qed

end

lemma less_pyatom_simps [simp]:
  "PInt i < PInt j \<longleftrightarrow> i < j"
  "PInt i < PStr t"
  "\<not> PStr s < PInt j"
  "PStr s < PStr t \<longleftrightarrow> s < t"
  by (auto simp: less_pyatom_def)

section \<open>Runs of digits\<close>

text \<open>\<^verbatim>\<open>re.split('(\d+)', s)\<close>: text and runs of digits alternate, text first and last.\<close>

function re_split_digits :: "string \<Rightarrow> string list" where
  "re_split_digits s =
     (let u = takeWhile (\<lambda>c. \<not> is_digit c) s;
          r = dropWhile (\<lambda>c. \<not> is_digit c) s
      in if r = [] then [u]
         else u # takeWhile is_digit r # re_split_digits (dropWhile is_digit r))"
  by pat_completeness auto
termination
proof (relation "measure length", simp_all)
  fix s :: string
  assume "\<exists>x \<in> set s. is_digit x"
  then obtain d r where r: "dropWhile (\<lambda>c. \<not> is_digit c) s = d # r" and "is_digit d"
    by (metis (no_types, lifting) dropWhile_eq_Nil_conv hd_dropWhile list.exhaust list.sel(1))
  have "length (dropWhile is_digit (d # r)) < length (d # r)"
    using \<open>is_digit d\<close> length_dropWhile_le [of is_digit r] by simp
  also have "\<dots> \<le> length s"
    using length_dropWhile_le [of "\<lambda>c. \<not> is_digit c" s] r by simp
  finally show "length (dropWhile is_digit (dropWhile (\<lambda>c. \<not> is_digit c) s)) < length s"
    using r by simp
qed

declare re_split_digits.simps [simp del]

lemma re_split_digits_name:
  assumes "\<not> is_digit c"
  shows "re_split_digits (c # str_of_nat n) = [[c], str_of_nat n, []]"
proof -
  have d: "\<forall>x \<in> set (str_of_nat n). is_digit x" by (rule str_of_nat_digits)
  then have dn: "takeWhile is_digit (str_of_nat n) = str_of_nat n"
    "dropWhile is_digit (str_of_nat n) = []"
    by (auto simp: takeWhile_eq_all_conv)
  have "takeWhile (\<lambda>c. \<not> is_digit c) (str_of_nat n) = []"
    and "dropWhile (\<lambda>c. \<not> is_digit c) (str_of_nat n) = str_of_nat n"
    using d str_of_nat_nonempty [of n] by (cases "str_of_nat n"; simp)+
  moreover have "re_split_digits [] = [[]]" by (subst re_split_digits.simps) simp
  ultimately show ?thesis
    using assms by (subst re_split_digits.simps) (simp add: Let_def dn)
qed

end
