(* ===== verification/OFProto.thy ===== *)
theory OFProto
  imports PyStr
begin

text \<open>
  The part of OpenFlow 1.3 the program uses, from Ryu's \<^verbatim>\<open>ofproto_v1_3.py\<close> and
  \<^verbatim>\<open>ofproto_v1_3_parser.py\<close>: constants and the messages as data. Integers are unbounded,
  as in Python; their widths appear where a message is packed.
\<close>

section \<open>Constants\<close>

definition OFP_VERSION :: int where "OFP_VERSION = 0x04"
definition MAX_XID :: int where "MAX_XID = 0xffffffff"
definition OFP_NO_BUFFER :: int where "OFP_NO_BUFFER = 0xffffffff"
definition OFPP_FLOOD :: int where "OFPP_FLOOD = 0xfffffffb"
definition OFPP_ANY :: int where "OFPP_ANY = 0xffffffff"
definition OFPIT_APPLY_ACTIONS :: int where "OFPIT_APPLY_ACTIONS = 4"
definition OFPCML_MAX :: int where "OFPCML_MAX = 0xffe5"
definition OFPC_FRAG_NORMAL :: int where "OFPC_FRAG_NORMAL = 0"
definition OFPTT_ALL :: int where "OFPTT_ALL = 0xff"
definition OFPFC_ADD :: int where "OFPFC_ADD = 0"
definition OFPFC_DELETE :: int where "OFPFC_DELETE = 3"
definition OFP_DEFAULT_PRIORITY :: int where "OFP_DEFAULT_PRIORITY = 0x8000"
definition OFPFF_SEND_FLOW_REM :: int where "OFPFF_SEND_FLOW_REM = 1"
definition OFPFF_RESET_COUNTS :: int where "OFPFF_RESET_COUNTS = 4"
definition OFPG_ANY :: int where "OFPG_ANY = 0xffffffff"
definition OFPMPF_REPLY_MORE :: int where "OFPMPF_REPLY_MORE = 1"
definition OFPPR_ADD :: int where "OFPPR_ADD = 0"
definition OFPPR_DELETE :: int where "OFPPR_DELETE = 1"
definition OFPPR_MODIFY :: int where "OFPPR_MODIFY = 2"
definition OFPET_HELLO_FAILED :: int where "OFPET_HELLO_FAILED = 0"
definition OFPHFC_INCOMPATIBLE :: int where "OFPHFC_INCOMPATIBLE = 0"

section \<open>Messages\<close>

record of_port =
  po_port_no :: int
  po_hw_addr :: string
  po_name :: string
  po_config :: int
  po_state :: int
  po_curr :: int
  po_advertised :: int
  po_supported :: int
  po_peer :: int
  po_curr_speed :: int
  po_max_speed :: int

record port_stats =
  ps_port_no :: int
  ps_rx_packets :: int
  ps_tx_packets :: int
  ps_rx_bytes :: int
  ps_tx_bytes :: int
  ps_rx_dropped :: int
  ps_tx_dropped :: int
  ps_rx_errors :: int
  ps_tx_errors :: int
  ps_rx_frame_err :: int
  ps_rx_over_err :: int
  ps_rx_crc_err :: int
  ps_collisions :: int
  ps_duration_sec :: int
  ps_duration_nsec :: int

text \<open>\<^verbatim>\<open>OFPMatch(field=value)\<close>: the fields the program sets, the values as given.\<close>

datatype oxm = OxmInPort pyatom | OxmEthSrc string | OxmEthDst string

type_synonym of_match = "oxm list"

datatype of_action = ActionOutput pyatom int

text \<open>\<^verbatim>\<open>OFPActionOutput(port, max_len=OFPCML_MAX)\<close>\<close>

definition OFPActionOutput :: "pyatom \<Rightarrow> of_action" where
  "OFPActionOutput port = ActionOutput port OFPCML_MAX"

datatype of_instruction = InstructionActions int "of_action list"

record flow_mod =
  fm_cookie :: int
  fm_cookie_mask :: int
  fm_table_id :: int
  fm_command :: int
  fm_idle_timeout :: int
  fm_hard_timeout :: int
  fm_priority :: int
  fm_buffer_id :: int
  fm_out_port :: int
  fm_out_group :: int
  fm_flags :: int
  fm_match :: of_match
  fm_instructions :: "of_instruction list"

text \<open>\<^verbatim>\<open>OFPFlowMod(datapath)\<close> with the default of every argument.\<close>

definition flow_mod_default :: flow_mod where
  "flow_mod_default = \<lparr>fm_cookie = 0, fm_cookie_mask = 0, fm_table_id = 0, fm_command = OFPFC_ADD,
     fm_idle_timeout = 0, fm_hard_timeout = 0, fm_priority = OFP_DEFAULT_PRIORITY,
     fm_buffer_id = OFP_NO_BUFFER, fm_out_port = 0, fm_out_group = 0, fm_flags = 0,
     fm_match = [], fm_instructions = []\<rparr>"

text \<open>The messages the controller sends; the error's data is its text.\<close>

datatype of_msg =
    OFPHello
  | OFPErrorMsg int int string
  | OFPFeaturesRequest
  | OFPSetConfig int int
  | OFPPortDescStatsRequest int
  | OFPEchoReply string
  | OFPFlowMod flow_mod
  | OFPPortStatsRequest int int
  | OFPBarrierRequest

end
