(* ===== verification/Datapath.thy ===== *)
theory Datapath
  imports OFProto
begin

text \<open>
  A switch connection of Ryu: the state of \<^verbatim>\<open>Datapath\<close> (\<^verbatim>\<open>ryu/controller/controller.py\<close>), its
  \<^verbatim>\<open>ProtocolDesc\<close> (\<^verbatim>\<open>ofproto_protocol.py\<close>) and the handlers of \<^verbatim>\<open>OFPHandler\<close>
  (\<^verbatim>\<open>ryu/controller/ofp_handler.py\<close>) that negotiate the version and bring the connection from
  HANDSHAKE over CONFIG to MAIN. Every operation returns the new state of the connection;
  the messages sent and the state changes announced to the observers are appended to two of its fields.
  The socket and the queue behind \<^verbatim>\<open>send\<close> are not modelled.
\<close>

section \<open>State\<close>

datatype dispatcher = HANDSHAKE_DISPATCHER | CONFIG_DISPATCHER | MAIN_DISPATCHER | DEAD_DISPATCHER

record datapath =
  dp_id :: "int option"
  dp_state :: dispatcher
  dp_ports :: "(int, of_port) dict option"
  dp_xid :: int
  dp_version :: int
  dp_supported :: "int list"
  dp_sent :: "(int \<times> of_msg) list"
  dp_announced :: "dispatcher list"

definition py_max :: "int list \<Rightarrow> int res" where
  "py_max xs = (case xs of [] \<Rightarrow> Inl ValueErr | x # xs \<Rightarrow> Inr (foldl max x xs))"

definition set_state :: "datapath \<Rightarrow> dispatcher \<Rightarrow> datapath" where
  "set_state d s = d\<lparr>dp_state := s, dp_announced := dp_announced d @ [s]\<rparr>"

definition datapath_close :: "datapath \<Rightarrow> datapath" where
  "datapath_close d = set_state d DEAD_DISPATCHER"

text \<open>\<^verbatim>\<open>__init__\<close>; \<open>xid\<close> is the random number. The version is the largest supported one.\<close>

definition datapath_init :: "int list \<Rightarrow> int \<Rightarrow> datapath res" where
  "datapath_init supported xid =
     rbind (py_max supported) (\<lambda>v.
     Inr (set_state \<lparr>dp_id = None, dp_state = HANDSHAKE_DISPATCHER, dp_ports = None, dp_xid = xid,
                    dp_version = v, dp_supported = supported, dp_sent = [], dp_announced = []\<rparr>
                   HANDSHAKE_DISPATCHER))"

definition set_version :: "datapath \<Rightarrow> int \<Rightarrow> datapath res" where
  "set_version d v = (if v \<in> set (dp_supported d) then Inr (d\<lparr>dp_version := v\<rparr>) else Inl AssertErr)"

text \<open>\<^verbatim>\<open>xid += 1; xid &= MAX_XID\<close>; the mask has all of its 32 bits set.\<close>

definition set_xid :: "datapath \<Rightarrow> datapath" where
  "set_xid d = d\<lparr>dp_xid := and (dp_xid d + 1) MAX_XID\<rparr>"

text \<open>\<^verbatim>\<open>send_msg\<close> numbers a message that has no number yet.\<close>

definition send_msg :: "datapath \<Rightarrow> int option \<Rightarrow> of_msg \<Rightarrow> datapath" where
  "send_msg d xid m =
     (case xid of
        None \<Rightarrow> (let d1 = set_xid d in d1\<lparr>dp_sent := dp_sent d1 @ [(dp_xid d1, m)]\<rparr>)
      | Some x \<Rightarrow> d\<lparr>dp_sent := dp_sent d @ [(x, m)]\<rparr>)"

definition serve_hello :: "datapath \<Rightarrow> datapath" where
  "serve_hello d = send_msg d None OFPHello"

definition is_reserved_port :: "int \<Rightarrow> int \<Rightarrow> bool" where
  "is_reserved_port ofpp_max port_no \<longleftrightarrow> port_no > ofpp_max"

section \<open>Version negotiation\<close>

text \<open>Which of the four texts a refused hello is answered with; the texts are an argument.\<close>

datatype hello_failure = NoUsable | NotTheNegotiated | NotTheSmaller | Unsupported

definition hello_failed :: "(hello_failure \<Rightarrow> string) \<Rightarrow> datapath \<Rightarrow> hello_failure \<Rightarrow> datapath" where
  "hello_failed desc d why = send_msg d None (OFPErrorMsg OFPET_HELLO_FAILED OFPHFC_INCOMPATIBLE (desc why))"

text \<open>
  \<open>elements\<close> are the version lists of the hello elements, empty for a version without them. The result is
  the version to use or the reason for the error message.
\<close>

definition negotiate :: "datapath \<Rightarrow> int \<Rightarrow> int list list \<Rightarrow> (hello_failure + int) res" where
  "negotiate d version elements =
     (if elements \<noteq> [] then
        (let switch_versions = concat elements;
             usable = filter (\<lambda>v. v \<in> set (dp_supported d)) switch_versions in
         rbind (if switch_versions = [] then Inr 0 else py_max (dp_supported d)) (\<lambda>mx.
         let negotiated = filter (\<lambda>v. v \<le> mx) switch_versions in
         if negotiated \<noteq> [] \<and> usable = [] then Inr (Inl NoUsable)
         else rbind (if negotiated \<noteq> [] \<and> usable \<noteq> []
                     then rbind (py_max negotiated) (\<lambda>n. rbind (py_max usable) (\<lambda>u. Inr (n \<noteq> u)))
                     else Inr False) (\<lambda>differ.
              if differ then Inr (Inl NotTheNegotiated)
              else if usable = [] then Inr (Inl Unsupported)
              else rbind (py_max usable) (\<lambda>u. Inr (Inr u)))))
      else
        (let usable = filter (\<lambda>v. v \<le> version) (dp_supported d) in
         if usable = [] then Inr (Inl Unsupported)
         else rbind (py_max usable) (\<lambda>u.
              if u \<noteq> min version (dp_version d) then Inr (Inl NotTheSmaller)
              else Inr (Inr u))))"

definition hello_handler :: "(hello_failure \<Rightarrow> string) \<Rightarrow> datapath \<Rightarrow> int \<Rightarrow> int list list \<Rightarrow> datapath res" where
  "hello_handler desc d version elements =
     rbind (negotiate d version elements) (\<lambda>r.
     case r of
       Inl why \<Rightarrow> Inr (hello_failed desc d why)
     | Inr v \<Rightarrow> rbind (set_version d v) (\<lambda>d1.
         Inr (set_state (send_msg d1 None OFPFeaturesRequest) CONFIG_DISPATCHER)))"

section \<open>Configuration\<close>

definition switch_features_handler :: "datapath \<Rightarrow> int \<Rightarrow> (int, of_port) dict \<Rightarrow> datapath" where
  "switch_features_handler d datapath_id msg_ports =
     (let d1 = d\<lparr>dp_id := Some datapath_id,
                 dp_ports := Some (if dp_version d < 0x04 then msg_ports else [])\<rparr>;
          d2 = send_msg d1 None (OFPSetConfig OFPC_FRAG_NORMAL 128) in
      if dp_version d2 < 0x04 then set_state d2 MAIN_DISPATCHER
      else send_msg d2 None (OFPPortDescStatsRequest 0))"

text \<open>\<^verbatim>\<open>datapath.ports\<close> is still \<^verbatim>\<open>None\<close> before the features reply: storing into it is a \<^verbatim>\<open>TypeError\<close>.\<close>

definition store_ports :: "datapath \<Rightarrow> of_port list \<Rightarrow> datapath res" where
  "store_ports d body =
     rfold (\<lambda>d p. case dp_ports d of None \<Rightarrow> Inl TypeErr
       | Some ps \<Rightarrow> Inr (d\<lparr>dp_ports := Some (dput ps (po_port_no p) p)\<rparr>)) d body"

definition multipart_reply_handler :: "datapath \<Rightarrow> int \<Rightarrow> of_port list \<Rightarrow> datapath res" where
  "multipart_reply_handler d flags body =
     rbind (store_ports d body) (\<lambda>d1.
     if and flags OFPMPF_REPLY_MORE \<noteq> 0 then Inr d1 else Inr (set_state d1 MAIN_DISPATCHER))"

definition echo_request_handler :: "datapath \<Rightarrow> int \<Rightarrow> string \<Rightarrow> datapath" where
  "echo_request_handler d xid data = send_msg d (Some xid) (OFPEchoReply data)"

section \<open>The connection as a state machine\<close>

text \<open>The messages a switch sends, and the end of the connection.\<close>

datatype recv_event =
    RecvHello int "int list list"
  | RecvFeatures int "(int, of_port) dict"
  | RecvPortDesc int "of_port list"
  | RecvEcho int string
  | RecvOther
  | RecvEnd

text \<open>
  \<^verbatim>\<open>_recv_loop\<close> calls the handlers registered for the message in the current state. An exception
  ends the connection, and closing it announces DEAD.
\<close>

definition recv_handler :: "(hello_failure \<Rightarrow> string) \<Rightarrow> datapath \<Rightarrow> recv_event \<Rightarrow> datapath res" where
  "recv_handler desc d ev =
     (case ev of
        RecvHello v els \<Rightarrow> if dp_state d = HANDSHAKE_DISPATCHER then hello_handler desc d v els else Inr d
      | RecvFeatures i ps \<Rightarrow> if dp_state d = CONFIG_DISPATCHER then Inr (switch_features_handler d i ps) else Inr d
      | RecvPortDesc fl body \<Rightarrow> if dp_state d = CONFIG_DISPATCHER then multipart_reply_handler d fl body else Inr d
      | RecvEcho x data \<Rightarrow> if dp_state d \<in> {HANDSHAKE_DISPATCHER, CONFIG_DISPATCHER, MAIN_DISPATCHER}
                           then Inr (echo_request_handler d x data) else Inr d
      | RecvOther \<Rightarrow> Inr d
      | RecvEnd \<Rightarrow> Inr (datapath_close d))"

definition recv_step :: "(hello_failure \<Rightarrow> string) \<Rightarrow> datapath \<Rightarrow> recv_event \<Rightarrow> datapath" where
  "recv_step desc d ev = (case recv_handler desc d ev of Inl _ \<Rightarrow> datapath_close d | Inr d' \<Rightarrow> d')"

text \<open>The connection is closed once.\<close>

inductive connection :: "(hello_failure \<Rightarrow> string) \<Rightarrow> datapath \<Rightarrow> recv_event list \<Rightarrow> datapath \<Rightarrow> bool"
  for desc d0 where
  conn_start: "connection desc d0 [] d0"
| conn_recv: "connection desc d0 evs d \<Longrightarrow> dp_state d \<noteq> DEAD_DISPATCHER \<Longrightarrow>
    connection desc d0 (evs @ [ev]) (recv_step desc d ev)"

code_pred connection .

inductive_cases connection_snocE: "connection desc d0 (evs @ [ev]) d"

section \<open>Numbers of messages\<close>

lemma mask_xid: "and x MAX_XID = x mod 2 ^ 32"
proof -
  have "MAX_XID = mask 32" by (simp add: MAX_XID_def mask_eq_exp_minus_1)
  then show ?thesis by (metis take_bit_eq_mask take_bit_eq_mod)
qed

lemma set_xid_range: "0 \<le> dp_xid (set_xid d) \<and> dp_xid (set_xid d) < 2 ^ 32"
  by (simp add: set_xid_def mask_xid)

lemma send_msg_frame [simp]:
  "dp_id (send_msg d x m) = dp_id d" "dp_state (send_msg d x m) = dp_state d"
  "dp_ports (send_msg d x m) = dp_ports d" "dp_version (send_msg d x m) = dp_version d"
  "dp_supported (send_msg d x m) = dp_supported d" "dp_announced (send_msg d x m) = dp_announced d"
  by (simp_all add: send_msg_def set_xid_def Let_def split: option.split)

lemma send_msg_sent:
  "\<exists>y. dp_sent (send_msg d x m) = dp_sent d @ [(y, m)] \<and> (x = None \<longrightarrow> 0 \<le> y \<and> y < 2 ^ 32) \<and> (\<forall>z. x = Some z \<longrightarrow> y = z)"
  using set_xid_range [of d] by (cases x) (simp_all add: send_msg_def Let_def set_xid_def)

lemma set_state_simps [simp]:
  "dp_state (set_state d s) = s" "dp_announced (set_state d s) = dp_announced d @ [s]"
  "dp_id (set_state d s) = dp_id d" "dp_ports (set_state d s) = dp_ports d"
  "dp_version (set_state d s) = dp_version d" "dp_supported (set_state d s) = dp_supported d"
  "dp_sent (set_state d s) = dp_sent d"
  by (simp_all add: set_state_def)

section \<open>Negotiation\<close>

lemma foldl_max: "foldl max a xs = Max (insert a (set xs))" for a :: int
proof (induction xs arbitrary: a)
  case (Cons x xs)
  have "foldl max a (x # xs) = Max (insert (max a x) (set xs))" by (simp add: Cons)
  also have "\<dots> = Max (insert a (set (x # xs)))"
    by (cases "xs = []") (simp_all add: max.assoc)
  finally show ?case .
qed simp

lemma py_max_Inr: "xs \<noteq> [] \<Longrightarrow> py_max xs = Inr (Max (set xs))"
  by (cases xs) (simp_all add: py_max_def foldl_max)

lemma py_max_in: "py_max xs = Inr m \<Longrightarrow> m \<in> set xs"
  by (cases "xs = []") (auto simp: py_max_Inr intro: Max_in, simp add: py_max_def)

lemma negotiate_supported: "negotiate d v els = Inr (Inr n) \<Longrightarrow> n \<in> set (dp_supported d)"
  unfolding negotiate_def Let_def
  by (auto simp: rbind_eq_Inr split: if_splits dest!: py_max_in)

lemma hello_cases:
  assumes "hello_handler desc d v els = Inr d'"
  shows "(\<exists>why. negotiate d v els = Inr (Inl why) \<and> d' = hello_failed desc d why) \<or>
    (\<exists>n. negotiate d v els = Inr (Inr n) \<and> n \<in> set (dp_supported d) \<and>
       d' = set_state (send_msg (d\<lparr>dp_version := n\<rparr>) None OFPFeaturesRequest) CONFIG_DISPATCHER)"
proof -
  obtain r where r: "negotiate d v els = Inr r" using assms by (auto simp: hello_handler_def rbind_eq_Inr)
  show ?thesis
  proof (cases r)
    case (Inl why)
    with assms r show ?thesis by (simp add: hello_handler_def)
  next
    case (Inr n)
    with r have "n \<in> set (dp_supported d)" using negotiate_supported by blast
    with assms r Inr show ?thesis by (simp add: hello_handler_def set_version_def)
  qed
qed

lemma hello_failed_frame [simp]:
  "dp_id (hello_failed desc d why) = dp_id d" "dp_state (hello_failed desc d why) = dp_state d"
  "dp_ports (hello_failed desc d why) = dp_ports d" "dp_version (hello_failed desc d why) = dp_version d"
  "dp_supported (hello_failed desc d why) = dp_supported d" "dp_announced (hello_failed desc d why) = dp_announced d"
  by (simp_all add: hello_failed_def)

section \<open>Invariant\<close>

text \<open>What is announced to the observers is the life of the connection, in order.\<close>

definition life :: "dispatcher list" where
  "life = [HANDSHAKE_DISPATCHER, CONFIG_DISPATCHER, MAIN_DISPATCHER]"

definition dp_inv :: "datapath \<Rightarrow> bool" where
  "dp_inv d \<longleftrightarrow>
     (\<exists>n \<in> {1, 2, 3}. dp_announced d = take n life \<or> dp_announced d = take n life @ [DEAD_DISPATCHER]) \<and>
     dp_state d = last (dp_announced d) \<and>
     dp_version d \<in> set (dp_supported d) \<and>
     (dp_state d = HANDSHAKE_DISPATCHER \<longrightarrow> dp_id d = None \<and> dp_ports d = None) \<and>
     (dp_id d = None \<longleftrightarrow> dp_ports d = None)"

lemma store_ports_frame:
  "store_ports d body = Inr d' \<Longrightarrow> dp_id d' = dp_id d \<and> dp_state d' = dp_state d \<and> dp_version d' = dp_version d \<and>
    dp_supported d' = dp_supported d \<and> dp_announced d' = dp_announced d \<and> (dp_ports d' = None \<longleftrightarrow> dp_ports d = None) \<and>
    (body \<noteq> [] \<longrightarrow> dp_ports d \<noteq> None)"
  unfolding store_ports_def
proof (induction body arbitrary: d)
  case (Cons p body)
  then obtain ps where ps: "dp_ports d = Some ps" by (cases "dp_ports d") auto
  from Cons.prems ps have "rfold (\<lambda>d p. case dp_ports d of None \<Rightarrow> Inl TypeErr
       | Some ps \<Rightarrow> Inr (d\<lparr>dp_ports := Some (dput ps (po_port_no p) p)\<rparr>))
     (d\<lparr>dp_ports := Some (dput ps (po_port_no p) p)\<rparr>) body = Inr d'" by simp
  from Cons.IH [OF this] ps show ?case by simp
qed simp

fun stage :: "dispatcher \<Rightarrow> nat" where
  "stage HANDSHAKE_DISPATCHER = 1"
| "stage CONFIG_DISPATCHER = 2"
| "stage MAIN_DISPATCHER = 3"
| "stage DEAD_DISPATCHER = 0"

lemma alive_announced: "dp_inv d \<Longrightarrow> dp_state d \<noteq> DEAD_DISPATCHER \<Longrightarrow> dp_announced d = take (stage (dp_state d)) life"
  unfolding dp_inv_def life_def by (elim conjE bexE disjE) (auto simp: numeral_eq_Suc split: if_splits)

lemma dp_invI:
  assumes "dp_state d \<noteq> DEAD_DISPATCHER" and "dp_announced d = take (stage (dp_state d)) life"
    and "dp_version d \<in> set (dp_supported d)"
    and "dp_state d = HANDSHAKE_DISPATCHER \<Longrightarrow> dp_id d = None" and "dp_id d = None \<longleftrightarrow> dp_ports d = None"
  shows "dp_inv d"
  using assms unfolding dp_inv_def life_def
  by (cases "dp_state d") (auto simp: numeral_eq_Suc)

lemma dp_inv_close: "dp_inv d \<Longrightarrow> dp_state d \<noteq> DEAD_DISPATCHER \<Longrightarrow> dp_inv (datapath_close d)"
  using alive_announced [of d] unfolding dp_inv_def datapath_close_def
  by (cases "dp_state d") (auto simp: life_def numeral_eq_Suc)

lemma hello_inv:
  assumes inv: "dp_inv d" and st: "dp_state d = HANDSHAKE_DISPATCHER" and h: "hello_handler desc d v els = Inr d'"
  shows "dp_inv d'"
  using hello_cases [OF h]
proof (elim disjE exE conjE)
  fix why assume "d' = hello_failed desc d why"
  then show ?thesis using inv by (simp add: dp_inv_def)
next
  fix n assume "n \<in> set (dp_supported d)" "d' = set_state (send_msg (d\<lparr>dp_version := n\<rparr>) None OFPFeaturesRequest) CONFIG_DISPATCHER"
  then show ?thesis using inv st alive_announced [OF inv]
    by (intro dp_invI) (auto simp: dp_inv_def life_def numeral_eq_Suc)
qed

lemma features_inv:
  assumes inv: "dp_inv d" and st: "dp_state d = CONFIG_DISPATCHER"
  shows "dp_inv (switch_features_handler d i ps)"
proof (cases "dp_version d < 4")
  case True
  then show ?thesis using inv st alive_announced [OF inv]
    by (intro dp_invI) (simp_all add: switch_features_handler_def Let_def dp_inv_def life_def numeral_eq_Suc)
next
  case False
  then show ?thesis using inv st alive_announced [OF inv]
    by (intro dp_invI) (simp_all add: switch_features_handler_def Let_def dp_inv_def life_def numeral_eq_Suc)
qed

lemma multipart_cases:
  assumes "multipart_reply_handler d fl body = Inr d'"
  obtains d1 where "store_ports d body = Inr d1"
    "d' = (if and fl OFPMPF_REPLY_MORE \<noteq> 0 then d1 else set_state d1 MAIN_DISPATCHER)"
proof -
  from assms obtain d1 where d1: "store_ports d body = Inr d1"
    "(if and fl OFPMPF_REPLY_MORE \<noteq> 0 then Inr d1 else Inr (set_state d1 MAIN_DISPATCHER)) = (Inr d' :: datapath res)"
    unfolding multipart_reply_handler_def rbind_eq_Inr by blast
  have "d' = (if and fl OFPMPF_REPLY_MORE \<noteq> 0 then d1 else set_state d1 MAIN_DISPATCHER)"
    using d1(2) by (cases "and fl OFPMPF_REPLY_MORE \<noteq> 0") simp_all
  with d1(1) show thesis by (rule that)
qed

lemma features_id: "dp_id (switch_features_handler d i ps) = Some i"
  by (simp add: switch_features_handler_def Let_def)

lemma multipart_inv:
  assumes inv: "dp_inv d" and st: "dp_state d = CONFIG_DISPATCHER" and h: "multipart_reply_handler d fl body = Inr d'"
  shows "dp_inv d'"
proof -
  obtain d1 where d1: "store_ports d body = Inr d1"
    "d' = (if and fl OFPMPF_REPLY_MORE \<noteq> 0 then d1 else set_state d1 MAIN_DISPATCHER)"
    using h by (rule multipart_cases)
  then show ?thesis using store_ports_frame [OF d1(1)] inv st alive_announced [OF inv]
    by (intro dp_invI) (auto simp: dp_inv_def life_def numeral_eq_Suc)
qed

lemma recv_step_inv:
  assumes inv: "dp_inv d" and st: "dp_state d \<noteq> DEAD_DISPATCHER"
  shows "dp_inv (recv_step desc d ev)"
proof (cases "recv_handler desc d ev")
  case (Inl e)
  then show ?thesis using dp_inv_close [OF inv st] by (simp add: recv_step_def)
next
  case (Inr d')
  have "dp_inv d'"
  proof (cases ev)
    case (RecvHello v els)
    then show ?thesis using Inr inv hello_inv [OF inv] by (auto simp: recv_handler_def split: if_splits)
  next
    case (RecvFeatures i ps)
    then show ?thesis using Inr inv features_inv [OF inv] by (auto simp: recv_handler_def split: if_splits)
  next
    case (RecvPortDesc fl body)
    then show ?thesis using Inr inv multipart_inv [OF inv] by (auto simp: recv_handler_def split: if_splits)
  next
    case (RecvEcho x data)
    have "dp_inv (echo_request_handler d x data)" using inv by (simp add: echo_request_handler_def dp_inv_def)
    then show ?thesis using Inr inv RecvEcho by (auto simp: recv_handler_def split: if_splits)
  next
    case RecvOther
    then show ?thesis using Inr inv by (simp add: recv_handler_def)
  next
    case RecvEnd
    then show ?thesis using Inr dp_inv_close [OF inv st] by (simp add: recv_handler_def)
  qed
  with Inr show ?thesis by (simp add: recv_step_def)
qed

lemma datapath_init_inv: "datapath_init vs xid = Inr d \<Longrightarrow> dp_inv d"
proof -
  assume a: "datapath_init vs xid = Inr d"
  then obtain v where v: "py_max vs = Inr v" by (auto simp: datapath_init_def rbind_eq_Inr)
  with a py_max_in [OF v] show ?thesis
    by (intro dp_invI) (auto simp: datapath_init_def life_def numeral_eq_Suc)
qed

lemma serve_hello_inv [simp]: "dp_inv (serve_hello d) = dp_inv d"
  by (simp add: serve_hello_def dp_inv_def)

lemma connection_inv: "connection desc d0 evs d \<Longrightarrow> dp_inv d0 \<Longrightarrow> dp_inv d"
  by (induction rule: connection.induct) (auto intro: recv_step_inv)

section \<open>Main state\<close>

text \<open>A port description without ports, received before the features reply, is the one message that brings
  an unidentified switch to MAIN.\<close>

definition names_ports :: "recv_event \<Rightarrow> bool" where
  "names_ports ev \<longleftrightarrow> (case ev of RecvPortDesc fl body \<Rightarrow> body \<noteq> [] | _ \<Rightarrow> True)"

lemma main_known_step:
  assumes inv: "dp_inv d" and m: "dp_state d = MAIN_DISPATCHER \<Longrightarrow> dp_id d \<noteq> None" and ev: "names_ports ev"
    and main: "dp_state (recv_step desc d ev) = MAIN_DISPATCHER"
  shows "dp_id (recv_step desc d ev) \<noteq> None"
proof (cases "recv_handler desc d ev")
  case (Inl e)
  with main show ?thesis by (simp add: recv_step_def datapath_close_def)
next
  case (Inr d')
  then have step: "recv_step desc d ev = d'" by (simp add: recv_step_def)
  show ?thesis
  proof (cases ev)
    case (RecvHello v els)
    show ?thesis
    proof (cases "dp_state d = HANDSHAKE_DISPATCHER")
      case True
      with Inr RecvHello have "hello_handler desc d v els = Inr d'" by (simp add: recv_handler_def)
      from hello_cases [OF this] True main step show ?thesis by auto
    next
      case False
      with Inr RecvHello m main step show ?thesis by (simp add: recv_handler_def)
    qed
  next
    case (RecvFeatures i ps)
    then have "d' = d \<or> d' = switch_features_handler d i ps" using Inr by (auto simp: recv_handler_def split: if_splits)
    then show ?thesis using m main unfolding step by (auto simp: features_id)
  next
    case (RecvPortDesc fl body)
    show ?thesis
    proof (cases "dp_state d = CONFIG_DISPATCHER")
      case True
      with Inr RecvPortDesc have "multipart_reply_handler d fl body = Inr d'" by (simp add: recv_handler_def)
      then obtain d1 where d1: "store_ports d body = Inr d1"
        "d' = (if and fl OFPMPF_REPLY_MORE \<noteq> 0 then d1 else set_state d1 MAIN_DISPATCHER)"
        by (rule multipart_cases)
      have "dp_ports d \<noteq> None" using store_ports_frame [OF d1(1)] ev RecvPortDesc by (simp add: names_ports_def)
      then have "dp_id d \<noteq> None" using inv by (simp add: dp_inv_def)
      with d1 store_ports_frame [OF d1(1)] step show ?thesis by auto
    next
      case False
      with Inr RecvPortDesc m main step show ?thesis by (simp add: recv_handler_def)
    qed
  next
    case (RecvEcho x data)
    then have "d' = d \<or> d' = echo_request_handler d x data" using Inr by (auto simp: recv_handler_def split: if_splits)
    then show ?thesis using m main unfolding step by (auto simp: echo_request_handler_def)
  next
    case RecvOther
    with Inr m main step show ?thesis by (simp add: recv_handler_def)
  next
    case RecvEnd
    with Inr main step show ?thesis by (auto simp: recv_handler_def datapath_close_def)
  qed
qed

lemma connection_known:
  assumes "connection desc d0 evs d" and "dp_inv d0" and "dp_state d0 = HANDSHAKE_DISPATCHER"
    and "\<forall>ev \<in> set evs. names_ports ev"
  shows "dp_state d = MAIN_DISPATCHER \<longrightarrow> dp_id d \<noteq> None"
  using assms
proof (induction rule: connection.induct)
  case (conn_recv evs d ev)
  then show ?case using main_known_step [OF connection_inv [OF conn_recv.hyps(1) conn_recv.prems(1)], of ev desc] by auto
qed simp

section \<open>Properties\<close>

definition demo_dp :: datapath where
  "demo_dp = set_state \<lparr>dp_id = None, dp_state = HANDSHAKE_DISPATCHER, dp_ports = None, dp_xid = 7,
     dp_version = 4, dp_supported = [4], dp_sent = [], dp_announced = []\<rparr> HANDSHAKE_DISPATCHER"

lemma demo_dp_init: "datapath_init [4] 7 = Inr demo_dp"
  by (simp add: datapath_init_def demo_dp_def py_max_def)

definition demo_recv :: "recv_event list" where
  "demo_recv = [RecvHello 4 [], RecvFeatures 1 [], RecvPortDesc 0 [\<lparr>po_port_no = 1, po_hw_addr = [], po_name = ''s1-eth1'',
     po_config = 0, po_state = 0, po_curr = 0, po_advertised = 0, po_supported = 0, po_peer = 0,
     po_curr_speed = 0, po_max_speed = 0\<rparr>]]"

definition run_recv :: "datapath \<Rightarrow> recv_event list \<Rightarrow> datapath" where
  "run_recv d evs = foldl (recv_step (\<lambda>_. [])) d evs"

lemma serve_hello_frame [simp]:
  "dp_id (serve_hello d) = dp_id d" "dp_state (serve_hello d) = dp_state d" "dp_supported (serve_hello d) = dp_supported d"
  "dp_ports (serve_hello d) = dp_ports d" "dp_version (serve_hello d) = dp_version d"
  by (simp_all add: serve_hello_def)

lemma demo_run: "connection (\<lambda>_. []) (serve_hello demo_dp) demo_recv (run_recv (serve_hello demo_dp) demo_recv)"
proof -
  have 0: "connection (\<lambda>_. []) (serve_hello demo_dp) [] (serve_hello demo_dp)" by (rule conn_start)
  have 1: "connection (\<lambda>_. []) (serve_hello demo_dp) ([] @ [demo_recv ! 0]) (run_recv (serve_hello demo_dp) (take 1 demo_recv))"
    using conn_recv [OF 0, of "demo_recv ! 0"] by (simp add: run_recv_def demo_recv_def demo_dp_def)
  have 2: "connection (\<lambda>_. []) (serve_hello demo_dp) (([] @ [demo_recv ! 0]) @ [demo_recv ! 1]) (run_recv (serve_hello demo_dp) (take 2 demo_recv))"
    using conn_recv [OF 1, of "demo_recv ! 1"]
    by (simp add: run_recv_def demo_recv_def demo_dp_def recv_step_def recv_handler_def hello_handler_def negotiate_def
        py_max_def set_version_def)
  show ?thesis
    using conn_recv [OF 2, of "demo_recv ! 2"]
    by (simp add: run_recv_def demo_recv_def demo_dp_def recv_step_def recv_handler_def hello_handler_def negotiate_def
        py_max_def set_version_def switch_features_handler_def Let_def)
qed

text \<open>C9: whatever a switch sends, what its connection announces to the applications is a prefix of
  HANDSHAKE, CONFIG, MAIN, possibly followed by DEAD, its state is the one announced last, and its
  protocol version is a supported one.\<close>

theorem connection_life:
  assumes "datapath_init vs xid = Inr d0" and "connection desc (serve_hello d0) evs d"
  shows "(\<exists>n \<in> {1, 2, 3}. dp_announced d = take n life \<or> dp_announced d = take n life @ [DEAD_DISPATCHER]) \<and>
    dp_state d = last (dp_announced d) \<and> dp_version d \<in> set (dp_supported d)"
proof -
  have "dp_inv (serve_hello d0)" using datapath_init_inv [OF assms(1)] by simp
  with assms(2) have "dp_inv d" by (rule connection_inv)
  then show ?thesis unfolding dp_inv_def by blast
qed

theorem connection_life_demo:
  "let d = run_recv (serve_hello demo_dp) demo_recv in
    (\<exists>n \<in> {1, 2, 3}. dp_announced d = take n life \<or> dp_announced d = take n life @ [DEAD_DISPATCHER]) \<and>
    dp_state d = last (dp_announced d) \<and> dp_version d \<in> set (dp_supported d)"
  unfolding Let_def by (rule connection_life [OF demo_dp_init demo_run])

text \<open>C17: a connection is in state MAIN only when its datapath id is known, provided the switch's port
  descriptions name a port.\<close>

theorem main_is_identified:
  assumes "datapath_init vs xid = Inr d0" and "connection desc (serve_hello d0) evs d" and "\<forall>ev \<in> set evs. names_ports ev"
    and "dp_state d = MAIN_DISPATCHER"
  shows "\<exists>i. dp_id d = Some i"
proof -
  have "dp_state (serve_hello d0) = HANDSHAKE_DISPATCHER" using assms(1) by (auto simp: datapath_init_def rbind_eq_Inr)
  moreover have "dp_inv (serve_hello d0)" using datapath_init_inv [OF assms(1)] by simp
  ultimately show ?thesis using connection_known [OF assms(2)] assms(3,4) by blast
qed

theorem main_is_identified_demo: "\<exists>i. dp_id (run_recv (serve_hello demo_dp) demo_recv) = Some i"
proof (rule main_is_identified [OF demo_dp_init demo_run])
  show "\<forall>ev \<in> set demo_recv. names_ports ev" by (simp add: demo_recv_def names_ports_def)
  show "dp_state (run_recv (serve_hello demo_dp) demo_recv) = MAIN_DISPATCHER"
    by (simp add: run_recv_def demo_recv_def demo_dp_def recv_step_def recv_handler_def hello_handler_def negotiate_def
        py_max_def set_version_def switch_features_handler_def Let_def multipart_reply_handler_def store_ports_def)
qed

text \<open>C18: when the hello carries version bitmaps, the version chosen is the highest one that both sides
  support, and it is also the highest one of the switch that does not exceed the controller's
  highest; every other case is refused with a reason.\<close>

theorem negotiated_version:
  assumes "els \<noteq> []" and "dp_supported d \<noteq> []"
  shows "\<exists>r. negotiate d v els = Inr r \<and>
    (case r of
       Inr n \<Rightarrow> n = Max (set (concat els) \<inter> set (dp_supported d)) \<and>
                n = Max {w \<in> set (concat els). w \<le> Max (set (dp_supported d))}
     | Inl why \<Rightarrow> set (concat els) \<inter> set (dp_supported d) = {} \<or>
                Max (set (concat els) \<inter> set (dp_supported d)) \<noteq> Max {w \<in> set (concat els). w \<le> Max (set (dp_supported d))})"
proof -
  let ?s = "concat els" and ?sup = "dp_supported d"
  let ?us = "filter (\<lambda>v. v \<in> set ?sup) ?s"
  let ?ng = "filter (\<lambda>v. v \<le> Max (set ?sup)) ?s"
  have us: "set ?us = set ?s \<inter> set ?sup" and ng: "set ?ng = {w \<in> set ?s. w \<le> Max (set ?sup)}" by auto
  have sub: "set ?us \<subseteq> set ?ng" using assms(2) by (auto simp: Max_ge)
  show ?thesis
  proof (cases "?s = []")
    case True
    then show ?thesis using assms(1) by (simp add: negotiate_def Let_def del: concat_eq_Nil_conv set_concat)
  next
    case s: False
    show ?thesis
    proof (cases "?us = []")
      case True
      then have "set ?s \<inter> set ?sup = {}" using us by (metis empty_set)
      with True s assms show ?thesis
        by (cases "?ng = []") (simp_all add: negotiate_def Let_def py_max_Inr del: concat_eq_Nil_conv set_concat)
    next
      case False
      then have n: "?ng \<noteq> []" using sub by (metis list.set(1) set_empty subset_empty)
      have "negotiate d v els = (if Max (set ?ng) \<noteq> Max (set ?us) then Inr (Inl NotTheNegotiated) else Inr (Inr (Max (set ?us))))"
        using s False n assms by (simp add: negotiate_def Let_def py_max_Inr del: concat_eq_Nil_conv set_concat filter_empty_conv set_filter)
      then show ?thesis unfolding us ng by auto
    qed
  qed
qed

theorem negotiated_version_demo:
  "\<exists>r. negotiate demo_dp 4 [[1, 4, 5]] = Inr r \<and>
    (case r of
       Inr n \<Rightarrow> n = Max (set (concat [[1, 4, 5]]) \<inter> set (dp_supported demo_dp)) \<and>
                n = Max {w \<in> set (concat [[1, 4, 5]]). w \<le> Max (set (dp_supported demo_dp))}
     | Inl why \<Rightarrow> set (concat [[1, 4, 5]]) \<inter> set (dp_supported demo_dp) = {} \<or>
                Max (set (concat [[1, 4, 5]]) \<inter> set (dp_supported demo_dp)) \<noteq> Max {w \<in> set (concat [[1, 4, 5]]). w \<le> Max (set (dp_supported demo_dp))})"
  by (rule negotiated_version) (simp_all add: demo_dp_def)

end
