(* ===== verification/Handler.thy ===== *)
theory Handler
  imports Datapath
begin

text \<open>
  How Ryu's applications declare what they handle: \<^verbatim>\<open>ryu/controller/handler.py\<close>, the event classes of
  \<^verbatim>\<open>event.py\<close> and the events made from OpenFlow messages, \<^verbatim>\<open>ofp_event.py\<close>.

  A class of events is known by its module and name. A method carries the attribute \<^verbatim>\<open>callers\<close> once it
  was decorated; \<^verbatim>\<open>inspect.getmembers\<close> lists the methods of a class, and the classes of a module, by
  name, so they are lists here. What the interpreter has loaded (\<^verbatim>\<open>sys.modules\<close>) is the argument \<open>mods\<close>.
\<close>

section \<open>Classes, methods and events\<close>

datatype ev_cls = EvCls (ec_module: string) (ec_name: string)

record caller =
  c_dispatchers :: "dispatcher list"
  c_ev_source :: "string option"

record meth =
  m_name :: string
  m_callers :: "(ev_cls, caller) dict option"

text \<open>A class with what Ryu reads of it: \<^verbatim>\<open>_CONTEXTS\<close>, \<^verbatim>\<open>_EVENTS\<close>, \<^verbatim>\<open>OFP_VERSIONS\<close>, and the name that the
  constructor of its instances puts in place of the class name, if any.\<close>

datatype py_class = PyClass (k_module: string) (k_name: string) (k_is_app: bool) (k_rename: "string option")
  (k_methods: "meth list") (k_contexts: "(string \<times> py_class) list") (k_events: "ev_cls list")
  (k_versions: "int list option")

record py_module =
  mo_classes :: "py_class list"
  mo_service :: "string option"
  mo_required :: "string list"

text \<open>\<^verbatim>\<open>event.py\<close>: plain events, requests and replies. Events are objects: a request is filled in while it is
  on its way, so queues hold references to them.\<close>

datatype ev_kind = EventBase | EventRequestBase | EventReplyBase

record event =
  e_cls :: ev_cls
  e_kind :: ev_kind
  e_dst :: "string option"
  e_src :: "string option"
  e_sync :: bool
  e_reply_q :: "nat option"

definition EventRequest_init :: "ev_cls \<Rightarrow> event" where
  "EventRequest_init c = \<lparr>e_cls = c, e_kind = EventRequestBase, e_dst = None, e_src = None, e_sync = False, e_reply_q = None\<rparr>"

definition EventReply_init :: "ev_cls \<Rightarrow> string option \<Rightarrow> event" where
  "EventReply_init c dst = \<lparr>e_cls = c, e_kind = EventReplyBase, e_dst = dst, e_src = None, e_sync = False, e_reply_q = None\<rparr>"

section \<open>Decorators\<close>

datatype 'a may_list = PyNone | PyOne 'a | PyList "'a list"

definition listify :: "'a may_list \<Rightarrow> 'a list" where
  "listify m = (case m of PyNone \<Rightarrow> [] | PyOne x \<Rightarrow> [x] | PyList xs \<Rightarrow> xs)"

definition callers_of :: "meth \<Rightarrow> (ev_cls, caller) dict" where
  "callers_of h = (case m_callers h of None \<Rightarrow> [] | Some cs \<Rightarrow> cs)"

definition has_caller :: "meth \<Rightarrow> bool" where
  "has_caller h \<longleftrightarrow> m_callers h \<noteq> None"

definition Caller_init :: "dispatcher list \<Rightarrow> string option \<Rightarrow> caller" where
  "Caller_init ds src = \<lparr>c_dispatchers = ds, c_ev_source = src\<rparr>"

definition set_ev_cls :: "ev_cls may_list \<Rightarrow> dispatcher may_list \<Rightarrow> meth \<Rightarrow> meth" where
  "set_ev_cls evs ds h = h\<lparr>m_callers := Some
     (foldl (\<lambda>cs e. dput cs e (Caller_init (listify ds) (Some (ec_module e)))) (callers_of h) (listify evs))\<rparr>"

definition set_ev_handler :: "ev_cls may_list \<Rightarrow> dispatcher may_list \<Rightarrow> meth \<Rightarrow> meth" where
  "set_ev_handler evs ds h = h\<lparr>m_callers := Some
     (foldl (\<lambda>cs e. dput cs e (Caller_init (listify ds) None)) (callers_of h) (listify evs))\<rparr>"

lemma map_of_foldl_dput_const:
  "map_of (foldl (\<lambda>cs e. dput cs e (f e)) cs es) c = (if c \<in> set es then Some (f c) else map_of cs c)"
  by (induction es arbitrary: cs) auto

lemma distinct_foldl_dput_const:
  "distinct (dkeys cs) \<Longrightarrow> distinct (dkeys (foldl (\<lambda>cs e. dput cs e (f e)) cs es))"
  by (induction es arbitrary: cs) auto

text \<open>A later decorator replaces what an earlier one said of the same class of events.\<close>

lemma map_of_set_ev_cls:
  "map_of (callers_of (set_ev_cls evs ds h)) c =
     (if c \<in> set (listify evs) then Some (Caller_init (listify ds) (Some (ec_module c)))
      else map_of (callers_of h) c)"
  by (simp add: set_ev_cls_def callers_of_def map_of_foldl_dput_const)

lemma map_of_set_ev_handler:
  "map_of (callers_of (set_ev_handler evs ds h)) c =
     (if c \<in> set (listify evs) then Some (Caller_init (listify ds) None)
      else map_of (callers_of h) c)"
  by (simp add: set_ev_handler_def callers_of_def map_of_foldl_dput_const)

section \<open>Services\<close>

text \<open>\<^verbatim>\<open>register_service\<close> and \<^verbatim>\<open>require_app\<close> write attributes of the calling module \<open>m\<close>.\<close>

definition register_service :: "(string, py_module) dict \<Rightarrow> string \<Rightarrow> string \<Rightarrow> (string, py_module) dict res" where
  "register_service mods m service = rbind (dget mods m) (\<lambda>md.
     Inr (dput mods m (md\<lparr>mo_service := Some service\<rparr>)))"

definition require_app :: "(string, py_module) dict \<Rightarrow> string \<Rightarrow> string \<Rightarrow> (string, py_module) dict res" where
  "require_app mods m app = rbind (dget mods m) (\<lambda>md.
     Inr (dput mods m (md\<lparr>mo_required := mo_required md @ [app]\<rparr>)))"

definition method_services :: "(string, py_module) dict \<Rightarrow> py_class \<Rightarrow> string list \<Rightarrow> meth \<Rightarrow> string list res" where
  "method_services mods cls services m =
     (if has_caller m then
        rfold (\<lambda>services c.
            rbind (dget mods (ec_module c)) (\<lambda>md.
            case mo_service md of
              Some service \<Rightarrow> if service \<noteq> [] \<and> k_module cls \<noteq> service then Inr (services @ [service]) else Inr services
            | None \<Rightarrow> Inr services))
          services (dkeys (callers_of m))
      else Inr services)"

text \<open>\<open>so\<close> is the order in which \<^verbatim>\<open>list(set(services))\<close> lists the set.\<close>

definition get_dependent_services ::
    "(string list \<Rightarrow> string list) \<Rightarrow> (string, py_module) dict \<Rightarrow> py_class \<Rightarrow> string list res" where
  "get_dependent_services so mods cls =
     rbind (rfold (method_services mods cls) [] (k_methods cls)) (\<lambda>services.
     rbind (dget mods (k_module cls)) (\<lambda>m.
     Inr (so (remdups (services @ mo_required m)))))"

text \<open>What the services of a class are, without the loops.\<close>

definition provides :: "(string, py_module) dict \<Rightarrow> ev_cls \<Rightarrow> string option" where
  "provides mods c = (case map_of mods (ec_module c) of None \<Rightarrow> None | Some md \<Rightarrow> mo_service md)"

definition handled :: "py_class \<Rightarrow> ev_cls set" where
  "handled cls = {c. \<exists>m \<in> set (k_methods cls). has_caller m \<and> c \<in> set (dkeys (callers_of m))}"

definition needs :: "(string, py_module) dict \<Rightarrow> py_class \<Rightarrow> string set" where
  "needs mods cls = {s. \<exists>c \<in> handled cls. provides mods c = Some s \<and> s \<noteq> [] \<and> s \<noteq> k_module cls}
     \<union> (case map_of mods (k_module cls) of None \<Rightarrow> {} | Some m \<Rightarrow> set (mo_required m))"

text \<open>Every module that a class refers to is loaded: its own and those of its event classes.\<close>

definition imported :: "(string, py_module) dict \<Rightarrow> py_class \<Rightarrow> bool" where
  "imported mods cls \<longleftrightarrow> k_module cls \<in> set (dkeys mods) \<and> ec_module ` handled cls \<subseteq> set (dkeys mods)"

lemma method_services_spec:
  assumes "has_caller m \<Longrightarrow> ec_module ` set (dkeys (callers_of m)) \<subseteq> set (dkeys mods)"
  shows "\<exists>ss. method_services mods cls acc m = Inr ss \<and> set ss = set acc \<union>
    {s. has_caller m \<and> (\<exists>c \<in> set (dkeys (callers_of m)). provides mods c = Some s \<and> s \<noteq> [] \<and> s \<noteq> k_module cls)}"
proof (cases "has_caller m")
  case True
  let ?f = "\<lambda>services c. rbind (dget mods (ec_module c)) (\<lambda>md.
            case mo_service md of
              Some service \<Rightarrow> if service \<noteq> [] \<and> k_module cls \<noteq> service then Inr (services @ [service]) else Inr services
            | None \<Rightarrow> Inr services)"
  have "ec_module ` set cs \<subseteq> set (dkeys mods) \<Longrightarrow> \<exists>ss. rfold ?f acc cs = Inr ss \<and>
      set ss = set acc \<union> {s. \<exists>c \<in> set cs. provides mods c = Some s \<and> s \<noteq> [] \<and> s \<noteq> k_module cls}" for cs acc
  proof (induction cs arbitrary: acc)
    case (Cons c cs)
    from Cons.prems have "ec_module c \<in> set (dkeys mods)" by auto
    then obtain md where md: "map_of mods (ec_module c) = Some md" by (rule key_lookup)
    define acc' where "acc' = (case mo_service md of
        Some s \<Rightarrow> if s \<noteq> [] \<and> k_module cls \<noteq> s then acc @ [s] else acc | None \<Rightarrow> acc)"
    have f: "?f acc c = Inr acc'" using md by (simp add: dget_def acc'_def split: option.splits)
    have set': "set acc' = set acc \<union> {s. provides mods c = Some s \<and> s \<noteq> [] \<and> s \<noteq> k_module cls}"
      using md by (auto simp: acc'_def provides_def split: option.splits)
    from Cons.prems have "ec_module ` set cs \<subseteq> set (dkeys mods)" by auto
    from Cons.IH [OF this, of acc'] obtain ss where "rfold ?f acc' cs = Inr ss"
      and "set ss = set acc' \<union> {s. \<exists>c \<in> set cs. provides mods c = Some s \<and> s \<noteq> [] \<and> s \<noteq> k_module cls}" by blast
    then show ?case using f set' by (auto simp del: option.case)
  qed simp
  from this [OF assms [OF True], of acc] True show ?thesis by (simp add: method_services_def)
qed (simp add: method_services_def)

theorem get_dependent_services_spec:
  assumes so: "is_order so" and imp: "imported mods cls"
  shows "\<exists>ss. get_dependent_services so mods cls = Inr ss \<and> set ss = needs mods cls \<and> distinct ss"
proof -
  define S where "S = (\<lambda>m. {s. has_caller m \<and> (\<exists>c \<in> set (dkeys (callers_of m)).
            provides mods c = Some s \<and> s \<noteq> [] \<and> s \<noteq> k_module cls)})"
  have *: "(\<forall>m \<in> set ms. has_caller m \<longrightarrow> ec_module ` set (dkeys (callers_of m)) \<subseteq> set (dkeys mods)) \<Longrightarrow>
      \<exists>ss. rfold (method_services mods cls) acc ms = Inr ss \<and> set ss = set acc \<union> (\<Union>m \<in> set ms. S m)" for ms acc
  proof (induction ms arbitrary: acc)
    case (Cons m ms)
    from Cons.prems have m: "has_caller m \<Longrightarrow> ec_module ` set (dkeys (callers_of m)) \<subseteq> set (dkeys mods)"
      and ms: "\<forall>m \<in> set ms. has_caller m \<longrightarrow> ec_module ` set (dkeys (callers_of m)) \<subseteq> set (dkeys mods)"
      by (simp_all del: set_map)
    from method_services_spec [OF m] obtain a
      where a: "method_services mods cls acc m = Inr a" "set a = set acc \<union> S m" unfolding S_def by blast
    from Cons.IH [OF ms] obtain ss where "rfold (method_services mods cls) a ms = Inr ss"
      "set ss = set a \<union> (\<Union>m \<in> set ms. S m)" by blast
    with a show ?case by (simp add: Un_assoc)
  qed simp
  have "\<forall>m \<in> set (k_methods cls). has_caller m \<longrightarrow> ec_module ` set (dkeys (callers_of m)) \<subseteq> set (dkeys mods)"
    using imp unfolding imported_def handled_def by blast
  from * [OF this, of "[]"] obtain ss where ss: "rfold (method_services mods cls) [] (k_methods cls) = Inr ss"
    and set: "set ss = (\<Union>m \<in> set (k_methods cls). S m)" by (metis Un_empty_left list.set(1))
  from imp have "k_module cls \<in> set (dkeys mods)" by (simp add: imported_def)
  then obtain md where md: "map_of mods (k_module cls) = Some md" by (rule key_lookup)
  have "needs mods cls = (\<Union>m \<in> set (k_methods cls). S m) \<union> set (mo_required md)"
    using md unfolding needs_def handled_def S_def by (simp del: set_map) blast
  with ss set md show ?thesis
    using is_order_set [OF so, of "remdups (ss @ mo_required md)"]
      is_order_distinct [OF so, of "remdups (ss @ mo_required md)"]
    by (simp add: get_dependent_services_def dget_def)
qed

section \<open>Events of OpenFlow messages\<close>

type_synonym ofp_events = "(string, ev_cls) dict"

definition ofp_event_module :: string where
  "ofp_event_module = ''ryu.controller.ofp_event''"

definition ofp_msg_name_to_ev_name :: "string \<Rightarrow> string" where
  "ofp_msg_name_to_ev_name msg_name = ''Event'' @ msg_name"

definition ofp_msg_to_ev_cls :: "ofp_events \<Rightarrow> string \<Rightarrow> ev_cls res" where
  "ofp_msg_to_ev_cls evs msg_cls = dget evs (ofp_msg_name_to_ev_name msg_cls)"

definition create_ofp_msg_ev_class :: "ofp_events \<Rightarrow> string \<Rightarrow> ofp_events" where
  "create_ofp_msg_ev_class evs msg_cls =
     (let name = ofp_msg_name_to_ev_name msg_cls in
      if name \<in> set (dkeys evs) then evs else dput evs name (EvCls ofp_event_module name))"

text \<open>The classes of a parser module, each with whether it has the attribute \<^verbatim>\<open>cls_msg_type\<close>.\<close>

definition create_ofp_msg_ev_from_module :: "ofp_events \<Rightarrow> (string \<times> bool) list \<Rightarrow> ofp_events" where
  "create_ofp_msg_ev_from_module evs ofp_parser =
     foldl (\<lambda>evs (cls, msg). if \<not> msg then evs else create_ofp_msg_ev_class evs cls) evs ofp_parser"

definition ofp_events_of :: "(string \<times> bool) list list \<Rightarrow> ofp_events" where
  "ofp_events_of parsers = foldl create_ofp_msg_ev_from_module [] parsers"

definition ofp_events_ok :: "ofp_events \<Rightarrow> bool" where
  "ofp_events_ok evs \<longleftrightarrow> (\<forall>(n, c) \<in> set evs. c = EvCls ofp_event_module n)"

lemma create_ev_class:
  assumes "ofp_events_ok evs"
  shows "ofp_events_ok (create_ofp_msg_ev_class evs m)
    \<and> set (dkeys (create_ofp_msg_ev_class evs m)) = insert (''Event'' @ m) (set (dkeys evs))"
  using assms
  by (auto simp: create_ofp_msg_ev_class_def ofp_msg_name_to_ev_name_def ofp_events_ok_def Let_def dput_new)

lemma create_ev_module:
  "ofp_events_ok evs \<Longrightarrow> ofp_events_ok (create_ofp_msg_ev_from_module evs ps)
    \<and> set (dkeys (create_ofp_msg_ev_from_module evs ps))
      = set (dkeys evs) \<union> {''Event'' @ m |m. (m, True) \<in> set ps}"
proof (induction ps arbitrary: evs)
  case (Cons p ps)
  obtain m b where p: "p = (m, b)" by (cases p)
  show ?case
  proof (cases b)
    case True
    with Cons.IH [of "create_ofp_msg_ev_class evs m"] create_ev_class [OF Cons.prems, of m] show ?thesis
      by (auto simp: p create_ofp_msg_ev_from_module_def simp del: set_map)
  next
    case False
    with Cons.IH [OF Cons.prems] show ?thesis
      by (auto simp: p create_ofp_msg_ev_from_module_def simp del: set_map)
  qed
qed (simp add: create_ofp_msg_ev_from_module_def)

text \<open>Every message class of every version has an event class; versions share the class of a name.\<close>

theorem ofp_msg_events:
  assumes "ps \<in> set parsers" and "(m, True) \<in> set ps"
  shows "ofp_msg_to_ev_cls (ofp_events_of parsers) m = Inr (EvCls ofp_event_module (''Event'' @ m))"
proof -
  have *: "ofp_events_ok evs \<Longrightarrow> ofp_events_ok (foldl create_ofp_msg_ev_from_module evs pss)
     \<and> set (dkeys (foldl create_ofp_msg_ev_from_module evs pss))
       = set (dkeys evs) \<union> {''Event'' @ m |m. \<exists>ps \<in> set pss. (m, True) \<in> set ps}" for evs pss
  proof (induction pss arbitrary: evs)
    case (Cons ps pss)
    from Cons.IH [of "create_ofp_msg_ev_from_module evs ps"] create_ev_module [OF Cons.prems, of ps]
    show ?case by (auto simp del: set_map)
  qed simp
  have ok: "ofp_events_ok (ofp_events_of parsers)"
    and ks: "''Event'' @ m \<in> set (dkeys (ofp_events_of parsers))"
    using * [of "[]" parsers] assms by (auto simp: ofp_events_of_def ofp_events_ok_def simp del: set_map)
  from dget_in_keys [OF ks] ok show ?thesis
    by (auto simp: ofp_msg_to_ev_cls_def ofp_msg_name_to_ev_name_def ofp_events_ok_def)
qed

end
