(* ===== verification/Bricks.thy ===== *)
theory Bricks
  imports Handler
begin

text \<open>
  The routing of events among Ryu's applications: \<^verbatim>\<open>RyuApp\<close> and the table \<^verbatim>\<open>SERVICE_BRICKS\<close> of
  \<^verbatim>\<open>ryu/base/app_manager.py\<close>. Applications, events and reply queues are objects: the world maps their
  references to their states. A green thread that waits (for room in a queue, for an event, for a reply)
  is the result \<open>None\<close>: it goes on in a later world. What a handler does is the argument \<open>act\<close>.
\<close>

section \<open>State\<close>

type_synonym observers = "(ev_cls, (string, dispatcher set) dict) dict"

record app =
  a_cls :: py_class
  a_name :: string
  a_event_handlers :: "(ev_cls, meth list) dict"
  a_observers :: observers
  a_events :: "(nat \<times> dispatcher option) list"
  a_event_stop :: nat
  a_active :: bool
  a_threads :: nat

record world =
  w_apps :: "nat \<Rightarrow> app"
  w_bricks :: "(string, nat) dict"
  w_heap :: "nat \<Rightarrow> event"
  w_reply :: "nat \<Rightarrow> nat list"
  w_next :: nat

text \<open>\<^verbatim>\<open>hub.Queue(128)\<close>.\<close>

definition queue_size :: nat where
  "queue_size = 128"

definition RyuApp_init :: "py_class \<Rightarrow> nat \<Rightarrow> app" where
  "RyuApp_init cls stop_event =
     \<lparr>a_cls = cls, a_name = (case k_rename cls of None \<Rightarrow> k_name cls | Some n \<Rightarrow> n),
      a_event_handlers = [], a_observers = [], a_events = [], a_event_stop = stop_event,
      a_active = True, a_threads = 0\<rparr>"

definition upd_app :: "world \<Rightarrow> nat \<Rightarrow> app \<Rightarrow> world" where
  "upd_app w r a = w\<lparr>w_apps := (w_apps w)(r := a)\<rparr>"

lemma upd_app_simps [simp]:
  "w_apps (upd_app w r a) = (w_apps w)(r := a)" "w_bricks (upd_app w r a) = w_bricks w"
  "w_heap (upd_app w r a) = w_heap w" "w_reply (upd_app w r a) = w_reply w" "w_next (upd_app w r a) = w_next w"
  by (simp_all add: upd_app_def)

section \<open>Service bricks\<close>

definition lookup_service_brick :: "world \<Rightarrow> string \<Rightarrow> nat option" where
  "lookup_service_brick w name = map_of (w_bricks w) name"

definition mod_tail :: "string \<Rightarrow> string" where
  "mod_tail mod_name = last (split_on (CHR ''.'') mod_name)"

definition lookup_service_brick_by_mod_name :: "world \<Rightarrow> string \<Rightarrow> nat option" where
  "lookup_service_brick_by_mod_name w mod_name = lookup_service_brick w (mod_tail mod_name)"

definition lookup_service_brick_by_ev_cls :: "world \<Rightarrow> ev_cls \<Rightarrow> nat option" where
  "lookup_service_brick_by_ev_cls w c = lookup_service_brick_by_mod_name w (ec_module c)"

section \<open>Handlers and observers\<close>

definition register_handler :: "app \<Rightarrow> ev_cls \<Rightarrow> meth \<Rightarrow> app" where
  "register_handler a c h = a\<lparr>a_event_handlers :=
     dput (a_event_handlers a) c ((case map_of (a_event_handlers a) c of None \<Rightarrow> [] | Some hs \<Rightarrow> hs) @ [h])\<rparr>"

text \<open>\<^verbatim>\<open>list.remove\<close> removes the first equal element; an empty list is taken out of the dictionary.\<close>

definition unregister_handler :: "app \<Rightarrow> ev_cls \<Rightarrow> meth \<Rightarrow> app res" where
  "unregister_handler a c h = rbind (dget (a_event_handlers a) c) (\<lambda>hs.
     if h \<notin> set hs then Inl ValueErr
     else if remove1 h hs = [] then Inr (a\<lparr>a_event_handlers := ddel (a_event_handlers a) c\<rparr>)
     else Inr (a\<lparr>a_event_handlers := dput (a_event_handlers a) c (remove1 h hs)\<rparr>))"

definition register_instance :: "app \<Rightarrow> app" where
  "register_instance a =
     foldl (\<lambda>a m. if has_caller m then foldl (\<lambda>a c. register_handler a c m) a (dkeys (callers_of m)) else a)
       a (k_methods (a_cls a))"

definition register_app :: "world \<Rightarrow> nat \<Rightarrow> world res" where
  "register_app w r =
     (if a_name (w_apps w r) \<in> set (dkeys (w_bricks w)) then Inl AssertErr
      else Inr (upd_app (w\<lparr>w_bricks := dput (w_bricks w) (a_name (w_apps w r)) r\<rparr>) r
                  (register_instance (w_apps w r))))"

definition unregister_app :: "world \<Rightarrow> nat \<Rightarrow> world res" where
  "unregister_app w r =
     (if a_name (w_apps w r) \<in> set (dkeys (w_bricks w))
      then Inr (w\<lparr>w_bricks := ddel (w_bricks w) (a_name (w_apps w r))\<rparr>) else Inl KeyErr)"

text \<open>The observers of an event class; \<open>states\<close> is \<^verbatim>\<open>None\<close> or a list.\<close>

definition observers_of :: "app \<Rightarrow> ev_cls \<Rightarrow> (string, dispatcher set) dict" where
  "observers_of a c = (case map_of (a_observers a) c of None \<Rightarrow> [] | Some d \<Rightarrow> d)"

definition register_observer :: "app \<Rightarrow> ev_cls \<Rightarrow> string \<Rightarrow> dispatcher list option \<Rightarrow> app" where
  "register_observer a c name states =
     (let st = (case states of None \<Rightarrow> {} | Some ds \<Rightarrow> set ds);
          d = observers_of a c;
          old = (case map_of d name of None \<Rightarrow> {} | Some s \<Rightarrow> s)
      in a\<lparr>a_observers := dput (a_observers a) c (dput d name (old \<union> st))\<rparr>)"

definition unregister_observer :: "app \<Rightarrow> ev_cls \<Rightarrow> string \<Rightarrow> app res" where
  "unregister_observer a c name =
     (if name \<notin> set (dkeys (observers_of a c)) then Inl KeyErr
      else Inr (a\<lparr>a_observers := dput (a_observers a) c (ddel (observers_of a c) name)\<rparr>))"

definition unregister_observer_all_event :: "app \<Rightarrow> string \<Rightarrow> app" where
  "unregister_observer_all_event a name =
     a\<lparr>a_observers := map (\<lambda>(c, d). (c, ddel d name)) (a_observers a)\<rparr>"

definition observe_event :: "world \<Rightarrow> nat \<Rightarrow> ev_cls \<Rightarrow> dispatcher list option \<Rightarrow> world" where
  "observe_event w r c states =
     (case lookup_service_brick_by_ev_cls w c of None \<Rightarrow> w
      | Some b \<Rightarrow> upd_app w b (register_observer (w_apps w b) c (a_name (w_apps w r)) states))"

definition unobserve_event :: "world \<Rightarrow> nat \<Rightarrow> ev_cls \<Rightarrow> world res" where
  "unobserve_event w r c =
     (case lookup_service_brick_by_ev_cls w c of None \<Rightarrow> Inr w
      | Some b \<Rightarrow> rbind (unregister_observer (w_apps w b) c (a_name (w_apps w r))) (\<lambda>a. Inr (upd_app w b a)))"

definition handler_test :: "ev_cls \<Rightarrow> dispatcher \<Rightarrow> meth \<Rightarrow> bool" where
  "handler_test c state h =
     (case map_of (callers_of h) c of None \<Rightarrow> True
      | Some cl \<Rightarrow> c_dispatchers cl = [] \<or> state \<in> set (c_dispatchers cl))"

definition get_handlers :: "app \<Rightarrow> ev_cls \<Rightarrow> dispatcher option \<Rightarrow> meth list" where
  "get_handlers a c state =
     (let handlers = (case map_of (a_event_handlers a) c of None \<Rightarrow> [] | Some hs \<Rightarrow> hs) in
      case state of None \<Rightarrow> handlers | Some s \<Rightarrow> filter (handler_test c s) handlers)"

text \<open>\<open>ko\<close> is the iteration order of the dictionary.\<close>

definition get_observers :: "(string list \<Rightarrow> string list) \<Rightarrow> app \<Rightarrow> ev_cls \<Rightarrow> dispatcher option \<Rightarrow> string list" where
  "get_observers ko a c state =
     map fst (filter (\<lambda>(k, v). state = None \<or> v = {} \<or> the state \<in> v) (reorder ko (observers_of a c)))"

section \<open>Sending\<close>

definition hub_put :: "nat \<Rightarrow> 'a list \<Rightarrow> 'a \<Rightarrow> 'a list option" where
  "hub_put cap q x = (if length q < cap then Some (q @ [x]) else None)"

definition put_event :: "world \<Rightarrow> nat \<Rightarrow> nat \<Rightarrow> dispatcher option \<Rightarrow> world option" where
  "put_event w r ev state =
     (case hub_put queue_size (a_events (w_apps w r)) (ev, state) of None \<Rightarrow> None
      | Some q \<Rightarrow> Some (upd_app w r ((w_apps w r)\<lparr>a_events := q\<rparr>)))"

definition set_event :: "world \<Rightarrow> nat \<Rightarrow> event \<Rightarrow> world" where
  "set_event w ev e = w\<lparr>w_heap := (w_heap w)(ev := e)\<rparr>"

definition send_event :: "world \<Rightarrow> string \<Rightarrow> string \<Rightarrow> nat \<Rightarrow> dispatcher option \<Rightarrow> world option" where
  "send_event w self name ev state =
     (case map_of (w_bricks w) name of None \<Rightarrow> Some w
      | Some b \<Rightarrow>
        let w1 = (if e_kind (w_heap w ev) = EventRequestBase
                  then set_event w ev ((w_heap w ev)\<lparr>e_src := Some self\<rparr>) else w)
        in put_event w1 b ev state)"

text \<open>The loop over the observers: the world after the sends that went through and the observers still to
  be served when the sender has to wait.\<close>

fun send_all :: "world \<Rightarrow> string \<Rightarrow> string list \<Rightarrow> nat \<Rightarrow> dispatcher option \<Rightarrow> world \<times> string list" where
  "send_all w self [] ev state = (w, [])"
| "send_all w self (ob # obs) ev state =
     (case send_event w self ob ev state of None \<Rightarrow> (w, ob # obs)
      | Some w' \<Rightarrow> send_all w' self obs ev state)"

definition send_event_to_observers ::
    "(string list \<Rightarrow> string list) \<Rightarrow> world \<Rightarrow> nat \<Rightarrow> nat \<Rightarrow> dispatcher option \<Rightarrow> world \<times> string list" where
  "send_event_to_observers ko w r ev state =
     send_all w (a_name (w_apps w r)) (get_observers ko (w_apps w r) (e_cls (w_heap w ev)) state) ev state"

text \<open>\<^verbatim>\<open>send_request\<close> up to the wait for the reply, and the wait.\<close>

definition send_request :: "world \<Rightarrow> nat \<Rightarrow> nat \<Rightarrow> world option res" where
  "send_request w r req =
     (if e_kind (w_heap w req) \<noteq> EventRequestBase then Inl AssertErr
      else
        let q = w_next w;
            w1 = set_event (w\<lparr>w_reply := (w_reply w)(q := []), w_next := Suc q\<rparr>) req
                   ((w_heap w req)\<lparr>e_sync := True, e_reply_q := Some q\<rparr>)
        in case e_dst (w_heap w1 req) of None \<Rightarrow> Inr (Some w1)
           | Some dst \<Rightarrow> Inr (send_event w1 (a_name (w_apps w1 r)) dst req None))"

definition await_reply :: "world \<Rightarrow> nat \<Rightarrow> (nat \<times> world) option" where
  "await_reply w req =
     (case e_reply_q (w_heap w req) of None \<Rightarrow> None
      | Some q \<Rightarrow> (case w_reply w q of [] \<Rightarrow> None
                 | x # xs \<Rightarrow> Some (x, w\<lparr>w_reply := (w_reply w)(q := xs)\<rparr>)))"

definition reply_to_request :: "world \<Rightarrow> nat \<Rightarrow> nat \<Rightarrow> nat \<Rightarrow> world option res" where
  "reply_to_request w r req rep =
     (if e_kind (w_heap w req) \<noteq> EventRequestBase then Inl AssertErr
      else if e_kind (w_heap w rep) \<noteq> EventReplyBase then Inl AssertErr
      else
        let src = e_src (w_heap w req);
            w1 = set_event w rep ((w_heap w rep)\<lparr>e_dst := src\<rparr>)
        in if e_sync (w_heap w1 req)
           then (case e_reply_q (w_heap w1 req) of None \<Rightarrow> Inl AttributeErr
                 | Some q \<Rightarrow> Inr (Some (w1\<lparr>w_reply := (w_reply w1)(q := w_reply w1 q @ [rep])\<rparr>)))
           else (case src of None \<Rightarrow> Inr (Some w1)
                 | Some dst \<Rightarrow> Inr (send_event w1 (a_name (w_apps w1 r)) dst rep None)))"

section \<open>The event loop\<close>

type_synonym action = "nat \<Rightarrow> meth \<Rightarrow> nat \<Rightarrow> world \<Rightarrow> world res"

definition loop_guard :: "world \<Rightarrow> nat \<Rightarrow> bool" where
  "loop_guard w r \<longleftrightarrow> a_active (w_apps w r) \<or> a_events (w_apps w r) \<noteq> []"

definition handle_event :: "action \<Rightarrow> world \<Rightarrow> nat \<Rightarrow> nat \<times> dispatcher option \<Rightarrow> world res" where
  "handle_event act w r es =
     (if fst es = a_event_stop (w_apps w r) then Inr w
      else rfold (\<lambda>w h. act r h (fst es) w) w
             (get_handlers (w_apps w r) (e_cls (w_heap w (fst es))) (snd es)))"

text \<open>One pass of the loop's body; \<open>Inr None\<close>: it waits for an event.\<close>

definition loop_step :: "action \<Rightarrow> world \<Rightarrow> nat \<Rightarrow> world option res" where
  "loop_step act w r =
     (case a_events (w_apps w r) of [] \<Rightarrow> Inr None
      | es # rest \<Rightarrow>
        rbind (handle_event act (upd_app w r ((w_apps w r)\<lparr>a_events := rest\<rparr>)) r es) (\<lambda>w'. Inr (Some w')))"

text \<open>The loop run on its own: no value when it waits for ever.\<close>

partial_function (option) event_loop :: "action \<Rightarrow> world \<Rightarrow> nat \<Rightarrow> world res option" where
  "event_loop act w r =
     (if \<not> loop_guard w r then Some (Inr w)
      else case loop_step act w r of Inl e \<Rightarrow> Some (Inl e)
           | Inr None \<Rightarrow> None
           | Inr (Some w') \<Rightarrow> event_loop act w' r)"

definition app_start :: "world \<Rightarrow> nat \<Rightarrow> world" where
  "app_start w r = upd_app w r ((w_apps w r)\<lparr>a_threads := Suc (a_threads (w_apps w r))\<rparr>)"

text \<open>\<^verbatim>\<open>stop\<close> up to the wait for the thread.\<close>

definition app_stop :: "world \<Rightarrow> nat \<Rightarrow> world option" where
  "app_stop w r =
     (let w1 = upd_app w r ((w_apps w r)\<lparr>a_active := False\<rparr>)
      in put_event w1 r (a_event_stop (w_apps w1 r)) None)"

section \<open>Wiring\<close>

text \<open>\<^verbatim>\<open>_update_bricks\<close>: every application becomes an observer of the bricks that make the events it handles.\<close>

definition register_at :: "ev_cls \<Rightarrow> string \<Rightarrow> dispatcher list \<Rightarrow> world \<Rightarrow> nat \<Rightarrow> world" where
  "register_at c name ds w b = upd_app w b (register_observer (w_apps w b) c name (Some ds))"

definition update_caller :: "nat \<Rightarrow> world \<Rightarrow> ev_cls \<times> caller \<Rightarrow> world" where
  "update_caller i w cc =
     (case c_ev_source (snd cc) of
        None \<Rightarrow> w
      | Some src \<Rightarrow>
        if src = [] then w
        else
          let w1 = (case lookup_service_brick_by_mod_name w src of None \<Rightarrow> w
                    | Some b \<Rightarrow> register_at (fst cc) (a_name (w_apps w i)) (c_dispatchers (snd cc)) w b)
          in foldl (\<lambda>w b. if fst cc \<in> set (k_events (a_cls (w_apps w b)))
                         then register_at (fst cc) (a_name (w_apps w i)) (c_dispatchers (snd cc)) w b else w)
               w1 (dvals (w_bricks w)))"

definition update_brick :: "world \<Rightarrow> nat \<Rightarrow> world" where
  "update_brick w i =
     foldl (\<lambda>w m. if has_caller m then foldl (update_caller i) w (callers_of m) else w)
       w (k_methods (a_cls (w_apps w i)))"

definition update_bricks :: "world \<Rightarrow> world" where
  "update_bricks w = foldl update_brick w (dvals (w_bricks w))"

subsection \<open>What the wiring does to the observers\<close>

definition observed :: "world \<Rightarrow> nat \<Rightarrow> ev_cls \<Rightarrow> string \<Rightarrow> dispatcher set option" where
  "observed w b c name = map_of (observers_of (w_apps w b) c) name"

text \<open>Only the observers differ.\<close>

definition app_core :: "app \<Rightarrow> app" where
  "app_core a = a\<lparr>a_observers := []\<rparr>"

definition same_apps :: "world \<Rightarrow> world \<Rightarrow> bool" where
  "same_apps w w' \<longleftrightarrow> w_bricks w' = w_bricks w \<and> w_heap w' = w_heap w \<and> w_reply w' = w_reply w \<and> w_next w' = w_next w
     \<and> (\<forall>r. app_core (w_apps w' r) = app_core (w_apps w r))"

lemma app_core_eq:
  "app_core a = app_core b \<Longrightarrow> a_cls a = a_cls b \<and> a_name a = a_name b \<and> a_events a = a_events b
     \<and> a_event_handlers a = a_event_handlers b"
  by (cases a, cases b) (simp add: app_core_def)

lemma same_apps_refl [simp]: "same_apps w w"
  by (simp add: same_apps_def)

lemma same_apps_trans: "same_apps w w' \<Longrightarrow> same_apps w' w'' \<Longrightarrow> same_apps w w''"
  by (simp add: same_apps_def)

lemma same_apps_simps:
  assumes "same_apps w w'"
  shows "a_cls (w_apps w' r) = a_cls (w_apps w r)" "a_name (w_apps w' r) = a_name (w_apps w r)"
    "a_events (w_apps w' r) = a_events (w_apps w r)" "a_event_handlers (w_apps w' r) = a_event_handlers (w_apps w r)"
    "w_bricks w' = w_bricks w" "w_heap w' = w_heap w"
  using assms app_core_eq [of "w_apps w' r" "w_apps w r"] by (auto simp: same_apps_def)

lemma same_apps_register [simp]: "same_apps w (register_at c name ds w b)"
  by (simp add: same_apps_def register_at_def register_observer_def Let_def app_core_def)

lemma observed_register:
  "observed (register_at c name ds w b) b' c' name' =
     (if b' = b \<and> c' = c \<and> name' = name
      then Some ((case observed w b c name of None \<Rightarrow> {} | Some s \<Rightarrow> s) \<union> set ds)
      else observed w b' c' name')"
  by (auto simp: observed_def register_at_def register_observer_def observers_of_def Let_def)

text \<open>A registration as data, and the whole wiring as a list of registrations.\<close>

type_synonym registration = "nat \<times> ev_cls \<times> string \<times> dispatcher list"

definition do_reg :: "world \<Rightarrow> registration \<Rightarrow> world" where
  "do_reg w g = (case g of (b, c, name, ds) \<Rightarrow> register_at c name ds w b)"

definition caller_regs :: "world \<Rightarrow> nat \<Rightarrow> ev_cls \<times> caller \<Rightarrow> registration list" where
  "caller_regs w i cc =
     (case c_ev_source (snd cc) of None \<Rightarrow> []
      | Some src \<Rightarrow> if src = [] then [] else
          map (\<lambda>b. (b, fst cc, a_name (w_apps w i), c_dispatchers (snd cc)))
            ((case lookup_service_brick_by_mod_name w src of None \<Rightarrow> [] | Some b \<Rightarrow> [b]) @
             filter (\<lambda>b. fst cc \<in> set (k_events (a_cls (w_apps w b)))) (dvals (w_bricks w))))"

definition brick_regs :: "world \<Rightarrow> nat \<Rightarrow> registration list" where
  "brick_regs w i = concat (map (\<lambda>m. if has_caller m then concat (map (caller_regs w i) (callers_of m)) else [])
     (k_methods (a_cls (w_apps w i))))"

lemma do_reg_simp [simp]: "do_reg w (b, c, name, ds) = register_at c name ds w b"
  by (simp add: do_reg_def)

lemma same_apps_regs [simp]: "same_apps w (foldl do_reg w gs)"
proof (induction gs arbitrary: w)
  case (Cons g gs)
  have "same_apps w (do_reg w g)" by (cases g) simp
  with Cons.IH show ?case by (metis foldl_Cons same_apps_trans)
qed simp

lemma foldl_as_regs:
  assumes "\<And>w' x. x \<in> set xs \<Longrightarrow> same_apps w w' \<Longrightarrow> f w' x = foldl do_reg w' (g x)"
  shows "foldl f w xs = foldl do_reg w (concat (map g xs))"
proof -
  have "same_apps w w' \<Longrightarrow> foldl f w' xs = foldl do_reg w' (concat (map g xs))" for w'
    using assms
  proof (induction xs arbitrary: w')
    case (Cons x xs)
    from Cons.prems have "f w' x = foldl do_reg w' (g x)" by simp
    moreover from Cons.prems(1) have "same_apps w (foldl do_reg w' (g x))"
      by (metis same_apps_regs same_apps_trans)
    ultimately show ?case using Cons.IH Cons.prems by simp
  qed simp
  then show ?thesis by simp
qed

lemma update_caller_regs:
  assumes "same_apps w w'"
  shows "update_caller i w' cc = foldl do_reg w' (caller_regs w i cc)"
proof (cases "c_ev_source (snd cc)")
  case (Some src)
  show ?thesis
  proof (cases "src = []")
    case False
    note s = same_apps_simps [OF assms]
    let ?n = "a_name (w_apps w i)" and ?ds = "c_dispatchers (snd cc)"
    have loop: "foldl (\<lambda>w b. if fst cc \<in> set (k_events (a_cls (w_apps w b)))
                         then register_at (fst cc) (a_name (w_apps w i)) ?ds w b else w) v bs
        = foldl do_reg v (map (\<lambda>b. (b, fst cc, ?n, ?ds))
            (filter (\<lambda>b. fst cc \<in> set (k_events (a_cls (w_apps w b)))) bs))"
      if "same_apps w v" for v bs
      using that
    proof (induction bs arbitrary: v)
      case (Cons b bs)
      have "same_apps w (register_at (fst cc) ?n ?ds v b)"
        using Cons.prems same_apps_register same_apps_trans by blast
      with Cons show ?case by (simp add: same_apps_simps)
    qed simp
    have look: "lookup_service_brick_by_mod_name w' src = lookup_service_brick_by_mod_name w src"
      by (simp add: lookup_service_brick_by_mod_name_def lookup_service_brick_def s)
    show ?thesis
    proof (cases "lookup_service_brick_by_mod_name w src")
      case None
      with Some False loop [OF assms] show ?thesis
        by (simp add: update_caller_def caller_regs_def look s Let_def)
    next
      case b: (Some b)
      have "same_apps w (register_at (fst cc) ?n ?ds w' b)"
        using assms same_apps_register same_apps_trans by blast
      from loop [OF this] Some False b show ?thesis
        by (simp add: update_caller_def caller_regs_def look s Let_def)
    qed
  qed (simp add: Some update_caller_def caller_regs_def)
qed (simp add: update_caller_def caller_regs_def)

lemma update_bricks_regs:
  "update_bricks w = foldl do_reg w (concat (map (brick_regs w) (dvals (w_bricks w))))"
proof -
  have inner: "(if has_caller m then foldl (update_caller i) w' (callers_of m) else w')
      = foldl do_reg w' (if has_caller m then concat (map (caller_regs w i) (callers_of m)) else [])"
    if "same_apps w w'" for w' i m
  proof (cases "has_caller m")
    case True
    have "foldl (update_caller i) w' (callers_of m)
        = foldl do_reg w' (concat (map (caller_regs w i) (callers_of m)))"
      by (rule foldl_as_regs) (rule update_caller_regs, rule same_apps_trans [OF that])
    with True show ?thesis by simp
  qed simp
  have brick: "update_brick w' i = foldl do_reg w' (brick_regs w i)" if "same_apps w w'" for w' i
    unfolding update_brick_def brick_regs_def same_apps_simps(1) [OF that]
    by (rule foldl_as_regs) (rule inner, rule same_apps_trans [OF that])
  show ?thesis unfolding update_bricks_def by (rule foldl_as_regs) (rule brick)
qed

lemma observed_regs:
  "observed (foldl do_reg w gs) b c name =
     (if observed w b c name = None \<and> (\<forall>ds. (b, c, name, ds) \<notin> set gs) then None
      else Some ((case observed w b c name of None \<Rightarrow> {} | Some s \<Rightarrow> s) \<union> \<Union> {set ds |ds. (b, c, name, ds) \<in> set gs}))"
proof (induction gs arbitrary: w)
  case (Cons g gs)
  obtain b' c' n' ds' where g: "g = (b', c', n', ds')" by (cases g)
  have un: "\<Union> {set ds |ds. (b, c, name, ds) \<in> set (g # gs)} = (if b = b' \<and> c = c' \<and> name = n' then set ds' else {})
      \<union> \<Union> {set ds |ds. (b, c, name, ds) \<in> set gs}"
    by (auto simp: g)
  show ?case
    by (simp only: un foldl_Cons Cons.IH) (auto simp: g observed_register split: option.splits)
next
  case Nil
  show ?case by (auto split: option.splits)
qed

subsection \<open>Where events go\<close>

text \<open>
  The dispatcher lists with which an application named \<open>name\<close> asked for events of class \<open>c\<close> from the brick \<open>b\<close>:
  a decorated method names the class, and the brick either has the name of the module of the class or
  lists it among its \<^verbatim>\<open>_EVENTS\<close>.
\<close>

definition makes :: "world \<Rightarrow> nat \<Rightarrow> string \<Rightarrow> ev_cls \<Rightarrow> bool" where
  "makes w b src c \<longleftrightarrow> lookup_service_brick_by_mod_name w src = Some b \<or>
     b \<in> set (dvals (w_bricks w)) \<and> c \<in> set (k_events (a_cls (w_apps w b)))"

definition wants :: "world \<Rightarrow> nat \<Rightarrow> ev_cls \<Rightarrow> string \<Rightarrow> dispatcher list set" where
  "wants w b c name = {c_dispatchers cl |i m cl src.
     i \<in> set (dvals (w_bricks w)) \<and> a_name (w_apps w i) = name \<and> m \<in> set (k_methods (a_cls (w_apps w i))) \<and>
     has_caller m \<and> (c, cl) \<in> set (callers_of m) \<and> c_ev_source cl = Some src \<and> src \<noteq> [] \<and> makes w b src c}"

lemma set_caller_regs:
  "(b, c, name, ds) \<in> set (caller_regs w i (c', cl)) \<longleftrightarrow> c' = c \<and> name = a_name (w_apps w i) \<and> ds = c_dispatchers cl
     \<and> (\<exists>src. c_ev_source cl = Some src \<and> src \<noteq> [] \<and> makes w b src c)"
proof (cases "c_ev_source cl")
  case (Some src)
  have "b \<in> set (case look of None \<Rightarrow> [] | Some b \<Rightarrow> [b]) \<longleftrightarrow> look = Some b" for look
    by (auto split: option.splits)
  with Some show ?thesis by (auto simp: caller_regs_def makes_def)
qed (simp add: caller_regs_def)

lemma set_brick_regs:
  "(b, c, name, ds) \<in> set (brick_regs w i) \<longleftrightarrow> name = a_name (w_apps w i) \<and>
     (\<exists>m \<in> set (k_methods (a_cls (w_apps w i))). has_caller m \<and> (\<exists>cl. (c, cl) \<in> set (callers_of m) \<and> ds = c_dispatchers cl
        \<and> (\<exists>src. c_ev_source cl = Some src \<and> src \<noteq> [] \<and> makes w b src c)))"
proof -
  have "(b, c, name, ds) \<in> set (brick_regs w i) \<longleftrightarrow>
    (\<exists>m \<in> set (k_methods (a_cls (w_apps w i))). has_caller m \<and>
      (\<exists>cc \<in> set (callers_of m). (b, c, name, ds) \<in> set (caller_regs w i cc)))"
    by (auto simp: brick_regs_def split: if_splits)
  moreover have "(\<exists>cc \<in> set (callers_of m). (b, c, name, ds) \<in> set (caller_regs w i cc)) \<longleftrightarrow>
      name = a_name (w_apps w i) \<and> (\<exists>cl. (c, cl) \<in> set (callers_of m) \<and> ds = c_dispatchers cl
        \<and> (\<exists>src. c_ev_source cl = Some src \<and> src \<noteq> [] \<and> makes w b src c))" for m
  proof
    assume "\<exists>cc \<in> set (callers_of m). (b, c, name, ds) \<in> set (caller_regs w i cc)"
    then obtain c' cl where "(c', cl) \<in> set (callers_of m)" "(b, c, name, ds) \<in> set (caller_regs w i (c', cl))"
      by (metis surj_pair)
    then show "name = a_name (w_apps w i) \<and> (\<exists>cl. (c, cl) \<in> set (callers_of m) \<and> ds = c_dispatchers cl
        \<and> (\<exists>src. c_ev_source cl = Some src \<and> src \<noteq> [] \<and> makes w b src c))"
      unfolding set_caller_regs by blast
  next
    assume "name = a_name (w_apps w i) \<and> (\<exists>cl. (c, cl) \<in> set (callers_of m) \<and> ds = c_dispatchers cl
        \<and> (\<exists>src. c_ev_source cl = Some src \<and> src \<noteq> [] \<and> makes w b src c))"
    then obtain cl where "(c, cl) \<in> set (callers_of m)" "(b, c, name, ds) \<in> set (caller_regs w i (c, cl))"
      unfolding set_caller_regs by blast
    then show "\<exists>cc \<in> set (callers_of m). (b, c, name, ds) \<in> set (caller_regs w i cc)" by blast
  qed
  ultimately show ?thesis by blast
qed

lemma wants_regs:
  "wants w b c name = {ds. (b, c, name, ds) \<in> set (concat (map (brick_regs w) (dvals (w_bricks w))))}"
proof -
  have "(b, c, name, ds) \<in> set (concat (map (brick_regs w) (dvals (w_bricks w)))) \<longleftrightarrow>
    (\<exists>i \<in> set (dvals (w_bricks w)). (b, c, name, ds) \<in> set (brick_regs w i))" for ds
    by auto
  then show ?thesis unfolding wants_def set_brick_regs by blast
qed

lemma observed_wiring:
  assumes "observed w b c name = None"
  shows "observed (update_bricks w) b c name =
    (if wants w b c name = {} then None else Some (\<Union> (set ` wants w b c name)))"
proof -
  have "{set ds |ds. (b, c, name, ds) \<in> set gs} = set ` {ds. (b, c, name, ds) \<in> set gs}" for gs :: "registration list"
    by auto
  then show ?thesis
    by (simp only: update_bricks_regs observed_regs wants_regs assms) auto
qed

definition observers_distinct :: "world \<Rightarrow> bool" where
  "observers_distinct w \<longleftrightarrow> (\<forall>b c. distinct (dkeys (observers_of (w_apps w b) c)))"

lemma observers_distinct_wiring:
  assumes "observers_distinct w"
  shows "observers_distinct (update_bricks w)"
proof -
  have reg: "observers_distinct v \<Longrightarrow> observers_distinct (register_at c name ds v b)" for v c name ds b
    by (auto simp: observers_distinct_def register_at_def register_observer_def observers_of_def Let_def)
  have "observers_distinct v \<Longrightarrow> observers_distinct (foldl do_reg v gs)" for v gs
  proof (induction gs arbitrary: v)
    case (Cons g gs)
    then show ?case by (cases g) (simp add: reg)
  qed simp
  with assms show ?thesis by (simp add: update_bricks_regs)
qed

lemma set_get_observers:
  assumes ko: "is_order ko" and d: "distinct (dkeys (observers_of a c))"
  shows "set (get_observers ko a c state) =
      {n. \<exists>v. map_of (observers_of a c) n = Some v \<and> (state = None \<or> v = {} \<or> the state \<in> v)}"
    and "distinct (get_observers ko a c state)"
proof -
  show "set (get_observers ko a c state) =
      {n. \<exists>v. map_of (observers_of a c) n = Some v \<and> (state = None \<or> v = {} \<or> the state \<in> v)}"
    using d by (force simp: get_observers_def set_reorder [OF ko d])
  have "distinct (dkeys (reorder ko (observers_of a c)))" using ko d by (simp add: is_order_distinct)
  then show "distinct (get_observers ko a c state)"
    by (simp add: get_observers_def distinct_map_filter)
qed

definition bricks_ok :: "world \<Rightarrow> bool" where
  "bricks_ok w \<longleftrightarrow> distinct (dkeys (w_bricks w)) \<and> distinct (dvals (w_bricks w))
     \<and> (\<forall>(n, r) \<in> set (w_bricks w). a_name (w_apps w r) = n)"

text \<open>Sending with room everywhere.\<close>

definition has_room :: "world \<Rightarrow> bool" where
  "has_room w \<longleftrightarrow> (\<forall>r \<in> set (dvals (w_bricks w)). length (a_events (w_apps w r)) < queue_size)"

lemma send_event_room:
  assumes "map_of (w_bricks w) name = Some b" and "length (a_events (w_apps w b)) < queue_size"
  shows "\<exists>w'. send_event w self name ev st = Some w' \<and> w_bricks w' = w_bricks w
    \<and> (\<forall>r. a_events (w_apps w' r) = a_events (w_apps w r) @ (if r = b then [(ev, st)] else []))"
  using assms by (simp add: send_event_def put_event_def hub_put_def set_event_def Let_def)

lemma send_all_room:
  assumes "distinct obs" and "set obs \<subseteq> set (dkeys (w_bricks w))" and "distinct (dvals (w_bricks w))"
    and "\<forall>ob \<in> set obs. length (a_events (w_apps w (the (map_of (w_bricks w) ob)))) < queue_size"
  shows "\<exists>w'. send_all w self obs ev st = (w', []) \<and> w_bricks w' = w_bricks w
    \<and> (\<forall>r. a_events (w_apps w' r) = a_events (w_apps w r) @
          (if \<exists>ob \<in> set obs. map_of (w_bricks w) ob = Some r then [(ev, st)] else []))"
  using assms
proof (induction obs arbitrary: w)
  case (Cons ob obs)
  from Cons.prems(2) have "ob \<in> set (dkeys (w_bricks w))" by simp
  then obtain b where b: "map_of (w_bricks w) ob = Some b" by (rule key_lookup)
  with Cons.prems(4) send_event_room [of w ob b self ev st] obtain w1
    where w1: "send_event w self ob ev st = Some w1" "w_bricks w1 = w_bricks w"
      "\<forall>r. a_events (w_apps w1 r) = a_events (w_apps w r) @ (if r = b then [(ev, st)] else [])" by auto
  have inj: "map_of (w_bricks w) o2 \<noteq> Some b" if "o2 \<noteq> ob" for o2
  proof
    assume "map_of (w_bricks w) o2 = Some b"
    with b have "(o2, b) \<in> set (w_bricks w)" "(ob, b) \<in> set (w_bricks w)" by (auto dest: map_of_SomeD)
    moreover from Cons.prems(3) have "inj_on snd (set (w_bricks w))" by (simp add: distinct_map)
    ultimately have "(o2, b) = (ob, b)" by (metis inj_onD snd_conv)
    with that show False by simp
  qed
  have other: "the (map_of (w_bricks w) o2) \<noteq> b" if "o2 \<in> set obs" for o2
  proof -
    have "o2 \<in> set (dkeys (w_bricks w))" using Cons.prems(2) that by auto
    then obtain v where "map_of (w_bricks w) o2 = Some v" by (rule key_lookup)
    with inj [of o2] that Cons.prems(1) show ?thesis by auto
  qed
  have "\<exists>w'. send_all w1 self obs ev st = (w', []) \<and> w_bricks w' = w_bricks w1
    \<and> (\<forall>r. a_events (w_apps w' r) = a_events (w_apps w1 r) @
          (if \<exists>ob \<in> set obs. map_of (w_bricks w1) ob = Some r then [(ev, st)] else []))"
    by (rule Cons.IH) (use Cons.prems w1 other in simp_all)
  then obtain w' where "send_all w1 self obs ev st = (w', [])" "w_bricks w' = w_bricks w1"
    "\<forall>r. a_events (w_apps w' r) = a_events (w_apps w1 r) @
          (if \<exists>ob \<in> set obs. map_of (w_bricks w1) ob = Some r then [(ev, st)] else [])" by blast
  moreover have "\<not> (\<exists>o2 \<in> set obs. map_of (w_bricks w) o2 = Some b)"
    using inj Cons.prems(1) by (metis distinct.simps(2))
  ultimately show ?case using w1 b by (auto simp: inj)
qed simp

definition told :: "world \<Rightarrow> nat \<Rightarrow> ev_cls \<Rightarrow> dispatcher option \<Rightarrow> nat \<Rightarrow> bool" where
  "told w b c state r \<longleftrightarrow> (\<exists>n. map_of (w_bricks w) n = Some r \<and> wants w b c n \<noteq> {} \<and>
     (state = None \<or> \<Union> (set ` wants w b c n) = {} \<or> the state \<in> \<Union> (set ` wants w b c n)))"

lemma wiring_observers:
  assumes ko: "is_order ko" and fresh: "\<And>b. a_observers (w_apps w b) = []"
  shows "set (get_observers ko (w_apps (update_bricks w) b) c state) =
      {n. wants w b c n \<noteq> {} \<and>
        (state = None \<or> \<Union> (set ` wants w b c n) = {} \<or> the state \<in> \<Union> (set ` wants w b c n))}"
    and "distinct (get_observers ko (w_apps (update_bricks w) b) c state)"
proof -
  have "observers_distinct w" and none: "\<And>n. observed w b c n = None"
    using fresh by (simp_all add: observers_distinct_def observers_of_def observed_def)
  then have d: "distinct (dkeys (observers_of (w_apps (update_bricks w) b) c))"
    using observers_distinct_wiring by (simp add: observers_distinct_def)
  show "set (get_observers ko (w_apps (update_bricks w) b) c state) =
      {n. wants w b c n \<noteq> {} \<and>
        (state = None \<or> \<Union> (set ` wants w b c n) = {} \<or> the state \<in> \<Union> (set ` wants w b c n))}"
    unfolding set_get_observers(1) [OF ko d] observed_def [symmetric] observed_wiring [OF none] by auto
  show "distinct (get_observers ko (w_apps (update_bricks w) b) c state)"
    by (rule set_get_observers(2) [OF ko d])
qed

lemma wants_keys:
  assumes "bricks_ok w" and "wants w b c n \<noteq> {}"
  shows "n \<in> set (dkeys (w_bricks w))"
proof -
  from assms(2) obtain i where "i \<in> set (dvals (w_bricks w))" "a_name (w_apps w i) = n"
    by (auto simp: wants_def)
  with assms(1) show ?thesis by (force simp: bricks_ok_def)
qed

text \<open>C28: after the wiring, an event that a brick announces in a state is put once into the queue of every application that
  has a decorated method for its class, from that brick, unless the states that the application listed for the
  class are given and miss this one; no other queue changes, and the sender does not wait when there is room.\<close>

theorem routing:
  assumes "is_order ko" and "bricks_ok w" and "\<And>b. a_observers (w_apps w b) = []" and "has_room w"
  shows "\<exists>w'. send_event_to_observers ko (update_bricks w) b ev state = (w', []) \<and>
     (\<forall>r. a_events (w_apps w' r) = a_events (w_apps w r) @
        (if told w b (e_cls (w_heap w ev)) state r then [(ev, state)] else []))"
proof -
  let ?w = "update_bricks w" and ?c = "e_cls (w_heap w ev)"
  let ?obs = "get_observers ko (w_apps ?w b) ?c state"
  have sa: "same_apps w ?w" by (simp add: update_bricks_regs)
  note s = same_apps_simps [OF sa]
  note obs = wiring_observers [where w = w and b = b and c = ?c and state = state, OF assms(1,3)]
  have keys: "set ?obs \<subseteq> set (dkeys (w_bricks w))"
    using wants_keys [OF assms(2)] unfolding obs(1) by blast
  have bo: "distinct (dvals (w_bricks w))" using assms(2) by (simp add: bricks_ok_def)
  have room: "\<forall>ob \<in> set ?obs. length (a_events (w_apps ?w (the (map_of (w_bricks ?w) ob)))) < queue_size"
  proof
    fix ob assume "ob \<in> set ?obs"
    with keys have "ob \<in> set (dkeys (w_bricks w))" by blast
    then obtain v where v: "map_of (w_bricks w) ob = Some v" by (rule key_lookup)
    then have "v \<in> set (dvals (w_bricks w))" by (force dest: map_of_SomeD)
    with assms(4) v show "length (a_events (w_apps ?w (the (map_of (w_bricks ?w) ob)))) < queue_size"
      unfolding has_room_def s by simp (metis (no_types, lifting) imageE)
  qed
  have "\<exists>w'. send_all ?w (a_name (w_apps ?w b)) ?obs ev state = (w', []) \<and> w_bricks w' = w_bricks ?w
    \<and> (\<forall>r. a_events (w_apps w' r) = a_events (w_apps ?w r) @
          (if \<exists>ob \<in> set ?obs. map_of (w_bricks ?w) ob = Some r then [(ev, state)] else []))"
    by (rule send_all_room) (use obs(2) keys bo room s(5) in auto)
  moreover have "(\<exists>ob \<in> set ?obs. map_of (w_bricks w) ob = Some r) = told w b ?c state r" for r
    unfolding obs(1) told_def by blast
  ultimately show ?thesis unfolding send_event_to_observers_def s by fastforce
qed

text \<open>
  An application that handles a class in every state with one method and in one state with another is told
  of that state only: \<^verbatim>\<open>update\<close> of the empty set, which stands for all states, loses it.
\<close>

lemma all_states_lost:
  assumes "wants w b c n = {[], [s]}" and "map_of (w_bricks w) n = Some r" and "t \<noteq> s"
    and "distinct (dvals (w_bricks w))"
  shows "told w b c (Some s) r" and "\<not> told w b c (Some t) r"
proof -
  have "n' = n" if "map_of (w_bricks w) n' = Some r" for n'
  proof -
    from that assms(2) have "(n', r) \<in> set (w_bricks w)" "(n, r) \<in> set (w_bricks w)" by (auto dest: map_of_SomeD)
    moreover from assms(4) have "inj_on snd (set (w_bricks w))" by (simp add: distinct_map)
    ultimately have "(n', r) = (n, r)" by (metis inj_onD snd_conv)
    then show ?thesis by simp
  qed
  then have "told w b c st r \<longleftrightarrow> wants w b c n \<noteq> {} \<and>
     (st = None \<or> \<Union> (set ` wants w b c n) = {} \<or> the st \<in> \<Union> (set ` wants w b c n))" for st
    using assms(2) unfolding told_def by blast
  moreover have "\<Union> (set ` wants w b c n) = {s}" using assms(1) by simp
  ultimately show "told w b c (Some s) r" and "\<not> told w b c (Some t) r" using assms(1,3) by simp_all
qed

text \<open>What the application then runs: its methods for the class, in the order of their names, that take the state.\<close>

lemma handlers_registered:
  assumes "\<And>m. m \<in> set ms \<Longrightarrow> distinct (dkeys (callers_of m))"
  shows "map_of (a_event_handlers (foldl (\<lambda>a m. if has_caller m
        then foldl (\<lambda>a c. register_handler a c m) a (dkeys (callers_of m)) else a) a ms)) c =
     (let old = map_of (a_event_handlers a) c;
          new = filter (\<lambda>m. has_caller m \<and> c \<in> set (dkeys (callers_of m))) ms in
      if old = None \<and> new = [] then None
      else Some ((case old of None \<Rightarrow> [] | Some hs \<Rightarrow> hs) @ new))"
  using assms
proof (induction ms arbitrary: a)
  case (Cons m ms)
  have inner: "distinct cs \<Longrightarrow> map_of (a_event_handlers (foldl (\<lambda>a c. register_handler a c m) a cs)) c =
     (if c \<in> set cs then Some ((case map_of (a_event_handlers a) c of None \<Rightarrow> [] | Some hs \<Rightarrow> hs) @ [m])
      else map_of (a_event_handlers a) c)" for cs a
    by (induction cs arbitrary: a) (auto simp: register_handler_def)
  define a' where "a' = (if has_caller m
      then foldl (\<lambda>a c. register_handler a c m) a (dkeys (callers_of m)) else a)"
  from Cons.prems have "distinct (dkeys (callers_of m))" by simp
  note i = inner [OF this, of a]
  define P where "P = (\<lambda>m. has_caller m \<and> c \<in> set (dkeys (callers_of m)))"
  have a': "map_of (a_event_handlers a') c =
     (if P m then Some ((case map_of (a_event_handlers a) c of None \<Rightarrow> [] | Some hs \<Rightarrow> hs) @ [m])
      else map_of (a_event_handlers a) c)"
    by (simp add: a'_def i P_def del: set_map)
  from Cons.IH [of a'] Cons.prems have ih: "map_of (a_event_handlers (foldl (\<lambda>a m. if has_caller m
        then foldl (\<lambda>a c. register_handler a c m) a (dkeys (callers_of m)) else a) a' ms)) c =
     (if map_of (a_event_handlers a') c = None \<and> filter P ms = [] then None
      else Some ((case map_of (a_event_handlers a') c of None \<Rightarrow> [] | Some hs \<Rightarrow> hs) @ filter P ms))"
    unfolding P_def Let_def by simp
  show ?case unfolding foldl_Cons a'_def [symmetric] ih a' P_def [symmetric] Let_def
    by (auto split: option.splits)
qed (simp add: Let_def split: option.splits)

theorem handlers_run:
  assumes "\<And>m. m \<in> set (k_methods (a_cls a)) \<Longrightarrow> distinct (dkeys (callers_of m))" and "a_event_handlers a = []"
  shows "get_handlers (register_instance a) c (Some s) =
     filter (\<lambda>m. has_caller m \<and> c \<in> set (dkeys (callers_of m)) \<and> handler_test c s m) (k_methods (a_cls a))"
proof -
  define P where "P = (\<lambda>m. has_caller m \<and> c \<in> set (dkeys (callers_of m)))"
  have "map_of (a_event_handlers (register_instance a)) c =
      (if filter P (k_methods (a_cls a)) = [] then None else Some (filter P (k_methods (a_cls a))))"
    using handlers_registered [OF assms(1), where a = a and c = c] assms(2)
    unfolding P_def register_instance_def Let_def by simp
  then have "get_handlers (register_instance a) c (Some s) = filter (handler_test c s) (filter P (k_methods (a_cls a)))"
    by (cases "filter P (k_methods (a_cls a)) = []") (simp_all add: get_handlers_def del: filter_filter)
  also have "\<dots> = filter (\<lambda>m. P m \<and> handler_test c s m) (k_methods (a_cls a))"
    by (simp add: conj_commute)
  finally show ?thesis by (simp add: P_def)
qed

section \<open>Every event is handled\<close>

datatype label = Taken nat nat "dispatcher option" | Sent string nat | Created nat | Started nat | Stopped nat
  | Asked nat | Replied nat | Answered nat

inductive bus_step :: "action \<Rightarrow> world \<Rightarrow> label \<Rightarrow> world \<Rightarrow> bool" for act where
  take: "a_threads (w_apps w r) > 0 \<Longrightarrow> a_events (w_apps w r) = (ev, st) # rest \<Longrightarrow>
     loop_step act w r = Inr (Some w') \<Longrightarrow> bus_step act w (Taken r ev st) w'"
| send: "send_event w self name ev st = Some w' \<Longrightarrow> bus_step act w (Sent name ev) w'"
| create: "bus_step act w (Created ev) (set_event w ev e)"
| start: "bus_step act w (Started r) (app_start w r)"
| stop: "app_stop w r = Some w' \<Longrightarrow> bus_step act w (Stopped r) w'"
| ask: "send_request w r req = Inr (Some w') \<Longrightarrow> bus_step act w (Asked req) w'"
| reply: "reply_to_request w r req rep = Inr (Some w') \<Longrightarrow> bus_step act w (Replied req) w'"
| answer: "await_reply w req = Some (rep, w') \<Longrightarrow> bus_step act w (Answered req) w'"

inductive_cases bus_stepE: "bus_step act w l w'"
inductive_simps bus_step_taken: "bus_step act w (Taken r ev st) w'"
inductive_simps bus_step_sent: "bus_step act w (Sent name ev) w'"

text \<open>A handler may do anything but take events out of a queue.\<close>

definition appends :: "world \<Rightarrow> world \<Rightarrow> bool" where
  "appends w w' \<longleftrightarrow> (\<forall>r. \<exists>qs. a_events (w_apps w' r) = a_events (w_apps w r) @ qs)"

definition only_appends :: "action \<Rightarrow> bool" where
  "only_appends act \<longleftrightarrow> (\<forall>r h ev w w'. act r h ev w = Inr w' \<longrightarrow> appends w w')"

fun takes :: "nat \<Rightarrow> label \<Rightarrow> bool" where
  "takes r (Taken r' ev st) = (r' = r)"
| "takes r _ = False"

lemma appends_refl [simp]: "appends w w"
  by (simp add: appends_def)

lemma appends_trans: "appends w w' \<Longrightarrow> appends w' w'' \<Longrightarrow> appends w w''"
  unfolding appends_def by (metis append.assoc)

lemma put_event_appends: "put_event w r ev st = Some w' \<Longrightarrow> appends w w'"
  by (auto simp: put_event_def hub_put_def appends_def split: if_splits)

lemma set_event_appends [simp]: "appends w (set_event w ev e)"
  by (simp add: appends_def set_event_def)

lemma send_event_appends: "send_event w self name ev st = Some w' \<Longrightarrow> appends w w'"
  by (auto simp: send_event_def Let_def split: option.splits if_splits
      intro: put_event_appends appends_trans [OF set_event_appends])

lemma app_stop_appends: "app_stop w r = Some w' \<Longrightarrow> appends w w'"
  using put_event_appends [of "upd_app w r ((w_apps w r)\<lparr>a_active := False\<rparr>)" r "a_event_stop (w_apps w r)" None w']
  by (auto simp: app_stop_def Let_def appends_def split: if_splits)

lemma send_request_appends:
  assumes "send_request w r req = Inr (Some w')"
  shows "appends w w'"
proof -
  define v where "v = set_event (w\<lparr>w_reply := (w_reply w)(w_next w := []), w_next := Suc (w_next w)\<rparr>) req
                   ((w_heap w req)\<lparr>e_sync := True, e_reply_q := Some (w_next w)\<rparr>)"
  have "appends w v" by (simp add: v_def appends_def set_event_def)
  moreover have "appends v w'"
    using assms by (auto simp: send_request_def Let_def v_def [symmetric] split: if_splits option.splits
        dest: send_event_appends)
  ultimately show ?thesis by (rule appends_trans)
qed

lemma reply_appends:
  assumes "reply_to_request w r req rep = Inr (Some w')"
  shows "appends w w'"
proof -
  define v where "v = set_event w rep ((w_heap w rep)\<lparr>e_dst := e_src (w_heap w req)\<rparr>)"
  have "appends w v" by (simp add: v_def)
  moreover have "appends v w'"
    using assms unfolding reply_to_request_def Let_def v_def [symmetric]
    by (auto split: if_splits option.splits dest: send_event_appends simp: appends_def)
  ultimately show ?thesis by (rule appends_trans)
qed

lemma handle_event_appends:
  assumes "only_appends act" and "handle_event act w r es = Inr w'"
  shows "appends w w'"
proof (cases "fst es = a_event_stop (w_apps w r)")
  case False
  let ?f = "\<lambda>w h. act r h (fst es) w"
  have "rfold ?f w (get_handlers (w_apps w r) (e_cls (w_heap w (fst es))) (snd es)) = Inr w'"
    using assms(2) False by (simp add: handle_event_def)
  then show ?thesis
    by (rule rfold_inv [where P = "appends w"])
       (use assms(1) in \<open>auto simp: only_appends_def intro: appends_trans\<close>)
qed (use assms(2) in \<open>simp add: handle_event_def\<close>)

lemma take_queue:
  assumes "only_appends act" and "loop_step act w r = Inr (Some w')" and "a_events (w_apps w r) = es # rest"
  shows "\<exists>qs. a_events (w_apps w' r) = rest @ qs"
    and "r' \<noteq> r \<Longrightarrow> \<exists>qs. a_events (w_apps w' r') = a_events (w_apps w r') @ qs"
proof -
  from assms(2,3) have "handle_event act (upd_app w r ((w_apps w r)\<lparr>a_events := rest\<rparr>)) r es = Inr w'"
    by (simp add: loop_step_def rbind_eq_Inr)
  from handle_event_appends [OF assms(1) this]
  have ap: "appends (upd_app w r ((w_apps w r)\<lparr>a_events := rest\<rparr>)) w'" .
  show "\<exists>qs. a_events (w_apps w' r) = rest @ qs" using ap by (auto simp: appends_def dest: spec [of _ r])
  show "\<exists>qs. a_events (w_apps w' r') = a_events (w_apps w r') @ qs" if "r' \<noteq> r"
    using ap that by (auto simp: appends_def dest: spec [of _ r'])
qed

lemma queue_kept:
  assumes "only_appends act" and "bus_step act w l w'" and "\<not> takes r l"
  shows "\<exists>qs. a_events (w_apps w' r) = a_events (w_apps w r) @ qs"
  using assms(2)
proof cases
  case (take r' ev st rest)
  with assms(3) have "r \<noteq> r'" by auto
  with take_queue(2) [OF assms(1) take(4,3), of r] show ?thesis by simp
qed (auto simp: appends_def app_start_def
    dest: send_event_appends app_stop_appends send_request_appends reply_appends
    simp: await_reply_def set_event_def split: option.splits list.splits)

lemma queue_taken:
  assumes "only_appends act" and "bus_step act w l w'" and "takes r l"
  shows "\<exists>ev st rest qs. l = Taken r ev st \<and> a_events (w_apps w r) = (ev, st) # rest \<and>
    a_events (w_apps w' r) = rest @ qs \<and> loop_step act w r = Inr (Some w')"
proof -
  from assms(3) obtain ev st where l: "l = Taken r ev st" by (cases l) auto
  with assms(2) obtain rest where "a_events (w_apps w r) = (ev, st) # rest" "loop_step act w r = Inr (Some w')"
    by (auto simp: bus_step_taken)
  with take_queue(1) [OF assms(1)] l show ?thesis by blast
qed

text \<open>
  The methods that an application owes to an event: those in its table for the event's class that take the state, in
  the order of the table; and that a list of methods ran to the end, one after the other.
\<close>

definition accepts :: "dispatcher option \<Rightarrow> ev_cls \<Rightarrow> meth \<Rightarrow> bool" where
  "accepts st c h \<longleftrightarrow> (\<forall>s cl. st = Some s \<longrightarrow> map_of (callers_of h) c = Some cl \<longrightarrow> c_dispatchers cl \<noteq> [] \<longrightarrow> s \<in> set (c_dispatchers cl))"

definition handlers_for :: "app \<Rightarrow> ev_cls \<Rightarrow> dispatcher option \<Rightarrow> meth list" where
  "handlers_for a c st = filter (accepts st c) (case map_of (a_event_handlers a) c of None \<Rightarrow> [] | Some hs \<Rightarrow> hs)"

lemma get_handlers_for: "get_handlers a c st = handlers_for a c st"
  by (auto simp: get_handlers_def handlers_for_def accepts_def handler_test_def intro!: filter_cong split: option.splits)

inductive ran :: "action \<Rightarrow> nat \<Rightarrow> nat \<Rightarrow> world \<Rightarrow> meth list \<Rightarrow> world \<Rightarrow> bool" for act r ev where
  ran_none: "ran act r ev w [] w"
| ran_next: "act r h ev w = Inr w1 \<Longrightarrow> ran act r ev w1 hs w2 \<Longrightarrow> ran act r ev w (h # hs) w2"

inductive_simps ran_simps [simp]: "ran act r ev w [] w'" "ran act r ev w (h # hs) w'"

lemma rfold_ran: "rfold (\<lambda>w h. act r h ev w) w hs = Inr w' \<longleftrightarrow> ran act r ev w hs w'"
  by (induction hs arbitrary: w) (auto simp: rbind_eq_Inr)

definition popped :: "nat \<Rightarrow> world \<Rightarrow> world" where
  "popped r w = upd_app w r ((w_apps w r)\<lparr>a_events := tl (a_events (w_apps w r))\<rparr>)"

text \<open>One event was handled: its methods ran, on the world without the event in the queue; the stop event has none.\<close>

definition handled_event :: "action \<Rightarrow> nat \<Rightarrow> nat \<times> dispatcher option \<Rightarrow> world \<Rightarrow> world \<Rightarrow> bool" where
  "handled_event act r es w w' \<longleftrightarrow> ran act r (fst es) (popped r w)
     (if fst es = a_event_stop (w_apps w r) then [] else handlers_for (w_apps w r) (e_cls (w_heap w (fst es))) (snd es)) w'"

lemma handle_event_ran:
  "handle_event act (popped r w) r es = Inr w' \<longleftrightarrow> handled_event act r es w w'"
  by (auto simp: handle_event_def handled_event_def get_handlers_for rfold_ran popped_def handlers_for_def)

lemma loop_step_handled:
  "a_events (w_apps w r) = es # rest \<Longrightarrow> loop_step act w r = Inr (Some w') \<Longrightarrow> handled_event act r es w w'"
  by (auto simp: loop_step_def rbind_eq_Inr popped_def simp flip: handle_event_ran)

text \<open>What is left of a queue in a run.\<close>

lemma queue_in_run:
  assumes appends: "only_appends act" and nm: "n \<le> (m :: nat)"
    and run: "\<And>k. n \<le> k \<Longrightarrow> k < m \<Longrightarrow> bus_step act (\<sigma> k) (l k) (\<sigma> (Suc k))"
    and c: "card {k. n \<le> k \<and> k < m \<and> takes r (l k)} \<le> length (a_events (w_apps (\<sigma> n) r))"
  shows "\<exists>qs. a_events (w_apps (\<sigma> m) r) =
    drop (card {k. n \<le> k \<and> k < m \<and> takes r (l k)}) (a_events (w_apps (\<sigma> n) r)) @ qs"
  using nm run c
proof (induction m rule: dec_induct)
  case base
  have "{k. n \<le> k \<and> k < n \<and> takes r (l k)} = {}" by auto
  then have "card {k. n \<le> k \<and> k < n \<and> takes r (l k)} = 0" by (simp only: card.empty)
  then show ?case by (simp only: drop_0) (rule exI [of _ "[]"], rule append_Nil2 [symmetric])
next
  case (step m)
  let ?K = "\<lambda>m. {k. n \<le> k \<and> k < m \<and> takes r (l k)}" and ?q = "a_events (w_apps (\<sigma> n) r)"
  have K: "?K (Suc m) = (if takes r (l m) then insert m (?K m) else ?K m)"
    using step.hyps(1) by (auto simp: less_Suc_eq)
  have fin: "finite (?K m)" "m \<notin> ?K m" by (simp_all add: finite_subset [of _ "{..<m}"] subset_eq)
  have now: "bus_step act (\<sigma> m) (l m) (\<sigma> (Suc m))" using step.prems(1) [of m] step.hyps(1) by simp
  have "card (?K m) \<le> card (?K (Suc m))" using fin by (simp add: K)
  then have "card (?K m) \<le> length ?q" using step.prems(2) by simp
  with step.IH step.prems(1) obtain qs where q: "a_events (w_apps (\<sigma> m) r) = drop (card (?K m)) ?q @ qs" by auto
  show ?case
  proof (cases "takes r (l m)")
    case True
    then have more: "card (?K (Suc m)) = Suc (card (?K m))" using fin by (simp add: K)
    then have lt: "card (?K m) < length ?q" using step.prems(2) by simp
    from queue_taken [OF appends now True] obtain ev st rest qs'
      where t: "a_events (w_apps (\<sigma> m) r) = (ev, st) # rest" "a_events (w_apps (\<sigma> (Suc m)) r) = rest @ qs'" by blast
    from q t(1) lt have "rest = drop (Suc (card (?K m))) ?q @ qs" by (simp add: Cons_nth_drop_Suc [symmetric])
    then show ?thesis using t(2) more by simp
  next
    case False
    then have same: "card (?K (Suc m)) = card (?K m)" by (simp add: K)
    from queue_kept [OF appends now False] q same show ?thesis by auto
  qed
qed

text \<open>C29: in a run of the applications and their senders in which handlers do not take events out of queues, the events
  of a queue are handled first come, first served: when the loop of an application has taken \<open>p\<close> events and takes
  another one, that is the event that stood at place \<open>p\<close>, with the state it was sent with; and taking it runs exactly the
  methods that the application has registered for the event's class and that take this state, one after the other, each
  to its end, in the order of their registration, on the world without that event in the queue. For the stop event no
  method runs.\<close>

theorem every_event_handled:
  assumes run: "\<And>k. n \<le> k \<Longrightarrow> k \<le> m \<Longrightarrow> bus_step act (\<sigma> k) (l k) (\<sigma> (Suc k))"
    and appends: "only_appends act"
    and queued: "p < length (a_events (w_apps (\<sigma> n) r))" "a_events (w_apps (\<sigma> n) r) ! p = (ev, st)"
    and taken: "n \<le> m" "takes r (l m)" "card {k. n \<le> k \<and> k < m \<and> takes r (l k)} = p"
  shows "l m = Taken r ev st \<and> ran act r ev (popped r (\<sigma> m))
     (if ev = a_event_stop (w_apps (\<sigma> m) r) then []
      else filter (accepts st (e_cls (w_heap (\<sigma> m) ev)))
        (case map_of (a_event_handlers (w_apps (\<sigma> m) r)) (e_cls (w_heap (\<sigma> m) ev)) of None \<Rightarrow> [] | Some hs \<Rightarrow> hs))
     (\<sigma> (Suc m))"
proof -
  have "\<exists>qs. a_events (w_apps (\<sigma> m) r) = drop p (a_events (w_apps (\<sigma> n) r)) @ qs"
    unfolding taken(3) [symmetric]
    by (rule queue_in_run [OF appends taken(1)]) (use run taken(3) queued(1) in auto)
  then obtain qs where qs: "a_events (w_apps (\<sigma> m) r) = (ev, st) # (drop (Suc p) (a_events (w_apps (\<sigma> n) r)) @ qs)"
    using queued by (auto simp: Cons_nth_drop_Suc [symmetric])
  from queue_taken [OF appends run [OF taken(1) order_refl] taken(2)] obtain ev' st' rest
    where t: "l m = Taken r ev' st'" "a_events (w_apps (\<sigma> m) r) = (ev', st') # rest" "loop_step act (\<sigma> m) r = Inr (Some (\<sigma> (Suc m)))"
    by blast
  then have l: "ev' = ev" "st' = st" using qs by simp_all
  from loop_step_handled [OF t(2,3)] show ?thesis
    unfolding t(1) l handled_event_def fst_conv snd_conv handlers_for_def by (rule conjI [OF refl])
qed

section \<open>Stopping\<close>

text \<open>A handler that leaves the own queue and the state of the loop alone.\<close>

definition quiet :: "action \<Rightarrow> nat \<Rightarrow> bool" where
  "quiet act r \<longleftrightarrow> (\<forall>h ev w w'. act r h ev w = Inr w' \<longrightarrow>
     a_events (w_apps w' r) = a_events (w_apps w r) \<and> a_active (w_apps w' r) = a_active (w_apps w r))"

definition take_event :: "action \<Rightarrow> nat \<Rightarrow> world \<Rightarrow> nat \<times> dispatcher option \<Rightarrow> world res" where
  "take_event act r w es = handle_event act (popped r w) r es"

text \<open>The events of a list were handled, one after the other.\<close>

inductive handled_all :: "action \<Rightarrow> nat \<Rightarrow> world \<Rightarrow> (nat \<times> dispatcher option) list \<Rightarrow> world \<Rightarrow> bool" for act r where
  all_none: "handled_all act r w [] w"
| all_next: "handled_event act r es w w1 \<Longrightarrow> handled_all act r w1 q w2 \<Longrightarrow> handled_all act r w (es # q) w2"

inductive_simps handled_all_simps [simp]: "handled_all act r w [] w'" "handled_all act r w (es # q) w'"

lemma rfold_handled: "rfold (take_event act r) w q = Inr w' \<longleftrightarrow> handled_all act r w q w'"
  by (induction q arbitrary: w) (auto simp: rbind_eq_Inr take_event_def handle_event_ran)

lemma handle_event_quiet:
  assumes "quiet act r" and "handle_event act w r es = Inr w'"
  shows "a_events (w_apps w' r) = a_events (w_apps w r) \<and> a_active (w_apps w' r) = a_active (w_apps w r)"
proof (cases "fst es = a_event_stop (w_apps w r)")
  case False
  with assms(2) have "rfold (\<lambda>w h. act r h (fst es) w) w
      (get_handlers (w_apps w r) (e_cls (w_heap w (fst es))) (snd es)) = Inr w'" by (simp add: handle_event_def)
  then show ?thesis
    by (rule rfold_inv [where P = "\<lambda>v. a_events (w_apps v r) = a_events (w_apps w r)
          \<and> a_active (w_apps v r) = a_active (w_apps w r)"]) (use assms(1) in \<open>auto simp: quiet_def\<close>)
qed (use assms(2) in \<open>simp add: handle_event_def\<close>)

lemma take_event_quiet:
  assumes "quiet act r" and "take_event act r w es = Inr w'"
  shows "a_events (w_apps w' r) = tl (a_events (w_apps w r)) \<and> a_active (w_apps w' r) = a_active (w_apps w r)"
  using handle_event_quiet [OF assms(1) assms(2) [unfolded take_event_def]] by (simp add: popped_def)

lemma event_loop_drains:
  assumes "quiet act r" and "a_events (w_apps w r) = q" and "\<not> a_active (w_apps w r)"
  shows "event_loop act w r = Some (rfold (take_event act r) w q)"
    and "rfold (take_event act r) w q = Inr w' \<Longrightarrow> a_events (w_apps w' r) = [] \<and> \<not> a_active (w_apps w' r)"
  using assms(2,3)
proof (induction q arbitrary: w)
  case Nil
  {
    case 1
    then show ?case by (simp add: event_loop.simps loop_guard_def)
  next
    case 2
    then show ?case by simp
  }
next
  case (Cons es q)
  have t: "a_events (w_apps v r) = q \<and> \<not> a_active (w_apps v r)"
    if "a_events (w_apps w r) = es # q" "\<not> a_active (w_apps w r)" "take_event act r w es = Inr v" for v w
    using take_event_quiet [OF assms(1) that(3)] that by simp
  {
    case 1
    then have step: "event_loop act w r =
        (case take_event act r w es of Inl e \<Rightarrow> Some (Inl e) | Inr v \<Rightarrow> event_loop act v r)"
      by (subst event_loop.simps)
        (simp add: loop_guard_def loop_step_def take_event_def popped_def rbind_def split: sum.split)
    show ?case
    proof (cases "take_event act r w es")
      case (Inr v)
      from t [OF 1 Inr] Cons.IH(1) [of v] step Inr show ?thesis by simp
    qed (simp add: step)
  next
    case 2
    then obtain v where "take_event act r w es = Inr v" "rfold (take_event act r) v q = Inr w'" by (auto simp: rbind_eq_Inr)
    with t [OF 2(2,3)] Cons.IH(2) [of v] show ?case by simp
  }
qed

text \<open>C30: stopping an application whose handlers leave its own queue and its running state alone, and to which nobody else
  sends any more (the loop runs on its own): its loop returns, after it has taken every event of the queue in order and then
  the stop event, with what the handlers made of the world or with the exception of the first one that failed. When it
  returns a world, the methods registered for each of the events have run to their end, event by event, the queue is empty
  and the application is not active.\<close>

theorem stop_drains:
  assumes "quiet act r" and "app_stop w r = Some w1"
  defines "queue \<equiv> a_events (w_apps w r) @ [(a_event_stop (w_apps w r), None)]"
  shows "event_loop act w1 r = Some (rfold (take_event act r) w1 queue) \<and>
    (\<forall>w'. event_loop act w1 r = Some (Inr w') \<longrightarrow>
       handled_all act r w1 queue w' \<and> a_events (w_apps w' r) = [] \<and> \<not> a_active (w_apps w' r))"
proof -
  have w1: "a_events (w_apps w1 r) = queue" "\<not> a_active (w_apps w1 r)"
    using assms(2) by (auto simp: queue_def app_stop_def put_event_def hub_put_def Let_def split: if_splits)
  note d = event_loop_drains [OF assms(1) w1]
  show ?thesis using d by (simp add: rfold_handled)
qed

section \<open>Requests\<close>

text \<open>A synchronous request waits until its reply: it is put into the queue of its destination, no reply is
  there before the destination answers, whatever happened in between, and the answer that arrives is
  the reply object, addressed to the sender.\<close>

theorem request_reply:
  assumes req: "e_kind (w_heap w req) = EventRequestBase" "e_dst (w_heap w req) = Some dst"
    and dst: "map_of (w_bricks w) dst = Some b" "length (a_events (w_apps w b)) < queue_size"
  shows "\<exists>w1. send_request w r req = Inr (Some w1)
    \<and> a_events (w_apps w1 b) = a_events (w_apps w b) @ [(req, None)]
    \<and> await_reply w1 req = None
    \<and> (\<forall>w2 rep. w_heap w2 req = w_heap w1 req \<longrightarrow> w_reply w2 (w_next w) = [] \<longrightarrow> rep \<noteq> req \<longrightarrow>
         e_kind (w_heap w2 rep) = EventReplyBase \<longrightarrow>
         (\<exists>w3 w4. reply_to_request w2 b req rep = Inr (Some w3) \<and> await_reply w3 req = Some (rep, w4)
            \<and> e_dst (w_heap w4 rep) = Some (a_name (w_apps w r))))"
proof -
  define w1 where "w1 = upd_app (set_event (w\<lparr>w_reply := (w_reply w)(w_next w := []), w_next := Suc (w_next w)\<rparr>) req
      ((w_heap w req)\<lparr>e_sync := True, e_reply_q := Some (w_next w), e_src := Some (a_name (w_apps w r))\<rparr>)) b
      ((w_apps w b)\<lparr>a_events := a_events (w_apps w b) @ [(req, None)]\<rparr>)"
  have s: "send_request w r req = Inr (Some w1)"
    using req dst by (simp add: send_request_def Let_def send_event_def put_event_def hub_put_def set_event_def
        upd_app_def w1_def)
  have h: "w_heap w1 req = (w_heap w req)\<lparr>e_sync := True, e_reply_q := Some (w_next w), e_src := Some (a_name (w_apps w r))\<rparr>"
    by (simp add: w1_def set_event_def)
  have q: "w_reply w1 (w_next w) = []" by (simp add: w1_def set_event_def)
  have e: "a_events (w_apps w1 b) = a_events (w_apps w b) @ [(req, None)]" by (simp add: w1_def)
  have a: "await_reply w1 req = None" by (simp add: await_reply_def h q)
  have "\<exists>w3 w4. reply_to_request w2 b req rep = Inr (Some w3) \<and> await_reply w3 req = Some (rep, w4)
            \<and> e_dst (w_heap w4 rep) = Some (a_name (w_apps w r))"
    if "w_heap w2 req = w_heap w1 req" "w_reply w2 (w_next w) = []" "rep \<noteq> req"
      "e_kind (w_heap w2 rep) = EventReplyBase" for w2 rep
    using that req(1) by (simp add: reply_to_request_def Let_def set_event_def h await_reply_def)
  with s e a show ?thesis by blast
qed

section \<open>A concrete world\<close>

text \<open>The handler of the switches (0), the registry of switches (1) and an application (2) that looks at switches in the state
  MAIN only; the events 10 (a change of state) and 11 (a request to the registry).\<close>

definition demo_change :: ev_cls where
  "demo_change = EvCls ''ryu.controller.ofp_event'' ''EventOFPStateChange''"

definition demo_ofp :: py_class where
  "demo_ofp = PyClass ''ryu.controller.ofp_handler'' ''OFPHandler'' True (Some ''ofp_event'') [] [] [] None"

definition demo_dpset :: py_class where
  "demo_dpset = PyClass ''ryu.controller.dpset'' ''DPSet'' True (Some ''dpset'')
     [set_ev_cls (PyOne demo_change) (PyList [MAIN_DISPATCHER, DEAD_DISPATCHER]) \<lparr>m_name = ''dispacher_change'', m_callers = None\<rparr>]
     [] [] None"

definition demo_app :: py_class where
  "demo_app = PyClass ''minidc.controller'' ''DCController'' True None
     [set_ev_cls (PyOne demo_change) (PyOne MAIN_DISPATCHER) \<lparr>m_name = ''features'', m_callers = None\<rparr>] [] [] None"

definition demo_world :: world where
  "demo_world = \<lparr>w_apps = (\<lambda>_. RyuApp_init demo_app 99)(0 := RyuApp_init demo_ofp 90, 1 := RyuApp_init demo_dpset 91),
     w_bricks = [(''ofp_event'', 0), (''dpset'', 1), (''DCController'', 2)],
     w_heap = (\<lambda>_. \<lparr>e_cls = demo_change, e_kind = EventBase, e_dst = None, e_src = None, e_sync = False, e_reply_q = None\<rparr>)
       (11 := (EventRequest_init (EvCls ''dpset'' ''EventAsk''))\<lparr>e_dst := Some ''dpset''\<rparr>),
     w_reply = (\<lambda>_. []), w_next = 0\<rparr>"

definition demo_act :: action where
  "demo_act r h ev w = Inr w"

lemma demo_bricks_ok: "bricks_ok demo_world" and demo_room: "has_room demo_world"
  by (simp_all add: bricks_ok_def has_room_def demo_world_def RyuApp_init_def demo_app_def demo_ofp_def demo_dpset_def
      queue_size_def)

theorem routing_demo:
  "\<exists>w'. send_event_to_observers rev (update_bricks demo_world) 0 10 (Some DEAD_DISPATCHER) = (w', []) \<and>
     (\<forall>r. a_events (w_apps w' r) = a_events (w_apps demo_world r) @
        (if told demo_world 0 (e_cls (w_heap demo_world 10)) (Some DEAD_DISPATCHER) r
         then [(10, Some DEAD_DISPATCHER)] else []))"
  by (rule routing [OF is_order_rev demo_bricks_ok _ demo_room]) (simp add: demo_world_def RyuApp_init_def)

text \<open>The registry with two changes in its queue, and handlers that count themselves.\<close>

definition demo_full :: world where
  "demo_full = app_start (upd_app demo_world 1 ((register_instance (w_apps demo_world 1))
     \<lparr>a_events := [(10, None), (10, Some DEAD_DISPATCHER)]\<rparr>)) 1"

definition demo_count :: action where
  "demo_count r h ev w = Inr (w\<lparr>w_next := Suc (w_next w)\<rparr>)"

definition demo_run :: "nat \<Rightarrow> world" where
  "demo_run k = ((\<lambda>w. case loop_step demo_count w 1 of Inr (Some w') \<Rightarrow> w' | _ \<Rightarrow> w) ^^ k) demo_full"

definition demo_labels :: "nat \<Rightarrow> label" where
  "demo_labels k = Taken 1 10 (if k = 0 then None else Some DEAD_DISPATCHER)"

lemma demo_count_ok: "only_appends demo_count" "quiet demo_count 1"
  by (simp_all add: only_appends_def quiet_def demo_count_def appends_def)

lemma demo_step:
  assumes "case loop_step demo_count (demo_run k) 1 of Inr (Some w') \<Rightarrow> True | _ \<Rightarrow> False"
    and "a_threads (w_apps (demo_run k) 1) > 0" and "a_events (w_apps (demo_run k) 1) = (ev, st) # rest"
  shows "bus_step demo_count (demo_run k) (Taken 1 ev st) (demo_run (Suc k))"
proof (rule take [OF assms(2,3)])
  show "loop_step demo_count (demo_run k) 1 = Inr (Some (demo_run (Suc k)))"
    using assms(1) by (auto simp: demo_run_def split: sum.splits option.splits)
qed

theorem every_event_handled_demo:
  "demo_labels 1 = Taken 1 10 (Some DEAD_DISPATCHER) \<and> ran demo_count 1 10 (popped 1 (demo_run 1))
     (if 10 = a_event_stop (w_apps (demo_run 1) 1) then []
      else filter (accepts (Some DEAD_DISPATCHER) (e_cls (w_heap (demo_run 1) 10)))
        (case map_of (a_event_handlers (w_apps (demo_run 1) 1)) (e_cls (w_heap (demo_run 1) 10)) of None \<Rightarrow> [] | Some hs \<Rightarrow> hs))
     (demo_run (Suc 1)) \<and> w_next (demo_run 2) = 2"
proof -
  have s: "bus_step demo_count (demo_run k) (demo_labels k) (demo_run (Suc k))" if "k \<le> 1" for k
  proof (cases k)
    case 0
    have "bus_step demo_count (demo_run 0) (Taken 1 10 None) (demo_run (Suc 0))" by (rule demo_step) code_simp+
    then show ?thesis by (simp add: 0 demo_labels_def)
  next
    case (Suc j)
    have "bus_step demo_count (demo_run 1) (Taken 1 10 (Some DEAD_DISPATCHER)) (demo_run (Suc 1))" by (rule demo_step) code_simp+
    then show ?thesis using that by (simp add: Suc demo_labels_def)
  qed
  have q: "length (a_events (w_apps (demo_run 0) 1)) = 2" "a_events (w_apps (demo_run 0) 1) ! 1 = (10, Some DEAD_DISPATCHER)"
    by code_simp+
  have "{k. (0::nat) \<le> k \<and> k < 1 \<and> takes 1 (demo_labels k)} = {0}" by (auto simp: demo_labels_def)
  then have c: "card {k. (0::nat) \<le> k \<and> k < 1 \<and> takes 1 (demo_labels k)} = 1" by (metis card_1_singleton_iff One_nat_def)
  have t: "takes 1 (demo_labels 1)" by (simp add: demo_labels_def)
  have "1 < length (a_events (w_apps (demo_run 0) 1))" by (simp only: q)
  note r = every_event_handled [where n = 0 and m = 1 and l = demo_labels and \<sigma> = demo_run and r = 1,
      OF s demo_count_ok(1) this q(2) _ t c]
  have "w_next (demo_run 2) = 2" by code_simp
  then show ?thesis by (intro conjI r [THEN conjunct1] r [THEN conjunct2]) simp_all
qed

theorem stop_drains_demo:
  "\<exists>w1. app_stop demo_full 1 = Some w1 \<and>
    event_loop demo_count w1 1 = Some (rfold (take_event demo_count 1) w1 [(10, None), (10, Some DEAD_DISPATCHER), (91, None)]) \<and>
    (\<forall>w'. event_loop demo_count w1 1 = Some (Inr w') \<longrightarrow>
       handled_all demo_count 1 w1 [(10, None), (10, Some DEAD_DISPATCHER), (91, None)] w' \<and> a_events (w_apps w' 1) = [] \<and>
       \<not> a_active (w_apps w' 1))"
proof -
  have "case app_stop demo_full 1 of None \<Rightarrow> False | Some _ \<Rightarrow> True" by code_simp
  then obtain w1 where w1: "app_stop demo_full 1 = Some w1" by (auto split: option.splits)
  have "a_events (w_apps demo_full 1) @ [(a_event_stop (w_apps demo_full 1), None)] =
    [(10, None), (10, Some DEAD_DISPATCHER), (91, None)]" by code_simp
  with stop_drains [OF demo_count_ok(2) w1] w1 show ?thesis by simp
qed

theorem request_reply_demo:
  "\<exists>w1. send_request demo_world 2 11 = Inr (Some w1)
    \<and> a_events (w_apps w1 1) = a_events (w_apps demo_world 1) @ [(11, None)] \<and> await_reply w1 11 = None"
  using request_reply [where w = demo_world and req = 11 and dst = "''dpset''" and b = 1 and r = 2]
  by (auto simp: demo_world_def EventRequest_init_def RyuApp_init_def queue_size_def)

end
