(* ===== verification/AppManager.thy ===== *)
theory AppManager
  imports Bricks "HOL-Library.Multiset_Order"
begin

text \<open>
  The life of Ryu's applications: \<^verbatim>\<open>AppManager\<close> of \<^verbatim>\<open>ryu/base/app_manager.py\<close>. It loads the requested modules
  and those that they depend on, makes the shared contexts and the applications, wires them and starts
  their event loops. The modules that can be imported are the argument \<open>mods\<close>; a constructor does what
  \<^verbatim>\<open>RyuApp.__init__\<close> does.
\<close>

section \<open>State\<close>

datatype context_obj = AppContext nat | PlainContext py_class

record manager =
  m_applications_cls :: "(string, py_class) dict"
  m_applications :: "(string, nat) dict"
  m_contexts_cls :: "(string, py_class) dict"
  m_contexts :: "(string, context_obj) dict"
  m_supported_versions :: "int list"

definition AppManager_init :: "int list \<Rightarrow> manager" where
  "AppManager_init versions = \<lparr>m_applications_cls = [], m_applications = [], m_contexts_cls = [], m_contexts = [],
     m_supported_versions = versions\<rparr>"

section \<open>Loading\<close>

definition ImportError :: pyerr where
  "ImportError = OtherErr ''ImportError''"

definition load_app :: "(string, py_module) dict \<Rightarrow> string \<Rightarrow> py_class option res" where
  "load_app mods name =
     (case map_of mods name of None \<Rightarrow> Inl ImportError
      | Some md \<Rightarrow> (case filter (\<lambda>cls. k_is_app cls \<and> k_module cls = name) (mo_classes md) of
            [] \<Rightarrow> Inr None | cls # _ \<Rightarrow> Inr (Some cls)))"

definition context_modules :: "manager \<Rightarrow> string list" where
  "context_modules m = map k_module (dvals (m_contexts_cls m))"

text \<open>The loop over the contexts of a class: manager, \<^verbatim>\<open>context_modules\<close> and \<^verbatim>\<open>services\<close>.\<close>

definition load_context :: "(string list \<Rightarrow> string list) \<Rightarrow> (string, py_module) dict \<Rightarrow>
    manager \<times> string list \<times> string list \<Rightarrow> string \<times> py_class \<Rightarrow> (manager \<times> string list \<times> string list) res" where
  "load_context so mods s kc =
     (case s of (m, cms, services) \<Rightarrow> case kc of (key, ctx) \<Rightarrow>
        let m1 = (if key \<in> set (dkeys (m_contexts_cls m)) then m
                  else m\<lparr>m_contexts_cls := dput (m_contexts_cls m) key ctx\<rparr>) in
        rbind (dget (m_contexts_cls m1) key) (\<lambda>v.
        if v \<noteq> ctx then Inl AssertErr
        else if k_is_app ctx
        then rbind (get_dependent_services so mods ctx) (\<lambda>ss. Inr (m1, cms @ [k_module ctx], services @ ss))
        else Inr (m1, cms @ [k_module ctx], services)))"

text \<open>One pass of the loop of \<^verbatim>\<open>load_apps\<close>: \<open>name\<close> was taken from the list, \<open>rest\<close> is what is left.\<close>

definition load_step :: "(string list \<Rightarrow> string list) \<Rightarrow> (string, py_module) dict \<Rightarrow> manager \<Rightarrow> string \<Rightarrow> string list \<Rightarrow>
    (manager \<times> string list) res" where
  "load_step so mods m name rest =
     (if name \<in> set (context_modules m) then Inr (m, rest)
      else rbind (load_app mods name) (\<lambda>r. case r of None \<Rightarrow> Inr (m, rest)
      | Some cls \<Rightarrow>
        let m1 = m\<lparr>m_applications_cls := dput (m_applications_cls m) name cls\<rparr> in
        rbind (rfold (load_context so mods) (m1, context_modules m, []) (k_contexts cls)) (\<lambda>(m2, cms, services).
        rbind (get_dependent_services so mods cls) (\<lambda>ss.
        let services2 = services @ filter (\<lambda>i. i \<notin> set cms) ss in
        Inr (m2, rest @ filter (\<lambda>s. s \<notin> set rest) (so (remdups services2)))))))"

partial_function (option) load_loop :: "(string list \<Rightarrow> string list) \<Rightarrow> (string, py_module) dict \<Rightarrow> manager \<Rightarrow> string list \<Rightarrow>
    manager res option" where
  "load_loop so mods m app_lists =
     (if app_lists = [] then Some (Inr m)
      else (case load_step so mods m (hd app_lists) (tl app_lists) of Inl e \<Rightarrow> Some (Inl e)
          | Inr (m', todo) \<Rightarrow> load_loop so mods m' todo))"

definition load_apps :: "(string list \<Rightarrow> string list) \<Rightarrow> (string, py_module) dict \<Rightarrow> manager \<Rightarrow> string list \<Rightarrow>
    manager res option" where
  "load_apps so mods m app_lists = load_loop so mods m (concat (map (split_on (CHR '','')) app_lists))"

section \<open>Instances\<close>

definition set_app_supported_versions :: "int list \<Rightarrow> int list \<Rightarrow> int list res" where
  "set_app_supported_versions supported vers =
     (let s = filter (\<lambda>v. v \<in> set vers) supported in if s = [] then Inl AssertErr else Inr s)"

definition stop_event :: event where
  "stop_event = \<lparr>e_cls = EvCls ''ryu.base.app_manager'' ''_EventThreadStop'', e_kind = EventBase,
     e_dst = None, e_src = None, e_sync = False, e_reply_q = None\<rparr>"

definition new_app :: "world \<Rightarrow> py_class \<Rightarrow> world \<times> nat" where
  "new_app w cls =
     (let r = w_next w in
      (w\<lparr>w_apps := (w_apps w)(r := RyuApp_init cls r), w_heap := (w_heap w)(r := stop_event), w_next := Suc r\<rparr>, r))"

definition instantiate :: "world \<times> manager \<Rightarrow> string option \<Rightarrow> py_class \<Rightarrow> ((world \<times> manager) \<times> nat) res" where
  "instantiate wm app_name cls =
     (case wm of (w, m) \<Rightarrow>
        rbind (case k_versions cls of None \<Rightarrow> Inr (m_supported_versions m)
               | Some vers \<Rightarrow> set_app_supported_versions (m_supported_versions m) vers) (\<lambda>sv.
        let m1 = m\<lparr>m_supported_versions := sv\<rparr> in
        if app_name \<noteq> None \<and> the app_name \<in> set (dkeys (m_applications m1)) then Inl AssertErr
        else let (w1, r) = new_app w cls in
        rbind (register_app w1 r) (\<lambda>w2.
        if a_name (w_apps w2 r) \<in> set (dkeys (m_applications m1)) then Inl AssertErr
        else Inr ((w2, m1\<lparr>m_applications := dput (m_applications m1) (a_name (w_apps w2 r)) r\<rparr>), r))))"

definition create_context :: "world \<times> manager \<Rightarrow> string \<times> py_class \<Rightarrow> (world \<times> manager) res" where
  "create_context wm kc =
     (case kc of (key, cls) \<Rightarrow>
        rbind (if k_is_app cls then rbind (instantiate wm None cls) (\<lambda>(wm1, r). Inr (wm1, AppContext r))
               else Inr (wm, PlainContext cls)) (\<lambda>((w, m), ctx).
        if key \<in> set (dkeys (m_contexts m)) then Inl AssertErr
        else Inr (w, m\<lparr>m_contexts := dput (m_contexts m) key ctx\<rparr>)))"

definition create_contexts :: "world \<times> manager \<Rightarrow> (world \<times> manager) res" where
  "create_contexts wm = rfold create_context wm (m_contexts_cls (snd wm))"

definition make_apps :: "world \<times> manager \<Rightarrow> (world \<times> manager) res" where
  "make_apps wm =
     rfold (\<lambda>wm (app_name, cls). rbind (instantiate wm (Some app_name) cls) (\<lambda>(wm1, r). Inr wm1))
       wm (m_applications_cls (snd wm))"

definition instantiate_apps :: "world \<times> manager \<Rightarrow> (world \<times> manager) res" where
  "instantiate_apps wm =
     rbind (make_apps wm) (\<lambda>(w, m).
     Inr (foldl app_start (update_bricks w) (dvals (m_applications m)), m))"

definition instantiate_one :: "world \<times> manager \<Rightarrow> py_class \<Rightarrow> ((world \<times> manager) \<times> nat) res" where
  "instantiate_one wm cls = rbind (instantiate wm None cls) (\<lambda>((w, m), r). Inr ((update_bricks w, m), r))"

text \<open>\<^verbatim>\<open>uninstantiate\<close>; no value inside when the stop event has to wait for room.\<close>

definition forget_observer :: "string \<Rightarrow> world \<Rightarrow> nat \<Rightarrow> world" where
  "forget_observer name w r = upd_app w r (unregister_observer_all_event (w_apps w r) name)"

definition uninstantiate :: "world \<times> manager \<Rightarrow> string \<Rightarrow> (world \<times> manager) option res" where
  "uninstantiate wm name =
     (case wm of (w, m) \<Rightarrow>
        rbind (dget (m_applications m) name) (\<lambda>r.
        let m1 = m\<lparr>m_applications := ddel (m_applications m) name\<rparr> in
        rbind (unregister_app w r) (\<lambda>w1.
        let w2 = foldl (forget_observer name) w1 (dvals (w_bricks w1)) in
        Inr (case app_stop w2 r of None \<Rightarrow> None | Some w3 \<Rightarrow> Some (w3, m1)))))"

definition manager_close :: "manager \<Rightarrow> manager" where
  "manager_close m = m\<lparr>m_applications := [], m_contexts := []\<rparr>"

text \<open>\<^verbatim>\<open>run_apps\<close> up to the wait for its services.\<close>

definition run_apps :: "(string list \<Rightarrow> string list) \<Rightarrow> (string, py_module) dict \<Rightarrow> world \<times> manager \<Rightarrow> string list \<Rightarrow>
    (world \<times> manager) res option" where
  "run_apps so mods wm app_lists =
     (case load_apps so mods (snd wm) app_lists of None \<Rightarrow> None
      | Some r \<Rightarrow> Some (rbind r (\<lambda>m. rbind (create_contexts (fst wm, m)) instantiate_apps)))"

section \<open>Loading ends and is closed under dependencies\<close>

text \<open>What loading a class adds to the list.\<close>

definition requires :: "(string, py_module) dict \<Rightarrow> py_class \<Rightarrow> string set" where
  "requires mods cls = needs mods cls \<union> \<Union> (needs mods ` {c \<in> snd ` set (k_contexts cls). k_is_app c})"

definition app_of :: "(string, py_module) dict \<Rightarrow> string \<Rightarrow> py_class option" where
  "app_of mods name = (case load_app mods name of Inl _ \<Rightarrow> None | Inr r \<Rightarrow> r)"

text \<open>
  The condition on the modules: every module that an application or a context needs can be imported, the classes that
  two applications use for a context are the same (\<open>ctx\<close>), and the needs have no cycle (\<open>rank\<close>).
\<close>

definition loadable :: "(string, py_module) dict \<Rightarrow> (string \<Rightarrow> py_class) \<Rightarrow> (string \<Rightarrow> nat) \<Rightarrow> bool" where
  "loadable mods ctx rank \<longleftrightarrow> (\<forall>name cls. app_of mods name = Some cls \<longrightarrow>
     imported mods cls \<and> (\<forall>(key, c) \<in> set (k_contexts cls). c = ctx key \<and> imported mods c) \<and>
     (\<forall>s \<in> requires mods cls. s \<in> set (dkeys mods) \<and> rank s < rank name))"

definition contexts_ok :: "(string \<Rightarrow> py_class) \<Rightarrow> manager \<Rightarrow> bool" where
  "contexts_ok ctx m \<longleftrightarrow> (\<forall>(key, c) \<in> set (m_contexts_cls m). c = ctx key)"

definition keeps_contexts :: "manager \<Rightarrow> manager \<Rightarrow> bool" where
  "keeps_contexts m m' \<longleftrightarrow> set (m_contexts_cls m) \<subseteq> set (m_contexts_cls m') \<and>
     m_applications_cls m' = m_applications_cls m \<and> m_applications m' = m_applications m \<and> m_contexts m' = m_contexts m"

lemma load_contexts_spec:
  assumes so: "is_order so"
    and "\<forall>(key, c) \<in> set kcs. c = ctx key \<and> imported mods c" and "contexts_ok ctx m"
  shows "\<exists>m' cms' services'. rfold (load_context so mods) (m, cms, services) kcs = Inr (m', cms', services')
     \<and> keeps_contexts m m' \<and> contexts_ok ctx m' \<and> set cms' = set cms \<union> k_module ` snd ` set kcs
     \<and> set services' = set services \<union> \<Union> (needs mods ` {c \<in> snd ` set kcs. k_is_app c})
     \<and> snd ` set kcs \<subseteq> set (dvals (m_contexts_cls m'))"
  using assms(2,3)
proof (induction kcs arbitrary: m cms services)
  case Nil
  then show ?case by (simp add: keeps_contexts_def)
next
  case (Cons kc kcs)
  obtain key c where kc: "kc = (key, c)" by (cases kc)
  from Cons.prems have c: "c = ctx key" "imported mods c" by (auto simp: kc)
  define m1 where "m1 = (if key \<in> set (dkeys (m_contexts_cls m)) then m
                  else m\<lparr>m_contexts_cls := dput (m_contexts_cls m) key c\<rparr>)"
  have m1: "map_of (m_contexts_cls m1) key = Some c"
  proof (cases "key \<in> set (dkeys (m_contexts_cls m))")
    case True
    then obtain v where v: "map_of (m_contexts_cls m) key = Some v" by (rule key_lookup)
    then have "(key, v) \<in> set (m_contexts_cls m)" by (rule map_of_SomeD)
    with Cons.prems(2) c(1) have "v = c" by (auto simp: contexts_ok_def)
    with v True show ?thesis by (simp add: m1_def)
  qed (simp add: m1_def)
  have k1: "keeps_contexts m m1" by (auto simp: m1_def keeps_contexts_def dput_new)
  have o1: "contexts_ok ctx m1" using Cons.prems(2) c(1) by (auto simp: m1_def contexts_ok_def dput_new)
  obtain ss where ss: "get_dependent_services so mods c = Inr ss" "set ss = needs mods c"
    using get_dependent_services_spec [OF so c(2)] by blast
  define sv where "sv = (if k_is_app c then services @ ss else services)"
  have step: "load_context so mods (m, cms, services) kc = Inr (m1, cms @ [k_module c], sv)"
    unfolding load_context_def kc Let_def prod.case m1_def [symmetric] by (simp add: dget_def m1 sv_def ss(1))
  from Cons.prems(1) have "\<forall>(key, c) \<in> set kcs. c = ctx key \<and> imported mods c" by simp
  from Cons.IH [OF this o1, of "cms @ [k_module c]" sv] obtain m' cms' services' where
    ih': "rfold (load_context so mods) (m1, cms @ [k_module c], sv) kcs = Inr (m', cms', services')
     \<and> keeps_contexts m1 m' \<and> contexts_ok ctx m' \<and> set cms' = set (cms @ [k_module c]) \<union> k_module ` snd ` set kcs
     \<and> set services' = set sv \<union> \<Union> (needs mods ` {c \<in> snd ` set kcs. k_is_app c})
     \<and> snd ` set kcs \<subseteq> set (dvals (m_contexts_cls m'))" by (elim exE) (rule that)
  note ih = ih' [THEN conjunct1] ih' [THEN conjunct2, THEN conjunct1] ih' [THEN conjunct2, THEN conjunct2, THEN conjunct1]
    ih' [THEN conjunct2, THEN conjunct2, THEN conjunct2, THEN conjunct1]
    ih' [THEN conjunct2, THEN conjunct2, THEN conjunct2, THEN conjunct2, THEN conjunct1]
    ih' [THEN conjunct2, THEN conjunct2, THEN conjunct2, THEN conjunct2, THEN conjunct2]
  have "c \<in> set (dvals (m_contexts_cls m'))"
    using map_of_SomeD [OF m1] ih(2) by (force simp: keeps_contexts_def)
  moreover have "keeps_contexts m m'" using k1 ih(2) by (auto simp: keeps_contexts_def)
  moreover have "set services' = set services \<union> \<Union> (needs mods ` {c \<in> snd ` set (kc # kcs). k_is_app c})"
    using ih(5) ss(2) by (auto simp: sv_def kc)
  ultimately show ?case using step ih by (simp add: kc)
qed

text \<open>What is settled or will be: in the list, loaded, made by a context, or a module without an application.\<close>

definition covered :: "(string, py_module) dict \<Rightarrow> manager \<Rightarrow> string list \<Rightarrow> string \<Rightarrow> bool" where
  "covered mods m pending s \<longleftrightarrow> s \<in> set pending \<or> s \<in> set (dkeys (m_applications_cls m))
     \<or> s \<in> set (context_modules m) \<or> app_of mods s = None"

definition load_inv :: "(string, py_module) dict \<Rightarrow> (string \<Rightarrow> py_class) \<Rightarrow> string set \<Rightarrow> manager \<Rightarrow> string list \<Rightarrow> bool" where
  "load_inv mods ctx asked m pending \<longleftrightarrow> contexts_ok ctx m \<and> set pending \<subseteq> set (dkeys mods)
     \<and> (\<forall>s \<in> asked. covered mods m pending s)
     \<and> (\<forall>(n, cls) \<in> set (m_applications_cls m). app_of mods n = Some cls \<and> (\<forall>s \<in> requires mods cls. covered mods m pending s))"

lemma in_set_dput_cases: "(a, b) \<in> set (dput d k v) \<Longrightarrow> a = k \<and> b = v \<or> (a, b) \<in> set d"
  by (induction d k v rule: dput.induct) (auto split: if_splits)

lemma app_of_load_app: "name \<in> set (dkeys mods) \<Longrightarrow> load_app mods name = Inr (app_of mods name)"
proof -
  assume "name \<in> set (dkeys mods)"
  then obtain md where "map_of mods name = Some md" by (rule key_lookup)
  then show ?thesis by (simp add: app_of_def load_app_def split: list.split)
qed

lemma load_inv_mono:
  assumes "load_inv mods ctx asked m pending" and "contexts_ok ctx m'" and "set pending' \<subseteq> set (dkeys mods)"
    and cov: "\<And>s. covered mods m pending s \<Longrightarrow> covered mods m' pending' s"
    and new: "\<And>n cls. (n, cls) \<in> set (m_applications_cls m') \<Longrightarrow> (n, cls) \<in> set (m_applications_cls m) \<or>
        app_of mods n = Some cls \<and> (\<forall>s \<in> requires mods cls. covered mods m' pending' s)"
  shows "load_inv mods ctx asked m' pending'"
proof -
  have "app_of mods n = Some cls \<and> (\<forall>s \<in> requires mods cls. covered mods m' pending' s)"
    if "(n, cls) \<in> set (m_applications_cls m')" for n cls
    using new [OF that] assms(1) cov unfolding load_inv_def by blast
  moreover have "\<forall>s \<in> asked. covered mods m' pending' s" using assms(1) cov unfolding load_inv_def by blast
  ultimately show ?thesis using assms(2,3) unfolding load_inv_def by blast
qed

text \<open>One application: its contexts are created, and the services it or they need and nobody provides yet are asked for.\<close>

lemma load_step_app:
  assumes so: "is_order so" and name: "name \<in> set (dkeys mods)" and nctx: "name \<notin> set (context_modules m)"
    and app: "app_of mods name = Some cls" and imp: "imported mods cls" and ctx: "contexts_ok ctx m"
    and kcs: "\<forall>(key, c) \<in> set (k_contexts cls). c = ctx key \<and> imported mods c"
  obtains m2 new where "load_step so mods m name rest = Inr (m2, rest @ new)" "contexts_ok ctx m2"
    "m_applications_cls m2 = dput (m_applications_cls m) name cls" "set new \<subseteq> requires mods cls"
    "set (context_modules m) \<subseteq> set (context_modules m2)"
    "requires mods cls \<subseteq> set rest \<union> set new \<union> set (context_modules m2)"
proof -
  define m1 where "m1 = m\<lparr>m_applications_cls := dput (m_applications_cls m) name cls\<rparr>"
  have c1: "contexts_ok ctx m1" using ctx by (simp add: contexts_ok_def m1_def)
  from load_contexts_spec [OF so kcs c1, of "context_modules m" "[]"] obtain m2 cms services
    where lc: "rfold (load_context so mods) (m1, context_modules m, []) (k_contexts cls) = Inr (m2, cms, services)"
      "keeps_contexts m1 m2" "contexts_ok ctx m2"
      "set cms = set (context_modules m) \<union> k_module ` snd ` set (k_contexts cls)"
      "set services = \<Union> (needs mods ` {c \<in> snd ` set (k_contexts cls). k_is_app c})"
      "snd ` set (k_contexts cls) \<subseteq> set (dvals (m_contexts_cls m2))" by auto
  obtain ss where ss: "get_dependent_services so mods cls = Inr ss" "set ss = needs mods cls"
    using get_dependent_services_spec [OF so imp] by blast
  define new where "new = filter (\<lambda>s. s \<notin> set rest) (so (remdups (services @ filter (\<lambda>i. i \<notin> set cms) ss)))"
  have step: "load_step so mods m name rest = Inr (m2, rest @ new)"
    by (simp add: load_step_def nctx app_of_load_app [OF name] app Let_def m1_def [symmetric] lc(1) ss(1) new_def)
  have apps: "m_applications_cls m2 = dput (m_applications_cls m) name cls"
    using lc(2) by (simp add: keeps_contexts_def m1_def)
  have req: "requires mods cls = needs mods cls \<union> set services" by (simp add: requires_def lc(5))
  have set_new: "set rest \<union> set new = set rest \<union> set services \<union> (needs mods cls - set cms)"
    using ss(2) by (auto simp: new_def is_order_set [OF so])
  have new: "set new \<subseteq> requires mods cls"
    unfolding req using ss(2) by (auto simp: new_def is_order_set [OF so])
  have "set (dvals (m_contexts_cls m)) \<subseteq> set (dvals (m_contexts_cls m2))"
    using lc(2) by (auto simp: keeps_contexts_def m1_def)
  then have old: "set (context_modules m) \<subseteq> set (context_modules m2)"
    unfolding context_modules_def set_map [of k_module] by (rule image_mono)
  have "k_module ` snd ` set (k_contexts cls) \<subseteq> set (context_modules m2)"
    unfolding context_modules_def set_map [of k_module] by (rule image_mono [OF lc(6)])
  with old lc(4) have "set cms \<subseteq> set (context_modules m2)" by simp
  with set_new have "requires mods cls \<subseteq> set rest \<union> set new \<union> set (context_modules m2)" unfolding req by blast
  with that [OF step lc(3) apps new old] show ?thesis .
qed

lemma load_step_spec:
  assumes so: "is_order so" and ok: "loadable mods ctx rank"
    and inv: "load_inv mods ctx asked m (name # rest)"
  shows "\<exists>m' new. load_step so mods m name rest = Inr (m', rest @ new) \<and> load_inv mods ctx asked m' (rest @ new)
    \<and> (\<forall>s \<in> set new. rank s < rank name)"
proof -
  from inv have name: "name \<in> set (dkeys mods)" and rest: "set rest \<subseteq> set (dkeys mods)"
    and ctx: "contexts_ok ctx m" by (auto simp: load_inv_def)
  have skip: "load_inv mods ctx asked m rest" if "name \<in> set (context_modules m) \<or> app_of mods name = None"
    by (rule load_inv_mono [OF inv ctx rest]) (use that in \<open>auto simp: covered_def\<close>)
  consider (made) "name \<in> set (context_modules m)" | (none) "name \<notin> set (context_modules m)" "app_of mods name = None"
    | (app) cls where "name \<notin> set (context_modules m)" "app_of mods name = Some cls" by fastforce
  then show ?thesis
  proof cases
    case made
    with skip show ?thesis by (intro exI [of _ m] exI [of _ "[]"]) (simp add: load_step_def)
  next
    case none
    with skip show ?thesis
      by (intro exI [of _ m] exI [of _ "[]"]) (simp add: load_step_def app_of_load_app [OF name])
  next
    case (app cls)
    with ok have imp: "imported mods cls" and kcs: "\<forall>(key, c) \<in> set (k_contexts cls). c = ctx key \<and> imported mods c"
      and req: "\<forall>s \<in> requires mods cls. s \<in> set (dkeys mods) \<and> rank s < rank name"
      by (auto simp: loadable_def)
    obtain m2 new where m2: "load_step so mods m name rest = Inr (m2, rest @ new)" "contexts_ok ctx m2"
      "m_applications_cls m2 = dput (m_applications_cls m) name cls" "set new \<subseteq> requires mods cls"
      "set (context_modules m) \<subseteq> set (context_modules m2)"
      "requires mods cls \<subseteq> set rest \<union> set new \<union> set (context_modules m2)"
      by (rule load_step_app [OF so name app imp ctx kcs])
    from req m2(4) have small: "\<forall>s \<in> set new. rank s < rank name" and imp_new: "set new \<subseteq> set (dkeys mods)" by blast+
    have cov: "covered mods m2 (rest @ new) s" if "covered mods m (name # rest) s" for s
      using that m2(5) by (auto simp: covered_def m2(3))
    have req_cov: "covered mods m2 (rest @ new) s" if "s \<in> requires mods cls" for s
      using that m2(6) unfolding covered_def set_append by blast
    have "load_inv mods ctx asked m2 (rest @ new)"
    proof (intro load_inv_mono [OF inv m2(2) _ cov])
      show "set (rest @ new) \<subseteq> set (dkeys mods)" using rest imp_new by simp
      fix n c assume "(n, c) \<in> set (m_applications_cls m2)"
      then have "n = name \<and> c = cls \<or> (n, c) \<in> set (m_applications_cls m)"
        unfolding m2(3) by (rule in_set_dput_cases)
      with app(2) req_cov show "(n, c) \<in> set (m_applications_cls m) \<or>
          app_of mods n = Some c \<and> (\<forall>s \<in> requires mods c. covered mods m2 (rest @ new) s)" by blast
    qed
    with m2(1) small show ?thesis by blast
  qed
qed

lemma load_loop_returns:
  assumes so: "is_order so" and ok: "loadable mods ctx rank" and inv: "load_inv mods ctx asked m pending"
  shows "\<exists>m'. load_loop so mods m pending = Some (Inr m') \<and> load_inv mods ctx asked m' []"
  using inv
proof (induction "image_mset rank (mset pending)" arbitrary: m pending
    rule: wf_induct_rule [OF wf_mult [OF wf_less_than]])
  case 1
  show ?case
  proof (cases pending)
    case Nil
    with 1(2) show ?thesis by (simp add: load_loop.simps)
  next
    case (Cons name rest)
    from load_step_spec [OF so ok 1(2) [unfolded Cons]] obtain m' new
      where st: "load_step so mods m name rest = Inr (m', rest @ new)" "load_inv mods ctx asked m' (rest @ new)"
        "\<forall>s \<in> set new. rank s < rank name" by blast
    have "(image_mset rank (mset rest) + image_mset rank (mset new), image_mset rank (mset rest) + {#rank name#})
        \<in> mult less_than"
      by (rule one_step_implies_mult) (use st(3) in auto)
    then have "(image_mset rank (mset (rest @ new)), image_mset rank (mset pending)) \<in> mult less_than"
      by (simp add: Cons)
    from 1(1) [OF this st(2)] st(1) show ?thesis
      by (subst load_loop.simps) (simp add: Cons)
  qed
qed

text \<open>C13: loading the requested modules ends when the modules that they need can be imported, agree on their
  contexts and do not need each other in a circle; then every requested module and every module that a
  loaded application or one of its contexts needs is loaded itself, is the module of a context, or
  has no application.\<close>

theorem loading_closed:
  assumes "is_order so" and "loadable mods ctx rank"
    and "set (concat (map (split_on (CHR '','')) app_lists)) \<subseteq> set (dkeys mods)"
  shows "\<exists>m'. load_apps so mods (AppManager_init versions) app_lists = Some (Inr m')
    \<and> (\<forall>s \<in> set (concat (map (split_on (CHR '','')) app_lists)). covered mods m' [] s)
    \<and> (\<forall>(n, cls) \<in> set (m_applications_cls m'). app_of mods n = Some cls
         \<and> (\<forall>s \<in> requires mods cls. covered mods m' [] s))"
proof -
  let ?asked = "set (concat (map (split_on (CHR '','')) app_lists))"
  have "load_inv mods ctx ?asked (AppManager_init versions) (concat (map (split_on (CHR '','')) app_lists))"
    using assms(3) by (auto simp: load_inv_def contexts_ok_def AppManager_init_def covered_def)
  from load_loop_returns [OF assms(1,2) this] show ?thesis
    unfolding load_apps_def load_inv_def by blast
qed

text \<open>
  Two applications that handle events of each other are loaded for ever: the loop does not look at what
  it has loaded already.
\<close>

lemma is_order_singleton: "is_order so \<Longrightarrow> so [x] = [x]"
  by (metis is_order_def mset_single_iff mset.simps(1,2))

lemma load_step_single:
  assumes so: "is_order so" and cls: "app_of mods a = Some ca" "k_contexts ca = []"
    and imp: "imported mods ca" and n: "needs mods ca = {b}" and m: "m_contexts_cls m = []"
  shows "\<exists>m'. load_step so mods m a [] = Inr (m', [b]) \<and> m_contexts_cls m' = []"
proof -
  from get_dependent_services_spec [OF so imp] n obtain ss
    where ss: "get_dependent_services so mods ca = Inr ss" "set ss = {b}" "distinct ss" by blast
  from ss(2,3) have "ss = [b]" by (cases ss; cases "tl ss") auto
  moreover have "load_app mods a = Inr (Some ca)"
    using cls(1) by (auto simp: app_of_def split: sum.splits)
  ultimately show ?thesis
    using ss(1) m cls(2) is_order_singleton [OF so, of b]
    by (simp add: load_step_def context_modules_def Let_def)
qed

theorem circular_never_loads:
  assumes so: "is_order so"
    and a: "app_of mods a = Some ca" "k_contexts ca = []" "imported mods ca" "needs mods ca = {b}"
    and b: "app_of mods b = Some cb" "k_contexts cb = []" "imported mods cb" "needs mods cb = {a}"
    and m: "m_contexts_cls m = []"
  shows "load_loop so mods m [a] = None"
proof (cases "load_loop so mods m [a]")
  case (Some y)
  have "so = so \<longrightarrow> mods = mods \<longrightarrow> m_contexts_cls m = [] \<longrightarrow> [a] \<noteq> [a] \<and> [a] \<noteq> [b]"
  proof (rule load_loop.raw_induct [where P = "\<lambda>so' mods' m' l y. so' = so \<longrightarrow> mods' = mods \<longrightarrow>
        m_contexts_cls m' = [] \<longrightarrow> l \<noteq> [a] \<and> l \<noteq> [b]", OF _ Some])
    fix load_loop' so' mods' m' l y'
    assume ih: "\<And>so' mods' m' l y. load_loop' so' mods' m' l = Some y \<Longrightarrow>
        so' = so \<longrightarrow> mods' = mods \<longrightarrow> m_contexts_cls m' = [] \<longrightarrow> l \<noteq> [a] \<and> l \<noteq> [b]"
      and body: "(if l = [] then Some (Inr m')
         else case load_step so' mods' m' (hd l) (tl l) of Inl e \<Rightarrow> Some (Inl e)
              | Inr (m'', todo) \<Rightarrow> load_loop' so' mods' m'' todo) = Some y'"
    show "so' = so \<longrightarrow> mods' = mods \<longrightarrow> m_contexts_cls m' = [] \<longrightarrow> l \<noteq> [a] \<and> l \<noteq> [b]"
    proof (intro impI)
      assume e: "so' = so" "mods' = mods" "m_contexts_cls m' = []"
      from load_step_single [OF so a e(3)] obtain ma
        where ma: "load_step so mods m' a [] = Inr (ma, [b])" "m_contexts_cls ma = []" by blast
      from load_step_single [OF so b e(3)] obtain mb
        where mb: "load_step so mods m' b [] = Inr (mb, [a])" "m_contexts_cls mb = []" by blast
      show "l \<noteq> [a] \<and> l \<noteq> [b]" using body ma mb ih e by force
    qed
  qed
  with m show ?thesis by simp
qed

section \<open>Instances are wired and run\<close>

definition start_world :: "world \<Rightarrow> bool" where
  "start_world w \<longleftrightarrow> w_bricks w = [] \<and>
     (\<forall>r. a_observers (w_apps w r) = [] \<and> a_events (w_apps w r) = [] \<and> a_threads (w_apps w r) = 0)"

definition inst_inv :: "world \<Rightarrow> manager \<Rightarrow> bool" where
  "inst_inv w m \<longleftrightarrow> bricks_ok w \<and> m_applications m = w_bricks w \<and> (\<forall>r \<in> set (dvals (w_bricks w)). r < w_next w)
     \<and> (\<forall>r. a_observers (w_apps w r) = [] \<and> a_events (w_apps w r) = [] \<and> a_threads (w_apps w r) = 0)
     \<and> (\<forall>r \<in> set (dvals (w_bricks w)). \<exists>cls. w_apps w r = register_instance (RyuApp_init cls r))"

lemma foldl_register_handler_fields:
  "a_name (foldl (\<lambda>a c. register_handler a c m) a cs) = a_name a"
  "a_cls (foldl (\<lambda>a c. register_handler a c m) a cs) = a_cls a"
  "a_observers (foldl (\<lambda>a c. register_handler a c m) a cs) = a_observers a"
  "a_events (foldl (\<lambda>a c. register_handler a c m) a cs) = a_events a"
  "a_threads (foldl (\<lambda>a c. register_handler a c m) a cs) = a_threads a"
  "a_active (foldl (\<lambda>a c. register_handler a c m) a cs) = a_active a"
  by (induction cs arbitrary: a) (simp_all add: register_handler_def)

lemma register_instance_fields [simp]:
  "a_name (register_instance a) = a_name a" "a_cls (register_instance a) = a_cls a"
  "a_observers (register_instance a) = a_observers a" "a_events (register_instance a) = a_events a"
  "a_threads (register_instance a) = a_threads a" "a_active (register_instance a) = a_active a"
proof -
  have "a_name (foldl (\<lambda>a m. if has_caller m then foldl (\<lambda>a c. register_handler a c m) a (dkeys (callers_of m)) else a) a ms) = a_name a
    \<and> a_cls (foldl (\<lambda>a m. if has_caller m then foldl (\<lambda>a c. register_handler a c m) a (dkeys (callers_of m)) else a) a ms) = a_cls a
    \<and> a_observers (foldl (\<lambda>a m. if has_caller m then foldl (\<lambda>a c. register_handler a c m) a (dkeys (callers_of m)) else a) a ms) = a_observers a
    \<and> a_events (foldl (\<lambda>a m. if has_caller m then foldl (\<lambda>a c. register_handler a c m) a (dkeys (callers_of m)) else a) a ms) = a_events a
    \<and> a_threads (foldl (\<lambda>a m. if has_caller m then foldl (\<lambda>a c. register_handler a c m) a (dkeys (callers_of m)) else a) a ms) = a_threads a
    \<and> a_active (foldl (\<lambda>a m. if has_caller m then foldl (\<lambda>a c. register_handler a c m) a (dkeys (callers_of m)) else a) a ms) = a_active a" for ms
    by (induction ms arbitrary: a) (simp_all add: foldl_register_handler_fields)
  then show "a_name (register_instance a) = a_name a" "a_cls (register_instance a) = a_cls a"
    "a_observers (register_instance a) = a_observers a" "a_events (register_instance a) = a_events a"
    "a_threads (register_instance a) = a_threads a" "a_active (register_instance a) = a_active a"
    by (simp_all add: register_instance_def)
qed

lemma RyuApp_init_fields [simp]:
  "a_cls (RyuApp_init cls r) = cls" "a_observers (RyuApp_init cls r) = []" "a_events (RyuApp_init cls r) = []"
  "a_threads (RyuApp_init cls r) = 0" "a_active (RyuApp_init cls r)" "a_event_handlers (RyuApp_init cls r) = []"
  by (simp_all add: RyuApp_init_def)

lemma instantiate_spec:
  assumes i: "instantiate (w, m) an cls = Inr ((w', m'), r)" and inv: "inst_inv w m"
  shows "inst_inv w' m' \<and> set (w_bricks w) \<subseteq> set (w_bricks w') \<and> r \<in> set (dvals (w_bricks w')) \<and> a_cls (w_apps w' r) = cls
    \<and> (\<forall>r' \<in> set (dvals (w_bricks w)). w_apps w' r' = w_apps w r')
    \<and> m_applications_cls m' = m_applications_cls m \<and> m_contexts_cls m' = m_contexts_cls m"
proof -
  define n where "n = a_name (RyuApp_init cls (w_next w))"
  from i obtain sv where r: "r = w_next w" and new: "n \<notin> set (dkeys (w_bricks w))"
    and w': "w' = upd_app (w\<lparr>w_apps := (w_apps w)(r := RyuApp_init cls r), w_heap := (w_heap w)(r := stop_event),
         w_next := Suc r, w_bricks := dput (w_bricks w) n r\<rparr>) r (register_instance (RyuApp_init cls r))"
    and m': "m' = m\<lparr>m_supported_versions := sv, m_applications := dput (m_applications m) n r\<rparr>"
    by (auto simp: instantiate_def new_app_def Let_def register_app_def rbind_eq_Inr n_def upd_app_def
        split: if_splits option.splits)
  have b: "w_bricks w' = w_bricks w @ [(n, r)]" using dput_new [OF new] by (simp add: w')
  have fresh: "r \<notin> set (dvals (w_bricks w))" using inv by (auto simp: inst_inv_def r)
  have apps: "w_apps w' = (w_apps w)(r := register_instance (RyuApp_init cls r))" by (simp add: w')
  have old: "w_apps w' r' = w_apps w r'" if "r' \<in> set (dvals (w_bricks w))" for r'
    using that fresh by (auto simp: apps)
  have "bricks_ok w'"
    unfolding bricks_ok_def
  proof (intro conjI)
    show "distinct (dkeys (w_bricks w'))" using inv new by (simp add: b inst_inv_def bricks_ok_def del: set_map)
    show "distinct (dvals (w_bricks w'))" using inv fresh by (simp add: b inst_inv_def bricks_ok_def del: set_map)
    show "\<forall>(k, v) \<in> set (w_bricks w'). a_name (w_apps w' v) = k"
      using inv old n_def r by (force simp: b inst_inv_def bricks_ok_def apps)
  qed
  moreover have "m_applications m' = w_bricks w'"
    using inv dput_new [OF new] by (simp add: m' b inst_inv_def)
  moreover have "\<forall>x \<in> set (dvals (w_bricks w')). x < w_next w'"
  proof -
    have "w_next w' = Suc r" by (simp add: w')
    with inv show ?thesis by (auto simp: b r inst_inv_def)
  qed
  moreover have "\<forall>x. a_observers (w_apps w' x) = [] \<and> a_events (w_apps w' x) = [] \<and> a_threads (w_apps w' x) = 0"
    using inv by (simp add: apps inst_inv_def)
  moreover have "\<forall>x \<in> set (dvals (w_bricks w')). \<exists>cls. w_apps w' x = register_instance (RyuApp_init cls x)"
    using inv by (auto simp: b apps inst_inv_def)
  ultimately show ?thesis using old by (auto simp: inst_inv_def b apps m')
qed

text \<open>What the two loops of instantiations keep of the instances that exist.\<close>

definition grows :: "world \<times> manager \<Rightarrow> world \<times> manager \<Rightarrow> bool" where
  "grows wm wm' \<longleftrightarrow> inst_inv (fst wm') (snd wm')
     \<and> (\<forall>n r. (n, r) \<in> set (w_bricks (fst wm)) \<longrightarrow>
           (n, r) \<in> set (w_bricks (fst wm')) \<and> w_apps (fst wm') r = w_apps (fst wm) r)
     \<and> m_applications_cls (snd wm') = m_applications_cls (snd wm)"

lemma grows_trans: "grows a b \<Longrightarrow> grows b c \<Longrightarrow> grows a c"
  unfolding grows_def by metis

lemma inst_inv_contexts [simp]: "inst_inv w (m\<lparr>m_contexts := c\<rparr>) = inst_inv w m"
  by (simp add: inst_inv_def)

lemma create_context_grows:
  assumes "create_context (w, m) kc = Inr wm'" and "inst_inv w m"
  shows "grows (w, m) wm'"
proof -
  obtain key cls where kc: "kc = (key, cls)" by (cases kc)
  show ?thesis
  proof (cases "k_is_app cls")
    case True
    with assms(1) obtain w1 m1 r where i: "instantiate (w, m) None cls = Inr ((w1, m1), r)"
      and wm': "wm' = (w1, m1\<lparr>m_contexts := dput (m_contexts m1) key (AppContext r)\<rparr>)"
      by (auto simp: create_context_def kc rbind_eq_Inr split: if_splits prod.splits)
    from instantiate_spec [OF i assms(2)] show ?thesis by (auto simp: grows_def wm')
  next
    case False
    with assms show ?thesis by (auto simp: create_context_def kc grows_def split: if_splits)
  qed
qed

lemma create_contexts_grows:
  assumes "rfold create_context wm kcs = Inr wm'" and "inst_inv (fst wm) (snd wm)"
  shows "grows wm wm'"
  using assms
proof (induction kcs arbitrary: wm)
  case (Cons kc kcs)
  then obtain wm1 where 1: "create_context (fst wm, snd wm) kc = Inr wm1" "rfold create_context wm1 kcs = Inr wm'"
    by (auto simp: rbind_eq_Inr)
  from create_context_grows [OF 1(1) Cons.prems(2)] have g: "grows wm wm1" by simp
  with Cons.IH [OF 1(2)] have "grows wm1 wm'" by (simp add: grows_def)
  with g show ?case by (rule grows_trans)
qed (simp add: grows_def)

lemma make_apps_grows:
  assumes "rfold (\<lambda>wm (app_name, cls). rbind (instantiate wm (Some app_name) cls) (\<lambda>(wm1, r). Inr wm1)) wm acs = Inr wm'"
    and "inst_inv (fst wm) (snd wm)"
  shows "grows wm wm' \<and> (\<forall>(n, cls) \<in> set acs. \<exists>r \<in> set (dvals (w_bricks (fst wm'))). a_cls (w_apps (fst wm') r) = cls)"
  using assms
proof (induction acs arbitrary: wm)
  case (Cons ac acs)
  obtain n cls where ac: "ac = (n, cls)" by (cases ac)
  from Cons.prems(1) obtain wm1 r where 1: "instantiate (fst wm, snd wm) (Some n) cls = Inr ((fst wm1, snd wm1), r)"
    "rfold (\<lambda>wm (app_name, cls). rbind (instantiate wm (Some app_name) cls) (\<lambda>(wm1, r). Inr wm1)) wm1 acs = Inr wm'"
    by (auto simp: ac rbind_eq_Inr)
  from instantiate_spec [OF 1(1) Cons.prems(2)] have g: "grows wm wm1"
    and r: "r \<in> set (dvals (w_bricks (fst wm1)))" "a_cls (w_apps (fst wm1) r) = cls"
    by (auto simp: grows_def)
  from r(1) obtain k where k: "(k, r) \<in> set (w_bricks (fst wm1))" by auto
  from Cons.IH [OF 1(2)] g have g': "grows wm1 wm'"
    and all: "\<forall>(n, cls) \<in> set acs. \<exists>r \<in> set (dvals (w_bricks (fst wm'))). a_cls (w_apps (fst wm') r) = cls"
    by (simp_all add: grows_def)
  from g' k r(2) have "(k, r) \<in> set (w_bricks (fst wm'))" "a_cls (w_apps (fst wm') r) = cls"
    by (simp_all add: grows_def)
  then have "\<exists>r \<in> set (dvals (w_bricks (fst wm'))). a_cls (w_apps (fst wm') r) = cls" by force
  with all grows_trans [OF g g'] show ?case by (simp add: ac)
qed (simp add: grows_def)

lemma app_start_all:
  assumes "distinct rs"
  shows "w_bricks (foldl app_start w rs) = w_bricks w"
    and "w_apps (foldl app_start w rs) r =
      (if r \<in> set rs then (w_apps w r)\<lparr>a_threads := Suc (a_threads (w_apps w r))\<rparr> else w_apps w r)"
proof -
  have "distinct rs \<Longrightarrow> w_bricks (foldl app_start w rs) = w_bricks w \<and> w_apps (foldl app_start w rs) r =
      (if r \<in> set rs then (w_apps w r)\<lparr>a_threads := Suc (a_threads (w_apps w r))\<rparr> else w_apps w r)" for w
    by (induction rs arbitrary: w) (auto simp: app_start_def)
  with assms show "w_bricks (foldl app_start w rs) = w_bricks w" "w_apps (foldl app_start w rs) r =
      (if r \<in> set rs then (w_apps w r)\<lparr>a_threads := Suc (a_threads (w_apps w r))\<rparr> else w_apps w r)"
    by simp_all
qed

lemma load_context_keeps:
  assumes "rfold (load_context so mods) s kcs = Inr s'"
  shows "m_applications (fst s') = m_applications (fst s)"
  using assms by (rule rfold_inv [where P = "\<lambda>t. m_applications (fst t) = m_applications (fst s)"])
    (auto simp: load_context_def Let_def rbind_eq_Inr split: if_splits prod.splits)

lemma load_step_keeps:
  assumes "load_step so mods m name rest = Inr (m', l)"
  shows "m_applications m' = m_applications m"
proof (cases "name \<in> set (context_modules m) \<or> load_app mods name = Inr None")
  case True
  with assms show ?thesis by (auto simp: load_step_def split: if_splits)
next
  case False
  with assms obtain cls cms services where
    "rfold (load_context so mods) (m\<lparr>m_applications_cls := dput (m_applications_cls m) name cls\<rparr>, context_modules m, [])
       (k_contexts cls) = Inr (m', cms, services)"
    by (auto simp: load_step_def rbind_eq_Inr Let_def split: option.splits)
  from load_context_keeps [OF this] show ?thesis by simp
qed

lemma load_loop_keeps:
  assumes "load_loop so mods m l = Some (Inr m')"
  shows "m_applications m' = m_applications m"
proof -
  have "\<forall>m2. (Inr m' :: manager res) = Inr m2 \<longrightarrow> m_applications m2 = m_applications m"
  proof (rule load_loop.raw_induct [where P = "\<lambda>so mods m l y. \<forall>m2. y = Inr m2 \<longrightarrow> m_applications m2 = m_applications m", OF _ assms])
    fix ll so mods m l y
    assume ih: "\<And>so mods m l y. ll so mods m l = Some y \<Longrightarrow> \<forall>m2. y = Inr m2 \<longrightarrow> m_applications m2 = m_applications m"
      and body: "(if l = [] then Some (Inr m)
         else case load_step so mods m (hd l) (tl l) of Inl e \<Rightarrow> Some (Inl e)
              | Inr (m'', todo) \<Rightarrow> ll so mods m'' todo) = Some y"
    show "\<forall>m2. y = Inr m2 \<longrightarrow> m_applications m2 = m_applications m"
    proof (cases "load_step so mods m (hd l) (tl l)")
      case (Inr r)
      obtain m3 todo where "r = (m3, todo)" by (cases r)
      with body Inr ih [of so mods m3 todo y] load_step_keeps [of so mods m "hd l" "tl l" m3 todo] show ?thesis
        by (auto split: if_splits)
    qed (use body in \<open>auto split: if_splits\<close>)
  qed
  then show ?thesis by simp
qed

text \<open>Who is told of an event depends on the bricks and their classes only.\<close>

lemma told_same:
  assumes "w_bricks w' = w_bricks w" and "\<And>r. a_cls (w_apps w' r) = a_cls (w_apps w r)" and "\<And>r. a_name (w_apps w' r) = a_name (w_apps w r)"
  shows "wants w' b c n = wants w b c n" and "told w' b c st r = told w b c st r"
proof -
  have mk: "makes w' b src c = makes w b src c" for src c
    by (simp add: makes_def lookup_service_brick_by_mod_name_def lookup_service_brick_def assms)
  show "wants w' b c n = wants w b c n" for n by (simp only: wants_def mk assms)
  then show "told w' b c st r = told w b c st r" by (simp only: told_def assms(1))
qed

lemma app_start_apps:
  assumes "distinct rs"
  shows "a_cls (w_apps (foldl app_start w rs) r) = a_cls (w_apps w r)" "a_name (w_apps (foldl app_start w rs) r) = a_name (w_apps w r)"
    "a_observers (w_apps (foldl app_start w rs) r) = a_observers (w_apps w r)"
    "a_events (w_apps (foldl app_start w rs) r) = a_events (w_apps w r)"
    "a_active (w_apps (foldl app_start w rs) r) = a_active (w_apps w r)"
    "a_event_handlers (w_apps (foldl app_start w rs) r) = a_event_handlers (w_apps w r)"
  by (simp_all add: app_start_all(2) [OF assms])

lemma get_observers_same: "a_observers a = a_observers a' \<Longrightarrow> get_observers ko a c st = get_observers ko a' c st"
  by (simp add: get_observers_def observers_of_def)

text \<open>An announcement to the observers of a wired world in which the queues are empty.\<close>

lemma announce:
  assumes obs: "set (get_observers ko (w_apps w b) (e_cls (w_heap w ev)) st) = {n. wants w b (e_cls (w_heap w ev)) n \<noteq> {} \<and>
      (st = None \<or> \<Union> (set ` wants w b (e_cls (w_heap w ev)) n) = {} \<or> the st \<in> \<Union> (set ` wants w b (e_cls (w_heap w ev)) n))}"
    and d: "distinct (get_observers ko (w_apps w b) (e_cls (w_heap w ev)) st)"
    and bo: "bricks_ok w" and empty: "\<And>r. a_events (w_apps w r) = []"
  shows "\<exists>w'. send_event_to_observers ko w b ev st = (w', []) \<and>
    (\<forall>r. a_events (w_apps w' r) = (if told w b (e_cls (w_heap w ev)) st r then [(ev, st)] else []))"
proof -
  let ?obs = "get_observers ko (w_apps w b) (e_cls (w_heap w ev)) st"
  have keys: "set ?obs \<subseteq> set (dkeys (w_bricks w))" using wants_keys [OF bo] unfolding obs by blast
  have "distinct (dvals (w_bricks w))" using bo by (simp add: bricks_ok_def)
  from send_all_room [OF d keys this, of "a_name (w_apps w b)" ev st] empty obtain w' where
    w': "send_all w (a_name (w_apps w b)) ?obs ev st = (w', [])"
      "\<forall>r. a_events (w_apps w' r) = (if \<exists>ob \<in> set ?obs. map_of (w_bricks w) ob = Some r then [(ev, st)] else [])"
    by (auto simp: queue_size_def)
  have "(\<exists>ob \<in> set ?obs. map_of (w_bricks w) ob = Some r) = told w b (e_cls (w_heap w ev)) st r" for r
    unfolding obs told_def by blast
  with w' show ?thesis by (simp add: send_event_to_observers_def)
qed

text \<open>C31: when \<^verbatim>\<open>run_apps\<close> has started the applications without an exception, in a world that had none, the table of bricks is well formed and
  is the table of applications; every loaded class has an instance; every instance is active, runs exactly one event
  loop, has an empty queue, and its handlers for an event in a state are the methods of its class that are decorated for
  the event's class and the state, in the order of the class; and an event that any of them announces is put into the
  queues of exactly those applications that have a decorated method for its class from that source, unless the states
  that the application listed for the class are given and miss this one; the sender does not wait.\<close>

theorem applications_run:
  assumes "run_apps so mods (w0, AppManager_init versions) app_lists = Some (Inr (w, m))" and "start_world w0" and "is_order ko"
  shows "bricks_ok w \<and> m_applications m = w_bricks w
     \<and> (\<forall>(n, cls) \<in> set (m_applications_cls m). \<exists>r \<in> set (dvals (w_bricks w)). a_cls (w_apps w r) = cls)
     \<and> (\<forall>r \<in> set (dvals (w_bricks w)). a_active (w_apps w r) \<and> a_threads (w_apps w r) = 1 \<and> a_events (w_apps w r) = []
          \<and> ((\<forall>h \<in> set (k_methods (a_cls (w_apps w r))). distinct (dkeys (callers_of h))) \<longrightarrow>
             (\<forall>c s. get_handlers (w_apps w r) c (Some s) =
                filter (\<lambda>h. has_caller h \<and> c \<in> set (dkeys (callers_of h)) \<and> handler_test c s h) (k_methods (a_cls (w_apps w r))))))
     \<and> (\<forall>b ev st. \<exists>w'. send_event_to_observers ko w b ev st = (w', []) \<and>
          (\<forall>r. a_events (w_apps w' r) = (if told w b (e_cls (w_heap w ev)) st r then [(ev, st)] else [])))"
proof -
  from assms(1) obtain ml where ml: "load_apps so mods (AppManager_init versions) app_lists = Some (Inr ml)"
    and r: "rbind (create_contexts (w0, ml)) instantiate_apps = Inr (w, m)"
    by (auto simp: run_apps_def rbind_eq_Inr split: option.splits)
  have ml_apps: "m_applications ml = []"
    using load_loop_keeps [OF ml [unfolded load_apps_def]] by (simp add: AppManager_init_def)
  have inv0: "inst_inv w0 ml"
    using assms(2) ml_apps by (simp add: start_world_def inst_inv_def bricks_ok_def)
  from r obtain wm1 w2 where 1: "rfold create_context (w0, ml) (m_contexts_cls ml) = Inr wm1" "make_apps wm1 = Inr (w2, m)"
    "w = foldl app_start (update_bricks w2) (dvals (m_applications m))"
    by (auto simp: rbind_eq_Inr create_contexts_def instantiate_apps_def)
  from create_contexts_grows [OF 1(1)] inv0 have "inst_inv (fst wm1) (snd wm1)" by (simp add: grows_def)
  from make_apps_grows [OF 1(2) [unfolded make_apps_def] this] have inv2: "inst_inv w2 m"
    and cls: "\<forall>(n, cls) \<in> set (m_applications_cls m). \<exists>r \<in> set (dvals (w_bricks w2)). a_cls (w_apps w2 r) = cls"
    by (simp_all add: grows_def)
  have sa: "same_apps w2 (update_bricks w2)" by (simp add: update_bricks_regs)
  note s = same_apps_simps [OF sa]
  have d: "distinct (dvals (m_applications m))" and am: "m_applications m = w_bricks w2" and bo: "bricks_ok w2"
    and none: "\<And>r. a_observers (w_apps w2 r) = []" "\<And>r. a_events (w_apps w2 r) = []" "\<And>r. a_threads (w_apps w2 r) = 0"
    and inst: "\<And>r. r \<in> set (dvals (w_bricks w2)) \<Longrightarrow> \<exists>cls. w_apps w2 r = register_instance (RyuApp_init cls r)"
    using inv2 by (auto simp: inst_inv_def bricks_ok_def simp del: set_map)
  have core: "app_core (w_apps (update_bricks w2) r) = app_core (w_apps w2 r)" for r using sa by (simp add: same_apps_def)
  have th: "a_threads (w_apps (update_bricks w2) r) = 0" "a_active (w_apps (update_bricks w2) r) = a_active (w_apps w2 r)" for r
    using arg_cong [OF core [of r], of a_threads] arg_cong [OF core [of r], of a_active] none(3) [of r] by (simp_all add: app_core_def)
  note start = app_start_all [OF d, of "update_bricks w2", folded 1(3)]
    and same = app_start_apps [OF d, of "update_bricks w2", folded 1(3)]
  have bw: "w_bricks w = w_bricks w2" using start(1) s(5) by simp
  have apps: "a_cls (w_apps w r) = a_cls (w_apps w2 r)" "a_name (w_apps w r) = a_name (w_apps w2 r)" for r
    by (simp_all add: same(1,2) s(1,2))
  have bok: "bricks_ok w" using bo by (simp add: bricks_ok_def bw apps)
  have empty: "a_events (w_apps w r) = []" for r by (simp add: same(4) s(3) none(2))
  have hs: "get_handlers (w_apps w r) c (Some st) =
      filter (\<lambda>h. has_caller h \<and> c \<in> set (dkeys (callers_of h)) \<and> handler_test c st h) (k_methods (a_cls (w_apps w r)))"
    if rb: "r \<in> set (dvals (w_bricks w))" and dm: "\<forall>h \<in> set (k_methods (a_cls (w_apps w r))). distinct (dkeys (callers_of h))" for r c st
  proof -
    from inst [of r] rb obtain cls where cls: "w_apps w2 r = register_instance (RyuApp_init cls r)" unfolding bw by blast
    then have c: "a_cls (w_apps w r) = cls" by (simp add: apps)
    have "a_event_handlers (w_apps w r) = a_event_handlers (register_instance (RyuApp_init cls r))"
      by (simp add: same(6) s(4) cls)
    then have "get_handlers (w_apps w r) c' st' = get_handlers (register_instance (RyuApp_init cls r)) c' st'" for c' st'
      by (simp add: get_handlers_def)
    moreover have "get_handlers (register_instance (RyuApp_init cls r)) c (Some st) =
        filter (\<lambda>h. has_caller h \<and> c \<in> set (dkeys (callers_of h)) \<and> handler_test c st h) (k_methods (a_cls (RyuApp_init cls r)))"
      by (rule handlers_run) (use dm c in simp_all)
    ultimately show ?thesis by (simp add: c)
  qed
  have run: "a_active (w_apps w r) \<and> a_threads (w_apps w r) = 1" if "r \<in> set (dvals (w_bricks w))" for r
  proof -
    from inst [of r] that obtain cls where "w_apps w2 r = register_instance (RyuApp_init cls r)" unfolding bw by blast
    then show ?thesis using that th [of r] by (simp add: same(5) start(2) am bw del: set_map)
  qed
  have send: "\<exists>w'. send_event_to_observers ko w b ev st = (w', []) \<and>
      (\<forall>r. a_events (w_apps w' r) = (if told w b (e_cls (w_heap w ev)) st r then [(ev, st)] else []))" for b ev st
  proof (rule announce [OF _ _ bok empty])
    let ?c = "e_cls (w_heap w ev)"
    note obs = wiring_observers [where w = w2 and b = b and c = ?c and state = st, OF assms(3) none(1)]
      and eq = get_observers_same [OF same(3) [of b], of ko ?c st]
    show "distinct (get_observers ko (w_apps w b) ?c st)" unfolding eq by (rule obs(2))
    show "set (get_observers ko (w_apps w b) ?c st) = {n. wants w b ?c n \<noteq> {} \<and>
        (st = None \<or> \<Union> (set ` wants w b ?c n) = {} \<or> the st \<in> \<Union> (set ` wants w b ?c n))}"
      unfolding eq told_same(1) [of w w2, OF bw apps] by (rule obs(1))
  qed
  have "\<forall>(n, cls) \<in> set (m_applications_cls m). \<exists>r \<in> set (dvals (w_bricks w)). a_cls (w_apps w r) = cls"
    using cls by (simp only: bw apps)
  with bok am bw run empty hs send show ?thesis by (intro conjI allI ballI impI) auto
qed

text \<open>C32: an application that is taken out has no brick and is in no list of observers any more, so that no event of another
  application reaches it; and it is told to stop: it is not active any more, and the stop event is the last one in its
  queue, behind the events that were there. No other application's queue changes.\<close>

theorem uninstantiated:
  assumes "uninstantiate (w, m) name = Inr (Some (w', m'))" and "bricks_ok w" and "observers_distinct w"
    and "m_applications m = w_bricks w" and "is_order ko"
  shows "name \<notin> set (dkeys (w_bricks w')) \<and> name \<notin> set (dkeys (m_applications m'))
     \<and> (\<forall>b \<in> set (dvals (w_bricks w')). \<forall>c state. name \<notin> set (get_observers ko (w_apps w' b) c state))
     \<and> send_event w' self name ev state = Some w'
     \<and> (\<exists>r. map_of (m_applications m) name = Some r \<and> \<not> a_active (w_apps w' r)
          \<and> a_events (w_apps w' r) = a_events (w_apps w r) @ [(a_event_stop (w_apps w r), None)]
          \<and> (\<forall>r'. r' \<noteq> r \<longrightarrow> a_events (w_apps w' r') = a_events (w_apps w r')))"
proof -
  from assms(1) obtain r w1 where r: "map_of (m_applications m) name = Some r"
    and w1: "unregister_app w r = Inr w1" and m': "m' = m\<lparr>m_applications := ddel (m_applications m) name\<rparr>"
    and w': "app_stop (foldl (forget_observer name) w1 (dvals (w_bricks w1))) r = Some w'"
    by (auto simp: uninstantiate_def Let_def rbind_eq_Inr dget_Inr_iff split: option.splits)
  from r assms(2,4) have "a_name (w_apps w r) = name" by (force simp: bricks_ok_def dest: map_of_SomeD)
  with w1 have w1': "w1 = w\<lparr>w_bricks := ddel (w_bricks w) name\<rparr>"
    by (auto simp: unregister_app_def split: if_splits)
  define w2 where "w2 = foldl (forget_observer name) w1 (dvals (w_bricks w1))"
  define F :: "observers \<Rightarrow> observers" where "F = map (\<lambda>(c, d). (c, ddel d name))"
  have FF: "F (F obs) = F obs" for obs by (auto simp: F_def ddel_def)
  have one: "w_bricks (forget_observer name v r) = w_bricks v"
    "a_observers (w_apps (forget_observer name v r) b) =
      (if b = r then F (a_observers (w_apps v b)) else a_observers (w_apps v b))" for v r b
    by (simp_all add: forget_observer_def unregister_observer_all_event_def F_def)
  have f: "w_bricks (foldl (forget_observer name) v rs) = w_bricks v \<and>
      a_observers (w_apps (foldl (forget_observer name) v rs) b) =
        (if b \<in> set rs then F (a_observers (w_apps v b)) else a_observers (w_apps v b))" for v rs b
    by (induction rs arbitrary: v) (auto simp: one FF)
  have st: "w_bricks w' = w_bricks w2 \<and> a_observers (w_apps w' b) = a_observers (w_apps w2 b)" for b
    using w' by (auto simp: app_stop_def put_event_def hub_put_def Let_def w2_def split: if_splits option.splits)
  have kept: "a_events (w_apps (forget_observer name v x) b) = a_events (w_apps v b)"
    "a_event_stop (w_apps (forget_observer name v x) b) = a_event_stop (w_apps v b)" for v x b
    by (simp_all add: forget_observer_def unregister_observer_all_event_def)
  have "a_events (w_apps (foldl (forget_observer name) v rs) b) = a_events (w_apps v b) \<and>
      a_event_stop (w_apps (foldl (forget_observer name) v rs) b) = a_event_stop (w_apps v b)" for v rs b
    by (induction rs arbitrary: v) (simp_all add: kept)
  then have q2: "a_events (w_apps w2 b) = a_events (w_apps w b)" "a_event_stop (w_apps w2 b) = a_event_stop (w_apps w b)" for b
    by (simp_all add: w2_def w1')
  have "\<not> a_active (w_apps w' r)" "a_events (w_apps w' r) = a_events (w_apps w2 r) @ [(a_event_stop (w_apps w2 r), None)]"
    "\<And>r'. r' \<noteq> r \<Longrightarrow> a_events (w_apps w' r') = a_events (w_apps w2 r')"
    using w' by (auto simp: app_stop_def put_event_def hub_put_def Let_def w2_def split: if_splits option.splits)
  then have told: "\<exists>r. map_of (m_applications m) name = Some r \<and> \<not> a_active (w_apps w' r)
      \<and> a_events (w_apps w' r) = a_events (w_apps w r) @ [(a_event_stop (w_apps w r), None)]
      \<and> (\<forall>r'. r' \<noteq> r \<longrightarrow> a_events (w_apps w' r') = a_events (w_apps w r'))"
    using r by (intro exI [of _ r]) (simp add: q2)
  have bricks: "w_bricks w' = ddel (w_bricks w) name" using st f [of w1] by (simp add: w2_def w1')
  have "name \<notin> set (get_observers ko (w_apps w' b) c state)" if "b \<in> set (dvals (w_bricks w'))" for b c state
  proof -
    from that have "b \<in> set (dvals (w_bricks w1))" by (simp add: bricks w1' del: set_map)
    then have obs: "a_observers (w_apps w' b) = F (a_observers (w_apps w b))"
      using st [of b] f [of w1 _ b] by (simp add: w2_def w1')
    have o: "observers_of (w_apps w' b) c = ddel (observers_of (w_apps w b) c) name"
    proof -
      have "map_of (F obs) c = map_option (\<lambda>d. ddel d name) (map_of obs c)" for obs
        by (induction obs) (auto simp: F_def)
      then show ?thesis by (simp add: observers_of_def obs ddel_def split: option.splits)
    qed
    have "distinct (dkeys (observers_of (w_apps w' b) c))" using assms(3) by (simp add: o observers_distinct_def)
    then show ?thesis unfolding set_get_observers(1) [OF assms(5) \<open>distinct _\<close>] by (simp add: o map_of_ddel)
  qed
  moreover have "send_event w' self name ev state = Some w'"
    by (simp add: send_event_def bricks map_of_ddel)
  ultimately show ?thesis using dkeys_ddel [of "w_bricks w" name] dkeys_ddel [of "m_applications m" name] told
    by (simp add: bricks m' del: set_map)
qed

section \<open>A concrete set of modules\<close>

definition demo_main :: py_class where
  "demo_main = PyClass ''minidc.controller'' ''DCController'' True None
     [set_ev_cls (PyOne demo_change) (PyOne MAIN_DISPATCHER) \<lparr>m_name = ''features'', m_callers = None\<rparr>]
     [(''dpset'', demo_dpset)] [] (Some [4])"

definition demo_mods :: "(string, py_module) dict" where
  "demo_mods =
     [(''ryu.controller.ofp_handler'', \<lparr>mo_classes = [demo_ofp], mo_service = None, mo_required = []\<rparr>),
      (''ryu.controller.ofp_event'', \<lparr>mo_classes = [], mo_service = Some ''ryu.controller.ofp_handler'', mo_required = []\<rparr>),
      (''ryu.controller.dpset'', \<lparr>mo_classes = [demo_dpset], mo_service = Some ''ryu.controller.dpset'', mo_required = []\<rparr>),
      (''minidc.controller'', \<lparr>mo_classes = [demo_dpset, demo_main], mo_service = None, mo_required = []\<rparr>)]"

definition demo_start :: world where
  "demo_start = \<lparr>w_apps = (\<lambda>_. RyuApp_init demo_ofp 0), w_bricks = [], 
     w_heap = (\<lambda>_. stop_event)(77 := w_heap demo_world 10), w_reply = (\<lambda>_. []), w_next = 0\<rparr>"

definition demo_rank :: "string \<Rightarrow> nat" where
  "demo_rank name = (if name = ''minidc.controller'' then 2 else if name = ''ryu.controller.dpset'' then 1 else 0)"

lemma demo_app_of:
  "app_of demo_mods name = Some cls \<Longrightarrow> name = ''ryu.controller.ofp_handler'' \<and> cls = demo_ofp
     \<or> name = ''ryu.controller.dpset'' \<and> cls = demo_dpset \<or> name = ''minidc.controller'' \<and> cls = demo_main"
  by (auto simp: app_of_def load_app_def demo_mods_def demo_ofp_def demo_dpset_def demo_main_def split: if_splits)

lemma demo_handled:
  "handled demo_ofp = {}" "handled demo_dpset = {demo_change}" "handled demo_main = {demo_change}"
  by (auto simp: handled_def demo_ofp_def demo_dpset_def demo_main_def has_caller_def set_ev_cls_def callers_of_def listify_def)

lemma demo_needs:
  "needs demo_mods demo_ofp = {}" "needs demo_mods demo_dpset = {''ryu.controller.ofp_handler''}"
  "needs demo_mods demo_main = {''ryu.controller.ofp_handler''}"
  by (simp_all add: needs_def demo_handled)
     (auto simp: provides_def demo_mods_def demo_ofp_def demo_dpset_def demo_main_def demo_change_def)

lemma demo_imported: "imported demo_mods demo_ofp" "imported demo_mods demo_dpset" "imported demo_mods demo_main"
  by (simp_all add: imported_def demo_handled)
     (simp_all add: demo_mods_def demo_ofp_def demo_dpset_def demo_main_def demo_change_def)

lemma demo_loadable: "loadable demo_mods (\<lambda>_. demo_dpset) demo_rank"
  unfolding loadable_def
proof (intro allI impI)
  fix name cls assume "app_of demo_mods name = Some cls"
  from demo_app_of [OF this] show "imported demo_mods cls \<and>
      (\<forall>(key, c) \<in> set (k_contexts cls). c = demo_dpset \<and> imported demo_mods c) \<and>
      (\<forall>s \<in> requires demo_mods cls. s \<in> set (dkeys demo_mods) \<and> demo_rank s < demo_rank name)"
  proof (elim disjE conjE)
    assume "name = ''ryu.controller.ofp_handler''" "cls = demo_ofp"
    moreover have "k_contexts demo_ofp = []" by (simp add: demo_ofp_def)
    ultimately show ?thesis by (simp add: demo_imported requires_def demo_needs)
  next
    assume "name = ''ryu.controller.dpset''" "cls = demo_dpset"
    moreover have "k_contexts demo_dpset = []" by (simp add: demo_dpset_def)
    ultimately show ?thesis by (simp add: demo_imported requires_def demo_needs) (simp add: demo_rank_def demo_mods_def)
  next
    assume "name = ''minidc.controller''" "cls = demo_main"
    moreover have "k_contexts demo_main = [(''dpset'', demo_dpset)]" by (simp add: demo_main_def)
    ultimately show ?thesis by (simp add: demo_imported requires_def demo_needs) (simp add: demo_rank_def demo_mods_def)
  qed
qed

theorem loading_closed_demo:
  "\<exists>m'. load_apps rev demo_mods (AppManager_init [1, 3, 4]) [''minidc.controller''] = Some (Inr m')
    \<and> (\<forall>s \<in> set (concat (map (split_on (CHR '','')) [''minidc.controller''])). covered demo_mods m' [] s)
    \<and> (\<forall>(n, cls) \<in> set (m_applications_cls m'). app_of demo_mods n = Some cls
         \<and> (\<forall>s \<in> requires demo_mods cls. covered demo_mods m' [] s))"
  by (rule loading_closed [OF is_order_rev demo_loadable]) (simp add: demo_mods_def)

definition demo_m1 :: manager where
  "demo_m1 = (AppManager_init [1, 3, 4])\<lparr>m_applications_cls := [(''minidc.controller'', demo_main)],
     m_contexts_cls := [(''dpset'', demo_dpset)]\<rparr>"

definition demo_m2 :: manager where
  "demo_m2 = demo_m1\<lparr>m_applications_cls := [(''minidc.controller'', demo_main), (''ryu.controller.ofp_handler'', demo_ofp)]\<rparr>"

lemma demo_load_steps:
  "load_step (\<lambda>xs. xs) demo_mods (AppManager_init [1, 3, 4]) ''minidc.controller'' [] = Inr (demo_m1, [''ryu.controller.ofp_handler''])"
  "load_step (\<lambda>xs. xs) demo_mods demo_m1 ''ryu.controller.ofp_handler'' [] = Inr (demo_m2, [])"
  by code_simp+

lemma demo_loads: "load_apps (\<lambda>xs. xs) demo_mods (AppManager_init [1, 3, 4]) [''minidc.controller''] = Some (Inr demo_m2)"
  by (simp add: load_apps_def load_loop.simps demo_load_steps)

definition demo_running :: "(world \<times> manager) res" where
  "demo_running = rbind (create_contexts (demo_start, demo_m2)) instantiate_apps"

lemma demo_runs:
  "\<exists>w m. demo_running = Inr (w, m) \<and> dkeys (w_bricks w) = [''dpset'', ''DCController'', ''ofp_event'']
    \<and> (let w' = fst (send_event_to_observers rev w 2 77 (Some DEAD_DISPATCHER)) in
       a_events (w_apps w' 0) = [(77, Some DEAD_DISPATCHER)] \<and> a_events (w_apps w' 1) = [])"
proof -
  have "case demo_running of Inr (w, m) \<Rightarrow> dkeys (w_bricks w) = [''dpset'', ''DCController'', ''ofp_event'']
    \<and> (let w' = fst (send_event_to_observers rev w 2 77 (Some DEAD_DISPATCHER)) in
       a_events (w_apps w' 0) = [(77, Some DEAD_DISPATCHER)] \<and> a_events (w_apps w' 1) = []) | Inl _ \<Rightarrow> False"
    by code_simp
  then show ?thesis by (auto split: sum.splits)
qed

theorem applications_run_demo:
  "\<exists>w m. run_apps (\<lambda>xs. xs) demo_mods (demo_start, AppManager_init [1, 3, 4]) [''minidc.controller''] = Some (Inr (w, m))
    \<and> dkeys (w_bricks w) = [''dpset'', ''DCController'', ''ofp_event''] \<and> bricks_ok w \<and> m_applications m = w_bricks w
    \<and> (\<forall>r \<in> set (dvals (w_bricks w)). a_active (w_apps w r) \<and> a_threads (w_apps w r) = 1)
    \<and> (\<exists>w'. send_event_to_observers rev w 2 77 (Some DEAD_DISPATCHER) = (w', [])
         \<and> a_events (w_apps w' 0) = [(77, Some DEAD_DISPATCHER)] \<and> a_events (w_apps w' 1) = [])"
proof -
  obtain w m where w: "demo_running = Inr (w, m)" "dkeys (w_bricks w) = [''dpset'', ''DCController'', ''ofp_event'']"
    "a_events (w_apps (fst (send_event_to_observers rev w 2 77 (Some DEAD_DISPATCHER))) 0) = [(77, Some DEAD_DISPATCHER)]"
    "a_events (w_apps (fst (send_event_to_observers rev w 2 77 (Some DEAD_DISPATCHER))) 1) = []"
    using demo_runs by (auto simp: Let_def)
  have r: "run_apps (\<lambda>xs. xs) demo_mods (demo_start, AppManager_init [1, 3, 4]) [''minidc.controller''] = Some (Inr (w, m))"
    using w(1) by (simp add: run_apps_def demo_loads demo_running_def)
  have "start_world demo_start" by (simp add: start_world_def demo_start_def)
  note a = applications_run [OF r this is_order_rev]
  from a have "\<forall>b ev st. \<exists>w'. send_event_to_observers rev w b ev st = (w', []) \<and>
      (\<forall>r. a_events (w_apps w' r) = (if told w b (e_cls (w_heap w ev)) st r then [(ev, st)] else []))" by (elim conjE)
  then obtain w' where "send_event_to_observers rev w 2 77 (Some DEAD_DISPATCHER) = (w', [])" by blast
  moreover from this w(3,4) have "a_events (w_apps w' 0) = [(77, Some DEAD_DISPATCHER)]" "a_events (w_apps w' 1) = []" by simp_all
  moreover from a have "bricks_ok w" "m_applications m = w_bricks w"
    "\<forall>r \<in> set (dvals (w_bricks w)). a_active (w_apps w r) \<and> a_threads (w_apps w r) = 1" by (elim conjE, simp)+
  ultimately show ?thesis using r w(2) by (intro exI conjI) assumption+
qed

theorem uninstantiated_demo:
  "\<exists>w' m'. uninstantiate (demo_full, (AppManager_init [4])\<lparr>m_applications := w_bricks demo_full\<rparr>) ''dpset'' = Inr (Some (w', m'))
     \<and> ''dpset'' \<notin> set (dkeys (w_bricks w')) \<and> send_event w' ''ofp_event'' ''dpset'' 10 None = Some w'
     \<and> \<not> a_active (w_apps w' 1) \<and> a_events (w_apps w' 1) = [(10, None), (10, Some DEAD_DISPATCHER), (91, None)]"
proof -
  let ?m = "(AppManager_init [4])\<lparr>m_applications := w_bricks demo_full\<rparr>"
  have "case uninstantiate (demo_full, ?m) ''dpset'' of Inr (Some (w', m')) \<Rightarrow> True | _ \<Rightarrow> False" by code_simp
  then obtain w' m' where u: "uninstantiate (demo_full, ?m) ''dpset'' = Inr (Some (w', m'))"
    by (auto split: sum.splits option.splits)
  have f: "w_bricks demo_full = w_bricks demo_world" "a_name (w_apps demo_full r) = a_name (w_apps demo_world r)"
    "a_observers (w_apps demo_full r) = []" for r
    by (simp_all add: demo_full_def app_start_def) (simp add: demo_world_def)
  have b: "bricks_ok demo_full" using demo_bricks_ok by (simp add: bricks_ok_def f)
  have d: "observers_distinct demo_full" by (simp add: observers_distinct_def observers_of_def f)
  have q: "map_of (w_bricks demo_full) ''dpset'' = Some 1"
    "a_events (w_apps demo_full 1) @ [(a_event_stop (w_apps demo_full 1), None)] = [(10, None), (10, Some DEAD_DISPATCHER), (91, None)]"
    by code_simp+
  from uninstantiated [OF u b d _ is_order_rev, of "''ofp_event''" 10 None] u q show ?thesis by simp
qed

end
