(* ===== verification/SendQueue.thy ===== *)
theory SendQueue
  imports Bricks "HOL-Library.Sublist" "HOL-Library.Word"
begin

text \<open>
  The sending side of a connection: \<^verbatim>\<open>send\<close>, \<^verbatim>\<open>_send_loop\<close> and the end of \<^verbatim>\<open>serve\<close> of \<^verbatim>\<open>Datapath\<close>
  (\<^verbatim>\<open>ryu/controller/controller.py\<close>). Any green thread may send; the send loop, a thread of its own, takes the buffers
  out of a queue of sixteen and writes them to the socket. A call of \<^verbatim>\<open>put\<close> on a full queue blocks its thread until there is room.
  Threads switch only where a call blocks, so each operation between two such points is one step. Every buffer carries
  the number of the thread that sent it, which the code does not store: the theorems need it to speak about order.
\<close>

section \<open>State and operations\<close>

type_synonym parcel = "nat \<times> 8 word list"

text \<open>Where the send loop is: not started, at its test, in \<^verbatim>\<open>get\<close>, in \<^verbatim>\<open>sendall\<close>, left.\<close>

datatype loop_pc = Spawned | AtTest | InGet | InSend parcel | Ended

record sender =
  sq_attr :: bool
  sq_queue :: "parcel list"
  sq_blocked :: "parcel list"
  sq_active :: bool
  sq_pc :: loop_pc
  sq_wire :: "parcel list"

definition send_q_size :: nat where "send_q_size = 16"

definition sender_init :: sender where
  "sender_init = \<lparr>sq_attr = True, sq_queue = [], sq_blocked = [], sq_active = True, sq_pc = Spawned, sq_wire = []\<rparr>"

text \<open>\<^verbatim>\<open>sq_attr\<close> says that the attribute \<^verbatim>\<open>send_q\<close> is not \<^verbatim>\<open>None\<close>; \<^verbatim>\<open>sq_queue\<close> is the queue itself, which blocked calls still refer to.\<close>

definition send_buf :: "sender \<Rightarrow> parcel \<Rightarrow> sender" where
  "send_buf s x =
     (if sq_attr s then
        (case hub_put send_q_size (sq_queue s) x of
           Some q \<Rightarrow> s\<lparr>sq_queue := q\<rparr>
         | None \<Rightarrow> s\<lparr>sq_blocked := sq_blocked s @ [x]\<rparr>)
      else s)"

text \<open>A blocked call of \<^verbatim>\<open>put\<close> finds room; which one is not determined.\<close>

definition resume_put :: "sender \<Rightarrow> parcel \<Rightarrow> sender option" where
  "resume_put s x =
     (if x \<in> set (sq_blocked s)
      then map_option (\<lambda>q. s\<lparr>sq_queue := q, sq_blocked := remove1 x (sq_blocked s)\<rparr>) (hub_put send_q_size (sq_queue s) x)
      else None)"

text \<open>\<^verbatim>\<open>while q.get(block=False): pass\<close>: an empty buffer ends the loop early.\<close>

fun drain_q :: "parcel list \<Rightarrow> parcel list" where
  "drain_q [] = []"
| "drain_q ((th, buf) # q) = (if buf = [] then q else drain_q q)"

definition finish :: "sender \<Rightarrow> sender" where
  "finish s = s\<lparr>sq_attr := False, sq_queue := drain_q (sq_queue s), sq_active := False, sq_pc := Ended\<rparr>"

definition loop_start :: "sender \<Rightarrow> sender option" where
  "loop_start s = (if sq_pc s = Spawned then Some (s\<lparr>sq_pc := AtTest\<rparr>) else None)"

definition loop_test :: "sender \<Rightarrow> sender option" where
  "loop_test s = (if sq_pc s = AtTest then Some (if sq_active s then s\<lparr>sq_pc := InGet\<rparr> else finish s) else None)"

definition loop_get :: "sender \<Rightarrow> sender option" where
  "loop_get s = (if sq_pc s = InGet then (case sq_queue s of [] \<Rightarrow> None | x # q \<Rightarrow> Some (s\<lparr>sq_queue := q, sq_pc := InSend x\<rparr>)) else None)"

definition loop_sent :: "sender \<Rightarrow> sender option" where
  "loop_sent s = (case sq_pc s of InSend x \<Rightarrow> Some (s\<lparr>sq_wire := sq_wire s @ [x], sq_pc := AtTest\<rparr>) | _ \<Rightarrow> None)"

text \<open>An exception of \<^verbatim>\<open>sendall\<close>: part of the buffer may have been written, the loop is left.\<close>

definition loop_fail :: "sender \<Rightarrow> sender option" where
  "loop_fail s = (case sq_pc s of InSend x \<Rightarrow> Some (finish s) | _ \<Rightarrow> None)"

text \<open>The receive loop ends, and \<^verbatim>\<open>serve\<close> kills the send loop where it waits; one that has not started never runs, and its
  \<^verbatim>\<open>finally\<close> does not either.\<close>

definition recv_ended :: "sender \<Rightarrow> sender" where
  "recv_ended s = s\<lparr>sq_active := False\<rparr>"

definition serve_kill :: "sender \<Rightarrow> sender option" where
  "serve_kill s =
     (if sq_active s then None
      else case sq_pc s of
        Spawned \<Rightarrow> Some (s\<lparr>sq_pc := Ended\<rparr>)
      | InGet \<Rightarrow> Some (finish s)
      | InSend x \<Rightarrow> Some (finish s)
      | _ \<Rightarrow> None)"

section \<open>Runs\<close>

datatype sq_label = Sends parcel | Resumes parcel | Starts | Tests | Gets | Wrote | Fails | RecvEnds | Kills

inductive sq_step :: "sender \<Rightarrow> sq_label \<Rightarrow> sender \<Rightarrow> bool" where
  send: "fst x \<notin> fst ` set (sq_blocked s) \<Longrightarrow> sq_step s (Sends x) (send_buf s x)"
| resume: "resume_put s x = Some s' \<Longrightarrow> sq_step s (Resumes x) s'"
| start: "loop_start s = Some s' \<Longrightarrow> sq_step s Starts s'"
| test: "loop_test s = Some s' \<Longrightarrow> sq_step s Tests s'"
| get: "loop_get s = Some s' \<Longrightarrow> sq_step s Gets s'"
| wrote: "loop_sent s = Some s' \<Longrightarrow> sq_step s Wrote s'"
| fail: "loop_fail s = Some s' \<Longrightarrow> sq_step s Fails s'"
| recv_end: "sq_step s RecvEnds (recv_ended s)"
| kill: "serve_kill s = Some s' \<Longrightarrow> sq_step s Kills s'"

inductive_cases sq_stepE: "sq_step s l s'"

text \<open>The same step as a function.\<close>

fun sq_do :: "sender \<Rightarrow> sq_label \<Rightarrow> sender option" where
  "sq_do s (Sends x) = (if fst x \<in> fst ` set (sq_blocked s) then None else Some (send_buf s x))"
| "sq_do s (Resumes x) = resume_put s x"
| "sq_do s Starts = loop_start s"
| "sq_do s Tests = loop_test s"
| "sq_do s Gets = loop_get s"
| "sq_do s Wrote = loop_sent s"
| "sq_do s Fails = loop_fail s"
| "sq_do s RecvEnds = Some (recv_ended s)"
| "sq_do s Kills = serve_kill s"

lemma sq_do_step: "sq_do s l = Some s' \<longleftrightarrow> sq_step s l s'"
  by (cases l) (auto intro: sq_step.intros elim: sq_stepE split: if_splits)

fun sent_by :: "sq_label \<Rightarrow> parcel list" where
  "sent_by (Sends x) = [x]"
| "sent_by _ = []"

text \<open>A run from \<open>s0\<close> and the calls of \<^verbatim>\<open>send\<close> in it.\<close>

inductive sq_run :: "sender \<Rightarrow> parcel list \<Rightarrow> sender \<Rightarrow> bool" for s0 where
  run_start: "sq_run s0 [] s0"
| run_step: "sq_run s0 log s \<Longrightarrow> sq_step s l s' \<Longrightarrow> sq_run s0 (log @ sent_by l) s'"

fun sq_exec :: "sender \<Rightarrow> sq_label list \<Rightarrow> (parcel list \<times> sender) option" where
  "sq_exec s [] = Some ([], s)"
| "sq_exec s (l # ls) = (case sq_do s l of None \<Rightarrow> None
     | Some s' \<Rightarrow> map_option (\<lambda>(log, t). (sent_by l @ log, t)) (sq_exec s' ls))"

lemma sq_exec_run_from: "sq_run s0 log s \<Longrightarrow> sq_exec s ls = Some (log', t) \<Longrightarrow> sq_run s0 (log @ log') t"
proof (induction ls arbitrary: log s log')
  case (Cons l ls)
  then obtain s' log1 where s: "sq_do s l = Some s'" "sq_exec s' ls = Some (log1, t)" "log' = sent_by l @ log1"
    by (auto split: option.splits)
  have "sq_run s0 (log @ sent_by l) s'" by (rule run_step [OF Cons.prems(1)]) (use s(1) in \<open>simp add: sq_do_step\<close>)
  from Cons.IH [OF this s(2)] show ?case by (simp add: s(3))
qed simp

lemma sq_exec_run: "sq_exec s ls = Some (log, t) \<Longrightarrow> sq_run s log t"
  using sq_exec_run_from [OF run_start] by fastforce

section \<open>What is kept\<close>

fun in_flight :: "loop_pc \<Rightarrow> parcel list" where
  "in_flight (InSend x) = [x]"
| "in_flight _ = []"

definition of_thread :: "nat \<Rightarrow> parcel list \<Rightarrow> parcel list" where
  "of_thread th xs = filter (\<lambda>x. fst x = th) xs"

lemma of_thread_simps [simp]:
  "of_thread th [] = []" "of_thread th (x # xs) = (if fst x = th then x # of_thread th xs else of_thread th xs)"
  "of_thread th (xs @ ys) = of_thread th xs @ of_thread th ys"
  by (simp_all add: of_thread_def)

lemma of_thread_none: "th \<notin> fst ` set xs \<Longrightarrow> of_thread th xs = []"
  by (induction xs) auto

text \<open>All that is on its way, in the order of its arrival.\<close>

definition on_its_way :: "sender \<Rightarrow> parcel list" where
  "on_its_way s = sq_wire s @ in_flight (sq_pc s) @ sq_queue s @ sq_blocked s"

definition sq_inv :: "parcel list \<Rightarrow> sender \<Rightarrow> bool" where
  "sq_inv log s \<longleftrightarrow> length (sq_queue s) \<le> send_q_size \<and> distinct (map fst (sq_blocked s)) \<and>
     (\<forall>th. prefix (of_thread th (sq_wire s)) (of_thread th log)) \<and>
     (sq_pc s \<noteq> Ended \<longrightarrow> sq_attr s \<and> (\<forall>th. of_thread th (on_its_way s) = of_thread th log))"

lemma hub_put_simps: "hub_put n q x = (if length q < n then Some (q @ [x]) else None)"
  by (simp add: hub_put_def)

lemma drain_q_length: "length (drain_q q) \<le> length q"
  by (induction q rule: drain_q.induct) auto

lemma drain_q_all: "\<forall>x \<in> set q. snd x \<noteq> [] \<Longrightarrow> drain_q q = []"
  by (induction q rule: drain_q.induct) auto

lemma resumed_order:
  assumes "x \<in> set bs" and "distinct (map fst bs)"
  shows "of_thread th (x # remove1 x bs) = of_thread th bs" and "distinct (map fst (remove1 x bs))"
    and "fst x \<notin> fst ` set (remove1 x bs)"
proof -
  from assms obtain b1 b2 where b: "bs = b1 @ x # b2" "x \<notin> set b1" by (meson split_list_first)
  have d: "fst x \<notin> fst ` set b1" "fst x \<notin> fst ` set b2" using assms(2) b by auto
  have r: "remove1 x bs = b1 @ b2" using b by (simp add: remove1_append)
  show "of_thread th (x # remove1 x bs) = of_thread th bs"
    unfolding r unfolding b(1) using of_thread_none [OF d(1)] by auto
  show "distinct (map fst (remove1 x bs))" "fst x \<notin> fst ` set (remove1 x bs)"
    using assms(2) d unfolding r unfolding b(1) by auto
qed

lemma sq_inv_init: "sq_inv [] sender_init"
  by (simp add: sq_inv_def sender_init_def on_its_way_def)

lemma sq_inv_finish: "sq_inv log s \<Longrightarrow> sq_inv log (finish s)"
  using drain_q_length [of "sq_queue s"] by (simp add: sq_inv_def finish_def)

lemma sq_inv_send:
  assumes "sq_inv log s" and "fst x \<notin> fst ` set (sq_blocked s)"
  shows "sq_inv (log @ [x]) (send_buf s x)"
proof -
  have p: "prefix (of_thread th (sq_wire s)) (of_thread th (log @ [x]))" for th
    using assms(1) by (auto simp: sq_inv_def prefix_append)
  have "of_thread th (on_its_way (send_buf s x)) = of_thread th (on_its_way s @ [x])" if "sq_attr s" for th
    using that of_thread_none [OF assms(2)] by (auto simp: on_its_way_def send_buf_def hub_put_simps)
  moreover have "length (sq_queue (send_buf s x)) \<le> send_q_size" "distinct (map fst (sq_blocked (send_buf s x)))"
    "sq_wire (send_buf s x) = sq_wire s" "sq_pc (send_buf s x) = sq_pc s" "sq_attr (send_buf s x) = sq_attr s"
    using assms by (auto simp: sq_inv_def send_buf_def hub_put_simps)
  ultimately show ?thesis using assms(1) p by (simp add: sq_inv_def)
qed

lemma sq_inv_resume:
  assumes "sq_inv log s" and "resume_put s x = Some s'"
  shows "sq_inv log s'"
proof -
  from assms(2) have x: "x \<in> set (sq_blocked s)" "length (sq_queue s) < send_q_size"
    "s' = s\<lparr>sq_queue := sq_queue s @ [x], sq_blocked := remove1 x (sq_blocked s)\<rparr>"
    by (auto simp: resume_put_def hub_put_simps split: if_splits)
  have "distinct (map fst (sq_blocked s))" using assms(1) by (simp add: sq_inv_def)
  note o = resumed_order [OF x(1) this]
  have "of_thread th (on_its_way s') = of_thread th (on_its_way s)" for th
    using o(1) [of th] by (simp add: x(3) on_its_way_def)
  with assms(1) o(2) x(2) show ?thesis by (simp add: sq_inv_def x(3))
qed

lemma sq_inv_wrote:
  assumes "sq_inv log s" and "loop_sent s = Some s'"
  shows "sq_inv log s'"
proof -
  from assms(2) obtain x where x: "sq_pc s = InSend x" "s' = s\<lparr>sq_wire := sq_wire s @ [x], sq_pc := AtTest\<rparr>"
    by (auto simp: loop_sent_def split: loop_pc.splits)
  have o: "of_thread th (on_its_way s') = of_thread th log" for th
    using assms(1) x by (auto simp: sq_inv_def on_its_way_def)
  have "prefix (of_thread th (sq_wire s')) (of_thread th (on_its_way s'))" for th by (simp add: on_its_way_def)
  then have "prefix (of_thread th (sq_wire s')) (of_thread th log)" for th by (simp only: o)
  with assms(1) x o show ?thesis by (simp add: sq_inv_def)
qed

lemma sq_inv_same:
  "sq_inv log s \<Longrightarrow> sq_wire s' = sq_wire s \<Longrightarrow> sq_blocked s' = sq_blocked s \<Longrightarrow> length (sq_queue s') \<le> length (sq_queue s) \<Longrightarrow>
     sq_attr s' = sq_attr s \<Longrightarrow> sq_pc s \<noteq> Ended \<Longrightarrow> sq_pc s' = Ended \<or> on_its_way s' = on_its_way s \<Longrightarrow> sq_inv log s'"
  by (auto simp: sq_inv_def)

lemma sq_inv_loop:
  assumes i: "sq_inv log s"
  shows "loop_start s = Some s' \<Longrightarrow> sq_inv log s'" "loop_test s = Some s' \<Longrightarrow> sq_inv log s'" "loop_get s = Some s' \<Longrightarrow> sq_inv log s'"
    "loop_fail s = Some s' \<Longrightarrow> sq_inv log s'" "sq_inv log (recv_ended s)" "serve_kill s = Some s' \<Longrightarrow> sq_inv log s'"
proof -
  note same = sq_inv_same [OF i] and fin = sq_inv_finish [OF i]
  show "loop_start s = Some s' \<Longrightarrow> sq_inv log s'"
    by (rule same) (auto simp: loop_start_def on_its_way_def split: if_splits)
  show "loop_get s = Some s' \<Longrightarrow> sq_inv log s'"
    by (rule same) (auto simp: loop_get_def on_its_way_def split: if_splits list.splits)
  show "loop_test s = Some s' \<Longrightarrow> sq_inv log s'"
  proof (cases "sq_active s")
    case True
    then show "loop_test s = Some s' \<Longrightarrow> sq_inv log s'" by (intro same) (auto simp: loop_test_def on_its_way_def split: if_splits)
  qed (use fin in \<open>auto simp: loop_test_def split: if_splits\<close>)
  show "loop_fail s = Some s' \<Longrightarrow> sq_inv log s'" using fin by (auto simp: loop_fail_def split: loop_pc.splits)
  show "sq_inv log (recv_ended s)" using i by (simp add: recv_ended_def sq_inv_def on_its_way_def)
  show "serve_kill s = Some s' \<Longrightarrow> sq_inv log s'"
  proof (cases "sq_pc s = Spawned")
    case True
    then show "serve_kill s = Some s' \<Longrightarrow> sq_inv log s'" by (intro same) (auto simp: serve_kill_def split: if_splits)
  qed (use fin in \<open>auto simp: serve_kill_def split: if_splits loop_pc.splits\<close>)
qed

lemma sq_inv_step:
  assumes i: "sq_inv log s" and st: "sq_step s l s'"
  shows "sq_inv (log @ sent_by l) s'"
  using st
proof cases
  case (send x)
  then show ?thesis using sq_inv_send [OF i send(3)] by simp
next
  case (resume x)
  then show ?thesis using sq_inv_resume [OF i resume(2)] by simp
next
  case wrote
  then show ?thesis using sq_inv_wrote [OF i wrote(2)] by simp
qed (use sq_inv_loop [OF i] in \<open>auto 0 0\<close>)

lemma sq_run_inv: "sq_run s0 log s \<Longrightarrow> sq_inv log0 s0 \<Longrightarrow> sq_inv (log0 @ log) s"
proof (induction rule: sq_run.induct)
  case (run_step log s l s')
  from sq_inv_step [OF run_step.IH [OF run_step.prems] run_step.hyps(2)] show ?case by simp
qed simp

text \<open>C10: the messages of one thread go out in the order in which it sent them, whatever the other threads do. While the
  send loop runs, what is not yet on the wire is in flight, in the queue, which holds at most sixteen, or held by a thread
  that is blocked, one for each such thread; nothing is lost or doubled.\<close>

theorem sent_in_order:
  assumes "sq_run sender_init log s"
  shows "prefix (of_thread th (sq_wire s)) (of_thread th log) \<and> length (sq_queue s) \<le> 16 \<and> distinct (map fst (sq_blocked s)) \<and>
    (sq_pc s \<noteq> Ended \<longrightarrow>
       of_thread th log = of_thread th (sq_wire s @ in_flight (sq_pc s) @ sq_queue s @ sq_blocked s))"
  using sq_run_inv [OF assms sq_inv_init] by (simp add: sq_inv_def send_q_size_def on_its_way_def)

text \<open>Two threads: the second message of the first waits while the message of the second is written.\<close>

theorem sent_in_order_demo:
  "\<exists>s. sq_run sender_init [(1, [4]), (2, [5]), (1, [6])] s \<and> sq_wire s = [(1, [4])] \<and>
    prefix (of_thread 1 (sq_wire s)) (of_thread 1 [(1, [4]), (2, [5]), (1, [6])]) \<and> length (sq_queue s) \<le> 16 \<and>
    distinct (map fst (sq_blocked s)) \<and> (sq_pc s \<noteq> Ended \<longrightarrow>
      of_thread 1 [(1, [4]), (2, [5]), (1, [6])] = of_thread 1 (sq_wire s @ in_flight (sq_pc s) @ sq_queue s @ sq_blocked s))"
proof -
  let ?ls = "[Sends (1, [4]), Starts, Tests, Gets, Sends (2, [5]), Wrote, Sends (1, [6]), Tests, Gets]"
  have "\<exists>s. sq_exec sender_init ?ls = Some ([(1, [4]), (2, [5]), (1, [6])], s) \<and> sq_wire s = [(1, [4])]"
    by (simp add: sender_init_def send_buf_def hub_put_simps send_q_size_def loop_start_def loop_test_def loop_get_def loop_sent_def)
  then obtain s where s: "sq_exec sender_init ?ls = Some ([(1, [4]), (2, [5]), (1, [6])], s)" "sq_wire s = [(1, [4])]" by blast
  with sent_in_order [OF sq_exec_run [OF s(1)], of 1] show ?thesis using sq_exec_run [OF s(1)] by blast
qed

section \<open>Everything goes out\<close>

lemma sq_run_trans: "sq_run b l2 c \<Longrightarrow> sq_run a l1 b \<Longrightarrow> sq_run a (l1 @ l2) c"
proof (induction rule: sq_run.induct)
  case (run_step log s l s')
  show ?case using sq_run.run_step [OF run_step.IH [OF run_step.prems] run_step.hyps(2)] by simp
qed simp

lemma sq_exec_quiet: "sq_exec s ls = Some ([], t) \<Longrightarrow> sq_run t [] u \<Longrightarrow> sq_run s [] u"
  using sq_run_trans [OF _ sq_exec_run] by fastforce

definition flushed :: "sender \<Rightarrow> bool" where
  "flushed s \<longleftrightarrow> sq_pc s \<noteq> Ended \<and> in_flight (sq_pc s) = [] \<and> sq_queue s = [] \<and> sq_blocked s = []"

lemma flush_queue:
  "sq_pc s = AtTest \<Longrightarrow> sq_active s \<Longrightarrow> sq_run s [] (s\<lparr>sq_wire := sq_wire s @ sq_queue s, sq_queue := []\<rparr>)"
proof (induction "sq_queue s" arbitrary: s)
  case Nil
  have "s\<lparr>sq_wire := sq_wire s @ sq_queue s, sq_queue := []\<rparr> = s" using Nil.hyps by simp
  then show ?case using run_start by metis
next
  case (Cons x q)
  let ?t = "s\<lparr>sq_wire := sq_wire s @ [x], sq_queue := q\<rparr>"
  have "s\<lparr>sq_queue := q, sq_pc := AtTest, sq_wire := sq_wire s @ [x]\<rparr> = ?t" using Cons.prems by simp
  then have "sq_exec s [Tests, Gets, Wrote] = Some ([], ?t)"
    using Cons.prems Cons.hyps(2) by (simp add: loop_test_def loop_get_def loop_sent_def flip: Cons.hyps(2))
  from sq_exec_quiet [OF this Cons.hyps(1) [of ?t]] Cons.prems show ?case by (simp flip: Cons.hyps(2))
qed

lemma flush_all:
  "sq_pc s = AtTest \<Longrightarrow> sq_active s \<Longrightarrow> \<exists>u. sq_run s [] u \<and> flushed u"
proof (induction "sq_blocked s" arbitrary: s)
  case Nil
  with flush_queue [OF Nil.prems] show ?case by (intro exI conjI) (assumption, simp add: flushed_def)
next
  case (Cons x bs)
  let ?s1 = "s\<lparr>sq_wire := sq_wire s @ sq_queue s, sq_queue := []\<rparr>"
  let ?s2 = "?s1\<lparr>sq_queue := [x], sq_blocked := bs\<rparr>"
  have "sq_exec ?s1 [Resumes x] = Some ([], ?s2)"
    by (simp add: resume_put_def hub_put_simps send_q_size_def flip: Cons.hyps(2))
  moreover obtain u where u: "sq_run ?s2 [] u" "flushed u" using Cons.hyps(1) [of ?s2] Cons.prems by auto
  ultimately have "sq_run ?s1 [] u" using sq_exec_quiet by blast
  from sq_run_trans [OF this flush_queue [OF Cons.prems]] u(2) show ?case by auto
qed

lemma flush_live:
  assumes "sq_active s" "sq_pc s \<noteq> Ended"
  shows "\<exists>u. sq_run s [] u \<and> flushed u"
proof (cases "sq_pc s")
  case Spawned
  let ?t = "s\<lparr>sq_pc := AtTest\<rparr>"
  have "sq_exec s [Starts] = Some ([], ?t)" by (simp add: loop_start_def Spawned)
  with flush_all [of ?t] assms(1) sq_exec_quiet show ?thesis by fastforce
next
  case AtTest
  then show ?thesis using flush_all assms(1) by blast
next
  case (InSend x)
  let ?t = "s\<lparr>sq_wire := sq_wire s @ [x], sq_pc := AtTest\<rparr>"
  have "sq_exec s [Wrote] = Some ([], ?t)" by (simp add: loop_sent_def InSend)
  with flush_all [of ?t] assms(1) sq_exec_quiet show ?thesis by fastforce
next
  case InGet
  show ?thesis
  proof (cases "sq_queue s @ sq_blocked s")
    case Nil
    then have "flushed s" by (simp add: flushed_def InGet)
    then show ?thesis using run_start by blast
  next
    case (Cons x zs)
    define t where "t = (if sq_queue s = [] then s\<lparr>sq_blocked := tl (sq_blocked s), sq_wire := sq_wire s @ [x], sq_pc := AtTest\<rparr>
      else s\<lparr>sq_queue := tl (sq_queue s), sq_wire := sq_wire s @ [x], sq_pc := AtTest\<rparr>)"
    have "sq_exec s (if sq_queue s = [] then [Resumes x, Gets, Wrote] else [Gets, Wrote]) = Some ([], t)"
      using Cons InGet by (cases "sq_queue s")
        (auto simp: t_def resume_put_def hub_put_simps send_q_size_def loop_get_def loop_sent_def)
    moreover have "sq_pc t = AtTest" "sq_active t" using assms(1) by (simp_all add: t_def)
    ultimately show ?thesis using flush_all [of t] sq_exec_quiet by blast
  qed
qed (use assms in simp)

text \<open>C11: while the receive loop runs and the socket takes what is written, the send loop and the blocked threads can always go
  on until everything is on the wire: each thread's messages, in order.\<close>

theorem all_sent:
  assumes "sq_run sender_init log s" and "sq_active s" and "sq_pc s \<noteq> Ended"
  shows "\<exists>u. sq_run s [] u \<and> sq_queue u = [] \<and> sq_blocked u = [] \<and> (\<forall>th. of_thread th (sq_wire u) = of_thread th log)"
proof -
  obtain u where u: "sq_run s [] u" "flushed u" using flush_live [OF assms(2,3)] by blast
  have "sq_inv log u" using sq_run_inv [OF sq_run_trans [OF u(1) assms(1)] sq_inv_init] by simp
  with u show ?thesis by (auto simp: flushed_def sq_inv_def on_its_way_def)
qed

text \<open>Forty threads send before the loop has started.\<close>

definition many :: "nat \<Rightarrow> sq_label list" where
  "many n = map (\<lambda>i. Sends (i, [7])) [0..<n]"

definition many_sent :: "nat \<Rightarrow> parcel list" where
  "many_sent n = map (\<lambda>i. (i, [7])) [0..<n]"

lemma many_exec: "\<exists>s. sq_exec sender_init (many 40) = Some (many_sent 40, s) \<and> sq_active s \<and> sq_pc s = Spawned"
  by (simp add: many_def many_sent_def upt_rec sender_init_def send_buf_def hub_put_simps send_q_size_def)

theorem all_sent_demo:
  "\<exists>s. sq_run sender_init (many_sent 40) s \<and>
    (\<exists>u. sq_run s [] u \<and> sq_queue u = [] \<and> sq_blocked u = [] \<and> (\<forall>th. of_thread th (sq_wire u) = of_thread th (many_sent 40)))"
proof -
  obtain s where s: "sq_exec sender_init (many 40) = Some (many_sent 40, s)" "sq_active s" "sq_pc s = Spawned" using many_exec by blast
  from all_sent [OF sq_exec_run [OF s(1)] s(2)] s(3) sq_exec_run [OF s(1)] show ?thesis by auto
qed

section \<open>The end of the loop\<close>

lemma left_by:
  assumes "sq_step s l t" and "sq_attr s" and "\<not> sq_attr t"
  shows "t = finish s"
  using assms
  by (auto elim!: sq_stepE simp: send_buf_def hub_put_simps resume_put_def loop_start_def loop_test_def loop_get_def loop_sent_def
      loop_fail_def recv_ended_def serve_kill_def split: if_splits list.splits loop_pc.splits option.splits)

text \<open>After the end a call of \<^verbatim>\<open>send\<close> does nothing, and blocked calls fill a queue that nobody reads.\<close>

definition loop_left :: "sender \<Rightarrow> bool" where
  "loop_left s \<longleftrightarrow> sq_pc s = Ended \<and> \<not> sq_attr s \<and> length (sq_queue s) \<le> send_q_size"

lemma loop_left_step:
  assumes "loop_left s" and "sq_step s l t"
  shows "loop_left t \<and> sq_wire t = sq_wire s \<and>
    length (sq_queue t) + length (sq_blocked t) = length (sq_queue s) + length (sq_blocked s)"
  using assms(2)
proof cases
  case (resume x)
  then have x: "x \<in> set (sq_blocked s)" "length (sq_queue s) < send_q_size"
    "t = s\<lparr>sq_queue := sq_queue s @ [x], sq_blocked := remove1 x (sq_blocked s)\<rparr>"
    by (auto simp: resume_put_def hub_put_simps split: if_splits)
  have "0 < length (sq_blocked s)" using x(1) by (cases "sq_blocked s") auto
  then have "Suc (length (remove1 x (sq_blocked s))) = length (sq_blocked s)" using x(1) by (simp add: length_remove1)
  then show ?thesis using assms(1) x(2) by (simp add: loop_left_def x(3))
qed (use assms(1) in \<open>auto simp: loop_left_def send_buf_def loop_start_def loop_test_def loop_get_def loop_sent_def loop_fail_def recv_ended_def
    serve_kill_def split: if_splits\<close>)

lemma loop_left_run:
  "sq_run s log t \<Longrightarrow> loop_left s \<Longrightarrow> loop_left t \<and> sq_wire t = sq_wire s \<and>
     length (sq_queue t) + length (sq_blocked t) = length (sq_queue s) + length (sq_blocked s)"
proof (induction rule: sq_run.induct)
  case (run_step log s l s')
  then show ?case using loop_left_step [OF _ run_step.hyps(2)] by auto
qed simp

lemma release:
  "length (sq_queue s) + length (sq_blocked s) \<le> send_q_size \<Longrightarrow> \<exists>t. sq_run s [] t \<and> sq_blocked t = []"
proof (induction "sq_blocked s" arbitrary: s)
  case Nil
  then show ?case using run_start by metis
next
  case (Cons x bs)
  let ?t = "s\<lparr>sq_queue := sq_queue s @ [x], sq_blocked := bs\<rparr>"
  have room: "length (sq_queue s) + Suc (length bs) \<le> send_q_size" using Cons.prems by (simp flip: Cons.hyps(2))
  then have "sq_exec s [Resumes x] = Some ([], ?t)"
    by (simp add: resume_put_def hub_put_simps flip: Cons.hyps(2))
  moreover obtain u where "sq_run ?t [] u" "sq_blocked u = []" using Cons.hyps(1) [of ?t] room by auto
  ultimately show ?case using sq_exec_quiet by blast
qed

lemma queued_sent:
  assumes "sq_inv log s" and "sq_pc s \<noteq> Ended" and "x \<in> set (sq_queue s)"
  shows "x \<in> set log"
proof -
  have "x \<in> set (of_thread (fst x) (on_its_way s))" using assms(3) by (simp add: on_its_way_def of_thread_def)
  then have "x \<in> set (of_thread (fst x) log)" using assms(1,2) by (simp add: sq_inv_def)
  then show ?thesis by (simp add: of_thread_def)
qed

lemma ended_by:
  assumes "sq_step s l t" and "sq_pc s \<noteq> Ended" and "sq_pc s \<noteq> Spawned" and "sq_pc t = Ended"
  shows "t = finish s"
  using assms
  by (auto elim!: sq_stepE simp: send_buf_def hub_put_simps resume_put_def loop_start_def loop_test_def loop_get_def loop_sent_def
      loop_fail_def recv_ended_def serve_kill_def split: if_splits list.splits loop_pc.splits option.splits)

lemma loop_left_blocked:
  "sq_run s log t \<Longrightarrow> loop_left s \<Longrightarrow> set (sq_blocked t) \<subseteq> set (sq_blocked s) \<and> loop_left t"
proof (induction rule: sq_run.induct)
  case (run_step log s1 l s')
  from run_step have IH: "set (sq_blocked s1) \<subseteq> set (sq_blocked s)" "loop_left s1" by simp_all
  have "set (sq_blocked s') \<subseteq> set (sq_blocked s1)"
    using run_step.hyps(2)
  proof cases
    case (resume x)
    then show ?thesis using set_remove1_subset by (fastforce simp: resume_put_def hub_put_simps split: if_splits)
  qed (use IH(2) in \<open>auto simp: loop_left_def send_buf_def loop_start_def loop_test_def loop_get_def loop_sent_def loop_fail_def
      recv_ended_def serve_kill_def split: if_splits\<close>)
  with IH loop_left_step [OF IH(2) run_step.hyps(2)] show ?case by auto
qed simp

text \<open>C12: whenever a started send loop is left (its test, an exception of the socket, or the kill at the end of the receive
  loop) the queue is emptied, so that every thread that is blocked in \<^verbatim>\<open>send\<close> at that moment can go on, and all of them
  one after the other when they are not more than the queue has places; from then on nothing is written any more, no
  further call of \<^verbatim>\<open>send\<close> has an effect or blocks, whatever the threads do. No message is empty, since each has a header.\<close>

theorem loop_left_clean:
  assumes "sq_run sender_init log s" and "sq_pc s \<noteq> Ended" and "sq_pc s \<noteq> Spawned" and "sq_step s l t" and "sq_pc t = Ended"
    and "\<forall>x \<in> set log. snd x \<noteq> []"
  shows "sq_queue t = [] \<and> sq_blocked t = sq_blocked s \<and> (\<forall>x \<in> set (sq_blocked t). \<exists>u. sq_step t (Resumes x) u) \<and>
    (length (sq_blocked t) \<le> send_q_size \<longrightarrow> (\<exists>u. sq_run t [] u \<and> sq_blocked u = [])) \<and>
    (\<forall>log' u. sq_run t log' u \<longrightarrow> sq_wire u = sq_wire s \<and> set (sq_blocked u) \<subseteq> set (sq_blocked t) \<and> (\<forall>x. send_buf u x = u))"
proof -
  have inv: "sq_inv log s" using sq_run_inv [OF assms(1) sq_inv_init] by simp
  have t: "t = finish s" by (rule ended_by [OF assms(4,2,3,5)])
  have "drain_q (sq_queue s) = []" by (rule drain_q_all) (use queued_sent [OF inv assms(2)] assms(6) in blast)
  then have tq: "sq_queue t = []" "sq_blocked t = sq_blocked s" "sq_wire t = sq_wire s" "loop_left t"
    by (simp_all add: t finish_def loop_left_def)
  have "\<exists>u. sq_step t (Resumes x) u" if "x \<in> set (sq_blocked t)" for x
    using that tq(1) sq_step.resume [of t x] by (auto simp: resume_put_def hub_put_simps send_q_size_def)
  moreover have "\<exists>u. sq_run t [] u \<and> sq_blocked u = []" if "length (sq_blocked t) \<le> send_q_size"
    using release [of t] tq(1) that by simp
  moreover have "sq_wire u = sq_wire s \<and> set (sq_blocked u) \<subseteq> set (sq_blocked t) \<and> (\<forall>x. send_buf u x = u)" if "sq_run t log' u" for log' u
    using loop_left_run [OF that tq(4)] loop_left_blocked [OF that tq(4)] tq(3) by (auto simp: loop_left_def send_buf_def)
  ultimately show ?thesis using tq(1,2) by blast
qed

text \<open>When the send loop is left, it empties the queue once. The threads that are blocked in \<^verbatim>\<open>send\<close> at that moment can
  all go on if and only if they are at most sixteen; of more, the queue that they fill again holds some for ever. Nothing more
  is written, and no message is empty, since each has a header.\<close>

theorem drained_once:
  assumes "sq_run sender_init log s" and "sq_pc s \<noteq> Ended" and "sq_step s l t" and "\<not> sq_attr t"
    and "\<forall>x \<in> set log. snd x \<noteq> []"
  shows "(\<forall>log' u. sq_run t log' u \<longrightarrow> sq_wire u = sq_wire s) \<and>
    ((\<exists>log' u. sq_run t log' u \<and> sq_blocked u = []) \<longleftrightarrow> length (sq_blocked s) \<le> 16)"
proof -
  have inv: "sq_inv log s" using sq_run_inv [OF assms(1) sq_inv_init] by simp
  then have "sq_attr s" using assms(2) by (simp add: sq_inv_def)
  then have t: "t = finish s" using left_by assms(3,4) by blast
  have "drain_q (sq_queue s) = []" by (rule drain_q_all) (use queued_sent [OF inv assms(2)] assms(5) in blast)
  then have tq: "sq_queue t = []" "sq_blocked t = sq_blocked s" "sq_wire t = sq_wire s" "loop_left t"
    by (simp_all add: t finish_def loop_left_def)
  have "length (sq_blocked s) \<le> 16" if "sq_run t log' u" "sq_blocked u = []" for log' u
    using loop_left_run [OF that(1) tq(4)] that(2) tq(1,2) by (simp add: loop_left_def send_q_size_def)
  moreover have "\<exists>u. sq_run t [] u \<and> sq_blocked u = []" if "length (sq_blocked s) \<le> 16"
    using release [of t] tq(1,2) that by (simp add: send_q_size_def)
  moreover have "sq_wire u = sq_wire s" if "sq_run t log' u" for log' u using loop_left_run [OF that tq(4)] tq(3) by simp
  ultimately show ?thesis by blast
qed

text \<open>Forty threads, one message in flight: twenty-four threads are blocked when the connection ends.\<close>

lemma stuck_exec:
  "\<exists>s. sq_exec sender_init ([Starts, Tests, Sends (100, [7]), Gets] @ many 40 @ [RecvEnds]) = Some ((100, [7]) # many_sent 40, s) \<and>
     sq_pc s = InSend (100, [7]) \<and> length (sq_blocked s) = 24 \<and> \<not> sq_active s"
  by (simp add: many_def many_sent_def upt_rec sender_init_def send_buf_def hub_put_simps send_q_size_def loop_start_def loop_test_def
      loop_get_def recv_ended_def)

theorem loop_left_clean_demo:
  "\<exists>s t. sq_run sender_init ((100, [7]) # many_sent 40) s \<and> sq_step s Kills t \<and> length (sq_blocked t) = 24 \<and> sq_queue t = [] \<and>
    (\<forall>x \<in> set (sq_blocked t). \<exists>u. sq_step t (Resumes x) u) \<and> (\<forall>log' u. sq_run t log' u \<longrightarrow> sq_wire u = sq_wire s)"
proof -
  obtain s where s: "sq_exec sender_init ([Starts, Tests, Sends (100, [7]), Gets] @ many 40 @ [RecvEnds]) = Some ((100, [7]) # many_sent 40, s)"
    "sq_pc s = InSend (100, [7])" "length (sq_blocked s) = 24" "\<not> sq_active s" using stuck_exec by blast
  note run = sq_exec_run [OF s(1)]
  have k: "sq_step s Kills (finish s)" using s(2,4) by (intro sq_step.kill) (simp add: serve_kill_def)
  have live: "sq_pc s \<noteq> Ended" "sq_pc s \<noteq> Spawned" "sq_pc (finish s) = Ended" "\<forall>x \<in> set ((100, [7]) # many_sent 40). snd x \<noteq> []"
    using s(2) by (auto simp: finish_def many_sent_def)
  note l = loop_left_clean [OF run live(1,2) k live(3,4)]
  then have "length (sq_blocked (finish s)) = 24" using s(3) by simp
  with l run k show ?thesis by blast
qed

theorem drained_once_demo:
  "\<exists>s t. sq_run sender_init ((100, [7]) # many_sent 40) s \<and> sq_step s Kills t \<and>
    (\<forall>log' u. sq_run t log' u \<longrightarrow> sq_wire u = sq_wire s) \<and> \<not> (\<exists>log' u. sq_run t log' u \<and> sq_blocked u = [])"
proof -
  obtain s where s: "sq_exec sender_init ([Starts, Tests, Sends (100, [7]), Gets] @ many 40 @ [RecvEnds]) = Some ((100, [7]) # many_sent 40, s)"
    "sq_pc s = InSend (100, [7])" "length (sq_blocked s) = 24" "\<not> sq_active s" using stuck_exec by blast
  note run = sq_exec_run [OF s(1)]
  have k: "sq_step s Kills (finish s)" using s(2,4) by (intro sq_step.kill) (simp add: serve_kill_def)
  have live: "sq_pc s \<noteq> Ended" "\<not> sq_attr (finish s)" "\<forall>x \<in> set ((100, [7]) # many_sent 40). snd x \<noteq> []"
    using s(2) by (auto simp: finish_def many_sent_def)
  from drained_once [OF run live(1) k live(2,3)] s(3) run k show ?thesis by auto
qed

end
