(* ===== verification/Topology.thy ===== *)
theory Topology
  imports PyStr
begin

text \<open>
  The controller's view of the datacenter, \<^verbatim>\<open>minidc/controller/topo.py\<close>: hosts, core and
  edge switches, the configuration file's parser, the numbering of the ports and the two
  lookups. \<open>wf_topology\<close> is what the rest of the controller relies on, the locale
  \<open>port_service\<close> is the port map as its clients see it.
\<close>

section \<open>Data\<close>

record host =
  h_name :: string
  h_ip :: string
  h_eth :: string
  h_switch :: string
  h_vlans :: "int list"

record core_switch =
  c_name :: string
  c_dpid :: int
  c_vlans :: "int list"

record edge_switch =
  e_name :: string
  e_dpid :: int
  e_neighbors :: "string list"

text \<open>\<^verbatim>\<open>ports[sw]\<close> maps a port number to a node name and a node name to a port number.\<close>

type_synonym port_dict = "(pyatom, pyatom) dict"

record topology =
  t_hosts :: "(string, host) dict"
  t_vlans :: "(int, string list) dict"
  t_switches :: "string list"
  t_edges :: "(string, edge_switch) dict"
  t_cores :: "(string, core_switch) dict"
  t_ports :: "(string, port_dict) dict"

section \<open>Natural ordering of names\<close>

definition tryint :: "string \<Rightarrow> pyatom" where
  "tryint s = (if py_isdigit s then PInt (int (nat_of_str s)) else PStr s)"

definition natural_sort :: "string \<Rightarrow> pyatom list" where
  "natural_sort s = map tryint (re_split_digits s)"

lemma natural_sort_name:
  "\<not> is_digit c \<Longrightarrow> natural_sort (c # str_of_nat n) = [PStr [c], PInt (int n), PStr []]"
  by (simp add: natural_sort_def re_split_digits_name tryint_def) (simp add: py_isdigit_def)

section \<open>Lookups\<close>

definition getVlanCore :: "topology \<Rightarrow> int \<Rightarrow> string option" where
  "getVlanCore t vlan =
     map_option c_name (find (\<lambda>core. vlan \<in> set (c_vlans core)) (dvals (t_cores t)))"

definition dpidToName :: "topology \<Rightarrow> int \<Rightarrow> string option" where
  "dpidToName t dpid =
     (case find (\<lambda>sw. dpid = e_dpid sw) (dvals (t_edges t)) of
        Some sw \<Rightarrow> Some (e_name sw)
      | None \<Rightarrow> map_option c_name (find (\<lambda>sw. dpid = c_dpid sw) (dvals (t_cores t))))"

section \<open>Numbering the ports\<close>

text \<open>The loop body of \<^verbatim>\<open>setPorts\<close>: one port per node, in the given order, starting at \<open>i\<close>.\<close>

fun number_ports :: "port_dict \<Rightarrow> int \<Rightarrow> string list \<Rightarrow> port_dict \<times> int" where
  "number_ports d i [] = (d, i)"
| "number_ports d i (n # ns) =
     number_ports (dput (dput d (PInt i) (PStr n)) (PStr n) (PInt i)) (i + 1) ns"

definition core_ports :: "(string, edge_switch) dict \<Rightarrow> port_dict" where
  "core_ports edges = fst (number_ports [] 1 (sort_key natural_sort (dkeys edges)))"

definition edge_ports :: "(string, core_switch) dict \<Rightarrow> edge_switch \<Rightarrow> port_dict" where
  "edge_ports cores e =
     (case number_ports [] 1 (sort_key natural_sort (dkeys cores)) of
        (d, i) \<Rightarrow> fst (number_ports d i (sort_key natural_sort (e_neighbors e))))"

definition setPorts :: "(string, core_switch) dict \<Rightarrow> (string, edge_switch) dict
    \<Rightarrow> (string, port_dict) dict" where
  "setPorts cores edges =
     foldl (\<lambda>ports p. dput ports (fst p) (edge_ports cores (snd p)))
       (foldl (\<lambda>ports s. dput ports s (core_ports edges)) [] (dkeys cores))
       edges"

section \<open>The parser\<close>

text \<open>
  \<^verbatim>\<open>splitSections\<close>: lines are stripped, then grouped by \<^verbatim>\<open>x in separator\<close>, which for a string
  separator also holds of the empty line; the groups of separator lines are dropped.
\<close>

fun group_lines :: "(string \<Rightarrow> bool) \<Rightarrow> string list \<Rightarrow> string list list" where
  "group_lines sep [] = []"
| "group_lines sep (x # xs) =
     (if sep x then group_lines sep xs
      else (x # takeWhile (\<lambda>y. \<not> sep y) xs) # group_lines sep (dropWhile (\<lambda>y. \<not> sep y) xs))"

definition splitSections :: "string list \<Rightarrow> string \<Rightarrow> string list list" where
  "splitSections contents separator =
     group_lines (\<lambda>x. py_substr x separator) (map py_strip contents)"

definition parse_core_line :: "string \<Rightarrow> core_switch res" where
  "parse_core_line line =
     (let fields = split_on (CHR '' '') line in
      rbind (py_nth fields 0) (\<lambda>name.
      rbind (py_nth fields 1) (\<lambda>f1.
      rbind (py_int f1) (\<lambda>dpid.
      rbind (if length fields < 3 then Inr []
             else rbind (py_nth fields 2) (\<lambda>f2. rmap py_int (split_on (CHR '':'') f2))) (\<lambda>vlan.
      Inr \<lparr>c_name = name, c_dpid = dpid, c_vlans = vlan\<rparr>)))))"

definition parseCores :: "string list \<Rightarrow> (string, core_switch) dict res" where
  "parseCores cfg =
     rfold (\<lambda>s line. rbind (parse_core_line line) (\<lambda>c. Inr (dput s (c_name c) c))) [] cfg"

text \<open>\<^verbatim>\<open>n.split(',')[0]\<close> never fails.\<close>

definition parse_edge_line :: "string \<Rightarrow> edge_switch res" where
  "parse_edge_line line =
     (let fields = split_on (CHR '' '') line in
      rbind (py_nth fields 0) (\<lambda>name.
      rbind (py_nth fields 1) (\<lambda>f1.
      rbind (py_int f1) (\<lambda>dpid.
      Inr \<lparr>e_name = name, e_dpid = dpid,
           e_neighbors = map (\<lambda>n. hd (split_on (CHR '','') n)) (drop 2 fields)\<rparr>))))"

definition parseEdges :: "string list \<Rightarrow> (string, edge_switch) dict res" where
  "parseEdges cfg =
     rfold (\<lambda>s line. rbind (parse_edge_line line) (\<lambda>e. Inr (dput s (e_name e) e))) [] cfg"

definition parse_host :: "string \<Rightarrow> string \<Rightarrow> host res" where
  "parse_host switch hst =
     (let hfields = split_on (CHR '','') hst in
      rbind (py_nth hfields 0) (\<lambda>name.
      rbind (py_nth hfields 1) (\<lambda>ip.
      rbind (py_nth hfields 2) (\<lambda>eth.
      rbind (py_nth hfields 3) (\<lambda>f3.
      rbind (rmap py_int (split_on (CHR '':'') f3)) (\<lambda>vlans.
      Inr \<lparr>h_name = name, h_ip = ip, h_eth = eth, h_switch = switch, h_vlans = vlans\<rparr>))))))"

definition parseHosts :: "string list \<Rightarrow> (string, host) dict res" where
  "parseHosts cfg =
     rfold (\<lambda>h line.
       let fields = split_on (CHR '' '') line in
       rbind (py_nth fields 0) (\<lambda>switch.
       rfold (\<lambda>h hst. rbind (parse_host switch hst) (\<lambda>x. Inr (dput h (h_name x) x)))
         h (drop 2 fields))) [] cfg"

definition add_vlan_member :: "(int, string list) dict \<Rightarrow> int \<Rightarrow> string \<Rightarrow> (int, string list) dict" where
  "add_vlan_member vs v name =
     (case map_of vs v of None \<Rightarrow> dput vs v [name] | Some ns \<Rightarrow> dput vs v (ns @ [name]))"

definition vlan_members :: "host list \<Rightarrow> (int, string list) dict" where
  "vlan_members hs =
     foldl (\<lambda>vs h. foldl (\<lambda>vs v. add_vlan_member vs v (h_name h)) vs (h_vlans h)) [] hs"

text \<open>
  \<^verbatim>\<open>Topology.parse\<close> on the lines of the file. \<open>ko\<close> and \<open>kv\<close> are the iteration orders of the
  dictionaries with string and integer keys.
\<close>

definition topology_parse ::
    "(string list \<Rightarrow> string list) \<Rightarrow> (int list \<Rightarrow> int list) \<Rightarrow> string list \<Rightarrow> topology res" where
  "topology_parse ko kv lines =
     (let contents = splitSections lines ''*'' in
      rbind (py_nth contents 0) (\<lambda>s0.
      rbind (parseCores s0) (\<lambda>cores0.
      rbind (py_nth contents 1) (\<lambda>s1.
      rbind (parseEdges s1) (\<lambda>edges0.
      rbind (parseHosts s1) (\<lambda>hosts0.
      let cores = reorder ko cores0; edges = reorder ko edges0; hosts = reorder ko hosts0 in
      Inr \<lparr>t_hosts = hosts, t_vlans = reorder kv (vlan_members (dvals hosts)),
           t_switches = dkeys cores @ dkeys edges, t_edges = edges, t_cores = cores,
           t_ports = setPorts cores edges\<rparr>))))))"

section \<open>What the numbering gives\<close>

definition idx :: "'a list \<Rightarrow> 'a \<Rightarrow> nat" where
  "idx xs x = length (takeWhile (\<lambda>y. y \<noteq> x) xs)"

lemma idx_Cons [simp]: "idx (y # ys) x = (if y = x then 0 else Suc (idx ys x))"
  by (simp add: idx_def)

lemma idx_nth: "x \<in> set xs \<Longrightarrow> idx xs x < length xs \<and> xs ! idx xs x = x"
  by (induction xs) auto

lemma number_ports_append:
  "number_ports d i (xs @ ys) = (case number_ports d i xs of (d', i') \<Rightarrow> number_ports d' i' ys)"
  by (induction d i xs rule: number_ports.induct) auto

lemma number_ports_int:
  "map_of (fst (number_ports d i ns)) (PInt j) =
     (if i \<le> j \<and> j < i + int (length ns) then Some (PStr (ns ! nat (j - i))) else map_of d (PInt j))"
proof (induction d i ns rule: number_ports.induct)
  case (2 d i n ns)
  have "nat (j - i) = Suc (nat (j - (i + 1)))" if "i < j"
    using that by simp
  with 2 show ?case by auto
qed auto

lemma number_ports_str:
  "distinct ns \<Longrightarrow> map_of (fst (number_ports d i ns)) (PStr n) =
     (if n \<in> set ns then Some (PInt (i + int (idx ns n))) else map_of d (PStr n))"
  by (induction d i ns rule: number_ports.induct) auto

definition node_order :: "string list \<Rightarrow> string list" where
  "node_order ns = sort_key natural_sort ns"

lemma node_order_simps [simp]:
  "set (node_order ns) = set ns" "distinct (node_order ns) = distinct ns"
  "length (node_order ns) = length ns"
  by (simp_all add: node_order_def)

lemma core_ports_eq: "core_ports edges = fst (number_ports [] 1 (node_order (dkeys edges)))"
  by (simp add: core_ports_def node_order_def)

lemma edge_ports_eq:
  "edge_ports cores e =
     fst (number_ports [] 1 (node_order (dkeys cores) @ node_order (e_neighbors e)))"
  by (simp add: edge_ports_def node_order_def number_ports_append split: prod.splits)

lemma map_of_foldl_dput:
  "distinct (map f xs) \<Longrightarrow> map_of (foldl (\<lambda>d x. dput d (f x) (g x)) d xs) k =
     (case map_of (map (\<lambda>x. (f x, g x)) xs) k of None \<Rightarrow> map_of d k | Some v \<Rightarrow> Some v)"
proof (induction xs arbitrary: d)
  case (Cons x xs)
  have "f x \<notin> f ` set xs \<Longrightarrow> map_of (map (\<lambda>x. (f x, g x)) xs) (f x) = None"
    by (simp add: map_of_eq_None_iff image_image)
  with Cons show ?case by (auto split: option.splits)
qed simp

lemma setPorts_core:
  assumes "distinct (dkeys cores @ dkeys edges)" and "s \<in> set (dkeys cores)"
  shows "map_of (setPorts cores edges) s = Some (core_ports edges)"
proof -
  have "s \<notin> fst ` set edges" using assms by auto
  then have "map_of (map (\<lambda>p. (fst p, edge_ports cores (snd p))) edges) s = None"
    by (simp add: map_of_eq_None_iff image_image)
  moreover have "map_of (map (\<lambda>s. (s, core_ports edges)) (dkeys cores)) s = Some (core_ports edges)"
    using assms(2) by (intro map_of_is_SomeI) (use assms(1) in \<open>auto simp: comp_def\<close>)
  ultimately show ?thesis
    using assms(1) map_of_foldl_dput [of fst edges "\<lambda>p. edge_ports cores (snd p)"]
      map_of_foldl_dput [of "\<lambda>s. s" "dkeys cores" "\<lambda>_. core_ports edges" "[]" s]
    by (simp add: setPorts_def)
qed

lemma setPorts_edge:
  assumes "distinct (dkeys edges)" and "(s, e) \<in> set edges"
  shows "map_of (setPorts cores edges) s = Some (edge_ports cores e)"
proof -
  have "map_of (map (\<lambda>p. (fst p, edge_ports cores (snd p))) edges) s = Some (edge_ports cores e)"
    using assms by (intro map_of_is_SomeI) (force simp: comp_def)+
  then show ?thesis
    using assms(1) map_of_foldl_dput [of fst edges "\<lambda>p. edge_ports cores (snd p)"]
    by (simp add: setPorts_def)
qed

section \<open>Well-formed topologies\<close>

definition wf_topology :: "topology \<Rightarrow> bool" where
  "wf_topology t \<longleftrightarrow>
     t_ports t = setPorts (t_cores t) (t_edges t) \<and>
     distinct (dkeys (t_cores t) @ dkeys (t_edges t) @ dkeys (t_hosts t)) \<and>
     (\<forall>(k, c) \<in> set (t_cores t). c_name c = k) \<and>
     (\<forall>(k, e) \<in> set (t_edges t). e_name e = k \<and> distinct (e_neighbors e)) \<and>
     (\<forall>(k, h) \<in> set (t_hosts t). h_name h = k \<and> h_switch h \<in> set (dkeys (t_edges t))) \<and>
     distinct (map c_dpid (dvals (t_cores t)) @ map e_dpid (dvals (t_edges t))) \<and>
     distinct (map h_eth (dvals (t_hosts t))) \<and>
     (\<forall>(k, e) \<in> set (t_edges t).
        set (e_neighbors e) = set (dkeys (filter (\<lambda>(_, h). h_switch h = k) (t_hosts t))))"

text \<open>\<^verbatim>\<open>topo.ports[sw][k]\<close>, with the \<^verbatim>\<open>KeyError\<close> of either dictionary.\<close>

definition port_at :: "topology \<Rightarrow> string \<Rightarrow> pyatom \<Rightarrow> pyatom res" where
  "port_at t sw k = rbind (dget (t_ports t) sw) (\<lambda>d. dget d k)"

text \<open>The nodes at the ports of a switch, in port order.\<close>

definition adjacent :: "topology \<Rightarrow> string \<Rightarrow> string list" where
  "adjacent t sw =
     (case map_of (t_edges t) sw of
        Some e \<Rightarrow> node_order (dkeys (t_cores t)) @ node_order (e_neighbors e)
      | None \<Rightarrow> if sw \<in> set (dkeys (t_cores t)) then node_order (dkeys (t_edges t)) else [])"

lemma wf_names:
  assumes "wf_topology t"
  shows "distinct (dkeys (t_cores t))" "distinct (dkeys (t_edges t))" "distinct (dkeys (t_hosts t))"
    "set (dkeys (t_cores t)) \<inter> set (dkeys (t_edges t)) = {}"
    "set (dkeys (t_cores t)) \<inter> set (dkeys (t_hosts t)) = {}"
    "set (dkeys (t_edges t)) \<inter> set (dkeys (t_hosts t)) = {}"
    "distinct (dkeys (t_cores t) @ dkeys (t_edges t))"
  using assms by (auto simp: wf_topology_def)

lemma wf_edge:
  assumes "wf_topology t" and "(k, e) \<in> set (t_edges t)"
  shows "e_name e = k" "distinct (e_neighbors e)"
    "n \<in> set (e_neighbors e) \<longleftrightarrow> (\<exists>h. (n, h) \<in> set (t_hosts t) \<and> h_switch h = k)"
    "map_of (t_edges t) k = Some e"
proof -
  show "e_name e = k" "distinct (e_neighbors e)"
    using assms by (auto simp: wf_topology_def)
  have "\<forall>(k, e) \<in> set (t_edges t).
      set (e_neighbors e) = set (dkeys (filter (\<lambda>(_, h). h_switch h = k) (t_hosts t)))"
    using assms(1) by (simp add: wf_topology_def)
  from bspec [OF this assms(2)] show "n \<in> set (e_neighbors e) \<longleftrightarrow> (\<exists>h. (n, h) \<in> set (t_hosts t) \<and> h_switch h = k)"
    by force
  show "map_of (t_edges t) k = Some e"
    using assms wf_names(2) by (simp add: map_of_eq_Some_distinct)
qed

lemma wf_host:
  assumes "wf_topology t" and "(k, h) \<in> set (t_hosts t)"
  obtains e where "h_name h = k" "(h_switch h, e) \<in> set (t_edges t)" "k \<in> set (e_neighbors e)"
proof -
  have "h_name h = k" "h_switch h \<in> set (dkeys (t_edges t))"
    using assms by (auto simp: wf_topology_def)
  moreover then obtain e where "(h_switch h, e) \<in> set (t_edges t)" by auto
  moreover then have "k \<in> set (e_neighbors e)"
    using wf_edge(3) assms by blast
  ultimately show thesis using that by blast
qed

lemma wf_core: "wf_topology t \<Longrightarrow> (k, c) \<in> set (t_cores t) \<Longrightarrow> c_name c = k"
  by (auto simp: wf_topology_def)

lemma adjacent_edge:
  "wf_topology t \<Longrightarrow> (k, e) \<in> set (t_edges t) \<Longrightarrow>
     adjacent t k = node_order (dkeys (t_cores t)) @ node_order (e_neighbors e)"
  by (simp add: adjacent_def wf_edge)

lemma adjacent_core:
  assumes "wf_topology t" and "k \<in> set (dkeys (t_cores t))"
  shows "adjacent t k = node_order (dkeys (t_edges t))"
proof -
  have "k \<notin> fst ` set (t_edges t)" using assms wf_names(4) [OF assms(1)] by auto
  then have "map_of (t_edges t) k = None" by (simp add: map_of_eq_None_iff)
  with assms show ?thesis by (auto simp: adjacent_def)
qed

lemma adjacent_none:
  "k \<notin> set (dkeys (t_edges t)) \<Longrightarrow> k \<notin> set (dkeys (t_cores t)) \<Longrightarrow> adjacent t k = []"
  by (simp add: adjacent_def map_of_eq_None_iff [THEN iffD2])

lemma wf_neighbor_not_core:
  assumes "wf_topology t" and "(k, e) \<in> set (t_edges t)" and "n \<in> set (e_neighbors e)"
  shows "n \<in> set (dkeys (t_hosts t))" "n \<notin> set (dkeys (t_cores t))" "n \<notin> set (dkeys (t_edges t))"
proof -
  from assms obtain h where "(n, h) \<in> set (t_hosts t)"
    using wf_edge(3) by blast
  then show *: "n \<in> set (dkeys (t_hosts t))" by (auto intro: rev_image_eqI)
  show "n \<notin> set (dkeys (t_cores t))" "n \<notin> set (dkeys (t_edges t))"
    using * wf_names(5,6) [OF assms(1)] by blast+
qed

lemma distinct_adjacent: "wf_topology t \<Longrightarrow> distinct (adjacent t k)"
proof -
  assume wf: "wf_topology t"
  show ?thesis
  proof (cases "map_of (t_edges t) k")
    case (Some e)
    then have e: "(k, e) \<in> set (t_edges t)" by (rule map_of_SomeD)
    have "set (dkeys (t_cores t)) \<inter> set (e_neighbors e) = {}"
      using wf_neighbor_not_core(2) [OF wf e] by blast
    with wf_names(1) [OF wf] wf_edge(2) [OF wf e] show ?thesis
      by (simp add: adjacent_edge [OF wf e])
  next
    case None
    with wf_names [OF wf] show ?thesis by (auto simp: adjacent_def)
  qed
qed

text \<open>The port dictionary of every switch numbers its adjacent nodes from 1.\<close>

lemma ports_of_switch:
  assumes "wf_topology t" and "k \<in> set (dkeys (t_cores t)) \<or> k \<in> set (dkeys (t_edges t))"
  shows "map_of (t_ports t) k = Some (fst (number_ports [] 1 (adjacent t k)))"
proof (cases "k \<in> set (dkeys (t_cores t))")
  case True
  then show ?thesis
    using assms(1) setPorts_core [OF wf_names(7) [OF assms(1)] True]
    by (simp add: adjacent_core core_ports_eq wf_topology_def)
next
  case False
  with assms(2) obtain e where e: "(k, e) \<in> set (t_edges t)" by auto
  then show ?thesis
    using assms(1) setPorts_edge [OF wf_names(2) [OF assms(1)] e, of "t_cores t"]
    by (simp add: adjacent_edge edge_ports_eq wf_topology_def)
qed

lemma port_at_str:
  assumes "wf_topology t" and "n \<in> set (adjacent t k)"
  shows "port_at t k (PStr n) = Inr (PInt (1 + int (idx (adjacent t k) n)))"
proof -
  have "k \<in> set (dkeys (t_cores t)) \<or> k \<in> set (dkeys (t_edges t))"
    using assms(2) adjacent_none by fastforce
  from ports_of_switch [OF assms(1) this] show ?thesis
    using assms(2) distinct_adjacent [OF assms(1), of k]
    by (simp add: port_at_def dget_def number_ports_str)
qed

lemma port_at_int:
  assumes "wf_topology t" and "k \<in> set (dkeys (t_cores t)) \<or> k \<in> set (dkeys (t_edges t))"
  shows "port_at t k (PInt i) =
    (if 1 \<le> i \<and> i < 1 + int (length (adjacent t k)) then Inr (PStr (adjacent t k ! nat (i - 1)))
     else Inl KeyErr)"
  using ports_of_switch [OF assms] by (simp add: port_at_def dget_def number_ports_int)

section \<open>The port map as its clients see it\<close>

locale port_service =
  fixes wf :: "'t \<Rightarrow> bool"
    and port :: "'t \<Rightarrow> string \<Rightarrow> pyatom \<Rightarrow> pyatom res"
    and adj :: "'t \<Rightarrow> string \<Rightarrow> string list"
  assumes number_of: "wf t \<Longrightarrow> n \<in> set (adj t sw) \<Longrightarrow> port t sw (PStr n) = Inr (PInt (1 + int (idx (adj t sw) n)))"
    and node_at: "wf t \<Longrightarrow> i < length (adj t sw) \<Longrightarrow> port t sw (PInt (1 + int i)) = Inr (PStr (adj t sw ! i))"
    and beyond: "wf t \<Longrightarrow> j < 1 \<or> int (length (adj t sw)) < j \<Longrightarrow> port t sw (PInt j) = Inl KeyErr"
begin

text \<open>The two directions of the map agree, and different nodes have different ports.\<close>

lemma there_and_back:
  assumes "wf t" and "n \<in> set (adj t sw)"
  shows "\<exists>i. port t sw (PStr n) = Inr (PInt i) \<and> 1 \<le> i \<and> port t sw (PInt i) = Inr (PStr n)"
  using number_of [OF assms] node_at [OF assms(1), of "idx (adj t sw) n" sw] idx_nth [OF assms(2)]
  by auto

lemma different_ports:
  assumes "wf t" and "n \<in> set (adj t sw)" and "m \<in> set (adj t sw)"
    and "port t sw (PStr n) = port t sw (PStr m)"
  shows "n = m"
proof -
  have "idx (adj t sw) n = idx (adj t sw) m" using assms number_of by simp
  then show ?thesis using idx_nth [OF assms(2)] idx_nth [OF assms(3)] by metis
qed

lemma port_range:
  assumes "wf t" and "port t sw (PInt i) = Inr x"
  shows "\<exists>n \<in> set (adj t sw). x = PStr n \<and> port t sw (PStr n) = Inr (PInt (1 + int (idx (adj t sw) n)))"
proof -
  have i: "\<not> (i < 1 \<or> int (length (adj t sw)) < i)" using beyond [OF assms(1), of i sw] assms(2) by auto
  then have "nat (i - 1) < length (adj t sw)" "i = 1 + int (nat (i - 1))" by auto
  with node_at [OF assms(1), of "nat (i - 1)" sw] assms(2) number_of [OF assms(1)]
  show ?thesis by (metis nth_mem sum.inject(2))
qed

end

lemma port_at_none: "wf_topology t \<Longrightarrow> sw \<notin> set (dkeys (t_cores t)) \<Longrightarrow> sw \<notin> set (dkeys (t_edges t))
    \<Longrightarrow> port_at t sw k = Inl KeyErr"
proof -
  assume wf: "wf_topology t" and n: "sw \<notin> set (dkeys (t_cores t))" "sw \<notin> set (dkeys (t_edges t))"
  have c: "sw \<notin> set ss \<Longrightarrow> map_of (foldl (\<lambda>ports s. dput ports s d) p ss) sw = map_of p sw" for d ss and p :: "(string, port_dict) dict"
    by (induction ss arbitrary: p) auto
  have e: "sw \<notin> set (dkeys es) \<Longrightarrow> map_of (foldl (\<lambda>ports q. dput ports (fst q) (edge_ports cs (snd q))) p es) sw = map_of p sw"
    for cs es and p :: "(string, port_dict) dict"
    by (induction es arbitrary: p) auto
  have "map_of (t_ports t) sw = None"
    using wf c [OF n(1), of "core_ports (t_edges t)" "[]"] e [OF n(2)] by (simp add: wf_topology_def setPorts_def)
  then show ?thesis by (simp add: port_at_def dget_def)
qed

interpretation tp: port_service wf_topology port_at adjacent
proof
  fix t n sw assume "wf_topology t" and n: "n \<in> set (adjacent t sw)"
  then show "port_at t sw (PStr n) = Inr (PInt (1 + int (idx (adjacent t sw) n)))" by (rule port_at_str)
next
  fix t sw and i :: nat assume wf: "wf_topology t" and i: "i < length (adjacent t sw)"
  then have "sw \<in> set (dkeys (t_cores t)) \<or> sw \<in> set (dkeys (t_edges t))"
    using adjacent_none by fastforce
  from port_at_int [OF wf this] i show "port_at t sw (PInt (1 + int i)) = Inr (PStr (adjacent t sw ! i))" by simp
next
  fix t sw and i :: int assume wf: "wf_topology t" and i: "i < 1 \<or> int (length (adjacent t sw)) < i"
  show "port_at t sw (PInt i) = Inl KeyErr"
  proof (cases "sw \<in> set (dkeys (t_cores t)) \<or> sw \<in> set (dkeys (t_edges t))")
    case True
    with port_at_int [OF wf True] i show ?thesis by auto
  qed (use port_at_none [OF wf] in blast)
qed

end
