(* ===== verification/Flood.thy ===== *)
theory Flood
  imports Topology
begin

text \<open>
  Routing tables and \<^verbatim>\<open>minidc/controller/flood.py\<close>: the rules that flood broadcast frames
  (ARP) down from the core switches and up from the hosts, and the final rule of every
  switch that drops what matched nothing else.
\<close>

section \<open>Flow entries and routing tables\<close>

text \<open>The \<^verbatim>\<open>type\<close> of a flow dictionary, with the field that goes with it.\<close>

datatype flow_match = MSrc string | MDst string | MInport pyatom | MNone

record flow =
  f_match :: flow_match
  f_output :: "pyatom list"
  f_priority :: int

type_synonym rtable = "(int, flow list) dict"

text \<open>\<^verbatim>\<open>routingTable[dpid].append(flow)\<close>\<close>

definition rt_append :: "rtable \<Rightarrow> int \<Rightarrow> flow \<Rightarrow> rtable res" where
  "rt_append rt dpid f = rbind (dget rt dpid) (\<lambda>fs. Inr (dput rt dpid (fs @ [f])))"

abbreviation FLOOD :: pyatom where
  "FLOOD \<equiv> PStr ''flood''"

definition drop_flow :: flow where
  "drop_flow = \<lparr>f_match = MNone, f_output = [], f_priority = 0\<rparr>"

definition src_flow :: "host \<Rightarrow> flow" where
  "src_flow h = \<lparr>f_match = MSrc (h_eth h), f_output = [FLOOD], f_priority = 1\<rparr>"

definition inport_flow :: "pyatom \<Rightarrow> pyatom list \<Rightarrow> flow" where
  "inport_flow p outs = \<lparr>f_match = MInport p, f_output = outs, f_priority = 1\<rparr>"

section \<open>add_arpflood\<close>

definition flood_core :: "topology \<Rightarrow> rtable \<Rightarrow> core_switch \<Rightarrow> rtable res" where
  "flood_core t rt core =
     (if c_dpid core \<in> set (dkeys rt)
      then rfold (\<lambda>rt h. rt_append rt (c_dpid core) (src_flow h)) rt (dvals (t_hosts t))
      else Inr rt)"

definition flood_edge_down :: "topology \<Rightarrow> edge_switch \<Rightarrow> rtable \<Rightarrow> core_switch \<Rightarrow> rtable res" where
  "flood_edge_down t edge rt core =
     rbind (port_at t (e_name edge) (PStr (c_name core))) (\<lambda>inport.
     rbind (rmap (\<lambda>n. port_at t (e_name edge) (PStr n)) (e_neighbors edge)) (\<lambda>outports.
     rt_append rt (e_dpid edge) (inport_flow inport outports)))"

definition flood_edge_up :: "topology \<Rightarrow> edge_switch \<Rightarrow> rtable \<Rightarrow> string \<Rightarrow> rtable res" where
  "flood_edge_up t edge rt hst =
     rbind (port_at t (e_name edge) (PStr hst)) (\<lambda>inport.
     rbind (rmap (\<lambda>core. port_at t (e_name edge) (PStr core)) (dkeys (t_cores t))) (\<lambda>up.
     rbind (rmap (\<lambda>h2. port_at t (e_name edge) (PStr h2)) (filter (\<lambda>h2. h2 \<noteq> hst) (e_neighbors edge)))
       (\<lambda>others.
     rt_append rt (e_dpid edge) (inport_flow inport (up @ others)))))"

definition flood_edge :: "topology \<Rightarrow> rtable \<Rightarrow> edge_switch \<Rightarrow> rtable res" where
  "flood_edge t rt edge =
     (let rt1 = (if e_dpid edge \<notin> set (dkeys rt) then dput rt (e_dpid edge) [] else rt) in
      rbind (rfold (flood_edge_down t edge) rt1 (dvals (t_cores t))) (\<lambda>rt2.
      rfold (flood_edge_up t edge) rt2 (e_neighbors edge)))"

definition drop_core :: "rtable \<Rightarrow> core_switch \<Rightarrow> rtable res" where
  "drop_core rt core =
     (let rt1 = (if c_dpid core \<notin> set (dkeys rt) then dput rt (c_dpid core) [] else rt) in
      rt_append rt1 (c_dpid core) drop_flow)"

definition add_arpflood :: "rtable \<Rightarrow> topology \<Rightarrow> rtable res" where
  "add_arpflood rt t =
     rbind (rfold (flood_core t) rt (dvals (t_cores t))) (\<lambda>rt1.
     rbind (rfold (flood_edge t) rt1 (dvals (t_edges t))) (\<lambda>rt2.
     rbind (rfold drop_core rt2 (dvals (t_cores t))) (\<lambda>rt3.
     rfold (\<lambda>rt edge. rt_append rt (e_dpid edge) drop_flow) rt3 (dvals (t_edges t)))))"

section \<open>What the loops compute\<close>

text \<open>The port number of a node, for the nodes that have one.\<close>

definition port_no :: "topology \<Rightarrow> string \<Rightarrow> string \<Rightarrow> int" where
  "port_no t sw n = 1 + int (idx (adjacent t sw) n)"

lemma port_at_port_no:
  "wf_topology t \<Longrightarrow> n \<in> set (adjacent t sw) \<Longrightarrow> port_at t sw (PStr n) = Inr (PInt (port_no t sw n))"
  by (simp add: port_at_str port_no_def)

lemma rt_append_many:
  assumes "map_of rt d = Some fs" and "\<And>rt x. x \<in> set xs \<Longrightarrow> step rt x = rt_append rt d (g x)"
  shows "rfold step rt xs = Inr (dput rt d (fs @ map g xs))"
  using assms
proof (induction xs arbitrary: rt fs)
  case Nil
  then show ?case by (simp add: dput_same)
next
  case (Cons x xs)
  have "step rt x = Inr (dput rt d (fs @ [g x]))"
    using Cons.prems by (simp add: rt_append_def dget_def)
  moreover have "rfold step (dput rt d (fs @ [g x])) xs =
      Inr (dput (dput rt d (fs @ [g x])) d ((fs @ [g x]) @ map g xs))"
    by (rule Cons.IH) (use Cons.prems(2) in auto)
  ultimately show ?case by simp
qed

definition olist :: "'a list option \<Rightarrow> 'a list" where
  "olist o1 = (case o1 of None \<Rightarrow> [] | Some xs \<Rightarrow> xs)"

lemma olist_simps [simp]: "olist None = []" "olist (Some xs) = xs"
  by (simp_all add: olist_def)

lemma ensure_key:
  "(if d \<notin> set (dkeys rt) then dput rt d [] else rt) = dput rt d (olist (map_of rt d))"
  by (cases "map_of rt d") (simp_all add: in_keys_iff dput_same)

lemma flood_core_step:
  assumes "map_of rt (c_dpid c) = fs"
  shows "flood_core t rt c =
    (case fs of None \<Rightarrow> Inr rt
     | Some fs \<Rightarrow> Inr (dput rt (c_dpid c) (fs @ map src_flow (dvals (t_hosts t)))))"
proof (cases fs)
  case (Some fs')
  with assms have "c_dpid c \<in> set (dkeys rt)" using in_keys_iff(1) by fastforce
  moreover have "rfold (\<lambda>rt h. rt_append rt (c_dpid c) (src_flow h)) rt (dvals (t_hosts t))
      = Inr (dput rt (c_dpid c) (fs' @ map src_flow (dvals (t_hosts t))))"
    by (rule rt_append_many) (use Some assms in auto)
  ultimately show ?thesis by (simp add: flood_core_def Some)
qed (use assms in \<open>simp add: flood_core_def in_keys_iff\<close>)

definition down_flow :: "topology \<Rightarrow> edge_switch \<Rightarrow> string \<Rightarrow> flow" where
  "down_flow t e core = inport_flow (PInt (port_no t (e_name e) core))
     (map (\<lambda>n. PInt (port_no t (e_name e) n)) (e_neighbors e))"

definition up_flow :: "topology \<Rightarrow> edge_switch \<Rightarrow> string \<Rightarrow> flow" where
  "up_flow t e hst = inport_flow (PInt (port_no t (e_name e) hst))
     (map (\<lambda>n. PInt (port_no t (e_name e) n))
        (dkeys (t_cores t) @ filter (\<lambda>h2. h2 \<noteq> hst) (e_neighbors e)))"

lemma edge_port_at:
  assumes "wf_topology t" and "(k, e) \<in> set (t_edges t)"
    and "n \<in> set (dkeys (t_cores t)) \<union> set (e_neighbors e)"
  shows "port_at t (e_name e) (PStr n) = Inr (PInt (port_no t (e_name e) n))"
  using assms wf_edge(1) [OF assms(1,2)]
  by (intro port_at_port_no) (auto simp: adjacent_edge)

lemma flood_edge_step:
  assumes wf: "wf_topology t" and e: "(k, e) \<in> set (t_edges t)"
  shows "flood_edge t rt e = Inr (dput rt (e_dpid e) (olist (map_of rt (e_dpid e))
      @ map (down_flow t e) (dkeys (t_cores t)) @ map (up_flow t e) (e_neighbors e)))"
proof -
  let ?d = "e_dpid e" and ?fs = "olist (map_of rt (e_dpid e))"
  let ?rt1 = "dput rt ?d ?fs"
  have down: "flood_edge_down t e r c = rt_append r ?d (down_flow t e (c_name c))"
    if "c \<in> set (dvals (t_cores t))" for r c
  proof -
    from that obtain k' where "(k', c) \<in> set (t_cores t)" by auto
    then have "c_name c \<in> set (dkeys (t_cores t))"
      using wf_core [OF wf] by (auto intro: rev_image_eqI)
    then have "port_at t (e_name e) (PStr (c_name c)) = Inr (PInt (port_no t (e_name e) (c_name c)))"
      using edge_port_at [OF wf e] by blast
    moreover have "rmap (\<lambda>n. port_at t (e_name e) (PStr n)) (e_neighbors e)
        = Inr (map (\<lambda>n. PInt (port_no t (e_name e) n)) (e_neighbors e))"
      by (rule rmap_Inr) (simp add: edge_port_at [OF wf e])
    ultimately show ?thesis by (simp add: flood_edge_down_def down_flow_def)
  qed
  have up: "flood_edge_up t e r n = rt_append r ?d (up_flow t e n)"
    if "n \<in> set (e_neighbors e)" for r n
  proof -
    have "rmap (\<lambda>core. port_at t (e_name e) (PStr core)) (dkeys (t_cores t))
        = Inr (map (\<lambda>n. PInt (port_no t (e_name e) n)) (dkeys (t_cores t)))"
      by (rule rmap_Inr) (simp add: edge_port_at [OF wf e])
    moreover have "rmap (\<lambda>h2. port_at t (e_name e) (PStr h2)) (filter (\<lambda>h2. h2 \<noteq> n) (e_neighbors e))
        = Inr (map (\<lambda>n. PInt (port_no t (e_name e) n)) (filter (\<lambda>h2. h2 \<noteq> n) (e_neighbors e)))"
      by (rule rmap_Inr) (simp add: edge_port_at [OF wf e])
    ultimately show ?thesis
      using that edge_port_at [OF wf e] by (simp add: flood_edge_up_def up_flow_def)
  qed
  have names: "map (\<lambda>c. down_flow t e (c_name c)) (dvals (t_cores t)) = map (down_flow t e) (dkeys (t_cores t))"
    using wf_core [OF wf] by (auto simp: comp_def)
  have 1: "rfold (flood_edge_down t e) ?rt1 (dvals (t_cores t)) =
      Inr (dput ?rt1 ?d (?fs @ map (\<lambda>c. down_flow t e (c_name c)) (dvals (t_cores t))))"
    by (rule rt_append_many) (simp_all add: down)
  have 2: "rfold (flood_edge_up t e) (dput ?rt1 ?d (?fs @ map (down_flow t e) (dkeys (t_cores t)))) (e_neighbors e) =
      Inr (dput (dput ?rt1 ?d (?fs @ map (down_flow t e) (dkeys (t_cores t)))) ?d
        ((?fs @ map (down_flow t e) (dkeys (t_cores t))) @ map (up_flow t e) (e_neighbors e)))"
    by (rule rt_append_many) (simp_all add: up)
  from 1 2 show ?thesis
    unfolding flood_edge_def ensure_key Let_def names by simp
qed

definition core_tail :: "topology \<Rightarrow> flow list option \<Rightarrow> flow list" where
  "core_tail t o1 = (case o1 of None \<Rightarrow> [] | Some fs \<Rightarrow> fs @ map src_flow (dvals (t_hosts t))) @ [drop_flow]"

definition edge_tail :: "topology \<Rightarrow> edge_switch \<Rightarrow> flow list" where
  "edge_tail t e = map (down_flow t e) (dkeys (t_cores t)) @ map (up_flow t e) (e_neighbors e) @ [drop_flow]"

lemma wf_dpids:
  assumes "wf_topology t"
  shows "distinct (map c_dpid (dvals (t_cores t)))" "distinct (map e_dpid (dvals (t_edges t)))"
    "c \<in> set (dvals (t_cores t)) \<Longrightarrow> e \<in> set (dvals (t_edges t)) \<Longrightarrow> c_dpid c \<noteq> e_dpid e"
proof -
  have d: "distinct (map c_dpid (dvals (t_cores t)) @ map e_dpid (dvals (t_edges t)))"
    using assms by (simp add: wf_topology_def)
  then show "distinct (map c_dpid (dvals (t_cores t)))" "distinct (map e_dpid (dvals (t_edges t)))"
    by simp_all
  assume "c \<in> set (dvals (t_cores t))" "e \<in> set (dvals (t_edges t))"
  then have "c_dpid c \<in> set (map c_dpid (dvals (t_cores t)))"
    "e_dpid e \<in> set (map e_dpid (dvals (t_edges t)))" by auto
  with d show "c_dpid c \<noteq> e_dpid e" by (metis disjoint_iff distinct_append)
qed

lemma find_dpid:
  assumes "wf_topology t"
  shows "c \<in> set (dvals (t_cores t)) \<Longrightarrow> find (\<lambda>x. c_dpid x = c_dpid c) (dvals (t_cores t)) = Some c"
    "e \<in> set (dvals (t_edges t)) \<Longrightarrow> find (\<lambda>x. e_dpid x = e_dpid e) (dvals (t_edges t)) = Some e"
    "c \<in> set (dvals (t_cores t)) \<Longrightarrow> find (\<lambda>x. e_dpid x = c_dpid c) (dvals (t_edges t)) = None"
    "e \<in> set (dvals (t_edges t)) \<Longrightarrow> find (\<lambda>x. c_dpid x = e_dpid e) (dvals (t_cores t)) = None"
proof -
  show "c \<in> set (dvals (t_cores t)) \<Longrightarrow> find (\<lambda>x. c_dpid x = c_dpid c) (dvals (t_cores t)) = Some c"
    by (rule find_key [OF wf_dpids(1) [OF assms]])
  show "e \<in> set (dvals (t_edges t)) \<Longrightarrow> find (\<lambda>x. e_dpid x = e_dpid e) (dvals (t_edges t)) = Some e"
    by (rule find_key [OF wf_dpids(2) [OF assms]])
  show "c \<in> set (dvals (t_cores t)) \<Longrightarrow> find (\<lambda>x. e_dpid x = c_dpid c) (dvals (t_edges t)) = None"
    using wf_dpids(3) [OF assms] unfolding find_None_iff by metis
  show "e \<in> set (dvals (t_edges t)) \<Longrightarrow> find (\<lambda>x. c_dpid x = e_dpid e) (dvals (t_cores t)) = None"
    using wf_dpids(3) [OF assms] unfolding find_None_iff by metis
qed

lemma flood_cores:
  assumes "wf_topology t"
  shows "\<exists>rt'. rfold (flood_core t) rt (dvals (t_cores t)) = Inr rt' \<and>
    (\<forall>k. map_of rt' k = (case find (\<lambda>c. c_dpid c = k) (dvals (t_cores t)) of
       Some c \<Rightarrow> map_option (\<lambda>fs. fs @ map src_flow (dvals (t_hosts t))) (map_of rt k)
     | None \<Rightarrow> map_of rt k))"
  by (rule rfold_per_key [where P = "\<lambda>_ _. True"])
     (use wf_dpids(1) [OF assms] in \<open>auto simp: flood_core_step split: option.splits\<close>)

lemma flood_edges:
  assumes "wf_topology t"
  shows "\<exists>rt'. rfold (flood_edge t) rt (dvals (t_edges t)) = Inr rt' \<and>
    (\<forall>k. map_of rt' k = (case find (\<lambda>e. e_dpid e = k) (dvals (t_edges t)) of
       Some e \<Rightarrow> Some (olist (map_of rt k) @ map (down_flow t e) (dkeys (t_cores t))
                  @ map (up_flow t e) (e_neighbors e))
     | None \<Rightarrow> map_of rt k))"
  by (rule rfold_per_key [where P = "\<lambda>_ _. True"])
     (use wf_dpids(2) [OF assms] flood_edge_step [OF assms] in auto)

lemma drop_cores:
  assumes "wf_topology t"
  shows "\<exists>rt'. rfold drop_core rt (dvals (t_cores t)) = Inr rt' \<and>
    (\<forall>k. map_of rt' k = (case find (\<lambda>c. c_dpid c = k) (dvals (t_cores t)) of
       Some c \<Rightarrow> Some (olist (map_of rt k) @ [drop_flow]) | None \<Rightarrow> map_of rt k))"
proof (rule rfold_per_key [where P = "\<lambda>_ _. True"])
  fix s :: rtable and x :: core_switch
  show "\<exists>u. drop_core s x = Inr u \<and>
      map_of u = (map_of s)(c_dpid x := Some (olist (map_of s (c_dpid x)) @ [drop_flow]))"
    unfolding drop_core_def ensure_key Let_def by (simp add: rt_append_def dget_def)
qed (use wf_dpids(1) [OF assms] in auto)

lemma drop_edges:
  assumes "wf_topology t" and "\<And>e. e \<in> set (dvals (t_edges t)) \<Longrightarrow> map_of rt (e_dpid e) \<noteq> None"
  shows "\<exists>rt'. rfold (\<lambda>rt edge. rt_append rt (e_dpid edge) drop_flow) rt (dvals (t_edges t)) = Inr rt' \<and>
    (\<forall>k. map_of rt' k = (case find (\<lambda>e. e_dpid e = k) (dvals (t_edges t)) of
       Some e \<Rightarrow> Some (olist (map_of rt k) @ [drop_flow]) | None \<Rightarrow> map_of rt k))"
  by (rule rfold_per_key [where P = "\<lambda>_ o1. o1 \<noteq> None"])
     (use wf_dpids(2) [OF assms(1)] assms(2) in \<open>auto simp: rt_append_def dget_def\<close>)

text \<open>
  The tables after \<^verbatim>\<open>add_arpflood\<close>: every edge switch gets its flooding rules and the final
  drop rule after what it had; a core switch gets flooding rules only if it had a table.
\<close>

theorem add_arpflood_tables:
  assumes wf: "wf_topology t"
  shows "\<exists>rt'. add_arpflood rt t = Inr rt' \<and>
    (\<forall>c \<in> set (dvals (t_cores t)). map_of rt' (c_dpid c) = Some (core_tail t (map_of rt (c_dpid c)))) \<and>
    (\<forall>e \<in> set (dvals (t_edges t)).
       map_of rt' (e_dpid e) = Some (olist (map_of rt (e_dpid e)) @ edge_tail t e))"
proof -
  obtain r1 where r1: "rfold (flood_core t) rt (dvals (t_cores t)) = Inr r1"
    and m1: "\<And>k. map_of r1 k = (case find (\<lambda>c. c_dpid c = k) (dvals (t_cores t)) of
       Some c \<Rightarrow> map_option (\<lambda>fs. fs @ map src_flow (dvals (t_hosts t))) (map_of rt k)
     | None \<Rightarrow> map_of rt k)"
    using flood_cores [OF wf] by blast
  obtain r2 where r2: "rfold (flood_edge t) r1 (dvals (t_edges t)) = Inr r2"
    and m2: "\<And>k. map_of r2 k = (case find (\<lambda>e. e_dpid e = k) (dvals (t_edges t)) of
       Some e \<Rightarrow> Some (olist (map_of r1 k) @ map (down_flow t e) (dkeys (t_cores t))
                  @ map (up_flow t e) (e_neighbors e))
     | None \<Rightarrow> map_of r1 k)"
    using flood_edges [OF wf] by blast
  obtain r3 where r3: "rfold drop_core r2 (dvals (t_cores t)) = Inr r3"
    and m3: "\<And>k. map_of r3 k = (case find (\<lambda>c. c_dpid c = k) (dvals (t_cores t)) of
       Some c \<Rightarrow> Some (olist (map_of r2 k) @ [drop_flow]) | None \<Rightarrow> map_of r2 k)"
    using drop_cores [OF wf] by blast
  have e3: "map_of r3 (e_dpid e) = Some (olist (map_of rt (e_dpid e))
      @ map (down_flow t e) (dkeys (t_cores t)) @ map (up_flow t e) (e_neighbors e))"
    if "e \<in> set (dvals (t_edges t))" for e
    using that by (simp add: m1 m2 m3 find_dpid [OF wf])
  then obtain r4 where r4: "rfold (\<lambda>rt edge. rt_append rt (e_dpid edge) drop_flow) r3 (dvals (t_edges t)) = Inr r4"
    and m4: "\<And>k. map_of r4 k = (case find (\<lambda>e. e_dpid e = k) (dvals (t_edges t)) of
       Some e \<Rightarrow> Some (olist (map_of r3 k) @ [drop_flow]) | None \<Rightarrow> map_of r3 k)"
    using drop_edges [OF wf, of r3] by auto
  have "map_of r4 (c_dpid c) = Some (core_tail t (map_of rt (c_dpid c)))"
    if "c \<in> set (dvals (t_cores t))" for c
    using that by (cases "map_of rt (c_dpid c)")
      (simp_all add: m1 m2 m3 m4 find_dpid [OF wf] core_tail_def)
  moreover have "map_of r4 (e_dpid e) = Some (olist (map_of rt (e_dpid e)) @ edge_tail t e)"
    if "e \<in> set (dvals (t_edges t))" for e
    using that by (simp add: m4 e3 find_dpid [OF wf] edge_tail_def)
  ultimately show ?thesis
    using r1 r2 r3 r4 by (simp add: add_arpflood_def)
qed

end
