(* ===== verification/Policy.thy ===== *)
theory Policy
  imports Flood
begin

text \<open>
  The two policies of \<^verbatim>\<open>minidc/controller/policy.py\<close> whose tables depend on the topology
  only: \<^verbatim>\<open>DefaultPolicy\<close> sends everything up to one core switch, \<^verbatim>\<open>StaticPolicy\<close> to the core
  switch of the destination's VLAN. The loops over the hosts of a core switch (downward)
  and of an edge switch (upward) are the same in every policy; the upward one takes the
  choice of the core switch as an argument.
\<close>

section \<open>The loops over the hosts\<close>

definition dst_flow :: "host \<Rightarrow> pyatom \<Rightarrow> flow" where
  "dst_flow h outport = \<lparr>f_match = MDst (h_eth h), f_output = [outport], f_priority = 2\<rparr>"

text \<open>\<^verbatim>\<open>routingTable[core.dpid] = []\<close>, then one rule per host towards its edge switch.\<close>

definition core_down :: "topology \<Rightarrow> rtable \<Rightarrow> string \<Rightarrow> int \<Rightarrow> rtable res" where
  "core_down t rt name dpid =
     rfold (\<lambda>rt h.
       rbind (port_at t name (PStr (h_switch h))) (\<lambda>outport.
       rt_append rt dpid (dst_flow h outport))) (dput rt dpid []) (dvals (t_hosts t))"

text \<open>
  A name that may be \<^verbatim>\<open>None\<close>: \<^verbatim>\<open>topo.ports[sw][None]\<close> is a \<^verbatim>\<open>KeyError\<close>.
\<close>

definition edge_up :: "topology \<Rightarrow> (host \<Rightarrow> string option res) \<Rightarrow> rtable \<Rightarrow> edge_switch \<Rightarrow> rtable res" where
  "edge_up t pick rt edge =
     rfold (\<lambda>rt h.
       rbind (if h_name h \<in> set (e_neighbors edge)
              then port_at t (e_name edge) (PStr (h_name h))
              else rbind (pick h) (\<lambda>core.
                   case core of None \<Rightarrow> Inl KeyErr
                   | Some core \<Rightarrow> port_at t (e_name edge) (PStr core))) (\<lambda>outport.
       rt_append rt (e_dpid edge) (dst_flow h outport)))
     (dput rt (e_dpid edge) []) (dvals (t_hosts t))"

section \<open>The policies\<close>

definition static_choice :: "topology \<Rightarrow> host \<Rightarrow> string option res" where
  "static_choice t h = rbind (py_nth (h_vlans h) 0) (\<lambda>vlanId. Inr (getVlanCore t vlanId))"

definition StaticPolicy_build :: "topology \<Rightarrow> rtable res" where
  "StaticPolicy_build t =
     rbind (rfold (\<lambda>rt core. core_down t rt (c_name core) (c_dpid core)) [] (dvals (t_cores t))) (\<lambda>rt.
     rbind (rfold (edge_up t (static_choice t)) rt (dvals (t_edges t))) (\<lambda>rt.
     add_arpflood rt t))"

definition DefaultPolicy_build :: "topology \<Rightarrow> rtable res" where
  "DefaultPolicy_build t =
     rbind (py_nth (dkeys (t_cores t)) 0) (\<lambda>core.
     rbind (dget (t_cores t) core) (\<lambda>sw.
     rbind (core_down t [] core (c_dpid sw)) (\<lambda>rt.
     rbind (rfold (edge_up t (\<lambda>_. Inr (Some core))) rt (dvals (t_edges t))) (\<lambda>rt.
     add_arpflood rt t))))"

section \<open>What the loops compute\<close>

definition core_dst :: "topology \<Rightarrow> string \<Rightarrow> flow list" where
  "core_dst t name = map (\<lambda>h. dst_flow h (PInt (port_no t name (h_switch h)))) (dvals (t_hosts t))"

definition edge_dst :: "topology \<Rightarrow> (host \<Rightarrow> string) \<Rightarrow> edge_switch \<Rightarrow> flow list" where
  "edge_dst t choice e = map (\<lambda>h. dst_flow h (PInt (port_no t (e_name e)
      (if h_name h \<in> set (e_neighbors e) then h_name h else choice h)))) (dvals (t_hosts t))"

lemma core_down_ok:
  assumes wf: "wf_topology t" and c: "name \<in> set (dkeys (t_cores t))"
  shows "core_down t rt name dpid = Inr (dput rt dpid (core_dst t name))"
proof -
  have "port_at t name (PStr (h_switch h)) = Inr (PInt (port_no t name (h_switch h)))"
    if "h \<in> set (dvals (t_hosts t))" for h
  proof -
    from that obtain k where k: "(k, h) \<in> set (t_hosts t)" by auto
    have "h_switch h \<in> set (adjacent t name)"
      using wf_host [OF wf k] by (metis adjacent_core [OF wf c] fst_conv imageI list.set_map node_order_simps(1))
    then show ?thesis by (rule port_at_port_no [OF wf])
  qed
  then have "rfold (\<lambda>rt h. rbind (port_at t name (PStr (h_switch h))) (\<lambda>outport.
       rt_append rt dpid (dst_flow h outport))) (dput rt dpid []) (dvals (t_hosts t))
     = Inr (dput (dput rt dpid []) dpid ([] @ core_dst t name))"
    unfolding core_dst_def by (intro rt_append_many) simp_all
  then show ?thesis by (simp add: core_down_def)
qed

text \<open>
  The choice of the core switch of each host that is not a neighbour, as the code makes it.
\<close>

definition choice_ok :: "topology \<Rightarrow> (host \<Rightarrow> string option res) \<Rightarrow> (host \<Rightarrow> string) \<Rightarrow> bool" where
  "choice_ok t pick choice \<longleftrightarrow>
     (\<forall>h \<in> set (dvals (t_hosts t)). pick h = Inr (Some (choice h)) \<and> choice h \<in> set (dkeys (t_cores t)))"

lemma edge_up_ok:
  assumes wf: "wf_topology t" and e: "(k, e) \<in> set (t_edges t)" and ch: "choice_ok t pick choice"
  shows "edge_up t pick rt e = Inr (dput rt (e_dpid e) (edge_dst t choice e))"
proof -
  let ?n = "\<lambda>h. if h_name h \<in> set (e_neighbors e) then h_name h else choice h"
  have "(if h_name h \<in> set (e_neighbors e)
          then port_at t (e_name e) (PStr (h_name h))
          else rbind (pick h) (\<lambda>core. case core of None \<Rightarrow> Inl KeyErr
                   | Some core \<Rightarrow> port_at t (e_name e) (PStr core)))
        = Inr (PInt (port_no t (e_name e) (?n h)))"
    if "h \<in> set (dvals (t_hosts t))" for h
  proof -
    from that ch have "pick h = Inr (Some (choice h))" "choice h \<in> set (dkeys (t_cores t))"
      unfolding choice_ok_def by blast+
    then show ?thesis using edge_port_at [OF wf e] by simp
  qed
  then have "rfold (\<lambda>rt h. rbind (if h_name h \<in> set (e_neighbors e)
          then port_at t (e_name e) (PStr (h_name h))
          else rbind (pick h) (\<lambda>core. case core of None \<Rightarrow> Inl KeyErr
                   | Some core \<Rightarrow> port_at t (e_name e) (PStr core))) (\<lambda>outport.
       rt_append rt (e_dpid e) (dst_flow h outport))) (dput rt (e_dpid e) []) (dvals (t_hosts t))
     = Inr (dput (dput rt (e_dpid e) []) (e_dpid e) ([] @ edge_dst t choice e))"
    unfolding edge_dst_def by (intro rt_append_many) simp_all
  then show ?thesis by (simp add: edge_up_def)
qed

lemma edges_up:
  assumes wf: "wf_topology t" and ch: "choice_ok t pick choice"
  shows "\<exists>rt'. rfold (edge_up t pick) rt (dvals (t_edges t)) = Inr rt' \<and>
    (\<forall>k. map_of rt' k = (case find (\<lambda>e. e_dpid e = k) (dvals (t_edges t)) of
       Some e \<Rightarrow> Some (edge_dst t choice e) | None \<Rightarrow> map_of rt k))"
  by (rule rfold_per_key [where P = "\<lambda>_ _. True"])
     (use wf_dpids(2) [OF wf] edge_up_ok [OF wf _ ch] in auto)

lemma cores_down:
  assumes wf: "wf_topology t"
  shows "\<exists>rt'. rfold (\<lambda>rt core. core_down t rt (c_name core) (c_dpid core)) rt (dvals (t_cores t)) = Inr rt' \<and>
    (\<forall>k. map_of rt' k = (case find (\<lambda>c. c_dpid c = k) (dvals (t_cores t)) of
       Some c \<Rightarrow> Some (core_dst t (c_name c)) | None \<Rightarrow> map_of rt k))"
proof (rule rfold_per_key [where P = "\<lambda>_ _. True"])
  fix s x
  assume "x \<in> set (dvals (t_cores t))"
  then have "c_name x \<in> set (dkeys (t_cores t))"
    using wf_core [OF wf] by (auto intro: rev_image_eqI)
  then show "\<exists>u. core_down t s (c_name x) (c_dpid x) = Inr u \<and>
      map_of u = (map_of s)(c_dpid x := Some (core_dst t (c_name x)))"
    by (simp add: core_down_ok [OF wf])
qed (use wf_dpids(1) [OF wf] in auto)

section \<open>The tables of the policies\<close>

text \<open>
  The table a policy gives each switch: per host one rule towards it, then the flooding
  rules, then the drop rule. \<open>active\<close> says which core switches have rules at all.
\<close>

definition policy_tables :: "topology \<Rightarrow> (string \<Rightarrow> bool) \<Rightarrow> (host \<Rightarrow> string) \<Rightarrow> rtable \<Rightarrow> bool" where
  "policy_tables t active choice rt \<longleftrightarrow>
     (\<forall>c \<in> set (dvals (t_cores t)). map_of rt (c_dpid c) =
        Some (core_tail t (if active (c_name c) then Some (core_dst t (c_name c)) else None))) \<and>
     (\<forall>e \<in> set (dvals (t_edges t)). map_of rt (e_dpid e) = Some (edge_dst t choice e @ edge_tail t e))"

text \<open>The build of a policy that gives every core switch its rules.\<close>

definition all_cores_build :: "topology \<Rightarrow> (host \<Rightarrow> string option res) \<Rightarrow> rtable res" where
  "all_cores_build t pick =
     rbind (rfold (\<lambda>rt core. core_down t rt (c_name core) (c_dpid core)) [] (dvals (t_cores t))) (\<lambda>rt.
     rbind (rfold (edge_up t pick) rt (dvals (t_edges t))) (\<lambda>rt. add_arpflood rt t))"

lemma all_cores_build_tables:
  assumes wf: "wf_topology t" and ch: "choice_ok t pick choice"
  shows "\<exists>rt. all_cores_build t pick = Inr rt \<and> policy_tables t (\<lambda>_. True) choice rt"
proof -
  obtain r1 where r1: "rfold (\<lambda>rt core. core_down t rt (c_name core) (c_dpid core)) [] (dvals (t_cores t)) = Inr r1"
    and m1: "\<And>k. map_of r1 k = (case find (\<lambda>c. c_dpid c = k) (dvals (t_cores t)) of
       Some c \<Rightarrow> Some (core_dst t (c_name c)) | None \<Rightarrow> map_of [] k)"
    using cores_down [OF wf, of "[]"] by blast
  obtain r2 where r2: "rfold (edge_up t pick) r1 (dvals (t_edges t)) = Inr r2"
    and m2: "\<And>k. map_of r2 k = (case find (\<lambda>e. e_dpid e = k) (dvals (t_edges t)) of
       Some e \<Rightarrow> Some (edge_dst t choice e) | None \<Rightarrow> map_of r1 k)"
    using edges_up [OF wf ch] by blast
  obtain r3 where r3: "add_arpflood r2 t = Inr r3"
    and c3: "\<And>c. c \<in> set (dvals (t_cores t)) \<Longrightarrow> map_of r3 (c_dpid c) = Some (core_tail t (map_of r2 (c_dpid c)))"
    and e3: "\<And>e. e \<in> set (dvals (t_edges t)) \<Longrightarrow>
       map_of r3 (e_dpid e) = Some (olist (map_of r2 (e_dpid e)) @ edge_tail t e)"
    using add_arpflood_tables [OF wf] by blast
  have "map_of r3 (c_dpid c) = Some (core_tail t (Some (core_dst t (c_name c))))"
    if "c \<in> set (dvals (t_cores t))" for c
    using find_dpid(1,3) [OF wf] that by (simp add: c3 [OF that] m1 m2)
  moreover have "map_of r3 (e_dpid e) = Some (edge_dst t choice e @ edge_tail t e)"
    if "e \<in> set (dvals (t_edges t))" for e
    using find_dpid(2) [OF wf that] by (simp add: e3 [OF that] m2)
  ultimately have "policy_tables t (\<lambda>_. True) choice r3"
    unfolding policy_tables_def by simp
  with r1 r2 r3 show ?thesis by (simp add: all_cores_build_def)
qed

theorem StaticPolicy_tables:
  assumes "wf_topology t" and "choice_ok t (static_choice t) choice"
  shows "\<exists>rt. StaticPolicy_build t = Inr rt \<and> policy_tables t (\<lambda>_. True) choice rt"
  using all_cores_build_tables [OF assms]
  by (simp add: StaticPolicy_build_def all_cores_build_def)

theorem DefaultPolicy_tables:
  assumes wf: "wf_topology t" and c0: "t_cores t = (core, sw) # rest"
  shows "\<exists>rt. DefaultPolicy_build t = Inr rt \<and> policy_tables t (\<lambda>c. c = core) (\<lambda>_. core) rt"
proof -
  have sw: "sw \<in> set (dvals (t_cores t))" and ck: "core \<in> set (dkeys (t_cores t))"
    and get: "dget (t_cores t) core = Inr sw" and nth: "py_nth (dkeys (t_cores t)) 0 = Inr core"
    using c0 by (simp_all add: dget_def)
  have nm: "c_name sw = core" using wf_core [OF wf] c0 by simp
  have d1: "core_down t [] core (c_dpid sw) = Inr [(c_dpid sw, core_dst t core)]"
    using core_down_ok [OF wf ck] by simp
  have "choice_ok t (\<lambda>_. Inr (Some core)) (\<lambda>_. core)"
    using ck by (simp add: choice_ok_def)
  then obtain r2 where r2: "rfold (edge_up t (\<lambda>_. Inr (Some core))) [(c_dpid sw, core_dst t core)] (dvals (t_edges t)) = Inr r2"
    and m2: "\<And>k. map_of r2 k = (case find (\<lambda>e. e_dpid e = k) (dvals (t_edges t)) of
       Some e \<Rightarrow> Some (edge_dst t (\<lambda>_. core) e) | None \<Rightarrow> map_of [(c_dpid sw, core_dst t core)] k)"
    using edges_up [OF wf] by blast
  obtain r3 where r3: "add_arpflood r2 t = Inr r3"
    and c3: "\<And>c. c \<in> set (dvals (t_cores t)) \<Longrightarrow> map_of r3 (c_dpid c) = Some (core_tail t (map_of r2 (c_dpid c)))"
    and e3: "\<And>e. e \<in> set (dvals (t_edges t)) \<Longrightarrow>
       map_of r3 (e_dpid e) = Some (olist (map_of r2 (e_dpid e)) @ edge_tail t e)"
    using add_arpflood_tables [OF wf] by blast
  have inj: "c_name c = core \<longleftrightarrow> c_dpid c = c_dpid sw" if "c \<in> set (dvals (t_cores t))" for c
  proof
    assume eq: "c_name c = core"
    from that obtain k where k: "(k, c) \<in> set (t_cores t)" by auto
    then have "map_of (t_cores t) k = Some c" using wf_names(1) [OF wf] by simp
    then show "c_dpid c = c_dpid sw" using wf_core [OF wf k] eq get by (simp add: dget_Inr_iff)
  next
    assume eq: "c_dpid c = c_dpid sw"
    have "Some c = Some sw"
      by (rule trans [OF sym [OF find_dpid(1) [OF wf that, unfolded eq]] find_dpid(1) [OF wf sw]])
    then show "c_name c = core" using nm by simp
  qed
  have "map_of r3 (c_dpid c) = Some (core_tail t (if c_name c = core then Some (core_dst t (c_name c)) else None))"
    if "c \<in> set (dvals (t_cores t))" for c
  proof -
    have "map_of r2 (c_dpid c) = (if c_dpid c = c_dpid sw then Some (core_dst t core) else None)"
      unfolding m2 find_dpid(3) [OF wf that] by simp
    then show ?thesis
      unfolding c3 [OF that] using inj [OF that] by (cases "c_name c = core") simp_all
  qed
  moreover have "map_of r3 (e_dpid e) = Some (edge_dst t (\<lambda>_. core) e @ edge_tail t e)"
    if "e \<in> set (dvals (t_edges t))" for e
    using find_dpid(2) [OF wf that] by (simp add: e3 [OF that] m2)
  ultimately have "policy_tables t (\<lambda>c. c = core) (\<lambda>_. core) r3"
    unfolding policy_tables_def by blast
  with get nth d1 r2 r3 show ?thesis by (simp add: DefaultPolicy_build_def)
qed

end
