(* ===== verification/Stats.thy ===== *)
theory Stats
  imports PyStr
begin

text \<open>
  The dashboard's data providers, \<^verbatim>\<open>minidc/stats.py\<close>: the CSV buffer, the sliding windows of
  byte counters (\<^verbatim>\<open>BandwidthStatsProvider\<close>) and the page load times with their median and
  95th percentile (\<^verbatim>\<open>MemcachedStatsProvider\<close>). The threads that write the files every two
  seconds call the operations below under a lock, one at a time. A floating point number
  that is only stored or printed is a parameter of the model (\<open>'f\<close>, with the division and
  rounding, or the conversion to text, as an argument); load times are any linear order.
\<close>

section \<open>Constants\<close>

definition AVG_TRIALS :: nat where "AVG_TRIALS = 20"
definition JSON_MAX :: nat where "JSON_MAX = 30"
definition PTILE :: nat where "PTILE = 95"

section \<open>CsvProvider\<close>

datatype 'f cell = CStr string | CInt int | CFloat 'f

fun cell_str :: "('f \<Rightarrow> string) \<Rightarrow> 'f cell \<Rightarrow> string" where
  "cell_str fl (CStr s) = s"
| "cell_str fl (CInt i) = str_of_int i"
| "cell_str fl (CFloat x) = fl x"

type_synonym 'f csv = "'f cell list list"

definition csv_add :: "'f csv \<Rightarrow> 'f cell list \<Rightarrow> 'f csv" where
  "csv_add tuples tup = tuples @ [tup]"

definition csv_clear :: "'f csv \<Rightarrow> 'f csv" where
  "csv_clear tuples = []"

definition toCsv :: "('f \<Rightarrow> string) \<Rightarrow> 'f csv \<Rightarrow> string" where
  "toCsv fl tuples = concat (map (\<lambda>t. py_join '','' (map (cell_str fl) t) @ [char_of (10::nat)]) tuples)"

section \<open>BandwidthStatsProvider\<close>

record bw =
  bw_in :: int
  bw_out :: int

definition bw_zero :: bw where
  "bw_zero = \<lparr>bw_in = 0, bw_out = 0\<rparr>"

record bwprov =
  p_totals :: "(string, bw list) dict"
  p_slices :: "(string, bw list) dict"

definition bwprov_init :: bwprov where
  "bwprov_init = \<lparr>p_totals = [], p_slices = []\<rparr>"

definition py_last :: "'a list \<Rightarrow> 'a res" where
  "py_last xs = (if xs = [] then Inl IndexErr else Inr (last xs))"

text \<open>
  The window of one host after a new pair of counters: the difference to the last pair is
  appended to the slices, the pair to the totals, and both are cut to the last \<open>JSON_MAX\<close>.
\<close>

definition bw_push :: "bw list \<times> bw list \<Rightarrow> int \<Rightarrow> int \<Rightarrow> (bw list \<times> bw list) res" where
  "bw_push w txbytes rxbytes =
     (case w of (totals, slices) \<Rightarrow>
      rbind (py_last totals) (\<lambda>lst.
      let rxslice = rxbytes - bw_in lst;
          txslice = txbytes - bw_out lst;
          slices' = slices @ [\<lparr>bw_in = rxslice, bw_out = txslice\<rparr>];
          totals' = totals @ [\<lparr>bw_in = rxbytes, bw_out = txbytes\<rparr>]
      in if length totals' > JSON_MAX
         then (let start = length totals' - JSON_MAX in Inr (drop start totals', drop start slices'))
         else Inr (totals', slices')))"

definition bw_add :: "bwprov \<Rightarrow> string \<Rightarrow> int \<Rightarrow> int \<Rightarrow> bwprov res" where
  "bw_add p hst txbytes rxbytes =
     (let p1 = (if hst \<notin> set (dkeys (p_totals p))
                then p\<lparr>p_totals := dput (p_totals p) hst [bw_zero], p_slices := dput (p_slices p) hst []\<rparr>
                else p) in
      rbind (dget (p_totals p1) hst) (\<lambda>totals.
      rbind (dget (p_slices p1) hst) (\<lambda>slices.
      rbind (bw_push (totals, slices) txbytes rxbytes) (\<lambda>w.
      Inr (p1\<lparr>p_totals := dput (p_totals p1) hst (fst w), p_slices := dput (p_slices p1) hst (snd w)\<rparr>)))))"

text \<open>
  \<^verbatim>\<open>computeShare\<close> on a provider with a CSV buffer; \<open>share a b\<close> is \<^verbatim>\<open>round(a / float(b), 3)\<close>.
\<close>

definition last_out :: "bwprov \<Rightarrow> string \<Rightarrow> int res" where
  "last_out p hst = rbind (dget (p_slices p) hst) (\<lambda>s. rbind (py_last s) (\<lambda>b. Inr (bw_out b)))"

definition computeShare :: "(int \<Rightarrow> int \<Rightarrow> 'f) \<Rightarrow> bwprov \<Rightarrow> 'f csv \<Rightarrow> 'f csv res" where
  "computeShare share p csv =
     (let csv1 = csv_add csv [CStr ''host'', CStr ''bwshare''] in
      rbind (rfold (\<lambda>tot hst. rbind (last_out p hst) (\<lambda>b. Inr (tot + b))) 0 (dkeys (p_slices p))) (\<lambda>totalbw.
      rfold (\<lambda>csv hst.
        if totalbw > 0
        then rbind (last_out p hst) (\<lambda>b. Inr (csv_add csv [CStr hst, CFloat (share b totalbw)]))
        else Inr csv) csv1 (dkeys (p_slices p))))"

text \<open>\<^verbatim>\<open>getJson\<close>: the list of results, each the name of a parameter and its values.\<close>

definition bw_getJson :: "bwprov \<Rightarrow> (string \<times> int list) list res" where
  "bw_getJson p =
     rbind (rmap (\<lambda>hst. rbind (dget (p_slices p) hst) (\<lambda>sl.
              Inr [(hst @ ''-in'', map bw_in sl), (hst @ ''-out'', map bw_out sl)]))
            (dkeys (p_totals p))) (\<lambda>rs. Inr (concat rs))"

text \<open>
  One round of \<^verbatim>\<open>BandwidthStatsProvider.update\<close>: the JSON document, the text of the CSV file
  and the emptied buffer.
\<close>

definition bw_update_round :: "(int \<Rightarrow> int \<Rightarrow> 'f) \<Rightarrow> ('f \<Rightarrow> string) \<Rightarrow> bwprov \<Rightarrow> 'f csv
    \<Rightarrow> ((string \<times> int list) list \<times> string \<times> 'f csv) res" where
  "bw_update_round share fl p csv =
     rbind (bw_getJson p) (\<lambda>j.
     rbind (computeShare share p csv) (\<lambda>csv1.
     Inr (j, toCsv fl csv1, csv_clear csv1)))"

section \<open>MemcachedStatsProvider\<close>

record 't mcprov =
  m_vals :: "(string, 't list) dict"
  m_avgs :: "(string, 't list) dict"
  m_ptile :: "(string, 't list) dict"

definition mcprov_init :: "'t mcprov" where
  "mcprov_init = \<lparr>m_vals = [], m_avgs = [], m_ptile = []\<rparr>"

definition mc_add :: "'t mcprov \<Rightarrow> string \<Rightarrow> 't \<Rightarrow> 't mcprov res" where
  "mc_add m hst time =
     (let m1 = (if hst \<notin> set (dkeys (m_vals m)) then m\<lparr>m_vals := dput (m_vals m) hst []\<rparr> else m) in
      rbind (dget (m_vals m1) hst) (\<lambda>vs. Inr (m1\<lparr>m_vals := dput (m_vals m1) hst (vs @ [time])\<rparr>)))"

text \<open>
  \<^verbatim>\<open>int((PTILE / 100.0) * n) - 1\<close> and \<^verbatim>\<open>int(n / 2) - 1\<close> for the block length \<open>n = 20\<close>,
  where the floating point product is exact.
\<close>

definition ptileIndex :: "nat \<Rightarrow> nat" where
  "ptileIndex n = PTILE * n div 100 - 1"

definition medianIndex :: "nat \<Rightarrow> nat" where
  "medianIndex n = n div 2 - 1"

text \<open>The \<^verbatim>\<open>while\<close> loop of \<^verbatim>\<open>avg\<close> on the values, medians and percentiles of one host.\<close>

function mc_consume :: "('t::linorder) list \<Rightarrow> 't list \<Rightarrow> 't list \<Rightarrow> 't list \<times> 't list \<times> 't list" where
  "mc_consume vals avgs ptile =
     (if length vals \<ge> AVG_TRIALS then
        (let consumed = sort (take AVG_TRIALS vals) in
         mc_consume (drop AVG_TRIALS vals)
           (avgs @ [consumed ! medianIndex (length consumed)])
           (ptile @ [consumed ! ptileIndex (length consumed)]))
      else (vals, avgs, ptile))"
  by pat_completeness auto
termination
  by (relation "measure (\<lambda>(v, _, _). length v)") (auto simp: AVG_TRIALS_def)

declare mc_consume.simps [simp del]

definition truncate_window :: "'a list \<Rightarrow> nat \<Rightarrow> 'a list" where
  "truncate_window xs n = (if n > JSON_MAX then drop (n - JSON_MAX) xs else xs)"

definition mc_avg_host :: "('t::linorder) mcprov \<Rightarrow> string \<Rightarrow> 't mcprov res" where
  "mc_avg_host m hst =
     (let m1 = (if hst \<notin> set (dkeys (m_avgs m))
                then m\<lparr>m_avgs := dput (m_avgs m) hst [], m_ptile := dput (m_ptile m) hst []\<rparr> else m) in
      rbind (dget (m_vals m1) hst) (\<lambda>vals.
      rbind (dget (m_avgs m1) hst) (\<lambda>avgs.
      rbind (dget (m_ptile m1) hst) (\<lambda>pts.
      case mc_consume vals avgs pts of (vals', avgs', pts') \<Rightarrow>
        Inr (m1\<lparr>m_vals := dput (m_vals m1) hst vals',
               m_avgs := dput (m_avgs m1) hst (truncate_window avgs' (length avgs')),
               m_ptile := dput (m_ptile m1) hst (truncate_window pts' (length avgs'))\<rparr>)))))"

definition mc_avg :: "('t::linorder) mcprov \<Rightarrow> 't mcprov res" where
  "mc_avg m = rfold mc_avg_host m (dkeys (m_vals m))"

definition mc_getJson :: "('t::linorder) mcprov \<Rightarrow> ((string \<times> 't list) list \<times> 't mcprov) res" where
  "mc_getJson m =
     rbind (mc_avg m) (\<lambda>m'.
     Inr (map (\<lambda>(h, v). (h @ ''-median'', v)) (m_avgs m')
          @ map (\<lambda>(h, v). (h @ ''-95tile'', v)) (m_ptile m'), m'))"

section \<open>The windows of byte counters\<close>

text \<open>
  A window holds one more total than slices, at most \<open>JSON_MAX\<close> totals, and each slice is
  the difference of two successive totals.
\<close>

definition diffs :: "bw list \<Rightarrow> bw list" where
  "diffs ts = map (\<lambda>(a, b). \<lparr>bw_in = bw_in b - bw_in a, bw_out = bw_out b - bw_out a\<rparr>) (zip ts (tl ts))"

definition bw_window :: "bw list \<times> bw list \<Rightarrow> bool" where
  "bw_window w \<longleftrightarrow> fst w \<noteq> [] \<and> length (fst w) \<le> JSON_MAX \<and> snd w = diffs (fst w)"

lemma diffs_simps [simp]:
  "diffs [] = []" "diffs [t] = []"
  "diffs (t # u # ts) = \<lparr>bw_in = bw_in u - bw_in t, bw_out = bw_out u - bw_out t\<rparr> # diffs (u # ts)"
  by (simp_all add: diffs_def)

lemma length_diffs: "length (diffs ts) = length ts - 1"
  by (simp add: diffs_def)

lemma diffs_snoc:
  "ts \<noteq> [] \<Longrightarrow> diffs (ts @ [b]) = diffs ts @ [\<lparr>bw_in = bw_in b - bw_in (last ts), bw_out = bw_out b - bw_out (last ts)\<rparr>]"
proof (induction ts)
  case (Cons t ts)
  then show ?case by (cases ts) auto
qed simp

lemma diffs_drop: "n < length ts \<Longrightarrow> diffs (drop n ts) = drop n (diffs ts)"
proof (induction n arbitrary: ts)
  case (Suc n)
  then obtain t ts' where 1: "ts = t # ts'" by (cases ts) auto
  with Suc.prems obtain u us where "ts' = u # us" by (cases ts') auto
  with 1 Suc show ?case by simp
qed simp

lemma sum_diffs:
  "ts \<noteq> [] \<Longrightarrow> sum_list (map bw_in (diffs ts)) = bw_in (last ts) - bw_in (hd ts) \<and>
               sum_list (map bw_out (diffs ts)) = bw_out (last ts) - bw_out (hd ts)"
proof (induction ts)
  case (Cons t ts)
  then show ?case by (cases ts) auto
qed simp

lemma bw_push_window:
  assumes "bw_window w"
  shows "\<exists>w'. bw_push w tx rx = Inr w' \<and> bw_window w' \<and> last (fst w') = \<lparr>bw_in = rx, bw_out = tx\<rparr>
     \<and> snd w' \<noteq> [] \<and> last (snd w') = \<lparr>bw_in = rx - bw_in (last (fst w)), bw_out = tx - bw_out (last (fst w))\<rparr>"
proof -
  obtain ts sl where w: "w = (ts, sl)" by (cases w)
  with assms have ne: "ts \<noteq> []" and le: "length ts \<le> JSON_MAX" and sl: "sl = diffs ts"
    by (auto simp: bw_window_def)
  define ts' where "ts' = ts @ [\<lparr>bw_in = rx, bw_out = tx\<rparr>]"
  have d: "diffs ts' = diffs ts @ [\<lparr>bw_in = rx - bw_in (last ts), bw_out = tx - bw_out (last ts)\<rparr>]"
    by (simp add: ts'_def diffs_snoc ne)
  have l: "length ts' = Suc (length ts)" "1 < JSON_MAX"
    by (simp_all add: ts'_def JSON_MAX_def)
  have ls: "length (diffs ts) = length ts - 1" by (rule length_diffs)
  show ?thesis
  proof (cases "length ts' > JSON_MAX")
    case True
    with le l have start: "length ts' - JSON_MAX = 1" by simp
    have "bw_push w tx rx = Inr (drop 1 ts', drop 1 (diffs ts'))"
      using True start d by (simp add: bw_push_def w py_last_def ne sl ts'_def Let_def)
    moreover have "diffs (drop 1 ts') = drop 1 (diffs ts')"
      using l ne by (intro diffs_drop) simp
    moreover have "drop 1 (diffs ts') = drop 1 (diffs ts) @ [last (diffs ts')]"
      using True l ls le by (simp add: d)
    moreover have "last (diffs ts') = \<lparr>bw_in = rx - bw_in (last ts), bw_out = tx - bw_out (last ts)\<rparr>"
      by (simp add: d)
    ultimately show ?thesis
      using True l le ne start by (simp add: bw_window_def w ts'_def)
  next
    case False
    then have "bw_push w tx rx = Inr (ts', diffs ts')"
      using d by (simp add: bw_push_def w py_last_def ne sl ts'_def Let_def)
    moreover have "ts' \<noteq> []" "last ts' = \<lparr>bw_in = rx, bw_out = tx\<rparr>" by (simp_all add: ts'_def)
    ultimately show ?thesis using False by (simp add: bw_window_def w d)
  qed
qed

definition bwprov_inv :: "bwprov \<Rightarrow> bool" where
  "bwprov_inv p \<longleftrightarrow> dkeys (p_slices p) = dkeys (p_totals p) \<and> distinct (dkeys (p_totals p)) \<and>
     (\<forall>h \<in> set (dkeys (p_totals p)).
        bw_window (the (map_of (p_totals p) h), the (map_of (p_slices p) h)) \<and>
        the (map_of (p_slices p) h) \<noteq> [])"

definition latest :: "bwprov \<Rightarrow> string \<Rightarrow> bw" where
  "latest p h = (case map_of (p_totals p) h of None \<Rightarrow> bw_zero | Some ts \<Rightarrow> last ts)"

lemma bwprov_inv_init: "bwprov_inv bwprov_init"
  by (simp add: bwprov_inv_def bwprov_init_def)

lemma dkeys_dput_eq:
  "dkeys d = dkeys e \<Longrightarrow> dkeys (dput d k v) = dkeys (dput e k w)"
proof (induction d arbitrary: e)
  case Nil
  then show ?case by simp
next
  case (Cons p d)
  then obtain q e' where "e = q # e'" by (cases e) auto
  with Cons show ?case by (cases p; cases q) auto
qed

lemma dget_Inr_map: "map_of d k = Some v \<Longrightarrow> dget d k = Inr v"
  by (simp add: dget_def)

text \<open>The two halves of \<^verbatim>\<open>add\<close>: a host that is new gets its lists, then the lists of the host are replaced.\<close>

definition bw_enter :: "bwprov \<Rightarrow> string \<Rightarrow> bwprov" where
  "bw_enter p h = (if h \<notin> set (dkeys (p_totals p))
      then p\<lparr>p_totals := dput (p_totals p) h [bw_zero], p_slices := dput (p_slices p) h []\<rparr> else p)"

definition bw_store :: "bwprov \<Rightarrow> string \<Rightarrow> bw list \<times> bw list \<Rightarrow> bwprov" where
  "bw_store p h w = p\<lparr>p_totals := dput (p_totals p) h (fst w), p_slices := dput (p_slices p) h (snd w)\<rparr>"

definition bw_same :: "bwprov \<Rightarrow> bwprov \<Rightarrow> string \<Rightarrow> bool" where
  "bw_same p q g \<longleftrightarrow> map_of (p_totals q) g = map_of (p_totals p) g \<and> map_of (p_slices q) g = map_of (p_slices p) g"

lemma bw_enter_window:
  assumes inv: "bwprov_inv p"
  obtains ts sl where "map_of (p_totals (bw_enter p h)) h = Some ts" "map_of (p_slices (bw_enter p h)) h = Some sl"
    "bw_window (ts, sl)" "last ts = latest p h"
proof (cases "h \<in> set (dkeys (p_totals p))")
  case True
  then obtain ts where ts: "map_of (p_totals p) h = Some ts" by (rule key_lookup)
  have keys: "dkeys (p_slices p) = dkeys (p_totals p)" using inv by (simp add: bwprov_inv_def)
  then obtain sl where "map_of (p_slices p) h = Some sl" using True by (metis key_lookup)
  moreover have "bw_window (the (map_of (p_totals p) h), the (map_of (p_slices p) h))"
    using inv True unfolding bwprov_inv_def by blast
  ultimately show thesis using that True ts by (simp add: bw_enter_def latest_def)
next
  case False
  then have "map_of (p_totals p) h = None" by (rule key_lookup_None)
  with False show thesis
    by (intro that [of "[bw_zero]" "[]"]) (auto simp: bw_enter_def bw_window_def latest_def JSON_MAX_def)
qed

lemma bw_same_stored: "g \<noteq> h \<Longrightarrow> bw_same p (bw_store (bw_enter p h) h w) g"
  by (simp add: bw_same_def bw_store_def bw_enter_def)

lemma bw_store_inv:
  assumes inv: "bwprov_inv p" and w: "bw_window w" "snd w \<noteq> []"
  shows "bwprov_inv (bw_store (bw_enter p h) h w)"
  unfolding bwprov_inv_def
proof (intro conjI ballI)
  let ?q = "bw_store (bw_enter p h) h w"
  have k: "dkeys (p_slices (bw_enter p h)) = dkeys (p_totals (bw_enter p h))" "distinct (dkeys (p_totals (bw_enter p h)))"
    using inv by (auto simp: bw_enter_def bwprov_inv_def intro: dkeys_dput_eq)
  show "dkeys (p_slices ?q) = dkeys (p_totals ?q)" using k(1) by (auto simp: bw_store_def intro: dkeys_dput_eq)
  show "distinct (dkeys (p_totals ?q))" using k(2) by (simp add: bw_store_def)
  fix g assume g: "g \<in> set (dkeys (p_totals ?q))"
  have "bw_window (the (map_of (p_totals ?q) g), the (map_of (p_slices ?q) g)) \<and> the (map_of (p_slices ?q) g) \<noteq> []"
  proof (cases "g = h")
    case True
    with w show ?thesis by (simp add: bw_store_def)
  next
    case False
    then have "g \<in> set (dkeys (p_totals p))" using g by (auto simp: bw_store_def bw_enter_def split: if_splits)
    with inv have "bw_window (the (map_of (p_totals p) g), the (map_of (p_slices p) g)) \<and> the (map_of (p_slices p) g) \<noteq> []"
      unfolding bwprov_inv_def by blast
    with bw_same_stored [OF False, of p w] show ?thesis by (simp add: bw_same_def)
  qed
  then show "bw_window (the (map_of (p_totals ?q) g), the (map_of (p_slices ?q) g))" "the (map_of (p_slices ?q) g) \<noteq> []"
    by blast+
qed

theorem bw_add_ok:
  assumes inv: "bwprov_inv p"
  shows "\<exists>p'. bw_add p h tx rx = Inr p' \<and> bwprov_inv p' \<and> latest p' h = \<lparr>bw_in = rx, bw_out = tx\<rparr>
    \<and> (\<forall>g. g \<noteq> h \<longrightarrow> map_of (p_totals p') g = map_of (p_totals p) g \<and> map_of (p_slices p') g = map_of (p_slices p) g)
    \<and> last (the (map_of (p_slices p') h)) = \<lparr>bw_in = rx - bw_in (latest p h), bw_out = tx - bw_out (latest p h)\<rparr>"
proof -
  obtain ts sl where ts: "map_of (p_totals (bw_enter p h)) h = Some ts" "map_of (p_slices (bw_enter p h)) h = Some sl"
    and w: "bw_window (ts, sl)" and lst: "last ts = latest p h" by (rule bw_enter_window [OF inv])
  obtain w' where w': "bw_push (ts, sl) tx rx = Inr w'" "bw_window w'"
    "last (fst w') = \<lparr>bw_in = rx, bw_out = tx\<rparr>" "snd w' \<noteq> []"
    "last (snd w') = \<lparr>bw_in = rx - bw_in (last ts), bw_out = tx - bw_out (last ts)\<rparr>"
    using bw_push_window [OF w, of tx rx] unfolding fst_conv by blast
  let ?p = "bw_store (bw_enter p h) h w'"
  have "bw_add p h tx rx = Inr ?p"
    unfolding bw_add_def bw_enter_def [symmetric] Let_def
    using w'(1) by (simp add: dget_Inr_map [OF ts(1)] dget_Inr_map [OF ts(2)] bw_store_def)
  moreover have "latest ?p h = \<lparr>bw_in = rx, bw_out = tx\<rparr>" using w'(3) by (simp add: latest_def bw_store_def)
  moreover have "last (the (map_of (p_slices ?p) h)) = \<lparr>bw_in = rx - bw_in (latest p h), bw_out = tx - bw_out (latest p h)\<rparr>"
    using w'(5) lst by (simp add: bw_store_def)
  ultimately show ?thesis
    using bw_store_inv [OF inv w'(2,4)] bw_same_stored [of _ h p w'] unfolding bw_same_def by blast
qed

section \<open>Shares and documents\<close>

definition cur_out :: "bwprov \<Rightarrow> string \<Rightarrow> int" where
  "cur_out p h = bw_out (last (the (map_of (p_slices p) h)))"

lemma last_out_ok:
  assumes "bwprov_inv p" and "h \<in> set (dkeys (p_totals p))"
  shows "last_out p h = Inr (cur_out p h)"
proof -
  from assms have "dkeys (p_slices p) = dkeys (p_totals p)" and ne: "the (map_of (p_slices p) h) \<noteq> []"
    unfolding bwprov_inv_def by blast+
  with assms(2) obtain sl where "map_of (p_slices p) h = Some sl" by (metis key_lookup)
  with ne show ?thesis
    by (simp add: last_out_def dget_Inr_map py_last_def cur_out_def)
qed

lemma rfold_sum:
  "(\<And>x. x \<in> set xs \<Longrightarrow> f x = Inr (g x)) \<Longrightarrow>
     rfold (\<lambda>tot x. rbind (f x) (\<lambda>b. Inr (tot + b))) a xs = Inr (a + sum_list (map g xs))"
  for g :: "'a \<Rightarrow> int"
  by (induction xs arbitrary: a) (auto simp: add.assoc)

theorem computeShare_ok:
  assumes inv: "bwprov_inv p"
  shows "computeShare share p csv = Inr (csv @ [[CStr ''host'', CStr ''bwshare'']] @
     (let T = sum_list (map (cur_out p) (dkeys (p_totals p))) in
      if T > 0 then map (\<lambda>h. [CStr h, CFloat (share (cur_out p h) T)]) (dkeys (p_totals p)) else []))"
proof -
  let ?ks = "dkeys (p_totals p)"
  have ks: "dkeys (p_slices p) = ?ks" using inv by (simp add: bwprov_inv_def)
  define T where "T = sum_list (map (cur_out p) ?ks)"
  have "rfold (\<lambda>tot h. rbind (last_out p h) (\<lambda>b. Inr (tot + b))) 0 ?ks = Inr (0 + T)"
    unfolding T_def by (rule rfold_sum) (rule last_out_ok [OF inv])
  moreover have "rfold (\<lambda>csv hst. if T > 0
        then rbind (last_out p hst) (\<lambda>b. Inr (csv_add csv [CStr hst, CFloat (share b T)]))
        else Inr csv) c hs
      = Inr (c @ (if T > 0 then map (\<lambda>h. [CStr h, CFloat (share (cur_out p h) T)]) hs else []))"
    if "set hs \<subseteq> set ?ks" for c hs
    using that by (induction hs arbitrary: c) (auto simp: last_out_ok [OF inv] csv_add_def)
  ultimately show ?thesis
    unfolding computeShare_def ks Let_def T_def [symmetric] by (simp add: csv_add_def)
qed

section \<open>Medians and percentiles\<close>

text \<open>The block results that \<^verbatim>\<open>avg\<close> appends: entry \<open>i\<close> of the sorted blocks of twenty values.\<close>

definition block_stat :: "nat \<Rightarrow> ('t::linorder) list \<Rightarrow> 't list" where
  "block_stat i vals =
     map (\<lambda>k. sort (take AVG_TRIALS (drop (AVG_TRIALS * k) vals)) ! i) [0..<length vals div AVG_TRIALS]"

lemma block_stat_step:
  assumes "length vals \<ge> AVG_TRIALS"
  shows "block_stat i vals = sort (take AVG_TRIALS vals) ! i # block_stat i (drop AVG_TRIALS vals)"
proof -
  have l: "length vals div AVG_TRIALS = Suc (length (drop AVG_TRIALS vals) div AVG_TRIALS)"
    using assms by (simp add: AVG_TRIALS_def le_div_geq)
  show ?thesis
    unfolding block_stat_def l upt_conv_Cons [OF zero_less_Suc] map_Suc_upt [symmetric] list.map map_map comp_def
    by (simp add: add.commute)
qed

lemma mc_consume_eq:
  "mc_consume vals avgs pts =
     (drop (AVG_TRIALS * (length vals div AVG_TRIALS)) vals, avgs @ block_stat 9 vals, pts @ block_stat 18 vals)"
proof (induction vals avgs pts rule: mc_consume.induct)
  case (1 vals avgs pts)
  show ?case
  proof (cases "length vals \<ge> AVG_TRIALS")
    case True
    have i: "medianIndex (length (sort (take AVG_TRIALS vals))) = 9"
      "ptileIndex (length (sort (take AVG_TRIALS vals))) = 18"
      using True by (simp_all add: medianIndex_def ptileIndex_def PTILE_def AVG_TRIALS_def)
    have d: "AVG_TRIALS * (length vals div AVG_TRIALS)
        = AVG_TRIALS * (length (drop AVG_TRIALS vals) div AVG_TRIALS) + AVG_TRIALS"
      using True by (simp add: AVG_TRIALS_def le_div_geq)
    show ?thesis
      using True "1.IH" [OF True refl, unfolded i]
      by (subst mc_consume.simps) (simp add: Let_def i [unfolded length_sort] block_stat_step d del: length_take)
  next
    case False
    then show ?thesis
      by (subst mc_consume.simps) (simp add: block_stat_def)
  qed
qed

lemma length_block_stat [simp]: "length (block_stat i vals) = length vals div AVG_TRIALS"
  by (simp add: block_stat_def)

text \<open>Entry \<open>i\<close> of the sorted list bounds at least \<open>i + 1\<close> of the values.\<close>

lemma sorted_nth_rank:
  assumes "i < length xs"
  shows "Suc i \<le> length (filter (\<lambda>x. x \<le> sort xs ! i) xs)"
proof -
  let ?P = "\<lambda>x. x \<le> sort xs ! i"
  have "?P x" if x: "x \<in> set (take (Suc i) (sort xs))" for x
  proof -
    from x obtain k where k: "k < Suc i" "x = sort xs ! k" by (auto simp: in_set_conv_nth)
    then have "k \<le> i" by simp
    then have "sort xs ! k \<le> sort xs ! i"
      by (rule sorted_nth_mono [OF sorted_sort]) (simp add: assms)
    with k show ?thesis by simp
  qed
  then have "filter ?P (take (Suc i) (sort xs)) = take (Suc i) (sort xs)"
    by (simp add: filter_id_conv)
  then have "Suc i \<le> length (filter ?P (take (Suc i) (sort xs) @ drop (Suc i) (sort xs)))"
    using assms by (simp del: append_take_drop_id)
  also have "\<dots> = size (mset (filter ?P (sort xs)))"
    by (simp only: append_take_drop_id size_mset)
  also have "mset (filter ?P (sort xs)) = mset (filter ?P xs)"
    by (simp only: mset_filter mset_sort)
  finally show ?thesis by (simp only: size_mset)
qed

lemma block_stat_le: "list_all2 (\<le>) (block_stat 9 vals) (block_stat 18 vals)"
proof -
  have "sort (take AVG_TRIALS (drop (AVG_TRIALS * k) vals)) ! 9
      \<le> sort (take AVG_TRIALS (drop (AVG_TRIALS * k) vals)) ! 18"
    if "k < length vals div AVG_TRIALS" for k
  proof (rule sorted_nth_mono)
    have "Suc k \<le> length vals div AVG_TRIALS" using that by simp
    then have "Suc k * AVG_TRIALS \<le> length vals"
      by (simp add: AVG_TRIALS_def less_eq_div_iff_mult_less_eq)
    then show "18 < length (sort (take AVG_TRIALS (drop (AVG_TRIALS * k) vals)))"
      by (simp add: AVG_TRIALS_def)
  qed simp_all
  then show ?thesis by (simp add: block_stat_def list_all2_conv_all_nth)
qed

definition mc_inv :: "('t::linorder) mcprov \<Rightarrow> bool" where
  "mc_inv m \<longleftrightarrow> distinct (dkeys (m_vals m)) \<and> dkeys (m_ptile m) = dkeys (m_avgs m) \<and> distinct (dkeys (m_avgs m)) \<and>
     (\<forall>h \<in> set (dkeys (m_avgs m)).
        list_all2 (\<le>) (the (map_of (m_avgs m) h)) (the (map_of (m_ptile m) h)) \<and>
        length (the (map_of (m_avgs m) h)) \<le> JSON_MAX)"

definition window_of :: "(string, 'a list) dict \<Rightarrow> string \<Rightarrow> 'a list" where
  "window_of d h = (case map_of d h of None \<Rightarrow> [] | Some xs \<Rightarrow> xs)"

definition last_window :: "'a list \<Rightarrow> 'a list" where
  "last_window xs = drop (length xs - JSON_MAX) xs"

lemma truncate_window_eq: "length xs = n \<Longrightarrow> truncate_window xs n = last_window xs"
  by (auto simp: truncate_window_def last_window_def)

lemma length_last_window: "length (last_window xs) \<le> JSON_MAX"
  by (simp add: last_window_def)

text \<open>What \<open>avg\<close> does to one host, and that it leaves the other hosts alone.\<close>

definition mc_avg_spec :: "('t::linorder) mcprov \<Rightarrow> 't mcprov \<Rightarrow> string \<Rightarrow> bool" where
  "mc_avg_spec m m' h \<longleftrightarrow>
     (let vals = window_of (m_vals m) h in
      map_of (m_vals m') h = Some (drop (AVG_TRIALS * (length vals div AVG_TRIALS)) vals) \<and>
      map_of (m_avgs m') h = Some (last_window (window_of (m_avgs m) h @ block_stat 9 vals)) \<and>
      map_of (m_ptile m') h = Some (last_window (window_of (m_ptile m) h @ block_stat 18 vals)))"

definition mc_same :: "'t mcprov \<Rightarrow> 't mcprov \<Rightarrow> string \<Rightarrow> bool" where
  "mc_same m m' g \<longleftrightarrow> map_of (m_vals m') g = map_of (m_vals m) g \<and>
     map_of (m_avgs m') g = map_of (m_avgs m) g \<and> map_of (m_ptile m') g = map_of (m_ptile m) g"

lemma mc_inv_window:
  assumes "mc_inv m"
  shows "list_all2 (\<le>) (window_of (m_avgs m) h) (window_of (m_ptile m) h)"
proof (cases "h \<in> set (dkeys (m_avgs m))")
  case True
  with assms have l: "list_all2 (\<le>) (the (map_of (m_avgs m) h)) (the (map_of (m_ptile m) h))"
    and "h \<in> set (dkeys (m_ptile m))" unfolding mc_inv_def by auto
  then obtain p a where "map_of (m_ptile m) h = Some p" "map_of (m_avgs m) h = Some a"
    using True by (metis key_lookup)
  with l show ?thesis by (simp add: window_of_def)
next
  case False
  with assms have "h \<notin> set (dkeys (m_ptile m))" unfolding mc_inv_def by auto
  with False show ?thesis by (simp add: window_of_def key_lookup_None)
qed

definition mc_enter :: "'t mcprov \<Rightarrow> string \<Rightarrow> 't mcprov" where
  "mc_enter m h = (if h \<notin> set (dkeys (m_avgs m))
      then m\<lparr>m_avgs := dput (m_avgs m) h [], m_ptile := dput (m_ptile m) h []\<rparr> else m)"

definition mc_store :: "'t mcprov \<Rightarrow> string \<Rightarrow> 't list \<Rightarrow> 't list \<Rightarrow> 't list \<Rightarrow> 't mcprov" where
  "mc_store m h vs av pv = m\<lparr>m_vals := dput (m_vals m) h vs, m_avgs := dput (m_avgs m) h av, m_ptile := dput (m_ptile m) h pv\<rparr>"

lemma mc_enter_windows:
  assumes inv: "mc_inv m"
  shows "map_of (m_avgs (mc_enter m h)) h = Some (window_of (m_avgs m) h)"
    "map_of (m_ptile (mc_enter m h)) h = Some (window_of (m_ptile m) h)"
proof (atomize (full), cases "h \<in> set (dkeys (m_avgs m))")
  case True
  then obtain p a where "map_of (m_ptile m) h = Some p" "map_of (m_avgs m) h = Some a"
    using inv unfolding mc_inv_def by (metis key_lookup)
  with True show "map_of (m_avgs (mc_enter m h)) h = Some (window_of (m_avgs m) h) \<and>
      map_of (m_ptile (mc_enter m h)) h = Some (window_of (m_ptile m) h)"
    by (simp add: mc_enter_def window_of_def)
next
  case False
  then have "map_of (m_avgs m) h = None" "map_of (m_ptile m) h = None"
    using inv key_lookup_None unfolding mc_inv_def by metis+
  with False show "map_of (m_avgs (mc_enter m h)) h = Some (window_of (m_avgs m) h) \<and>
      map_of (m_ptile (mc_enter m h)) h = Some (window_of (m_ptile m) h)"
    by (simp add: mc_enter_def window_of_def)
qed

lemma mc_same_stored: "g \<noteq> h \<Longrightarrow> mc_same m (mc_store (mc_enter m h) h vs av pv) g"
  by (simp add: mc_same_def mc_store_def mc_enter_def)

lemma mc_store_inv:
  assumes inv: "mc_inv m" and h: "h \<in> set (dkeys (m_vals m))" and w: "list_all2 (\<le>) av pv" "length av \<le> JSON_MAX"
  shows "mc_inv (mc_store (mc_enter m h) h vs av pv)" and "dkeys (m_vals (mc_store (mc_enter m h) h vs av pv)) = dkeys (m_vals m)"
proof -
  let ?q = "mc_store (mc_enter m h) h vs av pv"
  have k: "dkeys (m_ptile (mc_enter m h)) = dkeys (m_avgs (mc_enter m h))" "distinct (dkeys (m_avgs (mc_enter m h)))"
    using inv by (auto simp: mc_enter_def mc_inv_def intro: dkeys_dput_eq)
  show vs: "dkeys (m_vals ?q) = dkeys (m_vals m)" using h by (simp add: mc_store_def mc_enter_def del: set_map)
  have "list_all2 (\<le>) (the (map_of (m_avgs ?q) g)) (the (map_of (m_ptile ?q) g)) \<and> length (the (map_of (m_avgs ?q) g)) \<le> JSON_MAX"
    if g: "g \<in> set (dkeys (m_avgs ?q))" for g
  proof (cases "g = h")
    case True
    with w show ?thesis by (simp add: mc_store_def)
  next
    case False
    with g have "g \<in> set (dkeys (m_avgs m))" by (auto simp: mc_store_def mc_enter_def split: if_splits)
    with inv have "list_all2 (\<le>) (the (map_of (m_avgs m) g)) (the (map_of (m_ptile m) g)) \<and>
      length (the (map_of (m_avgs m) g)) \<le> JSON_MAX" unfolding mc_inv_def by blast
    with mc_same_stored [OF False, of m vs av pv] show ?thesis by (simp add: mc_same_def)
  qed
  moreover have "dkeys (m_ptile ?q) = dkeys (m_avgs ?q)" using k by (auto simp: mc_store_def intro: dkeys_dput_eq)
  moreover have "distinct (dkeys (m_avgs ?q))" using k by (simp add: mc_store_def)
  moreover have "distinct (dkeys (m_vals ?q))" using inv vs by (simp add: mc_inv_def)
  ultimately show "mc_inv ?q" unfolding mc_inv_def by blast
qed

lemma mc_avg_host_ok:
  assumes inv: "mc_inv m" and h: "h \<in> set (dkeys (m_vals m))"
  shows "\<exists>m'. mc_avg_host m h = Inr m' \<and> mc_inv m' \<and> dkeys (m_vals m') = dkeys (m_vals m) \<and>
    mc_avg_spec m m' h \<and> (\<forall>g. g \<noteq> h \<longrightarrow> mc_same m m' g)"
proof -
  obtain vals where vals: "map_of (m_vals m) h = Some vals" using h by (rule key_lookup)
  define av where "av = window_of (m_avgs m) h @ block_stat 9 vals"
  define pv where "pv = window_of (m_ptile m) h @ block_stat 18 vals"
  have le: "list_all2 (\<le>) av pv"
    unfolding av_def pv_def by (intro list_all2_appendI mc_inv_window [OF inv] block_stat_le)
  then have len: "length pv = length av" by (simp add: list_all2_lengthD)
  let ?m = "mc_store (mc_enter m h) h (drop (AVG_TRIALS * (length vals div AVG_TRIALS)) vals) (last_window av) (last_window pv)"
  have v1: "m_vals (mc_enter m h) = m_vals m" by (simp add: mc_enter_def)
  have run: "mc_avg_host m h = Inr ?m"
    unfolding mc_avg_host_def mc_enter_def [symmetric] Let_def
    using dget_Inr_map [OF vals] dget_Inr_map [OF mc_enter_windows(1) [OF inv]] dget_Inr_map [OF mc_enter_windows(2) [OF inv]]
    by (simp add: v1 mc_consume_eq truncate_window_eq av_def [symmetric] pv_def [symmetric] len mc_store_def del: length_append)
  have "list_all2 (\<le>) (last_window av) (last_window pv)" unfolding last_window_def len using le by (rule list_all2_dropI)
  moreover have "mc_avg_spec m ?m h"
    by (simp add: mc_avg_spec_def mc_store_def window_of_def [of "m_vals m"] vals av_def pv_def)
  ultimately show ?thesis
    using run mc_store_inv [OF inv h _ length_last_window] mc_same_stored [of _ h m] by blast
qed

lemma mc_avg_fold:
  assumes "mc_inv m" and "distinct hs" and "set hs \<subseteq> set (dkeys (m_vals m))"
  shows "\<exists>m'. rfold mc_avg_host m hs = Inr m' \<and> mc_inv m' \<and> dkeys (m_vals m') = dkeys (m_vals m) \<and>
    (\<forall>h \<in> set hs. mc_avg_spec m m' h) \<and> (\<forall>g. g \<notin> set hs \<longrightarrow> mc_same m m' g)"
  using assms
proof (induction hs arbitrary: m)
  case Nil
  then show ?case by (simp add: mc_same_def)
next
  case (Cons h hs)
  then obtain m1 where 1: "mc_avg_host m h = Inr m1" "mc_inv m1" "dkeys (m_vals m1) = dkeys (m_vals m)"
    "mc_avg_spec m m1 h" "\<And>g. g \<noteq> h \<Longrightarrow> mc_same m m1 g"
    using mc_avg_host_ok [of m h] by auto
  from Cons.IH [OF 1(2)] Cons.prems 1(3) obtain m' where
    2: "rfold mc_avg_host m1 hs = Inr m'" "mc_inv m'" "dkeys (m_vals m') = dkeys (m_vals m1)"
    "\<And>g. g \<in> set hs \<Longrightarrow> mc_avg_spec m1 m' g" "\<And>g. g \<notin> set hs \<Longrightarrow> mc_same m1 m' g" by auto
  have "mc_avg_spec m m' g" if "g \<in> set (h # hs)" for g
  proof (cases "g = h")
    case True
    then have "mc_same m1 m' h" using Cons.prems(2) 2(5) by simp
    with 1(4) True show ?thesis by (simp add: mc_same_def mc_avg_spec_def)
  next
    case False
    then have "mc_avg_spec m1 m' g" "mc_same m m1 g" using that 2(4) 1(5) by auto
    then show ?thesis by (simp add: mc_same_def mc_avg_spec_def window_of_def)
  qed
  moreover have "mc_same m m' g" if "g \<notin> set (h # hs)" for g
    using that 1(5) [of g] 2(5) [of g] by (simp add: mc_same_def)
  ultimately show ?case using 1(1,3) 2(1,2,3) by simp
qed

theorem mc_avg_ok:
  assumes "mc_inv m"
  shows "\<exists>m'. mc_avg m = Inr m' \<and> mc_inv m' \<and> dkeys (m_vals m') = dkeys (m_vals m) \<and>
    (\<forall>h \<in> set (dkeys (m_vals m)). mc_avg_spec m m' h)"
proof -
  have "distinct (dkeys (m_vals m))" using assms by (simp add: mc_inv_def)
  from mc_avg_fold [OF assms this] show ?thesis by (auto simp: mc_avg_def)
qed

lemma mc_add_ok:
  assumes "mc_inv m"
  shows "\<exists>m'. mc_add m h x = Inr m' \<and> mc_inv m' \<and> window_of (m_vals m') h = window_of (m_vals m) h @ [x]
    \<and> m_avgs m' = m_avgs m \<and> m_ptile m' = m_ptile m
    \<and> (\<forall>g. g \<noteq> h \<longrightarrow> map_of (m_vals m') g = map_of (m_vals m) g)"
proof (cases "h \<in> set (dkeys (m_vals m))")
  case True
  then obtain vs where vs: "map_of (m_vals m) h = Some vs" by (rule key_lookup)
  with True assms show ?thesis
    by (simp add: mc_add_def dget_Inr_map [OF vs] window_of_def mc_inv_def)
next
  case False
  then have "map_of (m_vals m) h = None" by (rule key_lookup_None)
  with False assms show ?thesis
    by (simp add: mc_add_def dget_def window_of_def mc_inv_def)
qed

section \<open>Properties\<close>

definition totals_of :: "bwprov \<Rightarrow> string \<Rightarrow> bw list" where
  "totals_of p h = window_of (p_totals p) h"

definition slices_of :: "bwprov \<Rightarrow> string \<Rightarrow> bw list" where
  "slices_of p h = window_of (p_slices p) h"

lemma bwprov_inv_window:
  assumes inv: "bwprov_inv p" and h: "h \<in> set (dkeys (p_totals p))"
  shows "bw_window (totals_of p h, slices_of p h)"
proof -
  obtain ts where "map_of (p_totals p) h = Some ts" using h by (rule key_lookup)
  moreover have "h \<in> set (dkeys (p_slices p))" using inv h by (simp add: bwprov_inv_def del: set_map)
  then obtain sl where "map_of (p_slices p) h = Some sl" by (rule key_lookup)
  ultimately show ?thesis
    using inv h unfolding bwprov_inv_def totals_of_def slices_of_def window_of_def by fastforce
qed

lemma bw_add_key: "bw_add p h tx rx = Inr p' \<Longrightarrow> h \<in> set (dkeys (p_totals p'))"
  unfolding bw_add_def Let_def rbind_eq_Inr by (elim exE conjE) (simp only: sum.inject, hypsubst, simp)

definition one_report :: bwprov where
  "one_report = \<lparr>p_totals = [(''h1'', [bw_zero, \<lparr>bw_in = 7, bw_out = 9\<rparr>])],
                 p_slices = [(''h1'', [\<lparr>bw_in = 7, bw_out = 9\<rparr>])]\<rparr>"

lemma one_report_inv: "bwprov_inv one_report"
  by (simp add: one_report_def bwprov_inv_def bw_window_def JSON_MAX_def bw_zero_def)

text \<open>C21: reporting counters never fails and keeps the invariant of the sliding windows: the host's
  newest total is the report, at most \<^verbatim>\<open>JSON_MAX\<close> totals are kept, the slices are the successive
  differences of the totals, so they add up to the traffic of the window, and no other host's
  window changes.\<close>

theorem report_window:
  assumes "bwprov_inv p"
  shows "\<exists>p'. bw_add p h tx rx = Inr p' \<and> bwprov_inv p' \<and> last (totals_of p' h) = \<lparr>bw_in = rx, bw_out = tx\<rparr> \<and>
    length (totals_of p' h) \<le> JSON_MAX \<and> slices_of p' h = diffs (totals_of p' h) \<and>
    sum_list (map bw_in (slices_of p' h)) = rx - bw_in (hd (totals_of p' h)) \<and>
    sum_list (map bw_out (slices_of p' h)) = tx - bw_out (hd (totals_of p' h)) \<and>
    (\<forall>g. g \<noteq> h \<longrightarrow> totals_of p' g = totals_of p g \<and> slices_of p' g = slices_of p g)"
proof -
  obtain p' where p': "bw_add p h tx rx = Inr p'" "bwprov_inv p'" "latest p' h = \<lparr>bw_in = rx, bw_out = tx\<rparr>"
    "\<forall>g. g \<noteq> h \<longrightarrow> map_of (p_totals p') g = map_of (p_totals p) g \<and> map_of (p_slices p') g = map_of (p_slices p) g"
    using bw_add_ok [OF assms, of h tx rx] by blast
  have k: "h \<in> set (dkeys (p_totals p'))" using p'(1) by (rule bw_add_key)
  then obtain ts where ts: "map_of (p_totals p') h = Some ts" by (rule key_lookup)
  have w: "bw_window (totals_of p' h, slices_of p' h)" by (rule bwprov_inv_window [OF p'(2) k])
  have l: "last (totals_of p' h) = \<lparr>bw_in = rx, bw_out = tx\<rparr>"
    using p'(3) ts by (simp add: latest_def totals_of_def window_of_def)
  show ?thesis
    using p' w l sum_diffs [of "totals_of p' h"]
    by (intro exI [of _ p']) (simp add: bw_window_def totals_of_def slices_of_def window_of_def)
qed

theorem report_window_demo:
  "\<exists>p'. bw_add one_report ''h1'' 12 8 = Inr p' \<and> bwprov_inv p' \<and> last (totals_of p' ''h1'') = \<lparr>bw_in = 8, bw_out = 12\<rparr> \<and>
    length (totals_of p' ''h1'') \<le> JSON_MAX \<and> slices_of p' ''h1'' = diffs (totals_of p' ''h1'') \<and>
    sum_list (map bw_in (slices_of p' ''h1'')) = 8 - bw_in (hd (totals_of p' ''h1'')) \<and>
    sum_list (map bw_out (slices_of p' ''h1'')) = 12 - bw_out (hd (totals_of p' ''h1'')) \<and>
    (\<forall>g. g \<noteq> ''h1'' \<longrightarrow> totals_of p' g = totals_of one_report g \<and> slices_of p' g = slices_of one_report g)"
  by (rule report_window [OF one_report_inv])

text \<open>The shares of the outgoing traffic: after the header line, one line per host with its
  newest slice and the sum over all hosts, or none at all when that sum is not positive.\<close>

theorem shares:
  assumes "bwprov_inv p"
  shows "computeShare share p csv = Inr (csv @ [[CStr ''host'', CStr ''bwshare'']] @
     (let T = sum_list (map (\<lambda>h. bw_out (last (slices_of p h))) (dkeys (p_totals p))) in
      if T > 0 then map (\<lambda>h. [CStr h, CFloat (share (bw_out (last (slices_of p h))) T)]) (dkeys (p_totals p)) else []))"
proof -
  have e: "cur_out p h = bw_out (last (slices_of p h))" if "h \<in> set (dkeys (p_totals p))" for h
  proof -
    have "h \<in> set (dkeys (p_slices p))" using assms that by (simp add: bwprov_inv_def del: set_map)
    then obtain sl where "map_of (p_slices p) h = Some sl" by (rule key_lookup)
    then show ?thesis by (simp add: cur_out_def slices_of_def window_of_def)
  qed
  have m1: "map (cur_out p) (dkeys (p_totals p)) = map (\<lambda>h. bw_out (last (slices_of p h))) (dkeys (p_totals p))"
    by (rule map_cong [OF refl e])
  have m2: "map (\<lambda>h. [CStr h, CFloat (share (cur_out p h) T)]) (dkeys (p_totals p))
      = map (\<lambda>h. [CStr h, CFloat (share (bw_out (last (slices_of p h))) T)]) (dkeys (p_totals p))" for T
    by (rule map_cong [OF refl]) (simp only: e)
  show ?thesis unfolding computeShare_ok [OF assms] Let_def m1 m2 by (rule refl)
qed

theorem shares_demo:
  "computeShare (\<lambda>a b. 1000 * a div b) one_report [] = Inr ([] @ [[CStr ''host'', CStr ''bwshare'']] @
     (let T = sum_list (map (\<lambda>h. bw_out (last (slices_of one_report h))) (dkeys (p_totals one_report))) in
      if T > 0 then map (\<lambda>h. [CStr h, CFloat (1000 * bw_out (last (slices_of one_report h)) div T)]) (dkeys (p_totals one_report)) else []))"
  by (rule shares [OF one_report_inv, where share = "\<lambda>a b. 1000 * a div b"])

text \<open>The page load times not yet consumed, and the medians and percentiles of a host.\<close>

definition pending :: "('t::linorder) mcprov \<Rightarrow> string \<Rightarrow> 't list" where
  "pending m h = window_of (m_vals m) h"

text \<open>C22: \<^verbatim>\<open>avg\<close> never fails and its loop ends with fewer than \<^verbatim>\<open>AVG_TRIALS\<close> pending values per
  host; the consumed values give one median and one percentile per full block, in order, of which
  the last \<^verbatim>\<open>JSON_MAX\<close> are kept, and no median exceeds its percentile.\<close>

theorem page_load_stats:
  assumes "mc_inv m"
  shows "\<exists>m'. mc_avg m = Inr m' \<and> mc_inv m' \<and> (\<forall>h \<in> set (dkeys (m_vals m)).
    length (pending m' h) < AVG_TRIALS \<and>
    pending m h = take (AVG_TRIALS * (length (pending m h) div AVG_TRIALS)) (pending m h) @ pending m' h \<and>
    window_of (m_avgs m') h = last_window (window_of (m_avgs m) h @ block_stat 9 (pending m h)) \<and>
    window_of (m_ptile m') h = last_window (window_of (m_ptile m) h @ block_stat 18 (pending m h)) \<and>
    list_all2 (\<le>) (window_of (m_avgs m') h) (window_of (m_ptile m') h))"
proof -
  obtain m' where m': "mc_avg m = Inr m'" "mc_inv m'" "\<forall>h \<in> set (dkeys (m_vals m)). mc_avg_spec m m' h"
    using mc_avg_ok [OF assms] by blast
  have "length (pending m' h) < AVG_TRIALS \<and>
    pending m h = take (AVG_TRIALS * (length (pending m h) div AVG_TRIALS)) (pending m h) @ pending m' h \<and>
    window_of (m_avgs m') h = last_window (window_of (m_avgs m) h @ block_stat 9 (pending m h)) \<and>
    window_of (m_ptile m') h = last_window (window_of (m_ptile m) h @ block_stat 18 (pending m h))"
    if "h \<in> set (dkeys (m_vals m))" for h
  proof -
    have s: "mc_avg_spec m m' h" using m'(3) that by blast
    then have p: "pending m' h = drop (AVG_TRIALS * (length (pending m h) div AVG_TRIALS)) (pending m h)"
      by (simp add: mc_avg_spec_def Let_def pending_def window_of_def [of "m_vals m'"])
    have "length (pending m h) - AVG_TRIALS * (length (pending m h) div AVG_TRIALS) < AVG_TRIALS"
      by (simp add: minus_mult_div_eq_mod AVG_TRIALS_def)
    with s p show ?thesis
      by (simp add: mc_avg_spec_def Let_def pending_def window_of_def [of "m_avgs m'"] window_of_def [of "m_ptile m'"])
  qed
  with m' mc_inv_window [OF m'(2)] show ?thesis by blast
qed

definition some_times :: "int mcprov" where
  "some_times = \<lparr>m_vals = [(''h1'', [20, 19, 18, 17, 16, 15, 14, 13, 12, 11, 10, 9, 8, 7, 6, 5, 4, 3, 2, 1, 30, 31])], m_avgs = [], m_ptile = []\<rparr>"

theorem page_load_stats_demo:
  "\<exists>m'. mc_avg some_times = Inr m' \<and> mc_inv m' \<and> pending m' ''h1'' = [30, 31] \<and>
    window_of (m_avgs m') ''h1'' = [10] \<and> window_of (m_ptile m') ''h1'' = [19]"
proof -
  have "mc_inv some_times" by (simp add: some_times_def mc_inv_def)
  from page_load_stats [OF this] obtain m' where m: "mc_avg some_times = Inr m'" "mc_inv m'"
    "pending some_times ''h1'' = take (AVG_TRIALS * (length (pending some_times ''h1'') div AVG_TRIALS)) (pending some_times ''h1'') @ pending m' ''h1''"
    "window_of (m_avgs m') ''h1'' = last_window (window_of (m_avgs some_times) ''h1'' @ block_stat 9 (pending some_times ''h1''))"
    "window_of (m_ptile m') ''h1'' = last_window (window_of (m_ptile some_times) ''h1'' @ block_stat 18 (pending some_times ''h1''))"
    by (auto simp: some_times_def)
  moreover have "take (AVG_TRIALS * (length (pending some_times ''h1'') div AVG_TRIALS)) (pending some_times ''h1'') =
      [20, 19, 18, 17, 16, 15, 14, 13, 12, 11, 10, 9, 8, 7, 6, 5, 4, 3, 2, 1]"
    "pending some_times ''h1'' = [20, 19, 18, 17, 16, 15, 14, 13, 12, 11, 10, 9, 8, 7, 6, 5, 4, 3, 2, 1, 30, 31]"
    "last_window (window_of (m_avgs some_times) ''h1'' @ block_stat 9 (pending some_times ''h1'')) = [10]"
    "last_window (window_of (m_ptile some_times) ''h1'' @ block_stat 18 (pending some_times ''h1'')) = [19]" by code_simp+
  ultimately show ?thesis by simp
qed

text \<open>Of a full block of twenty page load times, at least half are at most the reported median and
  at least 95 percent are at most the reported percentile.\<close>

theorem percentile_rank:
  assumes "length vals = AVG_TRIALS"
  shows "\<exists>md pt. mc_consume vals [] [] = ([], [md], [pt]) \<and> md \<in> set vals \<and> pt \<in> set vals \<and>
    AVG_TRIALS \<le> 2 * length (filter (\<lambda>x. x \<le> md) vals) \<and>
    PTILE * AVG_TRIALS \<le> 100 * length (filter (\<lambda>x. x \<le> pt) vals)"
proof -
  let ?s = "sort vals"
  have l: "length vals = 20" using assms by (simp add: AVG_TRIALS_def)
  have b: "block_stat i vals = [?s ! i]" for i
    by (simp add: block_stat_def l AVG_TRIALS_def)
  have "mc_consume vals [] [] = ([], [?s ! 9], [?s ! 18])"
    by (simp add: mc_consume_eq b l AVG_TRIALS_def)
  moreover have "?s ! 9 \<in> set ?s" "?s ! 18 \<in> set ?s" using l by (intro nth_mem; simp)+
  then have "?s ! 9 \<in> set vals" "?s ! 18 \<in> set vals" by simp_all
  ultimately show ?thesis
    using sorted_nth_rank [of 9 vals] sorted_nth_rank [of 18 vals] l
    by (intro exI [of _ "?s ! 9"] exI [of _ "?s ! 18"]) (simp add: AVG_TRIALS_def PTILE_def)
qed

theorem percentile_rank_demo:
  "\<exists>md pt. mc_consume (rev [0..<20]) [] [] = ([], [md], [pt]) \<and> md \<in> set (rev [0..<20]) \<and> pt \<in> set (rev [0..<20]) \<and>
    AVG_TRIALS \<le> 2 * length (filter (\<lambda>x. x \<le> md) (rev [0..<20])) \<and>
    PTILE * AVG_TRIALS \<le> 100 * length (filter (\<lambda>x. x \<le> pt) (rev [0..<20]))"
  by (rule percentile_rank) (simp add: AVG_TRIALS_def)

end
