(* ===== verification/BwStats.thy ===== *)
theory BwStats
  imports Topology Stats
begin

text \<open>
  \<^verbatim>\<open>minidc/controller/bwstats.py\<close>: bandwidth per host and per tenant (VLAN) and dropped
  packets per switch. The module-level providers \<^verbatim>\<open>minidc.stats.bwStats\<close>, \<^verbatim>\<open>tenantStats\<close> and
  \<^verbatim>\<open>drpPktStats\<close> it feeds are fields of the state; the file \<^verbatim>\<open>droppedpkts.csv\<close> is the list of the
  texts written to it. The locale \<open>byte_sink\<close> is what it relies on of a provider. The
  text of a byte count (\<^verbatim>\<open>conv_bytes\<close>, floating point) is an argument.
\<close>

section \<open>State\<close>

record bwstats =
  hostBw :: "(string, bw) dict"
  vlanBw :: "(int, bw) dict"
  swDroppedPkts :: "(string option, int) dict"
  dpCounter :: int
  prov_host :: bwprov
  prov_tenant :: bwprov
  drp_csv :: "unit csv"
  drp_file :: "string list"

definition bwstats_init :: "topology \<Rightarrow> bwstats" where
  "bwstats_init t =
     \<lparr>hostBw = foldl (\<lambda>d h. dput d h bw_zero) [] (dkeys (t_hosts t)),
      vlanBw = foldl (\<lambda>d v. dput d v bw_zero) [] (dkeys (t_vlans t)),
      swDroppedPkts = foldl (\<lambda>d s. dput d (Some s) 0) [] (t_switches t),
      dpCounter = 0,
      prov_host = bwprov_init, prov_tenant = bwprov_init, drp_csv = [], drp_file = []\<rparr>"

section \<open>Operations\<close>

definition addDroppedPktStat :: "bwstats \<Rightarrow> string option \<Rightarrow> int \<Rightarrow> bwstats" where
  "addDroppedPktStat b sw droppedPkts = b\<lparr>swDroppedPkts := dput (swDroppedPkts b) sw droppedPkts\<rparr>"

text \<open>The counters of the switch port are those of the host with the directions swapped.\<close>

definition addHostBwStat :: "bwstats \<Rightarrow> string \<Rightarrow> int \<Rightarrow> int \<Rightarrow> bwstats res" where
  "addHostBwStat b hst txbytes rxbytes =
     (let host_rx = txbytes; host_tx = rxbytes in
      rbind (dget (hostBw b) hst) (\<lambda>_.
      let b1 = b\<lparr>hostBw := dput (hostBw b) hst \<lparr>bw_in = host_rx, bw_out = host_tx\<rparr>\<rparr> in
      rbind (bw_add (prov_host b1) hst host_tx host_rx) (\<lambda>p.
      Inr (b1\<lparr>prov_host := p\<rparr>))))"

definition reset_vlans :: "(int, bw) dict \<Rightarrow> (int, bw) dict" where
  "reset_vlans vb = foldl (\<lambda>d v. dput d v bw_zero) vb (dkeys vb)"

definition bw_plus :: "bw \<Rightarrow> bw \<Rightarrow> bw" where
  "bw_plus a b = \<lparr>bw_in = bw_in a + bw_in b, bw_out = bw_out a + bw_out b\<rparr>"

definition add_to_vlan :: "bw \<Rightarrow> (int, bw) dict \<Rightarrow> int \<Rightarrow> (int, bw) dict res" where
  "add_to_vlan hb vb vlan = rbind (dget vb vlan) (\<lambda>b. Inr (dput vb vlan (bw_plus b hb)))"

definition tenant_sums :: "topology \<Rightarrow> (string, bw) dict \<Rightarrow> (int, bw) dict \<Rightarrow> (int, bw) dict res" where
  "tenant_sums t hb vb =
     rfold (\<lambda>vb hst.
       rbind (dget (t_hosts t) hst) (\<lambda>h.
       rbind (dget hb hst) (\<lambda>b.
       rfold (add_to_vlan b) vb (h_vlans h)))) vb (dkeys hb)"

definition vlan_label :: "int \<Rightarrow> string" where
  "vlan_label v = ''vlan'' @ str_of_int v"

definition report_tenants :: "(int, bw) dict \<Rightarrow> bwprov \<Rightarrow> bwprov res" where
  "report_tenants vb p =
     rfold (\<lambda>p vlan. rbind (dget vb vlan) (\<lambda>b. bw_add p (vlan_label vlan) (bw_out b) (bw_in b))) p (dkeys vb)"

definition sw_label :: "string option \<Rightarrow> string" where
  "sw_label s = (case s of None \<Rightarrow> ''None'' | Some n \<Rightarrow> n)"

text \<open>Every second call writes the dropped packets.\<close>

definition write_dropped :: "bwstats \<Rightarrow> bwstats" where
  "write_dropped b =
     (let b1 = b\<lparr>dpCounter := dpCounter b + 1\<rparr> in
      if dpCounter b1 > 1 then
        (let csv = foldl (\<lambda>c p. csv_add c [CStr (sw_label (fst p)), CInt (snd p)])
                     (csv_add (drp_csv b1) [CStr ''sw'', CStr ''dpkts'']) (swDroppedPkts b1) in
         b1\<lparr>dpCounter := 0, drp_file := drp_file b1 @ [toCsv (\<lambda>_. []) csv], drp_csv := csv_clear csv\<rparr>)
      else b1)"

definition updateTenantStats :: "topology \<Rightarrow> bwstats \<Rightarrow> bwstats res" where
  "updateTenantStats t b =
     rbind (tenant_sums t (hostBw b) (reset_vlans (vlanBw b))) (\<lambda>vb.
     rbind (report_tenants vb (prov_tenant b)) (\<lambda>p.
     Inr (write_dropped (b\<lparr>vlanBw := vb, prov_tenant := p\<rparr>))))"

definition hostBwString :: "(int \<Rightarrow> string) \<Rightarrow> bwstats \<Rightarrow> string" where
  "hostBwString conv_bytes b =
     ''*********** Host BW Usage **********'' @ [char_of (10::nat)] @
     concat (map (\<lambda>(h, x). h @ '' in  = '' @ conv_bytes (bw_in x) @ [char_of (10::nat)] @
                           h @ '' out = '' @ conv_bytes (bw_out x) @ [char_of (10::nat)]) (hostBw b))"

definition tenantBwString :: "(int \<Rightarrow> string) \<Rightarrow> bwstats \<Rightarrow> string" where
  "tenantBwString conv_bytes b =
     ''*********** Tenant BW Usage **********'' @ [char_of (10::nat)] @
     concat (map (\<lambda>(v, x). if v \<ge> 0
          then str_of_int v @ '' in  = '' @ conv_bytes (bw_in x) @ [char_of (10::nat)] @
               str_of_int v @ '' out = '' @ conv_bytes (bw_out x) @ [char_of (10::nat)]
          else []) (vlanBw b))"

section \<open>What a provider promises\<close>

locale byte_sink =
  fixes inv :: "'s \<Rightarrow> bool"
    and add :: "'s \<Rightarrow> string \<Rightarrow> int \<Rightarrow> int \<Rightarrow> 's res"
    and lat :: "'s \<Rightarrow> string \<Rightarrow> bw"
  assumes add_total: "inv s \<Longrightarrow> \<exists>s'. add s h tx rx = Inr s'"
    and add_inv: "inv s \<Longrightarrow> add s h tx rx = Inr s' \<Longrightarrow> inv s'"
    and add_latest: "inv s \<Longrightarrow> add s h tx rx = Inr s' \<Longrightarrow>
      lat s' g = (if g = h then \<lparr>bw_in = rx, bw_out = tx\<rparr> else lat s g)"
begin

text \<open>Reporting a list of differently named counters leaves each at its value.\<close>

lemma add_all:
  assumes "inv s" and "distinct (map label xs)"
  shows "\<exists>s'. rfold (\<lambda>s x. add s (label x) (bw_out (val x)) (bw_in (val x))) s xs = Inr s' \<and> inv s' \<and>
    (\<forall>x \<in> set xs. lat s' (label x) = val x) \<and> (\<forall>g. g \<notin> label ` set xs \<longrightarrow> lat s' g = lat s g)"
  using assms
proof (induction xs arbitrary: s)
  case (Cons x xs)
  obtain s1 where s1: "add s (label x) (bw_out (val x)) (bw_in (val x)) = Inr s1" "inv s1"
    using add_total add_inv Cons.prems(1) by blast
  have l1: "lat s1 g = (if g = label x then val x else lat s g)" for g
    using add_latest [OF Cons.prems(1) s1(1)] by simp
  obtain s' where s': "rfold (\<lambda>s x. add s (label x) (bw_out (val x)) (bw_in (val x))) s1 xs = Inr s'" "inv s'"
    "\<forall>x \<in> set xs. lat s' (label x) = val x" "\<forall>g. g \<notin> label ` set xs \<longrightarrow> lat s' g = lat s1 g"
    using Cons.IH [OF s1(2)] Cons.prems(2) by auto
  have "label x \<notin> label ` set xs" using Cons.prems(2) by simp
  then have "lat s' (label x) = val x" using s'(4) l1 by simp
  with s1 s' l1 show ?case by simp
qed simp

end

lemma bw_add_latest:
  assumes "bwprov_inv p" and "bw_add p h tx rx = Inr p'"
  shows "bwprov_inv p'" "latest p' g = (if g = h then \<lparr>bw_in = rx, bw_out = tx\<rparr> else latest p g)"
proof -
  from bw_add_ok [OF assms(1), of h tx rx] assms(2)
  have *: "bwprov_inv p'" "latest p' h = \<lparr>bw_in = rx, bw_out = tx\<rparr>"
    "g \<noteq> h \<Longrightarrow> map_of (p_totals p') g = map_of (p_totals p) g" by auto
  show "bwprov_inv p'" by (rule *)
  show "latest p' g = (if g = h then \<lparr>bw_in = rx, bw_out = tx\<rparr> else latest p g)"
    using * by (simp add: latest_def)
qed

interpretation bws: byte_sink bwprov_inv bw_add latest
proof
  fix s h tx rx
  assume "bwprov_inv s"
  then show "\<exists>s'. bw_add s h tx rx = Inr s'" using bw_add_ok by blast
qed (rule bw_add_latest, assumption+)+

section \<open>Invariant and sums\<close>

definition bwstats_inv :: "topology \<Rightarrow> bwstats \<Rightarrow> bool" where
  "bwstats_inv t b \<longleftrightarrow>
     dkeys (hostBw b) = dkeys (t_hosts t) \<and> distinct (dkeys (t_hosts t)) \<and>
     distinct (dkeys (vlanBw b)) \<and>
     (\<forall>h \<in> set (dvals (t_hosts t)). set (h_vlans h) \<subseteq> set (dkeys (vlanBw b))) \<and>
     bwprov_inv (prov_host b) \<and> bwprov_inv (prov_tenant b)"

text \<open>What a VLAN's counters must be: every membership of a host counts once.\<close>

definition vlan_total :: "topology \<Rightarrow> (string, bw) dict \<Rightarrow> (bw \<Rightarrow> int) \<Rightarrow> int \<Rightarrow> int" where
  "vlan_total t hb f v =
     sum_list (map (\<lambda>(k, b). int (count_list (h_vlans (the (map_of (t_hosts t) k))) v) * f b) hb)"

lemma dkeys_foldl_dput_same:
  "set vs \<subseteq> set (dkeys d) \<Longrightarrow> dkeys (foldl (\<lambda>d v. dput d v c) d vs) = dkeys d"
  by (induction vs arbitrary: d) (simp_all del: set_map)

lemma dkeys_reset [simp]: "dkeys (reset_vlans vb) = dkeys vb"
  by (simp add: reset_vlans_def dkeys_foldl_dput_same)

lemma map_of_reset: "map_of (reset_vlans vb) v = (if v \<in> set (dkeys vb) then Some bw_zero else None)"
proof -
  have "map_of (foldl (\<lambda>d v. dput d v bw_zero) d vs) v = (if v \<in> set vs then Some bw_zero else map_of d v)"
    for d vs by (induction vs arbitrary: d) auto
  then show ?thesis by (simp add: reset_vlans_def key_lookup_None)
qed

lemma add_to_vlans:
  assumes "set vs \<subseteq> set (dkeys vb)"
  shows "\<exists>vb'. rfold (add_to_vlan hb) vb vs = Inr vb' \<and> dkeys vb' = dkeys vb \<and>
    (\<forall>v b. map_of vb v = Some b \<longrightarrow> map_of vb' v =
       Some \<lparr>bw_in = bw_in b + int (count_list vs v) * bw_in hb, bw_out = bw_out b + int (count_list vs v) * bw_out hb\<rparr>)"
  using assms
proof (induction vs arbitrary: vb)
  case (Cons x vs)
  then have "x \<in> set (dkeys vb)" by simp
  then obtain b0 where b0: "map_of vb x = Some b0" by (rule key_lookup)
  have k: "dkeys (dput vb x (bw_plus b0 hb)) = dkeys vb"
    by (rule dkeys_dput_present) fact
  then obtain vb' where vb': "rfold (add_to_vlan hb) (dput vb x (bw_plus b0 hb)) vs = Inr vb'" "dkeys vb' = dkeys vb"
    "\<And>v b. map_of (dput vb x (bw_plus b0 hb)) v = Some b \<Longrightarrow> map_of vb' v =
       Some \<lparr>bw_in = bw_in b + int (count_list vs v) * bw_in hb, bw_out = bw_out b + int (count_list vs v) * bw_out hb\<rparr>"
    using Cons.IH [of "dput vb x (bw_plus b0 hb)"] Cons.prems unfolding k by auto
  have "map_of vb' v = Some \<lparr>bw_in = bw_in b + int (count_list (x # vs) v) * bw_in hb,
      bw_out = bw_out b + int (count_list (x # vs) v) * bw_out hb\<rparr>" if "map_of vb v = Some b" for v b
    using that b0 vb'(3) [of v] by (cases "v = x") (auto simp: bw_plus_def algebra_simps)
  moreover have "add_to_vlan hb vb x = Inr (dput vb x (bw_plus b0 hb))"
    by (simp add: add_to_vlan_def dget_Inr_map [OF b0])
  then have "rfold (add_to_vlan hb) vb (x # vs) = Inr vb'" using vb'(1) by simp
  ultimately show ?case using vb'(2) k by metis
qed simp

lemma tenant_sums_ok:
  assumes "set (dkeys hb) \<subseteq> set (dkeys (t_hosts t))" and "distinct (dkeys hb)"
    and vl: "\<And>h. h \<in> set (dvals (t_hosts t)) \<Longrightarrow> set (h_vlans h) \<subseteq> set (dkeys vb)"
  shows "\<exists>vb'. tenant_sums t hb vb = Inr vb' \<and> dkeys vb' = dkeys vb \<and>
    (\<forall>v b. map_of vb v = Some b \<longrightarrow> map_of vb' v =
       Some \<lparr>bw_in = bw_in b + vlan_total t hb bw_in v, bw_out = bw_out b + vlan_total t hb bw_out v\<rparr>)"
proof -
  let ?step = "\<lambda>vb hst. rbind (dget (t_hosts t) hst) (\<lambda>h. rbind (dget hb hst) (\<lambda>b. rfold (add_to_vlan b) vb (h_vlans h)))"
  have "\<exists>vb'. rfold ?step vb (dkeys ps) = Inr vb' \<and> dkeys vb' = dkeys vb \<and>
    (\<forall>v b. map_of vb v = Some b \<longrightarrow> map_of vb' v =
       Some \<lparr>bw_in = bw_in b + vlan_total t ps bw_in v, bw_out = bw_out b + vlan_total t ps bw_out v\<rparr>)"
    if "set ps \<subseteq> set hb" "\<And>h. h \<in> set (dvals (t_hosts t)) \<Longrightarrow> set (h_vlans h) \<subseteq> set (dkeys vb)" for ps vb
    using that
  proof (induction ps arbitrary: vb)
    case Nil
    then show ?case by (simp add: vlan_total_def)
  next
    case (Cons p ps)
    obtain k hbk where p: "p = (k, hbk)" by (cases p)
    then have "k \<in> set (dkeys hb)" using Cons.prems(1) by (auto intro: rev_image_eqI)
    then have "k \<in> set (dkeys (t_hosts t))" using assms(1) by blast
    then obtain h where h: "map_of (t_hosts t) k = Some h" by (rule key_lookup)
    have hbk: "map_of hb k = Some hbk" using Cons.prems(1) assms(2) p by simp
    have "h \<in> set (dvals (t_hosts t))" using map_of_SomeD [OF h] by (auto intro: rev_image_eqI)
    then have "set (h_vlans h) \<subseteq> set (dkeys vb)" by (rule Cons.prems(2))
    then obtain vb1 where vb1: "rfold (add_to_vlan hbk) vb (h_vlans h) = Inr vb1" "dkeys vb1 = dkeys vb"
      "\<And>v b. map_of vb v = Some b \<Longrightarrow> map_of vb1 v =
       Some \<lparr>bw_in = bw_in b + int (count_list (h_vlans h) v) * bw_in hbk, bw_out = bw_out b + int (count_list (h_vlans h) v) * bw_out hbk\<rparr>"
      using add_to_vlans [of "h_vlans h" vb hbk] by blast
    obtain vb' where vb': "rfold ?step vb1 (dkeys ps) = Inr vb'" "dkeys vb' = dkeys vb1"
      "\<And>v b. map_of vb1 v = Some b \<Longrightarrow> map_of vb' v =
       Some \<lparr>bw_in = bw_in b + vlan_total t ps bw_in v, bw_out = bw_out b + vlan_total t ps bw_out v\<rparr>"
      using Cons.IH [of vb1] Cons.prems vb1(2) by auto
    have "rfold ?step vb (dkeys (p # ps)) = Inr vb'"
      using vb1(1) vb'(1) by (simp add: p dget_Inr_map [OF h] dget_Inr_map [OF hbk])
    moreover have "map_of vb' v = Some \<lparr>bw_in = bw_in b + vlan_total t (p # ps) bw_in v,
        bw_out = bw_out b + vlan_total t (p # ps) bw_out v\<rparr>" if "map_of vb v = Some b" for v b
      using vb'(3) [OF vb1(3) [OF that]] by (simp add: p h vlan_total_def algebra_simps)
    ultimately show ?case using vb'(2) vb1(2) by auto
  qed
  from this [of hb vb] vl show ?thesis by (simp add: tenant_sums_def)
qed

lemma vlan_label_inj: "vlan_label v = vlan_label w \<longleftrightarrow> v = w"
  by (metis py_int_str_of_int same_append_eq sum.inject(2) vlan_label_def)

lemma report_tenants_ok:
  assumes "bwprov_inv p" and "distinct (dkeys vb)"
  shows "\<exists>p'. report_tenants vb p = Inr p' \<and> bwprov_inv p' \<and>
    (\<forall>v b. map_of vb v = Some b \<longrightarrow> latest p' (vlan_label v) = b)"
proof -
  have "rfold (\<lambda>p vlan. rbind (dget vb vlan) (\<lambda>b. bw_add p (vlan_label vlan) (bw_out b) (bw_in b))) q vs
      = rfold (\<lambda>p v. bw_add p (vlan_label v) (bw_out (the (map_of vb v))) (bw_in (the (map_of vb v)))) q vs"
    if "set vs \<subseteq> set (dkeys vb)" for q vs
    using that
  proof (induction vs arbitrary: q)
    case (Cons v vs)
    then have "v \<in> set (dkeys vb)" by simp
    then obtain b where "map_of vb v = Some b" by (rule key_lookup)
    with Cons show ?case by (auto simp: dget_Inr_map rbind_def split: sum.splits)
  qed simp
  then have eq: "report_tenants vb p = rfold (\<lambda>p v. bw_add p (vlan_label v)
      (bw_out (the (map_of vb v))) (bw_in (the (map_of vb v)))) p (dkeys vb)"
    by (simp add: report_tenants_def)
  have "distinct (map vlan_label (dkeys vb))"
    using assms(2) by (simp add: distinct_map inj_on_def vlan_label_inj del: map_map)
  from bws.add_all [OF assms(1) this, of "\<lambda>v. the (map_of vb v)"] obtain p' where
    p': "report_tenants vb p = Inr p'" "bwprov_inv p'"
    "\<forall>v \<in> set (dkeys vb). latest p' (vlan_label v) = the (map_of vb v)"
    unfolding eq by blast
  have "latest p' (vlan_label v) = b" if "map_of vb v = Some b" for v b
    using p'(3) map_of_in_keys [OF that] that by (metis option.sel)
  with p' show ?thesis by blast
qed

lemma write_dropped_frame:
  "hostBw (write_dropped b) = hostBw b" "vlanBw (write_dropped b) = vlanBw b"
  "prov_host (write_dropped b) = prov_host b" "prov_tenant (write_dropped b) = prov_tenant b"
  "swDroppedPkts (write_dropped b) = swDroppedPkts b"
  by (simp_all add: write_dropped_def Let_def)

theorem updateTenantStats_ok:
  assumes inv: "bwstats_inv t b"
  shows "\<exists>b'. updateTenantStats t b = Inr b' \<and> bwstats_inv t b' \<and> hostBw b' = hostBw b \<and>
    dkeys (vlanBw b') = dkeys (vlanBw b) \<and>
    (\<forall>v \<in> set (dkeys (vlanBw b)).
       map_of (vlanBw b') v = Some \<lparr>bw_in = vlan_total t (hostBw b) bw_in v, bw_out = vlan_total t (hostBw b) bw_out v\<rparr> \<and>
       latest (prov_tenant b') (vlan_label v) = \<lparr>bw_in = vlan_total t (hostBw b) bw_in v, bw_out = vlan_total t (hostBw b) bw_out v\<rparr>)"
proof -
  note i = inv [unfolded bwstats_inv_def]
  obtain vb where vb: "tenant_sums t (hostBw b) (reset_vlans (vlanBw b)) = Inr vb"
    "dkeys vb = dkeys (vlanBw b)"
    "\<And>v x. map_of (reset_vlans (vlanBw b)) v = Some x \<Longrightarrow> map_of vb v =
       Some \<lparr>bw_in = bw_in x + vlan_total t (hostBw b) bw_in v, bw_out = bw_out x + vlan_total t (hostBw b) bw_out v\<rparr>"
    using tenant_sums_ok [of "hostBw b" t "reset_vlans (vlanBw b)"] i unfolding dkeys_reset
    by (metis order_refl)
  have val: "map_of vb v = Some \<lparr>bw_in = vlan_total t (hostBw b) bw_in v, bw_out = vlan_total t (hostBw b) bw_out v\<rparr>"
    if "v \<in> set (dkeys (vlanBw b))" for v
    using vb(3) [of v bw_zero] that by (simp add: map_of_reset bw_zero_def)
  obtain p where p: "report_tenants vb (prov_tenant b) = Inr p" "bwprov_inv p"
    "\<And>v x. map_of vb v = Some x \<Longrightarrow> latest p (vlan_label v) = x"
    using report_tenants_ok [of "prov_tenant b" vb] i vb(2) by auto
  define b' where "b' = write_dropped (b\<lparr>vlanBw := vb, prov_tenant := p\<rparr>)"
  have "updateTenantStats t b = Inr b'"
    using vb(1) p(1) by (simp add: updateTenantStats_def b'_def)
  moreover have "bwstats_inv t b'"
    using i p(2) vb(2) by (simp add: bwstats_inv_def b'_def write_dropped_frame)
  ultimately show ?thesis
    using vb(2) val p(3) by (simp add: b'_def write_dropped_frame)
qed

theorem addHostBwStat_ok:
  assumes inv: "bwstats_inv t b" and h: "h \<in> set (dkeys (t_hosts t))"
  shows "\<exists>b'. addHostBwStat b h tx rx = Inr b' \<and> bwstats_inv t b' \<and>
    map_of (hostBw b') h = Some \<lparr>bw_in = tx, bw_out = rx\<rparr> \<and>
    (\<forall>g. g \<noteq> h \<longrightarrow> map_of (hostBw b') g = map_of (hostBw b) g) \<and>
    latest (prov_host b') h = \<lparr>bw_in = tx, bw_out = rx\<rparr> \<and>
    vlanBw b' = vlanBw b \<and> prov_tenant b' = prov_tenant b"
proof -
  note i = inv [unfolded bwstats_inv_def]
  have hk: "h \<in> set (dkeys (hostBw b))" using h i by simp
  then obtain x where x: "map_of (hostBw b) h = Some x" by (rule key_lookup)
  obtain p where p: "bw_add (prov_host b) h rx tx = Inr p" using i bws.add_total by blast
  have "bwprov_inv p" "latest p h = \<lparr>bw_in = tx, bw_out = rx\<rparr>"
    using bws.add_inv [OF _ p] bws.add_latest [OF _ p] i by simp_all
  with i hk p show ?thesis
    by (simp add: addHostBwStat_def dget_Inr_map [OF x] bwstats_inv_def
        del: set_map map_of_eq_Some_iff)
qed

lemma addHostBwStat_unknown:
  "h \<notin> set (dkeys (hostBw b)) \<Longrightarrow> addHostBwStat b h tx rx = Inl KeyErr"
  by (simp add: addHostBwStat_def dget_KeyErr del: set_map)

section \<open>Properties\<close>

definition small_topo :: topology where
  "small_topo = \<lparr>t_hosts = [(''h1'', \<lparr>h_name = ''h1'', h_ip = ''10.0.0.1'', h_eth = ''00:00:00:00:00:01'', h_switch = ''s1'', h_vlans = [0]\<rparr>),
                         (''h2'', \<lparr>h_name = ''h2'', h_ip = ''10.0.0.2'', h_eth = ''00:00:00:00:00:02'', h_switch = ''s1'', h_vlans = [0, 1]\<rparr>)],
     t_vlans = [(0, [''h1'', ''h2'']), (1, [''h2''])], t_switches = [''s1''], t_edges = [], t_cores = [], t_ports = []\<rparr>"

definition small_stats :: bwstats where
  "small_stats = (bwstats_init small_topo)\<lparr>hostBw := [(''h1'', \<lparr>bw_in = 5, bw_out = 6\<rparr>), (''h2'', \<lparr>bw_in = 7, bw_out = 8\<rparr>)]\<rparr>"

lemma small_stats_inv: "bwstats_inv small_topo small_stats"
  by (simp add: bwstats_inv_def small_stats_def small_topo_def bwstats_init_def bwprov_inv_init)

lemma bwstats_init_inv:
  assumes "distinct (dkeys (t_hosts t))" and "\<forall>h \<in> set (dvals (t_hosts t)). set (h_vlans h) \<subseteq> set (dkeys (t_vlans t))"
  shows "bwstats_inv t (bwstats_init t)"
proof -
  have k: "distinct (dkeys d) \<Longrightarrow> distinct (dkeys (foldl (\<lambda>d v. dput d v c) d vs)) \<and>
      set (dkeys (foldl (\<lambda>d v. dput d v c) d vs)) = set (dkeys d) \<union> set vs" for d :: "('k, 'v) dict" and c vs
    by (induction vs arbitrary: d) auto
  have "foldl (\<lambda>d h. dput d h bw_zero) [] (dkeys (t_hosts t)) = [] @ map (\<lambda>h. (h, bw_zero)) (dkeys (t_hosts t))"
    using foldl_dput_distinct [of "\<lambda>h. h" "dkeys (t_hosts t)" "[]" "\<lambda>_. bw_zero"] assms(1) by simp
  then have "dkeys (hostBw (bwstats_init t)) = dkeys (t_hosts t)"
    by (simp add: bwstats_init_def comp_def)
  moreover have "distinct (dkeys (vlanBw (bwstats_init t)))" "set (dkeys (vlanBw (bwstats_init t))) = set (dkeys (t_vlans t))"
    using k [of "[]" bw_zero "dkeys (t_vlans t)"] by (simp_all add: bwstats_init_def)
  moreover have "bwprov_inv (prov_host (bwstats_init t))" "bwprov_inv (prov_tenant (bwstats_init t))"
    by (simp_all add: bwstats_init_def bwprov_inv_init)
  ultimately show ?thesis
    using assms unfolding bwstats_inv_def by blast
qed

text \<open>The initial statistics of a topology whose hosts are listed once and whose VLAN table
  covers their VLANs satisfy the invariant.\<close>

theorem stats_start:
  assumes "distinct (dkeys (t_hosts t))" and "\<forall>h \<in> set (dvals (t_hosts t)). set (h_vlans h) \<subseteq> set (dkeys (t_vlans t))"
  shows "bwstats_inv t (bwstats_init t)"
  by (rule bwstats_init_inv [OF assms])

theorem stats_start_demo: "bwstats_inv small_topo (bwstats_init small_topo)"
  by (rule stats_start) (simp_all add: small_topo_def)

text \<open>Recording the counters of a known host's switch port stores them with the directions
  swapped, reports them to the host provider, leaves the other hosts and the tenants alone and keeps
  the invariant.\<close>

theorem host_report:
  assumes "bwstats_inv t b" and "h \<in> set (dkeys (t_hosts t))"
  shows "\<exists>b'. addHostBwStat b h tx rx = Inr b' \<and> bwstats_inv t b' \<and>
    map_of (hostBw b') h = Some \<lparr>bw_in = tx, bw_out = rx\<rparr> \<and>
    (\<forall>g. g \<noteq> h \<longrightarrow> map_of (hostBw b') g = map_of (hostBw b) g) \<and>
    latest (prov_host b') h = \<lparr>bw_in = tx, bw_out = rx\<rparr> \<and>
    vlanBw b' = vlanBw b \<and> prov_tenant b' = prov_tenant b"
  by (rule addHostBwStat_ok [OF assms])

theorem host_report_demo:
  "\<exists>b'. addHostBwStat small_stats ''h1'' 10 20 = Inr b' \<and> bwstats_inv small_topo b' \<and>
    map_of (hostBw b') ''h1'' = Some \<lparr>bw_in = 10, bw_out = 20\<rparr> \<and>
    (\<forall>g. g \<noteq> ''h1'' \<longrightarrow> map_of (hostBw b') g = map_of (hostBw small_stats) g) \<and>
    latest (prov_host b') ''h1'' = \<lparr>bw_in = 10, bw_out = 20\<rparr> \<and>
    vlanBw b' = vlanBw small_stats \<and> prov_tenant b' = prov_tenant small_stats"
  by (rule host_report [OF small_stats_inv]) (simp add: small_topo_def)

text \<open>C20: the tenant update never fails from the invariant; afterwards every VLAN's counters are the sums
  over its member hosts, they are what the tenant provider last recorded for it, and the host
  counters are untouched.\<close>

theorem tenant_update:
  assumes "bwstats_inv t b"
  shows "\<exists>b'. updateTenantStats t b = Inr b' \<and> bwstats_inv t b' \<and> hostBw b' = hostBw b \<and>
    (\<forall>v \<in> set (dkeys (vlanBw b)).
       map_of (vlanBw b') v = Some \<lparr>bw_in = vlan_total t (hostBw b) bw_in v, bw_out = vlan_total t (hostBw b) bw_out v\<rparr> \<and>
       latest (prov_tenant b') (vlan_label v) = \<lparr>bw_in = vlan_total t (hostBw b) bw_in v, bw_out = vlan_total t (hostBw b) bw_out v\<rparr>)"
  using updateTenantStats_ok [OF assms] by blast

theorem tenant_update_demo:
  "\<exists>b'. updateTenantStats small_topo small_stats = Inr b' \<and> bwstats_inv small_topo b' \<and> hostBw b' = hostBw small_stats \<and>
    (\<forall>v \<in> set (dkeys (vlanBw small_stats)).
       map_of (vlanBw b') v = Some \<lparr>bw_in = vlan_total small_topo (hostBw small_stats) bw_in v, bw_out = vlan_total small_topo (hostBw small_stats) bw_out v\<rparr> \<and>
       latest (prov_tenant b') (vlan_label v) = \<lparr>bw_in = vlan_total small_topo (hostBw small_stats) bw_in v, bw_out = vlan_total small_topo (hostBw small_stats) bw_out v\<rparr>)"
  by (rule tenant_update [OF small_stats_inv])

end
