(* ===== verification/Adaptive.thy ===== *)
theory Adaptive
  imports Policy BwStats
begin

text \<open>
  \<^verbatim>\<open>AdaptivePolicy\<close> of \<^verbatim>\<open>minidc/controller/policy.py\<close>: the hosts are assigned to the core
  switches greedily, largest received byte count first, each to the core switch that is
  least utilized so far. The iteration order of the dictionary \<^verbatim>\<open>utilization\<close> decides ties;
  it is the argument \<open>ko\<close>.
\<close>

section \<open>State and operations\<close>

record adaptive =
  a_assign :: "(string, string option) dict"
  a_util :: "(string, int) dict"
  a_table :: rtable

text \<open>
  \<^verbatim>\<open>least_utilized\<close> starts as a key, that is a string, and becomes a number; Python 2 orders
  every number before every string.
\<close>

definition minUtilization :: "(string list \<Rightarrow> string list) \<Rightarrow> (string, int) dict \<Rightarrow> string option res" where
  "minUtilization ko u =
     rbind (py_nth (dkeys (reorder ko u)) 0) (\<lambda>k0.
     Inr (snd (foldl (\<lambda>(least, ret) (switch, v).
            if PInt v < least then (PInt v, Some switch) else (least, ret))
          (PStr k0, None) (reorder ko u))))"

definition recv_stats :: "(string, bw) dict \<Rightarrow> (int \<times> string) list" where
  "recv_stats hb = map (\<lambda>(h, b). (bw_in b, h)) hb"

definition assign_step :: "(string list \<Rightarrow> string list) \<Rightarrow> (string, string option) dict \<times> (string, int) dict
    \<Rightarrow> int \<times> string \<Rightarrow> ((string, string option) dict \<times> (string, int) dict) res" where
  "assign_step ko s stat =
     (case s of (assign, util) \<Rightarrow>
      rbind (minUtilization ko util) (\<lambda>core.
      let assign' = dput assign (snd stat) core in
      case core of None \<Rightarrow> Inl KeyErr
      | Some c \<Rightarrow> rbind (dget util c) (\<lambda>u. Inr (assign', dput util c (u + fst stat)))))"

definition reset_util :: "topology \<Rightarrow> (string, int) dict \<Rightarrow> (string, int) dict" where
  "reset_util t u = foldl (\<lambda>u core. dput u core 0) u (dkeys (t_cores t))"

definition redistribute :: "(string list \<Rightarrow> string list) \<Rightarrow> topology \<Rightarrow> (string, bw) dict \<Rightarrow> adaptive
    \<Rightarrow> adaptive res" where
  "redistribute ko t hb a =
     (let stats = rev (sort (recv_stats hb)) in
      rbind (rfold (assign_step ko) (a_assign a, reset_util t (a_util a)) stats) (\<lambda>s.
      Inr (a\<lparr>a_assign := fst s, a_util := snd s\<rparr>)))"

definition AdaptivePolicy_build :: "topology \<Rightarrow> adaptive \<Rightarrow> rtable res" where
  "AdaptivePolicy_build t a =
     rbind (rfold (\<lambda>rt core. core_down t rt (c_name core) (c_dpid core)) [] (dvals (t_cores t))) (\<lambda>rt.
     rbind (rfold (edge_up t (\<lambda>h. dget (a_assign a) (h_name h))) rt (dvals (t_edges t))) (\<lambda>rt.
     add_arpflood rt t))"

definition AdaptivePolicy_init :: "topology \<Rightarrow> adaptive res" where
  "AdaptivePolicy_init t =
     rbind (py_nth (dkeys (t_cores t)) 0) (\<lambda>default.
     let a = \<lparr>a_assign = foldl (\<lambda>d h. dput d h (Some default)) [] (dkeys (t_hosts t)),
              a_util = [], a_table = []\<rparr> in
     rbind (AdaptivePolicy_build t a) (\<lambda>rt. Inr (a\<lparr>a_table := rt\<rparr>)))"

text \<open>The property \<^verbatim>\<open>routingTable\<close> redistributes and rebuilds at every access.\<close>

definition adaptive_routingTable :: "(string list \<Rightarrow> string list) \<Rightarrow> topology \<Rightarrow> (string, bw) dict \<Rightarrow> adaptive
    \<Rightarrow> (adaptive \<times> rtable) res" where
  "adaptive_routingTable ko t hb a =
     rbind (redistribute ko t hb a) (\<lambda>a'.
     rbind (AdaptivePolicy_build t a') (\<lambda>rt. Inr (a', rt)))"

section \<open>The least utilized switch\<close>

lemma min_loop:
  assumes "foldl (\<lambda>(least, ret) (switch, v). if PInt v < least then (PInt v, Some switch) else (least, ret))
      (l0, r0) u = (l, r)"
  shows "(l = l0 \<and> r = r0 \<or> (\<exists>c v. l = PInt v \<and> r = Some c \<and> (c, v) \<in> set u \<and> PInt v < l0)) \<and>
    l \<le> l0 \<and> (\<forall>(k, w) \<in> set u. l \<le> PInt w)"
  using assms
proof (induction u arbitrary: l0 r0)
  case Nil
  then show ?case by simp
next
  case (Cons p u)
  obtain k v where p: "p = (k, v)" by (cases p)
  show ?case
  proof (cases "PInt v < l0")
    case True
    with Cons.prems p have "foldl (\<lambda>(least, ret) (switch, v). if PInt v < least then (PInt v, Some switch) else (least, ret))
      (PInt v, Some k) u = (l, r)" by simp
    note ih = Cons.IH [OF this]
    have "l \<le> PInt v" using ih by blast
    then have "l < l0" using True by (rule order.strict_trans1)
    moreover have "\<forall>(k, w) \<in> set ((k, v) # u). l \<le> PInt w" using ih \<open>l \<le> PInt v\<close> by simp
    moreover have "\<exists>c w. l = PInt w \<and> r = Some c \<and> (c, w) \<in> set ((k, v) # u)"
      using ih by auto
    ultimately show ?thesis by (auto simp only: p intro: less_imp_le)
  next
    case False
    with Cons.prems p have "foldl (\<lambda>(least, ret) (switch, v). if PInt v < least then (PInt v, Some switch) else (least, ret))
      (l0, r0) u = (l, r)" by simp
    from Cons.IH [OF this] False show ?thesis
      by (auto simp: p not_less intro: order.trans)
  qed
qed

theorem minUtilization_least:
  assumes ko: "is_order ko" and d: "distinct (dkeys u)" and ne: "u \<noteq> []"
  shows "\<exists>c v. minUtilization ko u = Inr (Some c) \<and> (c, v) \<in> set u \<and> (\<forall>(k, w) \<in> set u. v \<le> w)"
proof -
  have s: "set (reorder ko u) = set u" by (rule set_reorder [OF ko d])
  with ne obtain k0 v0 ps where r: "reorder ko u = (k0, v0) # ps"
    by (cases "reorder ko u") auto
  obtain l x where lx: "foldl (\<lambda>(least, ret) (switch, v). if PInt v < least then (PInt v, Some switch) else (least, ret))
      (PStr k0, None) (reorder ko u) = (l, x)" by fastforce
  have "l \<le> PInt v0" using min_loop [OF lx] by (auto simp: r)
  then have "l \<noteq> PStr k0" by auto
  with min_loop [OF lx] obtain c v where "l = PInt v" "x = Some c" "(c, v) \<in> set u"
    "\<forall>(k, w) \<in> set u. PInt v \<le> PInt w" unfolding s by auto
  moreover have "py_nth (dkeys (reorder ko u)) 0 = Inr k0" by (simp only: r) simp
  then have "minUtilization ko u = Inr x" unfolding minUtilization_def lx
    by (simp only: rbind_simps lx snd_conv)
  ultimately show ?thesis by auto
qed

lemma minUtilization_empty: "is_order ko \<Longrightarrow> minUtilization ko [] = Inl IndexErr"
  using is_order_set [of ko "[]"] by (simp add: minUtilization_def reorder_def)

section \<open>The greedy distribution\<close>

definition total :: "(string, int) dict \<Rightarrow> int" where
  "total u = sum_list (dvals u)"

definition assigned :: "(string, string option) dict \<Rightarrow> (int \<times> string) list \<Rightarrow> string \<Rightarrow> int" where
  "assigned a stats c = sum_list (map fst (filter (\<lambda>p. map_of a (snd p) = Some (Some c)) stats))"

lemma sum_dput:
  "distinct (dkeys u) \<Longrightarrow> map_of u c = Some x \<Longrightarrow> total (dput u c (x + l)) = total u + l"
proof (induction u)
  case (Cons p u)
  then show ?case
    by (cases p) (auto simp: total_def split: if_splits)
qed simp

text \<open>
  What one assignment keeps: the keys, the loads recorded in the utilization, and the
  bound \<open>M\<close> on the gap between two core switches.
\<close>

definition balanced :: "int \<Rightarrow> (string, int) dict \<Rightarrow> bool" where
  "balanced M u \<longleftrightarrow> (\<forall>(c, x) \<in> set u. \<forall>(d, y) \<in> set u. x \<le> y + M)"

lemma assign_step_ok:
  assumes ko: "is_order ko" and d: "distinct (dkeys u)" and ne: "u \<noteq> []"
    and bal: "balanced M u" and l: "0 \<le> fst stat" "fst stat \<le> M"
  shows "\<exists>c u'. assign_step ko (a, u) stat = Inr (dput a (snd stat) (Some c), u') \<and>
     c \<in> set (dkeys u) \<and> dkeys u' = dkeys u \<and> balanced M u' \<and>
     (\<forall>k. map_of u' k = (if k = c then map_option (\<lambda>x. x + fst stat) (map_of u k) else map_of u k))"
proof -
  obtain c v where c: "minUtilization ko u = Inr (Some c)" "(c, v) \<in> set u" "\<forall>(k, w) \<in> set u. v \<le> w"
    using minUtilization_least [OF ko d ne] by blast
  have m: "map_of u c = Some v" using c(2) d by simp
  let ?u' = "dput u c (v + fst stat)"
  have ck: "c \<in> set (dkeys u)" using map_of_in_keys [OF m] .
  have k: "dkeys ?u' = dkeys u" by (rule dkeys_dput_present [OF ck])
  have mem: "(k, x) \<in> set ?u' \<longleftrightarrow> (if k = c then x = v + fst stat else (k, x) \<in> set u)" for k x
  proof -
    have "(k, x) \<in> set ?u' \<longleftrightarrow> map_of ?u' k = Some x"
      by (rule map_of_eq_Some_distinct [OF distinct_dput [OF d], symmetric])
    also have "\<dots> \<longleftrightarrow> (if k = c then x = v + fst stat else map_of u k = Some x)"
      unfolding map_of_dput by auto
    finally show ?thesis unfolding map_of_eq_Some_distinct [OF d] .
  qed
  have "balanced M ?u'"
    unfolding balanced_def
  proof clarify
    fix k x k2 y
    assume "(k, x) \<in> set ?u'" and "(k2, y) \<in> set ?u'"
    then have 1: "if k = c then x = v + fst stat else (k, x) \<in> set u"
      and 2: "if k2 = c then y = v + fst stat else (k2, y) \<in> set u" by (simp_all only: mem)
    have le: "v \<le> w" if "(j, w) \<in> set u" for j w using c(3) that by auto
    have gap: "x1 \<le> y1 + M" if "(j, x1) \<in> set u" "(j2, y1) \<in> set u" for j j2 x1 y1
      using bal that unfolding balanced_def by auto
    show "x \<le> y + M"
      using 1 2 l le gap [OF _ c(2)] gap by (auto split: if_splits; fastforce)
  qed
  moreover have "assign_step ko (a, u) stat = Inr (dput a (snd stat) (Some c), ?u')"
    by (simp add: assign_step_def c(1) dget_Inr_map [OF m])
  ultimately show ?thesis using k ck m by auto
qed

lemma assign_fold_ok:
  assumes "is_order ko" and "distinct (dkeys u)" and "u \<noteq> []" and "balanced M u"
    and "\<And>p. p \<in> set stats \<Longrightarrow> 0 \<le> fst p \<and> fst p \<le> M"
    and "distinct (map snd stats)"
  shows "\<exists>a' u'. rfold (assign_step ko) (a, u) stats = Inr (a', u') \<and> dkeys u' = dkeys u \<and> balanced M u' \<and>
     (\<forall>h. h \<notin> snd ` set stats \<longrightarrow> map_of a' h = map_of a h) \<and>
     (\<forall>h \<in> snd ` set stats. \<exists>c \<in> set (dkeys u). map_of a' h = Some (Some c)) \<and>
     (\<forall>k. map_of u' k = map_option (\<lambda>x. x + assigned a' stats k) (map_of u k))"
  using assms(2-)
proof (induction stats arbitrary: a u)
  case Nil
  then show ?case by (simp add: assigned_def option.map_ident)
next
  case (Cons p stats)
  obtain c u1 where 1: "assign_step ko (a, u) p = Inr (dput a (snd p) (Some c), u1)"
    "c \<in> set (dkeys u)" "dkeys u1 = dkeys u" "balanced M u1"
    "\<And>k. map_of u1 k = (if k = c then map_option (\<lambda>x. x + fst p) (map_of u k) else map_of u k)"
    using assign_step_ok [OF assms(1) Cons.prems(1-3), of p a] Cons.prems(4) [of p] by auto
  have "u1 \<noteq> []" using 1(3) Cons.prems(2) by auto
  then obtain a' u' where 2: "rfold (assign_step ko) (dput a (snd p) (Some c), u1) stats = Inr (a', u')"
    "dkeys u' = dkeys u1" "balanced M u'"
    "\<And>h. h \<notin> snd ` set stats \<Longrightarrow> map_of a' h = map_of (dput a (snd p) (Some c)) h"
    "\<forall>h \<in> snd ` set stats. \<exists>c \<in> set (dkeys u1). map_of a' h = Some (Some c)"
    "\<And>k. map_of u' k = map_option (\<lambda>x. x + assigned a' stats k) (map_of u1 k)"
    using Cons.IH [of u1 "dput a (snd p) (Some c)"] Cons.prems 1(3,4) by auto
  have p: "map_of a' (snd p) = Some (Some c)" using 2(4) [of "snd p"] Cons.prems(5) by simp
  have "assigned a' (p # stats) k = (if k = c then fst p else 0) + assigned a' stats k" for k
    using p by (simp add: assigned_def)
  then have "map_of u' k = map_option (\<lambda>x. x + assigned a' (p # stats) k) (map_of u k)" for k
    using 2(6) [of k] 1(5) [of k] by (cases "map_of u k") (auto simp: algebra_simps)
  moreover have "map_of a' h = map_of a h" if "h \<notin> snd ` set (p # stats)" for h
    using that 2(4) [of h] by simp
  moreover have "\<exists>c \<in> set (dkeys u). map_of a' h = Some (Some c)" if "h \<in> snd ` set (p # stats)" for h
    using that 2(5) p 1(2,3) by auto
  ultimately show ?case
    using 1(1,3) 2(1-3) by simp
qed

definition max_load :: "(string, bw) dict \<Rightarrow> int" where
  "max_load hb = foldr max (map (bw_in \<circ> snd) hb) 0"

lemma max_load_ge: "(h, b) \<in> set hb \<Longrightarrow> bw_in b \<le> max_load hb"
  by (induction hb) (auto simp: max_load_def)

lemma max_load_nonneg: "0 \<le> max_load hb"
  by (induction hb) (auto simp: max_load_def)

definition util_over :: "topology \<Rightarrow> (string, int) dict \<Rightarrow> bool" where
  "util_over t u \<longleftrightarrow> distinct (dkeys u) \<and> set (dkeys u) \<subseteq> set (dkeys (t_cores t))"

lemma reset_util_ok:
  assumes "util_over t u"
  shows "distinct (dkeys (reset_util t u))" "set (dkeys (reset_util t u)) = set (dkeys (t_cores t))"
    "map_of (reset_util t u) c = (if c \<in> set (dkeys (t_cores t)) then Some 0 else None)"
proof -
  have g: "distinct (dkeys u) \<Longrightarrow> distinct (dkeys (foldl (\<lambda>u core. dput u core 0) u cs)) \<and>
      set (dkeys (foldl (\<lambda>u core. dput u core 0) u cs)) = set (dkeys u) \<union> set cs \<and>
      (\<forall>c. map_of (foldl (\<lambda>u core. dput u core 0) u cs) c = (if c \<in> set cs then Some 0 else map_of u c))"
    for u :: "(string, int) dict" and cs
    by (induction cs arbitrary: u) auto
  from g [of u "dkeys (t_cores t)"] assms
  show "distinct (dkeys (reset_util t u))" "set (dkeys (reset_util t u)) = set (dkeys (t_cores t))"
    unfolding util_over_def reset_util_def by auto
  show "map_of (reset_util t u) c = (if c \<in> set (dkeys (t_cores t)) then Some 0 else None)"
  proof (cases "c \<in> set (dkeys (t_cores t))")
    case False
    then have "c \<notin> set (dkeys u)" using assms unfolding util_over_def by blast
    then have "map_of u c = None" by (rule key_lookup_None)
    with False g [of u "dkeys (t_cores t)"] assms show ?thesis
      unfolding util_over_def reset_util_def by simp
  qed (use g [of u "dkeys (t_cores t)"] assms in \<open>simp add: util_over_def reset_util_def\<close>)
qed

text \<open>The sorted statistics hold each counted host once, and what they assign to a core switch is the sum of its counters.\<close>

lemma sorted_stats:
  shows "\<forall>p \<in> set hb. 0 \<le> bw_in (snd p) \<Longrightarrow> p \<in> set (rev (sort (recv_stats hb))) \<Longrightarrow> 0 \<le> fst p \<and> fst p \<le> max_load hb"
    and "snd ` set (rev (sort (recv_stats hb))) = set (dkeys hb)"
    and "distinct (dkeys hb) \<Longrightarrow> distinct (map snd (rev (sort (recv_stats hb))))"
proof -
  let ?stats = "rev (sort (recv_stats hb))"
  have st: "set ?stats = (\<lambda>(h, b). (bw_in b, h)) ` set hb" by (simp add: recv_stats_def)
  then show "snd ` set ?stats = set (dkeys hb)" by force
  show "0 \<le> fst p \<and> fst p \<le> max_load hb" if "\<forall>p \<in> set hb. 0 \<le> bw_in (snd p)" "p \<in> set ?stats" for p
    using that max_load_ge unfolding st by fastforce
  have "mset (map snd ?stats) = mset (map snd (recv_stats hb))" by simp
  also have "map snd (recv_stats hb) = dkeys hb" by (simp add: recv_stats_def case_prod_unfold comp_def)
  finally show "distinct (dkeys hb) \<Longrightarrow> distinct (map snd ?stats)" by (metis mset_eq_imp_distinct_iff)
qed

lemma assigned_sorted:
  "assigned a (rev (sort (recv_stats hb))) c = sum_list (map (bw_in \<circ> snd) (filter (\<lambda>p. map_of a (fst p) = Some (Some c)) hb))"
proof -
  let ?f = "filter (\<lambda>p. map_of a (snd p) = Some (Some c))"
  have "mset (map fst (?f (rev (sort (recv_stats hb))))) = mset (map fst (?f (recv_stats hb)))" by simp
  then have "assigned a (rev (sort (recv_stats hb))) c = sum_list (map fst (?f (recv_stats hb)))"
    unfolding assigned_def by (metis sum_mset_sum_list)
  also have "\<dots> = sum_list (map (bw_in \<circ> snd) (filter (\<lambda>p. map_of a (fst p) = Some (Some c)) hb))"
    by (induction hb) (auto simp: recv_stats_def)
  finally show ?thesis .
qed

text \<open>
  Redistribution never fails; every host with a counter is assigned to a core switch, the
  utilization of a core switch is the sum of the counters assigned to it, and two core
  switches differ by at most the largest single counter.
\<close>

theorem redistribute_ok:
  assumes ko: "is_order ko" and cores: "t_cores t \<noteq> []" and uo: "util_over t (a_util a)"
    and d: "distinct (dkeys hb)" and pos: "\<forall>p \<in> set hb. 0 \<le> bw_in (snd p)"
  shows "\<exists>a'. redistribute ko t hb a = Inr a' \<and> util_over t (a_util a') \<and>
     set (dkeys (a_util a')) = set (dkeys (t_cores t)) \<and> balanced (max_load hb) (a_util a') \<and>
     (\<forall>h \<in> set (dkeys hb). \<exists>c \<in> set (dkeys (t_cores t)). map_of (a_assign a') h = Some (Some c)) \<and>
     (\<forall>h. h \<notin> set (dkeys hb) \<longrightarrow> map_of (a_assign a') h = map_of (a_assign a) h) \<and>
     (\<forall>c \<in> set (dkeys (t_cores t)). map_of (a_util a') c =
        Some (sum_list (map (bw_in \<circ> snd) (filter (\<lambda>p. map_of (a_assign a') (fst p) = Some (Some c)) hb))))"
proof -
  let ?u = "reset_util t (a_util a)"
  let ?stats = "rev (sort (recv_stats hb))"
  note r = reset_util_ok [OF uo]
  have ne: "?u \<noteq> []" using r(2) cores by (metis empty_set list.map_disc_iff set_empty)
  have bal: "balanced (max_load hb) ?u"
    unfolding balanced_def
  proof clarify
    fix c x e y assume "(c, x) \<in> set ?u" "(e, y) \<in> set ?u"
    then have "map_of ?u c = Some x" "map_of ?u e = Some y" using r(1) by simp_all
    then show "x \<le> y + max_load hb" using r(3) max_load_nonneg by (auto split: if_splits)
  qed
  note st = sorted_stats [of hb]
  from assign_fold_ok [OF ko r(1) ne bal st(1) [OF pos] st(3) [OF d], of "a_assign a"] obtain a' u' where
    f: "rfold (assign_step ko) (a_assign a, ?u) ?stats = Inr (a', u')" "dkeys u' = dkeys ?u"
    "balanced (max_load hb) u'"
    "\<forall>h. h \<notin> snd ` set ?stats \<longrightarrow> map_of a' h = map_of (a_assign a) h"
    "\<forall>h \<in> snd ` set ?stats. \<exists>c \<in> set (dkeys ?u). map_of a' h = Some (Some c)"
    "\<forall>k. map_of u' k = map_option (\<lambda>x. x + assigned a' ?stats k) (map_of ?u k)"
    by blast
  let ?a' = "a\<lparr>a_assign := a', a_util := u'\<rparr>"
  have "redistribute ko t hb a = Inr ?a'" using f(1) by (simp add: redistribute_def)
  moreover have "util_over t (a_util ?a')" "set (dkeys (a_util ?a')) = set (dkeys (t_cores t))"
    using f(2) r(1,2) by (simp_all add: util_over_def)
  moreover have "\<forall>c \<in> set (dkeys (t_cores t)). map_of (a_util ?a') c =
        Some (sum_list (map (bw_in \<circ> snd) (filter (\<lambda>p. map_of (a_assign ?a') (fst p) = Some (Some c)) hb)))"
    using f(6) r(3) assigned_sorted by simp
  moreover have "\<forall>h \<in> set (dkeys hb). \<exists>c \<in> set (dkeys (t_cores t)). map_of (a_assign ?a') h = Some (Some c)"
    "\<forall>h. h \<notin> set (dkeys hb) \<longrightarrow> map_of (a_assign ?a') h = map_of (a_assign a) h"
    using f(4,5) unfolding st(2) r(2) by simp_all
  moreover have "balanced (max_load hb) (a_util ?a')" using f(3) by simp
  ultimately show ?thesis by (intro exI [of _ ?a'] conjI)
qed

theorem AdaptivePolicy_tables:
  assumes wf: "wf_topology t"
    and ch: "\<And>h. h \<in> set (dvals (t_hosts t)) \<Longrightarrow>
        map_of (a_assign a) (h_name h) = Some (Some (choice h)) \<and> choice h \<in> set (dkeys (t_cores t))"
  shows "\<exists>rt. AdaptivePolicy_build t a = Inr rt \<and> policy_tables t (\<lambda>_. True) choice rt"
proof -
  have "choice_ok t (\<lambda>h. dget (a_assign a) (h_name h)) choice"
    using ch unfolding choice_ok_def by (simp add: dget_def)
  from all_cores_build_tables [OF wf this] show ?thesis
    by (simp add: AdaptivePolicy_build_def all_cores_build_def)
qed

section \<open>The policy object\<close>

definition adaptive_inv :: "topology \<Rightarrow> adaptive \<Rightarrow> bool" where
  "adaptive_inv t a \<longleftrightarrow> util_over t (a_util a) \<and>
     (\<forall>h \<in> set (dkeys (t_hosts t)). \<exists>c \<in> set (dkeys (t_cores t)). map_of (a_assign a) h = Some (Some c))"

definition assigned_core :: "adaptive \<Rightarrow> host \<Rightarrow> string" where
  "assigned_core a h = (case map_of (a_assign a) (h_name h) of Some (Some c) \<Rightarrow> c | _ \<Rightarrow> [])"

lemma assigned_core_ok:
  assumes wf: "wf_topology t" and inv: "adaptive_inv t a" and h: "h \<in> set (dvals (t_hosts t))"
  shows "map_of (a_assign a) (h_name h) = Some (Some (assigned_core a h)) \<and> assigned_core a h \<in> set (dkeys (t_cores t))"
proof -
  from h obtain k where k: "(k, h) \<in> set (t_hosts t)" by auto
  have "h_name h = k" by (rule wf_host [OF wf k])
  moreover have "k \<in> set (dkeys (t_hosts t))" using k by (auto intro: rev_image_eqI)
  ultimately obtain c where "c \<in> set (dkeys (t_cores t))" "map_of (a_assign a) (h_name h) = Some (Some c)"
    using inv unfolding adaptive_inv_def by blast
  then show ?thesis by (simp add: assigned_core_def)
qed

lemma AdaptivePolicy_build_inv:
  assumes "wf_topology t" and "adaptive_inv t a"
  shows "\<exists>rt. AdaptivePolicy_build t a = Inr rt \<and> policy_tables t (\<lambda>_. True) (assigned_core a) rt"
  by (rule AdaptivePolicy_tables [OF assms(1) assigned_core_ok [OF assms]])

lemma adaptive_inv_table [simp]: "adaptive_inv t (a\<lparr>a_table := r\<rparr>) = adaptive_inv t a"
  by (simp add: adaptive_inv_def)

lemma AdaptivePolicy_init_ok:
  assumes wf: "wf_topology t" and c0: "t_cores t = (core, sw) # rest"
  shows "\<exists>a. AdaptivePolicy_init t = Inr a \<and> adaptive_inv t a"
proof -
  let ?d = "foldl (\<lambda>d h. dput d h (Some core)) [] (dkeys (t_hosts t))"
  let ?a = "\<lparr>a_assign = ?d, a_util = [], a_table = []\<rparr>"
  have all: "map_of (foldl (\<lambda>d h. dput d h (Some core)) d hs) k = (if k \<in> set hs then Some (Some core) else map_of d k)"
    for d :: "(string, string option) dict" and hs k
    by (induction hs arbitrary: d) auto
  have "core \<in> set (dkeys (t_cores t))" using c0 by simp
  then have inv: "adaptive_inv t ?a"
    unfolding adaptive_inv_def util_over_def by (simp add: all del: set_map)
  then obtain rt where "AdaptivePolicy_build t ?a = Inr rt" using AdaptivePolicy_build_inv [OF wf] by blast
  with inv show ?thesis
    by (intro exI [of _ "?a\<lparr>a_table := rt\<rparr>"]) (simp only: adaptive_inv_table, simp add: AdaptivePolicy_init_def c0 Let_def)
qed

lemma adaptive_routingTable_ok:
  assumes wf: "wf_topology t" and ko: "is_order ko" and cores: "t_cores t \<noteq> []" and inv: "adaptive_inv t a"
    and d: "distinct (dkeys hb)" and pos: "\<forall>p \<in> set hb. 0 \<le> bw_in (snd p)"
  shows "\<exists>a' rt. adaptive_routingTable ko t hb a = Inr (a', rt) \<and> adaptive_inv t a' \<and>
    policy_tables t (\<lambda>_. True) (assigned_core a') rt \<and> balanced (max_load hb) (a_util a')"
proof -
  have uo: "util_over t (a_util a)" using inv by (simp add: adaptive_inv_def)
  obtain a' where a': "redistribute ko t hb a = Inr a'" "util_over t (a_util a')" "balanced (max_load hb) (a_util a')"
    "\<forall>h \<in> set (dkeys hb). \<exists>c \<in> set (dkeys (t_cores t)). map_of (a_assign a') h = Some (Some c)"
    "\<forall>h. h \<notin> set (dkeys hb) \<longrightarrow> map_of (a_assign a') h = map_of (a_assign a) h"
    using redistribute_ok [OF ko cores uo d pos] by blast
  have inv': "adaptive_inv t a'"
    unfolding adaptive_inv_def
  proof (intro conjI ballI)
    show "util_over t (a_util a')" by (rule a'(2))
    fix h assume h: "h \<in> set (dkeys (t_hosts t))"
    show "\<exists>c \<in> set (dkeys (t_cores t)). map_of (a_assign a') h = Some (Some c)"
    proof (cases "h \<in> set (dkeys hb)")
      case True
      with a'(4) show ?thesis by blast
    next
      case False
      with a'(5) have "map_of (a_assign a') h = map_of (a_assign a) h" by blast
      with h inv show ?thesis unfolding adaptive_inv_def by metis
    qed
  qed
  obtain rt where "AdaptivePolicy_build t a' = Inr rt" "policy_tables t (\<lambda>_. True) (assigned_core a') rt"
    using AdaptivePolicy_build_inv [OF wf inv'] by blast
  with a'(1,3) inv' show ?thesis by (simp add: adaptive_routingTable_def)
qed

end
