(* ===== verification/Dataplane.thy ===== *)
theory Dataplane
  imports Adaptive
begin

text \<open>
  The frames a network of switches delivers under the tables of the policies. What a switch
  does with its table is not part of the program: it is the argument \<open>xmit\<close>, and \<open>openflow\<close>
  says what the protocol promises of it (the entry of highest priority among those that
  match is executed, no match means drop, a frame is not sent back to its ingress port
  unless asked, \<^verbatim>\<open>FLOOD\<close> is every other port). The wiring is the port map of the topology.
  \<open>deliver\<close> follows a frame; its fuel counts the switches on a path, \<open>None\<close> means that a
  path is longer, so a result also shows that the tables have no loop for that frame.
\<close>

section \<open>The switch and the network\<close>

record frame =
  fr_src :: string
  fr_dst :: string

fun matches :: "flow_match \<Rightarrow> frame \<Rightarrow> int \<Rightarrow> bool" where
  "matches (MSrc e) f inp \<longleftrightarrow> fr_src f = e"
| "matches (MDst e) f inp \<longleftrightarrow> fr_dst f = e"
| "matches (MInport p) f inp \<longleftrightarrow> p = PInt inp"
| "matches MNone f inp \<longleftrightarrow> True"

definition expand :: "int list \<Rightarrow> int \<Rightarrow> pyatom list \<Rightarrow> int list" where
  "expand ports inp outs = concat (map (\<lambda>a. case a of
       PInt p \<Rightarrow> if p = inp then [] else [p]
     | PStr _ \<Rightarrow> filter (\<lambda>p. p \<noteq> inp) ports) outs)"

type_synonym switch_fun = "flow list \<Rightarrow> int list \<Rightarrow> frame \<Rightarrow> int \<Rightarrow> int list"

definition openflow :: "switch_fun \<Rightarrow> bool" where
  "openflow xmit \<longleftrightarrow> (\<forall>tbl ports f inp.
     (let ms = filter (\<lambda>x. matches (f_match x) f inp) tbl in
      if ms = [] then xmit tbl ports f inp = []
      else \<exists>x \<in> set ms. (\<forall>y \<in> set ms. f_priority y \<le> f_priority x) \<and>
             xmit tbl ports f inp = expand ports inp (f_output x)))"

definition peer :: "topology \<Rightarrow> string \<Rightarrow> int \<Rightarrow> string option" where
  "peer t sw p = (case port_at t sw (PInt p) of Inr (PStr n) \<Rightarrow> Some n | _ \<Rightarrow> None)"

definition ingress :: "topology \<Rightarrow> string \<Rightarrow> string \<Rightarrow> int option" where
  "ingress t sw n = (case port_at t sw (PStr n) of Inr (PInt p) \<Rightarrow> Some p | _ \<Rightarrow> None)"

definition sw_dpid :: "topology \<Rightarrow> string \<Rightarrow> int option" where
  "sw_dpid t n = (case map_of (t_edges t) n of Some e \<Rightarrow> Some (e_dpid e)
     | None \<Rightarrow> map_option c_dpid (map_of (t_cores t) n))"

definition sw_out :: "switch_fun \<Rightarrow> topology \<Rightarrow> rtable \<Rightarrow> frame \<Rightarrow> string \<Rightarrow> int \<Rightarrow> int list" where
  "sw_out xmit t rt fr sw inp = (case sw_dpid t sw of None \<Rightarrow> []
     | Some d \<Rightarrow> xmit (olist (map_of rt d)) (map (\<lambda>i. 1 + int i) [0..<length (adjacent t sw)]) fr inp)"

fun ocat :: "'a list option list \<Rightarrow> 'a list option" where
  "ocat [] = Some []"
| "ocat (x # xs) = (case x of None \<Rightarrow> None | Some a \<Rightarrow> map_option (\<lambda>b. a @ b) (ocat xs))"

text \<open>The hosts that receive the frame which enters switch \<open>sw\<close> at port \<open>inp\<close>.\<close>

fun deliver :: "nat \<Rightarrow> switch_fun \<Rightarrow> topology \<Rightarrow> rtable \<Rightarrow> frame \<Rightarrow> string \<Rightarrow> int \<Rightarrow> string list option" where
  "deliver 0 xmit t rt fr sw inp = None"
| "deliver (Suc n) xmit t rt fr sw inp = ocat (map (\<lambda>p.
     case peer t sw p of
       None \<Rightarrow> Some []
     | Some m \<Rightarrow> if m \<in> set (dkeys (t_hosts t)) then Some [m]
         else (case ingress t m sw of None \<Rightarrow> Some [] | Some q \<Rightarrow> deliver n xmit t rt fr m q))
     (sw_out xmit t rt fr sw inp))"

text \<open>A frame sent by host \<open>h\<close>.\<close>

definition send :: "nat \<Rightarrow> switch_fun \<Rightarrow> topology \<Rightarrow> rtable \<Rightarrow> host \<Rightarrow> string \<Rightarrow> string list option" where
  "send n xmit t rt h dst =
     (case ingress t (h_switch h) (h_name h) of None \<Rightarrow> Some []
      | Some q \<Rightarrow> deliver n xmit t rt \<lparr>fr_src = h_eth h, fr_dst = dst\<rparr> (h_switch h) q)"

section \<open>Entries and priorities\<close>

lemma openflow_top:
  assumes "openflow xmit" and "x \<in> set tbl" and "matches (f_match x) f inp"
    and "\<And>y. y \<in> set tbl \<Longrightarrow> matches (f_match y) f inp \<Longrightarrow> f_priority x \<le> f_priority y \<Longrightarrow> f_output y = f_output x"
  shows "xmit tbl ports f inp = expand ports inp (f_output x)"
proof -
  let ?ms = "filter (\<lambda>x. matches (f_match x) f inp) tbl"
  have "x \<in> set ?ms" using assms(2,3) by simp
  then have "?ms \<noteq> []" by (metis empty_iff empty_set)
  then obtain z where z: "z \<in> set ?ms" "\<forall>y \<in> set ?ms. f_priority y \<le> f_priority z"
    "xmit tbl ports f inp = expand ports inp (f_output z)"
    using assms(1) unfolding openflow_def Let_def by meson
  have "z \<in> set tbl" "matches (f_match z) f inp" using z(1) by simp_all
  moreover have "f_priority x \<le> f_priority z" using z(2) \<open>x \<in> set ?ms\<close> by blast
  ultimately have "f_output z = f_output x" by (rule assms(4))
  with z(3) show ?thesis by simp
qed

lemma core_tail_low: "y \<in> set (map src_flow (dvals (t_hosts t)) @ [drop_flow]) \<Longrightarrow> f_priority y \<le> 1"
  by (auto simp: src_flow_def drop_flow_def)

lemma edge_tail_low: "y \<in> set (edge_tail t e) \<Longrightarrow> f_priority y \<le> 1"
  by (auto simp: edge_tail_def down_flow_def up_flow_def inport_flow_def drop_flow_def)

lemma dst_entry:
  assumes "openflow xmit" and d: "distinct (map h_eth hs)" and h: "h \<in> set hs"
    and low: "\<And>y. y \<in> set tail \<Longrightarrow> f_priority y \<le> 1"
  shows "xmit (map (\<lambda>h. dst_flow h (g h)) hs @ tail) ports \<lparr>fr_src = s, fr_dst = h_eth h\<rparr> inp
      = expand ports inp [g h]"
proof -
  let ?f = "\<lparr>fr_src = s, fr_dst = h_eth h\<rparr>" and ?x = "dst_flow h (g h)"
  let ?tbl = "map (\<lambda>h. dst_flow h (g h)) hs @ tail"
  have same: "f_output y = f_output ?x" if "y \<in> set ?tbl" "matches (f_match y) ?f inp" "f_priority ?x \<le> f_priority y" for y
  proof -
    have "y \<notin> set tail" using low [of y] that(3) by (auto simp: dst_flow_def)
    then have "y \<in> (\<lambda>h. dst_flow h (g h)) ` set hs" using that(1) by simp
    then obtain h' where h': "h' \<in> set hs" "y = dst_flow h' (g h')" by blast
    then have "h_eth h' = h_eth h" using that(2) by (simp add: dst_flow_def)
    then have "h' = h" using d h h'(1) by (simp add: distinct_map inj_on_def)
    with h' show ?thesis by simp
  qed
  have "?x \<in> set ?tbl" using h by simp
  moreover have "matches (f_match ?x) ?f inp" by (simp add: dst_flow_def)
  ultimately have "xmit ?tbl ports ?f inp = expand ports inp (f_output ?x)"
    using same by (rule openflow_top [OF assms(1)])
  then show ?thesis by (simp add: dst_flow_def)
qed

section \<open>Ports\<close>

lemma port_no_inj: "n \<in> set (adjacent t sw) \<Longrightarrow> m \<in> set (adjacent t sw) \<Longrightarrow>
    port_no t sw n = port_no t sw m \<longleftrightarrow> n = m"
  unfolding port_no_def by (metis add_left_cancel idx_nth of_nat_eq_iff)

lemma peer_port_no: "wf_topology t \<Longrightarrow> n \<in> set (adjacent t sw) \<Longrightarrow> peer t sw (port_no t sw n) = Some n"
  using tp.node_at [of t "idx (adjacent t sw) n" sw] idx_nth [of n "adjacent t sw"]
  by (simp add: peer_def port_no_def)

lemma ingress_port_no: "wf_topology t \<Longrightarrow> n \<in> set (adjacent t sw) \<Longrightarrow> ingress t sw n = Some (port_no t sw n)"
  by (simp add: ingress_def port_at_port_no)

lemma all_ports: "distinct (adjacent t sw) \<Longrightarrow>
    map (\<lambda>i. 1 + int i) [0..<length (adjacent t sw)] = map (port_no t sw) (adjacent t sw)"
proof -
  have "idx xs (xs ! i) = i" if "distinct xs" "i < length xs" for xs :: "string list" and i
    using idx_nth [of "xs ! i" xs] that by (metis nth_eq_iff_index_eq nth_mem)
  then show "distinct (adjacent t sw) \<Longrightarrow> ?thesis"
    by (intro nth_equalityI) (auto simp: port_no_def)
qed

lemma expand_ports:
  assumes "n \<in> set (adjacent t sw)" and "set ms \<subseteq> set (adjacent t sw)"
  shows "expand ports (port_no t sw n) (map (\<lambda>m. PInt (port_no t sw m)) ms)
       = map (port_no t sw) (filter (\<lambda>m. m \<noteq> n) ms)"
  using assms(2) by (induction ms) (auto simp: expand_def port_no_inj assms(1))

lemma expand_flood:
  assumes "n \<in> set (adjacent t sw)"
  shows "expand (map (port_no t sw) (adjacent t sw)) (port_no t sw n) [FLOOD]
       = map (port_no t sw) (filter (\<lambda>m. m \<noteq> n) (adjacent t sw))"
proof -
  have "filter (\<lambda>p. p \<noteq> port_no t sw n) (map (port_no t sw) ms) = map (port_no t sw) (filter (\<lambda>m. m \<noteq> n) ms)"
    if "set ms \<subseteq> set (adjacent t sw)" for ms
    using that by (induction ms) (auto simp: port_no_inj assms)
  then show ?thesis by (simp add: expand_def)
qed

text \<open>One hop, when the switch sends to the nodes \<open>ns\<close>.\<close>

lemma hop:
  assumes wf: "wf_topology t" and out: "sw_out xmit t rt fr sw inp = map (port_no t sw) ns"
    and adj: "set ns \<subseteq> set (adjacent t sw)"
  shows "deliver (Suc n) xmit t rt fr sw inp = ocat (map (\<lambda>m.
      if m \<in> set (dkeys (t_hosts t)) then Some [m]
      else (case ingress t m sw of None \<Rightarrow> Some [] | Some q \<Rightarrow> deliver n xmit t rt fr m q)) ns)"
  using adj by (auto simp: out comp_def peer_port_no [OF wf] subset_iff intro!: arg_cong [of _ _ ocat])

lemma ocat_Some: "ocat (map (\<lambda>x. Some (f x)) xs) = Some (concat (map f xs))"
  by (induction xs) auto

lemma ocat_append: "ocat (xs @ ys) = (case ocat xs of None \<Rightarrow> None | Some a \<Rightarrow> map_option (\<lambda>b. a @ b) (ocat ys))"
proof (induction xs)
  case Nil
  show ?case by (cases "ocat ys") auto
next
  case (Cons x xs)
  then show ?case by (cases x; cases "ocat xs"; cases "ocat ys") auto
qed

section \<open>The nodes around a switch\<close>

lemma host_edge:
  assumes wf: "wf_topology t" and h: "h \<in> set (dvals (t_hosts t))"
  obtains e where "(h_switch h, e) \<in> set (t_edges t)" "h_name h \<in> set (e_neighbors e)"
    "(h_name h, h) \<in> set (t_hosts t)"
proof -
  from h obtain k where k: "(k, h) \<in> set (t_hosts t)" by auto
  then obtain e where "h_name h = k" "(h_switch h, e) \<in> set (t_edges t)" "k \<in> set (e_neighbors e)"
    by (rule wf_host [OF wf])
  with k that show thesis by metis
qed

lemma near_edge:
  assumes "wf_topology t" and "(k, e) \<in> set (t_edges t)"
  shows "set (adjacent t k) = set (dkeys (t_cores t)) \<union> set (e_neighbors e)"
  by (simp add: adjacent_edge [OF assms])

lemma near_core:
  assumes "wf_topology t" and "c \<in> set (dkeys (t_cores t))"
  shows "set (adjacent t c) = set (dkeys (t_edges t))"
  by (simp add: adjacent_core [OF assms])

lemma neighbor_iff:
  assumes wf: "wf_topology t" and e: "(k, e) \<in> set (t_edges t)" and h: "h \<in> set (dvals (t_hosts t))"
  shows "h_name h \<in> set (e_neighbors e) \<longleftrightarrow> h_switch h = k"
proof -
  from host_edge [OF wf h] have n: "(h_name h, h) \<in> set (t_hosts t)" by blast
  then have "h' = h" if "(h_name h, h') \<in> set (t_hosts t)" for h'
    using that wf_names(3) [OF wf] by (metis map_of_eq_Some_distinct option.inject)
  with n show ?thesis unfolding wf_edge(3) [OF wf e] by blast
qed

lemma not_host:
  assumes wf: "wf_topology t"
  shows "k \<in> set (dkeys (t_edges t)) \<Longrightarrow> k \<notin> set (dkeys (t_hosts t))"
    "c \<in> set (dkeys (t_cores t)) \<Longrightarrow> c \<notin> set (dkeys (t_hosts t))"
  using wf_names(5,6) [OF wf] by blast+

section \<open>The tables in the network\<close>

lemma edge_table:
  assumes wf: "wf_topology t" and pt: "policy_tables t active choice rt" and e: "(k, e) \<in> set (t_edges t)"
  shows "sw_out xmit t rt fr k inp =
    xmit (edge_dst t choice e @ edge_tail t e) (map (port_no t k) (adjacent t k)) fr inp"
proof -
  have "sw_dpid t k = Some (e_dpid e)" by (simp add: sw_dpid_def wf_edge(4) [OF wf e])
  moreover have "e \<in> set (dvals (t_edges t))" using e by (auto intro: rev_image_eqI)
  then have "map_of rt (e_dpid e) = Some (edge_dst t choice e @ edge_tail t e)"
    using pt unfolding policy_tables_def by blast
  ultimately show ?thesis by (simp add: sw_out_def all_ports [OF distinct_adjacent [OF wf]])
qed

lemma core_table:
  assumes wf: "wf_topology t" and pt: "policy_tables t active choice rt" and c: "(k, c) \<in> set (t_cores t)"
  shows "sw_out xmit t rt fr k inp =
    xmit (core_tail t (if active k then Some (core_dst t k) else None)) (map (port_no t k) (adjacent t k)) fr inp"
proof -
  have k: "k \<in> set (dkeys (t_cores t))" using c by (auto intro: rev_image_eqI)
  then have "k \<notin> set (dkeys (t_edges t))" using wf_names(4) [OF wf] by blast
  then have "map_of (t_edges t) k = None" by (rule key_lookup_None)
  moreover have "map_of (t_cores t) k = Some c" using c wf_names(1) [OF wf] by simp
  ultimately have "sw_dpid t k = Some (c_dpid c)" by (simp add: sw_dpid_def)
  moreover have "c \<in> set (dvals (t_cores t))" using c by (auto intro: rev_image_eqI)
  then have "map_of rt (c_dpid c) = Some (core_tail t (if active (c_name c) then Some (core_dst t (c_name c)) else None))"
    using pt unfolding policy_tables_def by blast
  ultimately show ?thesis
    using wf_core [OF wf c] by (simp add: sw_out_def all_ports [OF distinct_adjacent [OF wf]])
qed

lemma eth_distinct: "wf_topology t \<Longrightarrow> distinct (map h_eth (dvals (t_hosts t)))"
  by (simp add: wf_topology_def)

lemma edge_unicast:
  assumes wf: "wf_topology t" and of: "openflow xmit" and pt: "policy_tables t active choice rt"
    and e: "(k, e) \<in> set (t_edges t)" and h: "h \<in> set (dvals (t_hosts t))"
  shows "sw_out xmit t rt \<lparr>fr_src = s, fr_dst = h_eth h\<rparr> k inp =
    expand (map (port_no t k) (adjacent t k)) inp
      [PInt (port_no t k (if h_switch h = k then h_name h else choice h))]"
  unfolding edge_table [OF wf pt e] edge_dst_def wf_edge(1) [OF wf e] neighbor_iff [OF wf e h, symmetric]
  by (rule dst_entry [OF of eth_distinct [OF wf] h edge_tail_low])

lemma core_unicast:
  assumes wf: "wf_topology t" and of: "openflow xmit" and pt: "policy_tables t active choice rt"
    and c: "(k, c) \<in> set (t_cores t)" and act: "active k" and h: "h \<in> set (dvals (t_hosts t))"
  shows "sw_out xmit t rt \<lparr>fr_src = s, fr_dst = h_eth h\<rparr> k inp =
    expand (map (port_no t k) (adjacent t k)) inp [PInt (port_no t k (h_switch h))]"
  unfolding core_table [OF wf pt c] core_tail_def core_dst_def if_P [OF act] option.case append_assoc
  by (rule dst_entry [OF of eth_distinct [OF wf] h core_tail_low])

section \<open>Unicast frames arrive\<close>

lemma last_hop:
  assumes wf: "wf_topology t" and of: "openflow xmit" and pt: "policy_tables t active choice rt"
    and h: "h \<in> set (dvals (t_hosts t))" and n: "n \<in> set (adjacent t (h_switch h))" "n \<noteq> h_name h"
  shows "deliver (Suc f) xmit t rt \<lparr>fr_src = s, fr_dst = h_eth h\<rparr> (h_switch h) (port_no t (h_switch h) n) = Some [h_name h]"
proof -
  obtain e where e: "(h_switch h, e) \<in> set (t_edges t)" "h_name h \<in> set (e_neighbors e)" "(h_name h, h) \<in> set (t_hosts t)"
    by (rule host_edge [OF wf h])
  have adj: "h_name h \<in> set (adjacent t (h_switch h))" using e(2) near_edge [OF wf e(1)] by blast
  have "sw_out xmit t rt \<lparr>fr_src = s, fr_dst = h_eth h\<rparr> (h_switch h) (port_no t (h_switch h) n)
      = map (port_no t (h_switch h)) [h_name h]"
    using edge_unicast [OF wf of pt e(1) h, of s] expand_ports [OF n(1), of "[h_name h]"] n(2) adj by simp
  from hop [OF wf this] have "deliver (Suc f) xmit t rt \<lparr>fr_src = s, fr_dst = h_eth h\<rparr> (h_switch h) (port_no t (h_switch h) n)
      = ocat (map (\<lambda>m. if m \<in> set (dkeys (t_hosts t)) then Some [m] else
          (case ingress t m (h_switch h) of None \<Rightarrow> Some [] | Some q \<Rightarrow> deliver f xmit t rt \<lparr>fr_src = s, fr_dst = h_eth h\<rparr> m q)) [h_name h])"
    using adj by simp
  also have "\<dots> = Some [h_name h]" using e(3) by (force intro: rev_image_eqI)
  finally show ?thesis .
qed

lemma core_hop:
  assumes wf: "wf_topology t" and of: "openflow xmit" and pt: "policy_tables t active choice rt"
    and h: "h \<in> set (dvals (t_hosts t))" and c: "c \<in> set (dkeys (t_cores t))" and act: "active c"
    and k: "k \<in> set (dkeys (t_edges t))" "k \<noteq> h_switch h"
  shows "deliver (Suc (Suc f)) xmit t rt \<lparr>fr_src = s, fr_dst = h_eth h\<rparr> c (port_no t c k) = Some [h_name h]"
proof -
  from c obtain cs where cs: "(c, cs) \<in> set (t_cores t)" by auto
  obtain e where e: "(h_switch h, e) \<in> set (t_edges t)" "h_name h \<in> set (e_neighbors e)"
    by (rule host_edge [OF wf h])
  have hk: "h_switch h \<in> set (dkeys (t_edges t))" using e(1) by (auto intro: rev_image_eqI)
  then have adj: "h_switch h \<in> set (adjacent t c)" using near_core [OF wf c] by blast
  have kadj: "k \<in> set (adjacent t c)" using near_core [OF wf c] k(1) by blast
  have "sw_out xmit t rt \<lparr>fr_src = s, fr_dst = h_eth h\<rparr> c (port_no t c k) = map (port_no t c) [h_switch h]"
    using core_unicast [OF wf of pt cs act h, of s] expand_ports [OF kadj, of "[h_switch h]"] k(2) adj by simp
  from hop [OF wf this] adj have "deliver (Suc (Suc f)) xmit t rt \<lparr>fr_src = s, fr_dst = h_eth h\<rparr> c (port_no t c k)
      = ocat (map (\<lambda>m. if m \<in> set (dkeys (t_hosts t)) then Some [m] else
          (case ingress t m c of None \<Rightarrow> Some [] | Some q \<Rightarrow> deliver (Suc f) xmit t rt \<lparr>fr_src = s, fr_dst = h_eth h\<rparr> m q)) [h_switch h])"
    by simp
  moreover have cadj: "c \<in> set (adjacent t (h_switch h))" using c near_edge [OF wf e(1)] by blast
  moreover have "c \<noteq> h_name h" using wf_neighbor_not_core(2) [OF wf e(1,2)] c by blast
  ultimately show ?thesis
    using not_host(1) [OF wf hk] last_hop [OF wf of pt h cadj, of f s]
    by (simp add: ingress_port_no [OF wf cadj] del: deliver.simps set_map)
qed

text \<open>
  Every unicast frame from one host to another arrives at its destination and nowhere
  else, over at most three switches, provided the chosen core switches are active.
\<close>

lemma unicast:
  assumes wf: "wf_topology t" and of: "openflow xmit" and pt: "policy_tables t active choice rt"
    and h: "h \<in> set (dvals (t_hosts t))" and g: "g \<in> set (dvals (t_hosts t))" and ne: "h_name h \<noteq> h_name g"
    and ch: "choice g \<in> set (dkeys (t_cores t))" "active (choice g)"
  shows "send 3 xmit t rt h (h_eth g) = Some [h_name g]"
proof -
  obtain e where e: "(h_switch h, e) \<in> set (t_edges t)" "h_name h \<in> set (e_neighbors e)"
    by (rule host_edge [OF wf h])
  have hadj: "h_name h \<in> set (adjacent t (h_switch h))" using e(2) near_edge [OF wf e(1)] by blast
  let ?fr = "\<lparr>fr_src = h_eth h, fr_dst = h_eth g\<rparr>" and ?k = "h_switch h"
  have s: "send 3 xmit t rt h (h_eth g) = deliver (Suc (Suc (Suc 0))) xmit t rt ?fr ?k (port_no t ?k (h_name h))"
    unfolding send_def ingress_port_no [OF wf hadj] numeral_3_eq_3 by simp
  show ?thesis
  proof (cases "h_switch g = ?k")
    case True
    then show ?thesis unfolding s
      using last_hop [OF wf of pt g _ ne, of "Suc (Suc 0)" "h_eth h"] hadj by simp
  next
    case False
    have cadj: "choice g \<in> set (adjacent t ?k)" using ch(1) near_edge [OF wf e(1)] by blast
    have k: "?k \<in> set (dkeys (t_edges t))" using e(1) by (auto intro: rev_image_eqI)
    have kadj: "?k \<in> set (adjacent t (choice g))" using k near_core [OF wf ch(1)] by blast
    have "choice g \<noteq> h_name h" using wf_neighbor_not_core(2) [OF wf e(1,2)] ch(1) by metis
    then have "sw_out xmit t rt ?fr ?k (port_no t ?k (h_name h)) = map (port_no t ?k) [choice g]"
      using edge_unicast [OF wf of pt e(1) g, of "h_eth h"] expand_ports [OF hadj, of "[choice g]"] cadj False by simp
    from hop [OF wf this] cadj
    have "deliver (Suc (Suc (Suc 0))) xmit t rt ?fr ?k (port_no t ?k (h_name h))
      = ocat (map (\<lambda>m. if m \<in> set (dkeys (t_hosts t)) then Some [m] else
          (case ingress t m ?k of None \<Rightarrow> Some [] | Some q \<Rightarrow> deliver (Suc (Suc 0)) xmit t rt ?fr m q)) [choice g])"
      by simp
    moreover have "?k \<noteq> h_switch g" using False by simp
    ultimately show ?thesis unfolding s
      using not_host(2) [OF wf ch(1)] core_hop [OF wf of pt g ch(1) ch(2) k, of 0 "h_eth h"]
      by (simp add: ingress_port_no [OF wf kadj] del: deliver.simps set_map)
  qed
qed

section \<open>Broadcast frames\<close>

definition no_host_eth :: "topology \<Rightarrow> string \<Rightarrow> bool" where
  "no_host_eth t dst \<longleftrightarrow> dst \<notin> set (map h_eth (dvals (t_hosts t)))"

lemma no_dst_match:
  "no_host_eth t (fr_dst fr) \<Longrightarrow> y \<in> set (map (\<lambda>h. dst_flow h (g h)) (dvals (t_hosts t))) \<Longrightarrow>
     \<not> matches (f_match y) fr inp"
  by (auto simp: no_host_eth_def dst_flow_def image_iff)

lemma no_dst_edge: "no_host_eth t (fr_dst fr) \<Longrightarrow> matches (f_match y) fr inp \<Longrightarrow> y \<notin> set (edge_dst t choice e)"
  unfolding edge_dst_def by (rule notI) (drule (1) no_dst_match [where inp = inp], simp)

lemma no_dst_core: "no_host_eth t (fr_dst fr) \<Longrightarrow> matches (f_match y) fr inp \<Longrightarrow> y \<notin> set (core_dst t c)"
  unfolding core_dst_def by (rule notI) (drule (1) no_dst_match [where inp = inp], simp)

text \<open>An edge switch: only the flooding rule of the ingress port matches above priority 0.\<close>

lemma edge_inport:
  assumes wf: "wf_topology t" and of: "openflow xmit" and e: "(k, e) \<in> set (t_edges t)"
    and bc: "no_host_eth t (fr_dst fr)" and n: "n \<in> set (adjacent t k)"
    and fl: "fl = (if n \<in> set (dkeys (t_cores t)) then down_flow t e n else up_flow t e n)"
  shows "xmit (edge_dst t choice e @ edge_tail t e) ports fr (port_no t k n) = expand ports (port_no t k n) (f_output fl)"
proof (rule openflow_top [OF of])
  have en: "e_name e = k" by (rule wf_edge(1) [OF wf e])
  have dis: "m \<notin> set (dkeys (t_cores t))" if "m \<in> set (e_neighbors e)" for m
    using wf_neighbor_not_core(2) [OF wf e that] .
  show "fl \<in> set (edge_dst t choice e @ edge_tail t e)"
    using n near_edge [OF wf e] by (auto simp: fl edge_tail_def)
  show "matches (f_match fl) fr (port_no t k n)"
    by (simp add: fl down_flow_def up_flow_def inport_flow_def en)
  fix y assume y: "y \<in> set (edge_dst t choice e @ edge_tail t e)" "matches (f_match y) fr (port_no t k n)"
    "f_priority fl \<le> f_priority y"
  have "y \<notin> set (edge_dst t choice e)" by (rule no_dst_edge [OF bc y(2)])
  moreover have "y \<noteq> drop_flow"
    using y(3) by (auto simp: fl drop_flow_def down_flow_def up_flow_def inport_flow_def split: if_splits)
  ultimately have "y \<in> down_flow t e ` set (dkeys (t_cores t)) \<or> y \<in> up_flow t e ` set (e_neighbors e)"
    using y(1) by (auto simp: edge_tail_def)
  then show "f_output y = f_output fl"
  proof
    assume "y \<in> down_flow t e ` set (dkeys (t_cores t))"
    then obtain c where c: "c \<in> set (dkeys (t_cores t))" "y = down_flow t e c" by blast
    then have "port_no t k c = port_no t k n" using y(2) by (simp add: down_flow_def inport_flow_def en)
    then have "c = n" using port_no_inj [OF _ n] c(1) near_edge [OF wf e] by blast
    with c fl show ?thesis by simp
  next
    assume "y \<in> up_flow t e ` set (e_neighbors e)"
    then obtain m where m: "m \<in> set (e_neighbors e)" "y = up_flow t e m" by blast
    then have "port_no t k m = port_no t k n" using y(2) by (simp add: up_flow_def inport_flow_def en)
    then have "m = n" using port_no_inj [OF _ n] m(1) near_edge [OF wf e] by blast
    with m fl dis [OF m(1)] show ?thesis by simp
  qed
qed

lemma edge_bcast_down:
  assumes wf: "wf_topology t" and of: "openflow xmit" and pt: "policy_tables t active choice rt"
    and e: "(k, e) \<in> set (t_edges t)" and bc: "no_host_eth t (fr_dst fr)" and c: "c \<in> set (dkeys (t_cores t))"
  shows "sw_out xmit t rt fr k (port_no t k c) = map (port_no t k) (e_neighbors e)"
proof -
  have cadj: "c \<in> set (adjacent t k)" using c near_edge [OF wf e] by blast
  have "set (e_neighbors e) \<subseteq> set (adjacent t k)" using near_edge [OF wf e] by blast
  note x = expand_ports [OF cadj this]
  have "filter (\<lambda>m. m \<noteq> c) (e_neighbors e) = e_neighbors e"
    using wf_neighbor_not_core(2) [OF wf e] c by (metis (mono_tags, lifting) filter_True)
  with x show ?thesis
    unfolding edge_table [OF wf pt e] edge_inport [OF wf of e bc cadj refl] if_P [OF c]
    by (simp add: down_flow_def inport_flow_def wf_edge(1) [OF wf e])
qed

lemma edge_bcast_up:
  assumes wf: "wf_topology t" and of: "openflow xmit" and pt: "policy_tables t active choice rt"
    and e: "(k, e) \<in> set (t_edges t)" and bc: "no_host_eth t (fr_dst fr)" and n: "n \<in> set (e_neighbors e)"
  shows "sw_out xmit t rt fr k (port_no t k n) =
    map (port_no t k) (dkeys (t_cores t) @ filter (\<lambda>m. m \<noteq> n) (e_neighbors e))"
proof -
  have nadj: "n \<in> set (adjacent t k)" using n near_edge [OF wf e] by blast
  let ?ms = "dkeys (t_cores t) @ filter (\<lambda>m. m \<noteq> n) (e_neighbors e)"
  have nc: "n \<notin> set (dkeys (t_cores t))" by (rule wf_neighbor_not_core(2) [OF wf e n])
  have "set ?ms \<subseteq> set (adjacent t k)" using near_edge [OF wf e] by auto
  note x = expand_ports [OF nadj this]
  have "filter (\<lambda>m. m \<noteq> n) (dkeys (t_cores t)) = dkeys (t_cores t)"
    using nc by (metis (mono_tags, lifting) filter_True)
  then have "filter (\<lambda>m. m \<noteq> n) ?ms = ?ms" by simp
  with x show ?thesis
    unfolding edge_table [OF wf pt e] edge_inport [OF wf of e bc nadj refl] if_not_P [OF nc]
    by (simp only: up_flow_def inport_flow_def wf_edge(1) [OF wf e] flow.simps)
qed

lemma core_bcast:
  assumes wf: "wf_topology t" and of: "openflow xmit" and pt: "policy_tables t active choice rt"
    and c: "(c, cs) \<in> set (t_cores t)" and bc: "no_host_eth t (fr_dst fr)"
    and src: "fr_src fr \<in> set (map h_eth (dvals (t_hosts t)))" and k: "k \<in> set (dkeys (t_edges t))"
  shows "sw_out xmit t rt fr c (port_no t c k) =
    (if active c then map (port_no t c) (filter (\<lambda>m. m \<noteq> k) (node_order (dkeys (t_edges t)))) else [])"
proof -
  have ck: "c \<in> set (dkeys (t_cores t))" using c by (auto intro: rev_image_eqI)
  note adj = adjacent_core [OF wf ck]
  have kadj: "k \<in> set (adjacent t c)" using k near_core [OF wf ck] by blast
  show ?thesis
  proof (cases "active c")
    case True
    obtain h where h: "h \<in> set (dvals (t_hosts t))" "fr_src fr = h_eth h" using src by auto
    have "xmit (core_dst t c @ map src_flow (dvals (t_hosts t)) @ [drop_flow]) ports fr inp
        = expand ports inp (f_output (src_flow h))" for ports inp
    proof (rule openflow_top [OF of])
      have "src_flow h \<in> set (map src_flow (dvals (t_hosts t)))" using h(1) unfolding set_map by (rule imageI)
      then show "src_flow h \<in> set (core_dst t c @ map src_flow (dvals (t_hosts t)) @ [drop_flow])" by simp
      show "matches (f_match (src_flow h)) fr inp" using h(2) by (simp add: src_flow_def)
      fix y assume y: "y \<in> set (core_dst t c @ map src_flow (dvals (t_hosts t)) @ [drop_flow])"
        "matches (f_match y) fr inp" "f_priority (src_flow h) \<le> f_priority y"
      have "y \<notin> set (core_dst t c)" by (rule no_dst_core [OF bc y(2)])
      moreover have "y \<noteq> drop_flow" using y(3) by (auto simp: drop_flow_def src_flow_def)
      ultimately show "f_output y = f_output (src_flow h)" using y(1) by (auto simp: src_flow_def)
    qed
    then show ?thesis
      unfolding core_table [OF wf pt c] core_tail_def if_P [OF True] option.case append_assoc
      using expand_flood [OF kadj] by (simp add: src_flow_def adj)
  next
    case False
    have "xmit [drop_flow] ports fr inp = expand ports inp (f_output drop_flow)" for ports inp
      by (rule openflow_top [OF of]) (auto simp: drop_flow_def)
    then show ?thesis
      unfolding core_table [OF wf pt c] core_tail_def using False by (simp add: expand_def drop_flow_def)
  qed
qed

definition edge_hosts :: "topology \<Rightarrow> string \<Rightarrow> string list" where
  "edge_hosts t k = (case map_of (t_edges t) k of None \<Rightarrow> [] | Some e \<Rightarrow> e_neighbors e)"

text \<open>The other edge switches, and what an active core switch floods to them.\<close>

definition other_hosts :: "topology \<Rightarrow> string \<Rightarrow> string list" where
  "other_hosts t k = concat (map (edge_hosts t) (filter (\<lambda>m. m \<noteq> k) (node_order (dkeys (t_edges t)))))"

definition bcast_hosts :: "topology \<Rightarrow> (string \<Rightarrow> bool) \<Rightarrow> host \<Rightarrow> string list" where
  "bcast_hosts t active h =
     concat (map (\<lambda>c. if active c then other_hosts t (h_switch h) else []) (dkeys (t_cores t)))
     @ filter (\<lambda>m. m \<noteq> h_name h) (edge_hosts t (h_switch h))"

lemma edge_hosts_eq: "wf_topology t \<Longrightarrow> (k, e) \<in> set (t_edges t) \<Longrightarrow> edge_hosts t k = e_neighbors e"
  by (simp add: edge_hosts_def wf_edge(4))

lemma edge_hosts_are_hosts: "wf_topology t \<Longrightarrow> n \<in> set (edge_hosts t k) \<Longrightarrow> n \<in> set (dkeys (t_hosts t))"
proof -
  assume wf: "wf_topology t" and n: "n \<in> set (edge_hosts t k)"
  then obtain e where "map_of (t_edges t) k = Some e" "n \<in> set (e_neighbors e)"
    by (cases "map_of (t_edges t) k") (auto simp: edge_hosts_def)
  then show ?thesis using wf_neighbor_not_core(1) [OF wf map_of_SomeD] by blast
qed

lemma ocat_map_cong: "(\<And>x. x \<in> set xs \<Longrightarrow> f x = Some (g x)) \<Longrightarrow> ocat (map f xs) = Some (concat (map g xs))"
  by (induction xs) auto

lemma down_delivers:
  assumes wf: "wf_topology t" and of: "openflow xmit" and pt: "policy_tables t active choice rt"
    and k: "k \<in> set (dkeys (t_edges t))" and bc: "no_host_eth t (fr_dst fr)" and c: "c \<in> set (dkeys (t_cores t))"
  shows "deliver (Suc f) xmit t rt fr k (port_no t k c) = Some (edge_hosts t k)"
proof -
  from k obtain e where e: "(k, e) \<in> set (t_edges t)" by auto
  have sub: "set (e_neighbors e) \<subseteq> set (adjacent t k)" using near_edge [OF wf e] by blast
  have "m \<in> set (dkeys (t_hosts t))" if "m \<in> set (e_neighbors e)" for m
    by (rule wf_neighbor_not_core(1) [OF wf e that])
  then have "ocat (map (\<lambda>m. if m \<in> set (dkeys (t_hosts t)) then Some [m] else
      (case ingress t m k of None \<Rightarrow> Some [] | Some q \<Rightarrow> deliver f xmit t rt fr m q)) (e_neighbors e))
    = Some (concat (map (\<lambda>m. [m]) (e_neighbors e)))"
    by (intro ocat_map_cong) simp
  then show ?thesis
    unfolding hop [OF wf edge_bcast_down [OF wf of pt e bc c] sub] by (simp add: edge_hosts_eq [OF wf e])
qed

lemma core_delivers:
  assumes wf: "wf_topology t" and of: "openflow xmit" and pt: "policy_tables t active choice rt"
    and c: "c \<in> set (dkeys (t_cores t))" and bc: "no_host_eth t (fr_dst fr)"
    and src: "fr_src fr \<in> set (map h_eth (dvals (t_hosts t)))" and k: "k \<in> set (dkeys (t_edges t))"
  shows "deliver (Suc (Suc f)) xmit t rt fr c (port_no t c k) = Some (if active c then other_hosts t k else [])"
proof -
  from c obtain cs where cs: "(c, cs) \<in> set (t_cores t)" by auto
  let ?ks = "if active c then filter (\<lambda>m. m \<noteq> k) (node_order (dkeys (t_edges t))) else []"
  have out: "sw_out xmit t rt fr c (port_no t c k) = map (port_no t c) ?ks"
    using core_bcast [OF wf of pt cs bc src k] by simp
  have sub: "set ?ks \<subseteq> set (adjacent t c)" using near_core [OF wf c] by auto
  have "(if m \<in> set (dkeys (t_hosts t)) then Some [m] else
      (case ingress t m c of None \<Rightarrow> Some [] | Some q \<Rightarrow> deliver (Suc f) xmit t rt fr m q)) = Some (edge_hosts t m)"
    if "m \<in> set ?ks" for m
  proof -
    have m: "m \<in> set (dkeys (t_edges t))" using that by (auto split: if_splits)
    then obtain e where "(m, e) \<in> set (t_edges t)" by auto
    then have "c \<in> set (adjacent t m)" using near_edge [OF wf] c by blast
    from ingress_port_no [OF wf this] show ?thesis
      using not_host(1) [OF wf m] down_delivers [OF wf of pt m bc c, of f]
      by (simp del: deliver.simps set_map)
  qed
  then show ?thesis
    unfolding hop [OF wf out sub] ocat_map_cong [of ?ks _ "edge_hosts t"]
    by (subst ocat_map_cong [of ?ks _ "edge_hosts t"]) (simp_all add: other_hosts_def del: set_map)
qed

text \<open>
  A broadcast frame: the hosts of the other edge switches get it once from every active
  core switch, the hosts on the sender's switch once, the sender not at all.
\<close>

lemma broadcast:
  assumes wf: "wf_topology t" and of: "openflow xmit" and pt: "policy_tables t active choice rt"
    and h: "h \<in> set (dvals (t_hosts t))" and bc: "no_host_eth t dst"
  shows "send 3 xmit t rt h dst = Some (bcast_hosts t active h)"
proof -
  let ?fr = "\<lparr>fr_src = h_eth h, fr_dst = dst\<rparr>" and ?k = "h_switch h"
  obtain e where e: "(?k, e) \<in> set (t_edges t)" "h_name h \<in> set (e_neighbors e)" by (rule host_edge [OF wf h])
  have hadj: "h_name h \<in> set (adjacent t ?k)" using e(2) near_edge [OF wf e(1)] by blast
  have bc': "no_host_eth t (fr_dst ?fr)" using bc by simp
  have src: "fr_src ?fr \<in> set (map h_eth (dvals (t_hosts t)))" using h by (simp del: map_map)
  have k: "?k \<in> set (dkeys (t_edges t))" using e(1) by (auto intro: rev_image_eqI)
  let ?others = "filter (\<lambda>m. m \<noteq> h_name h) (e_neighbors e)"
  have sub: "set (dkeys (t_cores t) @ ?others) \<subseteq> set (adjacent t ?k)" using near_edge [OF wf e(1)] by auto
  let ?next = "\<lambda>m. if m \<in> set (dkeys (t_hosts t)) then Some [m] else
      (case ingress t m ?k of None \<Rightarrow> Some [] | Some q \<Rightarrow> deliver (Suc (Suc 0)) xmit t rt ?fr m q)"
  have "?next c = Some (if active c then other_hosts t ?k else [])" if c: "c \<in> set (dkeys (t_cores t))" for c
  proof -
    have "?k \<in> set (adjacent t c)" using k near_core [OF wf c] by blast
    from ingress_port_no [OF wf this] show ?thesis
      using not_host(2) [OF wf c] core_delivers [OF wf of pt c bc' src k, of 0]
      by (simp del: deliver.simps set_map)
  qed
  then have 1: "ocat (map ?next (dkeys (t_cores t))) =
      Some (concat (map (\<lambda>c. if active c then other_hosts t ?k else []) (dkeys (t_cores t))))"
    by (rule ocat_map_cong)
  have "?next m = Some [m]" if "m \<in> set ?others" for m
    using wf_neighbor_not_core(1) [OF wf e(1), of m] that by (simp del: set_map)
  then have 2: "ocat (map ?next ?others) = Some (concat (map (\<lambda>m. [m]) ?others))"
    by (rule ocat_map_cong)
  have "send 3 xmit t rt h dst = deliver (Suc (Suc (Suc 0))) xmit t rt ?fr ?k (port_no t ?k (h_name h))"
    unfolding send_def ingress_port_no [OF wf hadj] numeral_3_eq_3 by simp
  also have "\<dots> = ocat (map ?next (dkeys (t_cores t) @ ?others))"
    by (rule hop [OF wf edge_bcast_up [OF wf of pt e(1) bc' e(2)] sub])
  also have "\<dots> = Some (bcast_hosts t active h)"
    unfolding map_append ocat_append 1 2 by (simp add: bcast_hosts_def edge_hosts_eq [OF wf e(1)])
  finally show ?thesis .
qed

section \<open>How many copies\<close>

lemma count_distinct: "distinct xs \<Longrightarrow> count_list xs x = (if x \<in> set xs then 1 else 0)"
  by (induction xs) auto

lemma count_concat: "count_list (concat xss) x = sum_list (map (\<lambda>xs. count_list xs x) xss)"
  by (induction xss) auto

lemma sum_list_indicator: "distinct xs \<Longrightarrow> sum_list (map (\<lambda>x. if a = x then 1 else 0) xs) = (if a \<in> set xs then 1 else (0 :: nat))"
  by (induction xs) auto

lemma count_edge_hosts:
  assumes wf: "wf_topology t" and k: "k \<in> set (dkeys (t_edges t))" and g: "g \<in> set (dvals (t_hosts t))"
  shows "count_list (edge_hosts t k) (h_name g) = (if h_switch g = k then 1 else 0)"
proof -
  from k obtain e where e: "(k, e) \<in> set (t_edges t)" by auto
  show ?thesis
    by (simp add: edge_hosts_eq [OF wf e] count_distinct [OF wf_edge(2) [OF wf e]] neighbor_iff [OF wf e g])
qed

lemma count_other_hosts:
  assumes wf: "wf_topology t" and g: "g \<in> set (dvals (t_hosts t))"
  shows "count_list (other_hosts t k) (h_name g) = (if h_switch g = k then 0 else 1)"
proof -
  let ?ks = "filter (\<lambda>m. m \<noteq> k) (node_order (dkeys (t_edges t)))"
  have "count_list (edge_hosts t m) (h_name g) = (if h_switch g = m then 1 else 0)" if "m \<in> set ?ks" for m
    by (rule count_edge_hosts [OF wf _ g]) (use that in simp)
  then have "count_list (other_hosts t k) (h_name g) = sum_list (map (\<lambda>m. if h_switch g = m then 1 else 0) ?ks)"
    unfolding other_hosts_def count_concat map_map comp_def by (intro arg_cong [of _ _ sum_list] map_cong refl)
  also have "\<dots> = (if h_switch g \<in> set ?ks then 1 else 0)"
    using wf_names(2) [OF wf] by (intro sum_list_indicator) simp
  also have "h_switch g \<in> set (dkeys (t_edges t))"
    using host_edge [OF wf g] by (metis fst_conv image_eqI set_map)
  then have "(if h_switch g \<in> set ?ks then 1 else 0) = (if h_switch g = k then 0 else (1::nat))" by simp
  finally show ?thesis .
qed

lemma count_bcast:
  assumes wf: "wf_topology t" and h: "h \<in> set (dvals (t_hosts t))" and g: "g \<in> set (dvals (t_hosts t))"
  shows "count_list (bcast_hosts t active h) (h_name g) =
    (if h_name g = h_name h then 0
     else if h_switch g = h_switch h then 1
     else length (filter active (dkeys (t_cores t))))"
proof -
  have k: "h_switch h \<in> set (dkeys (t_edges t))"
    using host_edge [OF wf h] by (metis fst_conv image_eqI set_map)
  have same: "h_switch g = h_switch h" if "h_name g = h_name h"
  proof -
    have "(h_name g, g) \<in> set (t_hosts t)" "(h_name h, h) \<in> set (t_hosts t)"
      using host_edge [OF wf g] host_edge [OF wf h] by blast+
    with that have "g = h" using wf_names(3) [OF wf] by (metis map_of_eq_Some_distinct option.inject)
    then show ?thesis by simp
  qed
  have up: "count_list (concat (map (\<lambda>c. if active c then other_hosts t (h_switch h) else []) cs)) (h_name g)
      = (if h_switch g = h_switch h then 0 else length (filter active cs))" for cs
    by (induction cs) (simp_all add: count_other_hosts [OF wf g])
  have "count_list (filter (\<lambda>m. m \<noteq> x) ms) y = (if y = x then 0 else count_list ms y)" for x y :: string and ms
    by (induction ms) auto
  then show ?thesis
    using same unfolding bcast_hosts_def count_list_append up by (simp add: count_edge_hosts [OF wf k g])
qed

end
