(* ===== verification/Network.thy ===== *)
theory Network
  imports Dataplane
begin

text \<open>
  What the policies achieve on the network: unicast frames arrive, broadcast frames reach
  every other host, for the default, the static and the adaptive policy. The theorems are
  applied to a small datacenter (\<open>demo\<close>: two core switches, two edge switches, four hosts
  in two VLANs) and to a switch that executes the first entry of highest priority.
\<close>

section \<open>A small datacenter\<close>

definition demo_host :: "nat \<Rightarrow> string \<Rightarrow> int list \<Rightarrow> host" where
  "demo_host n sw vs = \<lparr>h_name = CHR ''h'' # str_of_nat n, h_ip = ''10.0.0.'' @ str_of_nat n,
     h_eth = ''00:00:00:00:00:0'' @ str_of_nat n, h_switch = sw, h_vlans = vs\<rparr>"

definition demo_cores :: "(string, core_switch) dict" where
  "demo_cores = [(''s101'', \<lparr>c_name = ''s101'', c_dpid = 101, c_vlans = [0]\<rparr>),
                 (''s102'', \<lparr>c_name = ''s102'', c_dpid = 102, c_vlans = [1]\<rparr>)]"

definition demo_edges :: "(string, edge_switch) dict" where
  "demo_edges = [(''s1'', \<lparr>e_name = ''s1'', e_dpid = 1, e_neighbors = [''h1'', ''h2'']\<rparr>),
                 (''s2'', \<lparr>e_name = ''s2'', e_dpid = 2, e_neighbors = [''h3'', ''h4'']\<rparr>)]"

definition demo_hosts :: "(string, host) dict" where
  "demo_hosts = map (\<lambda>h. (h_name h, h))
     [demo_host 1 ''s1'' [0], demo_host 2 ''s1'' [1], demo_host 3 ''s2'' [0], demo_host 4 ''s2'' [1]]"

definition demo :: topology where
  "demo = \<lparr>t_hosts = demo_hosts, t_vlans = vlan_members (dvals demo_hosts),
     t_switches = dkeys demo_cores @ dkeys demo_edges, t_edges = demo_edges, t_cores = demo_cores,
     t_ports = setPorts demo_cores demo_edges\<rparr>"

lemma demo_wf: "wf_topology demo" by code_simp

text \<open>A switch that meets \<open>openflow\<close>.\<close>

fun best_entry :: "flow list \<Rightarrow> flow option" where
  "best_entry [] = None"
| "best_entry (x # xs) = (case best_entry xs of None \<Rightarrow> Some x
     | Some y \<Rightarrow> if f_priority y \<le> f_priority x then Some x else Some y)"

definition of_first :: switch_fun where
  "of_first tbl ports f inp = (case best_entry (filter (\<lambda>x. matches (f_match x) f inp) tbl) of
     None \<Rightarrow> [] | Some x \<Rightarrow> expand ports inp (f_output x))"

lemma best_entry_spec:
  "xs \<noteq> [] \<Longrightarrow> \<exists>x \<in> set xs. best_entry xs = Some x \<and> (\<forall>y \<in> set xs. f_priority y \<le> f_priority x)"
proof (induction xs)
  case (Cons x xs)
  show ?case
  proof (cases "xs = []")
    case False
    with Cons.IH obtain y where y: "y \<in> set xs" "best_entry xs = Some y" "\<forall>z \<in> set xs. f_priority z \<le> f_priority y" by blast
    show ?thesis
    proof (cases "f_priority y \<le> f_priority x")
      case True
      with y(3) have "\<forall>z \<in> set xs. f_priority z \<le> f_priority x" by (meson order.trans)
      with True y(2) show ?thesis by simp
    next
      case False
      with y show ?thesis by auto
    qed
  qed simp
qed simp

lemma of_first_openflow: "openflow of_first"
  unfolding openflow_def Let_def
proof (intro allI)
  fix tbl :: "flow list" and ports f inp
  let ?ms = "filter (\<lambda>x. matches (f_match x) f inp) tbl"
  show "if ?ms = [] then of_first tbl ports f inp = []
      else \<exists>x \<in> set ?ms. (\<forall>y \<in> set ?ms. f_priority y \<le> f_priority x) \<and>
             of_first tbl ports f inp = expand ports inp (f_output x)"
  proof (cases "?ms = []")
    case False
    from best_entry_spec [OF False] obtain x where x: "x \<in> set ?ms" "best_entry ?ms = Some x"
      "\<forall>y \<in> set ?ms. f_priority y \<le> f_priority x" by blast
    then have "of_first tbl ports f inp = expand ports inp (f_output x)" by (simp add: of_first_def)
    with x False show ?thesis by (simp only: if_False) blast
  qed (simp add: of_first_def)
qed

section \<open>Delivery under the policies\<close>

definition vlans_covered :: "topology \<Rightarrow> bool" where
  "vlans_covered t \<longleftrightarrow> (\<forall>h \<in> set (dvals (t_hosts t)). h_vlans h \<noteq> [] \<and> getVlanCore t (hd (h_vlans h)) \<noteq> None)"

definition vlan_core :: "topology \<Rightarrow> host \<Rightarrow> string" where
  "vlan_core t h = (case getVlanCore t (hd (h_vlans h)) of None \<Rightarrow> [] | Some c \<Rightarrow> c)"

lemma getVlanCore_core:
  assumes "wf_topology t" and "getVlanCore t v = Some c"
  shows "c \<in> set (dkeys (t_cores t))"
proof -
  obtain sw where "find (\<lambda>core. v \<in> set (c_vlans core)) (dvals (t_cores t)) = Some sw" "c = c_name sw"
    using assms(2) by (auto simp: getVlanCore_def)
  then have "sw \<in> set (dvals (t_cores t))" by (metis find_Some_iff nth_mem)
  then show ?thesis using wf_core [OF assms(1)] \<open>c = c_name sw\<close> by (auto intro: rev_image_eqI)
qed

lemma static_choice_ok:
  assumes wf: "wf_topology t" and cov: "vlans_covered t"
  shows "choice_ok t (static_choice t) (vlan_core t)"
  unfolding choice_ok_def
proof
  fix h assume h: "h \<in> set (dvals (t_hosts t))"
  then have "h_vlans h \<noteq> []" "getVlanCore t (hd (h_vlans h)) \<noteq> None" using cov unfolding vlans_covered_def by blast+
  then obtain v vs c where v: "h_vlans h = v # vs" "getVlanCore t v = Some c" by (cases "h_vlans h") auto
  then have "c \<in> set (dkeys (t_cores t))" using getVlanCore_core [OF wf] by blast
  with v show "static_choice t h = Inr (Some (vlan_core t h)) \<and> vlan_core t h \<in> set (dkeys (t_cores t))"
    by (simp add: static_choice_def vlan_core_def)
qed

definition all_unicast :: "switch_fun \<Rightarrow> topology \<Rightarrow> rtable \<Rightarrow> bool" where
  "all_unicast xmit t rt \<longleftrightarrow> (\<forall>h \<in> set (dvals (t_hosts t)). \<forall>g \<in> set (dvals (t_hosts t)).
     h_name h \<noteq> h_name g \<longrightarrow> send 3 xmit t rt h (h_eth g) = Some [h_name g])"

text \<open>The copies of a broadcast frame from \<open>h\<close> that \<open>g\<close> receives, with \<open>n\<close> active core switches.\<close>

definition all_broadcast :: "switch_fun \<Rightarrow> topology \<Rightarrow> rtable \<Rightarrow> nat \<Rightarrow> bool" where
  "all_broadcast xmit t rt n \<longleftrightarrow> (\<forall>h \<in> set (dvals (t_hosts t)).
     \<exists>rs. send 3 xmit t rt h ''ff:ff:ff:ff:ff:ff'' = Some rs \<and> set rs \<subseteq> set (dkeys (t_hosts t)) \<and>
       (\<forall>g \<in> set (dvals (t_hosts t)). count_list rs (h_name g) =
          (if h_name g = h_name h then 0 else if h_switch g = h_switch h then 1 else n)))"

lemma all_unicastI:
  assumes "wf_topology t" and "openflow xmit" and "policy_tables t active choice rt"
    and "\<And>g. g \<in> set (dvals (t_hosts t)) \<Longrightarrow> choice g \<in> set (dkeys (t_cores t)) \<and> active (choice g)"
  shows "all_unicast xmit t rt"
  unfolding all_unicast_def using unicast [OF assms(1-3)] assms(4) by blast

lemma bcast_hosts_are_hosts:
  assumes "wf_topology t"
  shows "set (bcast_hosts t active h) \<subseteq> set (dkeys (t_hosts t))"
proof -
  have o: "set (other_hosts t k) \<subseteq> set (dkeys (t_hosts t))" for k
    using edge_hosts_are_hosts [OF assms] unfolding other_hosts_def by (auto simp del: set_map simp: set_map [of _ "filter _ _"])
  have "set (concat (map (\<lambda>c. if active c then other_hosts t k else []) cs)) \<subseteq> set (dkeys (t_hosts t))" for k cs
    using o by (induction cs) (auto simp del: set_map split: if_splits)
  moreover have "set (filter (\<lambda>m. m \<noteq> x) (edge_hosts t k)) \<subseteq> set (dkeys (t_hosts t))" for x k
    using edge_hosts_are_hosts [OF assms] by (auto simp del: set_map)
  ultimately show ?thesis unfolding bcast_hosts_def set_append by (rule Un_least)
qed

lemma all_broadcastI:
  assumes wf: "wf_topology t" and of: "openflow xmit" and pt: "policy_tables t active choice rt"
    and bc: "no_host_eth t ''ff:ff:ff:ff:ff:ff''" and n: "n = length (filter active (dkeys (t_cores t)))"
  shows "all_broadcast xmit t rt n"
  unfolding all_broadcast_def n
proof
  fix h assume h: "h \<in> set (dvals (t_hosts t))"
  show "\<exists>rs. send 3 xmit t rt h ''ff:ff:ff:ff:ff:ff'' = Some rs \<and> set rs \<subseteq> set (dkeys (t_hosts t)) \<and>
       (\<forall>g \<in> set (dvals (t_hosts t)). count_list rs (h_name g) =
          (if h_name g = h_name h then 0 else if h_switch g = h_switch h then 1
           else length (filter active (dkeys (t_cores t)))))"
    using broadcast [OF wf of pt h bc] bcast_hosts_are_hosts [OF wf] count_bcast [OF wf h] by blast
qed

lemma all_filter: "length (filter (\<lambda>_. True) xs) = length xs" by simp

lemma one_active: "distinct (dkeys d) \<Longrightarrow> d = (c, x) # rest \<Longrightarrow> length (filter (\<lambda>k. k = c) (dkeys d)) = 1"
proof -
  assume "distinct (dkeys d)" and d: "d = (c, x) # rest"
  then have "filter (\<lambda>k. k = c) (dkeys rest) = []" by (auto simp: filter_empty_conv)
  with d show ?thesis by simp
qed

section \<open>The theorems\<close>

lemma demo_ready:
  "vlans_covered demo" "no_host_eth demo ''ff:ff:ff:ff:ff:ff''" "t_cores demo \<noteq> []"
  "dkeys (t_cores demo) = [''s101'', ''s102'']"
  by code_simp+

text \<open>C4: under the static policy the build succeeds and every unicast frame between two
  hosts reaches its destination and nothing else, over at most three switches, when every host's
  first VLAN has a core switch.\<close>

theorem static_unicast:
  assumes "wf_topology t" and "openflow xmit" and "vlans_covered t"
  shows "\<exists>rt. StaticPolicy_build t = Inr rt \<and> all_unicast xmit t rt"
  using StaticPolicy_tables [OF assms(1) static_choice_ok [OF assms(1,3)]]
    all_unicastI [OF assms(1,2), of _ "vlan_core t"] static_choice_ok [OF assms(1,3)]
  unfolding choice_ok_def by blast

theorem static_unicast_demo:
  "\<exists>rt. StaticPolicy_build demo = Inr rt \<and> all_unicast of_first demo rt"
  by (rule static_unicast [OF demo_wf of_first_openflow demo_ready(1)])

text \<open>C15: under the default policy, which uses one core switch, every unicast frame
  reaches its destination and nothing else.\<close>

theorem default_unicast:
  assumes "wf_topology t" and "openflow xmit" and "t_cores t \<noteq> []"
  shows "\<exists>rt. DefaultPolicy_build t = Inr rt \<and> all_unicast xmit t rt"
proof -
  obtain core sw rest where c: "t_cores t = (core, sw) # rest"
    using assms(3) by (metis list.exhaust surj_pair)
  then have "core \<in> set (dkeys (t_cores t))" by simp
  with DefaultPolicy_tables [OF assms(1) c] all_unicastI [OF assms(1,2), of _ "\<lambda>_. core"] show ?thesis by blast
qed

theorem default_unicast_demo:
  "\<exists>rt. DefaultPolicy_build demo = Inr rt \<and> all_unicast of_first demo rt"
  by (rule default_unicast [OF demo_wf of_first_openflow demo_ready(3)])

text \<open>C8: one access to the adaptive policy's table with any non-negative counters
  redistributes the hosts and gives a table under which every unicast frame reaches its
  destination and nothing else; the state it leaves is again one from which this holds.\<close>

theorem adaptive_unicast:
  assumes "wf_topology t" and "openflow xmit" and "is_order ko" and "t_cores t \<noteq> []" and "adaptive_inv t a"
    and "distinct (dkeys hb)" and "\<forall>p \<in> set hb. 0 \<le> bw_in (snd p)"
  shows "\<exists>a' rt. adaptive_routingTable ko t hb a = Inr (a', rt) \<and> adaptive_inv t a' \<and> all_unicast xmit t rt"
proof -
  obtain a' rt where r: "adaptive_routingTable ko t hb a = Inr (a', rt)" "adaptive_inv t a'"
    "policy_tables t (\<lambda>_. True) (assigned_core a') rt"
    using adaptive_routingTable_ok [OF assms(1,3,4,5,6,7)] by blast
  from all_unicastI [OF assms(1,2) r(3)] assigned_core_ok [OF assms(1) r(2)] r show ?thesis by blast
qed

definition demo_hb :: "(string, bw) dict" where
  "demo_hb = [(''h1'', \<lparr>bw_in = 30, bw_out = 0\<rparr>), (''h2'', \<lparr>bw_in = 20, bw_out = 0\<rparr>), (''h3'', \<lparr>bw_in = 40, bw_out = 0\<rparr>)]"

definition demo_adaptive :: adaptive where
  "demo_adaptive = \<lparr>a_assign = foldl (\<lambda>d h. dput d h (Some ''s101'')) [] (dkeys (t_hosts demo)),
     a_util = [], a_table = []\<rparr>"

lemma demo_adaptive_inv: "adaptive_inv demo demo_adaptive"
  by code_simp

lemma demo_hb_ok: "distinct (dkeys demo_hb)" "\<forall>p \<in> set demo_hb. 0 \<le> bw_in (snd p)"
  by (simp_all add: demo_hb_def)

theorem adaptive_unicast_demo:
  "\<exists>a' rt. adaptive_routingTable rev demo demo_hb demo_adaptive = Inr (a', rt) \<and> adaptive_inv demo a' \<and>
     all_unicast of_first demo rt"
  by (rule adaptive_unicast [OF demo_wf of_first_openflow is_order_rev demo_ready(3) demo_adaptive_inv demo_hb_ok])

text \<open>Under the default policy a broadcast frame reaches every other host exactly once and
  never its sender.\<close>

theorem default_broadcast:
  assumes "wf_topology t" and "openflow xmit" and "t_cores t \<noteq> []" and "no_host_eth t ''ff:ff:ff:ff:ff:ff''"
  shows "\<exists>rt. DefaultPolicy_build t = Inr rt \<and> all_broadcast xmit t rt 1"
proof -
  obtain core sw rest where c: "t_cores t = (core, sw) # rest"
    using assms(3) by (metis list.exhaust surj_pair)
  have "1 = length (filter (\<lambda>k. k = core) (dkeys (t_cores t)))"
    using one_active [OF wf_names(1) [OF assms(1)] c] by simp
  then show ?thesis
    using DefaultPolicy_tables [OF assms(1) c] all_broadcastI [OF assms(1,2) _ assms(4)] by blast
qed

theorem default_broadcast_demo:
  "\<exists>rt. DefaultPolicy_build demo = Inr rt \<and> all_broadcast of_first demo rt 1"
  by (rule default_broadcast [OF demo_wf of_first_openflow demo_ready(3,2)])

text \<open>C16: under the static policy a broadcast frame never returns to its sender, reaches every
  host on the sender's switch once, and every other host once per core switch.\<close>

theorem static_broadcast:
  assumes "wf_topology t" and "openflow xmit" and "vlans_covered t" and "no_host_eth t ''ff:ff:ff:ff:ff:ff''"
  shows "\<exists>rt. StaticPolicy_build t = Inr rt \<and> all_broadcast xmit t rt (length (t_cores t))"
proof -
  have "length (t_cores t) = length (filter (\<lambda>_. True) (dkeys (t_cores t)))" by simp
  then show ?thesis
    using StaticPolicy_tables [OF assms(1) static_choice_ok [OF assms(1,3)]] all_broadcastI [OF assms(1,2) _ assms(4)] by blast
qed

theorem static_broadcast_demo:
  "\<exists>rt. StaticPolicy_build demo = Inr rt \<and> all_broadcast of_first demo rt (length (t_cores demo))"
  by (rule static_broadcast [OF demo_wf of_first_openflow demo_ready(1,2)])

text \<open>C19: the redistribution never fails for a topology with a core switch and distinct,
  non-negative counters; every host with a counter is assigned to a core switch, the utilization
  of a core switch is the sum of the counters assigned to it, and the utilizations of two core
  switches differ by at most the largest single counter.\<close>

theorem adaptive_balance:
  assumes "is_order ko" and "t_cores t \<noteq> []" and "util_over t (a_util a)"
    and "distinct (dkeys hb)" and "\<forall>p \<in> set hb. 0 \<le> bw_in (snd p)"
  shows "\<exists>a'. redistribute ko t hb a = Inr a' \<and> balanced (max_load hb) (a_util a') \<and>
     (\<forall>h \<in> set (dkeys hb). \<exists>c \<in> set (dkeys (t_cores t)). map_of (a_assign a') h = Some (Some c)) \<and>
     (\<forall>c \<in> set (dkeys (t_cores t)). map_of (a_util a') c =
        Some (sum_list (map (bw_in \<circ> snd) (filter (\<lambda>p. map_of (a_assign a') (fst p) = Some (Some c)) hb))))"
  using redistribute_ok [OF assms] by blast

theorem adaptive_balance_demo:
  "\<exists>a'. redistribute rev demo demo_hb demo_adaptive = Inr a' \<and> balanced (max_load demo_hb) (a_util a') \<and>
     (\<forall>h \<in> set (dkeys demo_hb). \<exists>c \<in> set (dkeys (t_cores demo)). map_of (a_assign a') h = Some (Some c)) \<and>
     (\<forall>c \<in> set (dkeys (t_cores demo)). map_of (a_util a') c =
        Some (sum_list (map (bw_in \<circ> snd) (filter (\<lambda>p. map_of (a_assign a') (fst p) = Some (Some c)) demo_hb))))"
  by (rule adaptive_balance [OF is_order_rev demo_ready(3) _ demo_hb_ok]) (use demo_adaptive_inv in \<open>simp add: adaptive_inv_def\<close>)

text \<open>On a non-empty utilization with distinct switch names the minimum is the name of a switch
  whose utilization is least, in every iteration order of the dictionary.\<close>

theorem least_utilized:
  assumes "is_order ko" and "distinct (dkeys u)" and "u \<noteq> []"
  shows "\<exists>c v. minUtilization ko u = Inr (Some c) \<and> (c, v) \<in> set u \<and> (\<forall>p \<in> set u. v \<le> snd p)"
  using minUtilization_least [OF assms] unfolding case_prod_beta by blast

definition demo_util :: "(string, int) dict" where
  "demo_util = [(''s101'', 100), (''s102'', 50), (''s103'', 200)]"

theorem least_utilized_demo:
  "\<exists>c v. minUtilization rev demo_util = Inr (Some c) \<and> (c, v) \<in> set demo_util \<and> (\<forall>p \<in> set demo_util. v \<le> snd p)"
  by (rule least_utilized) (simp_all add: demo_util_def)

end
