(* ===== verification/DPSet.thy ===== *)
theory DPSet
  imports Datapath
begin

text \<open>
  Ryu's set of connected switches, \<^verbatim>\<open>ryu/controller/dpset.py\<close>. A connection is an object with an
  identity: the dictionaries hold references (numbers) and \<open>st\<close> gives the state of the object
  behind a reference. The events sent to the observers are appended to the state.
\<close>

section \<open>State\<close>

datatype dpset_event =
    EventDP nat bool "of_port list"
  | EventPortAdd nat of_port
  | EventPortDelete nat of_port
  | EventPortModify nat of_port

type_synonym port_state = "(int, of_port) dict"

record dpset =
  ds_dps :: "(int, nat) dict"
  ds_port_state :: "(int, port_state) dict"
  ds_events :: "dpset_event list"

definition dpset_init :: dpset where
  "dpset_init = \<lparr>ds_dps = [], ds_port_state = [], ds_events = []\<rparr>"

definition PortState_add :: "port_state \<Rightarrow> int \<Rightarrow> of_port \<Rightarrow> port_state" where
  "PortState_add ps n p = dput ps n p"

definition PortState_remove :: "port_state \<Rightarrow> int \<Rightarrow> port_state res" where
  "PortState_remove ps n = (if n \<in> set (dkeys ps) then Inr (ddel ps n) else Inl KeyErr)"

definition PortState_modify :: "port_state \<Rightarrow> int \<Rightarrow> of_port \<Rightarrow> port_state" where
  "PortState_modify ps n p = dput ps n p"

definition ds_emit :: "dpset \<Rightarrow> dpset_event \<Rightarrow> dpset" where
  "ds_emit s e = s\<lparr>ds_events := ds_events s @ [e]\<rparr>"

section \<open>Operations\<close>

definition port_added :: "int \<Rightarrow> dpset \<Rightarrow> of_port \<Rightarrow> dpset res" where
  "port_added i s p = rbind (dget (ds_port_state s) i) (\<lambda>ps.
     Inr (s\<lparr>ds_port_state := dput (ds_port_state s) i (PortState_add ps (po_port_no p) p)\<rparr>))"

definition port_deleted :: "int \<Rightarrow> dpset \<Rightarrow> of_port \<Rightarrow> dpset res" where
  "port_deleted i s p = rbind (dget (ds_port_state s) i) (\<lambda>ps.
     rbind (PortState_remove ps (po_port_no p)) (\<lambda>ps'.
     Inr (s\<lparr>ds_port_state := dput (ds_port_state s) i ps'\<rparr>)))"

definition ds_register :: "(nat \<Rightarrow> datapath) \<Rightarrow> dpset \<Rightarrow> nat \<Rightarrow> dpset res" where
  "ds_register st s r =
     (case dp_id (st r) of None \<Rightarrow> Inl AssertErr
      | Some i \<Rightarrow>
        let s1 = s\<lparr>ds_dps := dput (ds_dps s) i r\<rparr> in
        if i \<notin> set (dkeys (ds_port_state s1)) then
          (case dp_ports (st r) of None \<Rightarrow> Inl AttributeErr
           | Some ports \<Rightarrow>
             rbind (rfold (port_added i) (s1\<lparr>ds_port_state := dput (ds_port_state s1) i []\<rparr>) (dvals ports)) (\<lambda>s2.
             Inr (ds_emit s2 (EventDP r True (dvals ports)))))
        else Inr s1)"

text \<open>The handler of the features reply stores the ports once more; version 1.3 has none in the reply.\<close>

definition ds_switch_features :: "datapath \<Rightarrow> (int, of_port) dict \<Rightarrow> datapath" where
  "ds_switch_features d msg_ports = (if dp_version d < 0x04 then d\<lparr>dp_ports := Some msg_ports\<rparr> else d)"

lemma ds_switch_features_again:
  "ds_switch_features (switch_features_handler d i ports) ports = switch_features_handler d i ports"
  by (simp add: ds_switch_features_def switch_features_handler_def Let_def)

definition ds_unregister :: "(nat \<Rightarrow> datapath) \<Rightarrow> dpset \<Rightarrow> nat \<Rightarrow> dpset res" where
  "ds_unregister st s r =
     (if r \<notin> set (dvals (ds_dps s)) then Inr s
      else case dp_id (st r) of None \<Rightarrow> Inl KeyErr
      | Some i \<Rightarrow>
        rbind (dget (ds_dps s) i) (\<lambda>r'.
        if r' \<noteq> r then Inl AssertErr
        else
          let ports = (case map_of (ds_port_state s) i of None \<Rightarrow> [] | Some ps \<Rightarrow> dvals ps) in
          rbind (rfold (port_deleted i) s ports) (\<lambda>s1.
          let s2 = ds_emit s1 (EventDP r False ports) in
          if i \<in> set (dkeys (ds_port_state s2))
          then Inr (s2\<lparr>ds_dps := ddel (ds_dps s2) i, ds_port_state := ddel (ds_port_state s2) i\<rparr>)
          else Inl KeyErr)))"

definition ds_get :: "dpset \<Rightarrow> int \<Rightarrow> nat option" where
  "ds_get s i = map_of (ds_dps s) i"

definition ds_get_all :: "dpset \<Rightarrow> (int \<times> nat) list" where
  "ds_get_all s = ds_dps s"

text \<open>\<^verbatim>\<open>get_port\<close> turns either \<^verbatim>\<open>KeyError\<close> into \<^verbatim>\<open>PortNotFound\<close>.\<close>

definition get_port :: "dpset \<Rightarrow> int \<Rightarrow> int \<Rightarrow> of_port res" where
  "get_port s dpid n =
     (case rbind (dget (ds_port_state s) dpid) (\<lambda>ps. dget ps n) of
        Inl KeyErr \<Rightarrow> Inl (OtherErr ''PortNotFound'') | x \<Rightarrow> x)"

definition get_ports :: "dpset \<Rightarrow> int \<Rightarrow> of_port list res" where
  "get_ports s dpid = rbind (dget (ds_port_state s) dpid) (\<lambda>ps. Inr (dvals ps))"

definition dispacher_change :: "(nat \<Rightarrow> datapath) \<Rightarrow> dpset \<Rightarrow> nat \<Rightarrow> dispatcher \<Rightarrow> dpset res" where
  "dispacher_change st s r state =
     (if state = MAIN_DISPATCHER then ds_register st s r
      else if state = DEAD_DISPATCHER then ds_unregister st s r
      else Inr s)"

definition port_status_handler :: "(nat \<Rightarrow> datapath) \<Rightarrow> dpset \<Rightarrow> nat \<Rightarrow> int \<Rightarrow> of_port \<Rightarrow> dpset res" where
  "port_status_handler st s r reason port =
     (case dp_id (st r) of None \<Rightarrow> Inl KeyErr
      | Some i \<Rightarrow>
        if reason = OFPPR_ADD then
          rbind (port_added i s port) (\<lambda>s1. Inr (ds_emit s1 (EventPortAdd r port)))
        else if reason = OFPPR_DELETE then
          rbind (port_deleted i s port) (\<lambda>s1. Inr (ds_emit s1 (EventPortDelete r port)))
        else if reason = OFPPR_MODIFY then
          rbind (dget (ds_port_state s) i) (\<lambda>ps.
          Inr (ds_emit (s\<lparr>ds_port_state := dput (ds_port_state s) i (PortState_modify ps (po_port_no port) port)\<rparr>)
                 (EventPortModify r port)))
        else Inl AssertErr)"

section \<open>Invariant\<close>

definition ports_ok :: "port_state \<Rightarrow> bool" where
  "ports_ok ps \<longleftrightarrow> distinct (dkeys ps) \<and> (\<forall>p \<in> set ps. po_port_no (snd p) = fst p)"

definition dpset_inv :: "(nat \<Rightarrow> datapath) \<Rightarrow> dpset \<Rightarrow> bool" where
  "dpset_inv st s \<longleftrightarrow>
     distinct (dkeys (ds_dps s)) \<and> distinct (dkeys (ds_port_state s)) \<and>
     set (dkeys (ds_port_state s)) = set (dkeys (ds_dps s)) \<and>
     (\<forall>p \<in> set (ds_dps s). dp_id (st (snd p)) = Some (fst p)) \<and>
     (\<forall>p \<in> set (ds_port_state s). ports_ok (snd p))"

lemma dpset_inv_init: "dpset_inv st dpset_init"
  by (simp add: dpset_inv_def dpset_init_def)

lemma in_set_dput_pair: "p \<in> set (dput d k v) \<Longrightarrow> p = (k, v) \<or> p \<in> set d"
  by (induction d k v rule: dput.induct) (auto split: if_splits)

lemma ports_ok_dput: "ports_ok ps \<Longrightarrow> ports_ok (dput ps (po_port_no p) p)"
  unfolding ports_ok_def by (auto dest!: in_set_dput_pair)

lemma ports_ok_ddel: "ports_ok ps \<Longrightarrow> ports_ok (ddel ps n)"
  unfolding ports_ok_def by (auto simp: ddel_def distinct_map_filter)

text \<open>The loop that adds the ports of a new switch.\<close>

lemma ports_added:
  assumes "map_of (ds_port_state s) i = Some ps"
  shows "rfold (port_added i) s qs =
    Inr (s\<lparr>ds_port_state := dput (ds_port_state s) i (foldl (\<lambda>d p. dput d (po_port_no p) p) ps qs)\<rparr>)"
  using assms
proof (induction qs arbitrary: s ps)
  case Nil
  then show ?case by (simp add: dput_same)
next
  case (Cons q qs)
  let ?s1 = "s\<lparr>ds_port_state := dput (ds_port_state s) i (dput ps (po_port_no q) q)\<rparr>"
  have "port_added i s q = Inr ?s1"
    using Cons.prems by (simp add: port_added_def dget_def PortState_add_def)
  moreover have "map_of (ds_port_state ?s1) i = Some (dput ps (po_port_no q) q)" by simp
  from Cons.IH [OF this] have "rfold (port_added i) ?s1 qs =
    Inr (?s1\<lparr>ds_port_state := dput (ds_port_state ?s1) i (foldl (\<lambda>d p. dput d (po_port_no p) p) (dput ps (po_port_no q) q) qs)\<rparr>)" .
  ultimately show ?case by simp
qed

lemma foldl_ports_ok: "ports_ok ps \<Longrightarrow> ports_ok (foldl (\<lambda>d p. dput d (po_port_no p) p) ps qs)"
  by (induction qs arbitrary: ps) (auto intro: ports_ok_dput)

text \<open>The loop that removes every port of a leaving switch.\<close>

lemma ddel_hd: "distinct (n # dkeys ps) \<Longrightarrow> ddel ((n, p) # ps) n = ps"
  by (auto simp: ddel_def filter_id_conv)

lemma ports_deleted:
  assumes "map_of (ds_port_state s) i = Some ps" and "ports_ok ps"
  shows "rfold (port_deleted i) s (dvals ps) = Inr (s\<lparr>ds_port_state := dput (ds_port_state s) i []\<rparr>)"
  using assms
proof (induction ps arbitrary: s)
  case Nil
  then show ?case by (simp add: dput_same)
next
  case (Cons q ps)
  obtain n p where q: "q = (n, p)" by (cases q)
  let ?s1 = "s\<lparr>ds_port_state := dput (ds_port_state s) i ps\<rparr>"
  have ok: "po_port_no p = n" "distinct (n # dkeys ps)" "ports_ok ps"
    using Cons.prems(2) by (auto simp: ports_ok_def q)
  have "PortState_remove ((n, p) # ps) n = Inr ps"
    using ok(2) by (simp only: PortState_remove_def ddel_hd) simp
  then have "port_deleted i s p = Inr ?s1"
    using Cons.prems(1) ok(1) by (simp add: port_deleted_def dget_def q)
  moreover have "map_of (ds_port_state ?s1) i = Some ps" by simp
  from Cons.IH [OF this ok(3)] have "rfold (port_deleted i) ?s1 (dvals ps) = Inr (?s1\<lparr>ds_port_state := dput (ds_port_state ?s1) i []\<rparr>)" .
  ultimately show ?case by (simp add: q)
qed

section \<open>Joining and leaving\<close>

definition known :: "datapath \<Rightarrow> bool" where
  "known d \<longleftrightarrow> dp_id d \<noteq> None \<and> dp_ports d \<noteq> None"

lemma pair_in_dput: "p \<in> set (dput d k v) \<Longrightarrow> P (k, v) \<Longrightarrow> (\<forall>p \<in> set d. P p) \<Longrightarrow> P p"
  using in_set_dput_pair by metis

lemma register_ok:
  assumes inv: "dpset_inv st s" and i: "dp_id (st r) = Some i" and ps: "dp_ports (st r) = Some ports"
  shows "\<exists>s'. ds_register st s r = Inr s' \<and> dpset_inv st s' \<and> ds_dps s' = dput (ds_dps s) i r \<and>
    ds_events s' = ds_events s @ (if i \<in> set (dkeys (ds_dps s)) then [] else [EventDP r True (dvals ports)])"
proof (cases "i \<in> set (dkeys (ds_dps s))")
  case True
  then have "i \<in> set (dkeys (ds_port_state s))" using inv unfolding dpset_inv_def by blast
  then have run: "ds_register st s r = Inr (s\<lparr>ds_dps := dput (ds_dps s) i r\<rparr>)"
    by (simp add: ds_register_def i Let_def del: set_map)
  have "\<forall>p \<in> set (dput (ds_dps s) i r). dp_id (st (snd p)) = Some (fst p)"
    by (rule ballI, erule pair_in_dput) (use i inv in \<open>simp_all add: dpset_inv_def\<close>)
  with inv True run show ?thesis
    by (intro exI [of _ "s\<lparr>ds_dps := dput (ds_dps s) i r\<rparr>"])
      (simp add: dpset_inv_def insert_absorb del: set_map map_of_eq_Some_iff)
next
  case False
  then have n: "i \<notin> set (dkeys (ds_port_state s))" using inv unfolding dpset_inv_def by blast
  let ?new = "foldl (\<lambda>d p. dput d (po_port_no p) p) [] (dvals ports)"
  let ?s1 = "s\<lparr>ds_dps := dput (ds_dps s) i r\<rparr>"
  let ?s2 = "?s1\<lparr>ds_port_state := dput (ds_port_state ?s1) i []\<rparr>"
  let ?s3 = "?s2\<lparr>ds_port_state := dput (ds_port_state ?s2) i ?new\<rparr>"
  have "map_of (ds_port_state ?s2) i = Some []" by simp
  from ports_added [OF this, of "dvals ports"] have run: "ds_register st s r = Inr (ds_emit ?s3 (EventDP r True (dvals ports)))"
    using n by (simp add: ds_register_def i ps Let_def del: set_map dput_dput)
  have ok: "ports_ok ?new" by (rule foldl_ports_ok) (simp add: ports_ok_def)
  have "\<forall>p \<in> set (dput (ds_dps s) i r). dp_id (st (snd p)) = Some (fst p)"
    by (rule ballI, erule pair_in_dput) (use i inv in \<open>simp_all add: dpset_inv_def\<close>)
  moreover have "\<forall>p \<in> set (dput (ds_port_state s) i ?new). ports_ok (snd p)"
    by (rule ballI, erule pair_in_dput) (use ok inv in \<open>simp_all add: dpset_inv_def\<close>)
  ultimately have "dpset_inv st ?s3" using inv by (simp add: dpset_inv_def)
  with run False show ?thesis
    by (intro exI [of _ "ds_emit ?s3 (EventDP r True (dvals ports))"])
      (simp add: ds_emit_def dpset_inv_def del: set_map)
qed

lemma unregister_ok:
  assumes inv: "dpset_inv st s"
  shows "\<exists>s'. ds_unregister st s r = Inr s' \<and> dpset_inv st s' \<and>
    (if r \<in> set (dvals (ds_dps s))
     then \<exists>i ps. dp_id (st r) = Some i \<and> (i, r) \<in> set (ds_dps s) \<and> map_of (ds_port_state s) i = Some ps \<and>
            ds_dps s' = ddel (ds_dps s) i \<and> ds_events s' = ds_events s @ [EventDP r False (dvals ps)]
     else s' = s)"
proof (cases "r \<in> set (dvals (ds_dps s))")
  case False
  then show ?thesis using inv by (simp add: ds_unregister_def del: set_map)
next
  case True
  then obtain i where ir: "(i, r) \<in> set (ds_dps s)" by auto
  then have i: "dp_id (st r) = Some i" using inv by (auto simp: dpset_inv_def)
  have get: "map_of (ds_dps s) i = Some r" using ir inv by (simp add: dpset_inv_def)
  have ik: "i \<in> set (dkeys (ds_port_state s))"
    using inv map_of_in_keys [OF get] unfolding dpset_inv_def by blast
  then obtain ps where ps: "map_of (ds_port_state s) i = Some ps" by (rule key_lookup)
  have ok: "ports_ok ps" using inv map_of_SomeD [OF ps] by (auto simp: dpset_inv_def)
  let ?s1 = "s\<lparr>ds_port_state := dput (ds_port_state s) i []\<rparr>"
  let ?s2 = "ds_emit ?s1 (EventDP r False (dvals ps))"
  let ?s3 = "?s2\<lparr>ds_dps := ddel (ds_dps ?s2) i, ds_port_state := ddel (ds_port_state ?s2) i\<rparr>"
  have run: "ds_unregister st s r = Inr ?s3"
    using True i get ps ports_deleted [OF ps ok]
    by (simp add: ds_unregister_def dget_def Let_def ds_emit_def del: set_map map_of_eq_Some_iff)
  have dd: "ddel (dput d i x) i = ddel d i" for d :: "(int, port_state) dict" and x
    by (induction d i x rule: dput.induct) (auto simp: ddel_def)
  have "dpset_inv st ?s3"
    using inv unfolding dpset_inv_def
    by (simp add: ds_emit_def dd dkeys_ddel del: set_map) (auto simp: ddel_def)
  then show ?thesis
    using run True i ir ps by (intro exI [of _ ?s3]) (simp add: ds_emit_def del: set_map map_of_eq_Some_iff)
qed

section \<open>Histories\<close>

text \<open>The enter (\<open>True\<close>) and leave events of one datapath id.\<close>

definition presence :: "(nat \<Rightarrow> datapath) \<Rightarrow> int \<Rightarrow> dpset_event list \<Rightarrow> bool list" where
  "presence st i evs = concat (map (\<lambda>e. case e of EventDP r b _ \<Rightarrow> if dp_id (st r) = Some i then [b] else [] | _ \<Rightarrow> []) evs)"

lemma presence_append [simp]: "presence st i (xs @ ys) = presence st i xs @ presence st i ys"
  by (simp add: presence_def)

lemma presence_single [simp]: "presence st i [EventDP r b ps] = (if dp_id (st r) = Some i then [b] else [])"
  "presence st i [] = []" "presence st i [EventPortAdd r p] = []" "presence st i [EventPortDelete r p] = []"
  "presence st i [EventPortModify r p] = []"
  by (simp_all add: presence_def)

definition alternating :: "bool list \<Rightarrow> bool" where
  "alternating bs \<longleftrightarrow> bs = map even [0..<length bs]"

lemma alternating_snoc: "alternating bs \<Longrightarrow> b = even (length bs) \<Longrightarrow> alternating (bs @ [b])"
  by (simp add: alternating_def)

datatype ds_input = StateChange nat dispatcher | PortStatus nat int of_port

definition ds_handle :: "(nat \<Rightarrow> datapath) \<Rightarrow> dpset \<Rightarrow> ds_input \<Rightarrow> dpset res" where
  "ds_handle st s inp = (case inp of StateChange r d \<Rightarrow> dispacher_change st s r d
     | PortStatus r reason p \<Rightarrow> port_status_handler st s r reason p)"

text \<open>The event loop: it ends at the first exception.\<close>

inductive ds_run :: "(nat \<Rightarrow> datapath) \<Rightarrow> ds_input list \<Rightarrow> dpset \<Rightarrow> bool" for st where
  ds_run_start: "ds_run st [] dpset_init"
| ds_run_step: "ds_run st ins s \<Longrightarrow> ds_handle st s inp = Inr s' \<Longrightarrow> ds_run st (ins @ [inp]) s'"

inductive_cases ds_run_snocE: "ds_run st (ins @ [inp]) s"

lemma port_status_frame:
  assumes inv: "dpset_inv st s" and h: "port_status_handler st s r reason p = Inr s'"
  shows "dpset_inv st s' \<and> ds_dps s' = ds_dps s \<and> presence st i (ds_events s') = presence st i (ds_events s)"
proof -
  obtain j where j: "dp_id (st r) = Some j" using h by (cases "dp_id (st r)") (auto simp: port_status_handler_def)
  have upd: "dpset_inv st (s\<lparr>ds_port_state := dput (ds_port_state s) j ps'\<rparr>)"
    if ps: "map_of (ds_port_state s) j = Some ps" and ok: "ports_ok ps'" for ps ps'
  proof -
    have "j \<in> set (dkeys (ds_port_state s))" by (rule map_of_in_keys [OF ps])
    then have k: "dkeys (dput (ds_port_state s) j ps') = dkeys (ds_port_state s)" by (rule dkeys_dput_present)
    have "\<forall>q \<in> set (dput (ds_port_state s) j ps'). ports_ok (snd q)"
      by (rule ballI, erule pair_in_dput) (use ok inv in \<open>simp_all add: dpset_inv_def\<close>)
    with inv show ?thesis unfolding dpset_inv_def by (simp add: k del: set_map)
  qed
  have old: "ports_ok ps" if "map_of (ds_port_state s) j = Some ps" for ps
    using inv map_of_SomeD [OF that] by (auto simp: dpset_inv_def)
  have emit: "dpset_inv st (ds_emit t e) = dpset_inv st t" for t e by (simp add: dpset_inv_def ds_emit_def)
  consider (add) "reason = OFPPR_ADD" | (del) "reason = OFPPR_DELETE" "reason \<noteq> OFPPR_ADD"
    | (mod) "reason = OFPPR_MODIFY" "reason \<noteq> OFPPR_ADD" "reason \<noteq> OFPPR_DELETE"
    using h j by (auto simp: port_status_handler_def split: if_splits)
  then show ?thesis
  proof cases
    case add
    with h j obtain ps where ps: "map_of (ds_port_state s) j = Some ps"
      "s' = ds_emit (s\<lparr>ds_port_state := dput (ds_port_state s) j (dput ps (po_port_no p) p)\<rparr>) (EventPortAdd r p)"
      by (auto simp: port_status_handler_def port_added_def rbind_eq_Inr dget_Inr_iff PortState_add_def)
    show ?thesis
      unfolding ps(2) emit using upd [OF ps(1) ports_ok_dput [OF old [OF ps(1)]]] by (simp add: ds_emit_def)
  next
    case del
    with h j obtain ps where ps: "map_of (ds_port_state s) j = Some ps"
      "s' = ds_emit (s\<lparr>ds_port_state := dput (ds_port_state s) j (ddel ps (po_port_no p))\<rparr>) (EventPortDelete r p)"
      by (auto simp: port_status_handler_def port_deleted_def rbind_eq_Inr dget_Inr_iff PortState_remove_def split: if_splits)
    show ?thesis
      unfolding ps(2) emit using upd [OF ps(1) ports_ok_ddel [OF old [OF ps(1)]]] by (simp add: ds_emit_def)
  next
    case mod
    with h j obtain ps where ps: "map_of (ds_port_state s) j = Some ps"
      "s' = ds_emit (s\<lparr>ds_port_state := dput (ds_port_state s) j (dput ps (po_port_no p) p)\<rparr>) (EventPortModify r p)"
      by (auto simp: port_status_handler_def rbind_eq_Inr dget_Inr_iff PortState_modify_def)
    show ?thesis
      unfolding ps(2) emit using upd [OF ps(1) ports_ok_dput [OF old [OF ps(1)]]] by (simp add: ds_emit_def)
  qed
qed

text \<open>What holds of a datapath id after every run, and its two interesting steps.\<close>

abbreviation ds_good :: "(nat \<Rightarrow> datapath) \<Rightarrow> int \<Rightarrow> dpset \<Rightarrow> bool" where
  "ds_good st i s \<equiv> dpset_inv st s \<and> alternating (presence st i (ds_events s)) \<and>
    (i \<in> set (dkeys (ds_dps s)) \<longleftrightarrow> odd (length (presence st i (ds_events s))))"

lemma ds_register_good:
  assumes good: "ds_good st i s" and reg: "ds_register st s r = Inr s'"
  shows "ds_good st i s'"
proof -
  from good have inv: "dpset_inv st s" by blast
  from reg obtain j where j: "dp_id (st r) = Some j" by (cases "dp_id (st r)") (auto simp: ds_register_def)
  show ?thesis
  proof (cases "dp_ports (st r)")
    case (Some ports)
    from register_ok [OF inv j Some] reg have s': "dpset_inv st s'" "ds_dps s' = dput (ds_dps s) j r"
      "ds_events s' = ds_events s @ (if j \<in> set (dkeys (ds_dps s)) then [] else [EventDP r True (dvals ports)])" by auto
    then show ?thesis using good j by (auto simp: alternating_snoc simp del: set_map)
  next
    case None
    with reg j have "j \<in> set (dkeys (ds_port_state s))" by (auto simp: ds_register_def Let_def split: if_splits)
    with reg j have "s' = s\<lparr>ds_dps := dput (ds_dps s) j r\<rparr>" by (simp add: ds_register_def Let_def del: set_map)
    moreover have jk: "j \<in> set (dkeys (ds_dps s))" using inv \<open>j \<in> set (dkeys (ds_port_state s))\<close> unfolding dpset_inv_def by blast
    moreover have "\<forall>p \<in> set (dput (ds_dps s) j r). dp_id (st (snd p)) = Some (fst p)"
      by (rule ballI, erule pair_in_dput) (use j inv in \<open>simp_all add: dpset_inv_def\<close>)
    ultimately show ?thesis using good dkeys_dput_present [OF jk, of r]
      unfolding dpset_inv_def by (simp del: set_map)
  qed
qed

lemma ds_unregister_good:
  assumes good: "ds_good st i s" and un: "ds_unregister st s r = Inr s'"
  shows "ds_good st i s'"
proof (cases "r \<in> set (dvals (ds_dps s))")
  case True
  from good have inv: "dpset_inv st s" by blast
  obtain j and ps :: port_state where s': "dpset_inv st s'" "dp_id (st r) = Some j" "(j, r) \<in> set (ds_dps s)"
    "ds_dps s' = ddel (ds_dps s) j" "ds_events s' = ds_events s @ [EventDP r False (dvals ps)]"
    using unregister_ok [OF inv, of r] unfolding if_P [OF True] un sum.inject by blast
  have "j \<in> set (dkeys (ds_dps s))" using s'(3) by (auto intro: rev_image_eqI)
  with s' good show ?thesis by (auto simp: alternating_snoc dkeys_ddel simp del: set_map)
next
  case False
  with unregister_ok [of st s r] good un have "s' = s" by auto
  with good show ?thesis by simp
qed

lemma ds_run_inv:
  assumes "ds_run st ins s"
  shows "ds_good st i s"
  using assms
proof (induction rule: ds_run.induct)
  case ds_run_start
  then show ?case by (simp add: dpset_inv_init) (simp add: dpset_init_def alternating_def)
next
  case (ds_run_step ins s inp s')
  then have good: "ds_good st i s" by blast
  show ?case
  proof (cases inp)
    case (PortStatus r reason p)
    with ds_run_step.hyps(2) have "port_status_handler st s r reason p = Inr s'" by (simp add: ds_handle_def)
    from port_status_frame [OF _ this, of i] good show ?thesis by simp
  next
    case (StateChange r d)
    then have h: "dispacher_change st s r d = Inr s'" using ds_run_step.hyps(2) by (simp add: ds_handle_def)
    consider (main) "d = MAIN_DISPATCHER" | (dead) "d = DEAD_DISPATCHER" | (other) "s' = s"
      using h by (auto simp: dispacher_change_def split: if_splits)
    then show ?thesis
    proof cases
      case main
      with h show ?thesis by (intro ds_register_good [OF good]) (simp add: dispacher_change_def)
    next
      case dead
      with h show ?thesis by (intro ds_unregister_good [OF good]) (simp add: dispacher_change_def)
    qed (use good in simp)
  qed
qed

section \<open>Properties\<close>

definition two_conns :: "nat \<Rightarrow> datapath" where
  "two_conns r = demo_dp\<lparr>dp_id := Some 1, dp_ports := Some []\<rparr>"

definition one_conn :: dpset where
  "one_conn = \<lparr>ds_dps = [(1, 0)], ds_port_state = [(1, [])], ds_events = [EventDP 0 True []]\<rparr>"

lemma one_conn_run: "ds_run two_conns [StateChange 0 MAIN_DISPATCHER] one_conn"
proof -
  have "ds_handle two_conns dpset_init (StateChange 0 MAIN_DISPATCHER) = Inr one_conn"
    by (simp add: ds_handle_def dispacher_change_def ds_register_def two_conns_def dpset_init_def Let_def
        ds_emit_def one_conn_def)
  from ds_run_step [OF ds_run_start this] show ?thesis by simp
qed

lemma one_conn_inv: "dpset_inv two_conns one_conn"
  using ds_run_inv [OF one_conn_run] by blast

text \<open>C23: for every datapath id the enter and leave events strictly alternate, starting with an enter,
  and the id is in the set exactly when its last event is an enter, whatever sequence of state
  changes and port events is processed, reconnections included.\<close>

theorem enter_leave:
  assumes "ds_run st ins s"
  shows "alternating (presence st i (ds_events s)) \<and>
    (ds_get s i \<noteq> None \<longleftrightarrow> presence st i (ds_events s) \<noteq> [] \<and> last (presence st i (ds_events s)))"
proof -
  let ?b = "presence st i (ds_events s)"
  have a: "alternating ?b" and o: "i \<in> set (dkeys (ds_dps s)) \<longleftrightarrow> odd (length ?b)"
    using ds_run_inv [OF assms] by blast+
  have "odd (length ?b) \<longleftrightarrow> ?b \<noteq> [] \<and> last ?b"
  proof (cases "?b = []")
    case False
    have "last ?b = last (map even [0..<length ?b])" using a unfolding alternating_def by (rule arg_cong)
    also have "\<dots> = even (length ?b - 1)" using False by (cases "length ?b") simp_all
    finally show ?thesis using False by simp
  qed simp
  with a o show ?thesis unfolding ds_get_def in_keys_iff(1) by simp
qed

theorem enter_leave_demo:
  "alternating (presence two_conns 1 (ds_events one_conn)) \<and>
    (ds_get one_conn 1 \<noteq> None \<longleftrightarrow> presence two_conns 1 (ds_events one_conn) \<noteq> [] \<and> last (presence two_conns 1 (ds_events one_conn)))"
  by (rule enter_leave [OF one_conn_run])

text \<open>C24: when a switch reconnects before the loss of its old connection is noticed, the end of the old
  connection changes nothing: the new connection stays registered and no leave event is sent.\<close>

theorem reconnect_survives:
  assumes "dpset_inv st s" and "dp_id (st old) = Some i" and "dp_id (st new) = Some i" and "dp_ports (st new) = Some ports"
    and "old \<noteq> new" and "ds_get s i = Some old"
  shows "\<exists>s1. dispacher_change st s new MAIN_DISPATCHER = Inr s1 \<and>
    dispacher_change st s1 old DEAD_DISPATCHER = Inr s1 \<and> ds_get s1 i = Some new \<and> ds_events s1 = ds_events s"
proof -
  have ik: "i \<in> set (dkeys (ds_dps s))" using assms(6) unfolding ds_get_def by (rule map_of_in_keys)
  obtain s1 where s1: "ds_register st s new = Inr s1" "dpset_inv st s1" "ds_dps s1 = dput (ds_dps s) i new"
    "ds_events s1 = ds_events s"
    using register_ok [OF assms(1,3,4)] ik by auto
  have "old \<notin> set (dvals (ds_dps s1))"
  proof
    assume "old \<in> set (dvals (ds_dps s1))"
    then obtain j where j: "(j, old) \<in> set (ds_dps s1)" by auto
    then have "dp_id (st old) = Some j" using s1(2) by (auto simp: dpset_inv_def)
    then have "j = i" using assms(2) by simp
    moreover have "map_of (ds_dps s1) j = Some old" using j s1(2) by (simp add: dpset_inv_def)
    ultimately show False using s1(3) assms(5) by simp
  qed
  with s1 show ?thesis
    by (simp add: dispacher_change_def ds_unregister_def ds_get_def del: set_map map_of_eq_Some_iff)
qed

theorem reconnect_survives_demo:
  "\<exists>s1. dispacher_change two_conns one_conn 5 MAIN_DISPATCHER = Inr s1 \<and>
    dispacher_change two_conns s1 0 DEAD_DISPATCHER = Inr s1 \<and> ds_get s1 1 = Some 5 \<and> ds_events s1 = ds_events one_conn"
  by (rule reconnect_survives [OF one_conn_inv, where ports = "[]"]) (simp_all add: two_conns_def one_conn_def ds_get_def)

end
