(* ===== verification/BwMon.thy ===== *)
theory BwMon
  imports Network BwStats DPSet
begin

text \<open>
  \<^verbatim>\<open>minidc/controller/bwmon.py\<close>: the application that asks every connected switch for its port
  counters every five seconds and records the answers. The requests sent are appended to the state, and the
  attribute \<^verbatim>\<open>statsReplied\<close>, which the monitor thread creates, is an option.
\<close>

section \<open>State and operations\<close>

record bwmon =
  bm_datapaths :: "(int, nat) dict"
  bm_stats :: bwstats
  bm_replied :: "int option"
  bm_sent :: "(nat \<times> of_msg) list"

definition bwmon_init :: "topology \<Rightarrow> bwmon" where
  "bwmon_init t = \<lparr>bm_datapaths = [], bm_stats = bwstats_init t, bm_replied = None, bm_sent = []\<rparr>"

text \<open>\<^verbatim>\<open>if datapath.id:\<close> is false for \<^verbatim>\<open>None\<close> and for zero.\<close>

definition stateChangeHandler :: "(nat \<Rightarrow> datapath) \<Rightarrow> bwmon \<Rightarrow> nat \<Rightarrow> dispatcher \<Rightarrow> bwmon" where
  "stateChangeHandler st m r state =
     (case dp_id (st r) of None \<Rightarrow> m
      | Some i \<Rightarrow>
        if i = 0 then m
        else if state = MAIN_DISPATCHER then
          (if i \<notin> set (dkeys (bm_datapaths m)) then m\<lparr>bm_datapaths := dput (bm_datapaths m) i r\<rparr> else m)
        else if state = DEAD_DISPATCHER then
          (if i \<in> set (dkeys (bm_datapaths m)) then m\<lparr>bm_datapaths := ddel (bm_datapaths m) i\<rparr> else m)
        else m)"

definition requestStats :: "bwmon \<Rightarrow> nat \<Rightarrow> bwmon" where
  "requestStats m r = m\<lparr>bm_sent := bm_sent m @ [(r, OFPPortStatsRequest 0 OFPP_ANY)]\<rparr>"

text \<open>One round of \<^verbatim>\<open>monitor\<close>'s endless loop, up to its sleep.\<close>

definition monitor_round :: "bwmon \<Rightarrow> bwmon" where
  "monitor_round m = foldl requestStats (m\<lparr>bm_replied := Some 0\<rparr>) (dvals (bm_datapaths m))"

definition reply_name :: "topology \<Rightarrow> datapath \<Rightarrow> string option" where
  "reply_name t d = (case dp_id d of None \<Rightarrow> None | Some i \<Rightarrow> dpidToName t i)"

definition total_dropped :: "port_stats list \<Rightarrow> int" where
  "total_dropped body = foldl (\<lambda>n s. n + ps_tx_dropped s + ps_rx_dropped s) 0 body"

definition record_host :: "topology \<Rightarrow> string option \<Rightarrow> bwstats \<Rightarrow> port_stats \<Rightarrow> bwstats res" where
  "record_host t name b stat =
     (case name of None \<Rightarrow> Inr b
      | Some n \<Rightarrow>
        if n \<notin> set (dkeys (t_edges t)) then Inr b
        else rbind (dget (t_ports t) n) (\<lambda>ps.
          if PInt (ps_port_no stat) \<notin> set (dkeys ps) then Inr b
          else rbind (dget ps (PInt (ps_port_no stat))) (\<lambda>device.
            case device of PInt _ \<Rightarrow> Inr b
            | PStr h \<Rightarrow> if h \<in> set (dkeys (t_hosts t))
                        then addHostBwStat b h (ps_tx_bytes stat) (ps_rx_bytes stat) else Inr b)))"

definition statsReplyHandler :: "topology \<Rightarrow> (nat \<Rightarrow> datapath) \<Rightarrow> bwmon \<Rightarrow> nat \<Rightarrow> port_stats list \<Rightarrow> bwmon res" where
  "statsReplyHandler t st m r body =
     (let name = reply_name t (st r);
          b1 = addDroppedPktStat (bm_stats m) name (total_dropped body) in
      rbind (rfold (record_host t name) b1 body) (\<lambda>b2.
      case bm_replied m of None \<Rightarrow> Inl AttributeErr
      | Some n \<Rightarrow>
        if n + 1 = int (length (bm_datapaths m))
        then rbind (updateTenantStats t b2) (\<lambda>b3. Inr (m\<lparr>bm_stats := b3, bm_replied := Some (n + 1)\<rparr>))
        else Inr (m\<lparr>bm_stats := b2, bm_replied := Some (n + 1)\<rparr>)))"

section \<open>Recording a reply\<close>

lemma record_host_port:
  assumes wf: "wf_topology t" and k: "k \<in> set (dkeys (t_edges t))"
  shows "record_host t (Some k) b stat =
    (case port_at t k (PInt (ps_port_no stat)) of
       Inr (PStr h) \<Rightarrow> if h \<in> set (dkeys (t_hosts t)) then addHostBwStat b h (ps_tx_bytes stat) (ps_rx_bytes stat) else Inr b
     | _ \<Rightarrow> Inr b)"
proof -
  obtain d where d: "dget (t_ports t) k = Inr d" using ports_of_switch [OF wf, of k] k by (auto simp: dget_def)
  show ?thesis
  proof (cases "PInt (ps_port_no stat) \<in> set (dkeys d)")
    case True
    then obtain x where x: "map_of d (PInt (ps_port_no stat)) = Some x" by (rule key_lookup)
    show ?thesis using True k by (cases x) (simp_all add: record_host_def d port_at_def dget_Inr_map [OF x] del: set_map)
  next
    case False
    then show ?thesis using k by (simp add: record_host_def d port_at_def dget_KeyErr del: set_map)
  qed
qed

text \<open>The newest entry of a reply that names the port of host \<open>h\<close>.\<close>

definition stat_of :: "topology \<Rightarrow> string \<Rightarrow> string \<Rightarrow> port_stats list \<Rightarrow> port_stats option" where
  "stat_of t k h body = find (\<lambda>s. port_at t k (PInt (ps_port_no s)) = Inr (PStr h)) (rev body)"

definition stat_bw :: "port_stats \<Rightarrow> bw" where
  "stat_bw s = \<lparr>bw_in = ps_tx_bytes s, bw_out = ps_rx_bytes s\<rparr>"

lemma find_append: "find P (xs @ ys) = (case find P xs of None \<Rightarrow> find P ys | Some x \<Rightarrow> Some x)"
  by (induction xs) auto

lemma stat_of_Cons: "stat_of t k h (s # body) = (case stat_of t k h body of
    None \<Rightarrow> if port_at t k (PInt (ps_port_no s)) = Inr (PStr h) then Some s else None | Some x \<Rightarrow> Some x)"
  by (simp add: stat_of_def find_append split: option.split)

lemma record_hosts:
  assumes wf: "wf_topology t" and k: "k \<in> set (dkeys (t_edges t))" and inv: "bwstats_inv t b"
  shows "\<exists>b'. rfold (record_host t (Some k)) b body = Inr b' \<and> bwstats_inv t b' \<and>
    vlanBw b' = vlanBw b \<and> prov_tenant b' = prov_tenant b \<and> swDroppedPkts b' = swDroppedPkts b \<and>
    (\<forall>h \<in> set (dkeys (t_hosts t)). map_of (hostBw b') h =
       (case stat_of t k h body of None \<Rightarrow> map_of (hostBw b) h | Some s \<Rightarrow> Some (stat_bw s)))"
  using inv
proof (induction body arbitrary: b)
  case Nil
  then show ?case by (simp add: stat_of_def)
next
  case (Cons s body)
  let ?p = "port_at t k (PInt (ps_port_no s))"
  have "\<exists>b1. record_host t (Some k) b s = Inr b1 \<and> bwstats_inv t b1 \<and> vlanBw b1 = vlanBw b \<and>
    prov_tenant b1 = prov_tenant b \<and> swDroppedPkts b1 = swDroppedPkts b \<and>
    (\<forall>h \<in> set (dkeys (t_hosts t)). map_of (hostBw b1) h = (if ?p = Inr (PStr h) then Some (stat_bw s) else map_of (hostBw b) h))"
  proof (cases "\<exists>h \<in> set (dkeys (t_hosts t)). ?p = Inr (PStr h)")
    case True
    then obtain h where h: "h \<in> set (dkeys (t_hosts t))" "?p = Inr (PStr h)" by blast
    obtain b1 where b1: "addHostBwStat b h (ps_tx_bytes s) (ps_rx_bytes s) = Inr b1" "bwstats_inv t b1"
      "map_of (hostBw b1) h = Some (stat_bw s)" "\<forall>g. g \<noteq> h \<longrightarrow> map_of (hostBw b1) g = map_of (hostBw b) g"
      "vlanBw b1 = vlanBw b" "prov_tenant b1 = prov_tenant b"
      using addHostBwStat_ok [OF Cons.prems h(1)] unfolding stat_bw_def by blast
    have "swDroppedPkts b1 = swDroppedPkts b" using b1(1) by (auto simp: addHostBwStat_def Let_def rbind_eq_Inr)
    moreover have "record_host t (Some k) b s = Inr b1"
      unfolding record_host_port [OF wf k] h(2) using h(1) b1(1) by simp
    ultimately show ?thesis using b1 h(2) by auto
  next
    case False
    have "record_host t (Some k) b s = Inr b"
      unfolding record_host_port [OF wf k] using False by (auto split: sum.split pyatom.split)
    with False Cons.prems show ?thesis by auto
  qed
  then obtain b1 where b1: "record_host t (Some k) b s = Inr b1" "bwstats_inv t b1" "vlanBw b1 = vlanBw b"
    "prov_tenant b1 = prov_tenant b" "swDroppedPkts b1 = swDroppedPkts b"
    "\<forall>h \<in> set (dkeys (t_hosts t)). map_of (hostBw b1) h = (if ?p = Inr (PStr h) then Some (stat_bw s) else map_of (hostBw b) h)"
    by blast
  obtain b' where b': "rfold (record_host t (Some k)) b1 body = Inr b'" "bwstats_inv t b'"
    "vlanBw b' = vlanBw b1" "prov_tenant b' = prov_tenant b1" "swDroppedPkts b' = swDroppedPkts b1"
    "\<forall>h \<in> set (dkeys (t_hosts t)). map_of (hostBw b') h =
       (case stat_of t k h body of None \<Rightarrow> map_of (hostBw b1) h | Some s \<Rightarrow> Some (stat_bw s))"
    using Cons.IH [OF b1(2)] by blast
  have "map_of (hostBw b') h = (case stat_of t k h (s # body) of None \<Rightarrow> map_of (hostBw b) h | Some s \<Rightarrow> Some (stat_bw s))"
    if "h \<in> set (dkeys (t_hosts t))" for h
    using b'(6) b1(6) that by (simp add: stat_of_Cons split: option.split del: set_map)
  with b1 b' show ?case by simp
qed

lemma dropped_frame:
  "bwstats_inv t (addDroppedPktStat b n x) = bwstats_inv t b" "hostBw (addDroppedPktStat b n x) = hostBw b"
  "vlanBw (addDroppedPktStat b n x) = vlanBw b"
  by (simp_all add: addDroppedPktStat_def bwstats_inv_def)

lemma edge_name:
  assumes wf: "wf_topology t" and e: "(k, e) \<in> set (t_edges t)" and i: "dp_id d = Some (e_dpid e)"
  shows "reply_name t d = Some k"
proof -
  have "e \<in> set (dvals (t_edges t))" using e by (auto intro: rev_image_eqI)
  then have "find (\<lambda>x. e_dpid x = e_dpid e) (dvals (t_edges t)) = Some e"
    by (rule find_key [OF _, rotated]) (use wf in \<open>simp add: wf_topology_def\<close>)
  then have "find (\<lambda>x. e_dpid e = e_dpid x) (dvals (t_edges t)) = Some e" by (simp only: eq_commute)
  with i wf_edge(1) [OF wf e] show ?thesis by (simp add: reply_name_def dpidToName_def)
qed

section \<open>Properties\<close>

lemma updateTenantStats_dropped: "updateTenantStats t b = Inr b' \<Longrightarrow> swDroppedPkts b' = swDroppedPkts b"
  by (auto simp: updateTenantStats_def rbind_eq_Inr write_dropped_frame)

definition monitored :: "bwmon \<Rightarrow> int \<Rightarrow> nat \<Rightarrow> bool" where
  "monitored m i r \<longleftrightarrow> map_of (bm_datapaths m) i = Some r"

definition demo_conn :: "nat \<Rightarrow> datapath" where
  "demo_conn r = demo_dp\<lparr>dp_id := Some (if r = 0 then 1 else int r)\<rparr>"

definition demo_mon :: bwmon where
  "demo_mon = (bwmon_init demo)\<lparr>bm_datapaths := [(1, 0)], bm_replied := Some 0\<rparr>"

definition demo_stat :: "int \<Rightarrow> port_stats" where
  "demo_stat p = \<lparr>ps_port_no = p, ps_rx_packets = 1, ps_tx_packets = 2, ps_rx_bytes = 100, ps_tx_bytes = 200,
     ps_rx_dropped = 0, ps_tx_dropped = 1, ps_rx_errors = 0, ps_tx_errors = 0, ps_rx_frame_err = 0,
     ps_rx_over_err = 0, ps_rx_crc_err = 0, ps_collisions = 0, ps_duration_sec = 0, ps_duration_nsec = 0\<rparr>"

lemma demo_mon_inv: "bwstats_inv demo (bm_stats demo_mon)"
proof -
  have "bwstats_inv demo (bwstats_init demo)"
    by (simp add: bwstats_inv_def bwstats_init_def bwprov_inv_init demo_def demo_hosts_def demo_host_def
        vlan_members_def add_vlan_member_def bwprov_init_def bwprov_inv_def str_of_nat.simps digit_char_def)
  then show ?thesis by (simp add: demo_mon_def bwmon_init_def)
qed

text \<open>A reply of an edge switch is recorded without failure: the counters of every attached host named
  by the reply become the switch port's counters with the directions swapped, every other host keeps
  its own, and with the last outstanding reply the tenants' counters are the sums over the
  updated hosts, while before that they do not change.\<close>

lemma record_reply:
  assumes "wf_topology t" and "(k, e) \<in> set (t_edges t)" and "dp_id (st r) = Some (e_dpid e)"
    and "bwstats_inv t (bm_stats m)" and "bm_replied m = Some n"
  shows "\<exists>m'. statsReplyHandler t st m r body = Inr m' \<and> bwstats_inv t (bm_stats m') \<and> bm_replied m' = Some (n + 1) \<and>
    map_of (swDroppedPkts (bm_stats m')) (Some k) = Some (total_dropped body) \<and>
    (\<forall>h \<in> set (dkeys (t_hosts t)). map_of (hostBw (bm_stats m')) h =
       (case stat_of t k h body of None \<Rightarrow> map_of (hostBw (bm_stats m)) h | Some s \<Rightarrow> Some (stat_bw s))) \<and>
    (if n + 1 = int (length (bm_datapaths m))
     then \<forall>v \<in> set (dkeys (vlanBw (bm_stats m))). map_of (vlanBw (bm_stats m')) v =
       Some \<lparr>bw_in = vlan_total t (hostBw (bm_stats m')) bw_in v, bw_out = vlan_total t (hostBw (bm_stats m')) bw_out v\<rparr>
     else vlanBw (bm_stats m') = vlanBw (bm_stats m))"
proof -
  have k: "k \<in> set (dkeys (t_edges t))" using assms(2) by (auto intro: rev_image_eqI)
  let ?b1 = "addDroppedPktStat (bm_stats m) (Some k) (total_dropped body)"
  have inv1: "bwstats_inv t ?b1" using assms(4) by (simp add: dropped_frame)
  obtain b2 where b2: "rfold (record_host t (Some k)) ?b1 body = Inr b2" "bwstats_inv t b2" "vlanBw b2 = vlanBw (bm_stats m)"
    "swDroppedPkts b2 = swDroppedPkts ?b1"
    "\<forall>h \<in> set (dkeys (t_hosts t)). map_of (hostBw b2) h =
       (case stat_of t k h body of None \<Rightarrow> map_of (hostBw (bm_stats m)) h | Some s \<Rightarrow> Some (stat_bw s))"
    using record_hosts [OF assms(1) k inv1] unfolding dropped_frame by blast
  have drop: "map_of (swDroppedPkts b2) (Some k) = Some (total_dropped body)"
    by (simp add: b2(4) addDroppedPktStat_def)
  have run: "statsReplyHandler t st m r body = (if n + 1 = int (length (bm_datapaths m))
        then rbind (updateTenantStats t b2) (\<lambda>b3. Inr (m\<lparr>bm_stats := b3, bm_replied := Some (n + 1)\<rparr>))
        else Inr (m\<lparr>bm_stats := b2, bm_replied := Some (n + 1)\<rparr>))"
    by (simp only: statsReplyHandler_def edge_name [OF assms(1-3)] Let_def b2(1) rbind_simps assms(5) option.case)
  show ?thesis
  proof (cases "n + 1 = int (length (bm_datapaths m))")
    case True
    obtain b3 where b3: "updateTenantStats t b2 = Inr b3" "bwstats_inv t b3" "hostBw b3 = hostBw b2"
      "\<forall>v \<in> set (dkeys (vlanBw b2)). map_of (vlanBw b3) v =
        Some \<lparr>bw_in = vlan_total t (hostBw b2) bw_in v, bw_out = vlan_total t (hostBw b2) bw_out v\<rparr>"
      using updateTenantStats_ok [OF b2(2)] by blast
    have "swDroppedPkts b3 = swDroppedPkts b2" by (rule updateTenantStats_dropped [OF b3(1)])
    with True run b3 b2 drop show ?thesis
      by (intro exI [of _ "m\<lparr>bm_stats := b3, bm_replied := Some (n + 1)\<rparr>"]) (simp del: set_map)
  next
    case False
    with run b2 drop show ?thesis
      by (intro exI [of _ "m\<lparr>bm_stats := b2, bm_replied := Some (n + 1)\<rparr>"]) (simp del: set_map)
  qed
qed

text \<open>A switch that reconnects before the loss of its old connection is noticed is no longer
  monitored: the new connection is not registered, because the id is still known, and the end of
  the old one removes the id. No further statistics request goes to the new connection, which the set of datapaths
  still lists.\<close>

theorem reconnect_unmonitored:
  assumes "dp_id (st old) = Some i" and "dp_id (st new) = Some i" and "i \<noteq> 0"
    and "monitored m i old" and "new \<notin> set (dvals (bm_datapaths m))" and "\<forall>q. (new, q) \<notin> set (bm_sent m)"
  shows "\<forall>q. (new, q) \<notin> set (bm_sent (monitor_round
    (stateChangeHandler st (stateChangeHandler st m new MAIN_DISPATCHER) old DEAD_DISPATCHER)))"
proof -
  have ik: "i \<in> set (dkeys (bm_datapaths m))" using assms(4) unfolding monitored_def by (rule map_of_in_keys)
  let ?m1 = "stateChangeHandler st m new MAIN_DISPATCHER"
  let ?m2 = "stateChangeHandler st ?m1 old DEAD_DISPATCHER"
  have m1: "?m1 = m" using assms(2,3) ik by (simp add: stateChangeHandler_def del: set_map)
  have m2: "?m2 = m\<lparr>bm_datapaths := ddel (bm_datapaths m) i\<rparr>"
    unfolding m1 using assms(1,3) ik by (simp add: stateChangeHandler_def del: set_map)
  have sent: "bm_sent (foldl requestStats x rs) = bm_sent x @ map (\<lambda>r. (r, OFPPortStatsRequest 0 OFPP_ANY)) rs" for x rs
    by (induction rs arbitrary: x) (simp_all add: requestStats_def)
  have "new \<notin> set (dvals (ddel (bm_datapaths m) i))" using assms(5) by (auto simp: ddel_def)
  with assms(6) show ?thesis unfolding m2 monitor_round_def by (auto simp: sent)
qed

theorem reconnect_unmonitored_demo:
  "\<forall>q. (1, q) \<notin> set (bm_sent (monitor_round
    (stateChangeHandler demo_conn (stateChangeHandler demo_conn demo_mon 1 MAIN_DISPATCHER) 0 DEAD_DISPATCHER)))"
  by (rule reconnect_unmonitored [where i = 1]) (simp_all add: demo_conn_def demo_mon_def bwmon_init_def monitored_def)

end
