(* ===== verification/Controller.thy ===== *)
theory Controller
  imports BwMon
begin

text \<open>
  The controller application, \<^verbatim>\<open>minidc/controller/controller.py\<close>: three policies, one of them
  current, and the requests that load a policy, clear the tables or name the current one. It sends flow modifications;
  they are appended to the state with the connection they go to. The set of connected
  switches \<open>ds\<close> is Ryu's \<^verbatim>\<open>dpset\<close>. What a switch does with a flow modification is the
  argument \<open>upd\<close>, constrained by \<open>mod_table\<close>.
\<close>

section \<open>State and operations\<close>

record controller =
  ct_mon :: bwmon
  ct_default :: rtable
  ct_static :: rtable
  ct_adaptive :: adaptive
  ct_cur :: string
  ct_sent :: "(nat \<times> of_msg) list"

definition policy_names :: "string list" where
  "policy_names = [''default'', ''static'', ''adaptive'']"

definition controller_init :: "topology \<Rightarrow> controller res" where
  "controller_init t =
     rbind (DefaultPolicy_build t) (\<lambda>d.
     rbind (StaticPolicy_build t) (\<lambda>s.
     rbind (AdaptivePolicy_init t) (\<lambda>a.
     Inr \<lparr>ct_mon = bwmon_init t, ct_default = d, ct_static = s, ct_adaptive = a,
          ct_cur = ''default'', ct_sent = []\<rparr>)))"

text \<open>\<^verbatim>\<open>self.policies[policy].routingTable\<close>\<close>

definition routing_table :: "(string list \<Rightarrow> string list) \<Rightarrow> topology \<Rightarrow> controller \<Rightarrow> string \<Rightarrow> (controller \<times> rtable) res" where
  "routing_table ko t c policy =
     (if policy = ''default'' then Inr (c, ct_default c)
      else if policy = ''static'' then Inr (c, ct_static c)
      else if policy = ''adaptive'' then
        rbind (adaptive_routingTable ko t (hostBw (bm_stats (ct_mon c))) (ct_adaptive c)) (\<lambda>(a, rt).
        Inr (c\<lparr>ct_adaptive := a\<rparr>, rt))
      else Inl KeyErr)"

definition makeMatch :: "flow \<Rightarrow> of_match" where
  "makeMatch f = (case f_match f of
       MSrc e \<Rightarrow> [OxmEthSrc e]
     | MDst e \<Rightarrow> [OxmEthDst e]
     | MInport p \<Rightarrow> [OxmInPort p]
     | MNone \<Rightarrow> [])"

definition flow_actions :: "pyatom list \<Rightarrow> of_action list" where
  "flow_actions outs = map (\<lambda>outport. if outport = FLOOD then OFPActionOutput (PInt OFPP_FLOOD)
                                     else OFPActionOutput outport) outs"

definition flow_to_mod :: "int \<Rightarrow> of_match \<Rightarrow> of_action list \<Rightarrow> flow_mod" where
  "flow_to_mod priority mtch actions =
     flow_mod_default\<lparr>fm_priority := priority, fm_match := mtch,
       fm_instructions := [InstructionActions OFPIT_APPLY_ACTIONS actions]\<rparr>"

definition add_flow :: "controller \<Rightarrow> nat \<Rightarrow> int \<Rightarrow> of_match \<Rightarrow> of_action list \<Rightarrow> controller" where
  "add_flow c r priority mtch actions =
     c\<lparr>ct_sent := ct_sent c @ [(r, OFPFlowMod (flow_to_mod priority mtch actions))]\<rparr>"

definition install_flow :: "nat \<Rightarrow> controller \<Rightarrow> flow \<Rightarrow> controller" where
  "install_flow r c f = add_flow c r (f_priority f) (makeMatch f) (flow_actions (f_output f))"

definition applyPolicy :: "(string list \<Rightarrow> string list) \<Rightarrow> topology \<Rightarrow> (nat \<Rightarrow> datapath) \<Rightarrow> dpset \<Rightarrow> controller \<Rightarrow> string
    \<Rightarrow> controller res" where
  "applyPolicy ko t st ds c policy =
     (if policy \<notin> set policy_names then Inl AssertErr
      else rbind (routing_table ko t c policy) (\<lambda>(c1, rt).
        Inr (foldl (\<lambda>c r. case dp_id (st r) of None \<Rightarrow> c
               | Some dpid \<Rightarrow> (case map_of rt dpid of None \<Rightarrow> c
                               | Some flows \<Rightarrow> foldl (install_flow r) c flows))
             (c1\<lparr>ct_cur := policy\<rparr>) (dvals (ds_dps ds)))))"

text \<open>The flow modification of \<^verbatim>\<open>rpcClear\<close>: delete, in all tables, with an empty match.\<close>

definition clear_mod :: "int \<Rightarrow> flow_mod" where
  "clear_mod flags = \<lparr>fm_cookie = 0, fm_cookie_mask = 0, fm_table_id = OFPTT_ALL, fm_command = OFPFC_DELETE,
     fm_idle_timeout = 0, fm_hard_timeout = 0, fm_priority = 1, fm_buffer_id = OFP_NO_BUFFER,
     fm_out_port = OFPP_ANY, fm_out_group = OFPG_ANY, fm_flags = flags, fm_match = [], fm_instructions = []\<rparr>"

definition rpcClear :: "topology \<Rightarrow> dpset \<Rightarrow> controller \<Rightarrow> (bool \<times> string) \<times> controller" where
  "rpcClear t ds c =
     ((True, ''Flow tables cleared''),
      foldl (\<lambda>c (dpid, r).
        let command = (case dpidToName t dpid of
              Some name \<Rightarrow> if name \<in> set (dkeys (t_cores t)) then or OFPFF_SEND_FLOW_REM OFPFF_RESET_COUNTS
                           else OFPFF_SEND_FLOW_REM
            | None \<Rightarrow> OFPFF_SEND_FLOW_REM) in
        c\<lparr>ct_sent := ct_sent c @ [(r, OFPFlowMod (clear_mod command))]\<rparr>) c (ds_dps ds))"

definition rpcLoadPolicy :: "(string list \<Rightarrow> string list) \<Rightarrow> topology \<Rightarrow> (nat \<Rightarrow> datapath) \<Rightarrow> dpset \<Rightarrow> controller \<Rightarrow> string
    \<Rightarrow> ((bool \<times> string) \<times> controller) res" where
  "rpcLoadPolicy ko t st ds c policy =
     (if policy \<notin> set policy_names then Inr ((False, ''Unexpected policy '' @ policy), c)
      else if policy = ct_cur c then Inr ((True, ''Policy '' @ policy @ '' already loaded''), c)
      else rbind (applyPolicy ko t st ds (snd (rpcClear t ds c)) policy) (\<lambda>c1.
        Inr ((True, ''Policy '' @ policy @ '' loaded''), c1)))"

definition rpcCurrentPolicy :: "controller \<Rightarrow> bool \<times> string" where
  "rpcCurrentPolicy c = (True, ct_cur c)"

definition switchFeaturesHandler :: "(string list \<Rightarrow> string list) \<Rightarrow> topology \<Rightarrow> (nat \<Rightarrow> datapath) \<Rightarrow> controller \<Rightarrow> nat
    \<Rightarrow> controller res" where
  "switchFeaturesHandler ko t st c r =
     rbind (routing_table ko t c (ct_cur c)) (\<lambda>(c1, rt).
     case dp_id (st r) of None \<Rightarrow> Inr c1
     | Some dpid \<Rightarrow> (case map_of rt dpid of None \<Rightarrow> Inr c1 | Some flows \<Rightarrow> Inr (foldl (install_flow r) c1 flows)))"

section \<open>What is sent\<close>

definition mod_of :: "flow \<Rightarrow> flow_mod" where
  "mod_of f = flow_to_mod (f_priority f) (makeMatch f) (flow_actions (f_output f))"

lemma install_flows_sent:
  "foldl (install_flow r) c fs = c\<lparr>ct_sent := ct_sent c @ map (\<lambda>f. (r, OFPFlowMod (mod_of f))) fs\<rparr>"
  by (induction fs arbitrary: c) (simp_all add: install_flow_def add_flow_def mod_of_def)

definition flows_for :: "(nat \<Rightarrow> datapath) \<Rightarrow> rtable \<Rightarrow> nat \<Rightarrow> flow list" where
  "flows_for st rt r = (case dp_id (st r) of None \<Rightarrow> [] | Some dpid \<Rightarrow> olist (map_of rt dpid))"

lemma apply_loop_sent:
  "foldl (\<lambda>c r. case dp_id (st r) of None \<Rightarrow> c
       | Some dpid \<Rightarrow> (case map_of rt dpid of None \<Rightarrow> c | Some flows \<Rightarrow> foldl (install_flow r) c flows)) c rs
   = c\<lparr>ct_sent := ct_sent c @ concat (map (\<lambda>r. map (\<lambda>f. (r, OFPFlowMod (mod_of f))) (flows_for st rt r)) rs)\<rparr>"
proof (induction rs arbitrary: c)
  case (Cons r rs)
  have "(case dp_id (st r) of None \<Rightarrow> c
       | Some dpid \<Rightarrow> (case map_of rt dpid of None \<Rightarrow> c | Some flows \<Rightarrow> foldl (install_flow r) c flows))
     = c\<lparr>ct_sent := ct_sent c @ map (\<lambda>f. (r, OFPFlowMod (mod_of f))) (flows_for st rt r)\<rparr>"
    by (auto simp: flows_for_def install_flows_sent split: option.split)
  then show ?case by (simp add: Cons.IH)
qed simp

text \<open>The messages of a log that go to one connection.\<close>

definition sent_to :: "nat \<Rightarrow> (nat \<times> of_msg) list \<Rightarrow> of_msg list" where
  "sent_to r log = map snd (filter (\<lambda>p. fst p = r) log)"

lemma sent_to_append [simp]: "sent_to r (xs @ ys) = sent_to r xs @ sent_to r ys"
  by (simp add: sent_to_def)

lemma sent_to_same: "sent_to r (map (\<lambda>f. (r', g f)) fs) = (if r' = r then map g fs else [])"
  by (induction fs) (auto simp: sent_to_def)

lemma sent_to_concat: "distinct rs \<Longrightarrow>
    sent_to r (concat (map (\<lambda>r'. map (\<lambda>f. (r', g f)) (fs r')) rs)) = (if r \<in> set rs then map g (fs r) else [])"
proof (induction rs)
  case (Cons r' rs)
  then show ?case by (auto simp: sent_to_same)
qed (simp add: sent_to_def)

definition clear_flags :: "int \<Rightarrow> bool" where
  "clear_flags fl \<longleftrightarrow> fl = OFPFF_SEND_FLOW_REM \<or> fl = or OFPFF_SEND_FLOW_REM OFPFF_RESET_COUNTS"

lemma rpcClear_sent:
  "\<exists>log. ct_sent (snd (rpcClear t ds c)) = ct_sent c @ log \<and>
     (\<forall>r. distinct (dvals (ds_dps ds)) \<longrightarrow> r \<in> set (dvals (ds_dps ds)) \<longrightarrow>
        (\<exists>fl. clear_flags fl \<and> sent_to r log = [OFPFlowMod (clear_mod fl)])) \<and>
     snd (rpcClear t ds c) = c\<lparr>ct_sent := ct_sent c @ log\<rparr>"
proof -
  let ?fl = "\<lambda>dpid. (case dpidToName t dpid of
              Some name \<Rightarrow> if name \<in> set (dkeys (t_cores t)) then or OFPFF_SEND_FLOW_REM OFPFF_RESET_COUNTS
                           else OFPFF_SEND_FLOW_REM
            | None \<Rightarrow> OFPFF_SEND_FLOW_REM)"
  let ?log = "\<lambda>ps. map (\<lambda>(dpid, r). (r, OFPFlowMod (clear_mod (?fl dpid)))) ps"
  have run: "foldl (\<lambda>c (dpid, r). c\<lparr>ct_sent := ct_sent c @ [(r, OFPFlowMod (clear_mod (?fl dpid)))]\<rparr>) c ps
      = c\<lparr>ct_sent := ct_sent c @ ?log ps\<rparr>" for c :: controller and ps :: "(int \<times> nat) list"
    by (induction ps arbitrary: c) auto
  have one: "r \<notin> set (dvals ps) \<Longrightarrow> sent_to r (?log ps) = []" for r and ps :: "(int \<times> nat) list"
    by (induction ps) (auto simp: sent_to_def)
  have fl: "clear_flags (?fl i)" for i by (simp add: clear_flags_def split: option.split)
  have "distinct (dvals ps) \<Longrightarrow> r \<in> set (dvals ps) \<Longrightarrow> \<exists>fl. clear_flags fl \<and> sent_to r (?log ps) = [OFPFlowMod (clear_mod fl)]"
    for r and ps :: "(int \<times> nat) list"
  proof (induction ps)
    case (Cons p ps)
    obtain i r' where p: "p = (i, r')" by (cases p)
    show ?case
    proof (cases "r' = r")
      case True
      then have "sent_to r (?log ps) = []" using Cons.prems(1) p by (intro one) simp
      then show ?thesis using True p by (intro exI [of _ "?fl i"] conjI fl) (simp add: sent_to_def)
    next
      case False
      with Cons p show ?thesis by (auto simp: sent_to_def)
    qed
  qed simp
  then show ?thesis
    by (intro exI [of _ "?log (ds_dps ds)"]) (auto simp: rpcClear_def Let_def run simp del: set_map)
qed

section \<open>The tables of the switches\<close>

text \<open>
  What OpenFlow promises of a switch's table: the delete without a match empties it, an entry
  whose match and priority no other entry has is added.
\<close>

definition mod_table :: "(flow_mod list \<Rightarrow> of_msg \<Rightarrow> flow_mod list) \<Rightarrow> bool" where
  "mod_table upd \<longleftrightarrow> (\<forall>tbl fl. upd tbl (OFPFlowMod (clear_mod fl)) = []) \<and>
     (\<forall>tbl m. fm_command m = OFPFC_ADD \<longrightarrow>
        (\<forall>x \<in> set tbl. fm_match x \<noteq> fm_match m \<or> fm_priority x \<noteq> fm_priority m) \<longrightarrow>
        upd tbl (OFPFlowMod m) = tbl @ [m])"

lemma makeMatch_inj: "makeMatch f = makeMatch g \<longleftrightarrow> f_match f = f_match g"
  by (cases "f_match f"; cases "f_match g") (simp_all add: makeMatch_def)

lemma mod_of_simps [simp]:
  "fm_match (mod_of f) = makeMatch f" "fm_priority (mod_of f) = f_priority f" "fm_command (mod_of f) = OFPFC_ADD"
  by (simp_all add: mod_of_def flow_to_mod_def flow_mod_default_def)

lemma replay_adds:
  assumes "mod_table upd" and "distinct (map f_match (gs @ fs))"
  shows "foldl upd (map mod_of gs) (map (\<lambda>f. OFPFlowMod (mod_of f)) fs) = map mod_of (gs @ fs)"
  using assms(2)
proof (induction fs arbitrary: gs)
  case (Cons f fs)
  have "f_match f \<notin> set (map f_match gs)" using Cons.prems by auto
  then have "\<forall>x \<in> set (map mod_of gs). fm_match x \<noteq> fm_match (mod_of f) \<or> fm_priority x \<noteq> fm_priority (mod_of f)"
    unfolding set_map by (metis (no_types) imageE imageI makeMatch_inj mod_of_simps(1))
  then have "upd (map mod_of gs) (OFPFlowMod (mod_of f)) = map mod_of gs @ [mod_of f]"
    using assms(1) mod_of_simps(3) unfolding mod_table_def by blast
  with Cons.IH [of "gs @ [f]"] Cons.prems show ?case by simp
qed simp

lemma core_matches: "wf_topology t \<Longrightarrow> distinct (map f_match (core_tail t (Some (core_dst t k))))"
  using eth_distinct [of t]
  by (auto simp: core_tail_def core_dst_def dst_flow_def src_flow_def drop_flow_def comp_def distinct_map inj_on_def)

lemma core_matches_none: "distinct (map f_match (core_tail t None))"
  by (simp add: core_tail_def)

lemma edge_matches:
  assumes wf: "wf_topology t" and e: "(k, e) \<in> set (t_edges t)"
  shows "distinct (map f_match (edge_dst t choice e @ edge_tail t e))"
proof -
  let ?p = "\<lambda>n. MInport (PInt (port_no t k n))"
  have en: "e_name e = k" by (rule wf_edge(1) [OF wf e])
  have dst: "map f_match (edge_dst t choice e) = map MDst (map h_eth (dvals (t_hosts t)))"
    by (simp add: edge_dst_def dst_flow_def comp_def)
  define ns where "ns = dkeys (t_cores t) @ e_neighbors e"
  have tail: "map f_match (edge_tail t e) = map ?p ns @ [MNone]"
    by (simp add: ns_def edge_tail_def down_flow_def up_flow_def inport_flow_def drop_flow_def en comp_def)
  have "inj_on ?p (set ns)"
    using near_edge [OF wf e] by (auto simp: ns_def inj_on_def port_no_inj)
  moreover have "distinct ns"
    using wf_names(1) [OF wf] wf_edge(2) [OF wf e] wf_neighbor_not_core(2) [OF wf e] by (auto simp: ns_def)
  ultimately have 1: "distinct (map ?p ns)" by (simp only: distinct_map)
  have 2: "distinct (map MDst (map h_eth (dvals (t_hosts t))))"
    using eth_distinct [OF wf] by (simp only: distinct_map) (simp add: inj_on_def)
  have 3: "set (map MDst xs) \<inter> set (map ?p ys @ [MNone]) = {}" for xs ys by auto
  have 4: "distinct (map ?p ys @ [MNone])" if "distinct (map ?p ys)" for ys using that by auto
  have "map f_match (edge_dst t choice e @ edge_tail t e) = map MDst (map h_eth (dvals (t_hosts t))) @ (map ?p ns @ [MNone])"
    unfolding map_append [of f_match] dst tail ..
  moreover have "distinct (map MDst (map h_eth (dvals (t_hosts t))) @ (map ?p ns @ [MNone]))"
    by (rule distinct_append [THEN iffD2]) (intro conjI 2 3 4 [OF 1])
  ultimately show ?thesis by (simp only:)
qed

lemma policy_matches:
  assumes wf: "wf_topology t" and pt: "policy_tables t active choice rt"
    and sw: "d \<in> set (map c_dpid (dvals (t_cores t))) \<or> d \<in> set (map e_dpid (dvals (t_edges t)))"
  shows "\<exists>fs. map_of rt d = Some fs \<and> distinct (map f_match fs)"
  using sw
proof
  assume "d \<in> set (map c_dpid (dvals (t_cores t)))"
  then obtain c where c: "c \<in> set (dvals (t_cores t))" "d = c_dpid c" by auto
  then have "map_of rt d = Some (core_tail t (if active (c_name c) then Some (core_dst t (c_name c)) else None))"
    using pt unfolding policy_tables_def by blast
  with core_matches [OF wf] core_matches_none show ?thesis by auto
next
  assume "d \<in> set (map e_dpid (dvals (t_edges t)))"
  then obtain k e where e: "(k, e) \<in> set (t_edges t)" "d = e_dpid e" by auto
  then have "e \<in> set (dvals (t_edges t))" by (auto intro: rev_image_eqI)
  then have "map_of rt d = Some (edge_dst t choice e @ edge_tail t e)"
    using pt e(2) unfolding policy_tables_def by blast
  with edge_matches [OF wf e(1)] show ?thesis by blast
qed

section \<open>The controller's invariant\<close>

definition ctrl_inv :: "topology \<Rightarrow> controller \<Rightarrow> bool" where
  "ctrl_inv t c \<longleftrightarrow> wf_topology t \<and> t_cores t \<noteq> [] \<and> vlans_covered t \<and>
     bwstats_inv t (bm_stats (ct_mon c)) \<and> (\<forall>p \<in> set (hostBw (bm_stats (ct_mon c))). 0 \<le> bw_in (snd p)) \<and>
     adaptive_inv t (ct_adaptive c) \<and> ct_cur c \<in> set policy_names \<and>
     (\<exists>core. core \<in> set (dkeys (t_cores t)) \<and> policy_tables t (\<lambda>k. k = core) (\<lambda>_. core) (ct_default c)) \<and>
     policy_tables t (\<lambda>_. True) (vlan_core t) (ct_static c)"

text \<open>
  The table that a policy stands for, in the controller \<open>c\<close>; \<open>a\<close> is the adaptive policy's state afterwards. The default
  policy sends everything over one core switch, the static one over the core switch of the destination's VLAN, the adaptive
  one over the core switches of the redistribution that reading its table makes.
\<close>

definition policy_table :: "(string list \<Rightarrow> string list) \<Rightarrow> topology \<Rightarrow> controller \<Rightarrow> string \<Rightarrow> adaptive \<Rightarrow> rtable \<Rightarrow> bool" where
  "policy_table ko t c policy a rt \<longleftrightarrow>
     (policy = ''default'' \<and> rt = ct_default c \<and> a = ct_adaptive c \<and>
        (\<exists>core. core \<in> set (dkeys (t_cores t)) \<and> policy_tables t (\<lambda>k. k = core) (\<lambda>_. core) rt)) \<or>
     (policy = ''static'' \<and> rt = ct_static c \<and> a = ct_adaptive c \<and> policy_tables t (\<lambda>_. True) (vlan_core t) rt) \<or>
     (policy = ''adaptive'' \<and> adaptive_routingTable ko t (hostBw (bm_stats (ct_mon c))) (ct_adaptive c) = Inr (a, rt) \<and>
        policy_tables t (\<lambda>_. True) (assigned_core a) rt)"

lemma policy_table_sent [simp]: "policy_table ko t (c\<lparr>ct_sent := l\<rparr>) policy a rt = policy_table ko t c policy a rt"
  by (simp add: policy_table_def)

text \<open>Every access to a policy's table succeeds and gives tables that deliver.\<close>

lemma routing_table_ok:
  assumes inv: "ctrl_inv t c" and ko: "is_order ko" and pol: "policy \<in> set policy_names"
  shows "\<exists>a rt active choice. routing_table ko t c policy = Inr (c\<lparr>ct_adaptive := a\<rparr>, rt) \<and> adaptive_inv t a \<and>
    policy_table ko t c policy a rt \<and> policy_tables t active choice rt \<and>
    (\<forall>g \<in> set (dvals (t_hosts t)). choice g \<in> set (dkeys (t_cores t)) \<and> active (choice g))"
proof -
  note i = inv [unfolded ctrl_inv_def]
  have wf: "wf_topology t" using i by blast
  have same: "c\<lparr>ct_adaptive := ct_adaptive c\<rparr> = c" by simp
  consider "policy = ''default''" | "policy = ''static''" | "policy = ''adaptive''"
    using pol by (auto simp: policy_names_def)
  then show ?thesis
  proof cases
    case 1
    obtain core where core: "core \<in> set (dkeys (t_cores t))" "policy_tables t (\<lambda>k. k = core) (\<lambda>_. core) (ct_default c)"
      using i by blast
    have "routing_table ko t c policy = Inr (c\<lparr>ct_adaptive := ct_adaptive c\<rparr>, ct_default c)"
      by (simp add: routing_table_def 1)
    moreover have "policy_table ko t c policy (ct_adaptive c) (ct_default c)"
      unfolding policy_table_def using 1 core by blast
    moreover have "adaptive_inv t (ct_adaptive c)" using i by blast
    ultimately show ?thesis using core by blast
  next
    case 2
    have "routing_table ko t c policy = Inr (c\<lparr>ct_adaptive := ct_adaptive c\<rparr>, ct_static c)"
      by (simp add: routing_table_def 2)
    moreover have s: "adaptive_inv t (ct_adaptive c)" "policy_tables t (\<lambda>_. True) (vlan_core t) (ct_static c)" using i by blast+
    moreover have "policy_table ko t c policy (ct_adaptive c) (ct_static c)"
      unfolding policy_table_def using 2 s(2) by blast
    moreover have "\<forall>g \<in> set (dvals (t_hosts t)). vlan_core t g \<in> set (dkeys (t_cores t)) \<and> True"
      using static_choice_ok [OF wf] i unfolding choice_ok_def by blast
    ultimately show ?thesis by blast
  next
    case 3
    let ?hb = "hostBw (bm_stats (ct_mon c))"
    have "distinct (dkeys ?hb)" using i unfolding bwstats_inv_def by metis
    then obtain a rt where a: "adaptive_routingTable ko t ?hb (ct_adaptive c) = Inr (a, rt)" "adaptive_inv t a"
      "policy_tables t (\<lambda>_. True) (assigned_core a) rt"
      using adaptive_routingTable_ok [OF wf ko, of "ct_adaptive c" ?hb] i by blast
    have "routing_table ko t c policy = Inr (c\<lparr>ct_adaptive := a\<rparr>, rt)"
      by (simp add: routing_table_def 3 a(1))
    moreover have "policy_table ko t c policy a rt" unfolding policy_table_def using 3 a(1,3) by blast
    ultimately show ?thesis using a assigned_core_ok [OF wf a(2)] by blast
  qed
qed

lemma dps_distinct_refs:
  assumes "dpset_inv st ds"
  shows "distinct (dvals (ds_dps ds))"
proof -
  have "inj_on snd (set (ds_dps ds))"
  proof (rule inj_onI)
    fix p q assume pq: "p \<in> set (ds_dps ds)" "q \<in> set (ds_dps ds)" "snd p = snd q"
    have "dp_id (st (snd p)) = Some (fst p)" using assms pq(1) unfolding dpset_inv_def by blast
    moreover have "dp_id (st (snd q)) = Some (fst q)" using assms pq(2) unfolding dpset_inv_def by blast
    ultimately show "p = q" using pq(3) by (simp add: prod_eq_iff)
  qed
  moreover have "distinct (ds_dps ds)" using assms unfolding dpset_inv_def distinct_map by blast
  ultimately show ?thesis by (simp only: distinct_map)
qed

section \<open>Properties\<close>

lemma ctrl_inv_frame [simp]:
  "ctrl_inv t (c\<lparr>ct_sent := l\<rparr>) = ctrl_inv t c"
  by (simp add: ctrl_inv_def)

lemma ctrl_inv_update:
  "ctrl_inv t c \<Longrightarrow> adaptive_inv t a \<Longrightarrow> p \<in> set policy_names \<Longrightarrow> ctrl_inv t (c\<lparr>ct_adaptive := a, ct_cur := p, ct_sent := l\<rparr>)"
  by (simp add: ctrl_inv_def)

text \<open>Every connected switch is one of the topology's.\<close>

definition switches_known :: "topology \<Rightarrow> dpset \<Rightarrow> bool" where
  "switches_known t ds \<longleftrightarrow> (\<forall>p \<in> set (ds_dps ds).
     fst p \<in> set (map c_dpid (dvals (t_cores t))) \<or> fst p \<in> set (map e_dpid (dvals (t_edges t))))"

text \<open>What a log makes of the tables: exactly the policy's entries at every connected switch.\<close>

definition tables_set :: "(flow_mod list \<Rightarrow> of_msg \<Rightarrow> flow_mod list) \<Rightarrow> dpset \<Rightarrow> rtable \<Rightarrow> (nat \<times> of_msg) list \<Rightarrow> bool" where
  "tables_set upd ds rt log \<longleftrightarrow> (\<forall>p \<in> set (ds_dps ds). \<exists>fs. map_of rt (fst p) = Some fs \<and>
     (\<forall>tbl. foldl upd tbl (sent_to (snd p) log) = map mod_of fs))"

text \<open>What a log holds for every connected switch: the deletion, then the entries of its table.\<close>

definition log_for :: "dpset \<Rightarrow> rtable \<Rightarrow> (nat \<times> of_msg) list \<Rightarrow> bool" where
  "log_for ds rt log \<longleftrightarrow> (\<forall>p \<in> set (ds_dps ds). \<exists>fs fl. map_of rt (fst p) = Some fs \<and> distinct (map f_match fs) \<and>
     clear_flags fl \<and> sent_to (snd p) log = OFPFlowMod (clear_mod fl) # map (\<lambda>f. OFPFlowMod (mod_of f)) fs)"

lemma log_tables:
  assumes "mod_table upd" and "log_for ds rt log"
  shows "tables_set upd ds rt log"
  unfolding tables_set_def
proof
  fix p assume "p \<in> set (ds_dps ds)"
  then obtain fs fl where fs: "map_of rt (fst p) = Some fs" "distinct (map f_match fs)"
    "sent_to (snd p) log = OFPFlowMod (clear_mod fl) # map (\<lambda>f. OFPFlowMod (mod_of f)) fs"
    using assms(2) unfolding log_for_def by blast
  have "foldl upd tbl (sent_to (snd p) log) = map mod_of fs" for tbl
    using replay_adds [OF assms(1), of "[]" fs] assms(1) fs(2) by (simp add: fs(3) mod_table_def)
  with fs(1) show "\<exists>fs. map_of rt (fst p) = Some fs \<and> (\<forall>tbl. foldl upd tbl (sent_to (snd p) log) = map mod_of fs)" by blast
qed

lemma load_messages:
  assumes wf: "wf_topology t" and pt: "policy_tables t active choice rt" and dps: "dpset_inv st ds"
    and sw: "switches_known t ds"
    and clr: "\<And>r. r \<in> set (dvals (ds_dps ds)) \<Longrightarrow> \<exists>fl. clear_flags fl \<and> sent_to r log = [OFPFlowMod (clear_mod fl)]"
  shows "log_for ds rt (log @ concat (map (\<lambda>r. map (\<lambda>f. (r, OFPFlowMod (mod_of f))) (flows_for st rt r)) (dvals (ds_dps ds))))"
  unfolding log_for_def
proof
  let ?add = "concat (map (\<lambda>r. map (\<lambda>f. (r, OFPFlowMod (mod_of f))) (flows_for st rt r)) (dvals (ds_dps ds)))"
  fix p assume p: "p \<in> set (ds_dps ds)"
  have id: "dp_id (st (snd p)) = Some (fst p)" using dps p unfolding dpset_inv_def by blast
  have r: "snd p \<in> set (dvals (ds_dps ds))" using p by simp
  obtain fs where fs: "map_of rt (fst p) = Some fs" "distinct (map f_match fs)"
    using policy_matches [OF wf pt, of "fst p"] sw p unfolding switches_known_def by blast
  obtain fl where fl: "clear_flags fl" "sent_to (snd p) log = [OFPFlowMod (clear_mod fl)]" using clr [OF r] by blast
  have "flows_for st rt (snd p) = fs" by (simp add: flows_for_def id fs(1))
  then have "sent_to (snd p) (log @ ?add) = OFPFlowMod (clear_mod fl) # map (\<lambda>f. OFPFlowMod (mod_of f)) fs"
    using r by (simp add: sent_to_concat [OF dps_distinct_refs [OF dps]] fl(2) del: map_map set_map)
  with fs fl(1) show "\<exists>fs fl. map_of rt (fst p) = Some fs \<and> distinct (map f_match fs) \<and> clear_flags fl \<and>
      sent_to (snd p) (log @ ?add) = OFPFlowMod (clear_mod fl) # map (\<lambda>f. OFPFlowMod (mod_of f)) fs" by blast
qed

lemma load_policy:
  assumes inv: "ctrl_inv t c" and ko: "is_order ko" and dps: "dpset_inv st ds" and sw: "switches_known t ds"
    and pol: "policy \<in> set policy_names" and new: "policy \<noteq> ct_cur c"
  shows "\<exists>c' rt log active choice. rpcLoadPolicy ko t st ds c policy = Inr ((True, ''Policy '' @ policy @ '' loaded''), c') \<and>
    ctrl_inv t c' \<and> ct_cur c' = policy \<and> ct_sent c' = ct_sent c @ log \<and> log_for ds rt log \<and>
    policy_table ko t c policy (ct_adaptive c') rt \<and> policy_tables t active choice rt \<and>
    (\<forall>xmit. openflow xmit \<longrightarrow> all_unicast xmit t rt)"
proof -
  have wf: "wf_topology t" using inv by (simp add: ctrl_inv_def)
  obtain lc where lc: "snd (rpcClear t ds c) = c\<lparr>ct_sent := ct_sent c @ lc\<rparr>"
    "\<And>r. r \<in> set (dvals (ds_dps ds)) \<Longrightarrow> \<exists>fl. clear_flags fl \<and> sent_to r lc = [OFPFlowMod (clear_mod fl)]"
    using rpcClear_sent [of t ds c] dps_distinct_refs [OF dps] by blast
  let ?c0 = "c\<lparr>ct_sent := ct_sent c @ lc\<rparr>"
  obtain a rt active choice where rt: "routing_table ko t ?c0 policy = Inr (?c0\<lparr>ct_adaptive := a\<rparr>, rt)" "adaptive_inv t a"
    "policy_tables t active choice rt"
    "\<forall>g \<in> set (dvals (t_hosts t)). choice g \<in> set (dkeys (t_cores t)) \<and> active (choice g)" "policy_table ko t c policy a rt"
    using routing_table_ok [of t ?c0, OF _ ko pol] inv by (auto simp del: set_map)
  let ?add = "concat (map (\<lambda>r. map (\<lambda>f. (r, OFPFlowMod (mod_of f))) (flows_for st rt r)) (dvals (ds_dps ds)))"
  let ?c1 = "c\<lparr>ct_adaptive := a, ct_cur := policy, ct_sent := ct_sent c @ lc @ ?add\<rparr>"
  have "applyPolicy ko t st ds ?c0 policy = Inr ?c1"
    unfolding applyPolicy_def rt(1) rbind_simps case_prod_conv apply_loop_sent using pol by simp
  then have "rpcLoadPolicy ko t st ds c policy = Inr ((True, ''Policy '' @ policy @ '' loaded''), ?c1)"
    using pol new by (simp add: rpcLoadPolicy_def lc(1))
  moreover have "ctrl_inv t ?c1" by (rule ctrl_inv_update [OF inv rt(2) pol])
  moreover have "log_for ds rt (lc @ ?add)" by (rule load_messages [OF wf rt(3) dps sw lc(2)])
  moreover have "all_unicast xmit t rt" if "openflow xmit" for xmit using all_unicastI [OF wf that rt(3)] rt(4) by blast
  ultimately show ?thesis using rt(3,5)
    by (intro exI [of _ ?c1] exI [of _ rt] exI [of _ "lc @ ?add"] exI [of _ active] exI [of _ choice]) simp
qed

text \<open>On a well-formed topology the controller starts: its three policies are built without an
  exception, the default one is current, and the invariant holds.\<close>

lemma controller_init_ok:
  assumes wf: "wf_topology t" and c0: "t_cores t \<noteq> []" and vc: "vlans_covered t"
    and vl: "\<forall>h \<in> set (dvals (t_hosts t)). set (h_vlans h) \<subseteq> set (dkeys (t_vlans t))"
  shows "\<exists>c. controller_init t = Inr c \<and> ctrl_inv t c \<and> ct_cur c = ''default''"
proof -
  obtain core sw rest where core: "t_cores t = (core, sw) # rest" using c0 by (metis list.exhaust surj_pair)
  obtain d where d: "DefaultPolicy_build t = Inr d" "policy_tables t (\<lambda>k. k = core) (\<lambda>_. core) d"
    using DefaultPolicy_tables [OF wf core] by blast
  obtain s where s: "StaticPolicy_build t = Inr s" "policy_tables t (\<lambda>_. True) (vlan_core t) s"
    using StaticPolicy_tables [OF wf static_choice_ok [OF wf vc]] by blast
  obtain a where a: "AdaptivePolicy_init t = Inr a" "adaptive_inv t a"
    using AdaptivePolicy_init_ok [OF wf core] by blast
  let ?c = "\<lparr>ct_mon = bwmon_init t, ct_default = d, ct_static = s, ct_adaptive = a, ct_cur = ''default'', ct_sent = []\<rparr>"
  have st: "bwstats_inv t (bwstats_init t)" by (rule bwstats_init_inv [OF wf_names(3) [OF wf] vl])
  have "snd p = bw_zero" if "p \<in> set (foldl (\<lambda>d h. dput d h bw_zero) d hs)" "\<forall>p \<in> set d. snd p = bw_zero"
    for p and d :: "(string, bw) dict" and hs
    using that
  proof (induction hs arbitrary: d)
    case (Cons h hs)
    have "\<forall>p \<in> set (dput d h bw_zero). snd p = bw_zero"
      by (rule ballI, erule pair_in_dput) (use Cons.prems(2) in simp_all)
    with Cons show ?case by simp
  qed simp
  then have "\<forall>p \<in> set (hostBw (bwstats_init t)). 0 \<le> bw_in (snd p)"
    by (fastforce simp: bwstats_init_def bw_zero_def)
  moreover have "core \<in> set (dkeys (t_cores t))" by (simp add: core)
  ultimately have "ctrl_inv t ?c"
    unfolding ctrl_inv_def using wf c0 vc st d(2) s(2) a(2)
    by (auto simp: bwmon_init_def policy_names_def simp del: set_map)
  with d s a show ?thesis by (simp add: controller_init_def)
qed

definition table_mod :: "flow_mod list \<Rightarrow> of_msg \<Rightarrow> flow_mod list" where
  "table_mod tbl msg = (case msg of
     OFPFlowMod m \<Rightarrow>
       if fm_command m = OFPFC_DELETE \<and> fm_match m = [] then []
       else if fm_command m = OFPFC_ADD
       then filter (\<lambda>x. \<not> (fm_match x = fm_match m \<and> fm_priority x = fm_priority m)) tbl @ [m]
       else tbl
   | _ \<Rightarrow> tbl)"

lemma table_mod_ok: "mod_table table_mod"
  by (auto simp: mod_table_def table_mod_def clear_mod_def OFPFC_ADD_def OFPFC_DELETE_def filter_id_conv)

definition demo_conns :: "nat \<Rightarrow> datapath" where
  "demo_conns r = demo_dp\<lparr>dp_id := Some (if r = 0 then 1 else if r = 1 then 101 else 2), dp_ports := Some []\<rparr>"

definition demo_ds :: dpset where
  "demo_ds = \<lparr>ds_dps = [(1, 0), (101, 1)], ds_port_state = [(1, []), (101, [])], ds_events = []\<rparr>"

lemma demo_ds_ok: "dpset_inv demo_conns demo_ds" "switches_known demo demo_ds"
  by (simp_all add: dpset_inv_def demo_ds_def demo_conns_def ports_ok_def switches_known_def demo_def demo_cores_def demo_edges_def)

lemma demo_vlan_cover: "\<forall>h \<in> set (dvals (t_hosts demo)). set (h_vlans h) \<subseteq> set (dkeys (t_vlans demo))"
  by (simp add: demo_def demo_hosts_def demo_host_def vlan_members_def add_vlan_member_def)

text \<open>C7: for a controller whose invariant holds and connected switches that are all of its topology, loading another known
  policy succeeds, makes it the current one and keeps the invariant; the messages
  it sends leave in every connected switch, whatever its table was, exactly the entries of the
  requested policy's table for that switch, in order (the controller's default table, its static table, or what the adaptive
  policy's redistribution gives for the bandwidths the monitor has recorded), and under that table every unicast frame
  between two hosts is delivered.\<close>

theorem policy_loaded:
  assumes "ctrl_inv t c" and "is_order ko" and "dpset_inv st ds" and "switches_known t ds"
    and "mod_table upd" and "openflow xmit" and "policy \<in> set policy_names" and "policy \<noteq> ct_cur c"
  shows "\<exists>c' rt log. rpcLoadPolicy ko t st ds c policy = Inr ((True, ''Policy '' @ policy @ '' loaded''), c') \<and>
    ctrl_inv t c' \<and> rpcCurrentPolicy c' = (True, policy) \<and> ct_sent c' = ct_sent c @ log \<and>
    policy_table ko t c policy (ct_adaptive c') rt \<and> tables_set upd ds rt log \<and> all_unicast xmit t rt"
proof -
  obtain c' rt log where l: "rpcLoadPolicy ko t st ds c policy = Inr ((True, ''Policy '' @ policy @ '' loaded''), c')"
    "ctrl_inv t c'" "ct_cur c' = policy" "ct_sent c' = ct_sent c @ log" "log_for ds rt log" "\<forall>xmit. openflow xmit \<longrightarrow> all_unicast xmit t rt"
    "policy_table ko t c policy (ct_adaptive c') rt"
    using load_policy [OF assms(1-4,7,8)] by blast
  have "tables_set upd ds rt log" "all_unicast xmit t rt" using log_tables [OF assms(5) l(5)] l(6) assms(6) by blast+
  with l(1-4,7) show ?thesis by (auto simp: rpcCurrentPolicy_def)
qed

theorem policy_loaded_demo:
  "\<exists>c. controller_init demo = Inr c \<and> (\<exists>c' rt log.
    rpcLoadPolicy rev demo demo_conns demo_ds c ''static'' = Inr ((True, ''Policy '' @ ''static'' @ '' loaded''), c') \<and>
    ctrl_inv demo c' \<and> rpcCurrentPolicy c' = (True, ''static'') \<and> ct_sent c' = ct_sent c @ log \<and>
    policy_table rev demo c ''static'' (ct_adaptive c') rt \<and> tables_set table_mod demo_ds rt log \<and> all_unicast of_first demo rt)"
proof -
  obtain c where c: "controller_init demo = Inr c" "ctrl_inv demo c" "ct_cur c = ''default''"
    using controller_init_ok [OF demo_wf demo_ready(3,1) demo_vlan_cover] by blast
  have "''static'' \<in> set policy_names" "''static'' \<noteq> ct_cur c" by (simp_all add: policy_names_def c(3))
  from policy_loaded [OF c(2) is_order_rev demo_ds_ok table_mod_ok of_first_openflow this] c(1) show ?thesis by blast
qed

text \<open>A request for an unknown policy is refused and a request for the current one is confirmed, in
  either case without touching the controller's state or sending a message.\<close>

theorem policy_unchanged:
  assumes "policy \<notin> set policy_names \<or> policy = ct_cur c"
  shows "\<exists>text. rpcLoadPolicy ko t st ds c policy = Inr ((policy \<in> set policy_names, text), c)"
  using assms by (auto simp: rpcLoadPolicy_def)

theorem policy_unchanged_demo:
  "\<exists>text. rpcLoadPolicy rev demo demo_conns demo_ds
     \<lparr>ct_mon = demo_mon, ct_default = [], ct_static = [], ct_adaptive = demo_adaptive, ct_cur = ''default'', ct_sent = []\<rparr> ''greedy''
   = Inr ((''greedy'' \<in> set policy_names, text),
     \<lparr>ct_mon = demo_mon, ct_default = [], ct_static = [], ct_adaptive = demo_adaptive, ct_cur = ''default'', ct_sent = []\<rparr>)"
  by (rule policy_unchanged) (simp add: policy_names_def)

text \<open>C25: of a controller whose invariant holds, a switch of the topology that connects later receives, on its empty table, exactly the entries of
  the current policy's table for it, in order; the current policy does not change, and under its table every unicast frame
  between two hosts is delivered.\<close>

theorem late_switch:
  assumes "ctrl_inv t c" and "is_order ko" and "mod_table upd" and "openflow xmit"
    and "dp_id (st r) = Some i" and "i \<in> set (map c_dpid (dvals (t_cores t))) \<or> i \<in> set (map e_dpid (dvals (t_edges t)))"
  shows "\<exists>c' rt fs log. switchFeaturesHandler ko t st c r = Inr c' \<and> ctrl_inv t c' \<and> ct_cur c' = ct_cur c \<and>
    ct_sent c' = ct_sent c @ log \<and> policy_table ko t c (ct_cur c) (ct_adaptive c') rt \<and> map_of rt i = Some fs \<and>
    foldl upd [] (sent_to r log) = map mod_of fs \<and> all_unicast xmit t rt"
proof -
  have wf: "wf_topology t" and cur: "ct_cur c \<in> set policy_names" using assms(1) by (simp_all add: ctrl_inv_def)
  obtain a rt active choice where rt: "routing_table ko t c (ct_cur c) = Inr (c\<lparr>ct_adaptive := a\<rparr>, rt)" "adaptive_inv t a"
    "policy_tables t active choice rt"
    "\<forall>g \<in> set (dvals (t_hosts t)). choice g \<in> set (dkeys (t_cores t)) \<and> active (choice g)"
    "policy_table ko t c (ct_cur c) a rt"
    using routing_table_ok [OF assms(1,2) cur] by blast
  obtain fs where fs: "map_of rt i = Some fs" "distinct (map f_match fs)"
    using policy_matches [OF wf rt(3) assms(6)] by blast
  let ?log = "map (\<lambda>f. (r, OFPFlowMod (mod_of f))) fs"
  let ?c1 = "c\<lparr>ct_adaptive := a, ct_cur := ct_cur c, ct_sent := ct_sent c @ ?log\<rparr>"
  have "switchFeaturesHandler ko t st c r = Inr ?c1"
    by (simp add: switchFeaturesHandler_def rt(1) assms(5) fs(1) install_flows_sent)
  moreover have "ctrl_inv t ?c1" by (rule ctrl_inv_update [OF assms(1) rt(2) cur])
  moreover have "foldl upd [] (sent_to r ?log) = map mod_of fs"
    using replay_adds [OF assms(3), of "[]" fs] fs(2) by (simp add: sent_to_same)
  moreover have "all_unicast xmit t rt" using all_unicastI [OF wf assms(4) rt(3)] rt(4) by blast
  ultimately show ?thesis
    using fs(1) rt(5) by (intro exI [of _ ?c1] exI [of _ rt] exI [of _ fs] exI [of _ ?log]) simp
qed

theorem late_switch_demo:
  "\<exists>c. controller_init demo = Inr c \<and> (\<exists>c' rt fs log. switchFeaturesHandler rev demo demo_conns c 2 = Inr c' \<and>
    ctrl_inv demo c' \<and> ct_cur c' = ct_cur c \<and> ct_sent c' = ct_sent c @ log \<and>
    policy_table rev demo c (ct_cur c) (ct_adaptive c') rt \<and> map_of rt 2 = Some fs \<and>
    foldl table_mod [] (sent_to 2 log) = map mod_of fs \<and> all_unicast of_first demo rt)"
proof -
  obtain c where c: "controller_init demo = Inr c" "ctrl_inv demo c"
    using controller_init_ok [OF demo_wf demo_ready(3,1) demo_vlan_cover] by blast
  have "dp_id (demo_conns 2) = Some 2" by (simp add: demo_conns_def)
  moreover have "2 \<in> set (map c_dpid (dvals (t_cores demo))) \<or> 2 \<in> set (map e_dpid (dvals (t_edges demo)))"
    by (simp add: demo_def demo_edges_def)
  ultimately show ?thesis
    using late_switch [OF c(2) is_order_rev table_mod_ok of_first_openflow] c(1) by blast
qed

end
