(* ===== verification/MnUtil.thy ===== *)
theory MnUtil
  imports PyStr
begin

text \<open>
  Mininet's address, naming and argument helpers, \<^verbatim>\<open>ext/mininet/mininet/util.py\<close>: IP and MAC
  addresses as strings and unbounded integers, the natural ordering of names, the parsing of
  constructor strings, and the retry loop. Floating-point numbers are an argument of the functions that
  read them (\<open>fl\<close>, the conversion \<^verbatim>\<open>float(s)\<close>).
\<close>

unbundle bit_operations_syntax

section \<open>Hexadecimal notation\<close>

definition hex_char :: "nat \<Rightarrow> char" where
  "hex_char d = (if d < 10 then char_of (48 + d) else char_of (87 + d))"

fun hex_of_nat :: "nat \<Rightarrow> string" where
  "hex_of_nat n = (if n < 16 then [hex_char n] else hex_of_nat (n div 16) @ [hex_char (n mod 16)])"

declare hex_of_nat.simps [simp del]

text \<open>\<^verbatim>\<open>'%02x' % n\<close> for a non-negative number.\<close>

definition fmt02x :: "int \<Rightarrow> string" where
  "fmt02x n = (let s = hex_of_nat (nat n) in if length s < 2 then CHR ''0'' # s else s)"

definition hex_val :: "char \<Rightarrow> nat option" where
  "hex_val c = (let k = of_char c :: nat in
     if 48 \<le> k \<and> k \<le> 57 then Some (k - 48)
     else if 97 \<le> k \<and> k \<le> 102 then Some (k - 87)
     else if 65 \<le> k \<and> k \<le> 70 then Some (k - 55) else None)"

text \<open>\<^verbatim>\<open>int(s, 16)\<close>: white space around, an optional sign, an optional \<^verbatim>\<open>0x\<close>, digits.\<close>

definition hex_value :: "string \<Rightarrow> int res" where
  "hex_value s = (if s = [] then Inl ValueErr
     else rfold (\<lambda>n c. case hex_val c of None \<Rightarrow> Inl ValueErr | Some d \<Rightarrow> Inr (16 * n + int d)) 0 s)"

definition hex_prefix :: "string \<Rightarrow> string" where
  "hex_prefix s = (if take 2 s = ''0x'' \<or> take 2 s = ''0X'' then drop 2 s else s)"

definition py_int16 :: "string \<Rightarrow> int res" where
  "py_int16 s =
     (case py_strip s of
        [] \<Rightarrow> Inl ValueErr
      | c # ds \<Rightarrow>
          if c = CHR ''-'' then rbind (hex_value (hex_prefix ds)) (\<lambda>n. Inr (- n))
          else if c = CHR ''+'' then hex_value (hex_prefix ds)
          else hex_value (hex_prefix (c # ds)))"

lemma of_hex_char: "d < 16 \<Longrightarrow> (of_char (hex_char d) :: nat) = (if d < 10 then 48 + d else 87 + d)"
  by (simp add: hex_char_def)

lemma hex_val_char [simp]: "d < 16 \<Longrightarrow> hex_val (hex_char d) = Some d"
  by (auto simp: hex_val_def of_hex_char Let_def)

lemma hex_char_no_colon [simp]: "d < 16 \<Longrightarrow> hex_char d \<noteq> CHR '':''"
  using of_hex_char [of d] by (auto split: if_splits)

lemma hex_of_nat_nonempty [simp]: "hex_of_nat n \<noteq> []"
  by (subst hex_of_nat.simps) simp

definition hex_digits :: "string \<Rightarrow> bool" where
  "hex_digits s \<longleftrightarrow> (\<forall>c \<in> set s. \<exists>d < 16. c = hex_char d)"

lemma hex_digits_hex_of_nat [simp]: "hex_digits (hex_of_nat n)"
proof (induction n rule: hex_of_nat.induct)
  case (1 n)
  show ?case
  proof (cases "n < 16")
    case True
    then show ?thesis by (subst hex_of_nat.simps) (auto simp: hex_digits_def)
  next
    case False
    have "\<exists>d<16. hex_char (n mod 16) = hex_char d" by (intro exI [of _ "n mod 16"]) simp
    with 1 False show ?thesis by (subst hex_of_nat.simps) (auto simp: hex_digits_def)
  qed
qed

lemma hex_fold:
  "rfold (\<lambda>n c. case hex_val c of None \<Rightarrow> Inl ValueErr | Some d \<Rightarrow> Inr (16 * n + int d)) 0 (hex_of_nat n)
     = Inr (int n)"
proof (induction n rule: hex_of_nat.induct)
  case (1 n)
  show ?case
  proof (cases "n < 16")
    case True
    then show ?thesis by (subst hex_of_nat.simps) simp
  next
    case False
    have "16 * (n div 16) + n mod 16 = n" by simp
    then have "16 * int (n div 16) + int (n mod 16) = int n" by presburger
    with 1 [OF False] False show ?thesis by (subst hex_of_nat.simps) (simp add: rfold_append)
  qed
qed

lemma hex_value_hex [simp]: "hex_value (hex_of_nat n) = Inr (int n)"
  by (simp add: hex_value_def hex_fold)

lemma hex_value_zeros: "s \<noteq> [] \<Longrightarrow> hex_value (replicate k (CHR ''0'') @ s) = hex_value s"
proof -
  assume "s \<noteq> []"
  have "rfold (\<lambda>n c. case hex_val c of None \<Rightarrow> Inl ValueErr | Some d \<Rightarrow> Inr (16 * n + int d)) 0
      (replicate k (CHR ''0'')) = Inr 0"
    by (induction k) (simp_all add: hex_val_def)
  with \<open>s \<noteq> []\<close> show ?thesis by (simp add: hex_value_def rfold_append)
qed

lemma hex_char_code: "d < 16 \<Longrightarrow> of_char (hex_char d) \<in> ({48..57} \<union> {97..102} :: nat set)"
  using of_hex_char [of d] by auto

lemma hex_char_plain:
  assumes "d < 16"
  shows "\<not> is_space (hex_char d)" "hex_char d \<noteq> CHR ''-''" "hex_char d \<noteq> CHR ''+''"
    "hex_char d \<noteq> CHR ''x''" "hex_char d \<noteq> CHR ''X''"
proof -
  have k: "(of_char (hex_char d) :: nat) \<in> {48..57} \<union> {97..102}" by (rule hex_char_code [OF assms])
  then show "\<not> is_space (hex_char d)" by (auto simp: is_space_def)
  have ne: "hex_char d \<noteq> c" if "(of_char c :: nat) \<notin> {48..57} \<union> {97..102}" for c
    using k that by blast
  show "hex_char d \<noteq> CHR ''-''" "hex_char d \<noteq> CHR ''+''" "hex_char d \<noteq> CHR ''x''" "hex_char d \<noteq> CHR ''X''"
    by (rule ne, simp)+
qed

lemma py_int16_digits: "hex_digits s \<Longrightarrow> s \<noteq> [] \<Longrightarrow> py_int16 s = hex_value s"
proof -
  assume s: "hex_digits s" "s \<noteq> []"
  then have "\<forall>c \<in> set s. \<not> is_space c" using hex_char_plain(1) unfolding hex_digits_def by metis
  then have strip: "py_strip s = s" using s(2) by (rule strip_digits [rotated])
  obtain c ds where cs: "s = c # ds" using s(2) by (cases s) auto
  have "c \<in> set s" by (simp add: cs)
  then obtain d where d: "d < 16" "c = hex_char d" using s(1) unfolding hex_digits_def by blast
  have "c \<noteq> CHR ''-''" "c \<noteq> CHR ''+''" unfolding d(2) by (rule hex_char_plain [OF d(1)])+
  moreover have "hex_prefix s = s"
  proof (cases ds)
    case Nil
    then show ?thesis by (simp add: hex_prefix_def cs)
  next
    case (Cons c' ds')
    have "c' \<in> set s" by (simp add: cs Cons)
    then obtain d' where d': "d' < 16" "c' = hex_char d'" using s(1) unfolding hex_digits_def by blast
    have "c' \<noteq> CHR ''x''" "c' \<noteq> CHR ''X''" unfolding d'(2) by (rule hex_char_plain [OF d'(1)])+
    then show ?thesis by (simp add: hex_prefix_def cs Cons)
  qed
  ultimately show ?thesis using strip by (simp add: py_int16_def cs)
qed

lemma py_int16_hex [simp]: "py_int16 (hex_of_nat n) = Inr (int n)"
  by (simp add: py_int16_digits)

lemma hex_digits_zeros: "hex_digits s \<Longrightarrow> hex_digits (replicate k (CHR ''0'') @ s)"
proof -
  assume s: "hex_digits s"
  have "hex_char 0 = CHR ''0''" by code_simp
  then have "\<exists>d < 16. CHR ''0'' = hex_char d" by (intro exI [of _ 0]) simp
  with s show ?thesis unfolding hex_digits_def by auto
qed

lemma py_int16_zeros: "hex_digits s \<Longrightarrow> s \<noteq> [] \<Longrightarrow> py_int16 (replicate k (CHR ''0'') @ s) = py_int16 s"
  using py_int16_digits [OF hex_digits_zeros, of s k] by (simp add: py_int16_digits hex_value_zeros)

section \<open>IP and MAC addresses\<close>

definition colonHex :: "int \<Rightarrow> nat \<Rightarrow> string" where
  "colonHex val bytecount =
     py_join '':'' (map (\<lambda>i. fmt02x (drop_bit (8 * i) (push_bit (8 * i) 0xff AND val))) (rev [0..<bytecount]))"

definition macColonHex :: "int \<Rightarrow> string" where
  "macColonHex mac = colonHex mac 6"

definition ipStr :: "int \<Rightarrow> string" where
  "ipStr ip = (let w = drop_bit 24 ip AND 0xff; x = drop_bit 16 ip AND 0xff;
                   y = drop_bit 8 ip AND 0xff; z = ip AND 0xff
     in str_of_int w @ ''.'' @ str_of_int x @ ''.'' @ str_of_int y @ ''.'' @ str_of_int z)"

definition ipNum :: "int \<Rightarrow> int \<Rightarrow> int \<Rightarrow> int \<Rightarrow> int" where
  "ipNum w x y z = push_bit 24 w OR push_bit 16 x OR push_bit 8 y OR z"

text \<open>A negative shift count raises \<^verbatim>\<open>ValueError\<close>.\<close>

definition ipAdd :: "int \<Rightarrow> int \<Rightarrow> int \<Rightarrow> string res" where
  "ipAdd i prefixLen ipBaseNum =
     (if prefixLen < 0 then Inl ValueErr
      else let imax = drop_bit (nat prefixLen) 0xffffffff in
        if i \<le> imax
        then Inr (ipStr ((ipBaseNum AND (0xffffffff XOR imax)) + i))
        else Inl AssertErr)"

text \<open>\<^verbatim>\<open>ipNum( *args )\<close> with more than four arguments is a \<^verbatim>\<open>TypeError\<close>; fewer are filled with zeros.\<close>

definition ipParse :: "string \<Rightarrow> int res" where
  "ipParse ip =
     rbind (rmap py_int (split_on (CHR ''.'') ip)) (\<lambda>args.
       case args @ replicate (4 - length args) 0 of
         [w, x, y, z] \<Rightarrow> Inr (ipNum w x y z)
       | _ \<Rightarrow> Inl TypeErr)"

definition netParse :: "string \<Rightarrow> (int \<times> int) res" where
  "netParse ipstr =
     (if CHR ''/'' \<in> set ipstr
      then (case split_on (CHR ''/'') ipstr of
              [ip, pf] \<Rightarrow> rbind (py_int pf) (\<lambda>prefixLen. rbind (ipParse ip) (\<lambda>n. Inr (n, prefixLen)))
            | _ \<Rightarrow> Inl ValueErr)
      else rbind (ipParse ipstr) (\<lambda>n. Inr (n, 24)))"

text \<open>\<^verbatim>\<open>Mininet.randMac\<close>, given the number that \<^verbatim>\<open>random.randint\<close> drew.\<close>

definition randMac :: "int \<Rightarrow> string" where
  "randMac r = macColonHex (r AND 0xfeffffffffff OR 0x020000000000)"

lemma str_of_nat_no_dot: "CHR ''.'' \<notin> set (str_of_nat n)"
  by (rule str_of_nat_not_in) (simp add: is_digit_def)

lemma byte_mask: "(x::int) AND 0xff = take_bit 8 x"
  by (simp add: take_bit_eq_mask mask_eq_exp_minus_1)

lemma ipStr_parse: "ipParse (ipStr ip) = Inr (take_bit 32 ip)"
proof -
  let ?b = "\<lambda>k. take_bit 8 (drop_bit k ip)"
  have s: "str_of_int (take_bit 8 x) = str_of_nat (nat (take_bit 8 x))" for x
    by (simp add: str_of_int_def not_less)
  have "ipStr ip = py_join ''.'' (map (\<lambda>k. str_of_nat (nat (?b k))) [24, 16, 8, 0])"
    by (simp add: ipStr_def Let_def byte_mask s)
  then have "split_on (CHR ''.'') (ipStr ip) = map (\<lambda>k. str_of_nat (nat (?b k))) [24, 16, 8, 0]"
    using str_of_nat_no_dot by (simp del: py_join.simps)
  then have "ipParse (ipStr ip) = Inr (ipNum (?b 24) (?b 16) (?b 8) (?b 0))"
    by (simp add: ipParse_def)
  also have "ipNum (?b 24) (?b 16) (?b 8) (?b 0) = take_bit 32 ip"
  proof (rule bit_eqI)
    fix n :: nat
    consider "n < 8" | "8 \<le> n \<and> n < 16" | "16 \<le> n \<and> n < 24" | "24 \<le> n" by linarith
    then show "bit (ipNum (?b 24) (?b 16) (?b 8) (?b 0)) n \<longleftrightarrow> bit (take_bit 32 ip) n"
      by cases (auto simp: ipNum_def bit_simps)
  qed
  finally show ?thesis .
qed

section \<open>Names, ranges and arguments\<close>

definition natural_num :: "string \<Rightarrow> pyatom" where
  "natural_num s = (if py_isdigit s then PInt (int (nat_of_str s)) else PStr s)"

definition natural :: "string \<Rightarrow> pyatom list" where
  "natural t = map natural_num (re_split_digits t)"

definition naturalSeq :: "string list \<Rightarrow> pyatom list list" where
  "naturalSeq t = map natural t"

definition py_range :: "int \<Rightarrow> int \<Rightarrow> int list" where
  "py_range a b = [a..b - 1]"

definition irange :: "int \<Rightarrow> int \<Rightarrow> int list" where
  "irange start end' = py_range start (end' + 1)"

text \<open>\<^verbatim>\<open>re.findall(r'\d+', s)\<close>: every second piece of the split.\<close>

fun every_second :: "'a list \<Rightarrow> 'a list" where
  "every_second (_ # y # zs) = y # every_second zs"
| "every_second _ = []"

definition find_digits :: "string \<Rightarrow> string list" where
  "find_digits s = every_second (re_split_digits s)"

datatype 'f numeric = NInt int | NFloat 'f | NText string

definition checkInt :: "string \<Rightarrow> bool" where
  "checkInt s = (case py_int s of Inr _ \<Rightarrow> True | Inl _ \<Rightarrow> False)"

definition checkFloat :: "(string \<Rightarrow> 'f res) \<Rightarrow> string \<Rightarrow> bool" where
  "checkFloat fl s = (case fl s of Inr _ \<Rightarrow> True | Inl _ \<Rightarrow> False)"

definition makeNumeric :: "(string \<Rightarrow> 'f res) \<Rightarrow> string \<Rightarrow> 'f numeric res" where
  "makeNumeric fl s =
     (if checkInt s then rbind (py_int s) (\<lambda>i. Inr (NInt i))
      else if checkFloat fl s then rbind (fl s) (\<lambda>x. Inr (NFloat x))
      else Inr (NText s))"

text \<open>\<^verbatim>\<open>s.split('=', 1)\<close> of a string that contains the separator.\<close>

definition split_first :: "char \<Rightarrow> string \<Rightarrow> string \<times> string" where
  "split_first c s = (takeWhile (\<lambda>x. x \<noteq> c) s, tl (dropWhile (\<lambda>x. x \<noteq> c) s))"

definition splitArgs :: "(string \<Rightarrow> 'f res) \<Rightarrow> string
    \<Rightarrow> (string \<times> 'f numeric list \<times> (string, 'f numeric) dict) res" where
  "splitArgs fl argstr =
     (let split = split_on (CHR '','') argstr; params = tl split in
      rbind (rmap (makeNumeric fl) (filter (\<lambda>s. CHR ''='' \<notin> set s) params)) (\<lambda>args.
      rbind (rfold (\<lambda>kwargs s. case split_first (CHR ''='') s of (key, val) \<Rightarrow>
               rbind (makeNumeric fl val) (\<lambda>v. Inr (dput kwargs key v)))
             [] (filter (\<lambda>p. CHR ''='' \<in> set p) params)) (\<lambda>kwargs.
      Inr (hd split, args, kwargs))))"

text \<open>A constructor is a function of its positional and its keyword arguments.\<close>

type_synonym ('f, 'r) ctor = "'f numeric list \<Rightarrow> (string, 'f numeric) dict \<Rightarrow> 'r res"

definition buildTopo :: "(string \<Rightarrow> 'f res) \<Rightarrow> (string, ('f, 'r) ctor) dict \<Rightarrow> string \<Rightarrow> 'r res" where
  "buildTopo fl topos topoStr =
     rbind (splitArgs fl topoStr) (\<lambda>(topo, args, kwargs).
       if topo \<notin> set (dkeys topos) then Inl (OtherErr (''Invalid topo name '' @ topo))
       else rbind (dget topos topo) (\<lambda>make. make args kwargs))"

text \<open>
  \<^verbatim>\<open>customConstructor\<close>: the keyword arguments of the string override the caller's, its positional
  arguments, when there are any, replace the caller's. The first argument of the result is the name.
\<close>

definition customConstructor :: "(string \<Rightarrow> 'f res) \<Rightarrow> (string, string \<Rightarrow> ('f, 'r) ctor) dict \<Rightarrow> string
    \<Rightarrow> (string \<Rightarrow> ('f, 'r) ctor) res" where
  "customConstructor fl constructors argStr =
     rbind (splitArgs fl argStr) (\<lambda>(cname, newargs, kwargs).
       case map_of constructors cname of
         None \<Rightarrow> Inl (OtherErr (''error: '' @ cname @ '' is unknown''))
       | Some make \<Rightarrow> Inr (\<lambda>name args params.
           let params = foldl (\<lambda>d (k, v). dput d k v) params kwargs in
           if newargs = [] then make name args params else make name newargs params))"

section \<open>Retrying\<close>

text \<open>
  \<^verbatim>\<open>retry\<close>: \<open>fn k\<close> is the outcome of the call number \<open>k\<close>. The loop returns the value of
  \<^verbatim>\<open>tries\<close> at its end; \<^verbatim>\<open>exit(1)\<close> is the exception \<^verbatim>\<open>SystemExit\<close>.
\<close>

function retry_loop :: "(nat \<Rightarrow> bool) \<Rightarrow> int \<Rightarrow> nat \<Rightarrow> nat" where
  "retry_loop fn retries tries =
     (if \<not> fn tries \<and> int tries < retries then retry_loop fn retries (tries + 1) else tries)"
  by pat_completeness auto
termination by (relation "measure (\<lambda>(_, retries, tries). nat (retries - int tries))") auto

declare retry_loop.simps [simp del]

definition retry :: "int \<Rightarrow> (nat \<Rightarrow> bool) \<Rightarrow> nat res" where
  "retry retries fn =
     (let tries = retry_loop fn retries 0 in
      if int tries \<ge> retries then Inl (OtherErr ''SystemExit'') else Inr tries)"

lemma retry_loop_spec:
  "\<forall>k < tries. \<not> fn k \<Longrightarrow> let r = retry_loop fn retries tries in
     tries \<le> r \<and> (\<forall>k < r. \<not> fn k) \<and> (int r < retries \<longrightarrow> fn r)"
proof (induction fn retries tries rule: retry_loop.induct)
  case (1 fn retries tries)
  show ?case
  proof (cases "\<not> fn tries \<and> int tries < retries")
    case True
    then have "\<forall>k < tries + 1. \<not> fn k" using 1(2) by (simp add: less_Suc_eq)
    moreover have "retry_loop fn retries tries = retry_loop fn retries (tries + 1)"
      using True by (simp only: retry_loop.simps [of fn retries tries] if_True not_True_eq_False simp_thms)
    ultimately show ?thesis using 1(1) [OF True] unfolding Let_def by (metis add_leD1)
  next
    case False
    then have "retry_loop fn retries tries = tries" by (simp only: retry_loop.simps [of fn retries tries] if_False)
    with False 1(2) show ?thesis unfolding Let_def by auto
  qed
qed

text \<open>Retrying returns the number of the first successful call when it is below the number of retries, and
  exits otherwise: a success of the last call that the loop makes is reported as a failure.\<close>

theorem retry_outcome:
  "retry retries fn =
     (if \<exists>k. int k < retries \<and> fn k then Inr (LEAST k. fn k) else Inl (OtherErr ''SystemExit''))"
proof -
  let ?r = "retry_loop fn retries 0"
  have r: "\<forall>k < ?r. \<not> fn k" "int ?r < retries \<longrightarrow> fn ?r"
    using retry_loop_spec [of 0 fn retries] unfolding Let_def by blast+
  show ?thesis
  proof (cases "int ?r < retries")
    case True
    with r have "fn ?r" by blast
    with r(1) have least: "(LEAST k. fn k) = ?r" by (intro Least_equality) (use linorder_not_less in blast)+
    have "retry retries fn = Inr ?r" using True by (simp add: retry_def Let_def)
    moreover have "\<exists>k. int k < retries \<and> fn k" using True \<open>fn ?r\<close> by blast
    ultimately show ?thesis by (simp only: least if_True)
  next
    case False
    have "retry retries fn = Inl (OtherErr ''SystemExit'')" using False by (simp add: retry_def Let_def)
    moreover have "\<not> (\<exists>k. int k < retries \<and> fn k)"
    proof
      assume "\<exists>k. int k < retries \<and> fn k"
      then obtain k where "int k < retries" "fn k" by blast
      with False r(1) show False by (meson linorder_not_less of_nat_less_iff order_less_le_trans)
    qed
    ultimately show ?thesis by (simp only: if_False)
  qed
qed

section \<open>Round trip and subnet\<close>

text \<open>Parsing inverts formatting: every 32-bit address is read back from its dotted form.\<close>

theorem ip_roundtrip:
  assumes "0 \<le> ip" and "ip < 2 ^ 32"
  shows "ipParse (ipStr ip) = Inr ip"
  using assms ipStr_parse [of ip] by (simp add: take_bit_int_eq_self)

theorem ip_roundtrip_demo: "ipParse (ipStr 0x0a000003) = Inr 0x0a000003"
  by (rule ip_roundtrip) simp_all


text \<open>The addresses that Mininet hands out are inside the subnet of the base address: the network
  part is the base's, the host part is the number asked for; a number that does not fit is an error.\<close>

theorem ip_in_subnet:
  assumes "0 \<le> i" and "0 \<le> prefixLen" and "prefixLen \<le> 32" and "0 \<le> base" and "base < 2 ^ 32"
  shows "if i < 2 ^ nat (32 - prefixLen)
     then \<exists>s. ipAdd i prefixLen base = Inr s \<and> ipParse s = Inr (push_bit (nat (32 - prefixLen)) (drop_bit (nat (32 - prefixLen)) base) + i)
     else ipAdd i prefixLen base = Inl AssertErr"
proof -
  let ?k = "nat (32 - prefixLen)"
  have k: "nat prefixLen = 32 - ?k" "?k \<le> 32" using assms by auto
  have imax: "drop_bit (nat prefixLen) 0xffffffff = (mask ?k :: int)"
  proof -
    have "(0xffffffff :: int) = mask 32" by (simp add: mask_eq_exp_minus_1)
    then have "drop_bit (nat prefixLen) 0xffffffff = drop_bit (nat prefixLen) (mask 32 :: int)" by simp
    also have "\<dots> = mask ?k" by (rule bit_eqI) (use k in \<open>auto simp: bit_simps\<close>)
    finally show ?thesis .
  qed
  have m: "(mask ?k :: int) = 2 ^ ?k - 1" by (simp add: mask_eq_exp_minus_1)
  show ?thesis
  proof (cases "i < 2 ^ ?k")
    case True
    have t: "take_bit ?k i = i" using assms(1) True by (simp add: take_bit_int_eq_self)
    then have bi: "bit i n \<Longrightarrow> n < ?k" for n by (metis bit_take_bit_iff)
    have bb: "bit base n \<Longrightarrow> n < 32" for n
      using assms(4,5) by (metis bit_take_bit_iff take_bit_int_eq_self)
    have ones: "(0xffffffff :: int) = mask 32" by (simp add: mask_eq_exp_minus_1)
    let ?net = "base AND (0xffffffff XOR mask ?k)"
    have net: "?net = push_bit ?k (drop_bit ?k base)"
    proof (rule bit_eqI)
      fix n
      show "bit ?net n \<longleftrightarrow> bit (push_bit ?k (drop_bit ?k base)) n"
        unfolding ones by (auto simp: bit_simps dest: bb)
    qed
    have "?net + i = ?net OR i"
    proof (rule disjunctive_add_eq_or)
      show "?net AND i = 0"
        by (rule bit_eqI) (auto simp: net bit_simps dest: bi)
    qed
    moreover have "take_bit 32 (?net OR i) = ?net OR i"
      by (rule bit_eqI) (use k(2) in \<open>auto simp: net bit_simps dest: bi bb\<close>)
    ultimately have "ipParse (ipStr (?net + i)) = Inr (push_bit ?k (drop_bit ?k base) + i)"
      using ipStr_parse [of "?net + i"] by (simp add: net)
    moreover have "ipAdd i prefixLen base = Inr (ipStr (?net + i))"
      using True assms(2) unfolding ipAdd_def Let_def imax by (simp add: m)
    ultimately show ?thesis using True by (simp only: if_True) blast
  next
    case False
    then show ?thesis using assms(2) by (simp add: ipAdd_def imax Let_def m)
  qed
qed

theorem ip_in_subnet_demo:
  "\<exists>s. ipAdd 3 8 0x0a000000 = Inr s \<and> ipParse s = Inr (push_bit (nat (32 - 8)) (drop_bit (nat (32 - 8)) 0x0a000000) + 3)"
proof -
  have "(3::int) < 2 ^ nat (32 - 8)" and "(0x0a000000 :: int) < 2 ^ 32" by simp_all
  then show ?thesis using ip_in_subnet [of 3 8 "0x0a000000", simplified if_P] by simp_all
qed

section \<open>MAC addresses\<close>

lemma hex_of_nat_byte: "n < 256 \<Longrightarrow> length (hex_of_nat n) = (if n < 16 then 1 else 2)"
  by (subst hex_of_nat.simps) (auto, subst hex_of_nat.simps, simp)

lemma fmt02x_byte: "0 \<le> n \<Longrightarrow> n < 256 \<Longrightarrow> py_int16 (fmt02x n) = Inr n \<and> length (fmt02x n) = 2"
proof -
  assume n: "0 \<le> n" "n < 256"
  have "py_int16 (CHR ''0'' # hex_of_nat m) = py_int16 (hex_of_nat m)" for m
    using py_int16_zeros [of "hex_of_nat m" 1] by simp
  then show ?thesis using n hex_of_nat_byte [of "nat n"] by (auto simp: fmt02x_def Let_def)
qed

lemma hex_digits_fmt02x: "hex_digits (fmt02x n)"
proof -
  have "hex_digits (CHR ''0'' # hex_of_nat (nat n))"
    using hex_digits_zeros [of "hex_of_nat (nat n)" 1] by simp
  then show ?thesis by (simp add: fmt02x_def Let_def)
qed

definition mac_byte :: "int \<Rightarrow> nat \<Rightarrow> int" where
  "mac_byte v i = take_bit 8 (drop_bit (8 * i) v)"

lemma colonHex_eq: "colonHex v n = py_join '':'' (map (\<lambda>i. fmt02x (mac_byte v i)) (rev [0..<n]))"
proof -
  have "drop_bit k (push_bit k 0xff AND v) = take_bit 8 (drop_bit k v)" for k
  proof -
    have "(0xff :: int) = mask 8" by (simp add: mask_eq_exp_minus_1)
    show ?thesis unfolding \<open>(0xff :: int) = mask 8\<close> by (rule bit_eqI) (auto simp: bit_simps)
  qed
  then show ?thesis by (simp add: colonHex_def mac_byte_def)
qed

lemma mac_byte_range: "0 \<le> mac_byte v i \<and> mac_byte v i < 256"
  using take_bit_int_less_exp [of 8 "drop_bit (8 * i) v"] by (simp add: mac_byte_def)

lemma colonHex_parse:
  assumes "0 < n"
  shows "rmap py_int16 (split_on (CHR '':'') (colonHex v n)) = Inr (map (mac_byte v) (rev [0..<n]))"
proof -
  let ?xs = "map (\<lambda>i. fmt02x (mac_byte v i)) (rev [0..<n])"
  have "\<forall>x \<in> set ?xs. CHR '':'' \<notin> set x"
  proof
    fix x assume "x \<in> set ?xs"
    then obtain i where "x = fmt02x (mac_byte v i)" by auto
    then have "hex_digits x" by (simp add: hex_digits_fmt02x)
    then show "CHR '':'' \<notin> set x" by (metis hex_char_no_colon hex_digits_def)
  qed
  then have "split_on (CHR '':'') (colonHex v n) = ?xs"
    unfolding colonHex_eq using assms by (intro split_on_join) auto
  moreover have "rmap py_int16 ?xs = Inr (map (mac_byte v) (rev [0..<n]))"
    unfolding rmap_map using fmt02x_byte mac_byte_range by (intro rmap_Inr) blast
  ultimately show ?thesis by simp
qed

lemma randMac_bytes:
  "rmap py_int16 (split_on (CHR '':'') (randMac r)) =
     Inr (map (mac_byte (r AND 0xfeffffffffff OR 0x020000000000)) [5, 4, 3, 2, 1, 0])"
proof -
  have "rev [0..<6] = [5, 4, 3, 2, 1, 0 :: nat]" by code_simp
  then show ?thesis using colonHex_parse [of 6] by (simp add: randMac_def macColonHex_def)
qed

lemma randMac_spec:
  "\<exists>b. rmap py_int16 (split_on (CHR '':'') (randMac r)) = Inr (b # map (mac_byte r) [4, 3, 2, 1, 0]) \<and>
     even b \<and> bit b 1 \<and> 0 \<le> b \<and> b < 256 \<and> randMac r \<noteq> ''ff:ff:ff:ff:ff:ff''"
proof -
  let ?v = "r AND 0xfeffffffffff OR 0x020000000000"
  have c1: "bit (0xfeffffffffff :: int) n \<longleftrightarrow> n < 48 \<and> n \<noteq> 40" for n
  proof -
    have "(0xfeffffffffff :: int) = mask 48 XOR 2 ^ 40" by (simp add: mask_eq_exp_minus_1)
    then show ?thesis by (simp only: bit_xor_iff bit_mask_iff bit_exp_iff) auto
  qed
  have c2: "bit (0x020000000000 :: int) n \<longleftrightarrow> n = 41" for n
  proof -
    have "(0x020000000000 :: int) = 2 ^ 41" by simp
    then show ?thesis by (simp only: bit_exp_iff) auto
  qed
  have byte: "bit (mac_byte x i) n \<longleftrightarrow> n < 8 \<and> bit x (8 * i + n)" for x i n
    by (simp add: mac_byte_def bit_simps)
  have low: "mac_byte ?v i = mac_byte r i" if "i < 5" for i
    by (rule bit_eqI) (use that in \<open>auto simp: byte bit_or_iff bit_and_iff c1 c2\<close>)
  have b0: "\<not> bit (mac_byte ?v 5) 0" and b1: "bit (mac_byte ?v 5) 1"
    by (simp_all add: byte bit_or_iff bit_and_iff c1 c2)
  have bytes: "rmap py_int16 (split_on (CHR '':'') (randMac r)) = Inr (mac_byte ?v 5 # map (mac_byte r) [4, 3, 2, 1, 0])"
    using randMac_bytes [of r] by (simp add: low)
  have ff: "rmap py_int16 (split_on (CHR '':'') ''ff:ff:ff:ff:ff:ff'') = Inr (replicate 6 255)" by code_simp
  have "randMac r \<noteq> ''ff:ff:ff:ff:ff:ff''"
  proof
    assume "randMac r = ''ff:ff:ff:ff:ff:ff''"
    with bytes ff have "mac_byte ?v 5 = 255" by (simp add: numeral_eq_Suc)
    with b0 show False by simp
  qed
  with bytes b0 b1 mac_byte_range [of ?v 5] show ?thesis
    by (intro exI [of _ "mac_byte ?v 5"]) (simp add: bit_0)
qed

lemma randMac_unicast: "randMac r \<noteq> ''ff:ff:ff:ff:ff:ff''"
  using randMac_spec [of r] by blast

text \<open>A random MAC address of Mininet is six bytes in colon notation, the lower five those of the number
  that was drawn; the first is that of a locally administered unicast address, so it is never the
  broadcast address.\<close>

theorem random_mac:
  "\<exists>b. rmap py_int16 (split_on (CHR '':'') (randMac r)) = Inr (b # map (mac_byte r) [4, 3, 2, 1, 0]) \<and>
     even b \<and> bit b 1 \<and> 0 \<le> b \<and> b < 256 \<and> randMac r \<noteq> ''ff:ff:ff:ff:ff:ff''"
  by (rule randMac_spec)

lemma mac_chars: "c \<in> set (randMac r) \<Longrightarrow> c = CHR '':'' \<or> (\<exists>d < 16. c = hex_char d)"
proof -
  assume c: "c \<in> set (randMac r)"
  let ?xs = "map (\<lambda>i. fmt02x (mac_byte (r AND 0xfeffffffffff OR 0x020000000000) i)) (rev [0..<6])"
  have "set (randMac r) \<subseteq> set '':'' \<union> \<Union> (set ` set ?xs)"
    unfolding randMac_def macColonHex_def colonHex_eq by (rule set_py_join)
  then have "c \<in> set '':'' \<union> \<Union> (set ` set ?xs)" using c by blast
  then show ?thesis using hex_digits_fmt02x by (auto simp: hex_digits_def)
qed

end
