(* ===== verification/Tenants.thy ===== *)
theory Tenants
  imports MnUtil
begin

text \<open>
  The tenants of the datacenter: the placement of their nodes on the hosts (\<^verbatim>\<open>minidc/placement.py\<close>), the
  applications that run on a host (\<^verbatim>\<open>minidc/roles.py\<close>) and the profiles that create them
  (\<^verbatim>\<open>minidc/profiles.py\<close>). Commands and URLs are the strings of the code; the processes
  themselves are not modelled. A bandwidth is the string that \<^verbatim>\<open>format\<close> prints for it.
\<close>

section \<open>Placement\<close>

definition inorderPlacement :: "nat \<Rightarrow> nat list" where
  "inorderPlacement numHosts =
     (let r = [0..<numHosts] in
      foldl (\<lambda>l i. l @ [r ! i] @ [r ! (i + length r div 2)]) [] [0..<length r div 2])"

definition parityPlacement :: "nat \<Rightarrow> nat list" where
  "parityPlacement numHosts =
     (let r = [0..<numHosts] in filter (\<lambda>h. h mod 2 = 1) r @ filter (\<lambda>h. h mod 2 = 0) r)"

definition seqPlacement :: "nat \<Rightarrow> nat list" where
  "seqPlacement numHosts = [0..<numHosts]"

text \<open>The module never imports \<^verbatim>\<open>random\<close>.\<close>

definition randPlacement :: "nat \<Rightarrow> nat list res" where
  "randPlacement numHosts = Inl NameErr"

definition PLACEMENT_TYPES :: "(string, nat \<Rightarrow> nat list res) dict" where
  "PLACEMENT_TYPES = [(''sequential'', \<lambda>n. Inr (seqPlacement n)), (''random'', randPlacement),
     (''parity'', \<lambda>n. Inr (parityPlacement n)), (''inorder'', \<lambda>n. Inr (inorderPlacement n))]"

definition getPlacement :: "string \<Rightarrow> nat \<Rightarrow> nat list res" where
  "getPlacement placement numHosts = rbind (dget PLACEMENT_TYPES placement) (\<lambda>f. f numHosts)"

lemma inorder_mset:
  "mset (foldl (\<lambda>l i. l @ [r ! i] @ [r ! (i + k)]) acc is) = mset acc + mset (map (\<lambda>i. r ! i) is) + mset (map (\<lambda>i. r ! (i + k)) is)"
  by (induction "is" arbitrary: acc) (simp_all add: ac_simps)

lemma inorder_eq: "mset (inorderPlacement n) = mset [0..<2 * (n div 2)]"
proof -
  let ?k = "n div 2"
  have "map (\<lambda>i. [0..<n] ! i) [0..<?k] = [0..<?k]" by (rule nth_equalityI) auto
  moreover have "map (\<lambda>i. [0..<n] ! (i + ?k)) [0..<?k] = [?k..<2 * ?k]" by (rule nth_equalityI) auto
  moreover have "[0..<2 * ?k] = [0..<?k] @ [?k..<2 * ?k]"
    using upt_add_eq_append [of 0 ?k ?k] by (simp add: mult_2)
  ultimately show ?thesis
    by (simp only: inorderPlacement_def Let_def length_upt minus_nat.diff_0 inorder_mset mset_append mset.simps(1) add_0)
qed

text \<open>The sequential and the parity placements use every host exactly once; the in-order one does so for
  an even number of hosts and leaves out the last host otherwise; the random one raises \<^verbatim>\<open>NameError\<close>.\<close>

theorem placements:
  "mset (seqPlacement n) = mset [0..<n] \<and> mset (parityPlacement n) = mset [0..<n] \<and>
   mset (inorderPlacement n) = mset (if even n then [0..<n] else [0..<n - 1]) \<and>
   getPlacement ''random'' n = Inl NameErr"
proof -
  have "mset (parityPlacement n)
      = filter_mset (\<lambda>h. h mod 2 = 1) (mset [0..<n]) + filter_mset (\<lambda>h. \<not> h mod 2 = 1) (mset [0..<n])"
    by (simp only: parityPlacement_def Let_def mset_append mset_filter not_mod_2_eq_1_eq_0)
  then have "mset (parityPlacement n) = mset [0..<n]" by (simp only: multiset_partition [symmetric])
  moreover have "2 * (n div 2) = (if even n then n else n - 1)" by (auto elim!: oddE)
  ultimately show ?thesis
    by (simp add: seqPlacement_def inorder_eq getPlacement_def PLACEMENT_TYPES_def randPlacement_def dget_def)
qed

section \<open>Roles\<close>

text \<open>A Mininet host, as far as the roles use it.\<close>

record vhost =
  vh_name :: string
  vh_ip :: string

datatype role_data =
    EmptyRole string
  | ChromeClient string
  | MemcacheServer
  | WgetClient int bool bool
  | PhpServer string int string
  | PhpServerMemcacheClient string int string "string list" "string option"
  | RepGetClient "string list" int int bool

record role =
  rl_host :: vhost
  rl_procStr :: "string option"
  rl_stdout :: string
  rl_stderr :: string
  rl_data :: role_data

fun class_name :: "role_data \<Rightarrow> string" where
  "class_name (EmptyRole _) = ''EmptyRole''"
| "class_name (ChromeClient _) = ''ChromeClient''"
| "class_name MemcacheServer = ''MemcacheServer''"
| "class_name (WgetClient _ _ _) = ''WgetClient''"
| "class_name (PhpServer _ _ _) = ''PhpServer''"
| "class_name (PhpServerMemcacheClient _ _ _ _ _) = ''PhpServerMemcacheClient''"
| "class_name (RepGetClient _ _ _ _) = ''RepGetClient''"

fun role_str :: "role_data \<Rightarrow> string" where
  "role_str (EmptyRole name) = name"
| "role_str (ChromeClient _) = ''Chrome Client''"
| "role_str MemcacheServer = ''Memcached Server''"
| "role_str (WgetClient _ _ _) = ''Wget Client''"
| "role_str (PhpServer _ _ _) = ''PHP Server''"
| "role_str (PhpServerMemcacheClient _ _ _ _ _) = ''PHP Server (Memcached Client)''"
| "role_str (RepGetClient _ _ _ _) = ''Replicated Memcached Client''"

definition HostRole_init :: "vhost \<Rightarrow> role_data \<Rightarrow> role" where
  "HostRole_init hst d = \<lparr>rl_host = hst, rl_procStr = None,
     rl_stdout = ''/tmp/'' @ vh_ip hst @ ''-'' @ class_name d @ ''.log'',
     rl_stderr = ''/tmp/'' @ vh_ip hst @ ''-'' @ class_name d @ ''.err'', rl_data = d\<rparr>"

definition EmptyRole_init :: "vhost \<Rightarrow> string \<Rightarrow> role" where
  "EmptyRole_init hst name = HostRole_init hst (EmptyRole name)"

text \<open>\<^verbatim>\<open>os.path.join(d, s)\<close> for a relative second component.\<close>

definition path_join :: "string \<Rightarrow> string \<Rightarrow> string" where
  "path_join d s = (if d = [] \<or> last d = CHR ''/'' then d @ s else d @ ''/'' @ s)"

definition ChromeClient_init :: "vhost \<Rightarrow> string \<Rightarrow> string \<Rightarrow> role" where
  "ChromeClient_init hst url datadir =
     (let dir = path_join datadir (vh_name hst @ ''-datadir'') in
      (HostRole_init hst (ChromeClient dir))\<lparr>rl_procStr := Some
        (''/opt/google/chrome/google-chrome --enable-logging --v=1 --user-data-dir='' @ dir @ '' '' @ url)\<rparr>)"

definition MemcacheServer_init :: "vhost \<Rightarrow> role" where
  "MemcacheServer_init hst = (HostRole_init hst MemcacheServer)\<lparr>rl_procStr := Some ''memcached -u nobody''\<rparr>"

definition WgetClient_init :: "vhost \<Rightarrow> string \<Rightarrow> int \<Rightarrow> bool \<Rightarrow> role" where
  "WgetClient_init hst url trials toFile =
     (HostRole_init hst (WgetClient trials True toFile))\<lparr>rl_procStr := Some (''wget -q -O - '' @ url)\<rparr>"

definition php_procStr :: "vhost \<Rightarrow> int \<Rightarrow> string \<Rightarrow> string" where
  "php_procStr hst port wwwdir =
     ''sudo php -S '' @ vh_ip hst @ '':'' @ str_of_int port @ '' -t '' @ wwwdir"

definition PhpServer_init :: "vhost \<Rightarrow> string \<Rightarrow> int \<Rightarrow> string \<Rightarrow> role" where
  "PhpServer_init hst wwwdir port page =
     (HostRole_init hst (PhpServer wwwdir port page))\<lparr>rl_procStr := Some (php_procStr hst port wwwdir)\<rparr>"

definition PhpServerMemcacheClient_init :: "vhost \<Rightarrow> string \<Rightarrow> string list \<Rightarrow> int \<Rightarrow> string option \<Rightarrow> string \<Rightarrow> role" where
  "PhpServerMemcacheClient_init hst wwwdir mcSrvList port template outFile =
     (HostRole_init hst (PhpServerMemcacheClient wwwdir port outFile mcSrvList template))
        \<lparr>rl_procStr := Some (php_procStr hst port wwwdir)\<rparr>"

definition php_url :: "vhost \<Rightarrow> int \<Rightarrow> string" where
  "php_url hst port = ''http://'' @ vh_ip hst @ '':'' @ str_of_int port"

definition php_docUrl :: "vhost \<Rightarrow> int \<Rightarrow> string \<Rightarrow> string" where
  "php_docUrl hst port page = ''http://'' @ vh_ip hst @ '':'' @ str_of_int port @ ''/'' @ page"

text \<open>\<^verbatim>\<open>re.sub("addServer\(.*\)", "addServers(" + srvs + ")", l)\<close> on one line: from the first occurrence of
  the call to the last closing bracket after it.\<close>

fun find_sub :: "string \<Rightarrow> string \<Rightarrow> (string \<times> string) option" where
  "find_sub p [] = (if p = [] then Some ([], []) else None)"
| "find_sub p (c # s) = (if take (length p) (c # s) = p then Some ([], drop (length p) (c # s))
     else map_option (\<lambda>(u, v). (c # u, v)) (find_sub p s))"

definition sub_addServer :: "string \<Rightarrow> string \<Rightarrow> string" where
  "sub_addServer srvs l =
     (case find_sub ''addServer('' l of
        None \<Rightarrow> l
      | Some (before, after) \<Rightarrow>
          let line = takeWhile (\<lambda>c. c \<noteq> CHR 0x0A) after; eol = dropWhile (\<lambda>c. c \<noteq> CHR 0x0A) after in
          if CHR '')'' \<in> set line
          then before @ ''addServers('' @ srvs @ '')'' @ rev (takeWhile (\<lambda>c. c \<noteq> CHR '')'') (rev line)) @ eol
          else l)"

definition server_array :: "string list \<Rightarrow> string" where
  "server_array mcSrvList = ''array('' @ py_join '','' (map (\<lambda>s. ''array('' @ [CHR 0x27] @ s @ [CHR 0x27] @ '', 11211)'') mcSrvList) @ '')''"

text \<open>\<^verbatim>\<open>PhpServerMemcacheClient.init\<close>: the page that is written for the lines of the template.\<close>

definition php_page :: "string list \<Rightarrow> string list \<Rightarrow> string" where
  "php_page mcSrvList template = concat (map (sub_addServer (server_array mcSrvList)) template)"

text \<open>\<^verbatim>\<open>activeReps=None\<close> stands for all servers.\<close>

definition RepGetClient_init :: "vhost \<Rightarrow> string list \<Rightarrow> int \<Rightarrow> int option \<Rightarrow> role" where
  "RepGetClient_init hst srvs trials activeReps =
     HostRole_init hst (RepGetClient srvs trials
       (case activeReps of None \<Rightarrow> int (length srvs) | Some n \<Rightarrow> n) True)"

fun setActiveReps :: "role \<Rightarrow> int \<Rightarrow> role" where
  "setActiveReps r num = (case rl_data r of
     RepGetClient srvs trials _ cont \<Rightarrow> r\<lparr>rl_data := RepGetClient srvs trials num cont\<rparr>
   | _ \<Rightarrow> r)"

text \<open>The slice \<^verbatim>\<open>xs[:n]\<close>: a negative bound counts from the end.\<close>

definition py_slice_to :: "'a list \<Rightarrow> int \<Rightarrow> 'a list" where
  "py_slice_to xs n = (if 0 \<le> n then take (nat n) xs else take (length xs - nat (- n)) xs)"

definition slice_bound :: "'a list \<Rightarrow> int \<Rightarrow> nat" where
  "slice_bound xs i = (if 0 \<le> i then min (length xs) (nat i) else length xs - nat (- i))"

definition py_slice :: "'a list \<Rightarrow> int \<Rightarrow> int \<Rightarrow> 'a list" where
  "py_slice xs i j = take (slice_bound xs j - slice_bound xs i) (drop (slice_bound xs i) xs)"

text \<open>
  One iteration of \<^verbatim>\<open>RepGetClient.threadStart\<close>: the active servers are asked, the slowest answer is
  reported. \<open>mcget\<close> gives the time of a server; \<^verbatim>\<open>max([])\<close> is a \<^verbatim>\<open>ValueError\<close>.
\<close>

definition rep_round :: "(string \<Rightarrow> 't::linorder) \<Rightarrow> string list \<Rightarrow> int \<Rightarrow> 't res" where
  "rep_round mcget srvs activeReps =
     (let active = py_slice_to srvs activeReps; threadtimes = map mcget active in
      if threadtimes = [] then Inl ValueErr else Inr (Max (set threadtimes)))"

end
