(* ===== verification/Profiles.thy ===== *)
theory Profiles
  imports Tenants
begin

text \<open>
  The profiles of the tenants, \<^verbatim>\<open>minidc/profiles.py\<close>: which roles a tenant creates on its hosts, the
  RPC that changes the number of active servers, and the traffic an \<^verbatim>\<open>IperfProfile\<close> starts. A
  replicated memcached client is one object, reached from the list of the applications and from the
  dictionary of the clients; it is kept once, in the dictionary, and the list holds its key.
\<close>

datatype profile_kind =
    EmptyProfile
  | RepMemcacheProfile int int int int
  | MemcacheProfile int
  | VidstreamProfile
  | IperfProfile string int

datatype app = App role | ClientApp string

record profile =
  pf_kind :: profile_kind
  pf_numNodes :: int
  pf_vlan :: int
  pf_apps :: "app list"
  pf_nodes :: "vhost list"
  pf_clients :: "(string, role) dict"
  pf_ips :: "string list"
  pf_wbsrv :: "role option"

definition AppProfile_init :: "profile_kind \<Rightarrow> int \<Rightarrow> profile" where
  "AppProfile_init k numNodes = \<lparr>pf_kind = k, pf_numNodes = numNodes, pf_vlan = -1, pf_apps = [],
     pf_nodes = [], pf_clients = [], pf_ips = [], pf_wbsrv = None\<rparr>"

definition RepMemcacheProfile_init :: "int \<Rightarrow> int \<Rightarrow> int \<Rightarrow> int option \<Rightarrow> profile" where
  "RepMemcacheProfile_init numSrvs numClients trials activeReps =
     AppProfile_init (RepMemcacheProfile numSrvs numClients trials
       (case activeReps of None \<Rightarrow> numSrvs | Some n \<Rightarrow> n)) (numSrvs + numClients)"

definition assignVlan :: "profile \<Rightarrow> int \<Rightarrow> profile" where
  "assignVlan p vlan = p\<lparr>pf_vlan := vlan\<rparr>"

fun profile_str :: "profile_kind \<Rightarrow> string" where
  "profile_str EmptyProfile = ''Empty''"
| "profile_str (RepMemcacheProfile _ _ _ _) = ''Replicated Memcached''"
| "profile_str (MemcacheProfile _) = ''Memcached''"
| "profile_str VidstreamProfile = ''Video Streaming''"
| "profile_str (IperfProfile bw _) = ''Iperf ('' @ bw @ '')''"

section \<open>Creating the roles\<close>

text \<open>\<^verbatim>\<open>hosts[i]\<close> for an index of \<^verbatim>\<open>range(n)\<close>, shifted.\<close>

definition nodes_at :: "vhost list \<Rightarrow> nat \<Rightarrow> int \<Rightarrow> vhost list res" where
  "nodes_at hosts k n = rmap (\<lambda>i. py_nth hosts (i + k)) [0..<nat n]"

definition create_rep :: "int \<Rightarrow> int \<Rightarrow> int \<Rightarrow> int \<Rightarrow> (string list \<Rightarrow> string list) \<Rightarrow> profile \<Rightarrow> vhost list \<Rightarrow> profile res" where
  "create_rep numSrvs numClients trials activeReps ko p hosts =
     rbind (nodes_at hosts 0 numSrvs) (\<lambda>sh.
     let srvs = map MemcacheServer_init sh; ips = map vh_ip sh in
     rbind (nodes_at hosts (nat numSrvs) numClients) (\<lambda>ch.
     let clients = foldl (\<lambda>d h. dput d (vh_name h) (RepGetClient_init h ips trials (Some activeReps))) (pf_clients p) ch in
     Inr (p\<lparr>pf_ips := ips, pf_clients := clients,
            pf_apps := pf_apps p @ map App srvs @ map ClientApp (ko (dkeys clients))\<rparr>)))"

definition create_memcache :: "string \<Rightarrow> int \<Rightarrow> profile \<Rightarrow> vhost list \<Rightarrow> profile res" where
  "create_memcache webdir trials p hosts =
     rbind (py_nth hosts 0) (\<lambda>h0. rbind (py_nth hosts 1) (\<lambda>h1.
     let mcsrv = MemcacheServer_init h0;
         page = ''index-'' @ vh_ip h1 @ ''.php'';
         wbsrv = PhpServerMemcacheClient_init h1 ''.'' [vh_ip h0] 80 (Some (path_join webdir ''memcached.php'')) page in
     rbind (nodes_at hosts 2 (pf_numNodes p - 2)) (\<lambda>ch.
     let clients = map (\<lambda>h. WgetClient_init h (php_docUrl h1 80 page) trials False) ch in
     Inr (p\<lparr>pf_wbsrv := Some wbsrv, pf_apps := pf_apps p @ [App mcsrv, App wbsrv] @ map App clients\<rparr>))))"

definition create_vid :: "string \<Rightarrow> profile \<Rightarrow> vhost list \<Rightarrow> profile res" where
  "create_vid resdir p hosts =
     rbind (py_nth hosts 0) (\<lambda>h0.
     let srv = PhpServer_init h0 (path_join resdir ''wwwroot'') 80 ''index.php'' in
     rbind (nodes_at hosts 1 (pf_numNodes p - 1)) (\<lambda>ch.
     let clients = map (\<lambda>h. ChromeClient_init h (php_url h0 80 @ ''/streaming.html'') (path_join resdir ''chromedatadir'')) ch in
     Inr (p\<lparr>pf_apps := pf_apps p @ [App srv] @ map App clients\<rparr>)))"

text \<open>
  \<^verbatim>\<open>create\<close>: the nodes are recorded first; the warning that \<^verbatim>\<open>check_hostlen\<close> prints is not modelled. \<open>ko\<close>
  is the iteration order of the clients, \<open>webdir\<close> and \<open>resdir\<close> the directories of the installation.
\<close>

definition create :: "(string list \<Rightarrow> string list) \<Rightarrow> string \<Rightarrow> string \<Rightarrow> profile \<Rightarrow> vhost list \<Rightarrow> profile res" where
  "create ko webdir resdir p hosts =
     (let p = p\<lparr>pf_nodes := pf_nodes p @ hosts\<rparr> in
      case pf_kind p of
        EmptyProfile \<Rightarrow> Inr (p\<lparr>pf_apps := pf_apps p @ map (\<lambda>h. App (EmptyRole_init h ''Empty'')) hosts\<rparr>)
      | RepMemcacheProfile numSrvs numClients trials activeReps \<Rightarrow>
          create_rep numSrvs numClients trials activeReps ko p hosts
      | MemcacheProfile trials \<Rightarrow> create_memcache webdir trials p hosts
      | VidstreamProfile \<Rightarrow> create_vid resdir p hosts
      | IperfProfile _ _ \<Rightarrow> Inr (p\<lparr>pf_apps := pf_apps p @ map (\<lambda>h. App (EmptyRole_init h ''Iperf Client'')) hosts\<rparr>))"

section \<open>The number of active servers\<close>

definition rpc_setactive :: "profile \<Rightarrow> string \<Rightarrow> int \<Rightarrow> ((bool \<times> string) \<times> profile) res" where
  "rpc_setactive p client num =
     (case pf_kind p of
        RepMemcacheProfile numSrvs _ _ _ \<Rightarrow>
          (if client \<notin> set (dkeys (pf_clients p))
           then Inr ((False, ''unexpected client '' @ client), p)
           else if num > numSrvs
           then Inr ((False, ''too many active servers specified. Given: '' @ str_of_int num @ '', max: '' @ str_of_int numSrvs), p)
           else if num = 0
           then Inr ((False, ''active servers must be in range (1, '' @ str_of_int numSrvs @ '')''), p)
           else rbind (dget (pf_clients p) client) (\<lambda>cl.
             Inr ((True, client @ '' - '' @ str_of_int num @ '' active servers''),
                  p\<lparr>pf_clients := dput (pf_clients p) client (setActiveReps cl num)\<rparr>)))
      | _ \<Rightarrow> Inl AttributeErr)"

section \<open>Iperf traffic\<close>

text \<open>\<^verbatim>\<open>iperfcmd(h1, h2, port)\<close>: the command on each of the two hosts.\<close>

definition iperfcmd :: "string \<Rightarrow> vhost \<Rightarrow> vhost \<Rightarrow> int \<Rightarrow> (vhost \<times> string) list" where
  "iperfcmd bw h1 h2 port =
     [(h1, ''iperf -s -p '' @ str_of_int port @ '' > /dev/null &''),
      (h2, ''iperf -M 9000 -c '' @ vh_ip h1 @ '' -p '' @ str_of_int port @ '' -u -b '' @ bw @ ''M -t 3600 > /dev/null &'')]"

text \<open>The flows that \<^verbatim>\<open>start\<close> begins, as server, client and port; \<open>cnt\<close> is the loop's counter.\<close>

definition iperf_step :: "int \<Rightarrow> (vhost \<times> vhost \<times> int) list \<times> int \<Rightarrow> vhost \<times> vhost \<Rightarrow> (vhost \<times> vhost \<times> int) list \<times> int" where
  "iperf_step maxFlows s hs =
     (case s of (flows, cnt) \<Rightarrow> case hs of (h1, h2) \<Rightarrow>
        if h1 \<noteq> h2 then (if cnt < maxFlows then (flows @ [(h1, h2, 12000 + cnt)], cnt + 1) else (flows, cnt))
        else (flows, cnt))"

definition iperf_flows :: "int \<Rightarrow> vhost list \<Rightarrow> (vhost \<times> vhost \<times> int) list" where
  "iperf_flows maxFlows nodes =
     fst (foldl (\<lambda>s h1. foldl (\<lambda>s h2. iperf_step maxFlows s (h1, h2)) s nodes) ([], 0) nodes)"

definition iperf_start :: "string \<Rightarrow> int \<Rightarrow> vhost list \<Rightarrow> (vhost \<times> string) list" where
  "iperf_start bw maxFlows nodes = concat (map (\<lambda>(h1, h2, port). iperfcmd bw h1 h2 port) (iperf_flows maxFlows nodes))"

section \<open>Properties\<close>

text \<open>The RPC that sets the number of active servers answers with success exactly for a known client and a
  number that is not zero and not above the number of servers; then the client asks the first
  \<^verbatim>\<open>num\<close> servers, or, for a negative number, all but the last ones; otherwise nothing changes.\<close>

theorem set_active:
  assumes "pf_kind p = RepMemcacheProfile numSrvs numClients trials reps"
    and "map_of (pf_clients p) client = Some cl" and "rl_data cl = RepGetClient srvs tr old cont"
    and "int (length srvs) = numSrvs"
  shows "\<exists>text p'. rpc_setactive p client num = Inr ((num \<le> numSrvs \<and> num \<noteq> 0, text), p') \<and>
     (if num \<le> numSrvs \<and> num \<noteq> 0
      then \<exists>cl'. map_of (pf_clients p') client = Some cl' \<and> rl_data cl' = RepGetClient srvs tr num cont \<and>
        py_slice_to srvs num = (if 0 < num then take (nat num) srvs else take (nat (numSrvs + num)) srvs)
      else p' = p)"
proof -
  have "client \<in> set (dkeys (pf_clients p))" using assms(2) by (rule map_of_in_keys)
  moreover have "length srvs - nat (- num) = nat (numSrvs + num)" if "num \<le> 0" using that assms(4) by auto
  ultimately show ?thesis using assms by (auto simp: rpc_setactive_def dget_def py_slice_to_def)
qed

definition rep_demo :: profile where
  "rep_demo = (case create (\<lambda>ks. ks) [] [] (RepMemcacheProfile_init 2 1 (-1) None)
     [\<lparr>vh_name = ''h1'', vh_ip = ''10.0.0.1''\<rparr>, \<lparr>vh_name = ''h2'', vh_ip = ''10.0.0.2''\<rparr>, \<lparr>vh_name = ''h3'', vh_ip = ''10.0.0.3''\<rparr>] of
     Inr p \<Rightarrow> p | Inl _ \<Rightarrow> AppProfile_init EmptyProfile 0)"

theorem set_active_demo:
  "\<exists>text p' cl'. rpc_setactive rep_demo ''h3'' (-2) = Inr ((True, text), p') \<and>
     map_of (pf_clients p') ''h3'' = Some cl' \<and> rl_data cl' = RepGetClient [''10.0.0.1'', ''10.0.0.2''] (-1) (-2) True \<and>
     py_slice_to [''10.0.0.1'', ''10.0.0.2''] (-2) = []"
proof -
  have k: "pf_kind rep_demo = RepMemcacheProfile 2 1 (-1) 2" by code_simp
  obtain cl where cl: "map_of (pf_clients rep_demo) ''h3'' = Some cl" "rl_data cl = RepGetClient [''10.0.0.1'', ''10.0.0.2''] (-1) 2 True"
  proof
    show "map_of (pf_clients rep_demo) ''h3'' = Some (RepGetClient_init \<lparr>vh_name = ''h3'', vh_ip = ''10.0.0.3''\<rparr> [''10.0.0.1'', ''10.0.0.2''] (-1) (Some 2))"
      by code_simp
  qed (simp add: RepGetClient_init_def HostRole_init_def)
  show ?thesis using set_active [OF k cl, of "-2"] by auto
qed

lemma iperf_fold:
  "foldl (iperf_step m) (flows, cnt) hs =
     (let new = take (nat (m - cnt)) (filter (\<lambda>(h1, h2). h1 \<noteq> h2) hs) in
      (flows @ map (\<lambda>(i, h1, h2). (h1, h2, 12000 + cnt + int i)) (enumerate 0 new), cnt + int (length new)))"
proof (induction hs arbitrary: flows cnt)
  case (Cons h hs)
  obtain h1 h2 where h: "h = (h1, h2)" by fastforce
  have e: "map (\<lambda>(i, a, b). (a, b, 12001 + cnt + int i)) (enumerate 0 xs)
      = map (\<lambda>(i, a, b). (a, b, 12000 + cnt + int i)) (enumerate 1 xs)" for xs :: "(vhost \<times> vhost) list"
    by (rule nth_equalityI) (auto simp: nth_enumerate_eq split: prod.splits)
  show ?case
  proof (cases "h1 \<noteq> h2 \<and> cnt < m")
    case True
    then have "nat (m - cnt) = Suc (nat (m - (cnt + 1)))" by arith
    moreover have "iperf_step m (flows, cnt) h = (flows @ [(h1, h2, 12000 + cnt)], cnt + 1)"
      using True by (simp add: h iperf_step_def)
    ultimately show ?thesis using True by (simp add: h Cons.IH Let_def e [unfolded One_nat_def])
  next
    case False
    then have "iperf_step m (flows, cnt) h = (flows, cnt)" by (auto simp: h iperf_step_def)
    with False show ?thesis by (auto simp: h Cons.IH Let_def)
  qed
qed simp

lemma iperf_flows_eq:
  "iperf_flows m nodes = map (\<lambda>(i, h1, h2). (h1, h2, 12000 + int i))
     (enumerate 0 (take (nat m) (filter (\<lambda>(h1, h2). h1 \<noteq> h2) (List.product nodes nodes))))"
proof -
  have "foldl (\<lambda>s h1. foldl (\<lambda>s h2. iperf_step m s (h1, h2)) s ns) s hs = foldl (iperf_step m) s (List.product hs ns)" for s hs ns
    by (induction hs arbitrary: s) (simp_all add: foldl_map)
  then show ?thesis by (simp add: iperf_flows_def iperf_fold Let_def)
qed

lemma length_other_pairs:
  "distinct xs \<Longrightarrow> length (filter (\<lambda>(a, b). a \<noteq> b) (List.product xs xs)) = length xs * (length xs - 1)"
proof -
  assume d: "distinct xs"
  have one: "length (filter (\<lambda>b. a \<noteq> b) xs) = length xs - 1" if "a \<in> set xs" for a
  proof -
    have "length (filter (\<lambda>b. a \<noteq> b) xs) = length (remove1 a xs)"
      using d by (metis distinct_remove1_removeAll removeAll_filter_not_eq)
    then show ?thesis using that by (simp add: length_remove1)
  qed
  have "length (filter (\<lambda>(a, b). a \<noteq> b) (List.product as xs)) = length as * (length xs - 1)" if "set as \<subseteq> set xs" for as
    using that
  proof (induction as)
    case (Cons a as)
    have "length (filter (\<lambda>(a, b). a \<noteq> b) (map (Pair a) xs)) = length (filter (\<lambda>b. a \<noteq> b) xs)"
      by (simp add: filter_map comp_def)
    with one [of a] Cons show ?case by simp
  qed simp
  then show ?thesis by simp
qed

text \<open>An iperf tenant starts as many flows as it has ordered pairs of different nodes, at most
  \<^verbatim>\<open>maxFlows\<close>; the flows run between different nodes, no pair twice, and every flow has a port of its own.\<close>

theorem iperf_traffic:
  assumes "distinct nodes"
  shows "length (iperf_flows maxFlows nodes) = min (nat maxFlows) (length nodes * (length nodes - 1)) \<and>
     (\<forall>(h1, h2, port) \<in> set (iperf_flows maxFlows nodes). h1 \<in> set nodes \<and> h2 \<in> set nodes \<and> h1 \<noteq> h2) \<and>
     distinct (map (\<lambda>(h1, h2, port). (h1, h2)) (iperf_flows maxFlows nodes)) \<and>
     map (\<lambda>(h1, h2, port). port) (iperf_flows maxFlows nodes) = map (\<lambda>i. 12000 + int i) [0..<length (iperf_flows maxFlows nodes)]"
proof -
  let ?ps = "filter (\<lambda>(h1, h2). h1 \<noteq> h2) (List.product nodes nodes)"
  let ?new = "take (nat maxFlows) ?ps"
  have f: "iperf_flows maxFlows nodes = map (\<lambda>(i, h1, h2). (h1, h2, 12000 + int i)) (enumerate 0 ?new)"
    by (rule iperf_flows_eq)
  have len: "length (iperf_flows maxFlows nodes) = length ?new" by (simp add: f)
  have pairs: "map (\<lambda>(h1, h2, port). (h1, h2)) (iperf_flows maxFlows nodes) = ?new"
    unfolding f by (rule nth_equalityI) (auto simp: nth_enumerate_eq split: prod.splits)
  have ports: "map (\<lambda>(h1, h2, port). port) (iperf_flows maxFlows nodes) = map (\<lambda>i. 12000 + int i) [0..<length ?new]"
    unfolding f by (rule nth_equalityI) (auto simp: nth_enumerate_eq split: prod.splits)
  have "h1 \<in> set nodes \<and> h2 \<in> set nodes \<and> h1 \<noteq> h2" if "(h1, h2, port) \<in> set (iperf_flows maxFlows nodes)" for h1 h2 port
  proof -
    have "(h1, h2) \<in> set ?new" using that by (subst pairs [symmetric]) (force simp: image_iff)
    then have "(h1, h2) \<in> set ?ps" by (rule in_set_takeD)
    then show ?thesis by auto
  qed
  moreover have "distinct ?new" using assms by (simp add: distinct_product)
  moreover have "length ?new = min (nat maxFlows) (length nodes * (length nodes - 1))"
    using length_other_pairs [OF assms] by simp
  ultimately show ?thesis unfolding len pairs ports by auto
qed

theorem iperf_traffic_demo:
  "length (iperf_flows 12 (pf_nodes rep_demo)) = 6"
proof -
  have n: "pf_nodes rep_demo = [\<lparr>vh_name = ''h1'', vh_ip = ''10.0.0.1''\<rparr>, \<lparr>vh_name = ''h2'', vh_ip = ''10.0.0.2''\<rparr>,
     \<lparr>vh_name = ''h3'', vh_ip = ''10.0.0.3''\<rparr>]" by code_simp
  have "distinct (pf_nodes rep_demo)" by (simp add: n)
  from iperf_traffic [OF this, of 12] show ?thesis by (simp add: n)
qed

end
