(* ===== verification/MnTopo.thy ===== *)
theory MnTopo
  imports MnUtil
begin

text \<open>
  Mininet's topology objects, \<^verbatim>\<open>ext/mininet/mininet/topo.py\<close>: the multigraph whose two directions of an
  edge share one dictionary of links, the nodes and their options, and the ports that \<^verbatim>\<open>addLink\<close>
  chooses. The shared dictionaries are kept in a store (\<open>g_entries\<close>), and the adjacency maps hold their
  index, so that an update through one direction is seen through the other, as in the code.
\<close>

section \<open>Options\<close>

datatype attr = ABool bool | AInt int | AStr string

type_synonym opts = "(string, attr) dict"

fun truthy :: "attr \<Rightarrow> bool" where
  "truthy (ABool b) = b"
| "truthy (AInt i) = (i \<noteq> 0)"
| "truthy (AStr s) = (s \<noteq> [])"

definition dict_update :: "('k, 'v) dict \<Rightarrow> ('k, 'v) dict \<Rightarrow> ('k, 'v) dict" where
  "dict_update d e = foldl (\<lambda>d (k, v). dput d k v) d e"

definition setdefault :: "('k, 'v) dict \<Rightarrow> 'k \<Rightarrow> 'v \<Rightarrow> ('k, 'v) dict" where
  "setdefault d k v = (case map_of d k of None \<Rightarrow> dput d k v | Some _ \<Rightarrow> d)"

text \<open>The dictionary at a key that \<^verbatim>\<open>setdefault\<close> has just put there.\<close>

definition dlook :: "('k, ('a, 'b) dict) dict \<Rightarrow> 'k \<Rightarrow> ('a, 'b) dict" where
  "dlook d k = (case map_of d k of None \<Rightarrow> [] | Some v \<Rightarrow> v)"

section \<open>The multigraph\<close>

record multigraph =
  g_node :: "(string, opts) dict"
  g_edge :: "(string, (string, nat) dict) dict"
  g_entries :: "(pyatom, opts) dict list"

definition multigraph_init :: multigraph where
  "multigraph_init = \<lparr>g_node = [], g_edge = [], g_entries = []\<rparr>"

definition add_node :: "multigraph \<Rightarrow> string \<Rightarrow> opts \<Rightarrow> opts \<Rightarrow> multigraph" where
  "add_node g node attr_dict attrs = g\<lparr>g_node := dput (g_node g) node (dict_update attr_dict attrs)\<rparr>"

fun int_keys :: "(pyatom, 'v) dict \<Rightarrow> int list" where
  "int_keys [] = []"
| "int_keys ((PInt i, _) # d) = i # int_keys d"
| "int_keys ((PStr _, _) # d) = int_keys d"

definition next_key :: "(pyatom, 'v) dict \<Rightarrow> pyatom" where
  "next_key entry = PInt (Max (set (0 # int_keys entry)) + 1)"

definition add_edge :: "multigraph \<Rightarrow> string \<Rightarrow> string \<Rightarrow> pyatom option \<Rightarrow> opts \<Rightarrow> opts
    \<Rightarrow> pyatom \<times> multigraph" where
  "add_edge g src dst key attr_dict attrs =
     (let attr_dict = dict_update attr_dict attrs;
          node = setdefault (setdefault (g_node g) src []) dst [];
          edge = setdefault (setdefault (g_edge g) src []) dst [];
          (r, entries) = (case map_of (dlook edge src) dst of
             Some r \<Rightarrow> (r, g_entries g)
           | None \<Rightarrow> (length (g_entries g), g_entries g @ [[]]));
          edge = dput edge src (dput (dlook edge src) dst r);
          edge = dput edge dst (dput (dlook edge dst) src r);
          key = (case key of Some k \<Rightarrow> k | None \<Rightarrow> next_key (entries ! r))
      in (key, \<lparr>g_node = node, g_edge = edge,
                g_entries = entries[r := dput (entries ! r) key attr_dict]\<rparr>))"

definition g_nodes :: "(string list \<Rightarrow> string list) \<Rightarrow> multigraph \<Rightarrow> string list" where
  "g_nodes ko g = ko (dkeys (g_node g))"

text \<open>
  \<^verbatim>\<open>edges_iter\<close>. An item is the tuple that is yielded, without its key or its attributes where the
  code leaves them out. The loop variable \<^verbatim>\<open>keys\<close> shadows the parameter, so the test \<^verbatim>\<open>if keys\<close>
  is about the dictionary of the links, and the parameter \<open>keys'\<close> has no effect.
\<close>

type_synonym edge_item = "string \<times> string \<times> pyatom option \<times> opts option"

definition edges_iter :: "(string list \<Rightarrow> string list) \<Rightarrow> (pyatom list \<Rightarrow> pyatom list) \<Rightarrow> bool \<Rightarrow> bool
    \<Rightarrow> multigraph \<Rightarrow> edge_item list" where
  "edges_iter ko kk data keys' g =
     concat (map (\<lambda>(src, entry).
       concat (map (\<lambda>(dst, r).
         if dst < src then []
         else let keys = reorder kk (g_entries g ! r) in
           map (\<lambda>(k, attrs).
             if data then (if keys \<noteq> [] then (src, dst, Some k, Some attrs) else (src, dst, None, Some attrs))
             else (if keys \<noteq> [] then (src, dst, Some k, None) else (src, dst, None, None))) keys)
         (reorder ko entry)))
       (reorder ko (g_edge g)))"

section \<open>Topologies\<close>

record topo =
  tp_g :: multigraph
  tp_hopts :: opts
  tp_sopts :: opts
  tp_lopts :: opts
  tp_ports :: "(string, (int, string \<times> int) dict) dict"

definition topo_init :: "opts \<Rightarrow> opts \<Rightarrow> opts \<Rightarrow> topo" where
  "topo_init hopts sopts lopts = \<lparr>tp_g = multigraph_init, tp_hopts = hopts, tp_sopts = sopts,
     tp_lopts = lopts, tp_ports = []\<rparr>"

definition addNode :: "topo \<Rightarrow> string \<Rightarrow> opts \<Rightarrow> string \<times> topo" where
  "addNode tp name opts = (name, tp\<lparr>tp_g := add_node (tp_g tp) name [] opts\<rparr>)"

definition addHost :: "topo \<Rightarrow> string \<Rightarrow> opts \<Rightarrow> string \<times> topo" where
  "addHost tp name opts =
     (let opts = (if opts = [] \<and> tp_hopts tp \<noteq> [] then tp_hopts tp else opts) in addNode tp name opts)"

text \<open>\<^verbatim>\<open>addNode(name, isSwitch=True, **opts)\<close> with a second \<^verbatim>\<open>isSwitch\<close> is a \<^verbatim>\<open>TypeError\<close>.\<close>

definition addSwitch :: "topo \<Rightarrow> string \<Rightarrow> opts \<Rightarrow> (string \<times> topo) res" where
  "addSwitch tp name opts =
     (let opts = (if opts = [] \<and> tp_sopts tp \<noteq> [] then tp_sopts tp else opts) in
      if ''isSwitch'' \<in> set (dkeys opts) then Inl TypeErr
      else Inr (addNode tp name ((''isSwitch'', ABool True) # opts)))"

definition isSwitch :: "topo \<Rightarrow> string \<Rightarrow> bool res" where
  "isSwitch tp n = rbind (dget (g_node (tp_g tp)) n) (\<lambda>info.
     Inr (case map_of info ''isSwitch'' of Some v \<Rightarrow> truthy v | None \<Rightarrow> False))"

text \<open>The port for one end: the given one, or the number of ports of the node plus its base.\<close>

definition pick_port :: "topo \<Rightarrow> (string, (int, string \<times> int) dict) dict \<Rightarrow> string \<Rightarrow> int option \<Rightarrow> int res" where
  "pick_port tp ports n given =
     (case given of Some p \<Rightarrow> Inr p
      | None \<Rightarrow> rbind (isSwitch tp n) (\<lambda>sw.
          let base = (if sw then 1 else 0) in Inr (int (length (dlook ports n)) + base)))"

definition addPort :: "topo \<Rightarrow> string \<Rightarrow> string \<Rightarrow> int option \<Rightarrow> int option \<Rightarrow> ((int \<times> int) \<times> topo) res" where
  "addPort tp src dst sport dport =
     (let ports = setdefault (setdefault (tp_ports tp) src []) dst [] in
      rbind (pick_port tp ports src sport) (\<lambda>sport.
      rbind (pick_port tp ports dst dport) (\<lambda>dport.
      let ports = dput ports src (dput (dlook ports src) sport (dst, dport));
          ports = dput ports dst (dput (dlook ports dst) dport (src, sport))
      in Inr ((sport, dport), tp\<lparr>tp_ports := ports\<rparr>))))"

text \<open>\<^verbatim>\<open>addLink\<close> returns the key it was given, not the one that \<^verbatim>\<open>add_edge\<close> chose.\<close>

definition addLink :: "topo \<Rightarrow> string \<Rightarrow> string \<Rightarrow> int option \<Rightarrow> int option \<Rightarrow> pyatom option \<Rightarrow> opts
    \<Rightarrow> (pyatom option \<times> topo) res" where
  "addLink tp node1 node2 port1 port2 key opts =
     (let opts = (if opts = [] \<and> tp_lopts tp \<noteq> [] then tp_lopts tp else opts) in
      rbind (addPort tp node1 node2 port1 port2) (\<lambda>((port1, port2), tp).
      let opts = dict_update opts [(''node1'', AStr node1), (''node2'', AStr node2),
                                   (''port1'', AInt port1), (''port2'', AInt port2)]
      in Inr (key, tp\<lparr>tp_g := snd (add_edge (tp_g tp) node1 node2 key opts [])\<rparr>)))"

definition topo_sorted :: "string list \<Rightarrow> string list" where
  "topo_sorted items = sort_key natural items"

definition topo_nodes :: "(string list \<Rightarrow> string list) \<Rightarrow> topo \<Rightarrow> bool \<Rightarrow> string list" where
  "topo_nodes ko tp sorted' = (if sorted' then topo_sorted (g_nodes ko (tp_g tp)) else g_nodes ko (tp_g tp))"

fun rfilter :: "('a \<Rightarrow> bool res) \<Rightarrow> 'a list \<Rightarrow> 'a list res" where
  "rfilter p [] = Inr []"
| "rfilter p (x # xs) = rbind (p x) (\<lambda>b. rbind (rfilter p xs) (\<lambda>ys. Inr (if b then x # ys else ys)))"

definition topo_switches :: "(string list \<Rightarrow> string list) \<Rightarrow> topo \<Rightarrow> bool \<Rightarrow> string list res" where
  "topo_switches ko tp sorted' = rfilter (isSwitch tp) (topo_nodes ko tp sorted')"

definition topo_hosts :: "(string list \<Rightarrow> string list) \<Rightarrow> topo \<Rightarrow> bool \<Rightarrow> string list res" where
  "topo_hosts ko tp sorted' =
     rfilter (\<lambda>n. rbind (isSwitch tp n) (\<lambda>b. Inr (\<not> b))) (topo_nodes ko tp sorted')"

section \<open>Links\<close>

definition iterLinks :: "(string list \<Rightarrow> string list) \<Rightarrow> (pyatom list \<Rightarrow> pyatom list) \<Rightarrow> bool \<Rightarrow> bool
    \<Rightarrow> topo \<Rightarrow> (attr \<times> attr \<times> pyatom option \<times> opts option) list res" where
  "iterLinks ko kk withKeys withInfo tp =
     rmap (\<lambda>(_, _, key, info).
       let info = (case info of Some i \<Rightarrow> i | None \<Rightarrow> []) in
       rbind (dget info ''node1'') (\<lambda>node1. rbind (dget info ''node2'') (\<lambda>node2.
       Inr (node1, node2, if withKeys then key else None, if withInfo then Some info else None))))
     (edges_iter ko kk True True (tp_g tp))"

fun str_of_attr :: "attr \<Rightarrow> string" where
  "str_of_attr (ABool b) = (if b then ''True'' else ''False'')"
| "str_of_attr (AInt i) = str_of_int i"
| "str_of_attr (AStr s) = s"

fun str_of_atom :: "pyatom \<Rightarrow> string" where
  "str_of_atom (PInt i) = str_of_int i"
| "str_of_atom (PStr s) = s"

definition link_key :: "bool \<Rightarrow> attr \<times> attr \<times> pyatom option \<times> opts option \<Rightarrow> pyatom list list" where
  "link_key withKeys l = (case l of (node1, node2, key, _) \<Rightarrow>
     naturalSeq ([str_of_attr node1, str_of_attr node2]
       @ (case key of Some k \<Rightarrow> if withKeys then [str_of_atom k] else [] | None \<Rightarrow> [])))"

definition topo_links :: "(string list \<Rightarrow> string list) \<Rightarrow> (pyatom list \<Rightarrow> pyatom list) \<Rightarrow> bool \<Rightarrow> bool \<Rightarrow> bool
    \<Rightarrow> topo \<Rightarrow> (attr \<times> attr \<times> pyatom option \<times> opts option) list res" where
  "topo_links ko kk sorted' withKeys withInfo tp =
     rbind (iterLinks ko kk withKeys withInfo tp) (\<lambda>links.
     Inr (if sorted' then sort_key (link_key withKeys) links else links))"

section \<open>Ports and link information\<close>

datatype port_answer = OnePort "int \<times> int" | PortList "(int \<times> int) list"

definition topo_port :: "(int list \<Rightarrow> int list) \<Rightarrow> topo \<Rightarrow> string \<Rightarrow> string \<Rightarrow> port_answer res" where
  "topo_port ki tp src dst =
     rbind (dget (tp_ports tp) src) (\<lambda>d.
     let ports = map (\<lambda>(sport, entry). (sport, snd entry))
                   (filter (\<lambda>(sport, entry). fst entry = dst) (reorder ki d))
     in Inr (case ports of [p] \<Rightarrow> OnePort p | _ \<Rightarrow> PortList ports))"

text \<open>\<^verbatim>\<open>min(entry)\<close> of an empty dictionary is a \<^verbatim>\<open>ValueError\<close>.\<close>

definition linkEntry :: "topo \<Rightarrow> string \<Rightarrow> string \<Rightarrow> pyatom option \<Rightarrow> (nat \<times> pyatom) res" where
  "linkEntry tp src dst key =
     rbind (dget (g_edge (tp_g tp)) src) (\<lambda>d. rbind (dget d dst) (\<lambda>r.
     case key of Some k \<Rightarrow> Inr (r, k)
     | None \<Rightarrow> (let entry = g_entries (tp_g tp) ! r in
         if entry = [] then Inl ValueErr else Inr (r, Min (set (dkeys entry))))))"

definition linkInfo :: "topo \<Rightarrow> string \<Rightarrow> string \<Rightarrow> pyatom option \<Rightarrow> opts res" where
  "linkInfo tp src dst key =
     rbind (linkEntry tp src dst key) (\<lambda>(r, k). dget (g_entries (tp_g tp) ! r) k)"

definition setlinkInfo :: "topo \<Rightarrow> string \<Rightarrow> string \<Rightarrow> opts \<Rightarrow> pyatom option \<Rightarrow> topo res" where
  "setlinkInfo tp src dst info key =
     rbind (linkEntry tp src dst key) (\<lambda>(r, k).
     let g = tp_g tp; entry = g_entries g ! r in
     Inr (tp\<lparr>tp_g := g\<lparr>g_entries := (g_entries g)[r := dput entry k info]\<rparr>\<rparr>))"

definition nodeInfo :: "topo \<Rightarrow> string \<Rightarrow> opts res" where
  "nodeInfo tp name = dget (g_node (tp_g tp)) name"

definition setNodeInfo :: "topo \<Rightarrow> string \<Rightarrow> opts \<Rightarrow> topo" where
  "setNodeInfo tp name info = tp\<lparr>tp_g := (tp_g tp)\<lparr>g_node := dput (g_node (tp_g tp)) name info\<rparr>\<rparr>"

section \<open>The topologies of the package\<close>

definition nm :: "char \<Rightarrow> int \<Rightarrow> string" where
  "nm c i = c # str_of_int i"

definition SingleSwitchTopo_build :: "int \<Rightarrow> topo \<Rightarrow> topo res" where
  "SingleSwitchTopo_build k tp =
     rbind (addSwitch tp ''s1'' []) (\<lambda>(switch, tp).
     rfold (\<lambda>tp h. case addHost tp (nm CHR ''h'' h) [] of (host, tp) \<Rightarrow>
         rbind (addLink tp host switch None None None []) (\<lambda>(_, tp). Inr tp)) tp (irange 1 k))"

definition SingleSwitchReversedTopo_build :: "int \<Rightarrow> topo \<Rightarrow> topo res" where
  "SingleSwitchReversedTopo_build k tp =
     rbind (addSwitch tp ''s1'' []) (\<lambda>(switch, tp).
     rfold (\<lambda>tp h. case addHost tp (nm CHR ''h'' h) [] of (host, tp) \<Rightarrow>
         rbind (addLink tp host switch (Some 0) (Some (k - h + 1)) None []) (\<lambda>(_, tp). Inr tp)) tp (irange 1 k))"

definition genHostName :: "int \<Rightarrow> int \<Rightarrow> int \<Rightarrow> string" where
  "genHostName n i j = (if n = 1 then nm CHR ''h'' i else nm CHR ''h'' j @ nm CHR ''s'' i)"

definition LinearTopo_build :: "int \<Rightarrow> int \<Rightarrow> topo \<Rightarrow> topo res" where
  "LinearTopo_build k n tp =
     rbind (rfold (\<lambda>(lastSwitch, tp) i.
         rbind (addSwitch tp (nm CHR ''s'' i) []) (\<lambda>(switch, tp).
         rbind (rfold (\<lambda>tp j. case addHost tp (genHostName n i j) [] of (host, tp) \<Rightarrow>
                  rbind (addLink tp host switch None None None []) (\<lambda>(_, tp). Inr tp)) tp (irange 1 n)) (\<lambda>tp.
         rbind (case lastSwitch of
                  Some l \<Rightarrow> rbind (addLink tp switch l None None None []) (\<lambda>(_, tp). Inr tp)
                | None \<Rightarrow> Inr tp) (\<lambda>tp.
         Inr (Some switch, tp)))))
       (None, tp) (irange 1 k)) (\<lambda>(_, tp). Inr tp)"

section \<open>The port numbers that addLink chooses\<close>

definition node_base :: "topo \<Rightarrow> string \<Rightarrow> nat" where
  "node_base tp n = (case isSwitch tp n of Inr True \<Rightarrow> 1 | _ \<Rightarrow> 0)"

definition port_map :: "topo \<Rightarrow> string \<Rightarrow> (int, string \<times> int) dict" where
  "port_map tp n = dlook (tp_ports tp) n"

text \<open>The nodes at the other ends of a node's ports, in port order.\<close>

definition neighbours :: "topo \<Rightarrow> string \<Rightarrow> string list" where
  "neighbours tp n = map (\<lambda>p. fst (snd p)) (port_map tp n)"

definition ports_wf :: "topo \<Rightarrow> bool" where
  "ports_wf tp \<longleftrightarrow>
     (\<forall>n. dkeys (port_map tp n) = map int [node_base tp n..<node_base tp n + length (port_map tp n)]) \<and>
     (\<forall>a p b q. map_of (port_map tp a) p = Some (b, q) \<longrightarrow> map_of (port_map tp b) q = Some (a, p)) \<and>
     set (dkeys (tp_ports tp)) \<subseteq> set (dkeys (g_node (tp_g tp)))"

lemma dlook_dput [simp]: "dlook (dput d k v) n = (if n = k then v else dlook d n)"
  by (simp add: dlook_def)

lemma dlook_setdefault [simp]: "dlook (setdefault d k []) n = dlook d n"
  by (auto simp: dlook_def setdefault_def split: option.splits)

lemma dkeys_setdefault [simp]: "set (dkeys (setdefault d k v)) = insert k (set (dkeys d))"
  using map_of_in_keys [of d k] by (auto simp: setdefault_def split: option.splits simp del: set_map)

lemma setdefault_present: "k \<in> set (dkeys d) \<Longrightarrow> setdefault d k v = d"
  by (auto simp: setdefault_def map_of_eq_None_iff split: option.splits)

lemma topo_init_wf [simp]: "ports_wf (topo_init h s l)"
  by (simp add: ports_wf_def port_map_def topo_init_def dlook_def)

lemma isSwitch_Inr: "n \<in> set (dkeys (g_node (tp_g tp))) \<Longrightarrow> isSwitch tp n = Inr (node_base tp n = 1)"
proof -
  assume n: "n \<in> set (dkeys (g_node (tp_g tp)))"
  obtain info where "map_of (g_node (tp_g tp)) n = Some info" by (rule key_lookup [OF n])
  then show ?thesis by (simp add: isSwitch_def dget_def node_base_def split: option.splits bool.splits)
qed

lemma pick_port_new:
  assumes "n \<in> set (dkeys (g_node (tp_g tp)))" and "dlook ports n = port_map tp n"
  shows "pick_port tp ports n None = Inr (int (node_base tp n + length (port_map tp n)))"
proof -
  have "node_base tp n = 0 \<or> node_base tp n = 1" by (auto simp: node_base_def split: sum.splits bool.splits)
  then show ?thesis using assms by (auto simp: pick_port_def isSwitch_Inr)
qed

lemma new_port: "ports_wf tp \<Longrightarrow> int (node_base tp n + length (port_map tp n)) \<notin> set (dkeys (port_map tp n))"
  unfolding ports_wf_def by auto

lemma isSwitch_cong: "g_node (tp_g tp') = g_node (tp_g tp) \<Longrightarrow> node_base tp' n = node_base tp n"
  by (simp add: node_base_def isSwitch_def)

lemma addLink_step:
  assumes wf: "ports_wf tp" and ab: "a \<noteq> b"
    and na: "a \<in> set (dkeys (g_node (tp_g tp)))" and nb: "b \<in> set (dkeys (g_node (tp_g tp)))"
  obtains tp' where "addLink tp a b None None key opts = Inr (key, tp')"
    and "ports_wf tp'" and "g_node (tp_g tp') = g_node (tp_g tp)"
    and "port_map tp' a = port_map tp a @ [(int (node_base tp a + length (port_map tp a)), b,
           int (node_base tp b + length (port_map tp b)))]"
    and "port_map tp' b = port_map tp b @ [(int (node_base tp b + length (port_map tp b)), a,
           int (node_base tp a + length (port_map tp a)))]"
    and "\<And>n. n \<noteq> a \<Longrightarrow> n \<noteq> b \<Longrightarrow> port_map tp' n = port_map tp n"
    and "tp_hopts tp' = tp_hopts tp" "tp_sopts tp' = tp_sopts tp" "tp_lopts tp' = tp_lopts tp"
proof -
  let ?ports = "setdefault (setdefault (tp_ports tp) a []) b []"
  let ?p = "int (node_base tp a + length (port_map tp a))"
  let ?q = "int (node_base tp b + length (port_map tp b))"
  have pick: "pick_port tp ?ports a None = Inr ?p" "pick_port tp ?ports b None = Inr ?q"
    using na nb by (simp_all add: pick_port_new port_map_def)
  have new: "?p \<notin> set (dkeys (port_map tp a))" "?q \<notin> set (dkeys (port_map tp b))"
    by (rule new_port [OF wf])+
  let ?ports' = "dput (dput ?ports a (port_map tp a @ [(?p, b, ?q)])) b (port_map tp b @ [(?q, a, ?p)])"
  have "dlook ?ports a = port_map tp a" "dlook ?ports b = port_map tp b" by (simp_all add: port_map_def)
  then have addPort: "addPort tp a b None None = Inr ((?p, ?q), tp\<lparr>tp_ports := ?ports'\<rparr>)"
    using pick new ab by (simp add: addPort_def Let_def dput_new del: set_map)
  obtain tp' where L: "addLink tp a b None None key opts = Inr (key, tp')" and ports: "tp_ports tp' = ?ports'"
    and nodes: "g_node (tp_g tp') = g_node (tp_g tp)"
    and o: "tp_hopts tp' = tp_hopts tp" "tp_sopts tp' = tp_sopts tp" "tp_lopts tp' = tp_lopts tp"
    using na nb by (simp add: addLink_def addPort add_edge_def Let_def setdefault_present split: prod.splits)
  have pm: "port_map tp' a = port_map tp a @ [(?p, b, ?q)]" "port_map tp' b = port_map tp b @ [(?q, a, ?p)]"
      "\<And>n. n \<noteq> a \<Longrightarrow> n \<noteq> b \<Longrightarrow> port_map tp' n = port_map tp n"
    using ab by (simp_all add: port_map_def ports)
  have base: "node_base tp' n = node_base tp n" for n by (rule isSwitch_cong [OF nodes])
  have keys: "dkeys (port_map tp' n) = map int [node_base tp' n..<node_base tp' n + length (port_map tp' n)]" for n
  proof -
    have k: "dkeys (port_map tp m) = map int [node_base tp m..<node_base tp m + length (port_map tp m)]" for m
      using wf unfolding ports_wf_def by blast
    show ?thesis using k [of n] by (cases "n = a"; cases "n = b") (simp_all add: pm base)
  qed
  have sym: "map_of (port_map tp' d) q = Some (c, p)" if "map_of (port_map tp' c) p = Some (d, q)" for c p d q
  proof -
    have old: "map_of (port_map tp d) q = Some (c, p)" if "map_of (port_map tp c) p = Some (d, q)" for c p d q
      using wf that unfolding ports_wf_def by blast
    have mo: "map_of (port_map tp' n) r = (if n = a \<and> r = ?p then Some (b, ?q) else if n = b \<and> r = ?q then Some (a, ?p)
        else map_of (port_map tp n) r)" for n r
      using new key_lookup_None [OF new(1)] key_lookup_None [OF new(2)] ab
      by (cases "n = a"; cases "n = b") (auto simp: pm map_add_def split: option.splits)
    have na: "map_of (port_map tp a) ?p = None" and nb: "map_of (port_map tp b) ?q = None"
      using new by (auto intro: key_lookup_None)
    show ?thesis
    proof (cases "c = a \<and> p = ?p \<or> c = b \<and> p = ?q")
      case True
      with that ab show ?thesis by (auto simp: mo)
    next
      case False
      with that have "map_of (port_map tp c) p = Some (d, q)" by (auto simp: mo split: if_splits)
      from old [OF this] show ?thesis using na nb by (auto simp: mo)
    qed
  qed
  have "set (dkeys (tp_ports tp')) \<subseteq> set (dkeys (g_node (tp_g tp')))"
    using wf na nb unfolding ports_wf_def nodes ports
    by (simp add: set_dkeys_dput dkeys_setdefault del: set_map fst_set_dput)
  then have "ports_wf tp'" using keys sym unfolding ports_wf_def by blast
  then show thesis using that L nodes pm o by blast
qed

lemma length_port_map: "length (port_map tp n) = length (neighbours tp n)"
  by (simp add: neighbours_def)

lemma neighbours_append:
  assumes "port_map tp' n = port_map tp n @ [(p, m, q)]"
  shows "neighbours tp' n = neighbours tp n @ [m]"
  by (simp add: neighbours_def assms)

lemma nm_inject [simp]: "nm c i = nm d j \<longleftrightarrow> c = d \<and> str_of_int i = str_of_int j"
  by (simp add: nm_def)

lemma str_of_int_inject [simp]: "str_of_int i = str_of_int j \<longleftrightarrow> i = j"
  by (metis py_int_str_of_int sum.inject(2))

text \<open>Adding a node that is not there yet changes neither the ports nor what is known of the others.\<close>

lemma addNode_new:
  assumes "ports_wf tp" and "name \<notin> set (dkeys (g_node (tp_g tp)))"
  shows "ports_wf (snd (addNode tp name opts))"
    and "port_map (snd (addNode tp name opts)) = port_map tp"
    and "dkeys (g_node (tp_g (snd (addNode tp name opts)))) = dkeys (g_node (tp_g tp)) @ [name]"
    and "m \<noteq> name \<Longrightarrow> node_base (snd (addNode tp name opts)) m = node_base tp m"
    and "neighbours (snd (addNode tp name opts)) = neighbours tp"
    and "isSwitch (snd (addNode tp name opts)) name =
      Inr (case map_of (dict_update [] opts) ''isSwitch'' of Some v \<Rightarrow> truthy v | None \<Rightarrow> False)"
proof -
  let ?t = "snd (addNode tp name opts)"
  show pm: "port_map ?t = port_map tp" by (simp add: fun_eq_iff port_map_def addNode_def)
  then show "neighbours ?t = neighbours tp" by (simp add: fun_eq_iff neighbours_def)
  show k: "dkeys (g_node (tp_g ?t)) = dkeys (g_node (tp_g tp)) @ [name]"
    using assms(2) by (simp add: addNode_def add_node_def dput_new del: set_map)
  have b: "node_base ?t m = node_base tp m" if "m \<noteq> name" for m
    using that by (simp add: node_base_def isSwitch_def addNode_def add_node_def dget_dput)
  then show "m \<noteq> name \<Longrightarrow> node_base ?t m = node_base tp m" .
  have "name \<notin> set (dkeys (tp_ports tp))" using assms unfolding ports_wf_def by blast
  then have e: "port_map tp name = []" by (simp add: port_map_def dlook_def key_lookup_None del: set_map)
  have b': "map int [node_base ?t n..<node_base ?t n + length (port_map tp n)] = map int [node_base tp n..<node_base tp n + length (port_map tp n)]" for n
    using b [of n] by (cases "n = name") (simp_all add: e)
  have "set (dkeys (tp_ports ?t)) \<subseteq> set (dkeys (g_node (tp_g ?t)))"
    using assms(1) unfolding k ports_wf_def by (auto simp: addNode_def simp del: set_map)
  then show "ports_wf ?t" using assms(1) unfolding ports_wf_def pm b' by blast
  show "isSwitch ?t name = Inr (case map_of (dict_update [] opts) ''isSwitch'' of Some v \<Rightarrow> truthy v | None \<Rightarrow> False)"
    by (simp add: isSwitch_def addNode_def add_node_def dget_dput)
qed

text \<open>A link between two different nodes gets the next free port at both ends: the ports of every
  node stay numbered without gaps from its base and paired with the ports at the other ends, the
  two nodes become each other's last neighbour, and no other node changes.\<close>

theorem addLink_ports:
  assumes "ports_wf tp" and "a \<noteq> b"
    and "a \<in> set (dkeys (g_node (tp_g tp)))" and "b \<in> set (dkeys (g_node (tp_g tp)))"
  shows "\<exists>tp'. addLink tp a b None None key opts = Inr (key, tp') \<and> ports_wf tp' \<and>
    neighbours tp' a = neighbours tp a @ [b] \<and> neighbours tp' b = neighbours tp b @ [a] \<and>
    (\<forall>n. n \<noteq> a \<and> n \<noteq> b \<longrightarrow> port_map tp' n = port_map tp n)"
proof -
  obtain tp' where t: "addLink tp a b None None key opts = Inr (key, tp')" "ports_wf tp'"
    and a: "port_map tp' a = port_map tp a @ [(int (node_base tp a + length (port_map tp a)), b,
           int (node_base tp b + length (port_map tp b)))]"
    and b: "port_map tp' b = port_map tp b @ [(int (node_base tp b + length (port_map tp b)), a,
           int (node_base tp a + length (port_map tp a)))]"
    and "\<And>n. n \<noteq> a \<Longrightarrow> n \<noteq> b \<Longrightarrow> port_map tp' n = port_map tp n"
    by (rule addLink_step [OF assms, of key opts]) blast
  with neighbours_append [OF a] neighbours_append [OF b] show ?thesis by blast
qed

definition two_nodes :: topo where
  "two_nodes = snd (addHost (snd (addHost (topo_init [] [] []) ''h1'' [])) ''h2'' [])"

lemma addNode_opts [simp]:
  "tp_hopts (snd (addNode tp n opts)) = tp_hopts tp" "tp_sopts (snd (addNode tp n opts)) = tp_sopts tp"
  "tp_lopts (snd (addNode tp n opts)) = tp_lopts tp"
  by (simp_all add: addNode_def)

lemma addHost_eq: "tp_hopts tp = [] \<Longrightarrow> addHost tp n opts = addNode tp n opts"
  by (simp add: addHost_def Let_def)

lemma topo_init_opts [simp]:
  "tp_hopts (topo_init h s l) = h" "tp_sopts (topo_init h s l) = s" "tp_lopts (topo_init h s l) = l"
  "g_node (tp_g (topo_init h s l)) = []"
  by (simp_all add: topo_init_def multigraph_init_def)

lemma two_nodes_wf: "ports_wf two_nodes"
  and two_nodes_keys: "dkeys (g_node (tp_g two_nodes)) = [''h1'', ''h2'']"
proof -
  have k: "dkeys (g_node (tp_g (snd (addNode (topo_init [] [] []) ''h1'' [])))) = [''h1'']" by code_simp
  have e: "two_nodes = snd (addNode (snd (addNode (topo_init [] [] []) ''h1'' [])) ''h2'' [])"
    by (simp add: two_nodes_def addHost_eq)
  have "ports_wf (snd (addNode (topo_init [] [] []) ''h1'' []))"
    by (rule addNode_new(1)) simp_all
  then show "ports_wf two_nodes"
    unfolding e by (rule addNode_new(1)) (simp add: k del: set_map)
  show "dkeys (g_node (tp_g two_nodes)) = [''h1'', ''h2'']" by code_simp
qed

theorem addLink_ports_demo:
  "\<exists>tp'. addLink two_nodes ''h1'' ''h2'' None None None [] = Inr (None, tp') \<and> ports_wf tp' \<and>
    neighbours tp' ''h1'' = neighbours two_nodes ''h1'' @ [''h2''] \<and>
    neighbours tp' ''h2'' = neighbours two_nodes ''h2'' @ [''h1''] \<and>
    (\<forall>n. n \<noteq> ''h1'' \<and> n \<noteq> ''h2'' \<longrightarrow> port_map tp' n = port_map two_nodes n)"
  by (rule addLink_ports [OF two_nodes_wf]) (simp_all add: two_nodes_keys del: set_map)

section \<open>Both directions of an edge\<close>

definition edge_ref :: "multigraph \<Rightarrow> string \<Rightarrow> string \<Rightarrow> nat option" where
  "edge_ref g a b = map_of (dlook (g_edge g) a) b"

definition edges_wf :: "multigraph \<Rightarrow> bool" where
  "edges_wf g \<longleftrightarrow> (\<forall>a b r. edge_ref g a b = Some r \<longrightarrow>
     r < length (g_entries g) \<and> edge_ref g b a = Some r \<and>
     (\<forall>c d. edge_ref g c d = Some r \<longrightarrow> {c, d} = {a, b}))"

lemma edges_wf_init [simp]: "edges_wf multigraph_init"
  by (simp add: edges_wf_def edge_ref_def multigraph_init_def dlook_def)

lemma add_edge_parts:
  fixes g a b
  defines "r \<equiv> (case edge_ref g a b of Some r \<Rightarrow> r | None \<Rightarrow> length (g_entries g))"
  assumes "add_edge g a b key attr_dict attrs = (k, g')"
  shows "edge_ref g' c d = (if c = a \<and> d = b \<or> c = b \<and> d = a then Some r else edge_ref g c d)"
    and "length (g_entries g') = (if edge_ref g a b = None then Suc (length (g_entries g)) else length (g_entries g))"
    and "r < length (g_entries g') \<Longrightarrow> map_of (g_entries g' ! r) k = Some (dict_update attr_dict attrs)"
    and "r' \<noteq> r \<Longrightarrow> r' < length (g_entries g) \<Longrightarrow> g_entries g' ! r' = g_entries g ! r'"
    and "key = Some k' \<Longrightarrow> k = k'"
  using assms(2)
  by (auto simp: add_edge_def Let_def r_def edge_ref_def nth_append split: option.splits prod.splits if_splits)

lemma add_edge_wf:
  assumes "edges_wf g" and "add_edge g a b key attr_dict attrs = (k, g')"
  shows "edges_wf g'"
proof -
  note p = add_edge_parts [OF assms(2)]
  have old: "r < length (g_entries g) \<and> edge_ref g d c = Some r \<and> (\<forall>e f. edge_ref g e f = Some r \<longrightarrow> {e, f} = {c, d})"
    if "edge_ref g c d = Some r" for c d r
    using assms(1) that unfolding edges_wf_def by blast
  show ?thesis
  proof (cases "edge_ref g a b")
    case None
    have len: "length (g_entries g') = Suc (length (g_entries g))" using p(2) None by simp
    have e: "edge_ref g' c d = (if c = a \<and> d = b \<or> c = b \<and> d = a then Some (length (g_entries g)) else edge_ref g c d)" for c d
      using p(1) [of c d] None by simp
    show ?thesis unfolding edges_wf_def
    proof (intro allI impI)
      fix c d r assume cd: "edge_ref g' c d = Some r"
      show "r < length (g_entries g') \<and> edge_ref g' d c = Some r \<and> (\<forall>e f. edge_ref g' e f = Some r \<longrightarrow> {e, f} = {c, d})"
      proof (cases "c = a \<and> d = b \<or> c = b \<and> d = a")
        case True
        with cd have r: "r = length (g_entries g)" by (simp add: e split: if_splits)
        have "{e', f'} = {c, d}" if ref: "edge_ref g' e' f' = Some r" for e' f'
        proof (cases "e' = a \<and> f' = b \<or> e' = b \<and> f' = a")
          case True
          with \<open>c = a \<and> d = b \<or> c = b \<and> d = a\<close> show ?thesis by blast
        next
          case False
          with ref have "edge_ref g e' f' = Some r" using e [of e' f'] by (simp only: if_False)
          from old [OF this] show ?thesis by (simp add: r)
        qed
        moreover have "edge_ref g' d c = Some r" using True e [of d c] r by presburger
        ultimately show ?thesis by (simp add: len r)
      next
        case False
        with cd have "edge_ref g c d = Some r" by (simp add: e split: if_splits)
        then have "r < length (g_entries g)" and dc: "edge_ref g d c = Some r"
          and un: "\<And>e f. edge_ref g e f = Some r \<Longrightarrow> {e, f} = {c, d}" using old [of c d r] by blast+
        have "{e', f'} = {c, d}" if ref: "edge_ref g' e' f' = Some r" for e' f'
          using ref e [of e' f'] un \<open>r < length (g_entries g)\<close> by (metis nat_neq_iff option.inject)
        moreover have "edge_ref g' d c = Some r" using False dc e [of d c] by presburger
        ultimately show ?thesis using \<open>r < length (g_entries g)\<close> len by simp
      qed
    qed
  next
    case (Some r0)
    have ba: "edge_ref g b a = Some r0" using old [OF Some] by blast
    have "edge_ref g' c d = edge_ref g c d" for c d
      using p(1) [of c d] by (auto simp: Some ba)
    then have same: "edge_ref g' = edge_ref g" by (simp add: fun_eq_iff)
    have len: "length (g_entries g') = length (g_entries g)" using p(2) Some by simp
    have "edges_wf g' = edges_wf g" unfolding edges_wf_def same len by (rule refl)
    then show ?thesis using assms(1) by (rule iffD2)
  qed
qed

lemma linkInfo_ref:
  "linkInfo tp a b (Some k) = (case edge_ref (tp_g tp) a b of None \<Rightarrow> Inl KeyErr
     | Some r \<Rightarrow> dget (g_entries (tp_g tp) ! r) k)"
  by (simp add: linkInfo_def linkEntry_def edge_ref_def dlook_def dget_def split: option.splits)

lemma linkInfo_None_ref:
  "linkInfo tp a b None = (case edge_ref (tp_g tp) a b of None \<Rightarrow> Inl KeyErr
     | Some r \<Rightarrow> (let e = g_entries (tp_g tp) ! r in
         if e = [] then Inl ValueErr else dget e (Min (set (dkeys e)))))"
  by (simp add: linkInfo_def linkEntry_def edge_ref_def dlook_def dget_def Let_def split: option.splits)

text \<open>The information of a link is the same object from both ends: after \<^verbatim>\<open>addLink\<close> some key leads in either
  direction to a dictionary that names the two nodes and the ports that the topology's port map has for
  them, and the links between other nodes are as before.\<close>

theorem link_information:
  assumes "edges_wf (tp_g tp)" and "addLink tp a b p q key opts = Inr (ret, tp')"
  shows "edges_wf (tp_g tp') \<and>
    (\<exists>k info sport dport. linkInfo tp' a b (Some k) = Inr info \<and> linkInfo tp' b a (Some k) = Inr info \<and>
       (key \<noteq> None \<longrightarrow> key = Some k) \<and>
       map_of info ''node1'' = Some (AStr a) \<and> map_of info ''node2'' = Some (AStr b) \<and>
       map_of info ''port1'' = Some (AInt sport) \<and> map_of info ''port2'' = Some (AInt dport) \<and>
       map_of (port_map tp' b) dport = Some (a, sport)) \<and>
    (\<forall>c d k. {c, d} \<noteq> {a, b} \<longrightarrow> linkInfo tp' c d k = linkInfo tp c d k)"
proof -
  obtain sport dport tp1 where port: "addPort tp a b p q = Inr ((sport, dport), tp1)"
    and tp': "tp' = tp1\<lparr>tp_g := snd (add_edge (tp_g tp1) a b key
      (dict_update (if opts = [] \<and> tp_lopts tp \<noteq> [] then tp_lopts tp else opts)
        [(''node1'', AStr a), (''node2'', AStr b), (''port1'', AInt sport), (''port2'', AInt dport)]) [])\<rparr>"
    using assms(2) by (auto simp: addLink_def Let_def rbind_eq_Inr)
  have g1: "tp_g tp1 = tp_g tp" and d: "map_of (port_map tp' b) dport = Some (a, sport)"
    using port by (auto simp: addPort_def Let_def rbind_eq_Inr tp' port_map_def)
  let ?info = "dict_update (if opts = [] \<and> tp_lopts tp \<noteq> [] then tp_lopts tp else opts)
        [(''node1'', AStr a), (''node2'', AStr b), (''port1'', AInt sport), (''port2'', AInt dport)]"
  obtain k g' where e: "add_edge (tp_g tp) a b key ?info [] = (k, g')" by fastforce
  have tg: "tp_g tp' = g'" using tp' e g1 by simp
  note parts = add_edge_parts [OF e]
  have wf: "edges_wf g'" by (rule add_edge_wf [OF assms(1) e])
  obtain r where r: "edge_ref g' a b = Some r" "edge_ref g' b a = Some r"
    and r0: "r = (case edge_ref (tp_g tp) a b of Some r \<Rightarrow> r | None \<Rightarrow> length (g_entries (tp_g tp)))"
    using parts(1) by simp
  have len: "r < length (g_entries g')" using wf r(1) unfolding edges_wf_def by blast
  have info: "map_of (g_entries g' ! r) k = Some ?info"
    using parts(3) [folded r0, OF len] by (simp add: dict_update_def)
  then have "linkInfo tp' a b (Some k) = Inr ?info" "linkInfo tp' b a (Some k) = Inr ?info"
    by (simp_all add: linkInfo_ref tg r dget_def)
  moreover have "map_of ?info ''node1'' = Some (AStr a)" "map_of ?info ''node2'' = Some (AStr b)"
      "map_of ?info ''port1'' = Some (AInt sport)" "map_of ?info ''port2'' = Some (AInt dport)"
    by (simp_all add: dict_update_def)
  moreover have "key \<noteq> None \<longrightarrow> key = Some k" using parts(5) by auto
  moreover have "linkInfo tp' c d k = linkInfo tp c d k" if "{c, d} \<noteq> {a, b}" for c d k
  proof -
    have ne: "edge_ref g' c d = edge_ref (tp_g tp) c d" using parts(1) that by auto
    have same: "g_entries g' ! s = g_entries (tp_g tp) ! s" if s: "edge_ref (tp_g tp) c d = Some s" for s
    proof (rule parts(4) [folded r0])
      show "s < length (g_entries (tp_g tp))" using assms(1) s unfolding edges_wf_def by blast
      have "edge_ref g' c d = Some s" using ne s by simp
      with r(1) wf \<open>{c, d} \<noteq> {a, b}\<close> show "s \<noteq> r" unfolding edges_wf_def by blast
    qed
    show ?thesis
      by (cases k; cases "edge_ref (tp_g tp) c d") (simp_all add: linkInfo_ref linkInfo_None_ref tg ne same)
  qed
  ultimately show ?thesis using wf d unfolding tg by blast
qed

theorem link_information_demo:
  "\<exists>tp' ret. addLink two_nodes ''h1'' ''h2'' None None None [] = Inr (ret, tp') \<and> edges_wf (tp_g tp') \<and>
    (\<exists>k info sport dport. linkInfo tp' ''h1'' ''h2'' (Some k) = Inr info \<and> linkInfo tp' ''h2'' ''h1'' (Some k) = Inr info \<and>
       map_of info ''port1'' = Some (AInt sport) \<and> map_of (port_map tp' ''h2'') dport = Some (''h1'', sport))"
proof -
  have two: "tp_g two_nodes = \<lparr>g_node = [(''h1'', []), (''h2'', [])], g_edge = [], g_entries = []\<rparr>" by code_simp
  have wf: "edges_wf (tp_g two_nodes)" by (simp add: two edges_wf_def edge_ref_def dlook_def)
  have n: "''h1'' \<noteq> ''h2''" "''h1'' \<in> set (dkeys (g_node (tp_g two_nodes)))" "''h2'' \<in> set (dkeys (g_node (tp_g two_nodes)))"
    by (simp_all add: two_nodes_keys del: set_map)
  obtain tp' where t: "addLink two_nodes ''h1'' ''h2'' None None None [] = Inr (None, tp')"
    by (rule addLink_step [OF two_nodes_wf n, of None "[]"])
  have "edges_wf (tp_g tp')" using link_information [OF wf t] by (rule conjunct1)
  moreover note link_information [OF wf t, THEN conjunct2, THEN conjunct1]
  ultimately show ?thesis using t by blast
qed

end
