(* ===== verification/Fattree.thy ===== *)
theory Fattree
  imports MnTopo
begin

text \<open>
  The datacenter's topology, \<^verbatim>\<open>minidc/topo.py\<close>: \<^verbatim>\<open>FattreeTopology.build\<close> on Mininet's topology
  objects, and what it builds: the ports of every node lead to the nodes that \<^verbatim>\<open>_links\<close> lists, in
  that order.
\<close>

section \<open>The builder\<close>

record fattree =
  ft_topo :: topo
  ft_cores :: "string list"
  ft_edges :: "string list"
  ft_hosts :: "string list"
  ft_links :: "(string, string list) dict"

definition link_opts :: "attr \<Rightarrow> opts" where
  "link_opts bw = [(''bw'', bw), (''delay'', AStr ''1ms''), (''max_queue_size'', AInt 500),
     (''loss'', AInt 0), (''use_htb'', ABool True)]"

definition switch_opts :: opts where
  "switch_opts = [(''protocols'', AStr ''OpenFlow13'')]"

definition firstSwitch :: "int \<Rightarrow> int" where
  "firstSwitch numHosts = max 101 (numHosts + 1)"

definition add_core :: "fattree \<Rightarrow> int \<Rightarrow> fattree res" where
  "add_core ft s = rbind (addSwitch (ft_topo ft) (nm CHR ''s'' s) switch_opts) (\<lambda>(switch, tp).
     Inr (ft\<lparr>ft_topo := tp, ft_cores := ft_cores ft @ [switch], ft_links := dput (ft_links ft) switch []\<rparr>))"

definition add_edge_sw :: "fattree \<Rightarrow> int \<Rightarrow> fattree res" where
  "add_edge_sw ft s = rbind (addSwitch (ft_topo ft) (nm CHR ''s'' s) switch_opts) (\<lambda>(switch, tp).
     Inr (ft\<lparr>ft_topo := tp, ft_edges := ft_edges ft @ [switch], ft_links := dput (ft_links ft) switch []\<rparr>))"

text \<open>\<^verbatim>\<open>self._links[k].append(x)\<close>\<close>

definition links_append :: "(string, string list) dict \<Rightarrow> string \<Rightarrow> string \<Rightarrow> (string, string list) dict res" where
  "links_append d k x = rbind (dget d k) (\<lambda>l. Inr (dput d k (l @ [x])))"

definition link_switches :: "attr \<Rightarrow> string \<Rightarrow> fattree \<Rightarrow> string \<Rightarrow> fattree res" where
  "link_switches bw s1 ft s2 =
     rbind (addLink (ft_topo ft) s1 s2 None None None (link_opts bw)) (\<lambda>(_, tp).
     rbind (links_append (ft_links ft) s1 s2) (\<lambda>links.
     rbind (links_append links s2 s1) (\<lambda>links.
     Inr (ft\<lparr>ft_topo := tp, ft_links := links\<rparr>))))"

definition add_host :: "attr \<Rightarrow> int \<Rightarrow> int \<Rightarrow> fattree \<Rightarrow> int \<Rightarrow> fattree res" where
  "add_host bw first numEdgeSwitches ft h =
     (case addHost (ft_topo ft) (nm CHR ''h'' h) [] of (host, tp) \<Rightarrow>
      let hosts = ft_hosts ft @ [host];
          switch = nm CHR ''s'' (first + h mod numEdgeSwitches) in
      rbind (addLink tp switch host None None None (link_opts bw)) (\<lambda>(_, tp).
      rbind (links_append (dput (ft_links ft) host [switch]) switch host) (\<lambda>links.
      Inr (ft\<lparr>ft_topo := tp, ft_hosts := hosts, ft_links := links\<rparr>))))"

definition FattreeTopology_build :: "int \<Rightarrow> attr \<Rightarrow> int \<Rightarrow> topo \<Rightarrow> fattree res" where
  "FattreeTopology_build numEdgeSwitches bw hostsPerEdge tp =
     (let numHosts = numEdgeSwitches * hostsPerEdge;
          numCoreSwitches = numEdgeSwitches - 1;
          hostIds = py_range 1 (numHosts + 1);
          first = firstSwitch numHosts;
          edgeSwitchIds = py_range first (numEdgeSwitches + first);
          coreSwitchIds = py_range (numEdgeSwitches + first) (numEdgeSwitches + first + numCoreSwitches);
          ft = \<lparr>ft_topo = tp, ft_cores = [], ft_edges = [], ft_hosts = [], ft_links = []\<rparr> in
      rbind (rfold add_core ft coreSwitchIds) (\<lambda>ft.
      rbind (rfold add_edge_sw ft edgeSwitchIds) (\<lambda>ft.
      rbind (rfold (\<lambda>ft s1. rfold (link_switches bw s1) ft (ft_edges ft)) ft (ft_cores ft)) (\<lambda>ft.
      rfold (add_host bw first numEdgeSwitches) ft hostIds))))"

section \<open>The invariant of the construction\<close>

definition ft_nodes :: "fattree \<Rightarrow> string list" where
  "ft_nodes ft = dkeys (g_node (tp_g (ft_topo ft)))"

definition ft_ok :: "fattree \<Rightarrow> bool" where
  "ft_ok ft \<longleftrightarrow> ports_wf (ft_topo ft) \<and> distinct (ft_nodes ft) \<and>
     (\<forall>x \<in> set (ft_nodes ft). map_of (ft_links ft) x = Some (neighbours (ft_topo ft) x)) \<and>
     (\<forall>x. x \<notin> set (ft_nodes ft) \<longrightarrow> map_of (ft_links ft) x = None \<and> neighbours (ft_topo ft) x = []) \<and>
     tp_hopts (ft_topo ft) = [] \<and> tp_sopts (ft_topo ft) = [] \<and> tp_lopts (ft_topo ft) = []"

definition incident :: "string \<Rightarrow> (string \<times> string) list \<Rightarrow> string list" where
  "incident x ls = concat (map (\<lambda>(a, b). if a = x then [b] else if b = x then [a] else []) ls)"

lemma incident_append [simp]: "incident x (ls @ ms) = incident x ls @ incident x ms"
  by (simp add: incident_def)

lemma incident_Cons [simp]: "incident x ((a, b) # ls) = (if a = x then [b] else if b = x then [a] else []) @ incident x ls"
  by (simp add: incident_def)

lemma incident_Nil [simp]: "incident x [] = []"
  by (simp add: incident_def)

lemma no_ports_outside:
  assumes "ports_wf tp" and "x \<notin> set (dkeys (g_node (tp_g tp)))"
  shows "port_map tp x = []"
proof -
  have "x \<notin> set (dkeys (tp_ports tp))" using assms unfolding ports_wf_def by blast
  then show ?thesis by (simp add: port_map_def dlook_def key_lookup_None del: set_map)
qed

text \<open>A node that is not there yet: a switch, or a host.\<close>

lemma ft_ok_addNode:
  assumes ok: "ft_ok ft" and new: "name \<notin> set (ft_nodes ft)"
    and t: "tp' = snd (addNode (ft_topo ft) name opts)"
    and ft': "ft_topo ft' = tp'" "ft_links ft' = dput (ft_links ft) name []"
  shows "ft_ok ft'" "ft_nodes ft' = ft_nodes ft @ [name]" "neighbours tp' = neighbours (ft_topo ft)"
    "\<And>m. m \<noteq> name \<Longrightarrow> node_base tp' m = node_base (ft_topo ft) m"
proof -
  have wf: "ports_wf (ft_topo ft)" and new': "name \<notin> set (dkeys (g_node (tp_g (ft_topo ft))))"
    using ok new unfolding ft_ok_def ft_nodes_def by blast+
  note a = addNode_new [OF wf new', where opts = opts, folded t]
  show n: "ft_nodes ft' = ft_nodes ft @ [name]" unfolding ft_nodes_def ft'(1) by (rule a(3))
  show nb: "neighbours tp' = neighbours (ft_topo ft)" by (rule a(5))
  show "\<And>m. m \<noteq> name \<Longrightarrow> node_base tp' m = node_base (ft_topo ft) m" by (rule a(4))
  have e: "neighbours (ft_topo ft) name = []" using no_ports_outside [OF wf new'] by (simp add: neighbours_def)
  have "distinct (ft_nodes ft @ [name])" using ok new unfolding ft_ok_def by simp
  moreover have "tp_hopts tp' = []" "tp_sopts tp' = []" "tp_lopts tp' = []"
    using ok unfolding ft_ok_def t by simp_all
  moreover have "map_of (ft_links ft') x = Some (neighbours tp' x)" if "x \<in> set (ft_nodes ft @ [name])" for x
    using that ok e unfolding ft'(2) nb ft_ok_def by (cases "x = name") auto
  moreover have "map_of (ft_links ft') x = None \<and> neighbours tp' x = []" if "x \<notin> set (ft_nodes ft @ [name])" for x
    using that ok unfolding ft'(2) nb ft_ok_def by simp
  ultimately show "ft_ok ft'" using a(1) unfolding ft_ok_def n ft'(1) by blast
qed

text \<open>A link between two nodes that are there.\<close>

lemma ft_ok_link:
  assumes ok: "ft_ok ft" and ab: "a \<noteq> b" "a \<in> set (ft_nodes ft)" "b \<in> set (ft_nodes ft)"
  obtains tp' links1 links2 where "addLink (ft_topo ft) a b None None None opts = Inr (None, tp')"
    and "links_append (ft_links ft) a b = Inr links1" and "links_append links1 b a = Inr links2"
    and "\<And>ft' :: fattree. ft_topo ft' = tp' \<Longrightarrow> ft_links ft' = links2 \<Longrightarrow>
      ft_ok ft' \<and> ft_nodes ft' = ft_nodes ft \<and>
      (\<forall>x. neighbours tp' x = neighbours (ft_topo ft) x @ incident x [(a, b)]) \<and>
      (\<forall>x. node_base tp' x = node_base (ft_topo ft) x)"
proof -
  have wf: "ports_wf (ft_topo ft)" using ok unfolding ft_ok_def by blast
  obtain tp' where t: "addLink (ft_topo ft) a b None None None opts = Inr (None, tp')" "ports_wf tp'"
    and g: "g_node (tp_g tp') = g_node (tp_g (ft_topo ft))"
    and a: "port_map tp' a = port_map (ft_topo ft) a @ [(int (node_base (ft_topo ft) a + length (port_map (ft_topo ft) a)), b,
           int (node_base (ft_topo ft) b + length (port_map (ft_topo ft) b)))]"
    and b: "port_map tp' b = port_map (ft_topo ft) b @ [(int (node_base (ft_topo ft) b + length (port_map (ft_topo ft) b)), a,
           int (node_base (ft_topo ft) a + length (port_map (ft_topo ft) a)))]"
    and o: "\<And>n. n \<noteq> a \<Longrightarrow> n \<noteq> b \<Longrightarrow> port_map tp' n = port_map (ft_topo ft) n"
    and opts: "tp_hopts tp' = tp_hopts (ft_topo ft)" "tp_sopts tp' = tp_sopts (ft_topo ft)" "tp_lopts tp' = tp_lopts (ft_topo ft)"
    by (rule addLink_step [OF wf ab(1) ab(2,3) [unfolded ft_nodes_def], of None opts]) blast
  have nb: "neighbours tp' x = neighbours (ft_topo ft) x @ incident x [(a, b)]" for x
    using neighbours_append [OF a] neighbours_append [OF b] o [of x] ab(1)
    by (cases "x = a"; cases "x = b") (simp_all add: neighbours_def)
  let ?na = "neighbours (ft_topo ft) a" and ?nb = "neighbours (ft_topo ft) b"
  have la: "map_of (ft_links ft) a = Some ?na" and lb: "map_of (ft_links ft) b = Some ?nb"
    using ok ab(2,3) unfolding ft_ok_def by blast+
  let ?l1 = "dput (ft_links ft) a (?na @ [b])" and ?l2 = "dput (dput (ft_links ft) a (?na @ [b])) b (?nb @ [a])"
  have l: "links_append (ft_links ft) a b = Inr ?l1" "links_append ?l1 b a = Inr ?l2"
    using la lb ab(1) by (simp_all add: links_append_def dget_def)
  show thesis
  proof (rule that [OF t(1) l])
    fix ft' :: fattree
    assume ft': "ft_topo ft' = tp'" "ft_links ft' = ?l2"
    have n: "ft_nodes ft' = ft_nodes ft" by (simp add: ft_nodes_def ft' g)
    have "map_of ?l2 x = Some (neighbours tp' x)" if "x \<in> set (ft_nodes ft)" for x
      using that ok ab(1) unfolding nb ft_ok_def by simp
    moreover have "map_of ?l2 x = None \<and> neighbours tp' x = []" if "x \<notin> set (ft_nodes ft)" for x
    proof -
      have "x \<noteq> a" "x \<noteq> b" using that ab by blast+
      then show ?thesis using that ok unfolding nb ft_ok_def by simp
    qed
    ultimately have "ft_ok ft'" using ok t(2) opts unfolding ft_ok_def n ft' by simp
    then show "ft_ok ft' \<and> ft_nodes ft' = ft_nodes ft \<and>
      (\<forall>x. neighbours tp' x = neighbours (ft_topo ft) x @ incident x [(a, b)]) \<and>
      (\<forall>x. node_base tp' x = node_base (ft_topo ft) x)"
      using n nb isSwitch_cong [OF g] by blast
  qed
qed

section \<open>The loops\<close>

lemma addSwitch_new:
  assumes "tp_sopts tp = []"
  shows "addSwitch tp n switch_opts = Inr (addNode tp n ((''isSwitch'', ABool True) # switch_opts))"
  by (simp add: addSwitch_def switch_opts_def Let_def)

lemma new_switch_base:
  "node_base (snd (addNode tp n ((''isSwitch'', ABool True) # switch_opts))) n = 1"
  by (simp add: node_base_def isSwitch_def addNode_def add_node_def dget_dput dict_update_def switch_opts_def)

lemma new_host_base: "node_base (snd (addNode tp n [])) n = 0"
  by (simp add: node_base_def isSwitch_def addNode_def add_node_def dget_dput dict_update_def)

definition same_lists :: "fattree \<Rightarrow> fattree \<Rightarrow> bool" where
  "same_lists ft ft' \<longleftrightarrow> ft_hosts ft' = ft_hosts ft \<and> ft_cores ft' = ft_cores ft \<and> ft_edges ft' = ft_edges ft"

lemma add_core_ok:
  assumes ok: "ft_ok ft" and new: "nm CHR ''s'' s \<notin> set (ft_nodes ft)"
  shows "\<exists>ft'. add_core ft s = Inr ft' \<and> ft_ok ft' \<and> ft_nodes ft' = ft_nodes ft @ [nm CHR ''s'' s] \<and>
     neighbours (ft_topo ft') = neighbours (ft_topo ft) \<and> node_base (ft_topo ft') (nm CHR ''s'' s) = 1 \<and>
     (\<forall>m. m \<noteq> nm CHR ''s'' s \<longrightarrow> node_base (ft_topo ft') m = node_base (ft_topo ft) m) \<and>
     ft_cores ft' = ft_cores ft @ [nm CHR ''s'' s] \<and> ft_edges ft' = ft_edges ft \<and> ft_hosts ft' = ft_hosts ft"
    and "\<exists>ft'. add_edge_sw ft s = Inr ft' \<and> ft_ok ft' \<and> ft_nodes ft' = ft_nodes ft @ [nm CHR ''s'' s] \<and>
     neighbours (ft_topo ft') = neighbours (ft_topo ft) \<and> node_base (ft_topo ft') (nm CHR ''s'' s) = 1 \<and>
     (\<forall>m. m \<noteq> nm CHR ''s'' s \<longrightarrow> node_base (ft_topo ft') m = node_base (ft_topo ft) m) \<and>
     ft_edges ft' = ft_edges ft @ [nm CHR ''s'' s] \<and> ft_cores ft' = ft_cores ft \<and> ft_hosts ft' = ft_hosts ft"
proof -
  have so: "tp_sopts (ft_topo ft) = []" using ok unfolding ft_ok_def by blast
  let ?n = "nm CHR ''s'' s"
  let ?tp = "snd (addNode (ft_topo ft) ?n ((''isSwitch'', ABool True) # switch_opts))"
  let ?f1 = "ft\<lparr>ft_topo := ?tp, ft_cores := ft_cores ft @ [?n], ft_links := dput (ft_links ft) ?n []\<rparr>"
  let ?f2 = "ft\<lparr>ft_topo := ?tp, ft_edges := ft_edges ft @ [?n], ft_links := dput (ft_links ft) ?n []\<rparr>"
  have e: "add_core ft s = Inr ?f1" "add_edge_sw ft s = Inr ?f2"
    by (simp_all add: add_core_def add_edge_sw_def addSwitch_new [OF so] addNode_def)
  have a1: "ft_topo ?f1 = ?tp" "ft_links ?f1 = dput (ft_links ft) ?n []" by simp_all
  have a2: "ft_topo ?f2 = ?tp" "ft_links ?f2 = dput (ft_links ft) ?n []" by simp_all
  note n1 = ft_ok_addNode [OF ok new refl a1] and n2 = ft_ok_addNode [OF ok new refl a2]
  show "\<exists>ft'. add_core ft s = Inr ft' \<and> ft_ok ft' \<and> ft_nodes ft' = ft_nodes ft @ [?n] \<and>
     neighbours (ft_topo ft') = neighbours (ft_topo ft) \<and> node_base (ft_topo ft') ?n = 1 \<and>
     (\<forall>m. m \<noteq> ?n \<longrightarrow> node_base (ft_topo ft') m = node_base (ft_topo ft) m) \<and>
     ft_cores ft' = ft_cores ft @ [?n] \<and> ft_edges ft' = ft_edges ft \<and> ft_hosts ft' = ft_hosts ft"
    using n1 new_switch_base by (intro exI [of _ ?f1]) (simp add: e)
  show "\<exists>ft'. add_edge_sw ft s = Inr ft' \<and> ft_ok ft' \<and> ft_nodes ft' = ft_nodes ft @ [?n] \<and>
     neighbours (ft_topo ft') = neighbours (ft_topo ft) \<and> node_base (ft_topo ft') ?n = 1 \<and>
     (\<forall>m. m \<noteq> ?n \<longrightarrow> node_base (ft_topo ft') m = node_base (ft_topo ft) m) \<and>
     ft_edges ft' = ft_edges ft @ [?n] \<and> ft_cores ft' = ft_cores ft \<and> ft_hosts ft' = ft_hosts ft"
    using n2 new_switch_base by (intro exI [of _ ?f2]) (simp add: e)
qed

text \<open>What a loop that adds the nodes \<open>ns\<close> keeps and gives.\<close>

definition added :: "fattree \<Rightarrow> string list \<Rightarrow> nat \<Rightarrow> fattree \<Rightarrow> bool" where
  "added ft ns base ft' \<longleftrightarrow> ft_ok ft' \<and> ft_nodes ft' = ft_nodes ft @ ns \<and>
     (\<forall>m \<in> set ns. node_base (ft_topo ft') m = base) \<and>
     (\<forall>m. m \<notin> set ns \<longrightarrow> node_base (ft_topo ft') m = node_base (ft_topo ft) m)"

lemma added_Cons:
  assumes "added f1 ns b f2" and "ft_nodes f1 = ft_nodes ft @ [n]" and "node_base (ft_topo f1) n = b"
    and "\<forall>m. m \<noteq> n \<longrightarrow> node_base (ft_topo f1) m = node_base (ft_topo ft) m" and "n \<notin> set ns"
  shows "added ft (n # ns) b f2"
  using assms unfolding added_def by simp

lemma nm_notin: "s \<notin> set ss \<Longrightarrow> nm c s \<notin> set (map (nm c) ss)"
  by auto

lemma add_switches:
  assumes "ft_ok ft" and "distinct ss" and "\<forall>s \<in> set ss. nm CHR ''s'' s \<notin> set (ft_nodes ft)"
  shows "\<exists>ft'. rfold add_core ft ss = Inr ft' \<and> added ft (map (nm CHR ''s'') ss) 1 ft' \<and>
      neighbours (ft_topo ft') = neighbours (ft_topo ft) \<and>
      ft_cores ft' = ft_cores ft @ map (nm CHR ''s'') ss \<and> ft_edges ft' = ft_edges ft \<and> ft_hosts ft' = ft_hosts ft"
    and "\<exists>ft'. rfold add_edge_sw ft ss = Inr ft' \<and> added ft (map (nm CHR ''s'') ss) 1 ft' \<and>
      neighbours (ft_topo ft') = neighbours (ft_topo ft) \<and>
      ft_edges ft' = ft_edges ft @ map (nm CHR ''s'') ss \<and> ft_cores ft' = ft_cores ft \<and> ft_hosts ft' = ft_hosts ft"
  using assms
proof (induction ss arbitrary: ft)
  case Nil
  { case 1 then show ?case by (simp add: added_def) next case 2 then show ?case by (simp add: added_def) }
next
  case (Cons s ss)
  { case 1
    from 1 obtain f1 where f1: "add_core ft s = Inr f1" "ft_ok f1" "ft_nodes f1 = ft_nodes ft @ [nm CHR ''s'' s]"
      "neighbours (ft_topo f1) = neighbours (ft_topo ft)" "node_base (ft_topo f1) (nm CHR ''s'' s) = 1"
      "\<forall>m. m \<noteq> nm CHR ''s'' s \<longrightarrow> node_base (ft_topo f1) m = node_base (ft_topo ft) m"
      "ft_cores f1 = ft_cores ft @ [nm CHR ''s'' s]" "ft_edges f1 = ft_edges ft" "ft_hosts f1 = ft_hosts ft"
      using add_core_ok(1) [of ft s] by auto
    have "distinct ss" "\<forall>x \<in> set ss. nm CHR ''s'' x \<notin> set (ft_nodes f1)" using 1 by (auto simp: f1(3))
    from Cons.IH(1) [OF f1(2) this] obtain f2 where f2: "rfold add_core f1 ss = Inr f2" "added f1 (map (nm CHR ''s'') ss) 1 f2"
      "neighbours (ft_topo f2) = neighbours (ft_topo f1)"
      "ft_cores f2 = ft_cores f1 @ map (nm CHR ''s'') ss" "ft_edges f2 = ft_edges f1" "ft_hosts f2 = ft_hosts f1" by blast
    have "s \<notin> set ss" using 1(2) by simp
    from added_Cons [OF f2(2) f1(3,5,6) nm_notin [OF this]]
    have "added ft (map (nm CHR ''s'') (s # ss)) 1 f2" by simp
    with f1 f2 show ?case by simp
  next
    case 2
    from 2 obtain f1 where f1: "add_edge_sw ft s = Inr f1" "ft_ok f1" "ft_nodes f1 = ft_nodes ft @ [nm CHR ''s'' s]"
      "neighbours (ft_topo f1) = neighbours (ft_topo ft)" "node_base (ft_topo f1) (nm CHR ''s'' s) = 1"
      "\<forall>m. m \<noteq> nm CHR ''s'' s \<longrightarrow> node_base (ft_topo f1) m = node_base (ft_topo ft) m"
      "ft_edges f1 = ft_edges ft @ [nm CHR ''s'' s]" "ft_cores f1 = ft_cores ft" "ft_hosts f1 = ft_hosts ft"
      using add_core_ok(2) [of ft s] by auto
    have "distinct ss" "\<forall>x \<in> set ss. nm CHR ''s'' x \<notin> set (ft_nodes f1)" using 2 by (auto simp: f1(3))
    from Cons.IH(2) [OF f1(2) this] obtain f2 where f2: "rfold add_edge_sw f1 ss = Inr f2" "added f1 (map (nm CHR ''s'') ss) 1 f2"
      "neighbours (ft_topo f2) = neighbours (ft_topo f1)"
      "ft_edges f2 = ft_edges f1 @ map (nm CHR ''s'') ss" "ft_cores f2 = ft_cores f1" "ft_hosts f2 = ft_hosts f1" by blast
    have "s \<notin> set ss" using 2(2) by simp
    from added_Cons [OF f2(2) f1(3,5,6) nm_notin [OF this]]
    have "added ft (map (nm CHR ''s'') (s # ss)) 1 f2" by simp
    with f1 f2 show ?case by simp
  }
qed

text \<open>What a loop that links the pairs \<open>ls\<close> gives.\<close>

definition linked :: "fattree \<Rightarrow> (string \<times> string) list \<Rightarrow> fattree \<Rightarrow> bool" where
  "linked ft ls ft' \<longleftrightarrow> ft_ok ft' \<and> ft_nodes ft' = ft_nodes ft \<and> same_lists ft ft' \<and>
     (\<forall>x. neighbours (ft_topo ft') x = neighbours (ft_topo ft) x @ incident x ls) \<and>
     (\<forall>x. node_base (ft_topo ft') x = node_base (ft_topo ft) x)"

lemma linked_trans: "linked ft ls ft1 \<Longrightarrow> linked ft1 ms ft2 \<Longrightarrow> linked ft (ls @ ms) ft2"
  unfolding linked_def same_lists_def by simp

lemma link_switches_ok:
  assumes "ft_ok ft" and "a \<in> set (ft_nodes ft)" and "set bs \<subseteq> set (ft_nodes ft)" and "a \<notin> set bs"
  shows "\<exists>ft'. rfold (link_switches bw a) ft bs = Inr ft' \<and> linked ft (map (\<lambda>b. (a, b)) bs) ft'"
  using assms
proof (induction bs arbitrary: ft)
  case Nil
  then show ?case by (simp add: linked_def same_lists_def)
next
  case (Cons b bs)
  have "a \<noteq> b" "b \<in> set (ft_nodes ft)" using Cons.prems by auto
  from ft_ok_link [OF Cons.prems(1) this(1) Cons.prems(2) this(2), of "link_opts bw"]
  obtain tp' l1 l2 where l: "addLink (ft_topo ft) a b None None None (link_opts bw) = Inr (None, tp')"
      "links_append (ft_links ft) a b = Inr l1" "links_append l1 b a = Inr l2"
    and k: "\<And>ft'. ft_topo ft' = tp' \<Longrightarrow> ft_links ft' = l2 \<Longrightarrow>
      ft_ok ft' \<and> ft_nodes ft' = ft_nodes ft \<and>
      (\<forall>x. neighbours tp' x = neighbours (ft_topo ft) x @ incident x [(a, b)]) \<and>
      (\<forall>x. node_base tp' x = node_base (ft_topo ft) x)" by blast
  let ?f = "ft\<lparr>ft_topo := tp', ft_links := l2\<rparr>"
  have s: "link_switches bw a ft b = Inr ?f" by (simp add: link_switches_def l)
  have f: "linked ft [(a, b)] ?f" using k [of ?f] by (simp add: linked_def same_lists_def)
  then have "ft_ok ?f" "ft_nodes ?f = ft_nodes ft" unfolding linked_def by blast+
  with Cons.IH [of ?f] Cons.prems obtain f2 where "rfold (link_switches bw a) ?f bs = Inr f2" "linked ?f (map (\<lambda>b. (a, b)) bs) f2"
    by auto
  with s linked_trans [OF f this(2)] show ?case by simp
qed

lemma link_all_ok:
  assumes "ft_ok ft" and "set as \<subseteq> set (ft_nodes ft)" and "set (ft_edges ft) \<subseteq> set (ft_nodes ft)" and "set as \<inter> set (ft_edges ft) = {}"
  shows "\<exists>ft'. rfold (\<lambda>ft s1. rfold (link_switches bw s1) ft (ft_edges ft)) ft as = Inr ft' \<and>
     linked ft (List.product as (ft_edges ft)) ft'"
  using assms
proof (induction as arbitrary: ft)
  case Nil
  then show ?case by (simp add: linked_def same_lists_def)
next
  case (Cons a as)
  have "a \<in> set (ft_nodes ft)" "a \<notin> set (ft_edges ft)" using Cons.prems by auto
  from link_switches_ok [OF Cons.prems(1) this(1) Cons.prems(3) this(2), of bw]
  obtain f1 where f1: "rfold (link_switches bw a) ft (ft_edges ft) = Inr f1" "linked ft (map (\<lambda>b. (a, b)) (ft_edges ft)) f1" by blast
  then have "ft_ok f1" "ft_nodes f1 = ft_nodes ft" "ft_edges f1 = ft_edges ft" unfolding linked_def same_lists_def by blast+
  with Cons.IH [of f1] Cons.prems obtain f2 where "rfold (\<lambda>ft s1. rfold (link_switches bw s1) ft (ft_edges ft)) f1 as = Inr f2"
      "linked f1 (List.product as (ft_edges ft)) f2" by auto
  with f1(1) linked_trans [OF f1(2) this(2)] show ?case by simp
qed

lemma dput_commute: "k \<in> set (dkeys d) \<Longrightarrow> k \<noteq> k' \<Longrightarrow> dput (dput d k' v') k v = dput (dput d k v) k' v'"
  by (induction d k' v' rule: dput.induct) auto

lemma add_host_ok:
  assumes ok: "ft_ok ft" and new: "nm CHR ''h'' h \<notin> set (ft_nodes ft)"
    and sw: "nm CHR ''s'' (first + h mod n) \<in> set (ft_nodes ft)"
  shows "\<exists>ft'. add_host bw first n ft h = Inr ft' \<and> ft_ok ft' \<and> ft_nodes ft' = ft_nodes ft @ [nm CHR ''h'' h] \<and>
     (\<forall>x. neighbours (ft_topo ft') x = neighbours (ft_topo ft) x @ incident x [(nm CHR ''s'' (first + h mod n), nm CHR ''h'' h)]) \<and>
     node_base (ft_topo ft') (nm CHR ''h'' h) = 0 \<and>
     (\<forall>m. m \<noteq> nm CHR ''h'' h \<longrightarrow> node_base (ft_topo ft') m = node_base (ft_topo ft) m) \<and>
     ft_hosts ft' = ft_hosts ft @ [nm CHR ''h'' h] \<and> ft_cores ft' = ft_cores ft \<and> ft_edges ft' = ft_edges ft"
proof -
  let ?h = "nm CHR ''h'' h" and ?s = "nm CHR ''s'' (first + h mod n)"
  let ?tp = "snd (addNode (ft_topo ft) ?h [])"
  let ?f1 = "ft\<lparr>ft_topo := ?tp, ft_hosts := ft_hosts ft @ [?h], ft_links := dput (ft_links ft) ?h []\<rparr>"
  have ho: "tp_hopts (ft_topo ft) = []" using ok unfolding ft_ok_def by blast
  have f1: "ft_topo ?f1 = ?tp" "ft_links ?f1 = dput (ft_links ft) ?h []" by simp_all
  note a = ft_ok_addNode [OF ok new refl f1]
  have "?s \<noteq> ?h" "?s \<in> set (ft_nodes ?f1)" "?h \<in> set (ft_nodes ?f1)" using sw by (simp_all add: a(2))
  from ft_ok_link [OF a(1) this, of "link_opts bw"]
  obtain tp' l1 l2 where l: "addLink ?tp ?s ?h None None None (link_opts bw) = Inr (None, tp')"
      "links_append (dput (ft_links ft) ?h []) ?s ?h = Inr l1" "links_append l1 ?h ?s = Inr l2"
    and k: "\<And>ft' :: fattree. ft_topo ft' = tp' \<Longrightarrow> ft_links ft' = l2 \<Longrightarrow>
      ft_ok ft' \<and> ft_nodes ft' = ft_nodes ?f1 \<and>
      (\<forall>x. neighbours tp' x = neighbours ?tp x @ incident x [(?s, ?h)]) \<and>
      (\<forall>x. node_base tp' x = node_base ?tp x)" unfolding f1 by blast
  have "map_of (ft_links ft) ?s = Some (neighbours (ft_topo ft) ?s)" using ok sw unfolding ft_ok_def by blast
  then have "links_append (dput (ft_links ft) ?h [?s]) ?s ?h = Inr l2"
    using l(2,3) by (auto simp: links_append_def dget_def dput_commute [of ?h _ ?s])
  then have e: "add_host bw first n ft h = Inr (?f1\<lparr>ft_topo := tp', ft_links := l2\<rparr>)"
    using l(1) by (simp add: add_host_def addHost_eq [OF ho] Let_def split_beta addNode_def)
  show ?thesis
    using k [of "?f1\<lparr>ft_topo := tp', ft_links := l2\<rparr>"] a(3,4) new_host_base [of "ft_topo ft" ?h]
    by (intro exI [of _ "?f1\<lparr>ft_topo := tp', ft_links := l2\<rparr>"]) (simp add: e a(2))
qed

lemma add_hosts_ok:
  assumes "ft_ok ft" and "distinct hs" and "\<forall>h \<in> set hs. nm CHR ''h'' h \<notin> set (ft_nodes ft)"
    and "\<forall>h \<in> set hs. nm CHR ''s'' (first + h mod n) \<in> set (ft_nodes ft)"
  shows "\<exists>ft'. rfold (add_host bw first n) ft hs = Inr ft' \<and> added ft (map (nm CHR ''h'') hs) 0 ft' \<and>
      (\<forall>x. neighbours (ft_topo ft') x = neighbours (ft_topo ft) x
         @ incident x (map (\<lambda>h. (nm CHR ''s'' (first + h mod n), nm CHR ''h'' h)) hs)) \<and>
      ft_hosts ft' = ft_hosts ft @ map (nm CHR ''h'') hs \<and> ft_cores ft' = ft_cores ft \<and> ft_edges ft' = ft_edges ft"
  using assms
proof (induction hs arbitrary: ft)
  case Nil
  then show ?case by (simp add: added_def)
next
  case (Cons h hs)
  from Cons.prems obtain f1 where f1: "add_host bw first n ft h = Inr f1" "ft_ok f1" "ft_nodes f1 = ft_nodes ft @ [nm CHR ''h'' h]"
     "\<forall>x. neighbours (ft_topo f1) x = neighbours (ft_topo ft) x @ incident x [(nm CHR ''s'' (first + h mod n), nm CHR ''h'' h)]"
     "node_base (ft_topo f1) (nm CHR ''h'' h) = 0"
     "\<forall>m. m \<noteq> nm CHR ''h'' h \<longrightarrow> node_base (ft_topo f1) m = node_base (ft_topo ft) m"
     "ft_hosts f1 = ft_hosts ft @ [nm CHR ''h'' h]" "ft_cores f1 = ft_cores ft" "ft_edges f1 = ft_edges ft"
    using add_host_ok [of ft h first n bw] by (auto simp del: incident_Cons)
  have "distinct hs" "\<forall>x \<in> set hs. nm CHR ''h'' x \<notin> set (ft_nodes f1)" 
    "\<forall>x \<in> set hs. nm CHR ''s'' (first + x mod n) \<in> set (ft_nodes f1)" using Cons.prems by (auto simp: f1(3))
  from Cons.IH [OF f1(2) this] obtain f2 where f2: "rfold (add_host bw first n) f1 hs = Inr f2" "added f1 (map (nm CHR ''h'') hs) 0 f2"
      "\<forall>x. neighbours (ft_topo f2) x = neighbours (ft_topo f1) x
         @ incident x (map (\<lambda>h. (nm CHR ''s'' (first + h mod n), nm CHR ''h'' h)) hs)"
      "ft_hosts f2 = ft_hosts f1 @ map (nm CHR ''h'') hs" "ft_cores f2 = ft_cores f1" "ft_edges f2 = ft_edges f1" by blast
  have "h \<notin> set hs" using Cons.prems(2) by simp
  from added_Cons [OF f2(2) f1(3,5,6) nm_notin [OF this]]
  have "added ft (map (nm CHR ''h'') (h # hs)) 0 f2" by simp
  with f1 f2 show ?case by simp
qed

section \<open>The fat tree\<close>

definition core_ids :: "int \<Rightarrow> int \<Rightarrow> int list" where
  "core_ids n hpe = [n + firstSwitch (n * hpe)..n + firstSwitch (n * hpe) + (n - 1) - 1]"

definition edge_ids :: "int \<Rightarrow> int \<Rightarrow> int list" where
  "edge_ids n hpe = [firstSwitch (n * hpe)..n + firstSwitch (n * hpe) - 1]"

definition host_ids :: "int \<Rightarrow> int \<Rightarrow> int list" where
  "host_ids n hpe = [1..n * hpe]"

text \<open>The hosts of the edge switch number \<open>s\<close>, in the order of their numbers.\<close>

definition edge_host_ids :: "int \<Rightarrow> int \<Rightarrow> int \<Rightarrow> int list" where
  "edge_host_ids n hpe s = filter (\<lambda>h. firstSwitch (n * hpe) + h mod n = s) (host_ids n hpe)"

lemma incident_fst: "x \<notin> snd ` set ls \<Longrightarrow> incident x ls = map snd (filter (\<lambda>p. fst p = x) ls)"
  by (induction ls) auto

lemma incident_snd: "x \<notin> fst ` set ls \<Longrightarrow> incident x ls = map fst (filter (\<lambda>p. snd p = x) ls)"
  by (induction ls) auto

lemma product_row: "distinct as \<Longrightarrow> x \<in> set as \<Longrightarrow> map snd (filter (\<lambda>p. fst p = x) (List.product as bs)) = bs"
proof (induction as)
  case (Cons a as)
  have "filter (\<lambda>p. fst p = x) (List.product as bs) = []" if "x \<notin> set as" for as :: "'a list"
    using that by (auto simp: filter_empty_conv)
  moreover have "map snd (filter (\<lambda>p. fst p = x) (map (Pair a) bs)) = (if a = x then bs else [])"
    by (induction bs) auto
  ultimately show ?case using Cons by auto
qed simp

lemma product_column: "distinct bs \<Longrightarrow> x \<in> set bs \<Longrightarrow> map fst (filter (\<lambda>p. snd p = x) (List.product as bs)) = as"
proof (induction as)
  case (Cons a as)
  have "distinct bs \<Longrightarrow> x \<in> set bs \<Longrightarrow> map fst (filter (\<lambda>p. snd p = x) (map (Pair a) bs)) = [a]"
  proof (induction bs)
    case (Cons b bs)
    have "filter (\<lambda>p. snd p = x) (map (Pair a) bs) = []" if "x \<notin> set bs" using that by (auto simp: filter_empty_conv)
    with Cons show ?case by auto
  qed simp
  with Cons show ?case by simp
qed simp

text \<open>
  What the builder promises: the nodes, the list \<^verbatim>\<open>_links\<close> of every node equal to the nodes at its
  ports in port order, core switches joined to every edge switch, and every host on one edge switch,
  which the host's number picks.
\<close>

definition fattree_spec :: "int \<Rightarrow> int \<Rightarrow> fattree \<Rightarrow> bool" where
  "fattree_spec n hpe ft \<longleftrightarrow>
     ports_wf (ft_topo ft) \<and>
     ft_cores ft = map (nm CHR ''s'') (core_ids n hpe) \<and>
     ft_edges ft = map (nm CHR ''s'') (edge_ids n hpe) \<and>
     ft_hosts ft = map (nm CHR ''h'') (host_ids n hpe) \<and>
     ft_nodes ft = ft_cores ft @ ft_edges ft @ ft_hosts ft \<and>
     (\<forall>x \<in> set (ft_nodes ft). map_of (ft_links ft) x = Some (neighbours (ft_topo ft) x)) \<and>
     (\<forall>x \<in> set (ft_nodes ft). node_base (ft_topo ft) x = (if x \<in> set (ft_hosts ft) then 0 else 1)) \<and>
     (\<forall>c \<in> set (ft_cores ft). neighbours (ft_topo ft) c = ft_edges ft) \<and>
     (\<forall>s \<in> set (edge_ids n hpe). neighbours (ft_topo ft) (nm CHR ''s'' s)
        = ft_cores ft @ map (nm CHR ''h'') (edge_host_ids n hpe s)) \<and>
     (\<forall>h \<in> set (host_ids n hpe). neighbours (ft_topo ft) (nm CHR ''h'' h)
        = [nm CHR ''s'' (firstSwitch (n * hpe) + h mod n)])"

lemma ids_disjoint: "0 < n \<Longrightarrow> s \<in> set (core_ids n hpe) \<Longrightarrow> s \<notin> set (edge_ids n hpe)"
  by (auto simp: core_ids_def edge_ids_def)

lemma distinct_nm [simp]: "distinct (map (nm c) ss) = distinct ss"
  by (auto simp: distinct_map inj_on_def)

lemma host_edge_id: "0 < n \<Longrightarrow> firstSwitch (n * hpe) + h mod n \<in> set (edge_ids n hpe)"
  by (simp add: edge_ids_def)

text \<open>The names of the switches and hosts, and the pairs the builder joins: every core switch with every edge switch,
  and each host with its edge switch.\<close>

abbreviation core_names :: "int \<Rightarrow> int \<Rightarrow> string list" where
  "core_names n hpe \<equiv> map (nm CHR ''s'') (core_ids n hpe)"

abbreviation edge_names :: "int \<Rightarrow> int \<Rightarrow> string list" where
  "edge_names n hpe \<equiv> map (nm CHR ''s'') (edge_ids n hpe)"

abbreviation host_names :: "int \<Rightarrow> int \<Rightarrow> string list" where
  "host_names n hpe \<equiv> map (nm CHR ''h'') (host_ids n hpe)"

abbreviation host_switch :: "int \<Rightarrow> int \<Rightarrow> int \<Rightarrow> string" where
  "host_switch n hpe h \<equiv> nm CHR ''s'' (firstSwitch (n * hpe) + h mod n)"

abbreviation host_pairs :: "int \<Rightarrow> int \<Rightarrow> (string \<times> string) list" where
  "host_pairs n hpe \<equiv> map (\<lambda>h. (host_switch n hpe h, nm CHR ''h'' h)) (host_ids n hpe)"

lemma ids_distinct: "distinct (core_ids n hpe)" "distinct (edge_ids n hpe)" "distinct (host_ids n hpe)"
  by (simp_all add: core_ids_def edge_ids_def host_ids_def)

lemma core_edge_disjoint: "1 \<le> n \<Longrightarrow> set (core_names n hpe) \<inter> set (edge_names n hpe) = {}"
  using ids_disjoint [of n _ hpe] by auto

lemma core_incident:
  assumes n: "1 \<le> n" and c: "c \<in> set (core_names n hpe)"
  shows "incident c (List.product (core_names n hpe) (edge_names n hpe)) @ incident c (host_pairs n hpe) = edge_names n hpe"
proof -
  have "c \<notin> snd ` set (List.product (core_names n hpe) (edge_names n hpe))"
    using c core_edge_disjoint [OF n, of hpe] by auto
  then have "incident c (List.product (core_names n hpe) (edge_names n hpe)) = edge_names n hpe"
    using product_row [of "core_names n hpe" c "edge_names n hpe"] c ids_distinct(1) incident_fst by simp
  moreover have "firstSwitch (n * hpe) + h mod n \<notin> set (core_ids n hpe)" for h
    using host_edge_id [of n hpe h] n ids_disjoint [of n _ hpe] by auto
  then have "incident c (host_pairs n hpe) = []" using c by (auto simp: incident_def)
  ultimately show ?thesis by simp
qed

lemma edge_incident:
  assumes n: "1 \<le> n" and s: "s \<in> set (edge_ids n hpe)"
  shows "incident (nm CHR ''s'' s) (List.product (core_names n hpe) (edge_names n hpe)) @ incident (nm CHR ''s'' s) (host_pairs n hpe)
    = core_names n hpe @ map (nm CHR ''h'') (edge_host_ids n hpe s)"
proof -
  have "nm CHR ''s'' s \<notin> fst ` set (List.product (core_names n hpe) (edge_names n hpe))"
    using s core_edge_disjoint [OF n, of hpe] by auto
  then have "incident (nm CHR ''s'' s) (List.product (core_names n hpe) (edge_names n hpe)) = core_names n hpe"
    using product_column [of "edge_names n hpe" "nm CHR ''s'' s" "core_names n hpe"] s ids_distinct(2) incident_snd by simp
  moreover have "nm CHR ''s'' s \<notin> snd ` set (host_pairs n hpe)" by auto
  from incident_fst [OF this]
  have "incident (nm CHR ''s'' s) (host_pairs n hpe) = map (nm CHR ''h'') (edge_host_ids n hpe s)"
    unfolding edge_host_ids_def by (simp add: filter_map comp_def)
  ultimately show ?thesis by simp
qed

lemma host_incident:
  assumes h: "h \<in> set (host_ids n hpe)"
  shows "incident (nm CHR ''h'' h) (List.product (core_names n hpe) (edge_names n hpe)) @ incident (nm CHR ''h'' h) (host_pairs n hpe)
    = [host_switch n hpe h]"
proof -
  have "incident (nm CHR ''h'' h) (List.product (core_names n hpe) (edge_names n hpe)) = []" by (auto simp: incident_def)
  moreover have "incident (nm CHR ''h'' h) (map (\<lambda>h. (host_switch n hpe h, nm CHR ''h'' h)) hs) =
      (if h \<in> set hs then [host_switch n hpe h] else [])" if "distinct hs" for hs
    using that by (induction hs) auto
  ultimately show ?thesis using h ids_distinct(3) by simp
qed

text \<open>The first three stages: the core switches, the edge switches, the links between them.\<close>

lemma switches_built:
  assumes n: "1 \<le> n"
    and f0: "ft_ok f0" "ft_nodes f0 = []" "ft_cores f0 = []" "ft_edges f0 = []" "ft_hosts f0 = []"
      "\<And>x. neighbours (ft_topo f0) x = []"
  obtains f1 f2 f3 where "rfold add_core f0 (core_ids n hpe) = Inr f1" "rfold add_edge_sw f1 (edge_ids n hpe) = Inr f2"
    "rfold (\<lambda>ft s1. rfold (link_switches bw s1) ft (ft_edges ft)) f2 (ft_cores f2) = Inr f3"
    "ft_ok f3" "ft_nodes f3 = core_names n hpe @ edge_names n hpe"
    "ft_cores f3 = core_names n hpe" "ft_edges f3 = edge_names n hpe" "ft_hosts f3 = []"
    "\<And>x. neighbours (ft_topo f3) x = incident x (List.product (core_names n hpe) (edge_names n hpe))"
    "\<And>x. x \<in> set (core_names n hpe @ edge_names n hpe) \<Longrightarrow> node_base (ft_topo f3) x = 1"
proof -
  let ?C = "core_names n hpe" and ?E = "edge_names n hpe"
  have "\<forall>s \<in> set (core_ids n hpe). nm CHR ''s'' s \<notin> set (ft_nodes f0)" by (simp add: f0)
  from add_switches(1) [OF f0(1) ids_distinct(1) this]
  obtain f1 where f1: "rfold add_core f0 (core_ids n hpe) = Inr f1" "added f0 ?C 1 f1"
    "neighbours (ft_topo f1) = neighbours (ft_topo f0)" "ft_cores f1 = ?C" "ft_edges f1 = []" "ft_hosts f1 = []"
    using f0(3-5) by auto
  have n1: "ft_nodes f1 = ?C" and ok1: "ft_ok f1" using f1(2) f0(2) unfolding added_def by simp_all
  have "\<forall>s \<in> set (edge_ids n hpe). nm CHR ''s'' s \<notin> set (ft_nodes f1)"
    unfolding n1 using ids_disjoint [of n _ hpe] n by auto
  from add_switches(2) [OF ok1 ids_distinct(2) this]
  obtain f2 where f2: "rfold add_edge_sw f1 (edge_ids n hpe) = Inr f2" "added f1 ?E 1 f2"
    "neighbours (ft_topo f2) = neighbours (ft_topo f1)" "ft_cores f2 = ?C" "ft_edges f2 = ?E" "ft_hosts f2 = []"
    using f1(4,5,6) by auto
  have n2: "ft_nodes f2 = ?C @ ?E" and ok2: "ft_ok f2" using f2(2) n1 unfolding added_def by simp_all
  note CE = core_edge_disjoint [OF n, of hpe]
  obtain f3 where f3: "rfold (\<lambda>ft s1. rfold (link_switches bw s1) ft (ft_edges ft)) f2 (ft_cores f2) = Inr f3"
    "linked f2 (List.product ?C ?E) f3"
    using link_all_ok [OF ok2, of ?C bw] CE unfolding n2 f2(4,5) by auto
  have l3: "ft_ok f3" "ft_nodes f3 = ?C @ ?E" "ft_cores f3 = ?C" "ft_edges f3 = ?E" "ft_hosts f3 = []"
    using f3(2) n2 f2(4,5,6) unfolding linked_def same_lists_def by simp_all
  have nb: "neighbours (ft_topo f3) x = incident x (List.product ?C ?E)" for x
    using f3(2) f2(3) f1(3) f0(6) unfolding linked_def by simp
  have b1: "node_base (ft_topo f1) y = 1" if "y \<in> set ?C" for y using that f1(2) unfolding added_def by blast
  have b2: "node_base (ft_topo f2) y = 1" if "y \<in> set (?C @ ?E)" for y
    using that b1 [of y] CE f2(2) unfolding added_def by (cases "y \<in> set ?E") auto
  have "node_base (ft_topo f3) y = node_base (ft_topo f2) y" for y using f3(2) unfolding linked_def by blast
  with b2 have "node_base (ft_topo f3) y = 1" if "y \<in> set (?C @ ?E)" for y using that by simp
  from that [OF f1(1) f2(1) f3(1) l3 nb this] show ?thesis by simp
qed

lemma added_base:
  assumes "added f H v f'"
  shows "node_base (ft_topo f') y = (if y \<in> set H then v else node_base (ft_topo f) y)"
proof (cases "y \<in> set H")
  case True
  then show ?thesis using assms unfolding added_def by (simp only: if_True)
next
  case False
  then show ?thesis using assms unfolding added_def by (simp only: if_False) blast
qed

text \<open>The last stage adds the hosts, each joined to its edge switch.\<close>

lemma fattree_ok:
  assumes n: "1 \<le> n"
  shows "\<exists>ft. FattreeTopology_build n bw hpe (topo_init [] [] []) = Inr ft \<and> fattree_spec n hpe ft"
proof -
  let ?C = "core_names n hpe" and ?E = "edge_names n hpe" and ?H = "host_names n hpe"
  let ?f0 = "\<lparr>ft_topo = topo_init [] [] [], ft_cores = [], ft_edges = [], ft_hosts = [], ft_links = []\<rparr>"
  have nb0: "neighbours (ft_topo ?f0) x = []" for x
    by (simp add: neighbours_def port_map_def topo_init_def dlook_def)
  have n0: "ft_nodes ?f0 = []" by (simp add: ft_nodes_def)
  have ok0: "ft_ok ?f0" using nb0 by (simp add: ft_ok_def ft_nodes_def)
  obtain f1 f2 f3 where b: "rfold add_core ?f0 (core_ids n hpe) = Inr f1" "rfold add_edge_sw f1 (edge_ids n hpe) = Inr f2"
    "rfold (\<lambda>ft s1. rfold (link_switches bw s1) ft (ft_edges ft)) f2 (ft_cores f2) = Inr f3"
    and f3: "ft_ok f3" "ft_nodes f3 = ?C @ ?E" "ft_cores f3 = ?C" "ft_edges f3 = ?E" "ft_hosts f3 = []"
      "\<And>x. neighbours (ft_topo f3) x = incident x (List.product ?C ?E)"
      "\<And>x. x \<in> set (?C @ ?E) \<Longrightarrow> node_base (ft_topo f3) x = 1"
    using switches_built [OF n ok0 n0 _ _ _ nb0, of hpe bw] by simp blast
  have hn: "\<forall>h \<in> set (host_ids n hpe). nm CHR ''h'' h \<notin> set (ft_nodes f3)" unfolding f3 by auto
  have sn: "\<forall>h \<in> set (host_ids n hpe). host_switch n hpe h \<in> set (ft_nodes f3)"
    unfolding f3 using host_edge_id [of n hpe] n by auto
  from add_hosts_ok [OF f3(1) ids_distinct(3) hn sn, of bw]
  obtain f4 where f4: "rfold (add_host bw (firstSwitch (n * hpe)) n) f3 (host_ids n hpe) = Inr f4" "added f3 ?H 0 f4"
    "\<And>x. neighbours (ft_topo f4) x = neighbours (ft_topo f3) x @ incident x (host_pairs n hpe)"
    "ft_hosts f4 = ?H" "ft_cores f4 = ?C" "ft_edges f4 = ?E" using f3(3-5) by auto
  have build: "FattreeTopology_build n bw hpe (topo_init [] [] []) = Inr f4"
    using b f4(1)
    by (simp add: FattreeTopology_build_def Let_def py_range_def core_ids_def edge_ids_def host_ids_def)
  have ok4: "ft_ok f4" and n4: "ft_nodes f4 = ?C @ ?E @ ?H" using f4(2) f3(2) unfolding added_def by simp_all
  have base: "node_base (ft_topo f4) x = (if x \<in> set ?H then 0 else 1)" if "x \<in> set (?C @ ?E @ ?H)" for x
    using that f3(7) [of x] added_base [OF f4(2), of x] by (cases "x \<in> set ?H") auto
  have core: "neighbours (ft_topo f4) c = ?E" if "c \<in> set ?C" for c
    unfolding f4(3) f3(6) by (rule core_incident [OF n that])
  have edge: "neighbours (ft_topo f4) (nm CHR ''s'' s) = ?C @ map (nm CHR ''h'') (edge_host_ids n hpe s)"
    if "s \<in> set (edge_ids n hpe)" for s
    unfolding f4(3) f3(6) by (rule edge_incident [OF n that])
  have host: "neighbours (ft_topo f4) (nm CHR ''h'' h) = [host_switch n hpe h]" if "h \<in> set (host_ids n hpe)" for h
    unfolding f4(3) f3(6) by (rule host_incident [OF that])
  have "fattree_spec n hpe f4"
    unfolding fattree_spec_def f4(4,5,6) n4 using ok4 core edge host base unfolding ft_ok_def n4 by blast
  with build show ?thesis by blast
qed

text \<open>The builder never fails on at least one edge switch and makes the fat tree it promises: one core switch less
  than edge switches, each joined to all of them, the hosts spread over the edge switches by number,
  the ports of each node numbered without gaps in the order of \<^verbatim>\<open>_links\<close>.\<close>

theorem fattree_built:
  assumes "1 \<le> n"
  shows "\<exists>ft. FattreeTopology_build n bw hpe (topo_init [] [] []) = Inr ft \<and> fattree_spec n hpe ft"
  using fattree_ok [OF assms] .

theorem fattree_built_demo:
  "\<exists>ft. FattreeTopology_build 3 (AInt 5) 2 (topo_init [] [] []) = Inr ft \<and> fattree_spec 3 2 ft \<and>
     ft_cores ft = [''s104'', ''s105'']"
proof -
  have "map (nm CHR ''s'') (core_ids 3 2) = [''s104'', ''s105'']" by code_simp
  then show ?thesis using fattree_built [of 3 "AInt 5" 2] unfolding fattree_spec_def by auto
qed

end
