(* ===== verification/MnNet.thy ===== *)
theory MnNet
  imports MnTopo
begin

text \<open>
  Mininet's network object, \<^verbatim>\<open>ext/mininet/mininet/net.py\<close>, with what it uses of nodes (\<^verbatim>\<open>node.py\<close>) and
  interfaces (\<^verbatim>\<open>link.py\<close>): the nodes with their ports, the addresses that the network hands out, the
  datapath ids derived from the names of the switches, and the construction from a topology.
  A node is reached by its name. The commands that a node executes (\<^verbatim>\<open>ifconfig\<close>, \<^verbatim>\<open>ip link\<close>) are
  not modelled, nor are the processes; \<open>rand k\<close> is the number that the call \<open>k\<close> of
  \<^verbatim>\<open>random.randint\<close> returns.
\<close>

section \<open>Interfaces and nodes\<close>

record intf =
  if_name :: string
  if_mac :: "string option"
  if_ip :: "string option"
  if_prefix :: "string option"

record node =
  nd_name :: string
  nd_switch :: bool
  nd_dpid :: "string option"
  nd_params :: opts
  nd_intfs :: "(int, intf) dict"

definition intf_init :: "string \<Rightarrow> string option \<Rightarrow> intf" where
  "intf_init name mac = \<lparr>if_name = name, if_mac = mac,
     if_ip = (if name = ''lo'' then Some ''127.0.0.1'' else None), if_prefix = None\<rparr>"

text \<open>\<^verbatim>\<open>Intf.setIP\<close>; more than one slash cannot be unpacked.\<close>

definition intf_setIP :: "intf \<Rightarrow> string \<Rightarrow> string option \<Rightarrow> intf res" where
  "intf_setIP i ipstr prefixLen =
     (if CHR ''/'' \<in> set ipstr
      then (case split_on (CHR ''/'') ipstr of
              [a, b] \<Rightarrow> Inr (i\<lparr>if_ip := Some a, if_prefix := Some b\<rparr>)
            | _ \<Rightarrow> Inl ValueErr)
      else (case prefixLen of
              None \<Rightarrow> Inl (OtherErr (''No prefix length set for IP address '' @ ipstr))
            | Some p \<Rightarrow> Inr (i\<lparr>if_ip := Some ipstr, if_prefix := Some p\<rparr>)))"

definition portBase :: "node \<Rightarrow> int" where
  "portBase nd = (if nd_switch nd then 1 else 0)"

definition newPort :: "node \<Rightarrow> int" where
  "newPort nd = (if nd_intfs nd \<noteq> [] then Max (set (dkeys (nd_intfs nd))) + 1 else portBase nd)"

definition addIntf :: "node \<Rightarrow> intf \<Rightarrow> int option \<Rightarrow> node" where
  "addIntf nd i port =
     (let port = (case port of Some p \<Rightarrow> p | None \<Rightarrow> newPort nd) in nd\<lparr>nd_intfs := dput (nd_intfs nd) port i\<rparr>)"

text \<open>\<^verbatim>\<open>Node.defaultIntf\<close>: the interface with the lowest port, or nothing.\<close>

definition defaultIntf :: "node \<Rightarrow> (int \<times> intf) option" where
  "defaultIntf nd = (if nd_intfs nd = [] then None
     else (let p = Min (set (dkeys (nd_intfs nd))) in map_option (Pair p) (map_of (nd_intfs nd) p)))"

definition node_IP :: "node \<Rightarrow> string option res" where
  "node_IP nd = (case defaultIntf nd of None \<Rightarrow> Inl AttributeErr | Some (_, i) \<Rightarrow> Inr (if_ip i))"

definition node_MAC :: "node \<Rightarrow> string option res" where
  "node_MAC nd = (case defaultIntf nd of None \<Rightarrow> Inl AttributeErr | Some (_, i) \<Rightarrow> Inr (if_mac i))"

definition node_setIP :: "node \<Rightarrow> string \<Rightarrow> node res" where
  "node_setIP nd ip =
     (let ip = (if CHR ''/'' \<in> set ip then ip else ip @ ''/8'') in
      case defaultIntf nd of None \<Rightarrow> Inl AttributeErr
      | Some (p, i) \<Rightarrow> rbind (intf_setIP i ip None) (\<lambda>i. Inr (nd\<lparr>nd_intfs := dput (nd_intfs nd) p i\<rparr>)))"

definition node_setMAC :: "node \<Rightarrow> string \<Rightarrow> node res" where
  "node_setMAC nd mac =
     (case defaultIntf nd of None \<Rightarrow> Inl AttributeErr
      | Some (p, i) \<Rightarrow> Inr (nd\<lparr>nd_intfs := dput (nd_intfs nd) p (i\<lparr>if_mac := Some mac\<rparr>)\<rparr>))"

text \<open>\<^verbatim>\<open>Node.config\<close>: a parameter that is given and is not \<^verbatim>\<open>None\<close> is set, the MAC address first.\<close>

definition str_param :: "opts \<Rightarrow> string \<Rightarrow> string option" where
  "str_param params k = (case map_of params k of Some (AStr s) \<Rightarrow> Some s | _ \<Rightarrow> None)"

definition node_config :: "node \<Rightarrow> string option \<Rightarrow> string option \<Rightarrow> node res" where
  "node_config nd mac ip =
     rbind (case mac of None \<Rightarrow> Inr nd | Some m \<Rightarrow> node_setMAC nd m) (\<lambda>nd.
     case ip of None \<Rightarrow> Inr nd | Some a \<Rightarrow> node_setIP nd a)"

text \<open>\<^verbatim>\<open>host.configDefault()\<close> as \<^verbatim>\<open>configHosts\<close> calls it.\<close>

definition configHost :: "node \<Rightarrow> node res" where
  "configHost nd =
     (case defaultIntf nd of
        None \<Rightarrow> node_config (nd\<lparr>nd_params := ddel (ddel (nd_params nd) ''ip'') ''mac''\<rparr>) None None
      | Some _ \<Rightarrow> node_config nd (str_param (nd_params nd) ''mac'') (str_param (nd_params nd) ''ip''))"

section \<open>Datapath ids\<close>

text \<open>\<^verbatim>\<open>hex(n)[2:]\<close>: a long integer has an \<^verbatim>\<open>L\<close> at the end.\<close>

definition py_hex :: "nat \<Rightarrow> string" where
  "py_hex n = hex_of_nat n @ (if 2 ^ 63 \<le> int n then ''L'' else [])"

definition dpidLen :: nat where "dpidLen = 16"

definition defaultDpid :: "string \<Rightarrow> string option \<Rightarrow> string res" where
  "defaultDpid name dpid =
     rbind (if dpid \<noteq> None \<and> dpid \<noteq> Some []
       then (let d = filter (\<lambda>c. c \<noteq> CHR '':'') (the dpid) in
         if length d \<le> dpidLen
         then rbind (py_int16 d) (\<lambda>n. if 0 \<le> n then Inr d else Inl AssertErr)
         else Inl AssertErr)
       else (case find_digits name of
            [] \<Rightarrow> Inl (OtherErr ''Unable to derive default datapath ID'')
          | num # _ \<Rightarrow> Inr (py_hex (nat_of_str num)))) (\<lambda>d.
     Inr (replicate (dpidLen - length d) (CHR ''0'') @ d))"

section \<open>The network\<close>

record net =
  nt_hosts :: "string list"
  nt_switches :: "string list"
  nt_nodes :: "(string, node) dict"
  nt_links :: "((string \<times> int) \<times> (string \<times> int)) list"
  nt_nextIP :: int
  nt_ipBaseNum :: int
  nt_prefixLen :: int
  nt_autoSetMacs :: bool
  nt_inNamespace :: bool
  nt_listenPort :: "int option"
  nt_draws :: nat

definition net_init :: "string \<Rightarrow> bool \<Rightarrow> int option \<Rightarrow> net res" where
  "net_init ipBase autoSetMacs listenPort =
     rbind (netParse ipBase) (\<lambda>(ipBaseNum, prefixLen).
     Inr \<lparr>nt_hosts = [], nt_switches = [], nt_nodes = [], nt_links = [], nt_nextIP = 1,
       nt_ipBaseNum = ipBaseNum, nt_prefixLen = prefixLen, nt_autoSetMacs = autoSetMacs,
       nt_inNamespace = False, nt_listenPort = listenPort, nt_draws = 0\<rparr>)"

text \<open>\<^verbatim>\<open>Mininet.addHost\<close>; pinning to CPUs (\<^verbatim>\<open>autoPinCpus\<close>) is off.\<close>

definition net_addHost :: "net \<Rightarrow> string \<Rightarrow> opts \<Rightarrow> net res" where
  "net_addHost net name params =
     rbind (ipAdd (nt_nextIP net) (nt_prefixLen net) (nt_ipBaseNum net)) (\<lambda>ip.
     let defaults = [(''ip'', AStr (ip @ ''/'' @ str_of_int (nt_prefixLen net)))];
         defaults = (if nt_autoSetMacs net then dput defaults ''mac'' (AStr (macColonHex (nt_nextIP net))) else defaults);
         defaults = dict_update defaults params;
         h = \<lparr>nd_name = name, nd_switch = False, nd_dpid = None, nd_params = defaults, nd_intfs = []\<rparr>
     in Inr (net\<lparr>nt_nextIP := nt_nextIP net + 1, nt_hosts := nt_hosts net @ [name],
                nt_nodes := dput (nt_nodes net) name h\<rparr>))"

text \<open>\<^verbatim>\<open>Mininet.addSwitch\<close>; a switch outside a namespace has the loopback interface at port 0.\<close>

definition net_addSwitch :: "net \<Rightarrow> string \<Rightarrow> opts \<Rightarrow> net res" where
  "net_addSwitch net name params =
     rbind (defaultDpid name (str_param params ''dpid'')) (\<lambda>dpid.
     let intfs = (if nt_inNamespace net then [] else [(0, intf_init ''lo'' None)]);
         sw = \<lparr>nd_name = name, nd_switch = True, nd_dpid = Some dpid, nd_params = params, nd_intfs = intfs\<rparr>;
         listenPort = (case nt_listenPort net of
           Some p \<Rightarrow> if \<not> nt_inNamespace net \<and> p \<noteq> 0 then Some (p + 1) else Some p | None \<Rightarrow> None)
     in Inr (net\<lparr>nt_listenPort := listenPort, nt_switches := nt_switches net @ [name],
                nt_nodes := dput (nt_nodes net) name sw\<rparr>))"

definition intfName :: "node \<Rightarrow> int \<Rightarrow> string" where
  "intfName nd n = nd_name nd @ ''-eth'' @ str_of_int n"

definition put_intf :: "net \<Rightarrow> string \<Rightarrow> int \<Rightarrow> string \<Rightarrow> net res" where
  "put_intf net n port mac =
     rbind (dget (nt_nodes net) n) (\<lambda>nd.
     Inr (net\<lparr>nt_nodes := dput (nt_nodes net) n (addIntf nd (intf_init (intfName nd port) (Some mac)) (Some port))\<rparr>))"

text \<open>
  \<^verbatim>\<open>Mininet.addLink\<close> with the constructor of \<^verbatim>\<open>Link\<close>: the two addresses are drawn whether they are needed
  or not, a port that is not given is the node's next one.
\<close>

definition net_addLink :: "(nat \<Rightarrow> int) \<Rightarrow> net \<Rightarrow> string \<Rightarrow> string \<Rightarrow> int option \<Rightarrow> int option
    \<Rightarrow> string option \<Rightarrow> string option \<Rightarrow> net res" where
  "net_addLink rand net node1 node2 port1 port2 addr1 addr2 =
     rbind (dget (nt_nodes net) node1) (\<lambda>nd1.
     rbind (dget (nt_nodes net) node2) (\<lambda>nd2.
     let r1 = randMac (rand (nt_draws net)); r2 = randMac (rand (nt_draws net + 1));
         a1 = (case addr1 of Some a \<Rightarrow> a | None \<Rightarrow> r1); a2 = (case addr2 of Some a \<Rightarrow> a | None \<Rightarrow> r2);
         p1 = (case port1 of Some p \<Rightarrow> p | None \<Rightarrow> newPort nd1);
         p2 = (case port2 of Some p \<Rightarrow> p | None \<Rightarrow> newPort nd2);
         net = net\<lparr>nt_draws := nt_draws net + 2\<rparr> in
     rbind (put_intf net node1 p1 a1) (\<lambda>net.
     rbind (put_intf net node2 p2 a2) (\<lambda>net.
     Inr (net\<lparr>nt_links := nt_links net @ [((node1, p1), (node2, p2))]\<rparr>)))))"

definition int_param :: "opts \<Rightarrow> string \<Rightarrow> int option" where
  "int_param params k = (case map_of params k of Some (AInt i) \<Rightarrow> Some i | _ \<Rightarrow> None)"

definition link_from_info :: "(nat \<Rightarrow> int) \<Rightarrow> net \<Rightarrow> opts \<Rightarrow> net res" where
  "link_from_info rand net params =
     (case (str_param params ''node1'', str_param params ''node2'') of
        (Some n1, Some n2) \<Rightarrow> net_addLink rand net n1 n2 (int_param params ''port1'') (int_param params ''port2'')
           (str_param params ''addr1'') (str_param params ''addr2'')
      | _ \<Rightarrow> Inl TypeErr)"

definition buildFromTopo :: "(string list \<Rightarrow> string list) \<Rightarrow> (pyatom list \<Rightarrow> pyatom list) \<Rightarrow> (nat \<Rightarrow> int)
    \<Rightarrow> net \<Rightarrow> topo \<Rightarrow> net res" where
  "buildFromTopo ko kk rand net tp =
     rbind (topo_hosts ko tp True) (\<lambda>hosts.
     rbind (rfold (\<lambda>net n. rbind (nodeInfo tp n) (\<lambda>info. net_addHost net n info)) net hosts) (\<lambda>net.
     rbind (topo_switches ko tp True) (\<lambda>switches.
     rbind (rfold (\<lambda>net n. rbind (nodeInfo tp n) (\<lambda>info. net_addSwitch net n info)) net switches) (\<lambda>net.
     rbind (topo_links ko kk True False True tp) (\<lambda>links.
     rfold (\<lambda>net (_, _, _, info). link_from_info rand net (case info of Some i \<Rightarrow> i | None \<Rightarrow> [])) net links)))))"

definition configHosts :: "net \<Rightarrow> net res" where
  "configHosts net = rfold (\<lambda>net n. rbind (dget (nt_nodes net) n) (\<lambda>nd. rbind (configHost nd) (\<lambda>nd.
     Inr (net\<lparr>nt_nodes := dput (nt_nodes net) n nd\<rparr>)))) net (nt_hosts net)"

definition net_build :: "(string list \<Rightarrow> string list) \<Rightarrow> (pyatom list \<Rightarrow> pyatom list) \<Rightarrow> (nat \<Rightarrow> int)
    \<Rightarrow> net \<Rightarrow> topo \<Rightarrow> net res" where
  "net_build ko kk rand net tp = rbind (buildFromTopo ko kk rand net tp) configHosts"

section \<open>Datapath ids and addresses\<close>

lemma find_digits_name: "\<not> is_digit c \<Longrightarrow> find_digits (c # str_of_nat n) = [str_of_nat n]"
  by (simp add: find_digits_def re_split_digits_name)

lemma length_hex_of_nat: "n < 16 ^ k \<Longrightarrow> 0 < k \<Longrightarrow> length (hex_of_nat n) \<le> k"
proof (induction n arbitrary: k rule: hex_of_nat.induct)
  case (1 n)
  show ?case
  proof (cases "n < 16")
    case True
    then show ?thesis using 1(3) by (subst hex_of_nat.simps) simp
  next
    case False
    obtain k' where k: "k = Suc k'" using 1(3) by (cases k) auto
    with False 1(2) have "0 < k'" by (cases k') auto
    from k have "n div 16 < 16 ^ k'" using 1(2) by (simp add: less_mult_imp_div_less mult.commute)
    with 1(1) [OF False] k False \<open>0 < k'\<close> show ?thesis by (subst hex_of_nat.simps) simp
  qed
qed

lemma dpid_of_name:
  assumes "\<not> is_digit c" and "n < 2 ^ 63"
  shows "defaultDpid (c # str_of_nat n) None = Inr (replicate (16 - length (hex_of_nat n)) (CHR ''0'') @ hex_of_nat n)"
    and "length (replicate (16 - length (hex_of_nat n)) (CHR ''0'') @ hex_of_nat n) = 16"
    and "py_int16 (replicate (16 - length (hex_of_nat n)) (CHR ''0'') @ hex_of_nat n) = Inr (int n)"
proof -
  have "\<not> (2::int) ^ 63 \<le> int n"
    using assms(2) by (metis not_le of_nat_less_iff of_nat_numeral of_nat_power)
  then show "defaultDpid (c # str_of_nat n) None = Inr (replicate (16 - length (hex_of_nat n)) (CHR ''0'') @ hex_of_nat n)"
    unfolding defaultDpid_def find_digits_name [OF assms(1)] py_hex_def by (simp add: dpidLen_def)
  have "n < 16 ^ 16" using assms(2) by simp
  then have "length (hex_of_nat n) \<le> 16" by (rule length_hex_of_nat) simp
  then show "length (replicate (16 - length (hex_of_nat n)) (CHR ''0'') @ hex_of_nat n) = 16" by simp
  show "py_int16 (replicate (16 - length (hex_of_nat n)) (CHR ''0'') @ hex_of_nat n) = Inr (int n)"
    by (simp add: py_int16_zeros)
qed

text \<open>The datapath id that a switch derives from its name has sixteen digits and reads back as the number in
  the name.\<close>

theorem dpid_roundtrip:
  assumes "\<not> is_digit c" and "n < 2 ^ 63"
  shows "\<exists>d. defaultDpid (c # str_of_nat n) None = Inr d \<and> length d = 16 \<and> py_int16 d = Inr (int n)"
  using dpid_of_name [OF assms] by blast

theorem dpid_roundtrip_demo:
  "\<exists>d. defaultDpid (CHR ''s'' # str_of_nat 101) None = Inr d \<and> length d = 16 \<and> py_int16 d = Inr 101"
  using dpid_roundtrip [of "CHR ''s''" 101] by (simp add: is_digit_def)

text \<open>The first host address of the default network, 10.0.0.0/8, is number 1.\<close>

definition default_net :: net where
  "default_net = \<lparr>nt_hosts = [], nt_switches = [], nt_nodes = [], nt_links = [], nt_nextIP = 1,
     nt_ipBaseNum = 0x0a000000, nt_prefixLen = 8, nt_autoSetMacs = False,
     nt_inNamespace = False, nt_listenPort = None, nt_draws = 0\<rparr>"

lemma default_net_init: "net_init ''10.0.0.0/8'' False None = Inr default_net"
  by code_simp

lemma ipAdd_default: "0 \<le> i \<Longrightarrow> i < 2 ^ 24 \<Longrightarrow> ipAdd i 8 0x0a000000 = Inr (ipStr (0x0a000000 + i))"
proof -
  assume i: "0 \<le> i" "i < 2 ^ 24"
  have "(drop_bit (nat 8) 0xffffffff :: int) = 0xffffff" by code_simp
  moreover have "(0x0a000000 AND (0xffffffff XOR 0xffffff) :: int) = 0x0a000000" by code_simp
  ultimately show ?thesis using i by (simp only: ipAdd_def Let_def) simp
qed

definition host_node :: "int \<Rightarrow> string \<Rightarrow> node" where
  "host_node i name = \<lparr>nd_name = name, nd_switch = False, nd_dpid = None,
     nd_params = [(''ip'', AStr (ipStr (0x0a000000 + i) @ ''/8''))], nd_intfs = []\<rparr>"

lemma net_addHost_default:
  assumes "nt_prefixLen net = 8" "nt_ipBaseNum net = 0x0a000000" "\<not> nt_autoSetMacs net"
    and "0 \<le> nt_nextIP net" "nt_nextIP net < 2 ^ 24"
  shows "net_addHost net name [] = Inr (net\<lparr>nt_nextIP := nt_nextIP net + 1, nt_hosts := nt_hosts net @ [name],
     nt_nodes := dput (nt_nodes net) name (host_node (nt_nextIP net) name)\<rparr>)"
proof -
  have "str_of_int 8 = ''8''" by code_simp
  then show ?thesis using assms by (simp add: net_addHost_def ipAdd_default Let_def dict_update_def host_node_def)
qed

lemma add_hosts_default:
  assumes "nt_prefixLen net = 8" "nt_ipBaseNum net = 0x0a000000" "\<not> nt_autoSetMacs net"
    and "0 \<le> nt_nextIP net" "nt_nextIP net + int (length names) \<le> 2 ^ 24" and "distinct names"
  shows "\<exists>net'. rfold (\<lambda>net n. net_addHost net n []) net names = Inr net' \<and> nt_hosts net' = nt_hosts net @ names \<and>
     (\<forall>k < length names. map_of (nt_nodes net') (names ! k) = Some (host_node (nt_nextIP net + int k) (names ! k))) \<and>
     (\<forall>n. n \<notin> set names \<longrightarrow> map_of (nt_nodes net') n = map_of (nt_nodes net) n)"
  using assms
proof (induction names arbitrary: net)
  case (Cons n names)
  let ?net = "net\<lparr>nt_nextIP := nt_nextIP net + 1, nt_hosts := nt_hosts net @ [n],
     nt_nodes := dput (nt_nodes net) n (host_node (nt_nextIP net) n)\<rparr>"
  have step: "net_addHost net n [] = Inr ?net" using Cons.prems by (intro net_addHost_default) auto
  have "\<exists>net'. rfold (\<lambda>net n. net_addHost net n []) ?net names = Inr net' \<and> nt_hosts net' = nt_hosts ?net @ names \<and>
     (\<forall>k < length names. map_of (nt_nodes net') (names ! k) = Some (host_node (nt_nextIP ?net + int k) (names ! k))) \<and>
     (\<forall>n. n \<notin> set names \<longrightarrow> map_of (nt_nodes net') n = map_of (nt_nodes ?net) n)"
    by (rule Cons.IH) (use Cons.prems in auto)
  then obtain net' where N: "rfold (\<lambda>net n. net_addHost net n []) ?net names = Inr net'" "nt_hosts net' = nt_hosts ?net @ names"
    "\<forall>k < length names. map_of (nt_nodes net') (names ! k) = Some (host_node (nt_nextIP ?net + int k) (names ! k))"
    "\<forall>m. m \<notin> set names \<longrightarrow> map_of (nt_nodes net') m = map_of (nt_nodes ?net) m" by blast
  have "n \<notin> set names" using Cons.prems(6) by simp
  then have "map_of (nt_nodes net') n = Some (host_node (nt_nextIP net) n)" using N(4) by simp
  then have "\<forall>k < length (n # names). map_of (nt_nodes net') ((n # names) ! k) = Some (host_node (nt_nextIP net + int k) ((n # names) ! k))"
    using N(3) by (auto simp: less_Suc_eq_0_disj add.assoc)
  then show ?case using step N by (intro exI [of _ net']) simp
qed simp

lemma configHost_ip:
  assumes "0 \<le> i" "i < 2 ^ 24" and "nd_params nd = nd_params (host_node i name)" and "nd_intfs nd \<noteq> []"
  shows "\<exists>nd'. configHost nd = Inr nd' \<and> node_IP nd' = Inr (Some (ipStr (0x0a000000 + i))) \<and> node_MAC nd' = node_MAC nd \<and>
     nd_name nd' = nd_name nd"
proof -
  let ?p = "Min (set (dkeys (nd_intfs nd)))"
  let ?ip = "ipStr (0x0a000000 + i)"
  have "?p \<in> set (dkeys (nd_intfs nd))" using assms(4) by (intro Min_in) auto
  then obtain f where f: "map_of (nd_intfs nd) ?p = Some f" by (rule key_lookup)
  have d: "defaultIntf nd = Some (?p, f)" using f assms(4) by (simp add: defaultIntf_def Let_def)
  have noslash: "CHR ''/'' \<notin> set ?ip"
  proof -
    have "CHR ''/'' \<notin> set (str_of_int (x AND 0xff))" for x
      by (simp add: str_of_int_def byte_mask not_less str_of_nat_not_in is_digit_def)
    then show ?thesis by (simp add: ipStr_def Let_def)
  qed
  have split: "split_on (CHR ''/'') (?ip @ ''/8'') = [?ip, ''8'']"
    using split_on_append_sep [OF noslash, of "''8''"] by simp
  let ?f = "f\<lparr>if_ip := Some ?ip, if_prefix := Some ''8''\<rparr>"
  let ?nd = "nd\<lparr>nd_intfs := dput (nd_intfs nd) ?p ?f\<rparr>"
  have c: "configHost nd = Inr ?nd"
    using assms(3) by (simp add: configHost_def d host_node_def str_param_def node_config_def node_setIP_def Let_def
      intf_setIP_def split)
  have "dkeys (dput (nd_intfs nd) ?p ?f) = dkeys (nd_intfs nd)" by (rule dkeys_dput_present) fact
  moreover from this have "dput (nd_intfs nd) ?p ?f \<noteq> []" using assms(4) by (metis map_is_Nil_conv)
  ultimately have "defaultIntf ?nd = Some (?p, ?f)" by (simp add: defaultIntf_def Let_def del: set_map)
  then show ?thesis using c d by (simp add: node_IP_def node_MAC_def)
qed

text \<open>The hosts of a network get the consecutive addresses of 10.0.0.0/8 from 10.0.0.1 on, in the order in which they
  are added; once a host has an interface, configuring it gives that address to the interface and
  leaves the MAC address alone.\<close>

theorem host_addresses:
  assumes "distinct names" and "length names < 2 ^ 24" and "k < length names"
  shows "\<exists>net nd. rfold (\<lambda>net n. net_addHost net n []) default_net names = Inr net \<and> nt_hosts net = names \<and>
    map_of (nt_nodes net) (names ! k) = Some nd \<and>
    (\<forall>port f. \<exists>nd'. configHost (addIntf nd f (Some port)) = Inr nd' \<and>
       node_IP nd' = Inr (Some (ipStr (0x0a000001 + int k))) \<and> node_MAC nd' = Inr (if_mac f))"
proof -
  have len: "1 + int (length names) \<le> 2 ^ 24" using assms(2) by simp
  have "\<exists>net'. rfold (\<lambda>net n. net_addHost net n []) default_net names = Inr net' \<and> nt_hosts net' = nt_hosts default_net @ names \<and>
     (\<forall>k < length names. map_of (nt_nodes net') (names ! k) = Some (host_node (nt_nextIP default_net + int k) (names ! k))) \<and>
     (\<forall>n. n \<notin> set names \<longrightarrow> map_of (nt_nodes net') n = map_of (nt_nodes default_net) n)"
    by (rule add_hosts_default) (use assms(1) len in \<open>simp_all add: default_net_def\<close>)
  then obtain net where net: "rfold (\<lambda>net n. net_addHost net n []) default_net names = Inr net" "nt_hosts net = names"
    "map_of (nt_nodes net) (names ! k) = Some (host_node (1 + int k) (names ! k))"
    using assms(3) by (auto simp: default_net_def)
  let ?nd = "host_node (1 + int k) (names ! k)"
  have "\<exists>nd'. configHost (addIntf ?nd f (Some port)) = Inr nd' \<and>
       node_IP nd' = Inr (Some (ipStr (0x0a000001 + int k))) \<and> node_MAC nd' = Inr (if_mac f)" for port f
  proof -
    let ?n = "addIntf ?nd f (Some port)"
    have i: "nd_intfs ?n = [(port, f)]" "nd_params ?n = nd_params (host_node (1 + int k) (names ! k))"
      by (simp_all add: addIntf_def host_node_def)
    have "node_MAC ?n = Inr (if_mac f)" by (simp add: node_MAC_def defaultIntf_def i Let_def)
    moreover have "0 \<le> 1 + int k" "1 + int k < 2 ^ 24" using assms(3) len by auto
    ultimately show ?thesis using configHost_ip [OF _ _ i(2)] i(1) by force
  qed
  with net show ?thesis by blast
qed

theorem host_addresses_demo:
  "\<exists>net nd. rfold (\<lambda>net n. net_addHost net n []) default_net [''h1'', ''h2''] = Inr net \<and> nt_hosts net = [''h1'', ''h2''] \<and>
    map_of (nt_nodes net) ''h2'' = Some nd \<and>
    (\<forall>port f. \<exists>nd'. configHost (addIntf nd f (Some port)) = Inr nd' \<and>
       node_IP nd' = Inr (Some ''10.0.0.2'') \<and> node_MAC nd' = Inr (if_mac f))"
proof -
  have "ipStr (0x0a000001 + int 1) = ''10.0.0.2''" by code_simp
  then show ?thesis using host_addresses [of "[''h1'', ''h2'']" 1] by simp
qed

end
