(* ===== verification/Dc.thy ===== *)
theory Dc
  imports Profiles Fattree MnNet Stats
begin

text \<open>
  The datacenter, \<^verbatim>\<open>minidc/dc.py\<close>: tenants get VLANs and hosts, the dashboard gets the tables of
  tenants and roles, and the configuration file of the controller is written. A tenant is kept in the
  list of the datacenter; \<open>ko\<close> is the iteration order of a profile's clients.
\<close>

section \<open>Tenants and VLANs\<close>

record dc =
  dc_numEdgeSwitches :: int
  dc_vlans :: int
  dc_tenants :: "profile list"
  dc_vlanMap :: "(string, int) dict"

definition dc_init :: "int \<Rightarrow> dc" where
  "dc_init numEdgeSwitches = \<lparr>dc_numEdgeSwitches = numEdgeSwitches, dc_vlans = 0, dc_tenants = [], dc_vlanMap = []\<rparr>"

text \<open>A number for a host with a role, and the string of all VLANs for the others.\<close>

definition getVlan :: "dc \<Rightarrow> string \<Rightarrow> pyatom" where
  "getVlan d hostname =
     (case map_of (dc_vlanMap d) hostname of
        Some v \<Rightarrow> PInt v
      | None \<Rightarrow> PStr (py_join '':'' (map str_of_int (py_range 0 (dc_vlans d)))))"

definition assign :: "(string list \<Rightarrow> string list) \<Rightarrow> string \<Rightarrow> string \<Rightarrow> vhost list \<Rightarrow> profile \<Rightarrow> nat list
    \<Rightarrow> (string, int) dict \<Rightarrow> (profile \<times> (string, int) dict) res" where
  "assign ko webdir resdir hosts tenant indices vlanMap =
     rbind (rmap (py_nth hosts) indices) (\<lambda>h.
     rbind (create ko webdir resdir tenant h) (\<lambda>tenant.
     Inr (tenant, foldl (\<lambda>m i. dput m (vh_name i) (pf_vlan tenant)) vlanMap h)))"

definition add_tenant :: "dc \<Rightarrow> profile \<Rightarrow> dc" where
  "add_tenant d t = d\<lparr>dc_tenants := dc_tenants d @ [assignVlan t (dc_vlans d)], dc_vlans := dc_vlans d + 1\<rparr>"

definition assign_tenant :: "(string list \<Rightarrow> string list) \<Rightarrow> string \<Rightarrow> string \<Rightarrow> vhost list \<Rightarrow> nat list
    \<Rightarrow> profile list \<times> (string, int) dict \<times> int \<Rightarrow> profile \<Rightarrow> (profile list \<times> (string, int) dict \<times> int) res" where
  "assign_tenant ko webdir resdir hosts p s t =
     (case s of (ts, vlanMap, index) \<Rightarrow>
        rbind (assign ko webdir resdir hosts t (py_slice p index (index + pf_numNodes t)) vlanMap) (\<lambda>(t', vlanMap).
        Inr (ts @ [t'], vlanMap, index + pf_numNodes t')))"

definition dc_setup :: "(string list \<Rightarrow> string list) \<Rightarrow> string \<Rightarrow> string \<Rightarrow> string \<Rightarrow> dc \<Rightarrow> vhost list \<Rightarrow> profile list \<Rightarrow> dc res" where
  "dc_setup ko webdir resdir placement d hosts tenants =
     (let d = foldl add_tenant d tenants in
      rbind (getPlacement placement (length hosts)) (\<lambda>p.
      rbind (rfold (assign_tenant ko webdir resdir hosts p) ([], dc_vlanMap d, 0) (dc_tenants d)) (\<lambda>(ts, vlanMap, _).
      Inr (d\<lparr>dc_tenants := ts, dc_vlanMap := vlanMap\<rparr>))))"

section \<open>The tables of the dashboard\<close>

definition app_role :: "profile \<Rightarrow> app \<Rightarrow> role res" where
  "app_role t a = (case a of App r \<Rightarrow> Inr r | ClientApp n \<Rightarrow> dget (pf_clients t) n)"

definition logAssignments :: "profile list \<Rightarrow> 'f csv \<times> 'f csv \<Rightarrow> ('f csv \<times> 'f csv) res" where
  "logAssignments tenants s =
     rfold (\<lambda>(tenantInfo, roleInfo) t.
       let tenantInfo = csv_add tenantInfo [CInt (pf_vlan t), CStr (profile_str (pf_kind t)), CInt (int (length (pf_apps t)))] in
       rbind (rfold (\<lambda>roleInfo h. rbind (app_role t h) (\<lambda>r.
           Inr (csv_add roleInfo [CStr (vh_name (rl_host r)), CInt (pf_vlan t), CStr (role_str (rl_data r))])))
         roleInfo (pf_apps t)) (\<lambda>roleInfo.
       Inr (tenantInfo, roleInfo))) s tenants"

section \<open>The configuration file\<close>

fun atom_text :: "pyatom \<Rightarrow> string" where
  "atom_text (PInt i) = str_of_int i"
| "atom_text (PStr s) = s"

definition opt_text :: "string option \<Rightarrow> string" where
  "opt_text s = (case s of Some x \<Rightarrow> x | None \<Rightarrow> ''None'')"

definition core_vlans :: "int \<Rightarrow> int \<Rightarrow> int \<Rightarrow> int list" where
  "core_vlans vlans numCores coreNum = filter (\<lambda>vid. vid mod numCores = coreNum) (py_range 0 vlans)"

text \<open>A node without a datapath id, or one that is not a number, stops the loop.\<close>

definition node_dpid :: "node \<Rightarrow> int res" where
  "node_dpid nd = (case nd_dpid nd of None \<Rightarrow> Inl AttributeErr | Some d \<Rightarrow> py_int16 d)"

definition core_line :: "net \<Rightarrow> dc \<Rightarrow> string list \<Rightarrow> int \<Rightarrow> string \<Rightarrow> string res" where
  "core_line net d cores coreNum c =
     rbind (dget (nt_nodes net) c) (\<lambda>nd. rbind (node_dpid nd) (\<lambda>dpid.
     Inr (nd_name nd @ '' '' @ str_of_int dpid @ '' ''
          @ py_join '':'' (map str_of_int (core_vlans (dc_vlans d) (int (length cores)) coreNum)) @ [CHR 0x0A])))"

definition host_field :: "net \<Rightarrow> dc \<Rightarrow> string \<Rightarrow> string res" where
  "host_field net d x =
     rbind (dget (nt_nodes net) x) (\<lambda>nd. rbind (node_IP nd) (\<lambda>ip. rbind (node_MAC nd) (\<lambda>mac.
     Inr (nd_name nd @ '','' @ opt_text ip @ '','' @ opt_text mac @ '','' @ atom_text (getVlan d (nd_name nd))))))"

definition edge_line :: "net \<Rightarrow> dc \<Rightarrow> fattree \<Rightarrow> string \<Rightarrow> string res" where
  "edge_line net d ft e =
     rbind (dget (ft_links ft) e) (\<lambda>links.
     rbind (rfilter (\<lambda>x. rbind (isSwitch (ft_topo ft) x) (\<lambda>b. Inr (\<not> b))) links) (\<lambda>adjacent.
     rbind (rmap (host_field net d) adjacent) (\<lambda>l.
     rbind (dget (nt_nodes net) e) (\<lambda>nd. rbind (node_dpid nd) (\<lambda>dpid.
     Inr (nd_name nd @ '' '' @ str_of_int dpid @ '' '' @ py_join '' '' l @ [CHR 0x0A]))))))"

definition writeConfig :: "net \<Rightarrow> fattree \<Rightarrow> dc \<Rightarrow> string res" where
  "writeConfig net ft d =
     rbind (rmap (\<lambda>(coreNum, c). core_line net d (ft_cores ft) (int coreNum) c) (enumerate 0 (ft_cores ft))) (\<lambda>cores.
     rbind (rmap (edge_line net d ft) (ft_edges ft)) (\<lambda>edges.
     Inr (concat cores @ ''*'' @ [CHR 0x0A] @ concat edges @ ''*'' @ [CHR 0x0A]
          @ concat (map (\<lambda>e. e @ [CHR 0x0A]) (ft_hosts ft)))))"

section \<open>Who gets which VLAN\<close>

text \<open>What a profile needs of its number of nodes.\<close>

definition profile_ok :: "profile \<Rightarrow> bool" where
  "profile_ok p \<longleftrightarrow> (case pf_kind p of
     RepMemcacheProfile ns nc _ _ \<Rightarrow> 0 \<le> ns \<and> 0 \<le> nc \<and> pf_numNodes p = ns + nc
   | MemcacheProfile _ \<Rightarrow> 2 \<le> pf_numNodes p
   | VidstreamProfile \<Rightarrow> 1 \<le> pf_numNodes p
   | _ \<Rightarrow> 0 \<le> pf_numNodes p)"

lemma nodes_at_ok: "k + nat n \<le> length hosts \<Longrightarrow> \<exists>hs. nodes_at hosts k n = Inr hs"
proof -
  assume k: "k + nat n \<le> length hosts"
  have "rmap (\<lambda>i. py_nth hosts (i + k)) [0..<nat n] = Inr (map (\<lambda>i. hosts ! (i + k)) [0..<nat n])"
    by (rule rmap_Inr) (use k in \<open>auto simp: py_nth_def\<close>)
  then show ?thesis by (simp add: nodes_at_def)
qed

lemma create_ok:
  assumes "profile_ok p" and "int (length hosts) = pf_numNodes p"
  shows "\<exists>p'. create ko webdir resdir p hosts = Inr p' \<and> pf_vlan p' = pf_vlan p \<and> pf_numNodes p' = pf_numNodes p \<and>
    pf_kind p' = pf_kind p \<and> pf_nodes p' = pf_nodes p @ hosts"
proof (cases "pf_kind p")
  case (RepMemcacheProfile ns nc tr ar)
  then have n: "0 \<le> ns" "0 \<le> nc" "int (length hosts) = ns + nc" using assms by (simp_all add: profile_ok_def)
  have le: "0 + nat ns \<le> length hosts" "nat ns + nat nc \<le> length hosts" using n by arith+
  obtain sh where "nodes_at hosts 0 ns = Inr sh" using nodes_at_ok [OF le(1)] by blast
  moreover obtain ch where "nodes_at hosts (nat ns) nc = Inr ch" using nodes_at_ok [OF le(2)] by blast
  ultimately show ?thesis using RepMemcacheProfile by (simp add: create_def create_rep_def Let_def)
next
  case (MemcacheProfile tr)
  then have n: "2 \<le> length hosts" "2 + nat (pf_numNodes p - 2) \<le> length hosts" using assms by (simp_all add: profile_ok_def)
  obtain ch where "nodes_at hosts 2 (pf_numNodes p - 2) = Inr ch" using nodes_at_ok [OF n(2)] by blast
  moreover have "py_nth hosts 0 = Inr (hosts ! 0)" "py_nth hosts 1 = Inr (hosts ! 1)" using n(1) by (auto simp: py_nth_def)
  ultimately show ?thesis using MemcacheProfile by (simp add: create_def create_memcache_def Let_def)
next
  case VidstreamProfile
  then have n: "1 \<le> length hosts" "1 + nat (pf_numNodes p - 1) \<le> length hosts" using assms by (simp_all add: profile_ok_def)
  obtain ch where "nodes_at hosts 1 (pf_numNodes p - 1) = Inr ch" using nodes_at_ok [OF n(2)] by blast
  moreover have "py_nth hosts 0 = Inr (hosts ! 0)" using n(1) by (auto simp: py_nth_def)
  ultimately show ?thesis using VidstreamProfile by (simp add: create_def create_vid_def Let_def)
qed (simp_all add: create_def Let_def)

text \<open>The position of the first node of every tenant, and the tenant that owns a position.\<close>

definition offset :: "profile list \<Rightarrow> nat \<Rightarrow> nat" where
  "offset ts i = sum_list (map (\<lambda>t. nat (pf_numNodes t)) (take i ts))"

lemma offset_simps [simp]:
  "offset ts 0 = 0" "offset (t # ts) (Suc i) = nat (pf_numNodes t) + offset ts i"
  by (simp_all add: offset_def)

lemma py_slice_part:
  assumes "i + k \<le> length p"
  shows "py_slice p (int i) (int i + int k) = map (\<lambda>x. p ! x) [i..<i + k]"
proof -
  have "py_slice p (int i) (int i + int k) = take k (drop i p)"
    using assms by (simp add: py_slice_def slice_bound_def min_def nat_add_distrib)
  also have "\<dots> = map (\<lambda>x. p ! x) [i..<i + k]" by (rule nth_equalityI) (use assms in auto)
  finally show ?thesis .
qed

text \<open>A placement uses a host at most once.\<close>

lemma placement_ok:
  assumes "getPlacement placement n = Inr p"
  shows "distinct p" "\<And>j. j \<in> set p \<Longrightarrow> j < n"
proof -
  have "p = seqPlacement n \<or> p = parityPlacement n \<or> p = inorderPlacement n"
    using assms by (auto simp: getPlacement_def PLACEMENT_TYPES_def dget_def randPlacement_def split: if_splits)
  then obtain m where m: "mset p = mset [0..<m]" "m \<le> n"
    using placements [of n] by (metis diff_le_self order_refl)
  from mset_eq_imp_distinct_iff [OF m(1)] show "distinct p" by simp
  show "j < n" if "j \<in> set p" for j using that mset_eq_setD [OF m(1)] m(2) by simp
qed

lemma vlan_foldl:
  "map_of (foldl (\<lambda>m h. dput m (vh_name h) v) m hs) x = (if x \<in> vh_name ` set hs then Some v else map_of m x)"
  by (induction hs arbitrary: m) auto

lemma assign_loop:
  assumes "\<forall>t \<in> set ts. profile_ok t" and "at + offset ts (length ts) \<le> length p" and "distinct (map vh_name hosts)"
    and p: "distinct p" "\<And>j. j \<in> set p \<Longrightarrow> j < length hosts"
  shows "\<exists>ts' m' i'. rfold (assign_tenant ko webdir resdir hosts p) (done', m, int at) ts = Inr (done' @ ts', m', i') \<and>
    length ts' = length ts \<and> map pf_kind ts' = map pf_kind ts \<and> map pf_vlan ts' = map pf_vlan ts \<and>
    (\<forall>i < length ts. pf_nodes (ts' ! i) =
       pf_nodes (ts ! i) @ map (\<lambda>x. hosts ! (p ! x)) [at + offset ts i..<at + offset ts (Suc i)]) \<and>
    (\<forall>i < length ts. \<forall>x. at + offset ts i \<le> x \<and> x < at + offset ts (Suc i) \<longrightarrow>
       map_of m' (vh_name (hosts ! (p ! x))) = Some (pf_vlan (ts ! i))) \<and>
    (\<forall>j < length hosts. j \<notin> (!) p ` {at..<at + offset ts (length ts)} \<longrightarrow>
       map_of m' (vh_name (hosts ! j)) = map_of m (vh_name (hosts ! j)))"
  using assms(1-3)
proof (induction ts arbitrary: at m done')
  case (Cons t ts)
  let ?k = "nat (pf_numNodes t)"
  have ok: "profile_ok t" using Cons.prems(1) by simp
  then have num: "pf_numNodes t = int ?k" by (auto simp: profile_ok_def split: profile_kind.splits)
  have le: "at + ?k \<le> length p" and rest: "(at + ?k) + offset ts (length ts) \<le> length p" using Cons.prems(2) by simp_all
  have inp: "p ! x < length hosts" if "x < length p" for x using p(2) that by simp
  let ?hs = "map (\<lambda>x. hosts ! (p ! x)) [at..<at + ?k]"
  have idx: "py_slice p (int at) (int at + pf_numNodes t) = map (\<lambda>x. p ! x) [at..<at + ?k]"
    using py_slice_part [OF le] num by simp
  have "rmap (py_nth hosts) (map (\<lambda>x. p ! x) [at..<at + ?k]) = Inr (map (\<lambda>j. hosts ! j) (map (\<lambda>x. p ! x) [at..<at + ?k]))"
    by (rule rmap_Inr) (use le inp in \<open>auto simp: py_nth_def\<close>)
  then have nth: "rmap (py_nth hosts) (map (\<lambda>x. p ! x) [at..<at + ?k]) = Inr ?hs" by (simp add: comp_def)
  have "int (length ?hs) = pf_numNodes t" using num by simp
  from create_ok [OF ok this, of ko webdir resdir]
  obtain t' where t': "create ko webdir resdir t ?hs = Inr t'" "pf_vlan t' = pf_vlan t" "pf_numNodes t' = pf_numNodes t"
    "pf_kind t' = pf_kind t" "pf_nodes t' = pf_nodes t @ ?hs" by blast
  let ?m = "foldl (\<lambda>m h. dput m (vh_name h) (pf_vlan t)) m ?hs"
  have step: "assign_tenant ko webdir resdir hosts p (done', m, int at) t = Inr (done' @ [t'], ?m, int (at + ?k))"
    using num by (simp add: assign_tenant_def assign_def idx nth t' del: map_map)
  have okts: "\<forall>t \<in> set ts. profile_ok t" using Cons.prems(1) by simp
  from Cons.IH [OF okts rest Cons.prems(3), of "done' @ [t']" ?m]
  obtain ts' m' i' where R: "rfold (assign_tenant ko webdir resdir hosts p) (done' @ [t'], ?m, int (at + ?k)) ts = Inr ((done' @ [t']) @ ts', m', i')"
    "length ts' = length ts" "map pf_kind ts' = map pf_kind ts" "map pf_vlan ts' = map pf_vlan ts"
    "\<forall>i < length ts. pf_nodes (ts' ! i) =
       pf_nodes (ts ! i) @ map (\<lambda>x. hosts ! (p ! x)) [(at + ?k) + offset ts i..<(at + ?k) + offset ts (Suc i)]"
    "\<forall>i < length ts. \<forall>x. (at + ?k) + offset ts i \<le> x \<and> x < (at + ?k) + offset ts (Suc i) \<longrightarrow>
       map_of m' (vh_name (hosts ! (p ! x))) = Some (pf_vlan (ts ! i))"
    "\<forall>j < length hosts. j \<notin> (!) p ` {at + ?k..<(at + ?k) + offset ts (length ts)} \<longrightarrow>
       map_of m' (vh_name (hosts ! j)) = map_of ?m (vh_name (hosts ! j))"
    by blast
  have mem: "vh_name (hosts ! j) \<in> vh_name ` set ?hs \<longleftrightarrow> j \<in> (!) p ` {at..<at + ?k}" if "j < length hosts" for j
  proof -
    have "vh_name (hosts ! j) = vh_name (hosts ! y) \<longleftrightarrow> j = y" if "y < length hosts" for y
      using Cons.prems(3) \<open>j < length hosts\<close> that nth_eq_iff_index_eq [of "map vh_name hosts" j y] by simp
    then show ?thesis using le inp by (auto simp: image_iff)
  qed
  have m: "map_of ?m (vh_name (hosts ! j)) = (if j \<in> (!) p ` {at..<at + ?k} then Some (pf_vlan t) else map_of m (vh_name (hosts ! j)))"
    if "j < length hosts" for j unfolding vlan_foldl using mem [OF that] by simp
  have nodes: "pf_nodes ((t' # ts') ! i) = pf_nodes ((t # ts) ! i) @
      map (\<lambda>x. hosts ! (p ! x)) [at + offset (t # ts) i..<at + offset (t # ts) (Suc i)]" if "i < length (t # ts)" for i
    using that t'(5) R(5) by (cases i) (simp_all add: add.assoc)
  have tenant: "map_of m' (vh_name (hosts ! (p ! x))) = Some (pf_vlan ((t # ts) ! i))"
    if "i < length (t # ts)" "at + offset (t # ts) i \<le> x" "x < at + offset (t # ts) (Suc i)" for i x
  proof (cases i)
    case 0
    then have x: "at \<le> x" "x < at + ?k" "x < length p" using that le by simp_all
    have "p ! x \<noteq> p ! y" if "y \<in> {at + ?k..<(at + ?k) + offset ts (length ts)}" for y
      using nth_eq_iff_index_eq [OF p(1) x(3), of y] x(2) that rest by simp
    then have "p ! x \<notin> (!) p ` {at + ?k..<(at + ?k) + offset ts (length ts)}" by blast
    then show ?thesis using R(7) m [of "p ! x"] inp x by (simp add: 0)
  next
    case (Suc j)
    then show ?thesis using R(6) that by simp
  qed
  have other: "map_of m' (vh_name (hosts ! j)) = map_of m (vh_name (hosts ! j))"
    if "j < length hosts" "j \<notin> (!) p ` {at..<at + offset (t # ts) (length (t # ts))}" for j
  proof -
    have "{at..<at + offset (t # ts) (length (t # ts))} = {at..<at + ?k} \<union> {at + ?k..<(at + ?k) + offset ts (length ts)}" by auto
    then have "j \<notin> (!) p ` {at..<at + ?k}" "j \<notin> (!) p ` {at + ?k..<(at + ?k) + offset ts (length ts)}"
      using that(2) by (simp_all only: image_Un Un_iff de_Morgan_disj not_False_eq_True)
    then show ?thesis using R(7) m [OF that(1)] that(1) by simp
  qed
  have run: "rfold (assign_tenant ko webdir resdir hosts p) (done', m, int at) (t # ts) = Inr (done' @ (t' # ts'), m', i')"
    using step R(1) by simp
  show ?case
    by (intro exI [of _ "t' # ts'"] exI [of _ m'] exI [of _ i'])
      (use run R(2,3,4) t'(2,4) nodes tenant other in \<open>simp only: list.map length_Cons\<close>, blast)
qed simp

lemma add_tenants:
  "foldl add_tenant d ts = d\<lparr>dc_tenants := dc_tenants d @ map (\<lambda>(i, t). assignVlan t (dc_vlans d + int i)) (enumerate 0 ts),
     dc_vlans := dc_vlans d + int (length ts)\<rparr>"
proof (induction ts arbitrary: d)
  case (Cons t ts)
  have "map (\<lambda>(i, t). assignVlan t (v + 1 + int i)) (enumerate 0 ts) = map (\<lambda>(i, t). assignVlan t (v + int i)) (enumerate (Suc 0) ts)" for v
    by (rule nth_equalityI) (auto simp: nth_enumerate_eq add.assoc split: prod.splits)
  with Cons show ?case by (simp add: add_tenant_def)
qed simp

definition total_nodes :: "profile list \<Rightarrow> nat" where
  "total_nodes ts = sum_list (map (\<lambda>t. nat (pf_numNodes t)) ts)"

lemma dc_setup_ok:
  assumes ok: "\<forall>t \<in> set ts. profile_ok t" and p: "getPlacement placement (length hosts) = Inr p"
    and le: "total_nodes ts \<le> length p" and d: "distinct (map vh_name hosts)"
  shows "\<exists>d. dc_setup ko webdir resdir placement (dc_init n) hosts ts = Inr d \<and> dc_vlans d = int (length ts) \<and>
    map pf_kind (dc_tenants d) = map pf_kind ts \<and> map pf_vlan (dc_tenants d) = map int [0..<length ts] \<and>
    (\<forall>i < length ts. pf_nodes (dc_tenants d ! i) =
       pf_nodes (ts ! i) @ map (\<lambda>x. hosts ! (p ! x)) [offset ts i..<offset ts (Suc i)]) \<and>
    (\<forall>i < length ts. \<forall>x. offset ts i \<le> x \<and> x < offset ts (Suc i) \<longrightarrow> map_of (dc_vlanMap d) (vh_name (hosts ! (p ! x))) = Some (int i)) \<and>
    (\<forall>j < length hosts. j \<notin> set (take (total_nodes ts) p) \<longrightarrow> map_of (dc_vlanMap d) (vh_name (hosts ! j)) = None)"
proof -
  let ?d0 = "foldl add_tenant (dc_init n) ts"
  let ?ts = "map (\<lambda>(i, t). assignVlan t (int i)) (enumerate 0 ts)"
  have d0: "?d0 = (dc_init n)\<lparr>dc_tenants := ?ts, dc_vlans := int (length ts)\<rparr>"
    unfolding add_tenants by (simp add: dc_init_def)
  have v: "map pf_vlan ?ts = map int [0..<length ts]"
    by (rule nth_equalityI) (auto simp: nth_enumerate_eq assignVlan_def)
  have kinds: "map pf_kind ?ts = map pf_kind ts" and nums: "map pf_numNodes ?ts = map pf_numNodes ts"
    by (rule nth_equalityI; auto simp: nth_enumerate_eq assignVlan_def)+
  have nds: "pf_nodes (?ts ! i) = pf_nodes (ts ! i)" if "i < length ts" for i
    using that by (simp add: nth_enumerate_eq assignVlan_def)
  have off: "offset ?ts i = offset ts i" for i
  proof -
    have "map (\<lambda>t. nat (pf_numNodes t)) (take i ?ts) = map nat (take i (map pf_numNodes ?ts))"
      by (simp only: take_map [symmetric] map_map comp_def)
    also have "\<dots> = map (\<lambda>t. nat (pf_numNodes t)) (take i ts)" unfolding nums by (simp add: take_map comp_def)
    finally show ?thesis by (simp add: offset_def)
  qed
  have len: "length ?ts = length ts" by simp
  have tot: "offset ts (length ts) = total_nodes ts" by (simp add: offset_def total_nodes_def)
  have "profile_ok (assignVlan t v)" if "profile_ok t" for t v using that by (cases "pf_kind t") (simp_all add: profile_ok_def assignVlan_def)
  then have ok': "\<forall>t \<in> set ?ts. profile_ok t" using ok by (auto simp: in_set_enumerate_eq)
  have le': "0 + offset ?ts (length ?ts) \<le> length p" using le by (simp only: off len tot add_0)
  from assign_loop [OF ok' le' d placement_ok [OF p], of ko webdir resdir "[]" "[]"]
  obtain ts' m' i' where R: "rfold (assign_tenant ko webdir resdir hosts p) ([], [], int 0) ?ts = Inr ([] @ ts', m', i')"
    "length ts' = length ?ts" "map pf_kind ts' = map pf_kind ?ts" "map pf_vlan ts' = map pf_vlan ?ts"
    "\<forall>i < length ?ts. pf_nodes (ts' ! i) = pf_nodes (?ts ! i) @ map (\<lambda>x. hosts ! (p ! x)) [0 + offset ?ts i..<0 + offset ?ts (Suc i)]"
    "\<forall>i < length ?ts. \<forall>x. 0 + offset ?ts i \<le> x \<and> x < 0 + offset ?ts (Suc i) \<longrightarrow> map_of m' (vh_name (hosts ! (p ! x))) = Some (pf_vlan (?ts ! i))"
    "\<forall>j < length hosts. j \<notin> (!) p ` {0..<0 + offset ?ts (length ?ts)} \<longrightarrow> map_of m' (vh_name (hosts ! j)) = map_of [] (vh_name (hosts ! j))"
    by blast
  have used: "(!) p ` {0..<total_nodes ts} = set (take (total_nodes ts) p)" using le by (simp add: nth_image)
  let ?d = "?d0\<lparr>dc_tenants := ts', dc_vlanMap := m'\<rparr>"
  have run: "dc_setup ko webdir resdir placement (dc_init n) hosts ts = Inr ?d"
    unfolding dc_setup_def Let_def p rbind_simps d0 using R(1) by (simp add: dc_init_def)
  have vl: "pf_vlan (?ts ! i) = int i" if "i < length ts" for i
    using v that nth_map [of i ?ts pf_vlan] by (simp del: map_map)
  have "map_of m' (vh_name (hosts ! (p ! x))) = Some (int i)" if "i < length ts" "offset ts i \<le> x" "x < offset ts (Suc i)" for i x
    using R(6) that vl [OF that(1)] unfolding off len add_0 by metis
  moreover have "map_of m' (vh_name (hosts ! j)) = None" if "j < length hosts" "j \<notin> set (take (total_nodes ts) p)" for j
    using R(7) that unfolding off len tot add_0 used by simp
  moreover have "pf_nodes (ts' ! i) = pf_nodes (ts ! i) @ map (\<lambda>x. hosts ! (p ! x)) [offset ts i..<offset ts (Suc i)]"
    if "i < length ts" for i using R(5) nds [OF that] that unfolding off len add_0 by simp
  moreover have "dc_vlans ?d = int (length ts)" "map pf_kind (dc_tenants ?d) = map pf_kind ts"
    "map pf_vlan (dc_tenants ?d) = map int [0..<length ts]" "dc_vlanMap ?d = m'" "dc_tenants ?d = ts'"
    using R(3,4) kinds v by (simp_all add: d0 del: map_map)
  ultimately show ?thesis using run by (intro exI [of _ ?d]) simp
qed

text \<open>C27: with enough hosts for all tenants, distinct host names and a number of nodes that suits each tenant's kind, the set-up
  of a new data center succeeds for every placement that gives a list of hosts (all but the
  random one, which raises an exception): tenant number \<^verbatim>\<open>i\<close> has VLAN \<^verbatim>\<open>i\<close>, the nodes it gets are the next hosts
  of the placement, in its order, and these hosts get that VLAN and no other; a host that no tenant uses is listed for
  every VLAN.\<close>

theorem tenant_vlans:
  assumes "\<forall>t \<in> set ts. profile_ok t" and "getPlacement placement (length hosts) = Inr p" and "total_nodes ts \<le> length p"
    and "distinct (map vh_name hosts)"
  shows "\<exists>d. dc_setup ko webdir resdir placement (dc_init n) hosts ts = Inr d \<and>
    map pf_kind (dc_tenants d) = map pf_kind ts \<and> map pf_vlan (dc_tenants d) = map int [0..<length ts] \<and>
    (\<forall>i < length ts. pf_nodes (dc_tenants d ! i) =
       pf_nodes (ts ! i) @ map (\<lambda>x. hosts ! (p ! x)) [offset ts i..<offset ts (Suc i)]) \<and>
    (\<forall>i < length ts. \<forall>x. offset ts i \<le> x \<and> x < offset ts (Suc i) \<longrightarrow> getVlan d (vh_name (hosts ! (p ! x))) = PInt (int i)) \<and>
    (\<forall>j < length hosts. j \<notin> set (take (total_nodes ts) p) \<longrightarrow>
       getVlan d (vh_name (hosts ! j)) = PStr (py_join '':'' (map str_of_int [0..int (length ts) - 1])))"
  using dc_setup_ok [OF assms, of ko webdir resdir n] by (auto simp: getVlan_def py_range_def)

definition demo_tenants :: "profile list" where
  "demo_tenants = [AppProfile_init VidstreamProfile 2, AppProfile_init (IperfProfile ''1.0'' 12) 2]"

definition five_hosts :: "vhost list" where
  "five_hosts = map (\<lambda>i. \<lparr>vh_name = nm CHR ''h'' i, vh_ip = ''10.0.0.'' @ str_of_int i\<rparr>) [1..5]"

theorem tenant_vlans_demo:
  "\<exists>d. dc_setup (\<lambda>ks. ks) [] [] ''parity'' (dc_init 3) five_hosts demo_tenants = Inr d \<and>
    map (map vh_name) (map pf_nodes (dc_tenants d)) = [[''h2'', ''h4''], [''h1'', ''h3'']] \<and>
    getVlan d ''h4'' = PInt 0 \<and> getVlan d ''h3'' = PInt 1 \<and> getVlan d ''h5'' = PStr ''0:1''"
proof -
  have ok: "\<forall>t \<in> set demo_tenants. profile_ok t" "total_nodes demo_tenants = 4" "length demo_tenants = 2"
      "offset demo_tenants 0 = 0" "offset demo_tenants (Suc 0) = 2" "offset demo_tenants (Suc (Suc 0)) = 4"
      "pf_nodes (demo_tenants ! 0) = []" "pf_nodes (demo_tenants ! 1) = []"
    by (simp_all add: demo_tenants_def profile_ok_def AppProfile_init_def total_nodes_def offset_def)
  have h: "length five_hosts = 5" "map vh_name five_hosts = [''h1'', ''h2'', ''h3'', ''h4'', ''h5'']"
    "distinct (map vh_name five_hosts)" "py_join '':'' (map str_of_int [0..int 2 - 1]) = ''0:1''" by code_simp+
  have n: "vh_name (five_hosts ! j) = [''h1'', ''h2'', ''h3'', ''h4'', ''h5''] ! j" if "j < 5" for j
    unfolding h(2) [symmetric] using that h(1) by simp
  have p: "getPlacement ''parity'' (length five_hosts) = Inr [1, 3, 0, 2, 4]" unfolding h(1) by code_simp
  have "total_nodes demo_tenants \<le> length [1, 3, 0, 2, 4::nat]" by (simp add: ok)
  from tenant_vlans [OF ok(1) p this h(3), of "\<lambda>ks. ks" "[]" "[]" 3]
  obtain d where d: "dc_setup (\<lambda>ks. ks) [] [] ''parity'' (dc_init 3) five_hosts demo_tenants = Inr d"
    "map pf_kind (dc_tenants d) = map pf_kind demo_tenants"
    "\<forall>i < 2. pf_nodes (dc_tenants d ! i) =
       pf_nodes (demo_tenants ! i) @ map (\<lambda>x. five_hosts ! ([1, 3, 0, 2, 4] ! x)) [offset demo_tenants i..<offset demo_tenants (Suc i)]"
    "\<forall>i < 2. \<forall>x. offset demo_tenants i \<le> x \<and> x < offset demo_tenants (Suc i) \<longrightarrow>
       getVlan d (vh_name (five_hosts ! ([1, 3, 0, 2, 4] ! x))) = PInt (int i)"
    "\<forall>j < 5. j \<notin> set (take 4 [1, 3, 0, 2, 4]) \<longrightarrow> getVlan d (vh_name (five_hosts ! j)) = PStr ''0:1''"
    unfolding ok h(1,4) by blast
  obtain a b where ab: "dc_tenants d = [a, b]"
    using arg_cong [OF d(2), of length] ok(3) by (auto simp: numeral_2_eq_2 length_Suc_conv)
  have "pf_nodes a = map (\<lambda>x. five_hosts ! ([1, 3, 0, 2, 4] ! x)) [0..<2]" "pf_nodes b = map (\<lambda>x. five_hosts ! ([1, 3, 0, 2, 4] ! x)) [2..<4]"
    using d(3) [rule_format, of 0] d(3) [rule_format, of 1] ok by (simp_all add: ab)
  moreover have "[0..<2] = [0, 1::nat]" "[2..<4] = [2, 3::nat]" by (simp_all add: upt_rec)
  ultimately have nodes: "map (map vh_name) (map pf_nodes (dc_tenants d)) = [[''h2'', ''h4''], [''h1'', ''h3'']]"
    by (simp add: ab n)
  have at: "five_hosts ! ([1, 3, 0, 2, 4] ! 1) = five_hosts ! 3" "five_hosts ! ([1, 3, 0, 2, 4] ! 3) = five_hosts ! 2" by simp_all
  have nm: "vh_name (five_hosts ! 3) = ''h4''" "vh_name (five_hosts ! 2) = ''h3''" "vh_name (five_hosts ! 4) = ''h5''"
    by (simp_all add: n)
  have "getVlan d (vh_name (five_hosts ! ([1, 3, 0, 2, 4] ! 1))) = PInt (int 0)"
    by (rule d(4) [rule_format]) (simp_all add: ok(4,5))
  moreover have "getVlan d (vh_name (five_hosts ! ([1, 3, 0, 2, 4] ! 3))) = PInt (int 1)"
    by (rule d(4) [rule_format]) (simp_all add: ok(5,6))
  moreover have "getVlan d (vh_name (five_hosts ! 4)) = PStr ''0:1''"
    by (rule d(5) [rule_format]) simp_all
  ultimately have "getVlan d ''h4'' = PInt 0 \<and> getVlan d ''h3'' = PInt 1 \<and> getVlan d ''h5'' = PStr ''0:1''"
    unfolding at nm of_nat_0 of_nat_1 by (intro conjI)
  with d(1) nodes show ?thesis by (intro exI [of _ d] conjI) simp_all
qed

end
