(* ===== verification/Config.thy ===== *)
theory Config
  imports Topology
begin

text \<open>
  The format of the configuration file: the text that describes core switches, edge switches and hosts, and the
  proof that the controller's parser (\<^verbatim>\<open>minidc/controller/topo.py\<close>) reads back what the text
  describes. The datacenter's writer is shown to produce such a text in the theory \<open>Deploy\<close>.
\<close>

section \<open>Reading a file\<close>

text \<open>\<^verbatim>\<open>f.readlines()\<close>: every line keeps its newline; the last one may have none.\<close>

fun readlines :: "string \<Rightarrow> string list" where
  "readlines [] = []"
| "readlines (c # s) =
     (if c = CHR 0x0A then [c] # readlines s
      else case readlines s of [] \<Rightarrow> [[c]] | l # ls \<Rightarrow> (c # l) # ls)"

definition end_line :: "string \<Rightarrow> string" where
  "end_line l = l @ [CHR 0x0A]"

lemma readlines_line: "CHR 0x0A \<notin> set l \<Longrightarrow> readlines (end_line l @ s) = end_line l # readlines s"
  by (induction l) (auto simp: end_line_def)

lemma readlines_lines:
  "\<forall>l \<in> set ls. CHR 0x0A \<notin> set l \<Longrightarrow> readlines (concat (map end_line ls)) = map end_line ls"
  by (induction ls) (simp_all add: readlines_line)

section \<open>The text\<close>

definition print_vlans :: "int list \<Rightarrow> string" where
  "print_vlans vs = py_join '':'' (map str_of_int vs)"

definition print_core :: "core_switch \<Rightarrow> string" where
  "print_core c = c_name c @ '' '' @ str_of_int (c_dpid c) @ '' '' @ print_vlans (c_vlans c)"

definition print_host :: "host \<Rightarrow> string" where
  "print_host h = h_name h @ '','' @ h_ip h @ '','' @ h_eth h @ '','' @ print_vlans (h_vlans h)"

definition print_edge :: "string \<times> int \<times> host list \<Rightarrow> string" where
  "print_edge e = (case e of (name, dpid, hs) \<Rightarrow> name @ '' '' @ str_of_int dpid @ '' '' @ py_join '' '' (map print_host hs))"

definition config_lines :: "core_switch list \<Rightarrow> (string \<times> int \<times> host list) list \<Rightarrow> string list \<Rightarrow> string list" where
  "config_lines cs es hs = map print_core cs @ [''*''] @ map print_edge es @ [''*''] @ hs"

text \<open>A word of the file: not empty, no white space and no comma.\<close>

definition word :: "string \<Rightarrow> bool" where
  "word w \<longleftrightarrow> w \<noteq> [] \<and> (\<forall>c \<in> set w. \<not> is_space c \<and> c \<noteq> CHR '','')"

definition core_text_ok :: "core_switch \<Rightarrow> bool" where
  "core_text_ok c \<longleftrightarrow> word (c_name c)"

definition host_text_ok :: "string \<Rightarrow> host \<Rightarrow> bool" where
  "host_text_ok sw h \<longleftrightarrow> word (h_name h) \<and> word (h_ip h) \<and> word (h_eth h) \<and> h_switch h = sw \<and> h_vlans h \<noteq> []"

definition edge_text_ok :: "string \<times> int \<times> host list \<Rightarrow> bool" where
  "edge_text_ok e = (case e of (name, dpid, hs) \<Rightarrow> word name \<and> list_all (host_text_ok name) hs)"

lemma space_chars [simp]: "is_space (CHR '' '')" "is_space (CHR 0x0A)" "\<not> is_space (CHR '','')" "\<not> is_space (CHR '':'')"
  by (simp_all add: is_space_def)

lemma str_of_int_chars: "c \<in> set (str_of_int i) \<Longrightarrow> is_digit c \<or> c = CHR ''-''"
  using str_of_nat_digits by (auto simp: str_of_int_def split: if_splits)

lemma str_of_int_nonempty [simp]: "str_of_int i \<noteq> []"
  by (simp add: str_of_int_def)

lemma minus_chars: "\<not> is_space (CHR ''-'')" "CHR ''-'' \<noteq> CHR '',''" "CHR ''-'' \<noteq> CHR '':''"
  by (simp_all add: is_space_def)

lemma digit_chars: "is_digit c \<Longrightarrow> \<not> is_space c \<and> c \<noteq> CHR '','' \<and> c \<noteq> CHR '':''"
  by (auto simp: not_digit_space is_digit_def)

lemma word_str_of_int [simp]: "word (str_of_int i)"
  using str_of_int_chars digit_chars minus_chars unfolding word_def by (metis str_of_int_nonempty)

lemma str_of_int_no_colon: "CHR '':'' \<notin> set (str_of_int i)"
  using str_of_int_chars digit_chars minus_chars by metis

lemma word_print_vlans: "vs \<noteq> [] \<Longrightarrow> word (print_vlans vs)"
proof -
  assume vs: "vs \<noteq> []"
  have "print_vlans vs \<noteq> []"
    using vs by (cases vs; cases "tl vs") (auto simp: print_vlans_def)
  moreover have "\<not> is_space c \<and> c \<noteq> CHR '',''" if "c \<in> set (print_vlans vs)" for c
  proof -
    have "c \<in> set '':'' \<union> \<Union> (set ` set (map str_of_int vs))" using that set_py_join unfolding print_vlans_def by blast
    then consider "c = CHR '':''" | i where "c \<in> set (str_of_int i)" by auto
    then show ?thesis by cases (simp, use word_str_of_int in \<open>auto simp: word_def\<close>)
  qed
  ultimately show ?thesis by (simp add: word_def)
qed

lemma vlans_back: "vs \<noteq> [] \<Longrightarrow> rmap py_int (split_on (CHR '':'') (print_vlans vs)) = Inr vs"
proof -
  assume vs: "vs \<noteq> []"
  have "split_on (CHR '':'') (print_vlans vs) = map str_of_int vs"
    unfolding print_vlans_def by (rule split_on_join) (use vs str_of_int_no_colon in auto)
  then show ?thesis using rmap_Inr [of vs "\<lambda>i. py_int (str_of_int i)" "\<lambda>i. i"] by (simp add: rmap_map)
qed

lemma word_no_space: "word w \<Longrightarrow> CHR '' '' \<notin> set w" "word w \<Longrightarrow> CHR '','' \<notin> set w" "word w \<Longrightarrow> CHR 0x0A \<notin> set w"
  unfolding word_def using space_chars by blast+

section \<open>One line\<close>

text \<open>Words separated by single spaces, the last possibly empty: what stripping and splitting leave.\<close>

lemma strip_words:
  assumes "word w" and "word v"
  shows "py_strip (end_line (w @ s @ v)) = w @ s @ v" and "py_strip (end_line (w @ s @ v @ '' '')) = w @ s @ v"
proof -
  let ?t = "w @ s @ v"
  have ne: "?t \<noteq> []" "hd ?t \<in> set w" "last ?t \<in> set v" using assms by (auto simp: word_def hd_append)
  then have h: "\<not> is_space (hd ?t)" "\<not> is_space (last ?t)" using assms unfolding word_def by blast+
  have id: "py_strip ?t = ?t" using ne(1) h by (rule py_strip_id)
  have "\<not> list_all is_space ?t" using ne(1) h(1) by (metis hd_in_set list_all_iff)
  then have e: "py_strip (?t @ [c]) = ?t" "py_strip ((?t @ '' '') @ [c]) = ?t" if "is_space c" for c
    using that id py_strip_append_space [of c ?t] py_strip_append_space [of c "?t @ '' ''"] py_strip_append_space [of "CHR '' ''" ?t]
    by simp_all
  show "py_strip (end_line ?t) = ?t" unfolding end_line_def by (rule e) simp
  show "py_strip (end_line (w @ s @ v @ '' '')) = ?t" using e(2) [of "CHR 0x0A"] by (simp add: end_line_def)
qed

lemma split_two: "word a \<Longrightarrow> word b \<Longrightarrow> split_on (CHR '' '') (a @ '' '' @ b) = [a, b]"
  using split_on_append_sep [of "CHR '' ''" a b] by (simp add: word_no_space)

lemma split_more: "word a \<Longrightarrow> word b \<Longrightarrow> split_on (CHR '' '') (a @ '' '' @ b @ '' '' @ t) = a # b # split_on (CHR '' '') t"
  using split_on_append_sep [of "CHR '' ''" a "b @ '' '' @ t"] split_on_append_sep [of "CHR '' ''" b t] by (simp add: word_no_space)

lemma not_separator: "CHR '' '' \<in> set x \<Longrightarrow> \<not> py_substr x ''*''"
proof
  assume s: "CHR '' '' \<in> set x" and "py_substr x ''*''"
  then obtain i where "take (length x) (drop i ''*'') = x" unfolding py_substr_def list_ex_iff by blast
  then have "set x \<subseteq> set ''*''" by (metis set_drop_subset set_take_subset subset_trans)
  with s show False by auto
qed

definition stripped_core :: "core_switch \<Rightarrow> string" where
  "stripped_core c = py_strip (end_line (print_core c))"

definition stripped_edge :: "string \<times> int \<times> host list \<Rightarrow> string" where
  "stripped_edge e = py_strip (end_line (print_edge e))"

lemma core_line_back:
  assumes "core_text_ok c"
  shows "parse_core_line (stripped_core c) = Inr c" and "\<not> py_substr (stripped_core c) ''*''"
proof -
  let ?d = "str_of_int (c_dpid c)"
  have w: "word (c_name c)" "word ?d" using assms by (simp_all add: core_text_ok_def)
  have "parse_core_line (stripped_core c) = Inr c \<and> CHR '' '' \<in> set (stripped_core c)"
  proof (cases "c_vlans c = []")
    case True
    then have "stripped_core c = c_name c @ '' '' @ ?d"
      using strip_words(2) [OF w, of "'' ''"] by (simp add: stripped_core_def print_core_def print_vlans_def)
    then show ?thesis using split_two [OF w] True by (simp add: parse_core_line_def)
  next
    case False
    have v: "word (print_vlans (c_vlans c))" by (rule word_print_vlans [OF False])
    have st: "stripped_core c = c_name c @ '' '' @ ?d @ '' '' @ print_vlans (c_vlans c)"
      using strip_words(1) [OF w(1) v, of "'' '' @ ?d @ '' ''"] by (simp add: stripped_core_def print_core_def)
    have "split_on (CHR '' '') (stripped_core c) = [c_name c, ?d, print_vlans (c_vlans c)]"
      unfolding st split_more [OF w] using v by (simp add: word_no_space)
    then show ?thesis using vlans_back [OF False] by (simp add: parse_core_line_def st)
  qed
  then show "parse_core_line (stripped_core c) = Inr c" "\<not> py_substr (stripped_core c) ''*''"
    using not_separator by blast+
qed

lemma host_back:
  assumes "host_text_ok sw h"
  shows "parse_host sw (print_host h) = Inr h" and "hd (split_on (CHR '','') (print_host h)) = h_name h"
    and "print_host h \<noteq> []" and "\<forall>c \<in> set (print_host h). \<not> is_space c"
proof -
  have w: "word (h_name h)" "word (h_ip h)" "word (h_eth h)" "word (print_vlans (h_vlans h))"
    and sw: "h_switch h = sw" and v: "h_vlans h \<noteq> []"
    using assms word_print_vlans by (auto simp: host_text_ok_def)
  have sp: "split_on (CHR '','') (print_host h) = [h_name h, h_ip h, h_eth h, print_vlans (h_vlans h)]"
    using w split_on_append_sep [of "CHR '',''"] by (simp add: print_host_def word_no_space)
  then show "parse_host sw (print_host h) = Inr h" using vlans_back [OF v] sw by (simp add: parse_host_def Let_def numeral_eq_Suc)
  show "hd (split_on (CHR '','') (print_host h)) = h_name h" by (simp add: sp)
  show "print_host h \<noteq> []" using w(1) by (simp add: print_host_def)
  show "\<forall>c \<in> set (print_host h). \<not> is_space c" using w by (auto simp: print_host_def word_def)
qed

lemma edge_line_back:
  assumes "edge_text_ok (name, dpid, hs)"
  shows "split_on (CHR '' '') (stripped_edge (name, dpid, hs)) = name # str_of_int dpid # map print_host hs"
    and "\<not> py_substr (stripped_edge (name, dpid, hs)) ''*''"
    and "parse_edge_line (stripped_edge (name, dpid, hs)) = Inr \<lparr>e_name = name, e_dpid = dpid, e_neighbors = map h_name hs\<rparr>"
proof -
  let ?d = "str_of_int dpid" and ?e = "stripped_edge (name, dpid, hs)"
  have w: "word name" "word ?d" and hs: "\<forall>h \<in> set hs. host_text_ok name h"
    using assms by (auto simp: edge_text_ok_def list_all_iff)
  have "split_on (CHR '' '') ?e = name # ?d # map print_host hs \<and> CHR '' '' \<in> set ?e"
  proof (cases "hs = []")
    case True
    then have "?e = name @ '' '' @ ?d"
      using strip_words(2) [OF w, of "'' ''"] by (simp add: stripped_edge_def print_edge_def)
    then show ?thesis using split_two [OF w] True by simp
  next
    case False
    let ?j = "py_join '' '' (map print_host hs)"
    obtain h where h: "last hs = h" "h \<in> set hs" using False by auto
    have "\<not> is_space (last (print_host h))" and pne: "print_host h \<noteq> []" using host_back(3,4) [of name h] hs h(2) by auto
    moreover have "last ?j = last (print_host h) \<and> ?j \<noteq> []" using False h pne
    proof (induction hs)
      case (Cons x xs)
      show ?case
      proof (cases xs)
        case (Cons y ys)
        with Cons.IH Cons.prems have "last (py_join '' '' (map print_host xs)) = last (print_host h) \<and> py_join '' '' (map print_host xs) \<noteq> []"
          by (metis last_ConsR last_in_set list.distinct(1))
        with Cons show ?thesis by simp
      qed (use Cons.prems in simp)
    qed simp
    ultimately have l: "\<not> is_space (last ?j)" "?j \<noteq> []" by simp_all
    let ?t = "name @ '' '' @ ?d @ '' '' @ ?j"
    have "hd ?t \<in> set name" using w(1) by (simp add: word_def)
    then have h1: "\<not> is_space (hd ?t)" using w(1) unfolding word_def by blast
    have "py_strip ?t = ?t" using h1 l by (intro py_strip_id) simp_all
    moreover have "\<not> list_all is_space ?t"
    proof
      assume "list_all is_space ?t"
      then have "is_space (last ?j)" using last_in_set [OF l(2)] by (simp add: list_all_iff)
      with l(1) show False by blast
    qed
    ultimately have st: "?e = ?t"
      using py_strip_append_space [of "CHR 0x0A" ?t] by (simp add: stripped_edge_def print_edge_def end_line_def)
    have "split_on (CHR '' '') ?j = map print_host hs"
      by (rule split_on_join) (use False hs host_back(4) in \<open>fastforce+\<close>)
    then show ?thesis unfolding st split_more [OF w] by simp
  qed
  then show sp: "split_on (CHR '' '') ?e = name # ?d # map print_host hs" and "\<not> py_substr ?e ''*''"
    using not_separator by blast+
  have "map (\<lambda>n. hd (split_on (CHR '','') n)) (map print_host hs) = map h_name hs"
    using hs host_back(2) by (simp; blast)
  then show "parse_edge_line ?e = Inr \<lparr>e_name = name, e_dpid = dpid, e_neighbors = map h_name hs\<rparr>"
    by (simp add: parse_edge_line_def sp Let_def numeral_eq_Suc comp_def)
qed

section \<open>The whole file\<close>

definition edge_of :: "string \<times> int \<times> host list \<Rightarrow> edge_switch" where
  "edge_of e = (case e of (name, dpid, hs) \<Rightarrow> \<lparr>e_name = name, e_dpid = dpid, e_neighbors = map h_name hs\<rparr>)"

definition edge_hosts_of :: "(string \<times> int \<times> host list) list \<Rightarrow> host list" where
  "edge_hosts_of es = concat (map (\<lambda>(_, _, hs). hs) es)"

text \<open>The topology that a file describes.\<close>

definition config_topology ::
    "(string list \<Rightarrow> string list) \<Rightarrow> (int list \<Rightarrow> int list) \<Rightarrow> core_switch list \<Rightarrow> (string \<times> int \<times> host list) list \<Rightarrow> topology" where
  "config_topology ko kv cs es =
     (let cores = reorder ko (map (\<lambda>c. (c_name c, c)) cs);
          edges = reorder ko (map (\<lambda>e. (fst e, edge_of e)) es);
          hosts = reorder ko (map (\<lambda>h. (h_name h, h)) (edge_hosts_of es)) in
      \<lparr>t_hosts = hosts, t_vlans = reorder kv (vlan_members (dvals hosts)),
       t_switches = dkeys cores @ dkeys edges, t_edges = edges, t_cores = cores, t_ports = setPorts cores edges\<rparr>)"

definition config_ok :: "core_switch list \<Rightarrow> (string \<times> int \<times> host list) list \<Rightarrow> bool" where
  "config_ok cs es \<longleftrightarrow> cs \<noteq> [] \<and> es \<noteq> [] \<and> list_all core_text_ok cs \<and> list_all edge_text_ok es \<and>
     distinct (map c_name cs) \<and> distinct (map fst es) \<and> distinct (map h_name (edge_hosts_of es))"

lemma group_section:
  assumes "xs \<noteq> []" and "\<forall>x \<in> set xs. \<not> sep x" and "sep y"
  shows "group_lines sep (xs @ y # zs) = xs # group_lines sep zs"
proof -
  obtain x xs' where xs: "xs = x # xs'" using assms(1) by (cases xs) auto
  have "takeWhile (\<lambda>y. \<not> sep y) (xs' @ y # zs) = xs'" "dropWhile (\<lambda>y. \<not> sep y) (xs' @ y # zs) = y # zs"
    using assms(2,3) by (simp_all add: xs takeWhile_append dropWhile_append)
  then show ?thesis using assms(2,3) by (simp add: xs)
qed

lemma rfold_dput:
  assumes "\<And>x. x \<in> set xs \<Longrightarrow> f x = Inr (g x)" and "distinct (map (\<lambda>x. key (g x)) xs)"
    and "set (map (\<lambda>x. key (g x)) xs) \<inter> set (dkeys s) = {}"
  shows "rfold (\<lambda>s x. rbind (f x) (\<lambda>v. Inr (dput s (key v) v))) s xs = Inr (s @ map (\<lambda>x. (key (g x), g x)) xs)"
  using assms by (induction xs arbitrary: s) (auto simp: dput_new)

lemma parseCores_back:
  assumes "list_all core_text_ok cs" and "distinct (map c_name cs)"
  shows "parseCores (map stripped_core cs) = Inr (map (\<lambda>c. (c_name c, c)) cs)"
proof -
  have "parse_core_line (stripped_core c) = Inr c" if "c \<in> set cs" for c
    using core_line_back(1) assms(1) that by (simp add: list_all_iff)
  then show ?thesis using rfold_dput [of cs "\<lambda>c. parse_core_line (stripped_core c)" "\<lambda>c. c" c_name "[]"] assms(2)
    by (simp add: parseCores_def rfold_map)
qed

lemma parseEdges_back:
  assumes "list_all edge_text_ok es" and "distinct (map fst es)"
  shows "parseEdges (map stripped_edge es) = Inr (map (\<lambda>e. (fst e, edge_of e)) es)"
proof -
  have p: "parse_edge_line (stripped_edge e) = Inr (edge_of e)" if "e \<in> set es" for e
  proof -
    obtain n d hs where e: "e = (n, d, hs)" by (cases e)
    have "edge_text_ok (n, d, hs)" using assms(1) that by (simp add: list_all_iff e)
    then show ?thesis using edge_line_back(3) by (simp add: e edge_of_def)
  qed
  have n: "e_name (edge_of e) = fst e" for e by (simp add: edge_of_def split: prod.splits)
  show ?thesis using rfold_dput [of es "\<lambda>e. parse_edge_line (stripped_edge e)" edge_of e_name "[]"] p assms(2)
    by (simp add: parseEdges_def rfold_map n)
qed

lemma parseHosts_back:
  assumes "list_all edge_text_ok es" and "distinct (map h_name (edge_hosts_of es))"
  shows "parseHosts (map stripped_edge es) = Inr (map (\<lambda>h. (h_name h, h)) (edge_hosts_of es))"
proof -
  let ?step = "\<lambda>h line. let fields = split_on (CHR '' '') line in
       rbind (py_nth fields 0) (\<lambda>switch.
       rfold (\<lambda>h hst. rbind (parse_host switch hst) (\<lambda>x. Inr (dput h (h_name x) x))) h (drop 2 fields))"
  have "rfold (\<lambda>s e. ?step s (stripped_edge e)) s es = Inr (s @ map (\<lambda>h. (h_name h, h)) (edge_hosts_of es))"
    if "set (map h_name (edge_hosts_of es)) \<inter> set (dkeys s) = {}" for s
    using assms that
  proof (induction es arbitrary: s)
    case (Cons e es)
    obtain n d hs where e: "e = (n, d, hs)" by (cases e)
    have hs: "edge_hosts_of (e # es) = hs @ edge_hosts_of es" by (simp add: edge_hosts_of_def e)
    have ok: "edge_text_ok (n, d, hs)" using Cons.prems(1) by (simp add: e)
    have ph: "parse_host n (print_host h) = Inr h" if "h \<in> set hs" for h
      using ok that host_back(1) by (simp add: edge_text_ok_def list_all_iff)
    have "rfold (\<lambda>s h. rbind (parse_host n (print_host h)) (\<lambda>x. Inr (dput s (h_name x) x))) s hs = Inr (s @ map (\<lambda>h. (h_name h, h)) hs)"
      using rfold_dput [of hs "\<lambda>h. parse_host n (print_host h)" "\<lambda>h. h" h_name s] ph Cons.prems(2,3) unfolding hs by auto
    then have "?step s (stripped_edge e) = Inr (s @ map (\<lambda>h. (h_name h, h)) hs)"
      by (simp add: e edge_line_back(1) [OF ok] rfold_map numeral_eq_Suc)
    moreover have "rfold (\<lambda>s e. ?step s (stripped_edge e)) (s @ map (\<lambda>h. (h_name h, h)) hs) es
        = Inr ((s @ map (\<lambda>h. (h_name h, h)) hs) @ map (\<lambda>h. (h_name h, h)) (edge_hosts_of es))"
      by (rule Cons.IH) (use Cons.prems in \<open>auto simp: hs\<close>)
    ultimately show ?case by (simp add: hs)
  qed (simp add: edge_hosts_of_def)
  from this [of "[]"] show ?thesis by (simp add: parseHosts_def rfold_map)
qed

lemma sections_back:
  assumes "config_ok cs es"
  shows "\<exists>rest. splitSections (map end_line (config_lines cs es hs)) ''*'' = map stripped_core cs # map stripped_edge es # rest"
proof -
  have c: "\<forall>x \<in> set (map stripped_core cs). \<not> py_substr x ''*''" and e: "\<forall>x \<in> set (map stripped_edge es). \<not> py_substr x ''*''"
    using assms core_line_back(2) edge_line_back(2) by (fastforce simp: config_ok_def list_all_iff)+
  have s: "py_substr ''*'' ''*''" by code_simp
  have st: "py_strip (end_line ''*'') = ''*''" by code_simp
  have "map py_strip (map end_line (config_lines cs es hs))
      = map stripped_core cs @ ''*'' # map stripped_edge es @ ''*'' # map (\<lambda>h. py_strip (end_line h)) hs"
    by (simp add: config_lines_def stripped_core_def stripped_edge_def st)
  moreover have "map stripped_core cs \<noteq> []" "map stripped_edge es \<noteq> []" using assms by (simp_all add: config_ok_def)
  ultimately show ?thesis using group_section [where sep = "\<lambda>x. py_substr x ''*''"] c e s by (simp add: splitSections_def)
qed

lemma config_parse:
  assumes "config_ok cs es"
  shows "topology_parse ko kv (map end_line (config_lines cs es hs)) = Inr (config_topology ko kv cs es)"
proof -
  obtain rest where r: "splitSections (map end_line (config_lines cs es hs)) ''*'' = map stripped_core cs # map stripped_edge es # rest"
    using sections_back [OF assms] by blast
  have "parseCores (map stripped_core cs) = Inr (map (\<lambda>c. (c_name c, c)) cs)"
    "parseEdges (map stripped_edge es) = Inr (map (\<lambda>e. (fst e, edge_of e)) es)"
    "parseHosts (map stripped_edge es) = Inr (map (\<lambda>h. (h_name h, h)) (edge_hosts_of es))"
    using assms parseCores_back parseEdges_back parseHosts_back by (simp_all add: config_ok_def)
  then show ?thesis by (simp add: topology_parse_def r config_topology_def Let_def)
qed

lemma config_lines_no_newline:
  assumes "config_ok cs es" and "list_all word hs"
  shows "\<forall>l \<in> set (config_lines cs es hs). CHR 0x0A \<notin> set l"
proof -
  have pv: "CHR 0x0A \<notin> set (print_vlans vs)" for vs
  proof (cases "vs = []")
    case True
    then show ?thesis by (simp add: print_vlans_def)
  next
    case False
    then show ?thesis using word_print_vlans word_no_space(3) by blast
  qed
  have c: "CHR 0x0A \<notin> set (print_core c)" if "c \<in> set cs" for c
    using assms(1) that pv word_no_space(3) [of "c_name c"] word_no_space(3) [OF word_str_of_int]
    by (simp add: config_ok_def list_all_iff core_text_ok_def print_core_def)
  have e: "CHR 0x0A \<notin> set (print_edge e)" if "e \<in> set es" for e
  proof -
    obtain n d hs' where e: "e = (n, d, hs')" by (cases e)
    have ok: "word n" "\<forall>h \<in> set hs'. host_text_ok n h" using assms(1) that by (auto simp: config_ok_def list_all_iff e edge_text_ok_def)
    have "CHR 0x0A \<notin> set (print_host h)" if "h \<in> set hs'" for h using host_back(4) [of n h] ok(2) that space_chars(2) by blast
    moreover have "set (py_join '' '' (map print_host hs')) \<subseteq> set '' '' \<union> \<Union> (set ` set (map print_host hs'))" by (rule set_py_join)
    ultimately have "CHR 0x0A \<notin> set (py_join '' '' (map print_host hs'))" by auto
    then show ?thesis using ok(1) word_no_space(3) [OF word_str_of_int] word_no_space(3) by (simp add: e print_edge_def)
  qed
  have "CHR 0x0A \<notin> set h" if "h \<in> set hs" for h using assms(2) that word_no_space(3) by (simp add: list_all_iff)
  then show ?thesis using c e by (auto simp: config_lines_def)
qed

text \<open>C26: reading a printed configuration gives the topology it describes: every core switch, edge switch and
  host with its attributes, for any host lines at the end.\<close>

theorem config_roundtrip:
  assumes "config_ok cs es" and "list_all word hs"
  shows "topology_parse ko kv (readlines (concat (map end_line (config_lines cs es hs)))) = Inr (config_topology ko kv cs es)"
  using config_parse [OF assms(1)] readlines_lines [OF config_lines_no_newline [OF assms]] by simp

theorem config_roundtrip_demo:
  "\<exists>cs es. cs = [\<lparr>c_name = ''s104'', c_dpid = 104, c_vlans = [0]\<rparr>, \<lparr>c_name = ''s105'', c_dpid = 105, c_vlans = []\<rparr>] \<and>
    es = [(''s101'', 101, [\<lparr>h_name = ''h1'', h_ip = ''10.0.0.1'', h_eth = ''02:00:00:00:00:01'', h_switch = ''s101'', h_vlans = [0]\<rparr>]),
       (''s102'', 102, [])] \<and>
    topology_parse (\<lambda>ks. ks) (\<lambda>ks. ks) (readlines (concat (map end_line (config_lines cs es [''h1''])))) = Inr (config_topology (\<lambda>ks. ks) (\<lambda>ks. ks) cs es)"
proof -
  have "config_ok [\<lparr>c_name = ''s104'', c_dpid = 104, c_vlans = [0]\<rparr>, \<lparr>c_name = ''s105'', c_dpid = 105, c_vlans = []\<rparr>]
     [(''s101'', 101, [\<lparr>h_name = ''h1'', h_ip = ''10.0.0.1'', h_eth = ''02:00:00:00:00:01'', h_switch = ''s101'', h_vlans = [0]\<rparr>]), (''s102'', 102, [])]"
    by code_simp
  moreover have "list_all word [''h1'']" by code_simp
  ultimately show ?thesis using config_roundtrip by blast
qed

end
