(* ===== verification/Deploy.thy ===== *)
theory Deploy
  imports Dc Config Network
begin

text \<open>
  From the datacenter to the controller: the file that \<^verbatim>\<open>writeConfig\<close> (\<^verbatim>\<open>minidc/dc.py\<close>) writes for a fat tree
  is read by the controller (\<^verbatim>\<open>minidc/controller/topo.py\<close>) as a well-formed topology whose port
  numbers are those of Mininet, so that the theorems about the policies apply to it.
\<close>

section \<open>A described topology is well formed\<close>

lemma distinct_dvals_reorder:
  assumes "is_order ko" and "distinct (dkeys d)" and "distinct (map f (dvals d))"
  shows "distinct (map f (dvals (reorder ko d)))"
proof -
  have "mset (map f (dvals (reorder ko d))) = mset (map f (dvals d))"
  proof -
    have "distinct (dkeys (reorder ko d))" using assms(1,2) by (simp add: is_order_distinct)
    then have "distinct (reorder ko d)" "distinct d" using assms(2) by (simp_all add: distinct_map)
    moreover have "set (reorder ko d) = set d" using assms by simp
    ultimately have "mset (reorder ko d) = mset d" by (simp add: set_eq_iff_mset_eq_distinct)
    then show ?thesis by (metis mset_map map_map)
  qed
  then show ?thesis using assms(3) by (metis mset_eq_imp_distinct_iff)
qed

lemma config_fields:
  "t_cores (config_topology ko kv cs es) = reorder ko (map (\<lambda>c. (c_name c, c)) cs)"
  "t_edges (config_topology ko kv cs es) = reorder ko (map (\<lambda>e. (fst e, edge_of e)) es)"
  "t_hosts (config_topology ko kv cs es) = reorder ko (map (\<lambda>h. (h_name h, h)) (edge_hosts_of es))"
  by (simp_all add: config_topology_def Let_def)

lemma config_sets:
  assumes ko: "is_order ko" and names: "distinct (map c_name cs @ map fst es @ map h_name (edge_hosts_of es))"
  shows "set (t_cores (config_topology ko kv cs es)) = set (map (\<lambda>c. (c_name c, c)) cs)"
    and "set (t_edges (config_topology ko kv cs es)) = set (map (\<lambda>e. (fst e, edge_of e)) es)"
    and "set (t_hosts (config_topology ko kv cs es)) = set (map (\<lambda>h. (h_name h, h)) (edge_hosts_of es))"
  using ko names unfolding config_fields by (simp_all add: comp_def del: set_map)

lemma edge_hosts_set: "set (edge_hosts_of es) = {h. \<exists>n d hs. (n, d, hs) \<in> set es \<and> h \<in> set hs}"
  by (auto simp: edge_hosts_of_def)

text \<open>The hosts written on an edge switch's line are those that name it as their switch.\<close>

lemma line_hosts:
  assumes ok: "config_ok cs es" and names: "distinct (map fst es)" and e: "(n, d, hs) \<in> set es"
  shows "set hs = {h \<in> set (edge_hosts_of es). h_switch h = n}"
proof -
  have host_edge: "h_switch h = n" if "(n, d, hs) \<in> set es" "h \<in> set hs" for n d hs h
    using ok that by (auto simp: config_ok_def list_all_iff edge_text_ok_def host_text_ok_def)
  have same: "hs' = hs" if "(n, d', hs') \<in> set es" for d' hs'
    using names that e inj_onD [of fst "set es" "(n, d', hs')" "(n, d, hs)"] by (simp add: distinct_map)
  have "h \<in> set hs" if h: "h \<in> set (edge_hosts_of es)" "h_switch h = n" for h
  proof -
    obtain n' d' hs' where "(n', d', hs') \<in> set es" "h \<in> set hs'" using h(1) unfolding edge_hosts_set by blast
    moreover from this have "n' = n" using host_edge h(2) by blast
    ultimately show ?thesis using same by blast
  qed
  then show ?thesis using e host_edge unfolding edge_hosts_set by blast
qed

lemma config_dpids:
  assumes ko: "is_order ko" and names: "distinct (map c_name cs @ map fst es @ map h_name (edge_hosts_of es))"
    and dpids: "distinct (map c_dpid cs @ map (fst \<circ> snd) es)"
  shows "distinct (map c_dpid (dvals (t_cores (config_topology ko kv cs es))) @ map e_dpid (dvals (t_edges (config_topology ko kv cs es))))"
proof -
  let ?c = "map (\<lambda>c. (c_name c, c)) cs" and ?e = "map (\<lambda>e. (fst e, edge_of e)) es" and ?t = "config_topology ko kv cs es"
  have dc: "distinct (dkeys ?c)" and de: "distinct (dkeys ?e)" using names by (simp_all add: comp_def)
  have "dvals ?c = cs" "dvals ?e = map edge_of es" by (simp_all add: comp_def)
  moreover have e: "map e_dpid (map edge_of es) = map (fst \<circ> snd) es" by (simp add: edge_of_def split: prod.splits)
  ultimately have "distinct (map c_dpid (dvals (t_cores ?t)))" "distinct (map e_dpid (dvals (t_edges ?t)))"
    using distinct_dvals_reorder [OF ko dc, of c_dpid] distinct_dvals_reorder [OF ko de, of e_dpid] dpids
    unfolding config_fields by (simp_all del: map_map)
  moreover have "set (map c_dpid (dvals (t_cores ?t))) = set (map c_dpid cs)"
    using config_sets(1) [OF ko names] by (simp add: image_image)
  moreover have "set (map e_dpid (dvals (t_edges ?t))) = set (map (fst \<circ> snd) es)"
    using config_sets(2) [OF ko names] unfolding e [symmetric] by (simp add: image_image)
  ultimately show ?thesis using dpids by (simp only: distinct_append)
qed

lemma config_neighbors:
  assumes ko: "is_order ko" and ok: "config_ok cs es"
    and names: "distinct (map c_name cs @ map fst es @ map h_name (edge_hosts_of es))"
    and e: "(k, e) \<in> set (t_edges (config_topology ko kv cs es))"
  shows "e_name e = k \<and> distinct (e_neighbors e) \<and>
    set (e_neighbors e) = set (dkeys (filter (\<lambda>(_, h). h_switch h = k) (t_hosts (config_topology ko kv cs es))))"
proof -
  note sets = config_sets [OF ko names, of kv]
  from e obtain n d hs where e: "(n, d, hs) \<in> set es" "k = n" "e = edge_of (n, d, hs)" unfolding sets by auto
  then obtain as bs where "es = as @ (n, d, hs) # bs" by (auto dest: split_list)
  then have "map h_name (edge_hosts_of es) = map h_name (edge_hosts_of as) @ map h_name hs @ map h_name (edge_hosts_of bs)"
    by (simp add: edge_hosts_of_def)
  with names have "distinct (map h_name hs)" by simp
  moreover have "set hs = {h \<in> set (edge_hosts_of es). h_switch h = n}" using line_hosts [OF ok _ e(1)] names by simp
  moreover have "set (dkeys (filter (\<lambda>(_, h). h_switch h = n) (t_hosts (config_topology ko kv cs es))))
      = h_name ` {h \<in> set (edge_hosts_of es). h_switch h = n}"
    unfolding set_map set_filter sets by force
  ultimately show ?thesis by (simp add: e(2,3) edge_of_def del: set_map) (simp only: set_map)
qed

lemma config_wf:
  assumes ko: "is_order ko" and ok: "config_ok cs es"
    and names: "distinct (map c_name cs @ map fst es @ map h_name (edge_hosts_of es))"
    and dpids: "distinct (map c_dpid cs @ map (fst \<circ> snd) es)"
    and eths: "distinct (map h_eth (edge_hosts_of es))"
  shows "wf_topology (config_topology ko kv cs es)"
proof -
  let ?t = "config_topology ko kv cs es"
  note sets = config_sets [OF ko names, of kv]
  have keys: "distinct (dkeys (t_cores ?t) @ dkeys (t_edges ?t) @ dkeys (t_hosts ?t))"
  proof -
    have "mset (dkeys (t_cores ?t) @ dkeys (t_edges ?t) @ dkeys (t_hosts ?t)) = mset (map c_name cs @ map fst es @ map h_name (edge_hosts_of es))"
      using ko unfolding config_fields by (simp add: is_order_def comp_def)
    then show ?thesis using names by (metis mset_eq_imp_distinct_iff)
  qed
  have et: "distinct (map h_eth (dvals (t_hosts ?t)))"
    unfolding config_fields by (rule distinct_dvals_reorder [OF ko]) (use names eths in \<open>simp_all add: comp_def\<close>)
  have c: "\<forall>(k, c) \<in> set (t_cores ?t). c_name c = k" unfolding sets by auto
  note en = config_neighbors [OF ko ok names, of _ _ kv]
  then have e: "\<forall>(k, e) \<in> set (t_edges ?t). e_name e = k \<and> distinct (e_neighbors e)" by blast
  from en have nb: "\<forall>(k, e) \<in> set (t_edges ?t).
        set (e_neighbors e) = set (dkeys (filter (\<lambda>(_, h). h_switch h = k) (t_hosts ?t)))" by blast
  have host_edge: "(n, d, hs) \<in> set es \<Longrightarrow> h \<in> set hs \<Longrightarrow> h_switch h = n" for n d hs h
    using ok by (auto simp: config_ok_def list_all_iff edge_text_ok_def host_text_ok_def)
  have ks: "set (dkeys (t_edges ?t)) = fst ` set es" using sets(2) by (simp add: image_image)
  have h: "\<forall>(k, h) \<in> set (t_hosts ?t). h_name h = k \<and> h_switch h \<in> set (dkeys (t_edges ?t))"
    unfolding ks unfolding sets using host_edge by (auto simp: edge_hosts_of_def intro: rev_image_eqI)
  have ports: "t_ports ?t = setPorts (t_cores ?t) (t_edges ?t)" by (simp add: config_topology_def Let_def)
  show ?thesis unfolding wf_topology_def
    by (intro conjI ports keys c e h et nb config_dpids [OF ko names dpids])
qed

section \<open>The order of the names\<close>

lemma nm_nat: "0 \<le> i \<Longrightarrow> nm c i = c # str_of_nat (nat i)"
  by (simp add: nm_def str_of_int_def)

lemma natural_sort_nm: "\<not> is_digit c \<Longrightarrow> 0 \<le> i \<Longrightarrow> natural_sort (nm c i) = [PStr [c], PInt i, PStr []]"
  by (simp add: nm_nat natural_sort_name)

lemma node_order_nm:
  assumes "mset xs = mset (map (nm c) ks)" and "sorted ks" and "\<forall>i \<in> set ks. 0 \<le> i" and "\<not> is_digit c"
  shows "node_order xs = map (nm c) ks"
  unfolding node_order_def
proof (rule sort_key_inj_key_eq [OF assms(1)])
  have x: "set xs = nm c ` set ks" using assms(1) by (metis set_map set_mset_mset)
  show "inj_on natural_sort (set xs)"
    unfolding x using assms(3,4) by (auto simp: inj_on_def natural_sort_nm)
  have "sorted (map (\<lambda>i. [PStr [c], PInt i, PStr []]) ks)"
    unfolding sorted_map by (rule sorted_wrt_mono_rel [OF _ assms(2)]) auto
  moreover have "map natural_sort (map (nm c) ks) = map (\<lambda>i. [PStr [c], PInt i, PStr []]) ks"
    using assms(3,4) natural_sort_nm by simp
  ultimately show "sorted (map natural_sort (map (nm c) ks))" by (simp only:)
qed

lemma letters: "\<not> is_digit (CHR ''s'')" "\<not> is_digit (CHR ''h'')" "\<not> is_space (CHR ''s'')" "\<not> is_space (CHR ''h'')"
  by (simp_all add: is_digit_def is_space_def)

lemma word_nm: "\<not> is_space c \<Longrightarrow> c \<noteq> CHR '','' \<Longrightarrow> word (nm c i)"
  using word_str_of_int [of i] by (simp add: word_def nm_def)

section \<open>What the writer describes\<close>

definition host_vlans :: "dc \<Rightarrow> string \<Rightarrow> int list" where
  "host_vlans d name = (case map_of (dc_vlanMap d) name of Some v \<Rightarrow> [v] | None \<Rightarrow> [0..dc_vlans d - 1])"

lemma getVlan_text: "atom_text (getVlan d name) = print_vlans (host_vlans d name)"
  by (simp add: getVlan_def host_vlans_def print_vlans_def py_range_def split: option.split)

definition fat_cores :: "dc \<Rightarrow> int \<Rightarrow> int \<Rightarrow> core_switch list" where
  "fat_cores d n hpe = map (\<lambda>(i, s). \<lparr>c_name = nm CHR ''s'' s, c_dpid = s,
     c_vlans = core_vlans (dc_vlans d) (n - 1) (int i)\<rparr>) (enumerate 0 (core_ids n hpe))"

definition fat_host :: "dc \<Rightarrow> (int \<Rightarrow> string) \<Rightarrow> (int \<Rightarrow> string) \<Rightarrow> string \<Rightarrow> int \<Rightarrow> host" where
  "fat_host d ip mac sw h = \<lparr>h_name = nm CHR ''h'' h, h_ip = ip h, h_eth = mac h, h_switch = sw,
     h_vlans = host_vlans d (nm CHR ''h'' h)\<rparr>"

definition fat_edges :: "dc \<Rightarrow> int \<Rightarrow> int \<Rightarrow> (int \<Rightarrow> string) \<Rightarrow> (int \<Rightarrow> string) \<Rightarrow> (string \<times> int \<times> host list) list" where
  "fat_edges d n hpe ip mac = map (\<lambda>s. (nm CHR ''s'' s, s, map (fat_host d ip mac (nm CHR ''s'' s)) (edge_host_ids n hpe s))) (edge_ids n hpe)"

text \<open>What the file needs of the network: the switches have the datapath ids of their names, the hosts addresses.\<close>

definition switch_ready :: "net \<Rightarrow> int \<Rightarrow> bool" where
  "switch_ready net s = (case map_of (nt_nodes net) (nm CHR ''s'' s) of None \<Rightarrow> False
     | Some nd \<Rightarrow> nd_name nd = nm CHR ''s'' s \<and>
         (case defaultDpid (nm CHR ''s'' s) None of Inl _ \<Rightarrow> False | Inr dp \<Rightarrow> nd_dpid nd = Some dp))"

definition host_ready :: "net \<Rightarrow> (int \<Rightarrow> string) \<Rightarrow> (int \<Rightarrow> string) \<Rightarrow> int \<Rightarrow> bool" where
  "host_ready net ip mac h = (case map_of (nt_nodes net) (nm CHR ''h'' h) of None \<Rightarrow> False
     | Some nd \<Rightarrow> nd_name nd = nm CHR ''h'' h \<and> node_IP nd = Inr (Some (ip h)) \<and> node_MAC nd = Inr (Some (mac h)))"

definition net_ready :: "net \<Rightarrow> int \<Rightarrow> int \<Rightarrow> (int \<Rightarrow> string) \<Rightarrow> (int \<Rightarrow> string) \<Rightarrow> bool" where
  "net_ready net n hpe ip mac \<longleftrightarrow> list_all (switch_ready net) (core_ids n hpe @ edge_ids n hpe) \<and>
     list_all (host_ready net ip mac) (host_ids n hpe)"

lemma switch_ids_range:
  assumes "s \<in> set (core_ids n hpe @ edge_ids n hpe)"
  shows "101 \<le> s" "s < firstSwitch (n * hpe) + 2 * n"
  using assms by (auto simp: core_ids_def edge_ids_def firstSwitch_def)

lemma switch_dpid:
  assumes "switch_ready net s" and "0 \<le> s" and "s < 2 ^ 63"
  shows "rbind (dget (nt_nodes net) (nm CHR ''s'' s)) (\<lambda>nd. rbind (node_dpid nd) (\<lambda>dpid. Inr (nd_name nd, dpid)))
    = Inr (nm CHR ''s'' s, s)"
proof -
  obtain nd dp where nd: "map_of (nt_nodes net) (nm CHR ''s'' s) = Some nd" "nd_name nd = nm CHR ''s'' s"
     "nd_dpid nd = Some dp" "defaultDpid (nm CHR ''s'' s) None = Inr dp"
    using assms(1) by (auto simp: switch_ready_def split: option.splits sum.splits)
  have lt: "nat s < 2 ^ 63" using assms(3) by (simp add: nat_less_iff)
  then have "py_int16 dp = Inr s"
    using dpid_of_name(1,3) [OF letters(1) lt] nd(4) assms(2) by (simp add: nm_nat)
  then show ?thesis by (simp add: dget_def nd node_dpid_def)
qed

lemma enum_map: "enumerate k (map f xs) = map (\<lambda>(i, x). (i, f x)) (enumerate k xs)"
  by (rule nth_equalityI) (auto simp: nth_enumerate_eq split: prod.splits)

lemma switch_named:
  assumes "net_ready net n hpe ip mac" and "firstSwitch (n * hpe) + 2 * n \<le> 2 ^ 63" and s: "s \<in> set (core_ids n hpe @ edge_ids n hpe)"
  obtains nd where "dget (nt_nodes net) (nm CHR ''s'' s) = Inr nd" "node_dpid nd = Inr s" "nd_name nd = nm CHR ''s'' s"
proof -
  have "switch_ready net s" using assms(1) s by (simp add: net_ready_def list_all_iff)
  moreover have "0 \<le> s" "s < 2 ^ 63" using switch_ids_range [OF s] assms(2) by auto
  ultimately show ?thesis using switch_dpid [of net s] that by (auto simp: rbind_eq_Inr)
qed

lemma core_line_text:
  assumes ready: "net_ready net n hpe ip mac" "firstSwitch (n * hpe) + 2 * n \<le> 2 ^ 63"
    and n: "1 \<le> n" and s: "s \<in> set (core_ids n hpe)"
  shows "core_line net d (map (nm CHR ''s'') (core_ids n hpe)) (int i) (nm CHR ''s'' s)
    = Inr (end_line (print_core \<lparr>c_name = nm CHR ''s'' s, c_dpid = s, c_vlans = core_vlans (dc_vlans d) (n - 1) (int i)\<rparr>))"
proof -
  have len: "int (length (map (nm CHR ''s'') (core_ids n hpe))) = n - 1" using n by (simp add: core_ids_def)
  obtain nd where "dget (nt_nodes net) (nm CHR ''s'' s) = Inr nd" "node_dpid nd = Inr s" "nd_name nd = nm CHR ''s'' s"
    using switch_named [OF ready] s by auto
  then show ?thesis unfolding core_line_def len by (simp add: print_core_def print_vlans_def end_line_def)
qed

lemma host_field_text:
  assumes "net_ready net n hpe ip mac" and "h \<in> set (host_ids n hpe)"
  shows "host_field net d (nm CHR ''h'' h) = Inr (print_host (fat_host d ip mac sw h))"
proof -
  have "host_ready net ip mac h" using assms by (auto simp: net_ready_def list_all_iff)
  then show ?thesis
    by (auto simp: host_ready_def host_field_def dget_def opt_text_def print_host_def fat_host_def getVlan_text
        split: option.splits)
qed

text \<open>Of the neighbours of an edge switch, the filter of the writer keeps the hosts.\<close>

lemma keep_hosts:
  assumes ft: "fattree_spec n hpe ft" and xs: "set xs \<subseteq> set (ft_nodes ft)"
  shows "rfilter (\<lambda>x. rbind (isSwitch (ft_topo ft) x) (\<lambda>b. Inr (\<not> b))) xs = Inr (filter (\<lambda>x. x \<in> set (ft_hosts ft)) xs)"
proof -
  have "isSwitch (ft_topo ft) x = Inr (x \<notin> set (ft_hosts ft))" if x: "x \<in> set (ft_nodes ft)" for x
  proof -
    have "node_base (ft_topo ft) x = (if x \<in> set (ft_hosts ft) then 0 else 1)" using ft x unfolding fattree_spec_def by blast
    then show ?thesis using isSwitch_Inr [of x "ft_topo ft"] x unfolding ft_nodes_def by simp
  qed
  then show ?thesis using xs by (induction xs) simp_all
qed

lemma edge_adjacent_hosts:
  assumes ft: "fattree_spec n hpe ft" and s: "s \<in> set (edge_ids n hpe)"
  shows "rbind (dget (ft_links ft) (nm CHR ''s'' s)) (rfilter (\<lambda>x. rbind (isSwitch (ft_topo ft) x) (\<lambda>b. Inr (\<not> b))))
    = Inr (map (nm CHR ''h'') (edge_host_ids n hpe s))"
proof -
  let ?C = "map (nm CHR ''s'') (core_ids n hpe)" and ?H = "map (nm CHR ''h'') (edge_host_ids n hpe s)"
  have lists: "ft_cores ft = ?C" "ft_edges ft = map (nm CHR ''s'') (edge_ids n hpe)"
    "ft_hosts ft = map (nm CHR ''h'') (host_ids n hpe)" and nodes: "ft_nodes ft = ft_cores ft @ ft_edges ft @ ft_hosts ft"
    using ft unfolding fattree_spec_def by blast+
  have "nm CHR ''s'' s \<in> set (ft_nodes ft)" using s by (simp add: nodes lists)
  then have "map_of (ft_links ft) (nm CHR ''s'' s) = Some (neighbours (ft_topo ft) (nm CHR ''s'' s))"
    using ft unfolding fattree_spec_def by blast
  moreover have "neighbours (ft_topo ft) (nm CHR ''s'' s) = ?C @ ?H"
    using ft s lists(1) unfolding fattree_spec_def by metis
  ultimately have links: "dget (ft_links ft) (nm CHR ''s'' s) = Inr (?C @ ?H)" by (simp add: dget_def)
  have hin: "set ?H \<subseteq> set (ft_hosts ft)" by (auto simp: lists edge_host_ids_def)
  have "filter (\<lambda>x. x \<in> set (ft_hosts ft)) ?C = []" by (auto simp: filter_empty_conv lists)
  moreover have "filter (\<lambda>x. x \<in> set (ft_hosts ft)) ?H = ?H" using hin by (intro filter_True) blast
  moreover have "set (?C @ ?H) \<subseteq> set (ft_nodes ft)" using hin by (auto simp: nodes lists)
  ultimately show ?thesis using keep_hosts [OF ft, of "?C @ ?H"] by (simp add: links del: set_append)
qed

lemma edge_line_text:
  assumes ft: "fattree_spec n hpe ft" and ready: "net_ready net n hpe ip mac" "firstSwitch (n * hpe) + 2 * n \<le> 2 ^ 63"
    and s: "s \<in> set (edge_ids n hpe)"
  shows "edge_line net d ft (nm CHR ''s'' s)
    = Inr (end_line (print_edge (nm CHR ''s'' s, s, map (fat_host d ip mac (nm CHR ''s'' s)) (edge_host_ids n hpe s))))"
proof -
  have "host_field net d (nm CHR ''h'' h) = Inr (print_host (fat_host d ip mac (nm CHR ''s'' s) h))"
    if "h \<in> set (edge_host_ids n hpe s)" for h
    using host_field_text [OF ready(1)] that by (auto simp: edge_host_ids_def)
  then have fields: "rmap (host_field net d) (map (nm CHR ''h'') (edge_host_ids n hpe s))
      = Inr (map print_host (map (fat_host d ip mac (nm CHR ''s'' s)) (edge_host_ids n hpe s)))"
    unfolding rmap_map map_map by (intro rmap_Inr) simp
  obtain nd where "dget (nt_nodes net) (nm CHR ''s'' s) = Inr nd" "node_dpid nd = Inr s" "nd_name nd = nm CHR ''s'' s"
    using switch_named [OF ready] s by auto
  then show ?thesis using edge_adjacent_hosts [OF ft s]
    by (auto simp: edge_line_def rbind_eq_Inr fields print_edge_def end_line_def simp del: map_map)
qed

lemma writeConfig_text:
  assumes ft: "fattree_spec n hpe ft" and n: "1 \<le> n" and ready: "net_ready net n hpe ip mac"
    and small: "firstSwitch (n * hpe) + 2 * n \<le> 2 ^ 63"
  shows "writeConfig net ft d = Inr (concat (map end_line
     (config_lines (fat_cores d n hpe) (fat_edges d n hpe ip mac) (map (nm CHR ''h'') (host_ids n hpe)))))"
proof -
  let ?C = "map (nm CHR ''s'') (core_ids n hpe)"
  have lists: "ft_cores ft = ?C" "ft_edges ft = map (nm CHR ''s'') (edge_ids n hpe)"
    "ft_hosts ft = map (nm CHR ''h'') (host_ids n hpe)"
    using ft unfolding fattree_spec_def by blast+
  have "rmap (\<lambda>(i, c). core_line net d (ft_cores ft) (int i) c) (enumerate 0 (ft_cores ft))
      = Inr (map (\<lambda>c. end_line (print_core c)) (fat_cores d n hpe))"
    unfolding lists(1) enum_map rmap_map fat_cores_def map_map
    by (intro rmap_Inr) (auto simp: in_set_enumerate_eq core_line_text [OF ready small n])
  moreover have "rmap (edge_line net d ft) (ft_edges ft) = Inr (map (\<lambda>e. end_line (print_edge e)) (fat_edges d n hpe ip mac))"
    unfolding lists(2) rmap_map fat_edges_def map_map
    by (intro rmap_Inr) (simp add: edge_line_text [OF ft ready small])
  ultimately show ?thesis by (simp add: writeConfig_def lists(3) config_lines_def end_line_def comp_def)
qed

section \<open>The description is sound\<close>

lemma distinct_concat_map:
  assumes "distinct xs" and "\<And>x. x \<in> set xs \<Longrightarrow> distinct (f x)"
    and "\<And>x y. x \<in> set xs \<Longrightarrow> y \<in> set xs \<Longrightarrow> x \<noteq> y \<Longrightarrow> set (f x) \<inter> set (f y) = {}"
  shows "distinct (concat (map f xs))"
  using assms by (induction xs) fastforce+

definition fat_host_ids :: "int \<Rightarrow> int \<Rightarrow> int list" where
  "fat_host_ids n hpe = concat (map (edge_host_ids n hpe) (edge_ids n hpe))"

lemma fat_host_ids:
  assumes "1 \<le> n"
  shows "distinct (fat_host_ids n hpe)" and "set (fat_host_ids n hpe) = set (host_ids n hpe)"
proof -
  show "distinct (fat_host_ids n hpe)"
    unfolding fat_host_ids_def
    by (rule distinct_concat_map) (auto simp: edge_ids_def edge_host_ids_def host_ids_def)
  show "set (fat_host_ids n hpe) = set (host_ids n hpe)"
    using host_edge_id [of n hpe] assms by (auto simp: fat_host_ids_def edge_host_ids_def)
qed

lemma fat_hosts:
  "map h_name (edge_hosts_of (fat_edges d n hpe ip mac)) = map (nm CHR ''h'') (fat_host_ids n hpe)"
  "map h_eth (edge_hosts_of (fat_edges d n hpe ip mac)) = map mac (fat_host_ids n hpe)"
  "h \<in> set (edge_hosts_of (fat_edges d n hpe ip mac)) \<Longrightarrow> \<exists>i. h_name h = nm CHR ''h'' i \<and> h_vlans h = host_vlans d (h_name h) \<and> h_eth h = mac i"
  by (auto simp: edge_hosts_of_def fat_edges_def fat_host_ids_def fat_host_def map_concat comp_def)

lemma fat_core_names: "map c_name (fat_cores d n hpe) = map (nm CHR ''s'') (core_ids n hpe)"
  "map c_dpid (fat_cores d n hpe) = core_ids n hpe"
  by (rule nth_equalityI; simp add: fat_cores_def nth_enumerate_eq)+

lemma fat_edge_names: "map fst (fat_edges d n hpe ip mac) = map (nm CHR ''s'') (edge_ids n hpe)"
  "map (fst \<circ> snd) (fat_edges d n hpe ip mac) = edge_ids n hpe"
  by (simp_all add: fat_edges_def comp_def)

definition dc_ready :: "dc \<Rightarrow> bool" where
  "dc_ready d \<longleftrightarrow> 1 \<le> dc_vlans d \<and> list_all (\<lambda>v. 0 \<le> v \<and> v < dc_vlans d) (dvals (dc_vlanMap d))"

lemma host_vlans_ok:
  assumes "dc_ready d"
  shows "host_vlans d name \<noteq> []" and "0 \<le> hd (host_vlans d name) \<and> hd (host_vlans d name) < dc_vlans d"
proof -
  have v: "0 \<le> v \<and> v < dc_vlans d" if "map_of (dc_vlanMap d) name = Some v" for v
  proof -
    have "v \<in> set (dvals (dc_vlanMap d))" using map_of_SomeD [OF that] by force
    then show ?thesis using assms unfolding dc_ready_def list_all_iff by blast
  qed
  have u: "[0..dc_vlans d - 1] = 0 # [1..dc_vlans d - 1]" using assms upto_rec1 [of 0 "dc_vlans d - 1"] by (simp add: dc_ready_def)
  show "host_vlans d name \<noteq> []" by (simp add: host_vlans_def u split: option.split)
  show "0 \<le> hd (host_vlans d name) \<and> hd (host_vlans d name) < dc_vlans d"
    using v assms by (simp add: host_vlans_def u dc_ready_def split: option.split)
qed

lemma fat_config_ok:
  assumes n: "2 \<le> n" and d: "dc_ready d" and words: "\<forall>h \<in> set (host_ids n hpe). word (ip h) \<and> word (mac h)"
  shows "config_ok (fat_cores d n hpe) (fat_edges d n hpe ip mac)"
    and "distinct (map c_name (fat_cores d n hpe) @ map fst (fat_edges d n hpe ip mac) @ map h_name (edge_hosts_of (fat_edges d n hpe ip mac)))"
    and "distinct (map c_dpid (fat_cores d n hpe) @ map (fst \<circ> snd) (fat_edges d n hpe ip mac))"
proof -
  have n1: "1 \<le> n" using n by simp
  have dis: "distinct (core_ids n hpe)" "distinct (edge_ids n hpe)" "set (core_ids n hpe) \<inter> set (edge_ids n hpe) = {}"
    by (auto simp: core_ids_def edge_ids_def)
  show names: "distinct (map c_name (fat_cores d n hpe) @ map fst (fat_edges d n hpe ip mac) @ map h_name (edge_hosts_of (fat_edges d n hpe ip mac)))"
    unfolding fat_core_names fat_edge_names fat_hosts using dis fat_host_ids(1) [OF n1, of hpe] by auto
  show "distinct (map c_dpid (fat_cores d n hpe) @ map (fst \<circ> snd) (fat_edges d n hpe ip mac))"
    unfolding fat_core_names fat_edge_names using dis by simp
  have "core_ids n hpe \<noteq> []" "edge_ids n hpe \<noteq> []" using n by (simp_all add: core_ids_def edge_ids_def)
  then have ne: "fat_cores d n hpe \<noteq> []" "fat_edges d n hpe ip mac \<noteq> []"
    using fat_core_names(2) [of d n hpe] fat_edge_names(2) [of d n hpe ip mac] by auto
  have c: "list_all core_text_ok (fat_cores d n hpe)"
    unfolding list_all_iff fat_cores_def core_text_ok_def using word_nm [OF letters(3)] by auto
  have e: "list_all edge_text_ok (fat_edges d n hpe ip mac)"
    unfolding list_all_iff fat_edges_def edge_text_ok_def
    using word_nm [OF letters(3)] word_nm [OF letters(4)] words host_vlans_ok(1) [OF d]
    by (auto simp: list_all_iff host_text_ok_def fat_host_def edge_host_ids_def)
  show "config_ok (fat_cores d n hpe) (fat_edges d n hpe ip mac)"
    using ne c e names by (simp add: config_ok_def)
qed

section \<open>The deployed topology\<close>

lemma randMac_word: "word (randMac r)"
proof -
  have "randMac r \<noteq> []" using randMac_bytes [of r] by (cases "randMac r") (auto simp: py_int16_def)
  moreover have "\<not> is_space c \<and> c \<noteq> CHR '',''" if "c \<in> set (randMac r)" for c
    using mac_chars [OF that]
  proof
    assume "\<exists>d < 16. c = hex_char d"
    then obtain d where d: "d < 16" "c = hex_char d" by blast
    have "hex_char d \<noteq> CHR '',''" using hex_char_code [OF d(1)] by auto
    then show ?thesis unfolding d(2) using hex_char_plain(1) [OF d(1)] by blast
  qed simp
  ultimately show ?thesis by (simp add: word_def)
qed

text \<open>At a switch, the controller's port numbers are those of the emulated network.\<close>

definition ports_agree :: "topo \<Rightarrow> topology \<Rightarrow> string \<Rightarrow> bool" where
  "ports_agree tp t sw \<longleftrightarrow> (\<forall>p m q. map_of (port_map tp sw) p = Some (m, q) \<longrightarrow>
     port_at t sw (PInt p) = Inr (PStr m) \<and> port_at t sw (PStr m) = Inr (PInt p))"

lemma ports_agreeI:
  assumes wf: "wf_topology t" and pw: "ports_wf tp" and base: "node_base tp sw = 1"
    and adj: "adjacent t sw = neighbours tp sw" and dist: "distinct (neighbours tp sw)"
  shows "ports_agree tp t sw"
  unfolding ports_agree_def
proof (intro allI impI)
  fix p m q assume "map_of (port_map tp sw) p = Some (m, q)"
  then obtain i where i: "i < length (port_map tp sw)" "port_map tp sw ! i = (p, m, q)" by (metis in_set_conv_nth map_of_SomeD)
  have "dkeys (port_map tp sw) = map int [1..<1 + length (port_map tp sw)]" using pw base unfolding ports_wf_def by metis
  then have "dkeys (port_map tp sw) ! i = map int [1..<1 + length (port_map tp sw)] ! i" by simp
  then have p: "p = 1 + int i" using i by (simp del: upt_Suc)
  have m: "m = neighbours tp sw ! i" and len: "i < length (neighbours tp sw)" using i by (simp_all add: neighbours_def)
  have "port_at t sw (PInt (1 + int i)) = Inr (PStr (adjacent t sw ! i))" by (rule tp.node_at [OF wf]) (simp add: adj len)
  moreover have "port_at t sw (PStr m) = Inr (PInt (1 + int (idx (adjacent t sw) m)))" by (rule tp.number_of [OF wf]) (simp add: adj m len)
  moreover have "idx (neighbours tp sw) m = i"
    using idx_nth [of m "neighbours tp sw"] len m dist by (metis nth_eq_iff_index_eq nth_mem)
  ultimately show "port_at t sw (PInt p) = Inr (PStr m) \<and> port_at t sw (PStr m) = Inr (PInt p)"
    using p m adj by simp
qed

lemma fat_adjacent:
  assumes n: "2 \<le> n" and ko: "is_order ko" and ok: "config_ok (fat_cores d n hpe) (fat_edges d n hpe ip mac)"
    and wf: "wf_topology (config_topology ko kv (fat_cores d n hpe) (fat_edges d n hpe ip mac))"
  shows "c \<in> set (core_ids n hpe) \<Longrightarrow> adjacent (config_topology ko kv (fat_cores d n hpe) (fat_edges d n hpe ip mac)) (nm CHR ''s'' c)
      = map (nm CHR ''s'') (edge_ids n hpe)"
    and "s \<in> set (edge_ids n hpe) \<Longrightarrow> adjacent (config_topology ko kv (fat_cores d n hpe) (fat_edges d n hpe ip mac)) (nm CHR ''s'' s)
      = map (nm CHR ''s'') (core_ids n hpe) @ map (nm CHR ''h'') (edge_host_ids n hpe s)"
proof -
  let ?cs = "fat_cores d n hpe" and ?es = "fat_edges d n hpe ip mac"
  let ?t = "config_topology ko kv ?cs ?es"
  have nonneg: "\<forall>i \<in> set (core_ids n hpe). 0 \<le> i" "\<forall>i \<in> set (edge_ids n hpe). 0 \<le> i" "\<forall>i \<in> set (edge_host_ids n hpe s). 0 \<le> i" for s
    using n by (auto simp: core_ids_def edge_ids_def firstSwitch_def edge_host_ids_def host_ids_def)
  have srt: "sorted (core_ids n hpe)" "sorted (edge_ids n hpe)" "sorted (edge_host_ids n hpe s)" for s
    by (simp_all add: core_ids_def edge_ids_def edge_host_ids_def host_ids_def sorted_filter [of id, simplified])
  have "mset (dkeys (t_cores ?t)) = mset (map c_name ?cs)" "mset (dkeys (t_edges ?t)) = mset (map fst ?es)"
    using ko by (simp_all add: config_topology_def Let_def is_order_def comp_def)
  then have k: "mset (dkeys (t_cores ?t)) = mset (map (nm CHR ''s'') (core_ids n hpe))"
    "mset (dkeys (t_edges ?t)) = mset (map (nm CHR ''s'') (edge_ids n hpe))"
    by (simp_all only: fat_core_names fat_edge_names)
  have oc: "node_order (dkeys (t_cores ?t)) = map (nm CHR ''s'') (core_ids n hpe)"
    by (rule node_order_nm [OF k(1) srt(1) nonneg(1) letters(1)])
  have oe: "node_order (dkeys (t_edges ?t)) = map (nm CHR ''s'') (edge_ids n hpe)"
    by (rule node_order_nm [OF k(2) srt(2) nonneg(2) letters(1)])
  have keys: "set (dkeys (t_cores ?t)) = nm CHR ''s'' ` set (core_ids n hpe)" "set (dkeys (t_edges ?t)) = nm CHR ''s'' ` set (edge_ids n hpe)"
    using k by (metis set_mset_mset set_map)+
  { assume c: "c \<in> set (core_ids n hpe)"
    then have "nm CHR ''s'' c \<notin> set (dkeys (t_edges ?t))" "nm CHR ''s'' c \<in> set (dkeys (t_cores ?t))"
      unfolding keys using ids_disjoint [of n c hpe] n by auto
    then show "adjacent ?t (nm CHR ''s'' c) = map (nm CHR ''s'') (edge_ids n hpe)"
      using oe key_lookup_None [of "nm CHR ''s'' c" "t_edges ?t"] by (simp add: adjacent_def del: set_map) }
  assume s: "s \<in> set (edge_ids n hpe)"
  let ?e = "(nm CHR ''s'' s, s, map (fat_host d ip mac (nm CHR ''s'' s)) (edge_host_ids n hpe s))"
  have "?e \<in> set ?es" using s by (auto simp: fat_edges_def)
  moreover have "map_of (t_edges ?t) = map_of (map (\<lambda>e. (fst e, edge_of e)) ?es)"
    using ko by (simp add: config_topology_def Let_def)
  moreover have "distinct (map fst (map (\<lambda>e. (fst e, edge_of e)) ?es))"
    using ok by (simp add: config_ok_def comp_def)
  ultimately have e: "map_of (t_edges ?t) (nm CHR ''s'' s) = Some (edge_of ?e)"
    by (metis (no_types, lifting) fst_conv image_eqI list.set_map map_of_is_SomeI)
  have "map h_name (map (fat_host d ip mac (nm CHR ''s'' s)) (edge_host_ids n hpe s)) = map (nm CHR ''h'') (edge_host_ids n hpe s)"
    by (simp add: fat_host_def)
  then have nb: "e_neighbors (edge_of ?e) = map (nm CHR ''h'') (edge_host_ids n hpe s)" by (simp add: edge_of_def del: map_map)
  have "node_order (e_neighbors (edge_of ?e)) = map (nm CHR ''h'') (edge_host_ids n hpe s)"
    unfolding nb by (rule node_order_nm [OF refl srt(3) nonneg(3) letters(2)])
  then show "adjacent ?t (nm CHR ''s'' s) = map (nm CHR ''s'') (core_ids n hpe) @ map (nm CHR ''h'') (edge_host_ids n hpe s)"
    using oc by (simp add: adjacent_def e)
qed

lemma fat_vlans_covered:
  assumes n: "2 \<le> n" and d: "dc_ready d" and ko: "is_order ko"
    and names: "distinct (map h_name (edge_hosts_of (fat_edges d n hpe ip mac)))" "distinct (map c_name (fat_cores d n hpe))"
  shows "vlans_covered (config_topology ko kv (fat_cores d n hpe) (fat_edges d n hpe ip mac))"
  unfolding vlans_covered_def
proof
  let ?cs = "fat_cores d n hpe" and ?hs = "edge_hosts_of (fat_edges d n hpe ip mac)"
  let ?t = "config_topology ko kv ?cs (fat_edges d n hpe ip mac)"
  fix h assume "h \<in> set (dvals (t_hosts ?t))"
  moreover have "set (t_hosts ?t) = set (map (\<lambda>h. (h_name h, h)) ?hs)"
    using ko names(1) by (simp add: config_topology_def Let_def comp_def)
  ultimately have "h \<in> set ?hs" by auto
  then have v: "h_vlans h = host_vlans d (h_name h)" using fat_hosts(3) by blast
  let ?v = "hd (h_vlans h)"
  have r: "h_vlans h \<noteq> []" "0 \<le> ?v" "?v < dc_vlans d" using host_vlans_ok [OF d] unfolding v by blast+
  define i where "i = nat (?v mod (n - 1))"
  have im: "int i = ?v mod (n - 1)" using n by (simp add: i_def)
  have "?v mod (n - 1) < n - 1" using n by (intro pos_mod_bound) simp
  then have i: "i < length (core_ids n hpe)" using im by (simp add: core_ids_def)
  let ?c = "\<lparr>c_name = nm CHR ''s'' (core_ids n hpe ! i), c_dpid = core_ids n hpe ! i, c_vlans = core_vlans (dc_vlans d) (n - 1) (int i)\<rparr>"
  have "?cs ! i = ?c" "length ?cs = length (core_ids n hpe)" using i by (simp_all add: fat_cores_def nth_enumerate_eq)
  then have "?c \<in> set ?cs" using i by (metis nth_mem)
  moreover have "?v \<in> set (c_vlans ?c)" using r im by (simp add: core_vlans_def py_range_def)
  ultimately obtain core where core: "core \<in> set ?cs" "?v \<in> set (c_vlans core)" by blast
  have "set (t_cores ?t) = (\<lambda>c. (c_name c, c)) ` set ?cs"
    using ko names(2) by (simp add: config_topology_def Let_def comp_def)
  then have "(c_name core, core) \<in> set (t_cores ?t)" using core(1) by blast
  then have "core \<in> set (dvals (t_cores ?t))" by force
  then have "find (\<lambda>core. ?v \<in> set (c_vlans core)) (dvals (t_cores ?t)) \<noteq> None" using core(2) unfolding find_None_iff by blast
  then show "h_vlans h \<noteq> [] \<and> getVlanCore ?t ?v \<noteq> None" using r(1) by (simp add: getVlanCore_def)
qed

lemma fat_keys:
  assumes ko: "is_order ko" and n: "1 \<le> n"
  shows "set (dkeys (t_cores (config_topology ko kv (fat_cores d n hpe) (fat_edges d n hpe ip mac)))) = set (map (nm CHR ''s'') (core_ids n hpe))"
    and "set (dkeys (t_edges (config_topology ko kv (fat_cores d n hpe) (fat_edges d n hpe ip mac)))) = set (map (nm CHR ''s'') (edge_ids n hpe))"
    and "set (dkeys (t_hosts (config_topology ko kv (fat_cores d n hpe) (fat_edges d n hpe ip mac)))) = set (map (nm CHR ''h'') (host_ids n hpe))"
proof -
  let ?t = "config_topology ko kv (fat_cores d n hpe) (fat_edges d n hpe ip mac)"
  have keys: "set (dkeys (t_cores ?t)) = set (map c_name (fat_cores d n hpe))"
    "set (dkeys (t_edges ?t)) = set (map fst (fat_edges d n hpe ip mac))"
    "set (dkeys (t_hosts ?t)) = set (map h_name (edge_hosts_of (fat_edges d n hpe ip mac)))"
    using is_order_set [OF ko] ko by (simp_all add: config_fields comp_def del: set_map)
  show "set (dkeys (t_cores ?t)) = set (map (nm CHR ''s'') (core_ids n hpe))"
    and "set (dkeys (t_edges ?t)) = set (map (nm CHR ''s'') (edge_ids n hpe))"
    unfolding keys fat_core_names fat_edge_names by simp_all
  show "set (dkeys (t_hosts ?t)) = set (map (nm CHR ''h'') (host_ids n hpe))"
    unfolding keys fat_hosts(1) using fat_host_ids(2) [OF n, of hpe] by simp
qed

lemma fat_unicast:
  assumes ko: "is_order ko" and names: "distinct (map h_name (edge_hosts_of (fat_edges d n hpe ip (\<lambda>h. randMac (draw h)))))"
  shows "no_host_eth (config_topology ko kv (fat_cores d n hpe) (fat_edges d n hpe ip (\<lambda>h. randMac (draw h)))) ''ff:ff:ff:ff:ff:ff''"
proof -
  let ?es = "fat_edges d n hpe ip (\<lambda>h. randMac (draw h))"
  have "set (dvals (t_hosts (config_topology ko kv (fat_cores d n hpe) ?es))) = set (edge_hosts_of ?es)"
    using ko names by (simp add: config_fields comp_def image_image)
  moreover have "h_eth h \<noteq> ''ff:ff:ff:ff:ff:ff''" if h: "h \<in> set (edge_hosts_of ?es)" for h
  proof -
    obtain i where "h_eth h = randMac (draw i)" using fat_hosts(3) [OF h] by blast
    then show ?thesis using randMac_unicast by simp
  qed
  ultimately show ?thesis unfolding no_host_eth_def set_map by fastforce
qed

lemma fat_ports_agree:
  assumes n: "2 \<le> n" and ko: "is_order ko" and build: "fattree_spec n hpe ft"
    and ok: "config_ok (fat_cores d n hpe) (fat_edges d n hpe ip mac)"
    and wf: "wf_topology (config_topology ko kv (fat_cores d n hpe) (fat_edges d n hpe ip mac))"
    and x: "x \<in> set (ft_cores ft @ ft_edges ft)"
  shows "ports_agree (ft_topo ft) (config_topology ko kv (fat_cores d n hpe) (fat_edges d n hpe ip mac)) x"
proof -
  let ?t = "config_topology ko kv (fat_cores d n hpe) (fat_edges d n hpe ip mac)"
  have ft: "ports_wf (ft_topo ft)" "ft_cores ft = map (nm CHR ''s'') (core_ids n hpe)" "ft_edges ft = map (nm CHR ''s'') (edge_ids n hpe)"
    "ft_hosts ft = map (nm CHR ''h'') (host_ids n hpe)" using build unfolding fattree_spec_def by blast+
  have "x \<notin> set (ft_hosts ft)" "x \<in> set (ft_nodes ft)"
    using x build unfolding fattree_spec_def ft(2,3,4) by auto
  then have base: "node_base (ft_topo ft) x = 1" using build unfolding fattree_spec_def by simp
  have nb: "neighbours (ft_topo ft) x = adjacent ?t x \<and> distinct (adjacent ?t x)"
  proof (cases "x \<in> set (ft_cores ft)")
    case True
    then obtain c where c: "x = nm CHR ''s'' c" "c \<in> set (core_ids n hpe)" unfolding ft by auto
    have "neighbours (ft_topo ft) x = ft_edges ft" using build True unfolding fattree_spec_def by blast
    then show ?thesis using fat_adjacent(1) [OF n ko ok wf c(2)] ft(3) c(1) by (simp add: edge_ids_def)
  next
    case False
    with x have "x \<in> set (ft_edges ft)" by simp
    then obtain s where s: "x = nm CHR ''s'' s" "s \<in> set (edge_ids n hpe)" unfolding ft by auto
    have "neighbours (ft_topo ft) x = ft_cores ft @ map (nm CHR ''h'') (edge_host_ids n hpe s)"
      using build s unfolding fattree_spec_def by blast
    then show ?thesis using fat_adjacent(2) [OF n ko ok wf s(2)] ft(2) s(1)
      by (auto simp: core_ids_def edge_host_ids_def host_ids_def)
  qed
  then show ?thesis by (intro ports_agreeI [OF wf ft(1) base]) simp_all
qed

lemma deployed:
  fixes kv :: "int list \<Rightarrow> int list"
  assumes n: "2 \<le> n" and build: "fattree_spec n hpe ft" and ready: "net_ready net n hpe ip (\<lambda>h. randMac (draw h))"
    and small: "firstSwitch (n * hpe) + 2 * n \<le> 2 ^ 63" and d: "dc_ready d"
    and ips: "\<forall>h \<in> set (host_ids n hpe). word (ip h)" and macs: "inj_on (\<lambda>h. randMac (draw h)) (set (host_ids n hpe))"
    and ko: "is_order ko"
  defines "t \<equiv> config_topology ko kv (fat_cores d n hpe) (fat_edges d n hpe ip (\<lambda>h. randMac (draw h)))"
  shows "\<exists>cfg. writeConfig net ft d = Inr cfg \<and> topology_parse ko kv (readlines cfg) = Inr t"
    and "wf_topology t" and "vlans_covered t" and "no_host_eth t ''ff:ff:ff:ff:ff:ff''" and "t_cores t \<noteq> []"
    and "set (dkeys (t_cores t)) = set (ft_cores ft)" and "set (dkeys (t_edges t)) = set (ft_edges ft)"
    and "set (dkeys (t_hosts t)) = set (ft_hosts ft)" and "\<forall>sw \<in> set (ft_cores ft @ ft_edges ft). ports_agree (ft_topo ft) t sw"
proof -
  let ?cs = "fat_cores d n hpe" and ?es = "fat_edges d n hpe ip (\<lambda>h. randMac (draw h))"
  let ?hs = "map (nm CHR ''h'') (host_ids n hpe)"
  have n1: "1 \<le> n" using n by simp
  have "\<forall>h \<in> set (host_ids n hpe). word (ip h) \<and> word (randMac (draw h))" using ips randMac_word by blast
  note ok = fat_config_ok [OF n d this]
  have "distinct (map h_eth (edge_hosts_of ?es))"
    unfolding fat_hosts(2) distinct_map using fat_host_ids [OF n1] macs by simp
  then have wf: "wf_topology t" unfolding t_def by (rule config_wf [OF ko ok(1,2,3)])
  have written: "writeConfig net ft d = Inr (concat (map end_line (config_lines ?cs ?es ?hs)))"
    by (rule writeConfig_text [OF build n1 ready small])
  have "list_all word ?hs" using word_nm [OF letters(4)] by (simp add: list_all_iff)
  then have "topology_parse ko kv (readlines (concat (map end_line (config_lines ?cs ?es ?hs)))) = Inr t"
    unfolding t_def using config_parse [OF ok(1)] readlines_lines [OF config_lines_no_newline [OF ok(1)]] by simp
  with written show "\<exists>cfg. writeConfig net ft d = Inr cfg \<and> topology_parse ko kv (readlines cfg) = Inr t" by blast
  show "wf_topology t" by (rule wf)
  show "vlans_covered t" unfolding t_def using fat_vlans_covered [OF n d ko] ok(2) by simp
  show "no_host_eth t ''ff:ff:ff:ff:ff:ff''" unfolding t_def using fat_unicast [OF ko] ok(2) by simp
  have ft: "ft_cores ft = map (nm CHR ''s'') (core_ids n hpe)" "ft_edges ft = map (nm CHR ''s'') (edge_ids n hpe)"
    "ft_hosts ft = ?hs" using build unfolding fattree_spec_def by blast+
  show cores: "set (dkeys (t_cores t)) = set (ft_cores ft)" and "set (dkeys (t_edges t)) = set (ft_edges ft)"
    and "set (dkeys (t_hosts t)) = set (ft_hosts ft)"
    unfolding t_def ft by (rule fat_keys [OF ko n1])+
  have "core_ids n hpe \<noteq> []" using n by (simp add: core_ids_def)
  then have "set (dkeys (t_cores t)) \<noteq> {}" unfolding cores ft by simp
  then show "t_cores t \<noteq> []" by auto
  show "\<forall>sw \<in> set (ft_cores ft @ ft_edges ft). ports_agree (ft_topo ft) t sw"
    using fat_ports_agree [OF n ko build ok(1)] wf unfolding t_def by blast
qed

text \<open>C14: what the datacenter writes, the controller can use: for a fat tree with two or more edge switches, at least one tenant,
  random hardware addresses that turn out distinct, and addresses without blanks or separators, the writer succeeds, the parser accepts the file, and the topology it gives is well formed, covers
  the VLAN of every host by a core switch, and numbers the ports of every switch as the emulated
  network does.\<close>

theorem deployment:
  assumes n: "2 \<le> n" and build: "fattree_spec n hpe ft" and ready: "net_ready net n hpe ip (\<lambda>h. randMac (draw h))"
    and small: "firstSwitch (n * hpe) + 2 * n \<le> 2 ^ 63" and d: "dc_ready d"
    and ips: "\<forall>h \<in> set (host_ids n hpe). word (ip h)" and macs: "inj_on (\<lambda>h. randMac (draw h)) (set (host_ids n hpe))"
    and ko: "is_order ko"
  shows "\<exists>cfg t. writeConfig net ft d = Inr cfg \<and> topology_parse ko kv (readlines cfg) = Inr t \<and> wf_topology t \<and>
    vlans_covered t \<and> no_host_eth t ''ff:ff:ff:ff:ff:ff'' \<and> t_cores t \<noteq> [] \<and>
    set (dkeys (t_cores t)) = set (ft_cores ft) \<and> set (dkeys (t_edges t)) = set (ft_edges ft) \<and> set (dkeys (t_hosts t)) = set (ft_hosts ft) \<and>
    (\<forall>sw \<in> set (ft_cores ft @ ft_edges ft). ports_agree (ft_topo ft) t sw)"
proof -
  note t = deployed [OF assms, of kv]
  obtain cfg where "writeConfig net ft d = Inr cfg"
    "topology_parse ko kv (readlines cfg) = Inr (config_topology ko kv (fat_cores d n hpe) (fat_edges d n hpe ip (\<lambda>h. randMac (draw h))))"
    using t(1) by blast
  with t(2-9) show ?thesis by blast
qed

section \<open>A deployment\<close>

definition demo_ft :: fattree where
  "demo_ft = (case FattreeTopology_build 2 (AInt 5) 1 (topo_init [] [] []) of Inr ft \<Rightarrow> ft
     | Inl _ \<Rightarrow> \<lparr>ft_topo = topo_init [] [] [], ft_cores = [], ft_edges = [], ft_hosts = [], ft_links = []\<rparr>)"

definition demo_net :: net where
  "demo_net = (case net_build (\<lambda>ks. ks) (\<lambda>ks. ks) int default_net (ft_topo demo_ft) of Inr net \<Rightarrow> net | Inl _ \<Rightarrow> default_net)"

definition demo_dc :: dc where
  "demo_dc = \<lparr>dc_numEdgeSwitches = 2, dc_vlans = 2, dc_tenants = [], dc_vlanMap = [(''h1'', 1)]\<rparr>"

definition demo_ip :: "int \<Rightarrow> string" where
  "demo_ip h = ''10.0.0.'' @ str_of_int h"

definition demo_draw :: "int \<Rightarrow> int" where
  "demo_draw h = (if h = 1 then 3 else 1)"

lemma demo_net_ready: "net_ready demo_net 2 1 demo_ip (\<lambda>h. randMac (demo_draw h))"
  by code_simp

lemma demo_ft_spec: "fattree_spec 2 1 demo_ft"
  using fattree_ok [of 2 "AInt 5" 1] by (auto simp: demo_ft_def)

theorem deployment_demo:
  "\<exists>cfg t. writeConfig demo_net demo_ft demo_dc = Inr cfg \<and> topology_parse rev rev (readlines cfg) = Inr t \<and> wf_topology t \<and>
    vlans_covered t \<and> no_host_eth t ''ff:ff:ff:ff:ff:ff'' \<and> (\<forall>sw \<in> set (ft_cores demo_ft @ ft_edges demo_ft). ports_agree (ft_topo demo_ft) t sw)"
proof -
  have h: "host_ids 2 1 = [1, 2]" by code_simp
  have d: "dc_ready demo_dc" by code_simp
  have w: "\<forall>h \<in> set (host_ids 2 1). word (demo_ip h)" unfolding h by code_simp
  have "distinct (map (\<lambda>h. randMac (demo_draw h)) [1, 2])" by code_simp
  then have m: "inj_on (\<lambda>h. randMac (demo_draw h)) (set (host_ids 2 1))" unfolding h distinct_map by (rule conjunct2)
  have s: "firstSwitch (2 * 1) + 2 * 2 \<le> 2 ^ 63" by (simp add: firstSwitch_def)
  from deployment [OF order.refl demo_ft_spec demo_net_ready s d w m is_order_rev, of rev]
  show ?thesis by blast
qed

end
