(* ===== verification/PyStruct.thy ===== *)
theory PyStruct
  imports PyStr "HOL-Library.Word"
begin

text \<open>
  Python's module \<^verbatim>\<open>struct\<close> as Ryu uses it (network byte order), and \<^verbatim>\<open>ryu/lib/pack_utils.py\<close>. A buffer is a list of
  bytes. A format is a list of items: unsigned integers of some bytes (\<^verbatim>\<open>B\<close>, \<^verbatim>\<open>H\<close>, \<^verbatim>\<open>I\<close>, \<^verbatim>\<open>Q\<close>), pad bytes
  (\<^verbatim>\<open>x\<close>) and strings of a length (\<^verbatim>\<open>s\<close>).
\<close>

section \<open>Bytes\<close>

type_synonym bytes = "8 word list"

text \<open>The loop of \<^verbatim>\<open>IntDescr.from_user\<close>: \<^verbatim>\<open>bin = chr(i & 255) + bin; i /= 256\<close>.\<close>

fun be_bytes :: "nat \<Rightarrow> int \<Rightarrow> bytes" where
  "be_bytes 0 i = []"
| "be_bytes (Suc n) i = be_bytes n (i div 256) @ [word_of_int i]"

text \<open>The loop of \<^verbatim>\<open>IntDescr.to_user\<close>: \<^verbatim>\<open>i = i * 256 + ord(c)\<close>.\<close>

definition be_int :: "bytes \<Rightarrow> int" where
  "be_int bs = foldl (\<lambda>i c. i * 256 + uint c) 0 bs"

lemma length_be_bytes [simp]: "length (be_bytes n i) = n"
  by (induction n arbitrary: i) auto

lemma be_int_append: "be_int (bs @ [c]) = be_int bs * 256 + uint c"
  by (simp add: be_int_def)

lemma be_int_be_bytes: "be_int (be_bytes n i) = i mod 256 ^ n"
proof (induction n arbitrary: i)
  case 0
  show ?case by (simp add: be_int_def)
next
  case (Suc n)
  have "uint (word_of_int i :: 8 word) = i mod 256"
    by (simp add: uint_word_of_int)
  then show ?case
    using Suc [of "i div 256"] zmod_zmult2_eq [of "256 ^ n" i 256] by (simp add: be_int_append)
qed

lemma be_int_be_bytes_id [simp]: "0 \<le> i \<Longrightarrow> i < 256 ^ n \<Longrightarrow> be_int (be_bytes n i) = i"
  by (simp add: be_int_be_bytes)

lemma be_int_bounds: "0 \<le> be_int bs \<and> be_int bs < 256 ^ length bs"
proof (induction bs rule: rev_induct)
  case (snoc c bs)
  have "0 \<le> uint c \<and> uint c < 256" using uint_lt2p [of c] by simp
  with snoc show ?case by (simp add: be_int_append)
qed (simp add: be_int_def)

lemma be_bytes_be_int: "be_bytes (length bs) (be_int bs) = bs"
proof (induction bs rule: rev_induct)
  case (snoc c bs)
  have c: "0 \<le> uint c" "uint c < 256" using uint_lt2p [of c] by simp_all
  have "(be_int bs * 256 + uint c) div 256 = be_int bs" using c by simp
  moreover have "(word_of_int (be_int bs * 256 + uint c) :: 8 word) = c"
  proof -
    have "uint (word_of_int (be_int bs * 256 + uint c) :: 8 word) = (be_int bs * 256 + uint c) mod 2 ^ LENGTH(8)"
      by (rule uint_word_of_int)
    also have "\<dots> = uint c" using c by simp
    finally show ?thesis unfolding word_uint_eq_iff .
  qed
  ultimately show ?case using snoc by (simp add: be_int_append)
qed (simp add: be_int_def)

section \<open>Formats\<close>

datatype fitem = FU nat | FX nat | FS nat

datatype pyval = VInt int | VStr bytes

type_synonym format = "fitem list"

definition struct_error :: pyerr where
  "struct_error = OtherErr ''struct.error''"

definition item_size :: "fitem \<Rightarrow> nat" where
  "item_size f = (case f of FU n \<Rightarrow> n | FX n \<Rightarrow> n | FS n \<Rightarrow> n)"

lemma item_size_simps [simp]: "item_size (FU n) = n" "item_size (FX n) = n" "item_size (FS n) = n"
  by (simp_all add: item_size_def)

definition calcsize :: "format \<Rightarrow> nat" where
  "calcsize fmt = sum_list (map item_size fmt)"

lemma calcsize_simps [simp]: "calcsize [] = 0" "calcsize (f # fmt) = item_size f + calcsize fmt"
  "calcsize (fmt @ fmt') = calcsize fmt + calcsize fmt'"
  by (simp_all add: calcsize_def)

text \<open>A string item cuts a longer string and pads a shorter one with zero bytes.\<close>

fun struct_pack :: "format \<Rightarrow> pyval list \<Rightarrow> bytes res" where
  "struct_pack [] [] = Inr []"
| "struct_pack (FX n # fmt) args = rbind (struct_pack fmt args) (\<lambda>bs. Inr (replicate n 0 @ bs))"
| "struct_pack (FU n # fmt) (VInt i # args) =
     (if 0 \<le> i \<and> i < 256 ^ n then rbind (struct_pack fmt args) (\<lambda>bs. Inr (be_bytes n i @ bs)) else Inl struct_error)"
| "struct_pack (FS n # fmt) (VStr s # args) =
     rbind (struct_pack fmt args) (\<lambda>bs. Inr (take n (s @ replicate n 0) @ bs))"
| "struct_pack _ _ = Inl struct_error"

fun unpack_items :: "format \<Rightarrow> bytes \<Rightarrow> pyval list" where
  "unpack_items [] bs = []"
| "unpack_items (FX n # fmt) bs = unpack_items fmt (drop n bs)"
| "unpack_items (FU n # fmt) bs = VInt (be_int (take n bs)) # unpack_items fmt (drop n bs)"
| "unpack_items (FS n # fmt) bs = VStr (take n bs) # unpack_items fmt (drop n bs)"

definition unpack_from :: "format \<Rightarrow> bytes \<Rightarrow> nat \<Rightarrow> pyval list res" where
  "unpack_from fmt buf offset =
     (if offset + calcsize fmt \<le> length buf then Inr (unpack_items fmt (drop offset buf)) else Inl struct_error)"

text \<open>\<^verbatim>\<open>struct.pack_into\<close> needs the room, \<^verbatim>\<open>msg_pack_into\<close> makes it.\<close>

definition pack_into :: "format \<Rightarrow> bytes \<Rightarrow> nat \<Rightarrow> pyval list \<Rightarrow> bytes res" where
  "pack_into fmt buf offset args =
     (if offset + calcsize fmt \<le> length buf
      then rbind (struct_pack fmt args) (\<lambda>bs. Inr (take offset buf @ bs @ drop (offset + calcsize fmt) buf))
      else Inl struct_error)"

definition msg_pack_into :: "format \<Rightarrow> bytes \<Rightarrow> nat \<Rightarrow> pyval list \<Rightarrow> bytes res" where
  "msg_pack_into fmt buf offset args =
     (let buf1 = (if length buf < offset then buf @ replicate (offset - length buf) 0 else buf) in
      if length buf1 = offset then rbind (struct_pack fmt args) (\<lambda>bs. Inr (buf1 @ bs))
      else
        let needed_len = offset + calcsize fmt;
            buf2 = (if length buf1 < needed_len then buf1 @ replicate (needed_len - length buf1) 0 else buf1)
        in pack_into fmt buf2 offset args)"

text \<open>The arguments that fit a format.\<close>

fun fits :: "format \<Rightarrow> pyval list \<Rightarrow> bool" where
  "fits [] [] = True"
| "fits (FX n # fmt) args = fits fmt args"
| "fits (FU n # fmt) (VInt i # args) \<longleftrightarrow> 0 \<le> i \<and> i < 256 ^ n \<and> fits fmt args"
| "fits (FS n # fmt) (VStr s # args) \<longleftrightarrow> length s = n \<and> fits fmt args"
| "fits _ _ = False"

lemma struct_pack_length: "struct_pack fmt args = Inr bs \<Longrightarrow> length bs = calcsize fmt"
  by (induction fmt args arbitrary: bs rule: struct_pack.induct) (auto simp: rbind_eq_Inr split: if_splits)

lemma pack_unpack:
  "fits fmt args \<Longrightarrow> \<exists>bs. struct_pack fmt args = Inr bs \<and> length bs = calcsize fmt \<and>
     (\<forall>rest. unpack_items fmt (bs @ rest) = args)"
  by (induction fmt args rule: fits.induct) auto

lemma unpack_fits: "calcsize fmt \<le> length bs \<Longrightarrow> fits fmt (unpack_items fmt bs)"
proof (induction fmt bs rule: unpack_items.induct)
  case (3 n fmt bs)
  with be_int_bounds [of "take n bs"] show ?case by simp
qed simp_all

lemma unpack_from_at:
  assumes "length pre = offset" and "struct_pack fmt args = Inr bs" and "fits fmt args"
  shows "unpack_from fmt (pre @ bs @ post) offset = Inr args"
proof -
  from pack_unpack [OF assms(3)] assms(2) have "unpack_items fmt (bs @ post) = args" by auto
  moreover from assms(2) have "length bs = calcsize fmt" by (rule struct_pack_length)
  ultimately show ?thesis using assms(1) by (simp add: unpack_from_def)
qed

lemma msg_pack_into_end:
  assumes "length buf = offset"
  shows "msg_pack_into fmt buf offset args = rbind (struct_pack fmt args) (\<lambda>bs. Inr (buf @ bs))"
  using assms by (simp add: msg_pack_into_def)

lemma msg_pack_into_gap:
  assumes "length buf \<le> offset"
  shows "msg_pack_into fmt buf offset args =
     rbind (struct_pack fmt args) (\<lambda>bs. Inr (buf @ replicate (offset - length buf) 0 @ bs))"
  using assms by (simp add: msg_pack_into_def)

lemma msg_pack_into_over:
  assumes "length pre = offset" and "length old = calcsize fmt" and "old @ post \<noteq> []"
  shows "msg_pack_into fmt (pre @ old @ post) offset args =
     rbind (struct_pack fmt args) (\<lambda>bs. Inr (pre @ bs @ post))"
  using assms by (auto simp: msg_pack_into_def pack_into_def Let_def)

text \<open>Formats of one item.\<close>

abbreviation fB :: fitem where "fB \<equiv> FU 1"
abbreviation fH :: fitem where "fH \<equiv> FU 2"
abbreviation fI :: fitem where "fI \<equiv> FU 4"
abbreviation fQ :: fitem where "fQ \<equiv> FU 8"

end
