(* ===== verification/Oxm.thy ===== *)
theory Oxm
  imports PyStruct
begin

unbundle bit_operations_syntax

text \<open>
  Match fields on the wire: \<^verbatim>\<open>ryu/ofproto/oxm_fields.py\<close>, the value types of \<^verbatim>\<open>ryu/lib/type_desc.py\<close> and the
  table of fields of \<^verbatim>\<open>ofproto_v1_3.py\<close>. Text addresses are converted by the package \<^verbatim>\<open>netaddr\<close> and base64 by Python's
  library: the argument \<open>conv\<close>.
\<close>

section \<open>Types of values\<close>

datatype uval = UInt int | UText string

record addrconv =
  text_to_bin :: "nat \<Rightarrow> string \<Rightarrow> bytes res"
  bin_to_text :: "nat \<Rightarrow> bytes \<Rightarrow> string"
  b64decode :: "string \<Rightarrow> bytes res"
  b64encode :: "bytes \<Rightarrow> string"

text \<open>The addresses are told apart by their number of bytes: 6 (MAC), 4 (IPv4), 16 (IPv6).\<close>

datatype type_descr = IntDescr nat | AddrDescr nat | UnknownType

abbreviation MacAddr :: type_descr where "MacAddr \<equiv> AddrDescr 6"
abbreviation IPv4Addr :: type_descr where "IPv4Addr \<equiv> AddrDescr 4"
abbreviation IPv6Addr :: type_descr where "IPv6Addr \<equiv> AddrDescr 16"

definition descr_size :: "type_descr \<Rightarrow> nat option" where
  "descr_size t = (case t of IntDescr n \<Rightarrow> Some n | AddrDescr n \<Rightarrow> Some n | UnknownType \<Rightarrow> None)"

definition td_from_user :: "addrconv \<Rightarrow> type_descr \<Rightarrow> uval \<Rightarrow> bytes res" where
  "td_from_user conv t u =
     (case (t, u) of
        (IntDescr n, UInt i) \<Rightarrow> Inr (be_bytes n i)
      | (AddrDescr n, UText s) \<Rightarrow> text_to_bin conv n s
      | (UnknownType, UText s) \<Rightarrow> b64decode conv s
      | _ \<Rightarrow> Inl TypeErr)"

text \<open>\<^verbatim>\<open>IntDescr.to_user\<close> reads \<^verbatim>\<open>size\<close> bytes; \<^verbatim>\<open>ord\<close> of a missing one is a \<^verbatim>\<open>TypeError\<close>.\<close>

definition td_to_user :: "addrconv \<Rightarrow> type_descr \<Rightarrow> bytes \<Rightarrow> uval res" where
  "td_to_user conv t b =
     (case t of
        IntDescr n \<Rightarrow> if n \<le> length b then Inr (UInt (be_int (take n b))) else Inl TypeErr
      | AddrDescr n \<Rightarrow> Inr (UText (bin_to_text conv n b))
      | UnknownType \<Rightarrow> Inr (UText (b64encode conv b)))"

section \<open>Fields\<close>

datatype oxm_num = Num int | ExpNum int int

datatype oxm_kind = Basic | Experimenter int | OldExperimenter int int

record oxm_field =
  of_name :: string
  of_oxm_type :: int
  of_num :: oxm_num
  of_type :: type_descr
  of_kind :: oxm_kind

definition OFPXMC_NXM_1 :: int where "OFPXMC_NXM_1 = 1"
definition OFPXMC_OPENFLOW_BASIC :: int where "OFPXMC_OPENFLOW_BASIC = 0x8000"
definition OFPXMC_EXPERIMENTER :: int where "OFPXMC_EXPERIMENTER = 0xffff"
definition ONF_EXPERIMENTER_ID :: int where "ONF_EXPERIMENTER_ID = 0x4f4e4600"
definition NX_EXPERIMENTER_ID :: int where "NX_EXPERIMENTER_ID = 0x00002320"

definition OxmClass_init :: "int \<Rightarrow> string \<Rightarrow> int \<Rightarrow> type_descr \<Rightarrow> oxm_field" where
  "OxmClass_init cls name num t =
     (let ty = num OR push_bit 7 cls in
      \<lparr>of_name = name, of_oxm_type = ty, of_num = Num ty, of_type = t, of_kind = Basic\<rparr>)"

definition OpenFlowBasic :: "string \<Rightarrow> int \<Rightarrow> type_descr \<Rightarrow> oxm_field" where
  "OpenFlowBasic = OxmClass_init OFPXMC_OPENFLOW_BASIC"

definition NiciraExtended1 :: "string \<Rightarrow> int \<Rightarrow> type_descr \<Rightarrow> oxm_field" where
  "NiciraExtended1 = OxmClass_init OFPXMC_NXM_1"

definition Experimenter_init :: "int \<Rightarrow> string \<Rightarrow> int \<Rightarrow> type_descr \<Rightarrow> oxm_field" where
  "Experimenter_init exp_id name num t =
     (let f = OxmClass_init OFPXMC_EXPERIMENTER name num t in
      f\<lparr>of_num := ExpNum exp_id (of_oxm_type f), of_kind := Experimenter exp_id\<rparr>)"

definition ONFExperimenter :: "string \<Rightarrow> int \<Rightarrow> type_descr \<Rightarrow> oxm_field" where
  "ONFExperimenter = Experimenter_init ONF_EXPERIMENTER_ID"

definition NiciraExperimenter :: "string \<Rightarrow> int \<Rightarrow> type_descr \<Rightarrow> oxm_field" where
  "NiciraExperimenter = Experimenter_init NX_EXPERIMENTER_ID"

definition OldONFExperimenter :: "string \<Rightarrow> int \<Rightarrow> type_descr \<Rightarrow> oxm_field" where
  "OldONFExperimenter name num t =
     (Experimenter_init ONF_EXPERIMENTER_ID name 0 t)
       \<lparr>of_num := ExpNum ONF_EXPERIMENTER_ID num, of_kind := OldExperimenter ONF_EXPERIMENTER_ID num\<rparr>"

definition oxm_types :: "oxm_field list" where
  "oxm_types = [
    OpenFlowBasic ''in_port'' 0 (IntDescr 4),
    OpenFlowBasic ''in_phy_port'' 1 (IntDescr 4),
    OpenFlowBasic ''metadata'' 2 (IntDescr 8),
    OpenFlowBasic ''eth_dst'' 3 MacAddr,
    OpenFlowBasic ''eth_src'' 4 MacAddr,
    OpenFlowBasic ''eth_type'' 5 (IntDescr 2),
    OpenFlowBasic ''vlan_vid'' 6 (IntDescr 2),
    OpenFlowBasic ''vlan_pcp'' 7 (IntDescr 1),
    OpenFlowBasic ''ip_dscp'' 8 (IntDescr 1),
    OpenFlowBasic ''ip_ecn'' 9 (IntDescr 1),
    OpenFlowBasic ''ip_proto'' 10 (IntDescr 1),
    OpenFlowBasic ''ipv4_src'' 11 IPv4Addr,
    OpenFlowBasic ''ipv4_dst'' 12 IPv4Addr,
    OpenFlowBasic ''tcp_src'' 13 (IntDescr 2),
    OpenFlowBasic ''tcp_dst'' 14 (IntDescr 2),
    OpenFlowBasic ''udp_src'' 15 (IntDescr 2),
    OpenFlowBasic ''udp_dst'' 16 (IntDescr 2),
    OpenFlowBasic ''sctp_src'' 17 (IntDescr 2),
    OpenFlowBasic ''sctp_dst'' 18 (IntDescr 2),
    OpenFlowBasic ''icmpv4_type'' 19 (IntDescr 1),
    OpenFlowBasic ''icmpv4_code'' 20 (IntDescr 1),
    OpenFlowBasic ''arp_op'' 21 (IntDescr 2),
    OpenFlowBasic ''arp_spa'' 22 IPv4Addr,
    OpenFlowBasic ''arp_tpa'' 23 IPv4Addr,
    OpenFlowBasic ''arp_sha'' 24 MacAddr,
    OpenFlowBasic ''arp_tha'' 25 MacAddr,
    OpenFlowBasic ''ipv6_src'' 26 IPv6Addr,
    OpenFlowBasic ''ipv6_dst'' 27 IPv6Addr,
    OpenFlowBasic ''ipv6_flabel'' 28 (IntDescr 4),
    OpenFlowBasic ''icmpv6_type'' 29 (IntDescr 1),
    OpenFlowBasic ''icmpv6_code'' 30 (IntDescr 1),
    OpenFlowBasic ''ipv6_nd_target'' 31 IPv6Addr,
    OpenFlowBasic ''ipv6_nd_sll'' 32 MacAddr,
    OpenFlowBasic ''ipv6_nd_tll'' 33 MacAddr,
    OpenFlowBasic ''mpls_label'' 34 (IntDescr 4),
    OpenFlowBasic ''mpls_tc'' 35 (IntDescr 1),
    OpenFlowBasic ''mpls_bos'' 36 (IntDescr 1),
    OpenFlowBasic ''pbb_isid'' 37 (IntDescr 3),
    OpenFlowBasic ''tunnel_id'' 38 (IntDescr 8),
    OpenFlowBasic ''ipv6_exthdr'' 39 (IntDescr 2),
    OldONFExperimenter ''pbb_uca'' 2560 (IntDescr 1),
    ONFExperimenter ''tcp_flags'' 42 (IntDescr 2),
    ONFExperimenter ''actset_output'' 43 (IntDescr 4),
    NiciraExtended1 ''tun_ipv4_src'' 31 IPv4Addr,
    NiciraExtended1 ''tun_ipv4_dst'' 32 IPv4Addr,
    NiciraExperimenter ''_dp_hash'' 0 (IntDescr 4)]"

text \<open>\<^verbatim>\<open>generate\<close>: the two dictionaries over the table.\<close>

definition name_to_field :: "string \<Rightarrow> oxm_field option" where
  "name_to_field name = map_of (map (\<lambda>f. (of_name f, f)) oxm_types) name"

definition num_to_field :: "oxm_num \<Rightarrow> oxm_field option" where
  "num_to_field n = map_of (map (\<lambda>f. (of_num f, f)) oxm_types) n"

section \<open>Between the program and the wire\<close>

definition get_field_info_by_name :: "string \<Rightarrow> (oxm_num \<times> type_descr) res" where
  "get_field_info_by_name name =
     (case name_to_field name of
        Some f \<Rightarrow> Inr (of_num f, of_type f)
      | None \<Rightarrow>
        if take 6 name = ''field_'' then
          rbind (py_nth (split_on (CHR ''_'') name) 1) (\<lambda>s. rbind (py_int s) (\<lambda>n. Inr (Num n, UnknownType)))
        else Inl KeyErr)"

text \<open>\<^verbatim>\<open>'field_%d' % (n,)\<close> with a pair for \<open>n\<close> is a \<^verbatim>\<open>TypeError\<close>.\<close>

definition get_field_info_by_number :: "oxm_num \<Rightarrow> (string \<times> type_descr) res" where
  "get_field_info_by_number n =
     (case num_to_field n of
        Some f \<Rightarrow> Inr (of_name f, of_type f)
      | None \<Rightarrow> (case n of Num i \<Rightarrow> Inr (''field_'' @ str_of_int i, UnknownType) | ExpNum _ _ \<Rightarrow> Inl TypeErr))"

text \<open>A user value is a value with an optional mask.\<close>

definition oxm_from_user :: "addrconv \<Rightarrow> string \<Rightarrow> uval \<times> uval option \<Rightarrow> (oxm_num \<times> bytes \<times> bytes option) res" where
  "oxm_from_user conv name uv =
     rbind (get_field_info_by_name name) (\<lambda>(num, t).
     rbind (td_from_user conv t (fst uv)) (\<lambda>v.
     case snd uv of None \<Rightarrow> Inr (num, v, None)
     | Some m \<Rightarrow> rbind (td_from_user conv t m) (\<lambda>m'. Inr (num, v, Some m'))))"

definition oxm_to_user :: "addrconv \<Rightarrow> oxm_num \<Rightarrow> bytes \<Rightarrow> bytes option \<Rightarrow> (string \<times> (uval \<times> uval option)) res" where
  "oxm_to_user conv n v m =
     rbind (get_field_info_by_number n) (\<lambda>(name, t).
     if descr_size t \<noteq> None \<and> the (descr_size t) \<noteq> length v then Inl (OtherErr ''Unexpected OXM payload length'')
     else rbind (td_to_user conv t v) (\<lambda>value.
     case m of None \<Rightarrow> Inr (name, (value, None))
     | Some m' \<Rightarrow> rbind (td_to_user conv t m') (\<lambda>msk. Inr (name, (value, Some msk)))))"

definition oxm_normalize_user :: "addrconv \<Rightarrow> string \<Rightarrow> uval \<times> uval option \<Rightarrow> (string \<times> (uval \<times> uval option)) res" where
  "oxm_normalize_user conv k uv =
     rbind (oxm_from_user conv k uv) (\<lambda>(n, v, m).
     let v' = (case m of None \<Rightarrow> v | Some m' \<Rightarrow> map (\<lambda>(x, y). x AND y) (zip v m')) in
     rbind (oxm_to_user conv n v' m) (\<lambda>(k2, uv2). if k2 \<noteq> k then Inl AssertErr else Inr (k2, uv2)))"

section \<open>Headers\<close>

definition make_exp_hdr :: "oxm_num \<Rightarrow> (int \<times> bytes) res" where
  "make_exp_hdr n =
     (case num_to_field n of
        None \<Rightarrow> (case n of Num i \<Rightarrow> Inr (i, []) | ExpNum _ _ \<Rightarrow> Inl TypeErr)
      | Some desc \<Rightarrow>
        (case of_kind desc of
           Basic \<Rightarrow> (case n of Num i \<Rightarrow> Inr (i, []) | ExpNum _ _ \<Rightarrow> Inl TypeErr)
         | OldExperimenter exp_id exp_type \<Rightarrow>
             rbind (msg_pack_into [fI, fH] [] 0 [VInt exp_id, VInt exp_type]) (\<lambda>h. Inr (of_oxm_type desc, h))
         | Experimenter exp_id \<Rightarrow>
             rbind (msg_pack_into [fI] [] 0 [VInt exp_id]) (\<lambda>h. Inr (of_oxm_type desc, h))))"

text \<open>The result is the buffer and the number of bytes. \<^verbatim>\<open>if mask\<close>: an empty mask is none.\<close>

definition oxm_serialize :: "oxm_num \<Rightarrow> bytes \<Rightarrow> bytes option \<Rightarrow> bytes \<Rightarrow> nat \<Rightarrow> (bytes \<times> nat) res" where
  "oxm_serialize n value msk buf offset =
     rbind (make_exp_hdr n) (\<lambda>(n', exp_hdr).
     let exp_hdr_len = length exp_hdr; value_len = length value in
     case msk of
       Some (m # ms) \<Rightarrow>
         if value_len \<noteq> length (m # ms) then Inl AssertErr
         else
           let fmt = [fI, FS exp_hdr_len, FS value_len, FS (length (m # ms))] in
           rbind (msg_pack_into fmt buf offset
             [VInt (push_bit 9 n' OR push_bit 8 1 OR (int exp_hdr_len + int value_len * 2)),
              VStr exp_hdr, VStr value, VStr (m # ms)]) (\<lambda>buf'. Inr (buf', calcsize fmt))
     | _ \<Rightarrow>
         let fmt = [fI, FS exp_hdr_len, FS value_len] in
         rbind (msg_pack_into fmt buf offset
           [VInt (push_bit 9 n' OR push_bit 8 0 OR (int exp_hdr_len + int value_len)), VStr exp_hdr, VStr value])
           (\<lambda>buf'. Inr (buf', calcsize fmt)))"

definition oxm_tlv_header_extract_hasmask :: "int \<Rightarrow> int" where
  "oxm_tlv_header_extract_hasmask header = drop_bit 8 header AND 1"

definition unpack1 :: "format \<Rightarrow> bytes \<Rightarrow> nat \<Rightarrow> int res" where
  "unpack1 fmt buf offset =
     rbind (unpack_from fmt buf offset) (\<lambda>vs. case vs of [VInt i] \<Rightarrow> Inr i | _ \<Rightarrow> Inl ValueErr)"

record oxm_header =
  oh_num :: oxm_num
  oh_total_hdr_len :: nat
  oh_hasmask :: bool
  oh_value_len :: int
  oh_field_len :: nat

definition parse_header_impl :: "bytes \<Rightarrow> nat \<Rightarrow> oxm_header res" where
  "parse_header_impl buf offset =
     rbind (unpack1 [fI] buf offset) (\<lambda>header.
     let hdr_len = 4;
         oxm_type = drop_bit 9 header;
         hasmask = oxm_tlv_header_extract_hasmask header \<noteq> 0;
         oxm_class = drop_bit 7 oxm_type;
         oxm_length = header AND 0xff in
     rbind (if oxm_class = OFPXMC_EXPERIMENTER then
              rbind (unpack1 [fI] buf (offset + hdr_len)) (\<lambda>exp_id.
              if exp_id = ONF_EXPERIMENTER_ID \<and> oxm_type AND 0x7f = 0 then
                rbind (unpack1 [fH] buf (offset + hdr_len + 4)) (\<lambda>exp_type. Inr (ExpNum exp_id exp_type, 6))
              else Inr (ExpNum exp_id oxm_type, 4))
            else Inr (Num oxm_type, 0)) (\<lambda>(num, exp_hdr_len).
     let value_len0 = oxm_length - int exp_hdr_len;
         value_len = (if hasmask then value_len0 div 2 else value_len0) in
     if \<not> value_len > 0 then Inl AssertErr
     else Inr \<lparr>oh_num = num, oh_total_hdr_len = hdr_len + exp_hdr_len, oh_hasmask = hasmask,
               oh_value_len = value_len, oh_field_len = hdr_len + nat oxm_length\<rparr>))"

definition unpack_str :: "nat \<Rightarrow> bytes \<Rightarrow> nat \<Rightarrow> bytes res" where
  "unpack_str n buf offset =
     rbind (unpack_from [FS n] buf offset) (\<lambda>vs. case vs of [VStr s] \<Rightarrow> Inr s | _ \<Rightarrow> Inl ValueErr)"

definition oxm_parse :: "bytes \<Rightarrow> nat \<Rightarrow> (oxm_num \<times> bytes \<times> bytes option \<times> nat) res" where
  "oxm_parse buf offset =
     rbind (parse_header_impl buf offset) (\<lambda>h.
     let value_offset = offset + oh_total_hdr_len h; value_len = nat (oh_value_len h) in
     rbind (unpack_str value_len buf value_offset) (\<lambda>value.
     rbind (if oh_hasmask h then rbind (unpack_str value_len buf (value_offset + value_len)) (\<lambda>m. Inr (Some m))
            else Inr None) (\<lambda>msk.
     Inr (oh_num h, value, msk, oh_field_len h))))"

text \<open>The headers alone, which name a field without a value.\<close>

definition oxm_from_user_header :: "string \<Rightarrow> oxm_num res" where
  "oxm_from_user_header name = rbind (get_field_info_by_name name) (\<lambda>(num, t). Inr num)"

definition oxm_to_user_header :: "oxm_num \<Rightarrow> string res" where
  "oxm_to_user_header n = rbind (get_field_info_by_number n) (\<lambda>(name, t). Inr name)"

definition oxm_parse_header :: "bytes \<Rightarrow> nat \<Rightarrow> (oxm_num \<times> int) res" where
  "oxm_parse_header buf offset =
     rbind (parse_header_impl buf offset) (\<lambda>h. Inr (oh_num h, int (oh_field_len h) - oh_value_len h))"

definition oxm_serialize_header :: "oxm_num \<Rightarrow> bytes \<Rightarrow> nat \<Rightarrow> (bytes \<times> nat) res" where
  "oxm_serialize_header n buf offset =
     rbind (case num_to_field n of None \<Rightarrow> Inr 0
            | Some desc \<Rightarrow> (case descr_size (of_type desc) of Some k \<Rightarrow> Inr k | None \<Rightarrow> Inl AttributeErr)) (\<lambda>value_len.
     rbind (make_exp_hdr n) (\<lambda>(n', exp_hdr).
     let exp_hdr_len = length exp_hdr; pack_str = [fI, FS exp_hdr_len] in
     rbind (msg_pack_into pack_str buf offset
       [VInt (push_bit 9 n' OR push_bit 8 0 OR (int exp_hdr_len + int value_len)), VStr exp_hdr])
       (\<lambda>buf'. Inr (buf', calcsize pack_str))))"

section \<open>Reading back what was written\<close>

lemma oxm_header_bits:
  fixes t L h :: int
  assumes t: "0 \<le> t" "t < 2 ^ 23" and h: "h = 0 \<or> h = 1" and L: "0 \<le> L" "L < 256"
  defines "header \<equiv> push_bit 9 t OR push_bit 8 h OR L"
  shows "drop_bit 9 header = t" and "drop_bit 8 header AND 1 = h" and "header AND 0xff = L"
    and "0 \<le> header" and "header < 2 ^ 32"
proof -
  have l9: "drop_bit 9 L = 0" "drop_bit 8 L = 0" using L by (simp_all add: drop_bit_eq_div)
  have tl: "take_bit 8 L = L" "take_bit 32 L = L" using L by (simp_all add: take_bit_int_eq_self_iff)
  show "drop_bit 9 header = t"
    using h l9 by (auto simp: header_def drop_bit_push_bit)
  have "drop_bit 8 header = push_bit 1 t OR h"
    using l9 by (simp add: header_def drop_bit_push_bit)
  then show "drop_bit 8 header AND 1 = h"
    using h by (auto simp: and_one_eq push_bit_eq_mult mod2_eq_if even_or_iff)
  have "header AND 0xff = take_bit 8 header"
    by (simp add: take_bit_eq_mask mask_eq_exp_minus_1)
  also have "\<dots> = L" using tl by (simp add: header_def take_bit_push_bit)
  finally show "header AND 0xff = L" .
  show "0 \<le> header" using t h L by (auto simp: header_def or_nonnegative_int_iff)
  have "take_bit 32 header = header"
  proof -
    have "take_bit 23 t = t" using t by (simp add: take_bit_int_eq_self_iff)
    moreover have "take_bit 24 h = h" using h by auto
    ultimately show ?thesis using tl by (simp add: header_def take_bit_push_bit)
  qed
  then show "header < 2 ^ 32" by (simp add: take_bit_int_eq_self_iff)
qed

text \<open>What makes a row of the table readable.\<close>

definition field_ok :: "oxm_field \<Rightarrow> bool" where
  "field_ok f \<longleftrightarrow> num_to_field (of_num f) = Some f \<and> 0 \<le> of_oxm_type f \<and> of_oxm_type f < 2 ^ 23
     \<and> (case descr_size (of_type f) of None \<Rightarrow> False | Some n \<Rightarrow> 0 < n \<and> n \<le> 100)
     \<and> (case of_kind f of
          Basic \<Rightarrow> of_num f = Num (of_oxm_type f) \<and> of_oxm_type f div 128 \<noteq> OFPXMC_EXPERIMENTER
        | Experimenter e \<Rightarrow> of_num f = ExpNum e (of_oxm_type f) \<and> of_oxm_type f div 128 = OFPXMC_EXPERIMENTER
            \<and> 0 \<le> e \<and> e < 2 ^ 32 \<and> \<not> (e = ONF_EXPERIMENTER_ID \<and> of_oxm_type f mod 128 = 0)
        | OldExperimenter e n \<Rightarrow> e = ONF_EXPERIMENTER_ID \<and> of_num f = ExpNum e n \<and> 0 \<le> n \<and> n < 2 ^ 16
            \<and> of_oxm_type f div 128 = OFPXMC_EXPERIMENTER \<and> of_oxm_type f mod 128 = 0)"

lemma oxm_types_ok: "\<forall>f \<in> set oxm_types. field_ok f"
  by code_simp

definition exp_hdr_of :: "oxm_field \<Rightarrow> bytes" where
  "exp_hdr_of f = (case of_kind f of Basic \<Rightarrow> [] | Experimenter e \<Rightarrow> be_bytes 4 e
     | OldExperimenter e n \<Rightarrow> be_bytes 4 e @ be_bytes 2 n)"

lemma make_exp_hdr_ok:
  assumes "field_ok f"
  shows "make_exp_hdr (of_num f) = Inr (of_oxm_type f, exp_hdr_of f)"
  using assms
  by (auto simp: field_ok_def make_exp_hdr_def exp_hdr_of_def msg_pack_into_end ONF_EXPERIMENTER_ID_def
      split: oxm_kind.splits option.splits)

lemma exp_hdr_length: "length (exp_hdr_of f) \<le> 6"
  by (simp add: exp_hdr_of_def split: oxm_kind.splits)

lemma unpack1_at:
  assumes "length pre = offset" and "0 \<le> i" and "i < 256 ^ n"
  shows "unpack1 [FU n] (pre @ be_bytes n i @ post) offset = Inr i"
proof -
  have "unpack_from [FU n] (pre @ be_bytes n i @ post) offset = Inr [VInt i]"
    by (rule unpack_from_at) (use assms in simp_all)
  then show ?thesis by (simp add: unpack1_def)
qed

lemma unpack_str_at:
  assumes "length pre = offset" and "length s = n"
  shows "unpack_str n (pre @ s @ post) offset = Inr s"
proof -
  have "unpack_from [FS n] (pre @ s @ post) offset = Inr [VStr s]"
    by (rule unpack_from_at) (use assms in simp_all)
  then show ?thesis by (simp add: unpack_str_def)
qed

text \<open>The bytes of one field.\<close>

definition oxm_wire :: "oxm_field \<Rightarrow> bytes \<Rightarrow> bytes option \<Rightarrow> bytes" where
  "oxm_wire f v m =
     be_bytes 4 (push_bit 9 (of_oxm_type f) OR push_bit 8 (if m = None then 0 else 1) OR
        (int (length (exp_hdr_of f)) + int (length v) * (if m = None then 1 else 2)))
     @ exp_hdr_of f @ v @ (case m of None \<Rightarrow> [] | Some m' \<Rightarrow> m')"

definition value_ok :: "oxm_field \<Rightarrow> bytes \<Rightarrow> bytes option \<Rightarrow> bool" where
  "value_ok f v m \<longleftrightarrow> descr_size (of_type f) = Some (length v) \<and> (\<forall>m'. m = Some m' \<longrightarrow> length m' = length v)"

lemma field_size: "field_ok f \<Longrightarrow> value_ok f v m \<Longrightarrow> 0 < length v \<and> length v \<le> 100"
  by (simp add: field_ok_def value_ok_def)

lemma oxm_wire_header:
  assumes "field_ok f" and "value_ok f v m"
  defines "L \<equiv> int (length (exp_hdr_of f)) + int (length v) * (if m = None then 1 else 2)"
  defines "header \<equiv> push_bit 9 (of_oxm_type f) OR push_bit 8 (if m = None then 0 else 1 :: int) OR L"
  shows "drop_bit 9 header = of_oxm_type f" "drop_bit 8 header AND 1 = (if m = None then 0 else 1)"
    "header AND 0xff = L" "0 \<le> header" "header < 256 ^ 4"
proof -
  have L: "0 \<le> L" "L < 256"
    using field_size [OF assms(1,2)] exp_hdr_length [of f] by (auto simp: L_def)
  have t: "0 \<le> of_oxm_type f" "of_oxm_type f < 2 ^ 23" using assms(1) by (simp_all add: field_ok_def)
  have h: "(if m = None then 0 else 1 :: int) = 0 \<or> (if m = None then 0 else 1 :: int) = 1" by simp
  note b = oxm_header_bits [OF t h L, folded header_def]
  show "drop_bit 9 header = of_oxm_type f" "drop_bit 8 header AND 1 = (if m = None then 0 else 1)"
    "header AND 0xff = L" "0 \<le> header" by (rule b)+
  show "header < 256 ^ 4" using b(5) by simp
qed

lemma oxm_serialize_end:
  assumes "field_ok f" and "value_ok f v m"
  shows "oxm_serialize (of_num f) v m buf (length buf) = Inr (buf @ oxm_wire f v m, length (oxm_wire f v m))"
proof -
  note h = oxm_wire_header(4,5) [OF assms]
  have nz: "v \<noteq> []" using field_size [OF assms] by auto
  show ?thesis
  proof (cases m)
    case None
    with h show ?thesis
      by (simp add: oxm_serialize_def make_exp_hdr_ok [OF assms(1)] Let_def msg_pack_into_end oxm_wire_def)
  next
    case (Some m')
    with assms(2) nz obtain x xs where m': "m' = x # xs" and l: "length m' = length v"
      by (cases m') (auto simp: value_ok_def)
    have "take (length v) (m' @ replicate (length v) 0) = m'" using l by simp
    with h Some m' l show ?thesis
      by (simp add: oxm_serialize_def make_exp_hdr_ok [OF assms(1)] Let_def msg_pack_into_end oxm_wire_def)
  qed
qed

definition header_wire_of :: "oxm_field \<Rightarrow> nat \<Rightarrow> bool \<Rightarrow> bytes" where
  "header_wire_of f n msk =
     be_bytes 4 (push_bit 9 (of_oxm_type f) OR push_bit 8 (if msk then 1 else 0) OR
        (int (length (exp_hdr_of f)) + int n * (if msk then 2 else 1))) @ exp_hdr_of f"

lemma parse_header_hdr:
  assumes ok: "field_ok f" and vo: "value_ok f v m"
  shows "parse_header_impl (pre @ header_wire_of f (length v) (m \<noteq> None) @ rest) (length pre) = Inr \<lparr>oh_num = of_num f,
     oh_total_hdr_len = 4 + length (exp_hdr_of f), oh_hasmask = (m \<noteq> None), oh_value_len = int (length v),
     oh_field_len = length (oxm_wire f v m)\<rparr>"
proof -
  define L where "L = int (length (exp_hdr_of f)) + int (length v) * (if m = None then 1 else 2)"
  define header where "header = push_bit 9 (of_oxm_type f) OR push_bit 8 (if m = None then 0 else 1 :: int) OR L"
  note h = oxm_wire_header [OF ok vo, folded L_def, folded header_def]
  let ?buf = "pre @ header_wire_of f (length v) (m \<noteq> None) @ rest"
  have buf: "?buf = pre @ be_bytes 4 header @ exp_hdr_of f @ rest"
    by (simp add: header_wire_of_def header_def L_def)
  have hd: "unpack1 [fI] ?buf (length pre) = Inr header"
    unfolding buf by (rule unpack1_at) (use h in simp_all)
  have nz: "0 < length v" using field_size [OF ok vo] by simp
  have len: "length (oxm_wire f v m) = 4 + nat L"
    using vo by (auto simp: oxm_wire_def L_def value_ok_def nat_add_distrib split: option.splits)
  have vl: "(if m \<noteq> None then (L - int (length (exp_hdr_of f))) div 2 else L - int (length (exp_hdr_of f))) = int (length v)"
    by (simp add: L_def)
  have hm: "(oxm_tlv_header_extract_hasmask header \<noteq> 0) = (m \<noteq> None)"
    using h(2) by (simp add: oxm_tlv_header_extract_hasmask_def)
  have cls: "drop_bit 7 (of_oxm_type f) = of_oxm_type f div 128" by (simp add: drop_bit_eq_div)
  have low: "of_oxm_type f AND 0x7f = of_oxm_type f mod 128"
    by (simp add: take_bit_eq_mask mask_eq_exp_minus_1 flip: take_bit_eq_mod [of 7, simplified])
  have "(if drop_bit 7 (of_oxm_type f) = OFPXMC_EXPERIMENTER then
              rbind (unpack1 [fI] ?buf (length pre + 4)) (\<lambda>exp_id.
              if exp_id = ONF_EXPERIMENTER_ID \<and> of_oxm_type f AND 0x7f = 0 then
                rbind (unpack1 [fH] ?buf (length pre + 4 + 4)) (\<lambda>exp_type. Inr (ExpNum exp_id exp_type, 6))
              else Inr (ExpNum exp_id (of_oxm_type f), 4))
            else Inr (Num (of_oxm_type f), 0)) = Inr (of_num f, length (exp_hdr_of f))"
  proof (cases "of_kind f")
    case Basic
    with ok show ?thesis by (simp add: field_ok_def cls exp_hdr_of_def)
  next
    case (Experimenter e)
    have "unpack1 [fI] ((pre @ be_bytes 4 header) @ be_bytes 4 e @ rest) (length pre + 4) = Inr e"
      by (rule unpack1_at) (use ok Experimenter in \<open>simp_all add: field_ok_def\<close>)
    with ok Experimenter show ?thesis unfolding buf
      by (auto simp: field_ok_def cls low exp_hdr_of_def)
  next
    case (OldExperimenter e n)
    have "unpack1 [fI] ((pre @ be_bytes 4 header) @ be_bytes 4 e @ be_bytes 2 n @ rest) (length pre + 4) = Inr e"
      by (rule unpack1_at) (use ok OldExperimenter in \<open>simp_all add: field_ok_def ONF_EXPERIMENTER_ID_def\<close>)
    moreover have "unpack1 [fH] ((pre @ be_bytes 4 header @ be_bytes 4 e) @ be_bytes 2 n @ rest) (length pre + 4 + 4) = Inr n"
      by (rule unpack1_at) (use ok OldExperimenter in \<open>simp_all add: field_ok_def\<close>)
    ultimately show ?thesis using ok OldExperimenter unfolding buf
      by (auto simp: field_ok_def cls low exp_hdr_of_def)
  qed
  then show ?thesis
    unfolding parse_header_impl_def hd rbind_simps Let_def h(1,3) hm using vl nz len by auto
qed

lemma parse_header_ok:
  assumes "field_ok f" and "value_ok f v m"
  shows "parse_header_impl (pre @ oxm_wire f v m @ post) (length pre) = Inr \<lparr>oh_num = of_num f,
     oh_total_hdr_len = 4 + length (exp_hdr_of f), oh_hasmask = (m \<noteq> None), oh_value_len = int (length v),
     oh_field_len = length (oxm_wire f v m)\<rparr>"
  using parse_header_hdr [OF assms, of pre "v @ (case m of None \<Rightarrow> [] | Some m' \<Rightarrow> m') @ post"]
  by (cases m) (simp_all add: oxm_wire_def header_wire_of_def)

text \<open>The header of a field of the table.\<close>

definition field_header :: "oxm_field \<Rightarrow> bytes" where
  "field_header f = header_wire_of f (the (descr_size (of_type f))) False"

lemma length_field_header: "length (field_header f) = 4 + length (exp_hdr_of f)"
  by (simp add: field_header_def header_wire_of_def)

lemma header_roundtrip:
  assumes ok: "field_ok f"
  shows "oxm_serialize_header (of_num f) buf (length buf) = Inr (buf @ field_header f, length (field_header f))"
    and "oxm_parse_header (pre @ field_header f @ rest) (length pre) = Inr (of_num f, int (length (field_header f)))"
proof -
  obtain n where n: "descr_size (of_type f) = Some n" using ok by (auto simp: field_ok_def split: option.splits)
  have vo: "value_ok f (replicate n 0) None" by (simp add: value_ok_def n)
  note h = oxm_wire_header(4,5) [OF ok vo]
  have "num_to_field (of_num f) = Some f" using ok by (simp add: field_ok_def)
  with h show "oxm_serialize_header (of_num f) buf (length buf) = Inr (buf @ field_header f, length (field_header f))"
    by (simp add: oxm_serialize_header_def make_exp_hdr_ok [OF ok] n Let_def msg_pack_into_end field_header_def header_wire_of_def)
  from parse_header_hdr [OF ok vo, of pre rest]
  show "oxm_parse_header (pre @ field_header f @ rest) (length pre) = Inr (of_num f, int (length (field_header f)))"
    by (simp add: oxm_parse_header_def field_header_def header_wire_of_def n oxm_wire_def)
qed

text \<open>A name of the table, between the program and the header.\<close>

lemma header_name:
  assumes "f \<in> set oxm_types" and "name_to_field name = Some f" and "of_name f = name"
  shows "oxm_from_user_header name = Inr (of_num f)" and "oxm_to_user_header (of_num f) = Inr name" and "field_ok f"
proof -
  show ok: "field_ok f" using oxm_types_ok assms(1) by blast
  then show "oxm_from_user_header name = Inr (of_num f)" "oxm_to_user_header (of_num f) = Inr name"
    using assms by (simp_all add: oxm_from_user_header_def get_field_info_by_name_def oxm_to_user_header_def
        get_field_info_by_number_def field_ok_def)
qed

lemma oxm_parse_wire:
  assumes ok: "field_ok f" and vo: "value_ok f v m"
  shows "oxm_parse (pre @ oxm_wire f v m @ post) (length pre) = Inr (of_num f, v, m, length (oxm_wire f v m))"
proof -
  obtain hdr where w: "oxm_wire f v m = hdr @ v @ (case m of None \<Rightarrow> [] | Some m' \<Rightarrow> m')"
    "length hdr = 4 + length (exp_hdr_of f)"
    by (simp add: oxm_wire_def)
  have v: "unpack_str (length v) ((pre @ hdr) @ v @ (case m of None \<Rightarrow> [] | Some m' \<Rightarrow> m') @ post)
      (length pre + (4 + length (exp_hdr_of f))) = Inr v"
    by (rule unpack_str_at) (simp_all add: w(2))
  have mk: "unpack_str (length v) ((pre @ hdr @ v) @ m' @ post) (length pre + (4 + length (exp_hdr_of f)) + length v) = Inr m'"
    if "m = Some m'" for m'
    by (rule unpack_str_at) (use that vo in \<open>simp_all add: w(2) value_ok_def\<close>)
  have buf: "pre @ oxm_wire f v m @ post = (pre @ hdr) @ v @ (case m of None \<Rightarrow> [] | Some m' \<Rightarrow> m') @ post"
    by (simp add: w(1))
  have v': "unpack_str (length v) (pre @ oxm_wire f v m @ post) (length pre + (4 + length (exp_hdr_of f))) = Inr v"
    unfolding buf by (rule v)
  have mk': "unpack_str (length v) (pre @ oxm_wire f v m @ post)
      (length pre + (4 + length (exp_hdr_of f)) + length v) = Inr m'" if "m = Some m'" for m'
    using mk [OF that] unfolding buf by (simp add: that)
  show ?thesis
    unfolding oxm_parse_def parse_header_ok [OF ok vo]
    using v' mk' by (cases m) (simp_all add: Let_def)
qed

text \<open>C33: every field of the table, experimenter fields with their longer headers included, is read back as it was
  written, with its value, its mask and its number of bytes, whatever stands before and after it.\<close>

theorem oxm_roundtrip:
  assumes "f \<in> set oxm_types" and "value_ok f v m"
  shows "\<exists>w. oxm_serialize (of_num f) v m pre (length pre) = Inr (pre @ w, length w)
    \<and> (\<forall>post. oxm_parse (pre @ w @ post) (length pre) = Inr (of_num f, v, m, length w))"
proof -
  have "field_ok f" using oxm_types_ok assms(1) by blast
  with oxm_serialize_end oxm_parse_wire assms(2) show ?thesis by blast
qed

theorem oxm_roundtrip_demo:
  "\<exists>w. oxm_serialize (Num 0x400003) [2, 0, 0, 0, 0, 7] (Some [255, 255, 255, 0, 0, 0]) [] 0 = Inr ([] @ w, length w)
    \<and> (\<forall>post. oxm_parse ([] @ w @ post) 0 = Inr (Num 0x400003, [2, 0, 0, 0, 0, 7], Some [255, 255, 255, 0, 0, 0], length w))"
proof -
  have f: "OpenFlowBasic ''eth_dst'' 3 MacAddr \<in> set oxm_types" by (simp add: oxm_types_def)
  have n: "of_num (OpenFlowBasic ''eth_dst'' 3 MacAddr) = Num 0x400003" by code_simp
  have t: "of_type (OpenFlowBasic ''eth_dst'' 3 MacAddr) = MacAddr" by (simp add: OpenFlowBasic_def OxmClass_init_def Let_def)
  have "value_ok (OpenFlowBasic ''eth_dst'' 3 MacAddr) [2, 0, 0, 0, 0, 7] (Some [255, 255, 255, 0, 0, 0])"
    by (simp add: value_ok_def t descr_size_def)
  from oxm_roundtrip [OF f this, of "[]"] show ?thesis by (simp only: n list.size)
qed

end
