(* ===== verification/OFMatch.thy ===== *)
theory OFMatch
  imports Oxm
begin

text \<open>
  \<^verbatim>\<open>OFPMatch\<close> of \<^verbatim>\<open>ofproto_v1_3_parser.py\<close>: built from keyword arguments, written as a list of match fields with
  its length and padding, and read back. The fields set by the old interface (\<^verbatim>\<open>set_in_port\<close> and its like) and the copy
  of the fields in the old format that the parser keeps are not modelled.
\<close>

section \<open>The object\<close>

type_synonym user_field = "string \<times> (uval \<times> uval option)"

definition OFPMT_OXM :: int where "OFPMT_OXM = 1"

definition round_up :: "nat \<Rightarrow> nat \<Rightarrow> nat" where
  "round_up x y = ((x + y - 1) div y) * y"

text \<open>The order of Python 2 on the triples: a number is less than a pair, \<^verbatim>\<open>None\<close> is less than a string.\<close>

definition num_key :: "oxm_num \<Rightarrow> int list" where
  "num_key n = (case n of Num i \<Rightarrow> [0, i] | ExpNum e i \<Rightarrow> [1, e, i])"

definition field_key :: "oxm_num \<times> bytes \<times> bytes option \<Rightarrow> int list \<times> int list \<times> int list" where
  "field_key f = (case f of (n, v, m) \<Rightarrow>
     (num_key n, map uint v, case m of None \<Rightarrow> [] | Some m' \<Rightarrow> 1 # map uint m'))"

definition OFPMatch_init :: "addrconv \<Rightarrow> user_field list \<Rightarrow> user_field list res" where
  "OFPMatch_init conv kwargs =
     rbind (rmap (\<lambda>(k, uv). oxm_normalize_user conv k uv) kwargs) (\<lambda>kw.
     rbind (rmap (\<lambda>(k, uv). oxm_from_user conv k uv) kw) (\<lambda>fields.
     rmap (\<lambda>(n, v, m). oxm_to_user conv n v m) (sort_key field_key fields)))"

section \<open>Writing\<close>

definition put_field :: "bytes \<times> nat \<Rightarrow> oxm_num \<times> bytes \<times> bytes option \<Rightarrow> (bytes \<times> nat) res" where
  "put_field s f = (case s of (buf, field_offset) \<Rightarrow> case f of (n, v, m) \<Rightarrow>
     rbind (oxm_serialize n v m buf field_offset) (\<lambda>(buf', k). Inr (buf', field_offset + k)))"

text \<open>The result is the buffer and the number of bytes, padding included.\<close>

definition match_serialize :: "addrconv \<Rightarrow> user_field list \<Rightarrow> bytes \<Rightarrow> nat \<Rightarrow> (bytes \<times> nat) res" where
  "match_serialize conv fields2 buf offset =
     rbind (rmap (\<lambda>(k, uv). oxm_from_user conv k uv) fields2) (\<lambda>fields.
     rbind (rfold put_field (buf, offset + calcsize [fH, fH]) fields) (\<lambda>(buf1, field_offset).
     let len = field_offset - offset; pad_len = round_up len 8 - len in
     rbind (msg_pack_into [fH, fH] buf1 offset [VInt OFPMT_OXM, VInt (int len)]) (\<lambda>buf2.
     rbind (msg_pack_into [FX pad_len] buf2 field_offset []) (\<lambda>buf3.
     Inr (buf3, len + pad_len)))))"

section \<open>Reading\<close>

lemma rbind_InrD: "rbind m f = Inr y \<Longrightarrow> \<exists>x. m = Inr x \<and> f x = Inr y"
  by (simp add: rbind_eq_Inr)

lemma parse_header_length:
  assumes "parse_header_impl buf offset = Inr h"
  shows "4 \<le> oh_field_len h"
proof -
  from rbind_InrD [OF assms [unfolded parse_header_impl_def Let_def]] obtain header
    where "rbind (if drop_bit 7 (drop_bit 9 header) = OFPXMC_EXPERIMENTER then
              rbind (unpack1 [fI] buf (offset + 4)) (\<lambda>exp_id.
              if exp_id = ONF_EXPERIMENTER_ID \<and> drop_bit 9 header AND 0x7f = 0 then
                rbind (unpack1 [fH] buf (offset + 4 + 4)) (\<lambda>exp_type. Inr (ExpNum exp_id exp_type, 6))
              else Inr (ExpNum exp_id (drop_bit 9 header), 4))
            else Inr (Num (drop_bit 9 header), 0)) (\<lambda>(num, exp_hdr_len).
     if \<not> (if oxm_tlv_header_extract_hasmask header \<noteq> 0 then ((header AND 0xff) - int exp_hdr_len) div 2
           else (header AND 0xff) - int exp_hdr_len) > 0 then Inl AssertErr
     else Inr \<lparr>oh_num = num, oh_total_hdr_len = 4 + exp_hdr_len, oh_hasmask = oxm_tlv_header_extract_hasmask header \<noteq> 0,
               oh_value_len = (if oxm_tlv_header_extract_hasmask header \<noteq> 0 then ((header AND 0xff) - int exp_hdr_len) div 2
           else (header AND 0xff) - int exp_hdr_len), oh_field_len = 4 + nat (header AND 0xff)\<rparr>) = Inr h"
    by blast
  from rbind_InrD [OF this] show ?thesis by (auto split: if_split_asm prod.split_asm)
qed

lemma oxm_parse_length:
  assumes "oxm_parse buf offset = Inr (n, v, m, k)"
  shows "4 \<le> k"
proof -
  from rbind_InrD [OF assms [unfolded oxm_parse_def Let_def]] obtain h
    where h: "parse_header_impl buf offset = Inr h"
      and "\<exists>value msk. Inr (oh_num h, value, msk, oh_field_len h) = (Inr (n, v, m, k) :: (oxm_num \<times> bytes \<times> bytes option \<times> nat) res)"
    by (meson rbind_InrD)
  then have "k = oh_field_len h" by auto
  with parse_header_length [OF h] show ?thesis by simp
qed

text \<open>The loop over the fields: \<open>len\<close> bytes are left; it ends when none or less than none are.\<close>

function match_fields :: "addrconv \<Rightarrow> bytes \<Rightarrow> nat \<Rightarrow> nat \<Rightarrow> user_field list res" where
  "match_fields conv buf offset len =
     (if len = 0 then Inr []
      else case oxm_parse buf offset of Inl e \<Rightarrow> Inl e
      | Inr (n, v, m, field_len) \<Rightarrow>
        rbind (oxm_to_user conv n v m) (\<lambda>f.
        rbind (match_fields conv buf (offset + field_len) (len - field_len)) (\<lambda>fs. Inr (f # fs))))"
  by pat_completeness auto
termination
  by (relation "measure (\<lambda>(conv, buf, offset, len). len)") (auto dest: oxm_parse_length)

declare match_fields.simps [simp del]

definition unpack2 :: "format \<Rightarrow> bytes \<Rightarrow> nat \<Rightarrow> (int \<times> int) res" where
  "unpack2 fmt buf offset =
     rbind (unpack_from fmt buf offset) (\<lambda>vs. case vs of [VInt i, VInt j] \<Rightarrow> Inr (i, j) | _ \<Rightarrow> Inl ValueErr)"

definition unpack3 :: "format \<Rightarrow> bytes \<Rightarrow> nat \<Rightarrow> (int \<times> int \<times> int) res" where
  "unpack3 fmt buf offset =
     rbind (unpack_from fmt buf offset) (\<lambda>vs. case vs of [VInt i, VInt j, VInt k] \<Rightarrow> Inr (i, j, k) | _ \<Rightarrow> Inl ValueErr)"

definition ints_of :: "pyval list \<Rightarrow> int list res" where
  "ints_of = rmap (\<lambda>v. case v of VInt i \<Rightarrow> Inr i | VStr _ \<Rightarrow> Inl TypeErr)"

definition unpack_ints :: "format \<Rightarrow> bytes \<Rightarrow> nat \<Rightarrow> int list res" where
  "unpack_ints fmt buf offset = rbind (unpack_from fmt buf offset) ints_of"

definition in_range :: "nat \<Rightarrow> int \<Rightarrow> bool" where
  "in_range n i \<longleftrightarrow> 0 \<le> i \<and> i < 256 ^ n"

lemma ints_of_ints [simp]: "ints_of (map VInt is) = Inr is"
  unfolding ints_of_def rmap_map by (induction "is") simp_all

text \<open>The result is the type, the length and the fields.\<close>

definition match_parser :: "addrconv \<Rightarrow> bytes \<Rightarrow> nat \<Rightarrow> (int \<times> int \<times> user_field list) res" where
  "match_parser conv buf offset =
     rbind (unpack2 [fH, fH] buf offset) (\<lambda>(ty, len).
     rbind (match_fields conv buf (offset + 4) (nat (len - 4))) (\<lambda>fs. Inr (ty, len, fs)))"

section \<open>Round trip\<close>

text \<open>A value that its field can hold: converting it and back gives it again.\<close>

definition canon :: "addrconv \<Rightarrow> type_descr \<Rightarrow> uval \<Rightarrow> bytes \<Rightarrow> bool" where
  "canon conv t u b \<longleftrightarrow> td_from_user conv t u = Inr b \<and> descr_size t = Some (length b) \<and> td_to_user conv t b = Inr u"

definition field_canon :: "addrconv \<Rightarrow> user_field \<Rightarrow> bool" where
  "field_canon conv uf = (case uf of (k, (u, m)) \<Rightarrow>
     (case name_to_field k of None \<Rightarrow> False
      | Some f \<Rightarrow> f \<in> set oxm_types \<and> of_name f = k \<and> (\<exists>b. canon conv (of_type f) u b) \<and>
          (\<forall>u'. m = Some u' \<longrightarrow> (\<exists>b'. canon conv (of_type f) u' b'))))"

lemma canon_int: "0 \<le> i \<Longrightarrow> i < 256 ^ n \<Longrightarrow> canon conv (IntDescr n) (UInt i) (be_bytes n i)"
  by (simp add: canon_def td_from_user_def td_to_user_def descr_size_def)

lemma canon_addr:
  "text_to_bin conv n s = Inr b \<Longrightarrow> length b = n \<Longrightarrow> bin_to_text conv n b = s \<Longrightarrow> canon conv (AddrDescr n) (UText s) b"
  by (simp add: canon_def td_from_user_def td_to_user_def descr_size_def)

text \<open>The internal form of a field and its way back.\<close>

lemma field_canon_from_user:
  assumes "field_canon conv uf"
  shows "\<exists>f v m. oxm_from_user conv (fst uf) (snd uf) = Inr (of_num f, v, m) \<and> field_ok f \<and> value_ok f v m
    \<and> oxm_to_user conv (of_num f) v m = Inr uf"
proof -
  obtain k u mu where uf: "uf = (k, (u, mu))" by (cases uf) auto
  from assms obtain f where f: "name_to_field k = Some f" "f \<in> set oxm_types" "of_name f = k"
    by (auto simp: field_canon_def uf split: option.splits)
  from assms f obtain b where b: "canon conv (of_type f) u b" by (auto simp: field_canon_def uf)
  have ok: "field_ok f" using oxm_types_ok f(2) by blast
  then have num: "num_to_field (of_num f) = Some f" by (simp add: field_ok_def)
  show ?thesis
  proof (cases mu)
    case None
    with f b ok num show ?thesis
      by (intro exI [of _ f] exI [of _ b] exI [of _ None])
         (auto simp: uf oxm_from_user_def get_field_info_by_name_def oxm_to_user_def get_field_info_by_number_def
            canon_def value_ok_def)
  next
    case (Some u')
    with assms f obtain b' where "canon conv (of_type f) u' b'" by (auto simp: field_canon_def uf)
    with Some f b ok num show ?thesis
      by (intro exI [of _ f] exI [of _ b] exI [of _ "Some b'"])
         (auto simp: uf oxm_from_user_def get_field_info_by_name_def oxm_to_user_def get_field_info_by_number_def
            canon_def value_ok_def)
  qed
qed

definition wire_of :: "addrconv \<Rightarrow> user_field \<Rightarrow> bytes" where
  "wire_of conv uf = (case oxm_from_user conv (fst uf) (snd uf) of Inl _ \<Rightarrow> []
     | Inr (n, v, m) \<Rightarrow> (case num_to_field n of None \<Rightarrow> [] | Some f \<Rightarrow> oxm_wire f v m))"

definition fields_wire :: "addrconv \<Rightarrow> user_field list \<Rightarrow> bytes" where
  "fields_wire conv ufs = concat (map (wire_of conv) ufs)"

lemma field_wire:
  assumes "field_canon conv uf"
  obtains f v m where "oxm_from_user conv (fst uf) (snd uf) = Inr (of_num f, v, m)" "field_ok f" "value_ok f v m"
    "oxm_to_user conv (of_num f) v m = Inr uf" "wire_of conv uf = oxm_wire f v m"
proof -
  from field_canon_from_user [OF assms] obtain f v m where
    *: "oxm_from_user conv (fst uf) (snd uf) = Inr (of_num f, v, m)" "field_ok f" "value_ok f v m"
      "oxm_to_user conv (of_num f) v m = Inr uf" by blast
  then have "wire_of conv uf = oxm_wire f v m" by (simp add: wire_of_def field_ok_def)
  with * that show thesis by blast
qed

lemma wire_of_length: "field_canon conv uf \<Longrightarrow> 4 < length (wire_of conv uf)"
proof -
  assume "field_canon conv uf"
  then obtain f v m where "field_ok f" "value_ok f v m" "wire_of conv uf = oxm_wire f v m" by (rule field_wire)
  with field_size show ?thesis by (fastforce simp: oxm_wire_def)
qed

lemma put_field_end:
  "field_ok f \<Longrightarrow> value_ok f v m \<Longrightarrow>
     put_field (buf, length buf) (of_num f, v, m) = Inr (buf @ oxm_wire f v m, length (buf @ oxm_wire f v m))"
  by (simp add: put_field_def oxm_serialize_end)

lemma put_fields_end:
  assumes "\<forall>uf \<in> set ufs. field_canon conv uf"
  shows "\<exists>fields. rmap (\<lambda>(k, uv). oxm_from_user conv k uv) ufs = Inr fields
    \<and> rfold put_field (buf, length buf) fields = Inr (buf @ fields_wire conv ufs, length buf + length (fields_wire conv ufs))"
  using assms
proof (induction ufs arbitrary: buf)
  case (Cons uf ufs)
  then have "field_canon conv uf" by simp
  then obtain f v m where f: "oxm_from_user conv (fst uf) (snd uf) = Inr (of_num f, v, m)" "field_ok f" "value_ok f v m"
    "wire_of conv uf = oxm_wire f v m" by (rule field_wire)
  from Cons.IH [of "buf @ oxm_wire f v m"] Cons.prems obtain fields where
    "rmap (\<lambda>(k, uv). oxm_from_user conv k uv) ufs = Inr fields"
    "rfold put_field (buf @ oxm_wire f v m, length (buf @ oxm_wire f v m)) fields =
      Inr ((buf @ oxm_wire f v m) @ fields_wire conv ufs, length (buf @ oxm_wire f v m) + length (fields_wire conv ufs))"
    by auto
  with f put_field_end [OF f(2,3), of buf] show ?case
    by (cases uf) (auto simp: fields_wire_def add.assoc)
qed (simp add: fields_wire_def)

lemma match_fields_wire:
  assumes "\<forall>uf \<in> set ufs. field_canon conv uf"
  shows "match_fields conv (pre @ fields_wire conv ufs @ post) (length pre) (length (fields_wire conv ufs)) = Inr ufs"
  using assms
proof (induction ufs arbitrary: pre)
  case Nil
  show ?case by (simp add: match_fields.simps fields_wire_def)
next
  case (Cons uf ufs)
  then have c: "field_canon conv uf" by simp
  then obtain f v m where f: "field_ok f" "value_ok f v m" "oxm_to_user conv (of_num f) v m = Inr uf"
    "wire_of conv uf = oxm_wire f v m" by (rule field_wire)
  let ?w = "oxm_wire f v m"
  have fw: "fields_wire conv (uf # ufs) = ?w @ fields_wire conv ufs" using f(4) by (simp add: fields_wire_def)
  have parse: "oxm_parse (pre @ fields_wire conv (uf # ufs) @ post) (length pre) = Inr (of_num f, v, m, length ?w)"
    using oxm_parse_wire [OF f(1,2), of pre "fields_wire conv ufs @ post"] by (simp add: fw)
  have "match_fields conv ((pre @ ?w) @ fields_wire conv ufs @ post) (length (pre @ ?w)) (length (fields_wire conv ufs)) = Inr ufs"
    using Cons.IH [of "pre @ ?w"] Cons.prems by simp
  then have rest: "match_fields conv (pre @ fields_wire conv (uf # ufs) @ post) (length pre + length ?w)
      (length (fields_wire conv (uf # ufs)) - length ?w) = Inr ufs" by (simp add: fw)
  have "length (fields_wire conv (uf # ufs)) \<noteq> 0" using wire_of_length [OF c] by (auto simp: fields_wire_def)
  then show ?case by (subst match_fields.simps) (simp add: parse f(3) rest)
qed

text \<open>Building a match from fields without masks keeps them, in the order of the wire.\<close>

lemma OFPMatch_init_canon:
  assumes "\<forall>uf \<in> set us. field_canon conv uf \<and> snd (snd uf) = None"
  shows "\<exists>ufs. OFPMatch_init conv us = Inr ufs \<and> mset ufs = mset us"
proof -
  define g where "g uf = (case oxm_from_user conv (fst uf) (snd uf) of Inr t \<Rightarrow> t | Inl _ \<Rightarrow> undefined)" for uf
  define h where "h t = (case oxm_to_user conv (fst t) (fst (snd t)) (snd (snd t)) of Inr u \<Rightarrow> u | Inl _ \<Rightarrow> undefined)" for t
  have f: "oxm_from_user conv (fst uf) (snd uf) = Inr (g uf)" "oxm_to_user conv (fst (g uf)) (fst (snd (g uf))) (snd (snd (g uf))) = Inr uf"
    "snd (snd (g uf)) = None" if "uf \<in> set us" for uf
  proof -
    from assms that have "field_canon conv uf" "snd (snd uf) = None" by auto
    from this(1) obtain fl :: oxm_field and v m where w: "oxm_from_user conv (fst uf) (snd uf) = Inr (of_num fl, v, m)"
      "oxm_to_user conv (of_num fl) v m = Inr uf" by (rule field_wire) blast
    from w(1) have "m = None" using \<open>snd (snd uf) = None\<close>
      by (auto simp: oxm_from_user_def rbind_eq_Inr)
    with w show "oxm_from_user conv (fst uf) (snd uf) = Inr (g uf)"
      "oxm_to_user conv (fst (g uf)) (fst (snd (g uf))) (snd (snd (g uf))) = Inr uf" "snd (snd (g uf)) = None"
      by (simp_all add: g_def)
  qed
  have hg: "h (g uf) = uf" if "uf \<in> set us" for uf using f(2) [OF that] by (simp add: h_def)
  have n: "rmap (\<lambda>(k, uv). oxm_normalize_user conv k uv) us = Inr (map id us)"
  proof (rule rmap_Inr)
    fix uf assume "uf \<in> set us"
    from f [OF this] show "(case uf of (k, uv) \<Rightarrow> oxm_normalize_user conv k uv) = Inr (id uf)"
      by (cases uf; cases "g uf") (simp add: oxm_normalize_user_def)
  qed
  have k: "rmap (\<lambda>(k, uv). oxm_from_user conv k uv) us = Inr (map g us)"
    by (rule rmap_Inr) (use f(1) in \<open>auto simp: split_def\<close>)
  let ?s = "sort_key field_key (map g us)"
  have t: "rmap (\<lambda>(n, v, m). oxm_to_user conv n v m) ?s = Inr (map h ?s)"
  proof (rule rmap_Inr)
    fix t assume "t \<in> set ?s"
    then obtain uf where "uf \<in> set us" "t = g uf" by auto
    with f(2) hg show "(case t of (n, v, m) \<Rightarrow> oxm_to_user conv n v m) = Inr (h t)" by (simp add: split_def)
  qed
  have "mset (map h ?s) = mset (map (h \<circ> g) us)"
    by (simp add: multiset.map_comp)
  also have "map (h \<circ> g) us = us" using hg by (simp add: map_idI)
  finally show ?thesis using n k t by (simp add: OFPMatch_init_def)
qed

text \<open>The bytes of a match, and its size with the padding.\<close>

definition match_wire :: "addrconv \<Rightarrow> user_field list \<Rightarrow> bytes" where
  "match_wire conv ufs = (let len = 4 + length (fields_wire conv ufs) in
     be_bytes 2 OFPMT_OXM @ be_bytes 2 (int len) @ fields_wire conv ufs @ replicate (round_up len 8 - len) 0)"

lemma round_up_8: "n \<le> round_up n 8" "round_up n 8 mod 8 = 0" "round_up n 8 < n + 8"
  by (auto simp: round_up_def div_mult_mod_eq algebra_simps minus_mod_eq_mult_div [symmetric])

lemma match_wire_length: "length (match_wire conv ufs) = round_up (4 + length (fields_wire conv ufs)) 8"
  using round_up_8(1) [of "4 + length (fields_wire conv ufs)"] by (simp add: match_wire_def Let_def)

lemma oxm_serialize_gap:
  "oxm_serialize n v m buf (length buf + g) = oxm_serialize n v m (buf @ replicate g 0) (length buf + g)"
proof -
  have e: "msg_pack_into fmt buf (length buf + g) args = msg_pack_into fmt (buf @ replicate g 0) (length buf + g) args" for fmt args
    by (simp add: msg_pack_into_gap msg_pack_into_end)
  show ?thesis unfolding oxm_serialize_def e ..
qed

lemma match_serialize_end:
  assumes ufs: "\<forall>uf \<in> set ufs. field_canon conv uf" and small: "4 + length (fields_wire conv ufs) < 65536"
  shows "match_serialize conv ufs buf (length buf) = Inr (buf @ match_wire conv ufs, length (match_wire conv ufs))"
proof -
  let ?w = "fields_wire conv ufs"
  let ?len = "4 + length ?w"
  obtain fields where fields: "rmap (\<lambda>(k, uv). oxm_from_user conv k uv) ufs = Inr fields"
    using put_fields_end [OF ufs, of buf] by blast
  have nums: "0 \<le> (OFPMT_OXM :: int) \<and> (OFPMT_OXM :: int) < 256 ^ 2" "int ?len < 256 ^ 2"
    using small by (simp_all add: OFPMT_OXM_def)
  have hdr: "struct_pack [fH, fH] [VInt OFPMT_OXM, VInt (int ?len)] = Inr (be_bytes 2 OFPMT_OXM @ be_bytes 2 (int ?len))"
    using nums by simp
  have rl: "length (match_wire conv ufs) = ?len + (round_up ?len 8 - ?len)"
    by (simp add: match_wire_def Let_def)
  show ?thesis
  proof (cases ufs)
    case Nil
    with fields have fs: "fields = []" "?w = []" by (simp_all add: fields_wire_def)
    have "round_up 4 8 - 4 = 4" by (simp add: round_up_def)
    with Nil fs nums show ?thesis
      by (simp add: match_serialize_def fields msg_pack_into_end match_wire_def Let_def)
  next
    case (Cons uf ufs')
    then have "0 < length ?w" using ufs wire_of_length [of conv uf] by (auto simp: fields_wire_def)
    from Cons fields obtain f1 fs where f1: "fields = f1 # fs" by (auto simp: rbind_eq_Inr split: prod.splits)
    obtain n v m where nvm: "f1 = (n, v, m)" by (cases f1)
    let ?gap = "buf @ replicate 4 (0 :: 8 word)"
    note gap = oxm_serialize_gap [of n v m buf]
    have "rfold put_field (buf, length buf + 4) fields = rfold put_field (?gap, length ?gap) fields"
      by (simp add: f1 nvm put_field_def gap)
    also have "\<dots> = Inr (?gap @ ?w, length buf + ?len)"
      using put_fields_end [OF ufs, of ?gap] fields by auto
    finally have put: "rfold put_field (buf, length buf + 4) fields = Inr (?gap @ ?w, length buf + ?len)" .
    have over: "msg_pack_into [fH, fH] (buf @ replicate 4 0 @ ?w) (length buf) [VInt OFPMT_OXM, VInt (int ?len)] =
        Inr (buf @ (be_bytes 2 OFPMT_OXM @ be_bytes 2 (int ?len)) @ ?w)"
      by (subst msg_pack_into_over) (use small in \<open>simp_all add: OFPMT_OXM_def\<close>)
    show ?thesis
      using put over rl by (simp add: match_serialize_def fields Let_def msg_pack_into_end match_wire_def)
  qed
qed

lemma unpack2_at:
  assumes "length pre = offset" and "0 \<le> i" "i < 65536" and "0 \<le> j" "j < 65536"
  shows "unpack2 [fH, fH] (pre @ be_bytes 2 i @ be_bytes 2 j @ post) offset = Inr (i, j)"
proof -
  have p: "struct_pack [fH, fH] [VInt i, VInt j] = Inr (be_bytes 2 i @ be_bytes 2 j)" using assms by simp
  have "unpack_from [fH, fH] (pre @ (be_bytes 2 i @ be_bytes 2 j) @ post) offset = Inr [VInt i, VInt j]"
    by (rule unpack_from_at [OF assms(1) p]) (use assms in simp)
  then show ?thesis by (simp add: unpack2_def)
qed

lemma match_parser_wire:
  assumes ufs: "\<forall>uf \<in> set ufs. field_canon conv uf" and small: "4 + length (fields_wire conv ufs) < 65536"
  shows "match_parser conv (buf @ match_wire conv ufs @ post) (length buf) =
    Inr (OFPMT_OXM, 4 + int (length (fields_wire conv ufs)), ufs)"
proof -
  let ?w = "fields_wire conv ufs"
  let ?len = "4 + length ?w"
  define pad where "pad = replicate (round_up ?len 8 - ?len) (0 :: 8 word)"
  have buf: "buf @ match_wire conv ufs @ post = buf @ be_bytes 2 OFPMT_OXM @ be_bytes 2 (int ?len) @ ?w @ pad @ post"
    by (simp add: match_wire_def Let_def pad_def)
  have h: "unpack2 [fH, fH] (buf @ match_wire conv ufs @ post) (length buf) = Inr (OFPMT_OXM, int ?len)"
    unfolding buf by (rule unpack2_at) (use small in \<open>simp_all add: OFPMT_OXM_def\<close>)
  have "match_fields conv ((buf @ be_bytes 2 OFPMT_OXM @ be_bytes 2 (int ?len)) @ ?w @ pad @ post) (length buf + 4) (length ?w) = Inr ufs"
    using match_fields_wire [OF ufs, of "buf @ be_bytes 2 OFPMT_OXM @ be_bytes 2 (int ?len)" "pad @ post"] by simp
  then have "match_fields conv (buf @ match_wire conv ufs @ post) (length buf + 4) (nat (int ?len - 4)) = Inr ufs"
    unfolding buf by simp
  then show ?thesis by (simp add: match_parser_def h)
qed

text \<open>A match written at the end of a buffer takes a multiple of eight bytes and is read back, with its type, its
  length and its fields in their order, whatever follows.\<close>

theorem match_roundtrip:
  assumes "\<forall>uf \<in> set ufs. field_canon conv uf" and "4 + length (fields_wire conv ufs) < 65536"
  shows "\<exists>w. match_serialize conv ufs buf (length buf) = Inr (buf @ w, length w) \<and> length w mod 8 = 0
    \<and> (\<forall>post. match_parser conv (buf @ w @ post) (length buf) =
          Inr (OFPMT_OXM, 4 + int (length (fields_wire conv ufs)), ufs))"
  using match_serialize_end [OF assms, of buf] match_parser_wire [OF assms, of buf] match_wire_length [of conv ufs]
    round_up_8(2) [of "4 + length (fields_wire conv ufs)"] by auto

text \<open>Addresses of the data center, converted by a table of the bytes of one address.\<close>

definition demo_conv :: addrconv where
  "demo_conv = \<lparr>text_to_bin = (\<lambda>n s. if s = ''00:00:00:00:00:01'' then Inr [0, 0, 0, 0, 0, 1] else Inl ValueErr),
     bin_to_text = (\<lambda>n b. ''00:00:00:00:00:01''), b64decode = (\<lambda>s. Inl TypeErr), b64encode = (\<lambda>b. [])\<rparr>"

definition demo_fields :: "user_field list" where
  "demo_fields = [(''in_port'', (UInt 3, None)), (''eth_dst'', (UText ''00:00:00:00:00:01'', None))]"

lemma demo_fields_canon: "\<forall>uf \<in> set demo_fields. field_canon demo_conv uf"
proof -
  have n: "name_to_field ''in_port'' = Some (OpenFlowBasic ''in_port'' 0 (IntDescr 4))"
    "name_to_field ''eth_dst'' = Some (OpenFlowBasic ''eth_dst'' 3 MacAddr)"
    by (simp_all add: name_to_field_def oxm_types_def OpenFlowBasic_def OxmClass_init_def Let_def)
  have t: "of_type (OpenFlowBasic k i t) = t" "of_name (OpenFlowBasic k i t) = k" for k i t
    by (simp_all add: OpenFlowBasic_def OxmClass_init_def Let_def)
  have m: "OpenFlowBasic ''in_port'' 0 (IntDescr 4) \<in> set oxm_types" "OpenFlowBasic ''eth_dst'' 3 MacAddr \<in> set oxm_types"
    by (simp_all add: oxm_types_def)
  have "canon demo_conv (IntDescr 4) (UInt 3) (be_bytes 4 3)" by (rule canon_int) simp_all
  moreover have "canon demo_conv MacAddr (UText ''00:00:00:00:00:01'') [0, 0, 0, 0, 0, 1]"
    by (rule canon_addr) (simp_all add: demo_conv_def)
  ultimately show ?thesis using n t m by (auto simp: demo_fields_def field_canon_def)
qed

theorem match_roundtrip_demo:
  "\<exists>w. match_serialize demo_conv demo_fields [] 0 = Inr ([] @ w, length w) \<and> length w mod 8 = 0
    \<and> (\<forall>post. match_parser demo_conv ([] @ w @ post) 0 = Inr (OFPMT_OXM, 22, demo_fields))"
proof -
  have "length (fields_wire demo_conv demo_fields) = 18" by code_simp
  with match_roundtrip [OF demo_fields_canon, of "[]"] show ?thesis by simp
qed

end
