(* ===== verification/NXActions.thy ===== *)
theory NXActions
  imports OFMatch
begin

unbundle bit_operations_syntax

text \<open>
  The actions of Nicira, \<^verbatim>\<open>nx_actions.py\<close>: moving bits between fields, and learning a flow, whose specifications say
  what the learned flow matches, loads and where it sends. These are the actions that the action of an experimenter
  hands on by the experimenter's number.
\<close>

section \<open>Flow specifications\<close>

text \<open>The source of the bits is a part of a field (its name and offset) or a number.\<close>

datatype nx_src = SrcField string int | SrcImmediate int

datatype flow_spec = FlowSpecMatch nx_src string int int | FlowSpecLoad nx_src string int int | FlowSpecOutput nx_src int

definition NXFlowSpec_parse_subfield :: "bytes \<Rightarrow> (string \<times> int) res" where
  "NXFlowSpec_parse_subfield buf =
     rbind (oxm_parse_header buf 0) (\<lambda>(n, len).
     if len \<noteq> 4 then Inl AssertErr
     else rbind (oxm_to_user_header n) (\<lambda>field.
       let rest = drop (nat len) buf in
       rbind (unpack1 [fH] rest 0) (\<lambda>ofs. Inr (field, ofs))))"

definition NXFlowSpec_serialize_subfield :: "string \<Rightarrow> int \<Rightarrow> bytes res" where
  "NXFlowSpec_serialize_subfield field ofs =
     rbind (oxm_from_user_header field) (\<lambda>n.
     rbind (oxm_serialize_header n [] 0) (\<lambda>(buf, _).
     if length buf \<noteq> 4 then Inl AssertErr else msg_pack_into [fH] buf 4 [VInt ofs]))"

text \<open>The number of bytes of a number of some bits.\<close>

definition src_len :: "int \<Rightarrow> nat" where
  "src_len n_bits = nat ((n_bits + 15) div 16 * 2)"

text \<open>A header of zero is padding. Ten bits of the header hold the number of bits.\<close>

definition NXFlowSpec_parse :: "bytes \<Rightarrow> (flow_spec option \<times> bytes) res" where
  "NXFlowSpec_parse buf =
     rbind (unpack1 [fH] buf 0) (\<lambda>hdr.
     let rest = drop 2 buf in
     if hdr = 0 then Inr (None, rest)
     else
       let src_type = drop_bit 13 hdr AND 0x1;
           dst_type = drop_bit 11 hdr AND 0x3;
           n_bits = hdr AND 0x3ff in
       if dst_type \<notin> {0, 1, 2} then Inl KeyErr
       else
         rbind (if src_type = 0 then rbind (NXFlowSpec_parse_subfield rest) (\<lambda>(f, ofs). Inr (SrcField f ofs, drop 6 rest))
                else
                  let src_bin = take (src_len n_bits) rest in
                  if length src_bin < src_len n_bits then Inl TypeErr
                  else Inr (SrcImmediate (be_int src_bin), drop (src_len n_bits) rest)) (\<lambda>(src, rest1).
         if dst_type = 0 then rbind (NXFlowSpec_parse_subfield rest1) (\<lambda>(f, ofs). Inr (Some (FlowSpecMatch src f ofs n_bits), drop 6 rest1))
         else if dst_type = 1 then rbind (NXFlowSpec_parse_subfield rest1) (\<lambda>(f, ofs). Inr (Some (FlowSpecLoad src f ofs n_bits), drop 6 rest1))
         else Inr (Some (FlowSpecOutput src n_bits), rest1)))"

definition spec_src :: "flow_spec \<Rightarrow> nx_src" where
  "spec_src s = (case s of FlowSpecMatch src _ _ _ \<Rightarrow> src | FlowSpecLoad src _ _ _ \<Rightarrow> src | FlowSpecOutput src _ \<Rightarrow> src)"

definition spec_bits :: "flow_spec \<Rightarrow> int" where
  "spec_bits s = (case s of FlowSpecMatch _ _ _ n \<Rightarrow> n | FlowSpecLoad _ _ _ n \<Rightarrow> n | FlowSpecOutput _ n \<Rightarrow> n)"

definition spec_dst_type :: "flow_spec \<Rightarrow> int" where
  "spec_dst_type s = (case s of FlowSpecMatch _ _ _ _ \<Rightarrow> 0 | FlowSpecLoad _ _ _ _ \<Rightarrow> 1 | FlowSpecOutput _ _ \<Rightarrow> 2)"

definition spec_src_type :: "flow_spec \<Rightarrow> int" where
  "spec_src_type s = (case spec_src s of SrcField _ _ \<Rightarrow> 0 | SrcImmediate _ \<Rightarrow> 1)"

definition NXFlowSpec_serialize :: "flow_spec \<Rightarrow> bytes res" where
  "NXFlowSpec_serialize s =
     rbind (msg_pack_into [fH] [] 0 [VInt (push_bit 13 (spec_src_type s) OR push_bit 11 (spec_dst_type s) OR spec_bits s)]) (\<lambda>buf.
     rbind (case spec_src s of SrcField f ofs \<Rightarrow> NXFlowSpec_serialize_subfield f ofs
            | SrcImmediate i \<Rightarrow> Inr (be_bytes (src_len (spec_bits s)) i)) (\<lambda>src.
     rbind (case s of FlowSpecMatch _ f ofs _ \<Rightarrow> NXFlowSpec_serialize_subfield f ofs
            | FlowSpecLoad _ f ofs _ \<Rightarrow> NXFlowSpec_serialize_subfield f ofs
            | FlowSpecOutput _ _ \<Rightarrow> Inr []) (\<lambda>dst. Inr (buf @ src @ dst))))"

section \<open>Actions\<close>

record nx_learn =
  nl_idle_timeout :: int
  nl_hard_timeout :: int
  nl_priority :: int
  nl_cookie :: int
  nl_flags :: int
  nl_table_id :: int
  nl_fin_idle_timeout :: int
  nl_fin_hard_timeout :: int
  nl_specs :: "flow_spec list"

datatype nx_action = RegMove string string int int int | Learn nx_learn

definition NXAST_REG_MOVE :: int where "NXAST_REG_MOVE = 6"
definition NXAST_LEARN :: int where "NXAST_LEARN = 16"
definition learn_fmt :: format where "learn_fmt = [fH, fH, fH, fQ, fH, fB, FX 1, fH, fH]"
definition OFPAT_EXPERIMENTER :: int where "OFPAT_EXPERIMENTER = 0xffff"
definition OFP_ACTION_EXPERIMENTER_HEADER_PACK_STR :: format where "OFP_ACTION_EXPERIMENTER_HEADER_PACK_STR = [fH, fH, fI]"
definition OFP_ACTION_EXPERIMENTER_HEADER_SIZE :: nat where "OFP_ACTION_EXPERIMENTER_HEADER_SIZE = 8"

text \<open>\<^verbatim>\<open>RegMove src_field dst_field n_bits src_ofs dst_ofs\<close>.\<close>

definition NXActionRegMove_parse :: "bytes \<Rightarrow> nx_action res" where
  "NXActionRegMove_parse buf =
     rbind (unpack3 [fH, fH, fH] buf 0) (\<lambda>(n_bits, src_ofs, dst_ofs).
     let rest = drop 6 buf in
     rbind (oxm_parse_header rest 0) (\<lambda>(n, len).
     rbind (oxm_to_user_header n) (\<lambda>src_field.
     let rest = drop (nat len) rest in
     rbind (oxm_parse_header rest 0) (\<lambda>(n, len).
     rbind (oxm_to_user_header n) (\<lambda>dst_field.
     Inr (RegMove src_field dst_field n_bits src_ofs dst_ofs))))))"

text \<open>\<^verbatim>\<open>while len(rest) > 0\<close>: a specification takes at least its header, so the loop ends.\<close>

lemma unpack1_room: "unpack1 fmt buf offset = Inr i \<Longrightarrow> offset + calcsize fmt \<le> length buf"
  by (auto simp: unpack1_def unpack_from_def split: if_splits)

lemma NXFlowSpec_progress: "NXFlowSpec_parse buf = Inr (s, rest) \<Longrightarrow> length rest < length buf"
  unfolding NXFlowSpec_parse_def Let_def
  by (auto dest!: rbind_InrD unpack1_room split: if_splits prod.splits; linarith)

function learn_specs :: "bytes \<Rightarrow> flow_spec list res" where
  "learn_specs rest =
     (if rest = [] then Inr []
      else case NXFlowSpec_parse rest of
          Inl e \<Rightarrow> Inl e
        | Inr (spec, rest') \<Rightarrow>
            rbind (learn_specs rest') (\<lambda>specs. Inr (case spec of None \<Rightarrow> specs | Some s \<Rightarrow> s # specs)))"
  by pat_completeness auto
termination
  by (relation "measure length") (auto dest: NXFlowSpec_progress)

declare learn_specs.simps [simp del]

definition NXActionLearn_parse :: "bytes \<Rightarrow> nx_action res" where
  "NXActionLearn_parse buf =
     rbind (unpack_ints learn_fmt buf 0) (\<lambda>vs. case vs of
       [idle_timeout, hard_timeout, priority, cookie, flags, table_id, fin_idle_timeout, fin_hard_timeout] \<Rightarrow>
         rbind (learn_specs (drop (calcsize learn_fmt) buf)) (\<lambda>specs.
         Inr (Learn \<lparr>nl_idle_timeout = idle_timeout, nl_hard_timeout = hard_timeout, nl_priority = priority, nl_cookie = cookie,
           nl_flags = flags, nl_table_id = table_id, nl_fin_idle_timeout = fin_idle_timeout,
           nl_fin_hard_timeout = fin_hard_timeout, nl_specs = specs\<rparr>))
     | _ \<Rightarrow> Inl ValueErr)"

text \<open>For a subtype without a class \<^verbatim>\<open>NXActionUnknown\<close> is created, and its constructor asks for the attribute
  \<^verbatim>\<open>_subtype\<close>, which the class does not have.\<close>

definition NXAction_parse :: "bytes \<Rightarrow> nx_action res" where
  "NXAction_parse buf =
     rbind (unpack1 [fH] buf 0) (\<lambda>subtype.
     let rest = drop 2 buf in
     if subtype = NXAST_REG_MOVE then NXActionRegMove_parse rest
     else if subtype = NXAST_LEARN then NXActionLearn_parse rest
     else Inl AttributeErr)"

definition OFPActionExperimenter_serialize :: "int \<Rightarrow> int \<Rightarrow> bytes \<Rightarrow> nat \<Rightarrow> bytes res" where
  "OFPActionExperimenter_serialize len experimenter buf offset =
     msg_pack_into OFP_ACTION_EXPERIMENTER_HEADER_PACK_STR buf offset [VInt OFPAT_EXPERIMENTER, VInt len, VInt experimenter]"

definition NXAction_serialize :: "int \<Rightarrow> int \<Rightarrow> bytes \<Rightarrow> nat \<Rightarrow> bytes res" where
  "NXAction_serialize len subtype buf offset =
     rbind (OFPActionExperimenter_serialize len NX_EXPERIMENTER_ID buf offset) (\<lambda>buf1.
     msg_pack_into [fH] buf1 (offset + OFP_ACTION_EXPERIMENTER_HEADER_SIZE) [VInt subtype])"

text \<open>The end of both serializers: the length is rounded up, the data is written without padding.\<close>

definition nx_put :: "int \<Rightarrow> bytes \<Rightarrow> bytes \<Rightarrow> nat \<Rightarrow> (bytes \<times> nat) res" where
  "nx_put subtype data buf offset =
     (let payload_offset = OFP_ACTION_EXPERIMENTER_HEADER_SIZE + 2;
          len = round_up (payload_offset + length data) 8 in
      rbind (NXAction_serialize (int len) subtype buf offset) (\<lambda>buf1.
      rbind (msg_pack_into [FS (length data)] buf1 (offset + payload_offset) [VStr data]) (\<lambda>buf2. Inr (buf2, len))))"

definition NXActionRegMove_serialize :: "string \<Rightarrow> string \<Rightarrow> int \<Rightarrow> int \<Rightarrow> int \<Rightarrow> bytes \<Rightarrow> nat \<Rightarrow> (bytes \<times> nat) res" where
  "NXActionRegMove_serialize src_field dst_field n_bits src_ofs dst_ofs buf offset =
     rbind (msg_pack_into [fH, fH, fH] [] 0 [VInt n_bits, VInt src_ofs, VInt dst_ofs]) (\<lambda>data.
     rbind (oxm_from_user_header src_field) (\<lambda>n.
     rbind (oxm_serialize_header n data (length data)) (\<lambda>(data1, _).
     rbind (oxm_from_user_header dst_field) (\<lambda>n.
     rbind (oxm_serialize_header n data1 (length data1)) (\<lambda>(data2, _).
     nx_put NXAST_REG_MOVE data2 buf offset)))))"

definition NXActionLearn_serialize :: "nx_learn \<Rightarrow> bytes \<Rightarrow> nat \<Rightarrow> (bytes \<times> nat) res" where
  "NXActionLearn_serialize l buf offset =
     rbind (msg_pack_into learn_fmt [] 0 [VInt (nl_idle_timeout l), VInt (nl_hard_timeout l), VInt (nl_priority l), VInt (nl_cookie l),
       VInt (nl_flags l), VInt (nl_table_id l), VInt (nl_fin_idle_timeout l), VInt (nl_fin_hard_timeout l)]) (\<lambda>data.
     rbind (rmap NXFlowSpec_serialize (nl_specs l)) (\<lambda>specs.
     nx_put NXAST_LEARN (data @ concat specs) buf offset))"

definition nx_serialize :: "nx_action \<Rightarrow> bytes \<Rightarrow> nat \<Rightarrow> (bytes \<times> nat) res" where
  "nx_serialize a buf offset =
     (case a of RegMove src_field dst_field n_bits src_ofs dst_ofs \<Rightarrow>
        NXActionRegMove_serialize src_field dst_field n_bits src_ofs dst_ofs buf offset
      | Learn l \<Rightarrow> NXActionLearn_serialize l buf offset)"

section \<open>Round trips\<close>

lemma be_int_byte [simp]: "0 \<le> i \<Longrightarrow> i < 256 \<Longrightarrow> be_int [word_of_int i] = i"
  using be_int_be_bytes_id [of i 1] by simp

text \<open>A field of the table, by its name; the header of a basic one has four bytes.\<close>

definition table_name :: "string \<Rightarrow> bool" where
  "table_name name = (case name_to_field name of None \<Rightarrow> False | Some f \<Rightarrow> f \<in> set oxm_types \<and> of_name f = name)"

definition basic_name :: "string \<Rightarrow> bool" where
  "basic_name name \<longleftrightarrow> table_name name \<and> of_kind (the (name_to_field name)) = Basic"

definition name_header :: "string \<Rightarrow> bytes" where
  "name_header name = field_header (the (name_to_field name))"

lemma name_roundtrip:
  assumes "table_name name"
  obtains n where "oxm_from_user_header name = Inr n" "oxm_to_user_header n = Inr name"
    "\<And>buf. oxm_serialize_header n buf (length buf) = Inr (buf @ name_header name, length (name_header name))"
    "\<And>pre rest. oxm_parse_header (pre @ name_header name @ rest) (length pre) = Inr (n, int (length (name_header name)))"
proof -
  from assms obtain f where f: "f \<in> set oxm_types" "name_to_field name = Some f" "of_name f = name"
    by (auto simp: table_name_def split: option.splits)
  note h = header_name [OF f]
  show thesis
    by (rule that [OF h(1,2)]) (simp_all add: name_header_def f(2) header_roundtrip [OF h(3)])
qed

lemma name_header_length: "4 \<le> length (name_header name) \<and> length (name_header name) \<le> 10"
  using exp_hdr_length [of "the (name_to_field name)"] by (simp add: name_header_def length_field_header)

lemma basic_length: "basic_name name \<Longrightarrow> length (name_header name) = 4"
  by (simp add: basic_name_def name_header_def length_field_header exp_hdr_of_def)

lemma subfield_roundtrip:
  assumes "basic_name f" "in_range 2 ofs"
  shows "NXFlowSpec_serialize_subfield f ofs = Inr (name_header f @ be_bytes 2 ofs)"
    and "NXFlowSpec_parse_subfield (name_header f @ be_bytes 2 ofs @ rest) = Inr (f, ofs)"
proof -
  have "table_name f" using assms(1) by (simp add: basic_name_def)
  then obtain n where n: "oxm_from_user_header f = Inr n" "oxm_to_user_header n = Inr f"
    "\<And>buf. oxm_serialize_header n buf (length buf) = Inr (buf @ name_header f, length (name_header f))"
    "\<And>pre rest. oxm_parse_header (pre @ name_header f @ rest) (length pre) = Inr (n, int (length (name_header f)))"
    by (rule name_roundtrip) blast
  note l = basic_length [OF assms(1)]
  from n(1) n(3) [of "[]"] l assms(2) show "NXFlowSpec_serialize_subfield f ofs = Inr (name_header f @ be_bytes 2 ofs)"
    by (simp add: NXFlowSpec_serialize_subfield_def msg_pack_into_end in_range_def)
  have "unpack1 [fH] ([] @ be_bytes 2 ofs @ rest) 0 = Inr ofs"
    by (rule unpack1_at) (use assms(2) in \<open>simp_all add: in_range_def\<close>)
  with n(2) n(4) [of "[]"] l show "NXFlowSpec_parse_subfield (name_header f @ be_bytes 2 ofs @ rest) = Inr (f, ofs)"
    by (simp add: NXFlowSpec_parse_subfield_def)
qed

lemma spec_header_bits:
  fixes s d n :: int
  assumes s: "s = 0 \<or> s = 1" and d: "d = 0 \<or> d = 1 \<or> d = 2" and n: "0 < n" "n < 1024"
  defines "h \<equiv> push_bit 13 s OR push_bit 11 d OR n"
  shows "drop_bit 13 h AND 1 = s" "drop_bit 11 h AND 3 = d" "h AND 1023 = n" "0 < h" "h < 65536"
proof -
  have n11: "drop_bit 11 n = 0" "drop_bit 13 n = 0" "take_bit 10 n = n" "take_bit 16 n = n"
    using n by (simp_all add: drop_bit_eq_div take_bit_int_eq_self_iff)
  have d2: "drop_bit 2 d = 0" "take_bit 2 d = d" using d by (auto simp: drop_bit_eq_div take_bit_int_eq_self_iff)
  have "drop_bit 13 h = s"
    using n11 d2 by (simp add: h_def drop_bit_push_bit)
  then show "drop_bit 13 h AND 1 = s" using s by auto
  have "drop_bit 11 h = push_bit 2 s OR d" using n11 by (simp add: h_def drop_bit_push_bit)
  then have "take_bit 2 (drop_bit 11 h) = d" using d2 by (simp add: take_bit_push_bit)
  then show "drop_bit 11 h AND 3 = d" by (simp add: take_bit_eq_mask mask_eq_exp_minus_1)
  have t: "take_bit 10 h = n" using n11 by (simp add: h_def take_bit_push_bit)
  then show "h AND 1023 = n" by (simp add: take_bit_eq_mask mask_eq_exp_minus_1)
  have "0 \<le> h" using s d n by (auto simp: h_def or_nonnegative_int_iff)
  moreover have "h \<noteq> 0" using t n by auto
  ultimately show "0 < h" by simp
  have "take_bit 3 s = s" "take_bit 5 d = d" using s d by (auto simp: take_bit_int_eq_self_iff)
  then have "take_bit 16 h = h" using n11 by (simp add: h_def take_bit_push_bit)
  then show "h < 65536" by (simp add: take_bit_int_eq_self_iff)
qed

definition spec_ok :: "flow_spec \<Rightarrow> bool" where
  "spec_ok s \<longleftrightarrow> 0 < spec_bits s \<and> spec_bits s < 1024
     \<and> (case spec_src s of SrcField f ofs \<Rightarrow> basic_name f \<and> in_range 2 ofs | SrcImmediate i \<Rightarrow> in_range (src_len (spec_bits s)) i)
     \<and> (case s of FlowSpecMatch _ f ofs _ \<Rightarrow> basic_name f \<and> in_range 2 ofs | FlowSpecLoad _ f ofs _ \<Rightarrow> basic_name f \<and> in_range 2 ofs
        | FlowSpecOutput _ _ \<Rightarrow> True)"

definition spec_wire :: "flow_spec \<Rightarrow> bytes" where
  "spec_wire s = (case NXFlowSpec_serialize s of Inl _ \<Rightarrow> [] | Inr w \<Rightarrow> w)"

lemma spec_roundtrip:
  assumes "spec_ok s"
  shows "NXFlowSpec_serialize s = Inr (spec_wire s)" and "NXFlowSpec_parse (spec_wire s @ rest) = Inr (Some s, rest)"
    and "spec_wire s \<noteq> []"
proof -
  let ?st = "spec_src_type s" and ?n = "spec_bits s"
  define h where "h = push_bit 13 ?st OR push_bit 11 (spec_dst_type s) OR ?n"
  define src where "src = (case spec_src s of SrcField f ofs \<Rightarrow> name_header f @ be_bytes 2 ofs | SrcImmediate i \<Rightarrow> be_bytes (src_len ?n) i)"
  define dst where "dst = (case s of FlowSpecMatch _ f ofs _ \<Rightarrow> name_header f @ be_bytes 2 ofs
     | FlowSpecLoad _ f ofs _ \<Rightarrow> name_header f @ be_bytes 2 ofs | FlowSpecOutput _ _ \<Rightarrow> [])"
  have st: "?st = 0 \<or> ?st = 1" and dt: "spec_dst_type s = 0 \<or> spec_dst_type s = 1 \<or> spec_dst_type s = 2"
    by (simp_all add: spec_src_type_def spec_dst_type_def split: nx_src.split flow_spec.split)
  have n: "0 < ?n" "?n < 1024" using assms by (simp_all add: spec_ok_def)
  note hb = spec_header_bits [OF st dt n, folded h_def]
  have ser: "NXFlowSpec_serialize s = Inr (be_bytes 2 h @ src @ dst)"
    using assms hb(4,5) subfield_roundtrip(1)
    by (auto simp: NXFlowSpec_serialize_def msg_pack_into_end src_def dst_def spec_ok_def
        simp flip: h_def split: nx_src.splits flow_spec.splits)
  then have w: "spec_wire s = be_bytes 2 h @ src @ dst" by (simp add: spec_wire_def)
  from ser w show "NXFlowSpec_serialize s = Inr (spec_wire s)" by simp
  have "length (spec_wire s) \<noteq> 0" by (simp add: w)
  then show "spec_wire s \<noteq> []" by auto
  have u: "unpack1 [fH] (spec_wire s @ rest) 0 = Inr h" and r: "drop 2 (spec_wire s @ rest) = src @ dst @ rest"
    using unpack1_at [of "[]" 0 h 2 "src @ dst @ rest"] hb(4,5) by (simp_all add: w)
  have ps: "(if ?st = 0 then rbind (NXFlowSpec_parse_subfield (src @ dst @ rest)) (\<lambda>(f, ofs). Inr (SrcField f ofs, drop 6 (src @ dst @ rest)))
      else let src_bin = take (src_len ?n) (src @ dst @ rest) in
        if length src_bin < src_len ?n then Inl TypeErr
        else Inr (SrcImmediate (be_int src_bin), drop (src_len ?n) (src @ dst @ rest))) = Inr (spec_src s, dst @ rest)"
    using assms subfield_roundtrip(2) [of _ _ "dst @ rest"] basic_length
    by (auto simp: src_def spec_ok_def in_range_def spec_src_type_def split: nx_src.split)
  have pd: "(if spec_dst_type s = 0 then rbind (NXFlowSpec_parse_subfield (dst @ rest)) (\<lambda>(f, ofs). Inr (Some (FlowSpecMatch (spec_src s) f ofs ?n), drop 6 (dst @ rest)))
      else if spec_dst_type s = 1 then rbind (NXFlowSpec_parse_subfield (dst @ rest)) (\<lambda>(f, ofs). Inr (Some (FlowSpecLoad (spec_src s) f ofs ?n), drop 6 (dst @ rest)))
      else Inr (Some (FlowSpecOutput (spec_src s) ?n), dst @ rest)) = Inr (Some s, rest)"
    using assms subfield_roundtrip(2) [of _ _ rest] basic_length
    by (auto simp: dst_def spec_ok_def spec_dst_type_def spec_src_def spec_bits_def split: flow_spec.split)
  have dt': "spec_dst_type s \<in> {0, 1, 2}" using dt by auto
  from hb(4) show "NXFlowSpec_parse (spec_wire s @ rest) = Inr (Some s, rest)"
    unfolding NXFlowSpec_parse_def u rbind_simps Let_def r hb(1-3)
    using ps [unfolded Let_def] pd dt' by simp
qed

lemma learn_specs_padding: "learn_specs (replicate (2 * k) 0) = Inr []"
proof (induction k)
  case (Suc k)
  have "NXFlowSpec_parse (replicate (2 * Suc k) 0) = Inr (None, replicate (2 * k) 0)"
    by (simp add: NXFlowSpec_parse_def unpack1_def unpack_from_def be_int_def)
  with Suc show ?case by (subst learn_specs.simps) simp
qed (simp add: learn_specs.simps)

text \<open>The specifications are read back, with zero bytes for padding after them.\<close>

lemma learn_specs_wire:
  "\<forall>s \<in> set specs. spec_ok s \<Longrightarrow> learn_specs (concat (map spec_wire specs) @ replicate (2 * k) 0) = Inr specs"
proof (induction specs)
  case Nil
  show ?case by (simp add: learn_specs_padding)
next
  case (Cons s specs)
  then have s: "spec_ok s" by simp
  from spec_roundtrip(2,3) [OF s] Cons show ?case by (subst learn_specs.simps) simp
qed

text \<open>An action as a whole. Its bytes are complete when they are a multiple of eight.\<close>

definition nx_subtype :: "nx_action \<Rightarrow> int" where
  "nx_subtype a = (case a of RegMove _ _ _ _ _ \<Rightarrow> NXAST_REG_MOVE | Learn _ \<Rightarrow> NXAST_LEARN)"

definition learn_wire :: "nx_learn \<Rightarrow> bytes" where
  "learn_wire l = be_bytes 2 (nl_idle_timeout l) @ be_bytes 2 (nl_hard_timeout l) @ be_bytes 2 (nl_priority l)
     @ be_bytes 8 (nl_cookie l) @ be_bytes 2 (nl_flags l) @ be_bytes 1 (nl_table_id l) @ [0]
     @ be_bytes 2 (nl_fin_idle_timeout l) @ be_bytes 2 (nl_fin_hard_timeout l)"

definition nx_data :: "nx_action \<Rightarrow> bytes" where
  "nx_data a =
     (case a of RegMove src_field dst_field n_bits src_ofs dst_ofs \<Rightarrow>
        be_bytes 2 n_bits @ be_bytes 2 src_ofs @ be_bytes 2 dst_ofs @ name_header src_field @ name_header dst_field
      | Learn l \<Rightarrow> learn_wire l @ concat (map spec_wire (nl_specs l)))"

definition nx_fields_ok :: "nx_action \<Rightarrow> bool" where
  "nx_fields_ok a =
     (case a of RegMove src_field dst_field n_bits src_ofs dst_ofs \<Rightarrow>
        in_range 2 n_bits \<and> in_range 2 src_ofs \<and> in_range 2 dst_ofs \<and> table_name src_field \<and> table_name dst_field
      | Learn l \<Rightarrow> in_range 2 (nl_idle_timeout l) \<and> in_range 2 (nl_hard_timeout l) \<and> in_range 2 (nl_priority l)
          \<and> in_range 8 (nl_cookie l) \<and> in_range 2 (nl_flags l) \<and> in_range 1 (nl_table_id l)
          \<and> in_range 2 (nl_fin_idle_timeout l) \<and> in_range 2 (nl_fin_hard_timeout l) \<and> (\<forall>s \<in> set (nl_specs l). spec_ok s))"

definition nx_ok :: "nx_action \<Rightarrow> bool" where
  "nx_ok a \<longleftrightarrow> nx_fields_ok a \<and> (10 + length (nx_data a)) mod 8 = 0 \<and> length (nx_data a) \<le> 245"

definition nx_wire :: "nx_action \<Rightarrow> bytes" where
  "nx_wire a = be_bytes 2 OFPAT_EXPERIMENTER @ be_bytes 2 (int (10 + length (nx_data a))) @ be_bytes 4 NX_EXPERIMENTER_ID
     @ be_bytes 2 (nx_subtype a) @ nx_data a"

lemma length_nx_wire [simp]: "length (nx_wire a) = 10 + length (nx_data a)"
  by (simp add: nx_wire_def)

lemma learn_wire_roundtrip:
  assumes "nx_fields_ok (Learn l)"
  shows "msg_pack_into learn_fmt [] 0 [VInt (nl_idle_timeout l), VInt (nl_hard_timeout l), VInt (nl_priority l), VInt (nl_cookie l),
       VInt (nl_flags l), VInt (nl_table_id l), VInt (nl_fin_idle_timeout l), VInt (nl_fin_hard_timeout l)] = Inr (learn_wire l)"
    and "unpack_ints learn_fmt (learn_wire l @ rest) 0 = Inr [nl_idle_timeout l, nl_hard_timeout l, nl_priority l, nl_cookie l,
       nl_flags l, nl_table_id l, nl_fin_idle_timeout l, nl_fin_hard_timeout l]"
    and "length (learn_wire l) = 22"
  using assms by (simp_all add: nx_fields_ok_def in_range_def learn_fmt_def learn_wire_def msg_pack_into_end unpack_ints_def
      unpack_from_def ints_of_def)

lemma nx_serialize_data:
  assumes "nx_fields_ok a"
  shows "nx_serialize a buf offset = nx_put (nx_subtype a) (nx_data a) buf offset"
proof (cases a)
  case (RegMove src_field dst_field n_bits src_ofs dst_ofs)
  with assms have t: "table_name src_field" "table_name dst_field" by (simp_all add: nx_fields_ok_def)
  let ?d = "be_bytes 2 n_bits @ be_bytes 2 src_ofs @ be_bytes 2 dst_ofs"
  from t(1) obtain n where n: "oxm_from_user_header src_field = Inr n"
    "\<And>buf. oxm_serialize_header n buf (length buf) = Inr (buf @ name_header src_field, length (name_header src_field))"
    by (rule name_roundtrip) blast
  from t(2) obtain n' where n': "oxm_from_user_header dst_field = Inr n'"
    "\<And>buf. oxm_serialize_header n' buf (length buf) = Inr (buf @ name_header dst_field, length (name_header dst_field))"
    by (rule name_roundtrip) blast
  have p: "msg_pack_into [fH, fH, fH] [] 0 [VInt n_bits, VInt src_ofs, VInt dst_ofs] = Inr ?d"
    using assms by (simp add: RegMove nx_fields_ok_def in_range_def msg_pack_into_end)
  show ?thesis
    by (simp add: RegMove nx_serialize_def NXActionRegMove_serialize_def p n(1) n'(1) n(2) [of ?d]
        n'(2) [of "be_bytes 2 n_bits @ be_bytes 2 src_ofs @ be_bytes 2 dst_ofs @ name_header src_field"] nx_subtype_def nx_data_def del: length_append)
next
  case (Learn l)
  have "rmap NXFlowSpec_serialize (nl_specs l) = Inr (map spec_wire (nl_specs l))"
    using assms spec_roundtrip(1) by (intro rmap_Inr) (simp add: Learn nx_fields_ok_def)
  then show ?thesis using assms learn_wire_roundtrip(1) [of l]
    by (simp add: Learn nx_serialize_def NXActionLearn_serialize_def nx_subtype_def nx_data_def)
qed

lemma nx_serialize_wire:
  assumes "nx_ok a"
  shows "nx_serialize a buf (length buf) = Inr (buf @ nx_wire a, length (nx_wire a))"
proof -
  have up: "round_up (10 + length (nx_data a)) 8 = 10 + length (nx_data a)"
    using assms by (auto simp: nx_ok_def round_up_def elim!: dvdE simp flip: dvd_eq_mod_eq_0)
  have ok: "nx_fields_ok a" using assms by (simp add: nx_ok_def)
  have "in_range 2 (nx_subtype a)" by (simp add: nx_subtype_def in_range_def NXAST_REG_MOVE_def NXAST_LEARN_def split: nx_action.split)
  moreover have "length (nx_data a) \<le> 245" using assms by (simp add: nx_ok_def)
  ultimately show ?thesis using up
    by (simp add: nx_serialize_data [OF ok] nx_put_def NXAction_serialize_def OFPActionExperimenter_serialize_def Let_def
        OFP_ACTION_EXPERIMENTER_HEADER_SIZE_def OFP_ACTION_EXPERIMENTER_HEADER_PACK_STR_def msg_pack_into_end in_range_def
        nx_wire_def OFPAT_EXPERIMENTER_def NX_EXPERIMENTER_ID_def)
qed

text \<open>The data is read back, also with padding after it.\<close>

lemma nx_parse_wire:
  assumes "nx_fields_ok a"
  shows "NXAction_parse (be_bytes 2 (nx_subtype a) @ nx_data a @ replicate (2 * k) 0) = Inr a"
proof (cases a)
  case (RegMove src_field dst_field n_bits src_ofs dst_ofs)
  with assms have t: "table_name src_field" "table_name dst_field" by (simp_all add: nx_fields_ok_def)
  let ?s = "name_header src_field" and ?d = "name_header dst_field" and ?z = "replicate (2 * k) (0 :: 8 word)"
  from t(1) obtain n where n: "oxm_to_user_header n = Inr src_field"
    "\<And>pre rest. oxm_parse_header (pre @ ?s @ rest) (length pre) = Inr (n, int (length ?s))"
    by (rule name_roundtrip) blast
  from t(2) obtain n' where n': "oxm_to_user_header n' = Inr dst_field"
    "\<And>pre rest. oxm_parse_header (pre @ ?d @ rest) (length pre) = Inr (n', int (length ?d))"
    by (rule name_roundtrip) blast
  have "unpack3 [fH, fH, fH] (be_bytes 2 n_bits @ be_bytes 2 src_ofs @ be_bytes 2 dst_ofs @ ?s @ ?d @ ?z) 0 = Inr (n_bits, src_ofs, dst_ofs)"
    using assms by (simp add: RegMove nx_fields_ok_def in_range_def unpack3_def unpack_from_def)
  moreover have "unpack1 [fH] (be_bytes 2 NXAST_REG_MOVE @ nx_data a @ ?z) 0 = Inr NXAST_REG_MOVE"
    using unpack1_at [of "[]" 0 NXAST_REG_MOVE 2] by (simp add: NXAST_REG_MOVE_def)
  ultimately show ?thesis using n'(1) n(1) n(2) [of "[]" "?d @ ?z"] n'(2) [of "[]" ?z]
    by (simp add: RegMove NXAction_parse_def nx_subtype_def nx_data_def NXActionRegMove_parse_def)
next
  case (Learn l)
  let ?w = "concat (map spec_wire (nl_specs l)) @ replicate (2 * k) 0"
  have "unpack1 [fH] (be_bytes 2 NXAST_LEARN @ nx_data a @ replicate (2 * k) 0) 0 = Inr NXAST_LEARN"
    using unpack1_at [of "[]" 0 NXAST_LEARN 2] by (simp add: NXAST_LEARN_def)
  moreover have "learn_specs ?w = Inr (nl_specs l)"
    using assms by (intro learn_specs_wire) (simp add: Learn nx_fields_ok_def)
  moreover note learn_wire_roundtrip(2) [of l ?w] learn_wire_roundtrip(3) [of l]
  ultimately show ?thesis using assms
    by (simp add: Learn NXAction_parse_def nx_subtype_def nx_data_def NXActionLearn_parse_def NXAST_LEARN_def NXAST_REG_MOVE_def
        learn_fmt_def)
qed

lemma nx_put_gap: "nx_put subtype data buf (length buf + g) = nx_put subtype data (buf @ replicate g 0) (length buf + g)"
  by (simp add: nx_put_def NXAction_serialize_def OFPActionExperimenter_serialize_def msg_pack_into_gap msg_pack_into_end)

lemma nx_serialize_gap: "nx_serialize a buf (length buf + g) = nx_serialize a (buf @ replicate g 0) (length buf + g)"
  by (simp add: nx_serialize_def NXActionRegMove_serialize_def NXActionLearn_serialize_def nx_put_gap split: nx_action.split)

text \<open>An action without a class is not read, whatever it is.\<close>

lemma nx_unknown:
  "in_range 2 subtype \<Longrightarrow> subtype \<noteq> NXAST_REG_MOVE \<Longrightarrow> subtype \<noteq> NXAST_LEARN \<Longrightarrow>
     NXAction_parse (be_bytes 2 subtype @ rest) = Inl AttributeErr"
  using unpack1_at [of "[]" 0 subtype 2 rest] by (simp add: NXAction_parse_def in_range_def)

section \<open>The actions are read back\<close>

text \<open>Moving bits between fields and learning a flow: the bytes are those of an action of the experimenter Nicira, and
  their data is read as the action that was written, also with padding after it.\<close>

theorem nicira_roundtrip:
  assumes "nx_ok a"
  shows "\<exists>w. nx_serialize a buf (length buf) = Inr (buf @ w, length w) \<and> length w mod 8 = 0
    \<and> unpack3 OFP_ACTION_EXPERIMENTER_HEADER_PACK_STR w 0 = Inr (OFPAT_EXPERIMENTER, int (length w), NX_EXPERIMENTER_ID)
    \<and> (\<forall>k. NXAction_parse (drop OFP_ACTION_EXPERIMENTER_HEADER_SIZE w @ replicate (2 * k) 0) = Inr a)"
proof (intro exI conjI allI)
  have ok: "nx_fields_ok a" "length (nx_data a) \<le> 245" "(10 + length (nx_data a)) mod 8 = 0" using assms by (simp_all add: nx_ok_def)
  show "nx_serialize a buf (length buf) = Inr (buf @ nx_wire a, length (nx_wire a))" by (rule nx_serialize_wire [OF assms])
  show "length (nx_wire a) mod 8 = 0" using ok(3) by simp
  show "unpack3 OFP_ACTION_EXPERIMENTER_HEADER_PACK_STR (nx_wire a) 0 = Inr (OFPAT_EXPERIMENTER, int (length (nx_wire a)), NX_EXPERIMENTER_ID)"
    using ok(2) by (simp add: OFP_ACTION_EXPERIMENTER_HEADER_PACK_STR_def nx_wire_def unpack3_def unpack_from_def
        OFPAT_EXPERIMENTER_def NX_EXPERIMENTER_ID_def)
  show "NXAction_parse (drop OFP_ACTION_EXPERIMENTER_HEADER_SIZE (nx_wire a) @ replicate (2 * k) 0) = Inr a" for k
    using nx_parse_wire [OF ok(1), of k] by (simp add: OFP_ACTION_EXPERIMENTER_HEADER_SIZE_def nx_wire_def)
qed

text \<open>A switch that learns where a host is: four specifications of 14 bytes fill the action.\<close>

definition demo_learn :: nx_action where
  "demo_learn = Learn \<lparr>nl_idle_timeout = 0, nl_hard_timeout = 60, nl_priority = 100, nl_cookie = 7, nl_flags = 0, nl_table_id = 1,
     nl_fin_idle_timeout = 0, nl_fin_hard_timeout = 0,
     nl_specs = [FlowSpecMatch (SrcField ''vlan_vid'' 0) ''vlan_vid'' 0 12, FlowSpecMatch (SrcField ''eth_src'' 0) ''eth_dst'' 0 48,
       FlowSpecLoad (SrcField ''in_port'' 0) ''in_phy_port'' 0 32, FlowSpecMatch (SrcField ''eth_type'' 0) ''eth_type'' 0 16]\<rparr>"

lemma demo_names: "basic_name ''vlan_vid''" "basic_name ''eth_src''" "basic_name ''eth_dst''" "basic_name ''in_port''"
  "basic_name ''in_phy_port''" "basic_name ''eth_type''"
  by code_simp+

lemma demo_learn_ok: "nx_ok demo_learn"
proof -
  have "length (nx_data demo_learn) = 78" by code_simp
  moreover have "nx_fields_ok demo_learn"
    using demo_names by (simp add: nx_fields_ok_def demo_learn_def in_range_def spec_ok_def spec_bits_def spec_src_def)
  ultimately show ?thesis by (simp add: nx_ok_def)
qed

theorem nicira_roundtrip_demo:
  "\<exists>w. nx_serialize demo_learn [] (length ([] :: bytes)) = Inr ([] @ w, length w) \<and> length w mod 8 = 0
    \<and> unpack3 OFP_ACTION_EXPERIMENTER_HEADER_PACK_STR w 0 = Inr (OFPAT_EXPERIMENTER, int (length w), NX_EXPERIMENTER_ID)
    \<and> (\<forall>k. NXAction_parse (drop OFP_ACTION_EXPERIMENTER_HEADER_SIZE w @ replicate (2 * k) 0) = Inr demo_learn)"
  by (rule nicira_roundtrip [OF demo_learn_ok])

text \<open>An action that learns with one specification counts 48 bytes and writes 46.\<close>

lemma short_learn:
  "\<exists>w. nx_serialize (Learn \<lparr>nl_idle_timeout = 0, nl_hard_timeout = 0, nl_priority = 0, nl_cookie = 0, nl_flags = 0, nl_table_id = 0,
       nl_fin_idle_timeout = 0, nl_fin_hard_timeout = 0, nl_specs = [FlowSpecMatch (SrcField ''eth_src'' 0) ''eth_dst'' 0 48]\<rparr>) [] 0 =
     Inr (w, 48) \<and> length w = 46"
proof -
  let ?a = "Learn \<lparr>nl_idle_timeout = 0, nl_hard_timeout = 0, nl_priority = 0, nl_cookie = 0, nl_flags = 0, nl_table_id = 0,
       nl_fin_idle_timeout = 0, nl_fin_hard_timeout = 0, nl_specs = [FlowSpecMatch (SrcField ''eth_src'' 0) ''eth_dst'' 0 48]\<rparr>"
  have ok: "nx_fields_ok ?a"
    using demo_names by (simp add: nx_fields_ok_def in_range_def spec_ok_def spec_bits_def spec_src_def)
  have "length (nx_data ?a) = 36" by code_simp
  then show ?thesis
    by (simp add: nx_serialize_data [OF ok] nx_put_def NXAction_serialize_def OFPActionExperimenter_serialize_def Let_def
        OFP_ACTION_EXPERIMENTER_HEADER_SIZE_def OFP_ACTION_EXPERIMENTER_HEADER_PACK_STR_def msg_pack_into_end round_up_def
        OFPAT_EXPERIMENTER_def NX_EXPERIMENTER_ID_def nx_subtype_def NXAST_LEARN_def)
qed

text \<open>The comment on the header gives the number of bits eleven bits; the mask keeps ten, so 1024 bits are read as none.\<close>

lemma bits_cut:
  "\<exists>w. NXFlowSpec_serialize (FlowSpecOutput (SrcField ''in_port'' 0) 1024) = Inr w
    \<and> NXFlowSpec_parse w = Inr (Some (FlowSpecOutput (SrcField ''in_port'' 0) 0), [])"
proof -
  have "NXFlowSpec_serialize (FlowSpecOutput (SrcField ''in_port'' 0) 1024) = Inr [20, 0, 128, 0, 0, 4, 0, 0]"
    "NXFlowSpec_parse [20, 0, 128, 0, 0, 4, 0, 0] = Inr (Some (FlowSpecOutput (SrcField ''in_port'' 0) 0), [])"
    by code_simp+
  then show ?thesis by blast
qed

end
