(* ===== verification/OFAction.thy ===== *)
theory OFAction
  imports NXActions OFProto
begin

text \<open>
  Actions and instructions of \<^verbatim>\<open>ofproto_v1_3_parser.py\<close>: every class that has a fixed layout, the set-field action and
  the action of an experimenter, which hands the data of Nicira on to \<^verbatim>\<open>NXActions\<close>.
\<close>

section \<open>Actions\<close>

datatype action = Output int int | Group int | SetQueue int | SetMplsTtl int | DecMplsTtl | SetNwTtl int | DecNwTtl
  | CopyTtlOut | CopyTtlIn | PushVlan int | PushMpls int | PopVlan | PopMpls int | PushPbb int | PopPbb
  | SetField string uval | ActionExperimenter int bytes | ActionNX nx_action

definition OFPAT_OUTPUT :: int where "OFPAT_OUTPUT = 0"
definition OFPAT_COPY_TTL_OUT :: int where "OFPAT_COPY_TTL_OUT = 11"
definition OFPAT_COPY_TTL_IN :: int where "OFPAT_COPY_TTL_IN = 12"
definition OFPAT_SET_MPLS_TTL :: int where "OFPAT_SET_MPLS_TTL = 15"
definition OFPAT_DEC_MPLS_TTL :: int where "OFPAT_DEC_MPLS_TTL = 16"
definition OFPAT_PUSH_VLAN :: int where "OFPAT_PUSH_VLAN = 17"
definition OFPAT_POP_VLAN :: int where "OFPAT_POP_VLAN = 18"
definition OFPAT_PUSH_MPLS :: int where "OFPAT_PUSH_MPLS = 19"
definition OFPAT_POP_MPLS :: int where "OFPAT_POP_MPLS = 20"
definition OFPAT_SET_QUEUE :: int where "OFPAT_SET_QUEUE = 21"
definition OFPAT_GROUP :: int where "OFPAT_GROUP = 22"
definition OFPAT_SET_NW_TTL :: int where "OFPAT_SET_NW_TTL = 23"
definition OFPAT_DEC_NW_TTL :: int where "OFPAT_DEC_NW_TTL = 24"
definition OFPAT_SET_FIELD :: int where "OFPAT_SET_FIELD = 25"
definition OFPAT_PUSH_PBB :: int where "OFPAT_PUSH_PBB = 26"
definition OFPAT_POP_PBB :: int where "OFPAT_POP_PBB = 27"

definition OFP_ACTION_HEADER_PACK_STR :: format where "OFP_ACTION_HEADER_PACK_STR = [fH, fH, FX 4]"
definition OFP_ACTION_OUTPUT_PACK_STR :: format where "OFP_ACTION_OUTPUT_PACK_STR = [fH, fH, fI, fH, FX 6]"
definition OFP_ACTION_GROUP_PACK_STR :: format where "OFP_ACTION_GROUP_PACK_STR = [fH, fH, fI]"
definition OFP_ACTION_SET_QUEUE_PACK_STR :: format where "OFP_ACTION_SET_QUEUE_PACK_STR = [fH, fH, fI]"
definition OFP_ACTION_MPLS_TTL_PACK_STR :: format where "OFP_ACTION_MPLS_TTL_PACK_STR = [fH, fH, fB, FX 3]"
definition OFP_ACTION_NW_TTL_PACK_STR :: format where "OFP_ACTION_NW_TTL_PACK_STR = [fH, fH, fB, FX 3]"
definition OFP_ACTION_PUSH_PACK_STR :: format where "OFP_ACTION_PUSH_PACK_STR = [fH, fH, fH, FX 2]"
definition OFP_ACTION_POP_MPLS_PACK_STR :: format where "OFP_ACTION_POP_MPLS_PACK_STR = [fH, fH, fH, FX 2]"
definition OFP_ACTION_SET_FIELD_PACK_STR :: format where "OFP_ACTION_SET_FIELD_PACK_STR = [fH, fH, FX 4]"

lemmas action_consts = OFPAT_OUTPUT_def OFPAT_COPY_TTL_OUT_def OFPAT_COPY_TTL_IN_def OFPAT_SET_MPLS_TTL_def
  OFPAT_DEC_MPLS_TTL_def OFPAT_PUSH_VLAN_def OFPAT_POP_VLAN_def OFPAT_PUSH_MPLS_def OFPAT_POP_MPLS_def
  OFPAT_SET_QUEUE_def OFPAT_GROUP_def OFPAT_SET_NW_TTL_def OFPAT_DEC_NW_TTL_def OFPAT_SET_FIELD_def
  OFPAT_PUSH_PBB_def OFPAT_POP_PBB_def OFPAT_EXPERIMENTER_def OFP_ACTION_HEADER_PACK_STR_def
  OFP_ACTION_OUTPUT_PACK_STR_def OFP_ACTION_GROUP_PACK_STR_def OFP_ACTION_SET_QUEUE_PACK_STR_def
  OFP_ACTION_MPLS_TTL_PACK_STR_def OFP_ACTION_NW_TTL_PACK_STR_def OFP_ACTION_PUSH_PACK_STR_def
  OFP_ACTION_POP_MPLS_PACK_STR_def OFP_ACTION_SET_FIELD_PACK_STR_def OFP_ACTION_EXPERIMENTER_HEADER_PACK_STR_def
  OFP_ACTION_EXPERIMENTER_HEADER_SIZE_def

definition OFPActionHeader_serialize :: "int \<Rightarrow> int \<Rightarrow> bytes \<Rightarrow> nat \<Rightarrow> bytes res" where
  "OFPActionHeader_serialize ty len buf offset = msg_pack_into OFP_ACTION_HEADER_PACK_STR buf offset [VInt ty, VInt len]"

definition OFPActionOutput_parser :: "bytes \<Rightarrow> nat \<Rightarrow> action res" where
  "OFPActionOutput_parser buf offset =
     rbind (unpack_from OFP_ACTION_OUTPUT_PACK_STR buf offset) (\<lambda>vs. case vs of
       [VInt ty, VInt len, VInt port, VInt max_len] \<Rightarrow> Inr (Output port max_len) | _ \<Rightarrow> Inl ValueErr)"

definition OFPActionOutput_serialize :: "int \<Rightarrow> int \<Rightarrow> bytes \<Rightarrow> nat \<Rightarrow> bytes res" where
  "OFPActionOutput_serialize port max_len buf offset =
     msg_pack_into OFP_ACTION_OUTPUT_PACK_STR buf offset [VInt OFPAT_OUTPUT, VInt 16, VInt port, VInt max_len]"

definition OFPActionGroup_parser :: "bytes \<Rightarrow> nat \<Rightarrow> action res" where
  "OFPActionGroup_parser buf offset =
     rbind (unpack3 OFP_ACTION_GROUP_PACK_STR buf offset) (\<lambda>(ty, len, group_id). Inr (Group group_id))"

definition OFPActionGroup_serialize :: "int \<Rightarrow> bytes \<Rightarrow> nat \<Rightarrow> bytes res" where
  "OFPActionGroup_serialize group_id buf offset =
     msg_pack_into OFP_ACTION_GROUP_PACK_STR buf offset [VInt OFPAT_GROUP, VInt 8, VInt group_id]"

definition OFPActionSetQueue_parser :: "bytes \<Rightarrow> nat \<Rightarrow> action res" where
  "OFPActionSetQueue_parser buf offset =
     rbind (unpack3 OFP_ACTION_SET_QUEUE_PACK_STR buf offset) (\<lambda>(ty, len, queue_id). Inr (SetQueue queue_id))"

definition OFPActionSetQueue_serialize :: "int \<Rightarrow> bytes \<Rightarrow> nat \<Rightarrow> bytes res" where
  "OFPActionSetQueue_serialize queue_id buf offset =
     msg_pack_into OFP_ACTION_SET_QUEUE_PACK_STR buf offset [VInt OFPAT_SET_QUEUE, VInt 8, VInt queue_id]"

definition OFPActionSetMplsTtl_parser :: "bytes \<Rightarrow> nat \<Rightarrow> action res" where
  "OFPActionSetMplsTtl_parser buf offset =
     rbind (unpack3 OFP_ACTION_MPLS_TTL_PACK_STR buf offset) (\<lambda>(ty, len, mpls_ttl). Inr (SetMplsTtl mpls_ttl))"

definition OFPActionSetMplsTtl_serialize :: "int \<Rightarrow> bytes \<Rightarrow> nat \<Rightarrow> bytes res" where
  "OFPActionSetMplsTtl_serialize mpls_ttl buf offset =
     msg_pack_into OFP_ACTION_MPLS_TTL_PACK_STR buf offset [VInt OFPAT_SET_MPLS_TTL, VInt 8, VInt mpls_ttl]"

definition OFPActionSetNwTtl_parser :: "bytes \<Rightarrow> nat \<Rightarrow> action res" where
  "OFPActionSetNwTtl_parser buf offset =
     rbind (unpack3 OFP_ACTION_NW_TTL_PACK_STR buf offset) (\<lambda>(ty, len, nw_ttl). Inr (SetNwTtl nw_ttl))"

definition OFPActionSetNwTtl_serialize :: "int \<Rightarrow> bytes \<Rightarrow> nat \<Rightarrow> bytes res" where
  "OFPActionSetNwTtl_serialize nw_ttl buf offset =
     msg_pack_into OFP_ACTION_NW_TTL_PACK_STR buf offset [VInt OFPAT_SET_NW_TTL, VInt 8, VInt nw_ttl]"

definition OFPActionPushVlan_parser :: "bytes \<Rightarrow> nat \<Rightarrow> action res" where
  "OFPActionPushVlan_parser buf offset =
     rbind (unpack3 OFP_ACTION_PUSH_PACK_STR buf offset) (\<lambda>(ty, len, ethertype). Inr (PushVlan ethertype))"

definition OFPActionPushVlan_serialize :: "int \<Rightarrow> bytes \<Rightarrow> nat \<Rightarrow> bytes res" where
  "OFPActionPushVlan_serialize ethertype buf offset =
     msg_pack_into OFP_ACTION_PUSH_PACK_STR buf offset [VInt OFPAT_PUSH_VLAN, VInt 8, VInt ethertype]"

definition OFPActionPushMpls_parser :: "bytes \<Rightarrow> nat \<Rightarrow> action res" where
  "OFPActionPushMpls_parser buf offset =
     rbind (unpack3 OFP_ACTION_PUSH_PACK_STR buf offset) (\<lambda>(ty, len, ethertype). Inr (PushMpls ethertype))"

definition OFPActionPushMpls_serialize :: "int \<Rightarrow> bytes \<Rightarrow> nat \<Rightarrow> bytes res" where
  "OFPActionPushMpls_serialize ethertype buf offset =
     msg_pack_into OFP_ACTION_PUSH_PACK_STR buf offset [VInt OFPAT_PUSH_MPLS, VInt 8, VInt ethertype]"

definition OFPActionPopMpls_parser :: "bytes \<Rightarrow> nat \<Rightarrow> action res" where
  "OFPActionPopMpls_parser buf offset =
     rbind (unpack3 OFP_ACTION_POP_MPLS_PACK_STR buf offset) (\<lambda>(ty, len, ethertype). Inr (PopMpls ethertype))"

definition OFPActionPopMpls_serialize :: "int \<Rightarrow> bytes \<Rightarrow> nat \<Rightarrow> bytes res" where
  "OFPActionPopMpls_serialize ethertype buf offset =
     msg_pack_into OFP_ACTION_POP_MPLS_PACK_STR buf offset [VInt OFPAT_POP_MPLS, VInt 8, VInt ethertype]"

definition OFPActionPushPbb_parser :: "bytes \<Rightarrow> nat \<Rightarrow> action res" where
  "OFPActionPushPbb_parser buf offset =
     rbind (unpack3 OFP_ACTION_PUSH_PACK_STR buf offset) (\<lambda>(ty, len, ethertype). Inr (PushPbb ethertype))"

definition OFPActionPushPbb_serialize :: "int \<Rightarrow> bytes \<Rightarrow> nat \<Rightarrow> bytes res" where
  "OFPActionPushPbb_serialize ethertype buf offset =
     msg_pack_into OFP_ACTION_PUSH_PACK_STR buf offset [VInt OFPAT_PUSH_PBB, VInt 8, VInt ethertype]"

definition OFPActionDecMplsTtl_parser :: "bytes \<Rightarrow> nat \<Rightarrow> action res" where
  "OFPActionDecMplsTtl_parser buf offset = rbind (unpack2 OFP_ACTION_HEADER_PACK_STR buf offset) (\<lambda>(ty, len). Inr DecMplsTtl)"

definition OFPActionDecNwTtl_parser :: "bytes \<Rightarrow> nat \<Rightarrow> action res" where
  "OFPActionDecNwTtl_parser buf offset = rbind (unpack2 OFP_ACTION_HEADER_PACK_STR buf offset) (\<lambda>(ty, len). Inr DecNwTtl)"

definition OFPActionCopyTtlOut_parser :: "bytes \<Rightarrow> nat \<Rightarrow> action res" where
  "OFPActionCopyTtlOut_parser buf offset = rbind (unpack2 OFP_ACTION_HEADER_PACK_STR buf offset) (\<lambda>(ty, len). Inr CopyTtlOut)"

definition OFPActionCopyTtlIn_parser :: "bytes \<Rightarrow> nat \<Rightarrow> action res" where
  "OFPActionCopyTtlIn_parser buf offset = rbind (unpack2 OFP_ACTION_HEADER_PACK_STR buf offset) (\<lambda>(ty, len). Inr CopyTtlIn)"

definition OFPActionPopVlan_parser :: "bytes \<Rightarrow> nat \<Rightarrow> action res" where
  "OFPActionPopVlan_parser buf offset = rbind (unpack2 OFP_ACTION_HEADER_PACK_STR buf offset) (\<lambda>(ty, len). Inr PopVlan)"

definition OFPActionPopPbb_parser :: "bytes \<Rightarrow> nat \<Rightarrow> action res" where
  "OFPActionPopPbb_parser buf offset = rbind (unpack2 OFP_ACTION_HEADER_PACK_STR buf offset) (\<lambda>(ty, len). Inr PopPbb)"

text \<open>The set-field action: its length is the length of its field, rounded up; a field with a mask is refused.\<close>

definition OFPActionSetField_parser :: "addrconv \<Rightarrow> bytes \<Rightarrow> nat \<Rightarrow> (action \<times> int) res" where
  "OFPActionSetField_parser conv buf offset =
     rbind (unpack2 OFP_ACTION_SET_FIELD_PACK_STR buf offset) (\<lambda>(ty, len).
     rbind (oxm_parse buf (offset + 4)) (\<lambda>(n, value, msk, k).
     rbind (oxm_to_user conv n value msk) (\<lambda>(key, (u, m)).
     if m \<noteq> None then Inl AssertErr else Inr (SetField key u, len))))"

definition OFPActionSetField_serialize :: "addrconv \<Rightarrow> string \<Rightarrow> uval \<Rightarrow> bytes \<Rightarrow> nat \<Rightarrow> (bytes \<times> nat) res" where
  "OFPActionSetField_serialize conv key value buf offset =
     rbind (oxm_from_user conv key (value, None)) (\<lambda>(n, v, msk).
     rbind (oxm_serialize n v msk buf (offset + 4)) (\<lambda>(buf1, k).
     let len = round_up (4 + k) 8 in
     rbind (msg_pack_into [fH, fH] buf1 offset [VInt OFPAT_SET_FIELD, VInt (int len)]) (\<lambda>buf2.
     let pad_len = len - (4 + k) in
     rbind (msg_pack_into [FX pad_len] buf2 (offset + 4 + k) []) (\<lambda>buf3. Inr (buf3, len)))))"

text \<open>The action of an experimenter: its data fills it to the declared length; it is written without padding.\<close>

definition OFPActionExperimenter_parser :: "bytes \<Rightarrow> nat \<Rightarrow> (action \<times> int) res" where
  "OFPActionExperimenter_parser buf offset =
     rbind (unpack3 OFP_ACTION_EXPERIMENTER_HEADER_PACK_STR buf offset) (\<lambda>(ty, len, experimenter).
     let data = drop (offset + OFP_ACTION_EXPERIMENTER_HEADER_SIZE) (take (nat (int offset + len)) buf) in
     if experimenter = NX_EXPERIMENTER_ID then rbind (NXAction_parse data) (\<lambda>a. Inr (ActionNX a, len))
     else Inr (ActionExperimenter experimenter data, len))"

definition OFPActionExperimenterUnknown_serialize :: "int \<Rightarrow> bytes \<Rightarrow> bytes \<Rightarrow> nat \<Rightarrow> (bytes \<times> nat) res" where
  "OFPActionExperimenterUnknown_serialize experimenter data buf offset =
     (let len = round_up (length data) 8 + OFP_ACTION_EXPERIMENTER_HEADER_SIZE in
      rbind (OFPActionExperimenter_serialize (int len) experimenter buf offset) (\<lambda>buf1.
      rbind (msg_pack_into [FS (length data)] buf1 (offset + OFP_ACTION_EXPERIMENTER_HEADER_SIZE) [VStr data]) (\<lambda>buf2.
      Inr (buf2, len))))"

text \<open>The length of the classes with a fixed layout, and the two dispatchers. The result of a parser is the action and its
  attribute \<^verbatim>\<open>len\<close>.\<close>

definition fixed_len :: "action \<Rightarrow> nat" where
  "fixed_len a = (case a of Output _ _ \<Rightarrow> 16 | _ \<Rightarrow> 8)"

definition with_len :: "action res \<Rightarrow> (action \<times> int) res" where
  "with_len r = rbind r (\<lambda>a. Inr (a, int (fixed_len a)))"

definition OFPAction_parser :: "addrconv \<Rightarrow> bytes \<Rightarrow> nat \<Rightarrow> (action \<times> int) res" where
  "OFPAction_parser conv buf offset =
     rbind (unpack2 OFP_ACTION_HEADER_PACK_STR buf offset) (\<lambda>(ty, len).
     if ty = OFPAT_OUTPUT then with_len (OFPActionOutput_parser buf offset)
     else if ty = OFPAT_GROUP then with_len (OFPActionGroup_parser buf offset)
     else if ty = OFPAT_SET_QUEUE then with_len (OFPActionSetQueue_parser buf offset)
     else if ty = OFPAT_SET_MPLS_TTL then with_len (OFPActionSetMplsTtl_parser buf offset)
     else if ty = OFPAT_DEC_MPLS_TTL then with_len (OFPActionDecMplsTtl_parser buf offset)
     else if ty = OFPAT_SET_NW_TTL then with_len (OFPActionSetNwTtl_parser buf offset)
     else if ty = OFPAT_DEC_NW_TTL then with_len (OFPActionDecNwTtl_parser buf offset)
     else if ty = OFPAT_COPY_TTL_OUT then with_len (OFPActionCopyTtlOut_parser buf offset)
     else if ty = OFPAT_COPY_TTL_IN then with_len (OFPActionCopyTtlIn_parser buf offset)
     else if ty = OFPAT_PUSH_VLAN then with_len (OFPActionPushVlan_parser buf offset)
     else if ty = OFPAT_PUSH_MPLS then with_len (OFPActionPushMpls_parser buf offset)
     else if ty = OFPAT_POP_VLAN then with_len (OFPActionPopVlan_parser buf offset)
     else if ty = OFPAT_POP_MPLS then with_len (OFPActionPopMpls_parser buf offset)
     else if ty = OFPAT_PUSH_PBB then with_len (OFPActionPushPbb_parser buf offset)
     else if ty = OFPAT_POP_PBB then with_len (OFPActionPopPbb_parser buf offset)
     else if ty = OFPAT_SET_FIELD then OFPActionSetField_parser conv buf offset
     else if ty = OFPAT_EXPERIMENTER then OFPActionExperimenter_parser buf offset
     else Inl AssertErr)"

definition action_serialize :: "addrconv \<Rightarrow> action \<Rightarrow> bytes \<Rightarrow> nat \<Rightarrow> (bytes \<times> nat) res" where
  "action_serialize conv a buf offset =
     (let fixed = (\<lambda>r. rbind r (\<lambda>b. Inr (b, fixed_len a))) in
      case a of
        Output port max_len \<Rightarrow> fixed (OFPActionOutput_serialize port max_len buf offset)
      | Group x \<Rightarrow> fixed (OFPActionGroup_serialize x buf offset)
      | SetQueue x \<Rightarrow> fixed (OFPActionSetQueue_serialize x buf offset)
      | SetMplsTtl x \<Rightarrow> fixed (OFPActionSetMplsTtl_serialize x buf offset)
      | SetNwTtl x \<Rightarrow> fixed (OFPActionSetNwTtl_serialize x buf offset)
      | PushVlan x \<Rightarrow> fixed (OFPActionPushVlan_serialize x buf offset)
      | PushMpls x \<Rightarrow> fixed (OFPActionPushMpls_serialize x buf offset)
      | PopMpls x \<Rightarrow> fixed (OFPActionPopMpls_serialize x buf offset)
      | PushPbb x \<Rightarrow> fixed (OFPActionPushPbb_serialize x buf offset)
      | DecMplsTtl \<Rightarrow> fixed (OFPActionHeader_serialize OFPAT_DEC_MPLS_TTL 8 buf offset)
      | DecNwTtl \<Rightarrow> fixed (OFPActionHeader_serialize OFPAT_DEC_NW_TTL 8 buf offset)
      | CopyTtlOut \<Rightarrow> fixed (OFPActionHeader_serialize OFPAT_COPY_TTL_OUT 8 buf offset)
      | CopyTtlIn \<Rightarrow> fixed (OFPActionHeader_serialize OFPAT_COPY_TTL_IN 8 buf offset)
      | PopVlan \<Rightarrow> fixed (OFPActionHeader_serialize OFPAT_POP_VLAN 8 buf offset)
      | PopPbb \<Rightarrow> fixed (OFPActionHeader_serialize OFPAT_POP_PBB 8 buf offset)
      | SetField key value \<Rightarrow> OFPActionSetField_serialize conv key value buf offset
      | ActionExperimenter experimenter data \<Rightarrow> OFPActionExperimenterUnknown_serialize experimenter data buf offset
      | ActionNX a \<Rightarrow> nx_serialize a buf offset)"

lemmas action_defs = OFPAction_parser_def action_serialize_def with_len_def fixed_len_def OFPActionHeader_serialize_def
  OFPActionOutput_parser_def OFPActionOutput_serialize_def OFPActionGroup_parser_def OFPActionGroup_serialize_def
  OFPActionSetQueue_parser_def OFPActionSetQueue_serialize_def OFPActionSetMplsTtl_parser_def
  OFPActionSetMplsTtl_serialize_def OFPActionSetNwTtl_parser_def OFPActionSetNwTtl_serialize_def
  OFPActionPushVlan_parser_def OFPActionPushVlan_serialize_def OFPActionPushMpls_parser_def
  OFPActionPushMpls_serialize_def OFPActionPopMpls_parser_def OFPActionPopMpls_serialize_def
  OFPActionPushPbb_parser_def OFPActionPushPbb_serialize_def OFPActionDecMplsTtl_parser_def
  OFPActionDecNwTtl_parser_def OFPActionCopyTtlOut_parser_def OFPActionCopyTtlIn_parser_def
  OFPActionPopVlan_parser_def OFPActionPopPbb_parser_def

section \<open>Round trip of an action\<close>

definition action_ok :: "addrconv \<Rightarrow> action \<Rightarrow> bool" where
  "action_ok conv a =
     (case a of
        Output port max_len \<Rightarrow> in_range 4 port \<and> in_range 2 max_len
      | Group x \<Rightarrow> in_range 4 x | SetQueue x \<Rightarrow> in_range 4 x
      | SetMplsTtl x \<Rightarrow> in_range 1 x | SetNwTtl x \<Rightarrow> in_range 1 x
      | PushVlan x \<Rightarrow> in_range 2 x | PushMpls x \<Rightarrow> in_range 2 x | PopMpls x \<Rightarrow> in_range 2 x | PushPbb x \<Rightarrow> in_range 2 x
      | SetField key u \<Rightarrow> field_canon conv (key, (u, None))
      | ActionExperimenter experimenter data \<Rightarrow> in_range 4 experimenter \<and> experimenter \<noteq> NX_EXPERIMENTER_ID
          \<and> length data mod 8 = 0 \<and> length data \<le> 240
      | ActionNX a \<Rightarrow> nx_ok a
      | _ \<Rightarrow> True)"

lemma unpack_header_at:
  assumes "in_range 2 i" "in_range 2 j" "4 \<le> length rest"
  shows "unpack2 [fH, fH, FX 4] (buf @ be_bytes 2 i @ be_bytes 2 j @ rest) (length buf) = Inr (i, j)"
  using assms by (simp add: unpack2_def unpack_from_def in_range_def)

lemma unpack_items_at:
  "length w = calcsize fmt \<Longrightarrow> unpack_from fmt (buf @ w @ post) (length buf) = Inr (unpack_items fmt (w @ post))"
  by (simp add: unpack_from_def)

definition action_wire :: "addrconv \<Rightarrow> action \<Rightarrow> bytes" where
  "action_wire conv a = (case action_serialize conv a [] 0 of Inl _ \<Rightarrow> [] | Inr (b, _) \<Rightarrow> b)"

lemma fixed_roundtrip:
  assumes "action_ok conv a" and "\<forall>key u. a \<noteq> SetField key u" and "\<forall>i d. a \<noteq> ActionExperimenter i d" and "\<forall>n. a \<noteq> ActionNX n"
  defines "w \<equiv> action_wire conv a"
  shows "action_serialize conv a buf (length buf) = Inr (buf @ w, length w) \<and> length w = fixed_len a
    \<and> (\<forall>post. OFPAction_parser conv (buf @ w @ post) (length buf) = Inr (a, int (length w)))"
  using assms(1-4) unfolding w_def
  by (cases a)
     (simp_all add: action_wire_def action_defs action_consts action_ok_def in_range_def msg_pack_into_end unpack2_def unpack3_def unpack_from_def)

lemma set_field_roundtrip:
  assumes "field_canon conv (key, (u, None))"
  defines "w \<equiv> action_wire conv (SetField key u)"
  shows "action_serialize conv (SetField key u) buf (length buf) = Inr (buf @ w, length w) \<and> 8 \<le> length w
    \<and> length w mod 8 = 0 \<and> length w < 256
    \<and> (\<forall>post. OFPAction_parser conv (buf @ w @ post) (length buf) = Inr (SetField key u, int (length w)))"
proof -
  from assms(1) obtain f v m where f: "oxm_from_user conv key (u, None) = Inr (of_num f, v, m)" "field_ok f" "value_ok f v m"
    "oxm_to_user conv (of_num f) v m = Inr (key, (u, None))"
    by (rule field_wire) auto
  define k where "k = length (oxm_wire f v m)"
  define len where "len = round_up (4 + k) 8"
  have k: "4 < k" "k < 220"
    using field_size [OF f(2,3)] exp_hdr_length [of f] f(3)
    by (auto simp: k_def oxm_wire_def value_ok_def split: option.splits)
  have len: "4 + k \<le> len" "len < 4 + k + 8" "len mod 8 = 0"
    using round_up_8 [of "4 + k"] by (simp_all add: len_def)
  define v' where "v' = be_bytes 2 OFPAT_SET_FIELD @ be_bytes 2 (int len) @ oxm_wire f v m @ replicate (len - (4 + k)) 0"
  have lv: "length v' = len" using len k_def by (simp add: v'_def)
  have s: "action_serialize conv (SetField key u) buf (length buf) = Inr (buf @ v', len)" for buf
  proof -
    let ?gap = "buf @ replicate 4 (0 :: 8 word)"
    have ser: "oxm_serialize (of_num f) v m buf (length buf + 4) = Inr (?gap @ oxm_wire f v m, k)"
      using oxm_serialize_end [OF f(2,3), of ?gap] by (simp add: oxm_serialize_gap k_def)
    have over: "msg_pack_into [fH, fH] (buf @ replicate 4 0 @ oxm_wire f v m) (length buf) [VInt OFPAT_SET_FIELD, VInt (int len)] =
        Inr (buf @ (be_bytes 2 OFPAT_SET_FIELD @ be_bytes 2 (int len)) @ oxm_wire f v m)"
      by (subst msg_pack_into_over) (use len k in \<open>simp_all add: OFPAT_SET_FIELD_def\<close>)
    have "msg_pack_into [FX (len - (4 + k))] (buf @ (be_bytes 2 OFPAT_SET_FIELD @ be_bytes 2 (int len)) @ oxm_wire f v m)
        (length buf + 4 + k) [] = Inr (buf @ v')"
      by (subst msg_pack_into_end) (simp_all add: k_def v'_def)
    with ser over show ?thesis
      by (simp add: action_serialize_def OFPActionSetField_serialize_def f(1) Let_def flip: len_def)
  qed
  then have w: "w = v'" using s [of "[]"] by (simp add: w_def action_wire_def)
  have "OFPAction_parser conv (buf @ v' @ post) (length buf) = Inr (SetField key u, int len)" for post
  proof -
    have hd: "unpack2 OFP_ACTION_HEADER_PACK_STR (buf @ v' @ post) (length buf) = Inr (OFPAT_SET_FIELD, int len)"
      unfolding OFP_ACTION_HEADER_PACK_STR_def v'_def append_assoc
      by (rule unpack_header_at) (use len k k_def in \<open>simp_all add: in_range_def OFPAT_SET_FIELD_def\<close>)
    have "oxm_parse (buf @ v' @ post) (length buf + 4) = Inr (of_num f, v, m, k)"
      using oxm_parse_wire [OF f(2,3), of "buf @ be_bytes 2 OFPAT_SET_FIELD @ be_bytes 2 (int len)"
          "replicate (len - (4 + k)) 0 @ post"] by (simp add: v'_def k_def)
    then have "OFPActionSetField_parser conv (buf @ v' @ post) (length buf) = Inr (SetField key u, int len)"
      using hd f(4) by (simp add: OFPActionSetField_parser_def OFP_ACTION_SET_FIELD_PACK_STR_def OFP_ACTION_HEADER_PACK_STR_def)
    then show ?thesis unfolding OFPAction_parser_def hd by (simp add: action_consts)
  qed
  then show ?thesis using s lv len k by (simp add: w)
qed

text \<open>The action of an experimenter is written whole when its data is a multiple of eight bytes.\<close>

lemma experimenter_roundtrip:
  assumes "action_ok conv (ActionExperimenter i data)"
  defines "w \<equiv> action_wire conv (ActionExperimenter i data)"
  shows "action_serialize conv (ActionExperimenter i data) buf (length buf) = Inr (buf @ w, length w) \<and> length w = 8 + length data
    \<and> (\<forall>post. OFPAction_parser conv (buf @ w @ post) (length buf) = Inr (ActionExperimenter i data, int (length w)))"
proof -
  from assms(1) have ok: "in_range 4 i" "i \<noteq> NX_EXPERIMENTER_ID" "length data mod 8 = 0" "length data \<le> 240"
    by (simp_all add: action_ok_def)
  then have up: "round_up (length data) 8 = length data" by (auto simp: round_up_def elim!: dvdE simp flip: dvd_eq_mod_eq_0)
  define v where "v = be_bytes 2 OFPAT_EXPERIMENTER @ be_bytes 2 (int (length data) + 8) @ be_bytes 4 i @ data"
  have s: "action_serialize conv (ActionExperimenter i data) buf (length buf) = Inr (buf @ v, 8 + length data)" for buf
    using ok by (simp add: action_serialize_def OFPActionExperimenterUnknown_serialize_def OFPActionExperimenter_serialize_def
        action_consts up msg_pack_into_end in_range_def v_def)
  then have w: "w = v" using s [of "[]"] by (simp add: w_def action_wire_def)
  have "OFPAction_parser conv (buf @ v @ post) (length buf) = Inr (ActionExperimenter i data, int (8 + length data))" for post
    using ok by (simp add: OFPAction_parser_def OFPActionExperimenter_parser_def action_consts v_def unpack2_def unpack3_def
        unpack_from_def in_range_def nat_add_distrib)
  then show ?thesis using s by (simp add: w v_def)
qed

lemma nx_roundtrip:
  fixes conv :: addrconv
  assumes "nx_ok a"
  defines "w \<equiv> action_wire conv (ActionNX a)"
  shows "action_serialize conv (ActionNX a) buf (length buf) = Inr (buf @ w, length w) \<and> 8 \<le> length w
    \<and> length w mod 8 = 0 \<and> length w < 256
    \<and> (\<forall>post. OFPAction_parser conv (buf @ w @ post) (length buf) = Inr (ActionNX a, int (length w)))"
proof -
  have w: "w = nx_wire a" using nx_serialize_wire [OF assms(1), of "[]"] by (simp add: w_def action_wire_def action_serialize_def)
  have ok: "nx_fields_ok a" "length (nx_data a) \<le> 245" using assms(1) by (simp_all add: nx_ok_def)
  have "OFPAction_parser conv (buf @ nx_wire a @ post) (length buf) = Inr (ActionNX a, int (length (nx_wire a)))" for post
    using nx_parse_wire [OF ok(1), of 0] ok(2)
    by (simp add: OFPAction_parser_def OFPActionExperimenter_parser_def action_consts nx_wire_def unpack2_def unpack3_def
        unpack_from_def NX_EXPERIMENTER_ID_def nat_add_distrib)
  then show ?thesis using nx_serialize_wire [OF assms(1), of buf] assms(1)
    by (simp add: w action_serialize_def nx_ok_def)
qed

lemma action_roundtrip:
  assumes "action_ok conv a"
  defines "w \<equiv> action_wire conv a"
  shows "action_serialize conv a buf (length buf) = Inr (buf @ w, length w) \<and> 8 \<le> length w
    \<and> length w mod 8 = 0 \<and> length w < 256
    \<and> (\<forall>post. OFPAction_parser conv (buf @ w @ post) (length buf) = Inr (a, int (length w)))"
proof -
  consider (field) key u where "a = SetField key u" | (exp) i d where "a = ActionExperimenter i d"
    | (nx) n where "a = ActionNX n"
    | (fixed) "\<forall>key u. a \<noteq> SetField key u" "\<forall>i d. a \<noteq> ActionExperimenter i d" "\<forall>n. a \<noteq> ActionNX n" by blast
  then show ?thesis
  proof cases
    case field
    with assms(1) set_field_roundtrip [of conv key u buf] show ?thesis by (simp add: w_def action_ok_def)
  next
    case exp
    with assms(1) experimenter_roundtrip [of conv i d buf] show ?thesis by (simp add: w_def action_ok_def)
  next
    case nx
    with assms(1) nx_roundtrip [of _ conv buf] show ?thesis by (simp add: w_def action_ok_def)
  next
    case fixed
    have "fixed_len a = 8 \<or> fixed_len a = 16" by (simp add: fixed_len_def split: action.split)
    with fixed_roundtrip [OF assms(1) fixed, of buf] show ?thesis by (auto simp: w_def)
  qed
qed

section \<open>Instructions\<close>

datatype instruction = GotoTable int | WriteMetadata int int | InstrActions int "action list" | Meter int

definition OFPIT_GOTO_TABLE :: int where "OFPIT_GOTO_TABLE = 1"
definition OFPIT_WRITE_METADATA :: int where "OFPIT_WRITE_METADATA = 2"
definition OFPIT_WRITE_ACTIONS :: int where "OFPIT_WRITE_ACTIONS = 3"
definition OFPIT_CLEAR_ACTIONS :: int where "OFPIT_CLEAR_ACTIONS = 5"
definition OFPIT_METER :: int where "OFPIT_METER = 6"

definition OFP_INSTRUCTION_GOTO_TABLE_PACK_STR :: format where "OFP_INSTRUCTION_GOTO_TABLE_PACK_STR = [fH, fH, fB, FX 3]"
definition OFP_INSTRUCTION_WRITE_METADATA_PACK_STR :: format where
  "OFP_INSTRUCTION_WRITE_METADATA_PACK_STR = [fH, fH, FX 4, fQ, fQ]"
definition OFP_INSTRUCTION_ACTIONS_PACK_STR :: format where "OFP_INSTRUCTION_ACTIONS_PACK_STR = [fH, fH, FX 4]"
definition OFP_INSTRUCTION_METER_PACK_STR :: format where "OFP_INSTRUCTION_METER_PACK_STR = [fH, fH, fI]"

lemmas instruction_consts = OFPIT_GOTO_TABLE_def OFPIT_WRITE_METADATA_def OFPIT_WRITE_ACTIONS_def OFPIT_APPLY_ACTIONS_def
  OFPIT_CLEAR_ACTIONS_def OFPIT_METER_def OFP_INSTRUCTION_GOTO_TABLE_PACK_STR_def
  OFP_INSTRUCTION_WRITE_METADATA_PACK_STR_def OFP_INSTRUCTION_ACTIONS_PACK_STR_def OFP_INSTRUCTION_METER_PACK_STR_def

definition OFPInstructionGotoTable_parser :: "bytes \<Rightarrow> nat \<Rightarrow> instruction res" where
  "OFPInstructionGotoTable_parser buf offset =
     rbind (unpack3 OFP_INSTRUCTION_GOTO_TABLE_PACK_STR buf offset) (\<lambda>(ty, len, table_id). Inr (GotoTable table_id))"

definition OFPInstructionGotoTable_serialize :: "int \<Rightarrow> bytes \<Rightarrow> nat \<Rightarrow> bytes res" where
  "OFPInstructionGotoTable_serialize table_id buf offset =
     msg_pack_into OFP_INSTRUCTION_GOTO_TABLE_PACK_STR buf offset [VInt OFPIT_GOTO_TABLE, VInt 8, VInt table_id]"

definition OFPInstructionWriteMetadata_parser :: "bytes \<Rightarrow> nat \<Rightarrow> instruction res" where
  "OFPInstructionWriteMetadata_parser buf offset =
     rbind (unpack_from OFP_INSTRUCTION_WRITE_METADATA_PACK_STR buf offset) (\<lambda>vs. case vs of
       [VInt ty, VInt len, VInt metadata, VInt metadata_mask] \<Rightarrow> Inr (WriteMetadata metadata metadata_mask)
     | _ \<Rightarrow> Inl ValueErr)"

definition OFPInstructionWriteMetadata_serialize :: "int \<Rightarrow> int \<Rightarrow> bytes \<Rightarrow> nat \<Rightarrow> bytes res" where
  "OFPInstructionWriteMetadata_serialize metadata metadata_mask buf offset =
     msg_pack_into OFP_INSTRUCTION_WRITE_METADATA_PACK_STR buf offset
       [VInt OFPIT_WRITE_METADATA, VInt 24, VInt metadata, VInt metadata_mask]"

definition OFPInstructionMeter_parser :: "bytes \<Rightarrow> nat \<Rightarrow> instruction res" where
  "OFPInstructionMeter_parser buf offset =
     rbind (unpack3 OFP_INSTRUCTION_METER_PACK_STR buf offset) (\<lambda>(ty, len, meter_id). Inr (Meter meter_id))"

definition OFPInstructionMeter_serialize :: "int \<Rightarrow> bytes \<Rightarrow> nat \<Rightarrow> bytes res" where
  "OFPInstructionMeter_serialize meter_id buf offset =
     msg_pack_into OFP_INSTRUCTION_METER_PACK_STR buf offset [VInt OFPIT_METER, VInt 8, VInt meter_id]"

text \<open>The loop over the actions; \<^verbatim>\<open>a.len\<close> may be zero for a set-field action, and then it does not end.\<close>

partial_function (option) parse_actions :: "addrconv \<Rightarrow> bytes \<Rightarrow> nat \<Rightarrow> int \<Rightarrow>
    action list res option" where
  "parse_actions conv buf offset actions_len =
     (if \<not> actions_len > 0 then Some (Inr [])
      else (case OFPAction_parser conv buf offset of
          Inl e \<Rightarrow> Some (Inl e)
        | Inr al \<Rightarrow> Option.bind (parse_actions conv buf (nat (int offset + snd al)) (actions_len - snd al))
            (\<lambda>r. Some (rbind r (\<lambda>as. Inr (fst al # as))))))"

definition OFPInstructionActions_parser :: "addrconv \<Rightarrow> bytes \<Rightarrow> nat \<Rightarrow>
    (instruction \<times> int) res option" where
  "OFPInstructionActions_parser conv buf offset =
     (case unpack2 OFP_INSTRUCTION_ACTIONS_PACK_STR buf offset of Inl e \<Rightarrow> Some (Inl e)
      | Inr (ty, len) \<Rightarrow> (case parse_actions conv buf (offset + 8) (len - 8) of None \<Rightarrow> None
          | Some r \<Rightarrow> Some (rbind r (\<lambda>as. Inr (InstrActions ty as, len)))))"

definition put_action :: "addrconv \<Rightarrow> bytes \<times> nat \<Rightarrow> action \<Rightarrow> (bytes \<times> nat) res" where
  "put_action conv s a = (case s of (buf, action_offset) \<Rightarrow>
     rbind (action_serialize conv a buf action_offset) (\<lambda>(buf', len). Inr (buf', action_offset + len)))"

definition OFPInstructionActions_serialize :: "addrconv \<Rightarrow> int \<Rightarrow> action list \<Rightarrow> bytes \<Rightarrow> nat \<Rightarrow> (bytes \<times> nat) res" where
  "OFPInstructionActions_serialize conv ty actions buf offset =
     rbind (rfold (put_action conv) (buf, offset + 8) actions) (\<lambda>(buf1, action_offset).
     let len0 = action_offset - offset; pad_len = round_up len0 8 - len0 in
     rbind (msg_pack_into [FX pad_len] buf1 action_offset []) (\<lambda>buf2.
     let len = len0 + pad_len in
     rbind (msg_pack_into OFP_INSTRUCTION_ACTIONS_PACK_STR buf2 offset [VInt ty, VInt (int len)]) (\<lambda>buf3.
     Inr (buf3, len))))"

definition instruction_serialize :: "addrconv \<Rightarrow> instruction \<Rightarrow> bytes \<Rightarrow> nat \<Rightarrow> (bytes \<times> nat) res" where
  "instruction_serialize conv i buf offset =
     (case i of
        GotoTable x \<Rightarrow> rbind (OFPInstructionGotoTable_serialize x buf offset) (\<lambda>b. Inr (b, 8))
      | WriteMetadata x y \<Rightarrow> rbind (OFPInstructionWriteMetadata_serialize x y buf offset) (\<lambda>b. Inr (b, 24))
      | Meter x \<Rightarrow> rbind (OFPInstructionMeter_serialize x buf offset) (\<lambda>b. Inr (b, 8))
      | InstrActions ty actions \<Rightarrow> OFPInstructionActions_serialize conv ty actions buf offset)"

text \<open>\<^verbatim>\<open>cls_\<close> is \<^verbatim>\<open>None\<close> for an unknown type: an \<^verbatim>\<open>AttributeError\<close>.\<close>

definition OFPInstruction_parser :: "addrconv \<Rightarrow> bytes \<Rightarrow> nat \<Rightarrow>
    (instruction \<times> int) res option" where
  "OFPInstruction_parser conv buf offset =
     (case unpack2 [fH, fH] buf offset of Inl e \<Rightarrow> Some (Inl e)
      | Inr (ty, len) \<Rightarrow>
        if ty = OFPIT_GOTO_TABLE then Some (rbind (OFPInstructionGotoTable_parser buf offset) (\<lambda>i. Inr (i, 8)))
        else if ty = OFPIT_WRITE_METADATA then Some (rbind (OFPInstructionWriteMetadata_parser buf offset) (\<lambda>i. Inr (i, 24)))
        else if ty = OFPIT_WRITE_ACTIONS \<or> ty = OFPIT_APPLY_ACTIONS \<or> ty = OFPIT_CLEAR_ACTIONS
          then OFPInstructionActions_parser conv buf offset
        else if ty = OFPIT_METER then Some (rbind (OFPInstructionMeter_parser buf offset) (\<lambda>i. Inr (i, 8)))
        else Some (Inl AttributeErr))"

section \<open>Round trip of an instruction\<close>

text \<open>An action written past the end of the buffer: the gap is filled with zero bytes.\<close>

lemma action_serialize_gap:
  "action_serialize conv a buf (length buf + g) = action_serialize conv a (buf @ replicate g 0) (length buf + g)"
proof -
  have e: "msg_pack_into fmt buf (length buf + g) args = msg_pack_into fmt (buf @ replicate g 0) (length buf + g) args" for fmt args
    by (simp add: msg_pack_into_gap msg_pack_into_end)
  have o: "oxm_serialize n v m buf (length buf + g + 4) = oxm_serialize n v m (buf @ replicate g 0) (length buf + g + 4)" for n v m
    using oxm_serialize_gap [of n v m buf "g + 4"] oxm_serialize_gap [of n v m "buf @ replicate g 0" 4]
    by (simp add: replicate_add add.assoc)
  show ?thesis
    by (cases a) (simp_all add: action_serialize_def Let_def OFPActionOutput_serialize_def OFPActionGroup_serialize_def
        OFPActionSetQueue_serialize_def OFPActionSetMplsTtl_serialize_def OFPActionSetNwTtl_serialize_def
        OFPActionPushVlan_serialize_def OFPActionPushMpls_serialize_def OFPActionPopMpls_serialize_def
        OFPActionPushPbb_serialize_def OFPActionHeader_serialize_def OFPActionSetField_serialize_def
        OFPActionExperimenterUnknown_serialize_def OFPActionExperimenter_serialize_def nx_serialize_gap e o)
qed

lemma put_actions_gap:
  assumes "actions \<noteq> []"
  shows "rfold (put_action conv) (buf, length buf + g) actions =
     rfold (put_action conv) (buf @ replicate g 0, length (buf @ replicate g (0 :: 8 word))) actions"
  using assms action_serialize_gap [of conv _ buf g] by (cases actions) (simp_all add: put_action_def)

lemma parse_actions_none: "parse_actions conv buf offset 0 = Some (Inr [])"
  by (subst parse_actions.simps) simp

definition actions_wire :: "addrconv \<Rightarrow> action list \<Rightarrow> bytes" where
  "actions_wire conv actions = concat (map (action_wire conv) actions)"

lemma put_actions_end:
  "\<forall>a \<in> set actions. action_ok conv a \<Longrightarrow>
     rfold (put_action conv) (buf, length buf) actions =
       Inr (buf @ actions_wire conv actions, length (buf @ actions_wire conv actions))"
proof (induction actions arbitrary: buf)
  case (Cons a actions)
  with action_roundtrip [of conv a buf] Cons.IH [of "buf @ action_wire conv a"] show ?case
    by (simp add: put_action_def actions_wire_def)
qed (simp add: actions_wire_def)

lemma actions_wire_length:
  "\<forall>a \<in> set actions. action_ok conv a \<Longrightarrow>
     length (actions_wire conv actions) mod 8 = 0 \<and> length (actions_wire conv actions) \<le> 255 * length actions"
proof (induction actions)
  case (Cons a actions)
  then have "length (action_wire conv a) mod 8 = 0" "length (action_wire conv a) < 256"
    using action_roundtrip [of conv a "[]"] by auto
  with Cons show ?case by (auto simp: actions_wire_def mod_add_eq [symmetric])
qed (simp add: actions_wire_def)

lemma parse_actions_wire:
  "\<forall>a \<in> set actions. action_ok conv a \<Longrightarrow>
     parse_actions conv (buf @ actions_wire conv actions @ post) (length buf) (int (length (actions_wire conv actions)))
       = Some (Inr actions)"
proof (induction actions arbitrary: buf)
  case Nil
  show ?case by (simp add: parse_actions_none actions_wire_def)
next
  case (Cons a actions)
  define v where "v = action_wire conv a"
  define w where "w = actions_wire conv actions"
  have vw: "actions_wire conv (a # actions) = v @ w" by (simp add: v_def w_def actions_wire_def)
  from Cons.prems have "action_ok conv a" by simp
  then have v: "8 \<le> length v" "OFPAction_parser conv (buf @ v @ w @ post) (length buf) = Inr (a, int (length v))"
    using action_roundtrip [of conv a buf] by (auto simp: v_def)
  have "parse_actions conv ((buf @ v) @ w @ post) (length (buf @ v)) (int (length w)) = Some (Inr actions)"
    using Cons.IH [of "buf @ v"] Cons.prems by (simp add: w_def)
  with v show ?case unfolding vw
    by (subst parse_actions.simps) (auto simp: nat_add_distrib)
qed

definition instruction_ok :: "addrconv \<Rightarrow> instruction \<Rightarrow> bool" where
  "instruction_ok conv i =
     (case i of
        GotoTable x \<Rightarrow> in_range 1 x | WriteMetadata x y \<Rightarrow> in_range 8 x \<and> in_range 8 y | Meter x \<Rightarrow> in_range 4 x
      | InstrActions ty actions \<Rightarrow> (ty = OFPIT_WRITE_ACTIONS \<or> ty = OFPIT_APPLY_ACTIONS \<or> ty = OFPIT_CLEAR_ACTIONS)
          \<and> length actions \<le> 255 \<and> (\<forall>a \<in> set actions. action_ok conv a))"

definition actions_instruction_wire :: "addrconv \<Rightarrow> int \<Rightarrow> action list \<Rightarrow> bytes" where
  "actions_instruction_wire conv ty actions =
     be_bytes 2 ty @ be_bytes 2 (int (8 + length (actions_wire conv actions))) @ replicate 4 0 @ actions_wire conv actions"

lemma actions_instruction_roundtrip:
  assumes "instruction_ok conv (InstrActions ty actions)"
  defines "v \<equiv> actions_instruction_wire conv ty actions"
  shows "OFPInstructionActions_serialize conv ty actions buf (length buf) = Inr (buf @ v, length v)
    \<and> 8 \<le> length v \<and> length v mod 8 = 0 \<and> length v \<le> 8 + 255 * length actions
    \<and> (\<forall>post. OFPInstruction_parser conv (buf @ v @ post) (length buf) = Some (Inr (InstrActions ty actions, int (length v))))"
proof -
  let ?b = "buf @ replicate 8 (0 :: 8 word)"
  from assms(1) have ok: "\<forall>a \<in> set actions. action_ok conv a" "length actions \<le> 255"
    and ty: "ty = 3 \<or> ty = 4 \<or> ty = 5" by (auto simp: instruction_ok_def instruction_consts)
  define w where "w = actions_wire conv actions"
  define len where "len = 8 + length w"
  define h where "h = be_bytes 2 ty @ be_bytes 2 (int len) @ replicate 4 0"
  have h8: "length h = 8" by (simp add: h_def)
  have l: "length w mod 8 = 0" "length w \<le> 65025" using actions_wire_length [OF ok(1)] ok(2) by (simp_all add: w_def)
  then have up: "round_up len 8 = len" by (auto simp: round_up_def len_def elim!: dvdE simp flip: dvd_eq_mod_eq_0)
  have folded: "\<exists>b. rfold (put_action conv) (buf, length buf + 8) actions = Inr (b, length buf + len)
      \<and> msg_pack_into [FX 0] b (length buf + len) [] = Inr (?b @ w)"
  proof (cases "actions = []")
    case True
    then show ?thesis by (simp add: w_def actions_wire_def len_def msg_pack_into_gap)
  next
    case False
    from put_actions_gap [OF this, of conv buf 8] put_actions_end [OF ok(1), of ?b]
    show ?thesis by (simp add: w_def len_def msg_pack_into_end add.assoc)
  qed
  have over: "msg_pack_into OFP_INSTRUCTION_ACTIONS_PACK_STR (?b @ w) (length buf) [VInt ty, VInt (int len)] = Inr (buf @ h @ w)"
    unfolding append_assoc
    by (subst msg_pack_into_over) (use ty l len_def in \<open>auto simp: h_def OFP_INSTRUCTION_ACTIONS_PACK_STR_def\<close>)
  have ser: "OFPInstructionActions_serialize conv ty actions buf (length buf) = Inr (buf @ h @ w, len)"
    using folded over by (auto simp: OFPInstructionActions_serialize_def Let_def up)
  have "OFPInstruction_parser conv (buf @ (h @ w) @ post) (length buf) = Some (Inr (InstrActions ty actions, int len))" for post
  proof -
    have "parse_actions conv (buf @ (h @ w) @ post) (length buf + 8) (int (length w)) = Some (Inr actions)"
      using parse_actions_wire [OF ok(1), of "buf @ h" post] by (simp add: w_def h8)
    moreover have "unpack2 [fH, fH, FX 4] (buf @ (h @ w) @ post) (length buf) = Inr (ty, int len)"
      and "unpack2 [fH, fH] (buf @ (h @ w) @ post) (length buf) = Inr (ty, int len)"
      using ty l by (auto simp: unpack2_def unpack_from_def h_def len_def)
    ultimately show ?thesis using ty
      by (auto simp: OFPInstruction_parser_def OFPInstructionActions_parser_def instruction_consts len_def)
  qed
  moreover have "length w \<le> 255 * length actions" using actions_wire_length [OF ok(1)] by (simp add: w_def)
  moreover have "v = h @ w" by (simp add: v_def actions_instruction_wire_def h_def len_def w_def)
  ultimately show ?thesis using ser h8 l(1) by (simp add: len_def)
qed

definition instruction_size :: "instruction \<Rightarrow> nat" where
  "instruction_size i = (case i of InstrActions ty actions \<Rightarrow> 8 + 255 * length actions | _ \<Rightarrow> 24)"

definition instruction_wire :: "addrconv \<Rightarrow> instruction \<Rightarrow> bytes" where
  "instruction_wire conv i = (case instruction_serialize conv i [] 0 of Inl _ \<Rightarrow> [] | Inr (b, _) \<Rightarrow> b)"

lemma instruction_end:
  assumes "instruction_ok conv i"
  defines "w \<equiv> instruction_wire conv i"
  shows "instruction_serialize conv i buf (length buf) = Inr (buf @ w, length w)
    \<and> 8 \<le> length w \<and> length w mod 8 = 0 \<and> length w \<le> instruction_size i
    \<and> (\<forall>post. OFPInstruction_parser conv (buf @ w @ post) (length buf) = Some (Inr (i, int (length w))))"
proof (cases i)
  case (InstrActions ty actions)
  with assms(1) actions_instruction_roundtrip [of conv ty actions "[]"] have "w = actions_instruction_wire conv ty actions"
    by (simp add: w_def instruction_wire_def instruction_serialize_def)
  with InstrActions assms(1) actions_instruction_roundtrip [of conv ty actions buf] show ?thesis
    by (simp add: instruction_serialize_def instruction_size_def)
qed (use assms(1) in \<open>simp_all add: w_def instruction_wire_def instruction_ok_def instruction_size_def in_range_def
    instruction_serialize_def OFPInstruction_parser_def
    OFPInstructionGotoTable_serialize_def OFPInstructionGotoTable_parser_def OFPInstructionMeter_serialize_def
    OFPInstructionMeter_parser_def OFPInstructionWriteMetadata_serialize_def OFPInstructionWriteMetadata_parser_def
    instruction_consts unpack2_def unpack3_def unpack_from_def msg_pack_into_end\<close>)

text \<open>An instruction written at the end of a message is read back as it was: goto-table, metadata and meter
  instructions whose numbers fit, and a list of at most 255 actions of every fixed kind, set-field actions whose
  value fits, actions of experimenters with whole words of data and actions of Nicira that fill their length. Its length is a multiple of eight, as the protocol asks, and the loop over the actions ends.\<close>

theorem instruction_roundtrip:
  assumes "instruction_ok conv i"
  shows "\<exists>w. instruction_serialize conv i buf (length buf) = Inr (buf @ w, length w)
    \<and> 8 \<le> length w \<and> length w mod 8 = 0
    \<and> (\<forall>post. OFPInstruction_parser conv (buf @ w @ post) (length buf) = Some (Inr (i, int (length w))))"
  using instruction_end [OF assms, of buf] by (intro exI [of _ "instruction_wire conv i"]) simp

theorem instruction_roundtrip_demo:
  "\<exists>w. instruction_serialize demo_conv (InstrActions 4 [PopVlan, SetField ''eth_dst'' (UText ''00:00:00:00:00:01''), Output 3 65535]) [] (length ([] :: bytes)) =
      Inr ([] @ w, length w) \<and> 8 \<le> length w \<and> length w mod 8 = 0
    \<and> (\<forall>post. OFPInstruction_parser demo_conv ([] @ w @ post) (length ([] :: bytes)) =
        Some (Inr (InstrActions 4 [PopVlan, SetField ''eth_dst'' (UText ''00:00:00:00:00:01''), Output 3 65535], int (length w))))"
proof -
  have "field_canon demo_conv (''eth_dst'', (UText ''00:00:00:00:00:01'', None))" 
    using demo_fields_canon by (simp add: demo_fields_def)
  then have "instruction_ok demo_conv (InstrActions 4 [PopVlan, SetField ''eth_dst'' (UText ''00:00:00:00:00:01''), Output 3 65535])"
    by (simp add: instruction_ok_def action_ok_def in_range_def instruction_consts)
  then show ?thesis by (rule instruction_roundtrip)
qed

text \<open>A set-field action whose length is written as zero is read again and again: the loop does not end.\<close>

lemma parse_actions_returns:
  assumes "parse_actions conv buf offset n = Some r"
  shows "OFPAction_parser conv buf offset = Inr (a, 0) \<longrightarrow> \<not> 0 < n"
  by (rule parse_actions.raw_induct [where P =
        "\<lambda>conv buf offset n r. OFPAction_parser conv buf offset = Inr (a, 0) \<longrightarrow> \<not> 0 < n", OF _ assms])
     (auto split: if_splits sum.splits bind_splits)

lemma parse_actions_stuck:
  assumes "OFPAction_parser conv buf offset = Inr (a, 0)" and "0 < n"
  shows "parse_actions conv buf offset n = None"
  using assms parse_actions_returns by (cases "parse_actions conv buf offset n") blast+

definition stuck_message :: bytes where
  "stuck_message = [0, 25, 0, 0, 128, 0, 0, 4, 0, 0, 0, 1]"

lemma zero_length_action:
  "parse_actions demo_conv stuck_message 0 8 = None"
  by (rule parse_actions_stuck) (code_simp, simp)

end
