(* ===== verification/Framing.thy ===== *)
theory Framing
  imports PyStruct
begin

text \<open>
  From bytes to messages: the loop \<^verbatim>\<open>Datapath._recv_loop\<close> of \<^verbatim>\<open>ryu/controller/controller.py\<close> with
  \<^verbatim>\<open>header\<close> and \<^verbatim>\<open>msg\<close> of \<^verbatim>\<open>ryu/ofproto/ofproto_parser.py\<close>. What the socket returns is an argument: a list of
  chunks, the empty chunk being the end of the stream. A frame is what \<^verbatim>\<open>ofproto_parser.msg\<close> is called with: the
  header and the \<^emph>\<open>whole\<close> buffer. The pause after 2048 messages is not modelled.
\<close>

section \<open>The header\<close>

definition OFP_HEADER_PACK_STR :: format where "OFP_HEADER_PACK_STR = [fB, fB, fH, fI]"
definition OFP_HEADER_SIZE :: nat where "OFP_HEADER_SIZE = 8"

record of_header =
  h_version :: int
  h_type :: int
  h_len :: int
  h_xid :: int

definition ofp_header :: "bytes \<Rightarrow> of_header res" where
  "ofp_header buf =
     (if \<not> OFP_HEADER_SIZE \<le> length buf then Inl AssertErr
      else rbind (unpack_from OFP_HEADER_PACK_STR buf 0) (\<lambda>vs. case vs of
        [VInt version, VInt msg_type, VInt msg_len, VInt xid] \<Rightarrow>
          Inr \<lparr>h_version = version, h_type = msg_type, h_len = msg_len, h_xid = xid\<rparr>
      | _ \<Rightarrow> Inl ValueErr))"

text \<open>The versions with a registered parser: 1.0, 1.2, 1.3, 1.4 and 1.5.\<close>

definition msg_versions :: "int list" where
  "msg_versions = [1, 3, 4, 5, 6]"

definition OFPUnknownVersion :: pyerr where
  "OFPUnknownVersion = OtherErr ''OFPUnknownVersion''"

section \<open>The loop\<close>

type_synonym frame = "of_header \<times> bytes"

text \<open>The inner loop: the frames it passes on, and an exception or the buffer and the required length that it leaves. A
  message that declares a length of zero is never removed from the buffer: the loop does not end.\<close>

partial_function (option) drain :: "bytes \<Rightarrow> int \<Rightarrow> (frame list \<times> (pyerr + bytes \<times> int)) option" where
  "drain buf required_len =
     (if int (length buf) < required_len then Some ([], Inr (buf, required_len))
      else (case ofp_header buf of
          Inl e \<Rightarrow> Some ([], Inl e)
        | Inr h \<Rightarrow>
          if int (length buf) < h_len h then Some ([], Inr (buf, h_len h))
          else if h_version h \<notin> set msg_versions then Some ([], Inl OFPUnknownVersion)
          else Option.bind (drain (drop (nat (h_len h)) buf) (int OFP_HEADER_SIZE))
                 (\<lambda>r. Some ((h, buf) # fst r, snd r))))"

declare drain.simps [code]

text \<open>The outer loop, over what \<^verbatim>\<open>socket.recv\<close> returns.\<close>

fun recv_loop :: "bytes list \<Rightarrow> bytes \<Rightarrow> int \<Rightarrow> (frame list \<times> (pyerr + bytes \<times> int)) option" where
  "recv_loop [] buf required_len = Some ([], Inr (buf, required_len))"
| "recv_loop (ret # chunks) buf required_len =
     (if length ret = 0 then Some ([], Inr (buf, required_len))
      else case drain (buf @ ret) required_len of
          None \<Rightarrow> None
        | Some (fs, Inl e) \<Rightarrow> Some (fs, Inl e)
        | Some (fs, Inr (buf', req')) \<Rightarrow>
            (case recv_loop chunks buf' req' of None \<Rightarrow> None | Some (gs, r) \<Rightarrow> Some (fs @ gs, r)))"

text \<open>The message of a frame: its declared length of the buffer.\<close>

definition frame_msg :: "frame \<Rightarrow> of_header \<times> bytes" where
  "frame_msg f = (fst f, take (nat (h_len (fst f))) (snd f))"

definition view :: "(frame list \<times> (pyerr + bytes \<times> int)) option \<Rightarrow>
    ((of_header \<times> bytes) list \<times> (pyerr + bytes \<times> int)) option" where
  "view = map_option (\<lambda>(fs, r). (map frame_msg fs, r))"

lemma view_simps [simp]: "view None = None" "view (Some (fs, r)) = Some (map frame_msg fs, r)"
  by (simp_all add: view_def)

section \<open>Chunks do not matter\<close>

lemma drain_wait: "int (length buf) < req \<Longrightarrow> drain buf req = Some ([], Inr (buf, req))"
  by (subst drain.simps) simp

lemma ofp_header_append: "8 \<le> length b \<Longrightarrow> ofp_header (b @ c) = ofp_header b"
  by (simp add: ofp_header_def OFP_HEADER_SIZE_def OFP_HEADER_PACK_STR_def unpack_from_def)

lemma ofp_header_Inr:
  assumes "8 \<le> length b"
  obtains h where "ofp_header b = Inr h" "0 \<le> h_len h"
  using assms be_int_bounds [of "take 2 (drop 2 b)"]
  by (simp add: ofp_header_def OFP_HEADER_SIZE_def OFP_HEADER_PACK_STR_def unpack_from_def numeral_2_eq_2)

text \<open>Draining a longer buffer: first what the shorter one gives, then the rest.\<close>

text \<open>What a result of the loop on \<open>b\<close> says of the loop on \<open>b @ c\<close>.\<close>

definition drain_more :: "bytes \<Rightarrow> bytes \<Rightarrow> int \<Rightarrow> frame list \<times> (pyerr + bytes \<times> int) \<Rightarrow> bool" where
  "drain_more c b req r \<longleftrightarrow> (case snd r of
      Inl e \<Rightarrow> \<exists>gs. drain (b @ c) req = Some (gs, Inl e) \<and> map frame_msg gs = map frame_msg (fst r)
    | Inr (b', req') \<Rightarrow> 8 \<le> req' \<and> int (length b') < req' \<and>
        view (drain (b @ c) req) = map_option (\<lambda>(gs, y). (map frame_msg (fst r) @ gs, y)) (view (drain (b' @ c) req')))"

lemma drain_header:
  assumes "8 \<le> length b" and "ofp_header b = Inr h" and "req \<le> int (length (b @ c))"
  shows "drain (b @ c) req = (if int (length (b @ c)) < h_len h then Some ([], Inr (b @ c, h_len h))
      else if h_version h \<notin> set msg_versions then Some ([], Inl OFPUnknownVersion)
      else Option.bind (drain (drop (nat (h_len h)) (b @ c)) (int OFP_HEADER_SIZE)) (\<lambda>r. Some ((h, b @ c) # fst r, snd r)))"
  using assms ofp_header_append [OF assms(1)] by (subst drain.simps) simp

lemma drain_more_short:
  assumes l8: "8 \<le> length b" and h: "ofp_header b = Inr h" and req: "req \<le> int (length b)" and short: "int (length b) < h_len h"
  shows "drain_more c b req ([], Inr (b, h_len h))"
proof -
  have go: "drain (b @ c) req = (if int (length (b @ c)) < h_len h then Some ([], Inr (b @ c, h_len h)) else drain (b @ c) (h_len h))"
    using drain_header [OF l8 h, of req c] drain_header [OF l8 h, of "h_len h" c] req by simp
  have "drain (b @ c) req = drain (b @ c) (h_len h)"
    using go drain_wait [of "b @ c" "h_len h"] by (cases "int (length (b @ c)) < h_len h") simp_all
  then show ?thesis using short l8 by (simp add: drain_more_def option.map_comp comp_def split_def option.map_ident)
qed

lemma drain_more_frame:
  assumes l8: "8 \<le> length b" and h: "ofp_header b = Inr h" and req: "req \<le> int (length b)"
    and frame: "\<not> int (length b) < h_len h" "h_version h \<in> set msg_versions"
    and IH: "drain_more c (drop (nat (h_len h)) b) (int OFP_HEADER_SIZE) r"
  shows "drain_more c b req ((h, b) # fst r, snd r)"
proof -
  let ?b = "drop (nat (h_len h)) b"
  have dr: "drop (nat (h_len h)) (b @ c) = ?b @ c" using frame by simp
  have fm: "frame_msg (h, b @ c) = frame_msg (h, b)" using frame by (simp add: frame_msg_def)
  from drain_header [OF l8 h, of req c] frame req
  have "drain (b @ c) req = Option.bind (drain (?b @ c) (int OFP_HEADER_SIZE)) (\<lambda>r. Some ((h, b @ c) # fst r, snd r))"
    by (simp add: dr)
  with IH show ?thesis
    by (cases "drain (?b @ c) (int OFP_HEADER_SIZE)"; cases "snd r")
       (auto simp: drain_more_def OFP_HEADER_SIZE_def fm map_option_case split: option.splits prod.splits)
qed

lemma drain_append:
  assumes "drain b req = Some r"
  shows "8 \<le> req \<longrightarrow> drain_more c b req r"
proof (rule drain.raw_induct [where P = "\<lambda>b req r. 8 \<le> req \<longrightarrow> drain_more c b req r", OF _ assms], intro impI)
  fix d b req r
  assume IH: "\<And>b req r. d b req = Some r \<Longrightarrow> 8 \<le> req \<longrightarrow> drain_more c b req r"
  assume step: "(if int (length b) < req then Some ([], Inr (b, req))
      else (case ofp_header b of
          Inl e \<Rightarrow> Some ([], Inl e)
        | Inr h \<Rightarrow>
          if int (length b) < h_len h then Some ([], Inr (b, h_len h))
          else if h_version h \<notin> set msg_versions then Some ([], Inl OFPUnknownVersion)
          else Option.bind (d (drop (nat (h_len h)) b) (int OFP_HEADER_SIZE)) (\<lambda>r. Some ((h, b) # fst r, snd r)))) = Some r"
    and req: "8 \<le> req"
  show "drain_more c b req r"
  proof (cases "int (length b) < req")
    case True
    with step req show ?thesis by (auto simp: drain_more_def option.map_comp comp_def split_def option.map_ident)
  next
    case False
    with req have l8: "8 \<le> length b" and le: "req \<le> int (length b)" by simp_all
    from l8 obtain h where h: "ofp_header b = Inr h" "0 \<le> h_len h" by (rule ofp_header_Inr)
    consider (short) "int (length b) < h_len h" | (bad) "\<not> int (length b) < h_len h" "h_version h \<notin> set msg_versions"
      | (frame) "\<not> int (length b) < h_len h" "h_version h \<in> set msg_versions" by blast
    then show ?thesis
    proof cases
      case short
      then have "r = ([], Inr (b, h_len h))" using step False h by simp
      with drain_more_short [OF l8 h(1) le short] show ?thesis by simp
    next
      case bad
      then have "r = ([], Inl OFPUnknownVersion)" using step False h by simp
      with bad drain_header [OF l8 h(1), of req c] le show ?thesis by (simp add: drain_more_def)
    next
      case frame
      from frame step False h obtain r1 where r1: "d (drop (nat (h_len h)) b) (int OFP_HEADER_SIZE) = Some r1"
        and r: "r = ((h, b) # fst r1, snd r1)" by (auto simp: bind_eq_Some_conv)
      have "drain_more c (drop (nat (h_len h)) b) (int OFP_HEADER_SIZE) r1" using IH [OF r1] by (simp add: OFP_HEADER_SIZE_def)
      from drain_more_frame [OF l8 h(1) le frame this] show ?thesis by (simp add: r)
    qed
  qed
qed

text \<open>If the loop ends on a buffer, it ends on every prefix.\<close>

lemma drain_prefix:
  assumes "drain b req = Some r"
  shows "\<forall>p q. b = p @ q \<longrightarrow> 8 \<le> req \<longrightarrow> drain p req \<noteq> None"
proof (rule drain.raw_induct [where P = "\<lambda>b req r. \<forall>p q. b = p @ q \<longrightarrow> 8 \<le> req \<longrightarrow> drain p req \<noteq> None", OF _ assms],
    intro allI impI)
  fix d b req r p q
  assume IH: "\<And>b req r. d b req = Some r \<Longrightarrow> \<forall>p q. b = p @ q \<longrightarrow> 8 \<le> req \<longrightarrow> drain p req \<noteq> None"
    and step: "(if int (length b) < req then Some ([], Inr (b, req))
      else (case ofp_header b of
          Inl e \<Rightarrow> Some ([], Inl e)
        | Inr h \<Rightarrow>
          if int (length b) < h_len h then Some ([], Inr (b, h_len h))
          else if h_version h \<notin> set msg_versions then Some ([], Inl OFPUnknownVersion)
          else Option.bind (d (drop (nat (h_len h)) b) (int OFP_HEADER_SIZE)) (\<lambda>r. Some ((h, b) # fst r, snd r)))) = Some r"
    and b: "b = p @ q" and req: "8 \<le> req"
  show "drain p req \<noteq> None"
  proof (cases "int (length p) < req")
    case True
    then show ?thesis by (simp add: drain_wait)
  next
    case False
    with req have l8: "8 \<le> length p" by simp
    then obtain h where h: "ofp_header p = Inr h" "0 \<le> h_len h" by (rule ofp_header_Inr)
    show ?thesis
    proof (cases "int (length p) < h_len h \<or> h_version h \<notin> set msg_versions")
      case True
      then show ?thesis using False h by (subst drain.simps) auto
    next
      case go: False
      then obtain r1 where "d (drop (nat (h_len h)) p @ q) (int OFP_HEADER_SIZE) = Some r1"
        using step False h ofp_header_append [OF l8] by (auto simp: b bind_eq_Some_conv)
      from IH [OF this] have "drain (drop (nat (h_len h)) p) (int OFP_HEADER_SIZE) \<noteq> None" by (simp add: OFP_HEADER_SIZE_def)
      then show ?thesis using go False h by (subst drain.simps) auto
    qed
  qed
qed

lemma recv_loop_drain:
  assumes "[] \<notin> set chunks" and "8 \<le> req" and "int (length b) < req" and "drain (b @ concat chunks) req \<noteq> None"
  shows "view (recv_loop chunks b req) = view (drain (b @ concat chunks) req)"
  using assms
proof (induction chunks arbitrary: b req)
  case Nil
  then show ?case by (simp add: drain_wait)
next
  case (Cons c chunks)
  then obtain r0 where r0: "drain ((b @ c) @ concat chunks) req = Some r0" by auto
  from drain_prefix [OF this] Cons.prems obtain fs r where r: "drain (b @ c) req = Some (fs, r)" by fastforce
  note app = drain_append [OF r, of "concat chunks", unfolded drain_more_def]
  have c: "c \<noteq> []" using Cons.prems(1) by auto
  show ?case
  proof (cases r)
    case (Inl e)
    with app Cons.prems r obtain gs where "drain ((b @ c) @ concat chunks) req = Some (gs, Inl e)" "map frame_msg gs = map frame_msg fs"
      by auto
    with Inl r c show ?thesis by simp
  next
    case (Inr p)
    obtain b' req' where p: "p = (b', req')" by (cases p)
    with app Inr Cons.prems r have *: "8 \<le> req'" "int (length b') < req'"
      "view (drain ((b @ c) @ concat chunks) req) = map_option (\<lambda>(gs, y). (map frame_msg fs @ gs, y)) (view (drain (b' @ concat chunks) req'))"
      by auto
    then have "drain (b' @ concat chunks) req' \<noteq> None" using r0 by (cases "drain (b' @ concat chunks) req'") (auto simp: view_def)
    then have "view (recv_loop chunks b' req') = view (drain (b' @ concat chunks) req')"
      using Cons.IH [of req' b'] Cons.prems * by simp
    moreover have "view (recv_loop (c # chunks) b req) = map_option (\<lambda>(gs, y). (map frame_msg fs @ gs, y)) (view (recv_loop chunks b' req'))"
      using c r Inr p by (cases "recv_loop chunks b' req'") (auto simp: view_def)
    ultimately show ?thesis using * by simp
  qed
qed

section \<open>Whole messages\<close>

definition is_message :: "bytes \<Rightarrow> bool" where
  "is_message m \<longleftrightarrow> 8 \<le> length m \<and> (case ofp_header m of Inl _ \<Rightarrow> False
     | Inr h \<Rightarrow> h_len h = int (length m) \<and> h_version h \<in> set msg_versions)"

text \<open>The beginning of a message: less than a header, or less than the header says.\<close>

definition incomplete :: "bytes \<Rightarrow> bool" where
  "incomplete t \<longleftrightarrow> length t < 8 \<or> (case ofp_header t of Inl _ \<Rightarrow> False | Inr h \<Rightarrow> int (length t) < h_len h)"

lemma is_messageE:
  assumes "is_message m"
  obtains h where "ofp_header m = Inr h" "h_len h = int (length m)" "h_version h \<in> set msg_versions" "8 \<le> length m"
  using assms by (auto simp: is_message_def split: sum.splits)

lemma drain_incomplete:
  assumes "incomplete t"
  shows "\<exists>req. drain t 8 = Some ([], Inr (t, req)) \<and> int (length t) < req"
proof (cases "length t < 8")
  case True
  then show ?thesis by (simp add: drain_wait)
next
  case False
  then obtain h where "ofp_header t = Inr h" using ofp_header_Inr [of t] by (metis not_less)
  with assms False show ?thesis by (subst drain.simps) (simp add: incomplete_def)
qed

definition headed :: "bytes \<Rightarrow> of_header \<times> bytes" where
  "headed m = (case ofp_header m of Inr h \<Rightarrow> (h, m) | Inl _ \<Rightarrow> (\<lparr>h_version = 0, h_type = 0, h_len = 0, h_xid = 0\<rparr>, m))"

lemma drain_messages:
  assumes "\<forall>m \<in> set msgs. is_message m" and "incomplete t"
  shows "\<exists>fs req. drain (concat msgs @ t) 8 = Some (fs, Inr (t, req)) \<and> map frame_msg fs = map headed msgs \<and> int (length t) < req"
  using assms(1)
proof (induction msgs)
  case Nil
  then show ?case using drain_incomplete [OF assms(2)] by auto
next
  case (Cons m msgs)
  then obtain fs req where IH: "drain (concat msgs @ t) 8 = Some (fs, Inr (t, req))" "map frame_msg fs = map headed msgs" "int (length t) < req"
    by auto
  from Cons.prems have "is_message m" by simp
  then obtain h where h: "ofp_header m = Inr h" "h_len h = int (length m)" "h_version h \<in> set msg_versions" "8 \<le> length m"
    by (rule is_messageE)
  have "drain (concat (m # msgs) @ t) 8 = Some ((h, concat (m # msgs) @ t) # fs, Inr (t, req))"
    using h IH(1) ofp_header_append [OF h(4), of "concat msgs @ t"] by (subst drain.simps) (simp add: OFP_HEADER_SIZE_def)
  moreover have "frame_msg (h, concat (m # msgs) @ t) = headed m" using h by (simp add: frame_msg_def headed_def)
  ultimately show ?case using IH by auto
qed

text \<open>C34: how a stream is cut into pieces by the network does not matter: the receive loop passes on the same headers
  and message bytes, ends with the same exception or keeps the same rest, as when the whole stream arrives at once.\<close>

theorem chunks_do_not_matter:
  assumes "[] \<notin> set chunks" and "drain (concat chunks) 8 \<noteq> None"
  shows "view (recv_loop chunks [] 8) = view (drain (concat chunks) 8)"
  using recv_loop_drain [of chunks 8 "[]"] assms by simp

text \<open>An echo request with four bytes of data, followed by a barrier reply.\<close>

definition demo_echo :: bytes where "demo_echo = [4, 2, 0, 12, 0, 0, 0, 1, 7, 7, 7, 7]"
definition demo_barrier :: bytes where "demo_barrier = [4, 21, 0, 8, 0, 0, 0, 2]"

lemma demo_messages: "\<forall>m \<in> set [demo_echo, demo_barrier]. is_message m"
  by code_simp

theorem chunks_do_not_matter_demo:
  "view (recv_loop [take 8 demo_echo, drop 8 demo_echo @ demo_barrier] [] 8) =
     view (drain (concat [take 8 demo_echo, drop 8 demo_echo @ demo_barrier]) 8)"
proof (rule chunks_do_not_matter)
  show "[] \<notin> set [take 8 demo_echo, drop 8 demo_echo @ demo_barrier]" by (simp add: demo_echo_def)
  have "incomplete []" by (simp add: incomplete_def)
  from drain_messages [OF demo_messages this]
  show "drain (concat [take 8 demo_echo, drop 8 demo_echo @ demo_barrier]) 8 \<noteq> None"
    by (auto simp: demo_echo_def)
qed

lemma recv_messages:
  assumes "\<forall>m \<in> set msgs. is_message m" and "incomplete t"
    and "[] \<notin> set chunks" and "concat chunks = concat msgs @ t"
  shows "\<exists>fs req. recv_loop chunks [] 8 = Some (fs, Inr (t, req)) \<and> map frame_msg fs = map headed msgs \<and> int (length t) < req"
proof -
  from drain_messages [OF assms(1,2)] obtain fs req where
    d: "drain (concat chunks) 8 = Some (fs, Inr (t, req))" "map frame_msg fs = map headed msgs" "int (length t) < req"
    by (auto simp: assms(4))
  with recv_loop_drain [of chunks 8 "[]"] assms(3)
  have "view (recv_loop chunks [] 8) = Some (map frame_msg fs, Inr (t, req))" by simp
  then obtain gs where "recv_loop chunks [] 8 = Some (gs, Inr (t, req))" "map frame_msg gs = map frame_msg fs"
    by (auto simp: view_def)
  with d show ?thesis by auto
qed

text \<open>A stream of whole messages of known versions, cut anywhere and followed by the beginning of another one, comes
  out of the receive loop message by message, in order and complete, each with its header; the beginning stays in the buffer, and the loop
  waits for more bytes than it has.\<close>

theorem messages_received:
  assumes "\<forall>m \<in> set msgs. is_message m" and "incomplete t"
    and "[] \<notin> set chunks" and "concat chunks = concat msgs @ t"
  shows "\<exists>fs req. recv_loop chunks [] 8 = Some (fs, Inr (t, req)) \<and> map frame_msg fs = map headed msgs \<and> int (length t) < req"
using recv_messages [OF assms] .

theorem messages_received_demo:
  "\<exists>fs req. recv_loop [[4, 2, 0], [12, 0, 0, 0, 1], [7, 7, 7, 7, 4, 21], [0, 8, 0, 0, 0, 2, 4]] [] 8 = Some (fs, Inr ([4], req))
     \<and> map frame_msg fs = map headed [demo_echo, demo_barrier] \<and> int (length [4 :: 8 word]) < req"
  by (rule messages_received [OF demo_messages]) (simp_all add: incomplete_def demo_echo_def demo_barrier_def)

section \<open>What goes wrong\<close>

text \<open>The socket may return \<open>required_len\<close> bytes although part of the message is already there. Then the buffer that
  the parser of the first message gets is longer than the message: the data of the echo request reaches into the
  barrier reply.\<close>

lemma frame_overrun:
  "recv_loop [take 8 demo_echo, drop 8 demo_echo @ demo_barrier] [] 8 =
     Some ([(\<lparr>h_version = 4, h_type = 2, h_len = 12, h_xid = 1\<rparr>, demo_echo @ demo_barrier),
            (\<lparr>h_version = 4, h_type = 21, h_len = 8, h_xid = 2\<rparr>, demo_barrier)], Inr ([], 8))"
  by code_simp

text \<open>A header that declares a length of zero is read again and again.\<close>

lemma drain_returns:
  assumes "drain b req = Some r"
  shows "\<not> (req = 8 \<and> (\<exists>h. ofp_header b = Inr h \<and> h_len h = 0 \<and> h_version h \<in> set msg_versions))"
  by (rule drain.raw_induct [where P = "\<lambda>b req r. \<not> (req = 8 \<and>
        (\<exists>h. ofp_header b = Inr h \<and> h_len h = 0 \<and> h_version h \<in> set msg_versions))", OF _ assms])
     (auto simp: OFP_HEADER_SIZE_def ofp_header_def bind_eq_Some_conv split: if_splits)

lemma zero_length_message:
  "ofp_header b = Inr h \<Longrightarrow> h_len h = 0 \<Longrightarrow> h_version h \<in> set msg_versions \<Longrightarrow> drain b 8 = None"
  using drain_returns [of b 8] by (cases "drain b 8") auto

end
