(* ===== verification/OFMessage.thy ===== *)
theory OFMessage
  imports OFAction Framing
begin

text \<open>
  Writing a message: \<^verbatim>\<open>MsgBase.serialize\<close> of \<^verbatim>\<open>ofproto_parser.py\<close> and the methods \<^verbatim>\<open>_serialize_body\<close> of
  \<^verbatim>\<open>ofproto_v1_3_parser.py\<close> for the messages that the controller sends, and for packet-out. The messages are those of
  \<^verbatim>\<open>OFProto\<close>; a port that is not a number is an error of \<^verbatim>\<open>struct\<close>.
\<close>

section \<open>Text\<close>

text \<open>A string of Python 2 is a list of bytes.\<close>

definition bytes_of :: "string \<Rightarrow> bytes" where
  "bytes_of s = map (\<lambda>c. word_of_nat (of_char c)) s"

definition text_of :: "bytes \<Rightarrow> string" where
  "text_of b = map (\<lambda>x. char_of (unat x)) b"

lemma text_of_bytes_of [simp]: "text_of (bytes_of s) = s"
proof -
  have "char_of (unat (word_of_nat (of_char c) :: 8 word)) = c" for c
    by (simp add: unat_of_nat char_of_take_bit_eq flip: take_bit_eq_mod)
  then show ?thesis by (simp add: text_of_def bytes_of_def comp_def)
qed

lemma length_bytes_of [simp]: "length (bytes_of s) = length s"
  by (simp add: bytes_of_def)

section \<open>The frame of a message\<close>

definition OFPT_HELLO :: int where "OFPT_HELLO = 0"
definition OFPT_ERROR :: int where "OFPT_ERROR = 1"
definition OFPT_ECHO_REQUEST :: int where "OFPT_ECHO_REQUEST = 2"
definition OFPT_ECHO_REPLY :: int where "OFPT_ECHO_REPLY = 3"
definition OFPT_FEATURES_REQUEST :: int where "OFPT_FEATURES_REQUEST = 5"
definition OFPT_FEATURES_REPLY :: int where "OFPT_FEATURES_REPLY = 6"
definition OFPT_SET_CONFIG :: int where "OFPT_SET_CONFIG = 9"
definition OFPT_PACKET_OUT :: int where "OFPT_PACKET_OUT = 13"
definition OFPT_FLOW_MOD :: int where "OFPT_FLOW_MOD = 14"
definition OFPT_MULTIPART_REQUEST :: int where "OFPT_MULTIPART_REQUEST = 18"
definition OFPT_MULTIPART_REPLY :: int where "OFPT_MULTIPART_REPLY = 19"
definition OFPT_BARRIER_REQUEST :: int where "OFPT_BARRIER_REQUEST = 20"

definition serialize_pre :: bytes where
  "serialize_pre = replicate OFP_HEADER_SIZE 0"

definition serialize_header :: "int \<Rightarrow> int option \<Rightarrow> bytes \<Rightarrow> bytes res" where
  "serialize_header msg_type xid buf =
     (if \<not> OFP_HEADER_SIZE \<le> length buf then Inl AssertErr
      else pack_into OFP_HEADER_PACK_STR buf 0
        [VInt OFP_VERSION, VInt msg_type, VInt (int (length buf)), VInt (case xid of None \<Rightarrow> 0 | Some x \<Rightarrow> x)])"

definition msg_serialize :: "int \<Rightarrow> int option \<Rightarrow> (bytes \<Rightarrow> bytes res) \<Rightarrow> bytes res" where
  "msg_serialize msg_type xid body = rbind (body serialize_pre) (serialize_header msg_type xid)"

section \<open>Bodies\<close>

definition OFPErrorMsg_serialize_body :: "int \<Rightarrow> int \<Rightarrow> bytes \<Rightarrow> bytes \<Rightarrow> bytes res" where
  "OFPErrorMsg_serialize_body ty code data buf =
     rbind (msg_pack_into [fH, fH] buf OFP_HEADER_SIZE [VInt ty, VInt code]) (\<lambda>b. Inr (b @ data))"

definition OFPEchoReply_serialize_body :: "bytes \<Rightarrow> bytes \<Rightarrow> bytes res" where
  "OFPEchoReply_serialize_body data buf = Inr (buf @ data)"

definition OFPSetConfig_serialize_body :: "int \<Rightarrow> int \<Rightarrow> bytes \<Rightarrow> bytes res" where
  "OFPSetConfig_serialize_body flags miss_send_len buf =
     msg_pack_into [fH, fH] buf OFP_HEADER_SIZE [VInt flags, VInt miss_send_len]"

definition OFPMP_PORT_STATS :: int where "OFPMP_PORT_STATS = 4"
definition OFPMP_PORT_DESC :: int where "OFPMP_PORT_DESC = 13"
definition OFP_MULTIPART_REQUEST_SIZE :: nat where "OFP_MULTIPART_REQUEST_SIZE = 16"

definition OFPMultipartRequest_serialize_body :: "int \<Rightarrow> int \<Rightarrow> (bytes \<Rightarrow> bytes res) \<Rightarrow> bytes \<Rightarrow> bytes res" where
  "OFPMultipartRequest_serialize_body ty flags stats_body buf =
     rbind (msg_pack_into [fH, fH, FX 4] buf OFP_HEADER_SIZE [VInt ty, VInt flags]) stats_body"

definition OFPPortStatsRequest_serialize_stats_body :: "int \<Rightarrow> bytes \<Rightarrow> bytes res" where
  "OFPPortStatsRequest_serialize_stats_body port_no buf =
     msg_pack_into [fI, FX 4] buf OFP_MULTIPART_REQUEST_SIZE [VInt port_no]"

text \<open>The values of a match and of an action, as the program gives them.\<close>

definition match_field :: "oxm \<Rightarrow> user_field" where
  "match_field f =
     (case f of
        OxmInPort (PInt i) \<Rightarrow> (''in_port'', (UInt i, None))
      | OxmInPort (PStr s) \<Rightarrow> (''in_port'', (UText s, None))
      | OxmEthSrc s \<Rightarrow> (''eth_src'', (UText s, None))
      | OxmEthDst s \<Rightarrow> (''eth_dst'', (UText s, None)))"

definition output_action :: "of_action \<Rightarrow> action res" where
  "output_action a = (case a of ActionOutput (PInt port) max_len \<Rightarrow> Inr (Output port max_len)
     | ActionOutput (PStr _) _ \<Rightarrow> Inl struct_error)"

definition actions_instruction :: "of_instruction \<Rightarrow> instruction res" where
  "actions_instruction i = (case i of InstructionActions ty as \<Rightarrow> rbind (rmap output_action as) (\<lambda>as'. Inr (InstrActions ty as')))"

definition OFP_FLOW_MOD_PACK_STR0 :: format where
  "OFP_FLOW_MOD_PACK_STR0 = [fQ, fQ, fB, fB, fH, fH, fH, fI, fI, fI, fH, FX 2]"
definition OFP_FLOW_MOD_SIZE :: nat where "OFP_FLOW_MOD_SIZE = 56"
definition OFP_MATCH_SIZE :: nat where "OFP_MATCH_SIZE = 8"

definition flow_mod_fields :: "flow_mod \<Rightarrow> pyval list" where
  "flow_mod_fields m = map VInt [fm_cookie m, fm_cookie_mask m, fm_table_id m, fm_command m, fm_idle_timeout m,
     fm_hard_timeout m, fm_priority m, fm_buffer_id m, fm_out_port m, fm_out_group m, fm_flags m]"

definition put_instruction :: "addrconv \<Rightarrow> bytes \<times> nat \<Rightarrow> instruction \<Rightarrow> (bytes \<times> nat) res" where
  "put_instruction conv s i = (case s of (buf, offset) \<Rightarrow>
     rbind (instruction_serialize conv i buf offset) (\<lambda>(buf', len). Inr (buf', offset + len)))"

definition OFPFlowMod_serialize_body :: "addrconv \<Rightarrow> flow_mod \<Rightarrow> bytes \<Rightarrow> bytes res" where
  "OFPFlowMod_serialize_body conv m buf =
     rbind (OFPMatch_init conv (map match_field (fm_match m))) (\<lambda>mtch.
     rbind (rmap actions_instruction (fm_instructions m)) (\<lambda>insts.
     rbind (msg_pack_into OFP_FLOW_MOD_PACK_STR0 buf OFP_HEADER_SIZE (flow_mod_fields m)) (\<lambda>buf1.
     let offset = OFP_FLOW_MOD_SIZE - OFP_MATCH_SIZE in
     rbind (match_serialize conv mtch buf1 offset) (\<lambda>(buf2, match_len).
     rbind (rfold (put_instruction conv) (buf2, offset + match_len) insts) (\<lambda>(buf3, _). Inr buf3)))))"

section \<open>The messages the controller sends\<close>

definition of_msg_type :: "of_msg \<Rightarrow> int" where
  "of_msg_type m =
     (case m of OFPHello \<Rightarrow> OFPT_HELLO | OFPErrorMsg _ _ _ \<Rightarrow> OFPT_ERROR | OFPFeaturesRequest \<Rightarrow> OFPT_FEATURES_REQUEST
      | OFPSetConfig _ _ \<Rightarrow> OFPT_SET_CONFIG | OFPPortDescStatsRequest _ \<Rightarrow> OFPT_MULTIPART_REQUEST
      | OFPEchoReply _ \<Rightarrow> OFPT_ECHO_REPLY | OFPFlowMod _ \<Rightarrow> OFPT_FLOW_MOD | OFPPortStatsRequest _ _ \<Rightarrow> OFPT_MULTIPART_REQUEST
      | OFPBarrierRequest \<Rightarrow> OFPT_BARRIER_REQUEST)"

definition of_msg_body :: "addrconv \<Rightarrow> of_msg \<Rightarrow> bytes \<Rightarrow> bytes res" where
  "of_msg_body conv m =
     (case m of
        OFPErrorMsg ty code data \<Rightarrow> OFPErrorMsg_serialize_body ty code (bytes_of data)
      | OFPSetConfig flags len \<Rightarrow> OFPSetConfig_serialize_body flags len
      | OFPPortDescStatsRequest flags \<Rightarrow> OFPMultipartRequest_serialize_body OFPMP_PORT_DESC flags Inr
      | OFPEchoReply data \<Rightarrow> OFPEchoReply_serialize_body (bytes_of data)
      | OFPFlowMod fm \<Rightarrow> OFPFlowMod_serialize_body conv fm
      | OFPPortStatsRequest flags port \<Rightarrow> OFPMultipartRequest_serialize_body OFPMP_PORT_STATS flags
          (OFPPortStatsRequest_serialize_stats_body port)
      | _ \<Rightarrow> Inr)"

definition of_msg_serialize :: "addrconv \<Rightarrow> int \<Rightarrow> of_msg \<Rightarrow> bytes res" where
  "of_msg_serialize conv xid m = msg_serialize (of_msg_type m) (Some xid) (of_msg_body conv m)"

section \<open>Packet-out\<close>

definition OFP_PACKET_OUT_SIZE :: nat where "OFP_PACKET_OUT_SIZE = 24"
definition OFP_PACKET_OUT_PACK_STR :: format where "OFP_PACKET_OUT_PACK_STR = [fI, fI, fH, FX 6]"

definition OFPPacketOut_serialize_body :: "addrconv \<Rightarrow> int \<Rightarrow> int \<Rightarrow> action list \<Rightarrow> bytes option \<Rightarrow> bytes \<Rightarrow> bytes res" where
  "OFPPacketOut_serialize_body conv buffer_id in_port actions data buf =
     rbind (rfold (put_action conv) (buf, OFP_PACKET_OUT_SIZE) actions) (\<lambda>(buf1, offset).
     let actions_len = offset - OFP_PACKET_OUT_SIZE in
     rbind (case data of None \<Rightarrow> Inr buf1
            | Some d \<Rightarrow> if buffer_id = 0xffffffff then Inr (buf1 @ d) else Inl AssertErr) (\<lambda>buf2.
     msg_pack_into OFP_PACKET_OUT_PACK_STR buf2 OFP_HEADER_SIZE [VInt buffer_id, VInt in_port, VInt (int actions_len)]))"

section \<open>Every message is one frame\<close>

lemma header_bytes:
  assumes "in_range 1 ty" "in_range 4 xid" "8 + length w < 65536"
  shows "pack_into OFP_HEADER_PACK_STR (replicate 8 0 @ w) 0 [VInt OFP_VERSION, VInt ty, VInt (int (8 + length w)), VInt xid] =
     Inr ((be_bytes 1 OFP_VERSION @ be_bytes 1 ty @ be_bytes 2 (int (8 + length w)) @ be_bytes 4 xid) @ w)"
  using assms by (simp add: pack_into_def OFP_HEADER_PACK_STR_def in_range_def OFP_VERSION_def)

definition header_wire :: "int \<Rightarrow> int \<Rightarrow> bytes \<Rightarrow> bytes" where
  "header_wire ty xid w = be_bytes 1 OFP_VERSION @ be_bytes 1 ty @ be_bytes 2 (int (8 + length w)) @ be_bytes 4 xid"

lemma length_header_wire [simp]: "length (header_wire ty xid w) = 8"
  by (simp add: header_wire_def)

lemma be_int_version [simp]: "be_int [4] = 4"
  by (simp add: be_int_def)

lemma ofp_header_wire:
  assumes "in_range 1 ty" "in_range 4 xid" "8 + length w < 65536"
  shows "ofp_header (header_wire ty xid w @ w) =
     Inr \<lparr>h_version = OFP_VERSION, h_type = ty, h_len = int (8 + length w), h_xid = xid\<rparr>"
  using assms by (simp add: header_wire_def ofp_header_def OFP_HEADER_SIZE_def OFP_HEADER_PACK_STR_def unpack_from_def in_range_def
      OFP_VERSION_def)

lemma msg_serialize_frame:
  assumes "body (replicate 8 0) = Inr (replicate 8 0 @ w)" and "in_range 1 ty" "in_range 4 xid" "8 + length w < 65536"
  shows "msg_serialize ty (Some xid) body = Inr (header_wire ty xid w @ w)" and "is_message (header_wire ty xid w @ w)"
  using assms header_bytes [OF assms(2-4)] ofp_header_wire [OF assms(2-4)]
  by (simp_all add: msg_serialize_def serialize_pre_def serialize_header_def OFP_HEADER_SIZE_def header_wire_def is_message_def
      msg_versions_def OFP_VERSION_def)

section \<open>The body of a flow modification\<close>

text \<open>A flow modification that fits: its numbers their fields, its addresses the converter, its length the header.\<close>

definition output_ok :: "of_action \<Rightarrow> bool" where
  "output_ok a = (case a of ActionOutput (PInt port) max_len \<Rightarrow> in_range 4 port \<and> in_range 2 max_len | _ \<Rightarrow> False)"

definition actions_ok :: "of_instruction \<Rightarrow> bool" where
  "actions_ok i = (case i of InstructionActions ty as \<Rightarrow>
     (ty = OFPIT_WRITE_ACTIONS \<or> ty = OFPIT_APPLY_ACTIONS \<or> ty = OFPIT_CLEAR_ACTIONS) \<and> length as \<le> 255 \<and> (\<forall>a \<in> set as. output_ok a))"

definition instructions_bound :: "of_instruction list \<Rightarrow> nat" where
  "instructions_bound is = sum_list (map (\<lambda>i. case i of InstructionActions ty as \<Rightarrow> 8 + 255 * length as) is)"

definition flow_mod_ok :: "addrconv \<Rightarrow> flow_mod \<Rightarrow> bool" where
  "flow_mod_ok conv m \<longleftrightarrow>
     in_range 8 (fm_cookie m) \<and> in_range 8 (fm_cookie_mask m) \<and> in_range 1 (fm_table_id m) \<and> in_range 1 (fm_command m)
     \<and> in_range 2 (fm_idle_timeout m) \<and> in_range 2 (fm_hard_timeout m) \<and> in_range 2 (fm_priority m)
     \<and> in_range 4 (fm_buffer_id m) \<and> in_range 4 (fm_out_port m) \<and> in_range 4 (fm_out_group m) \<and> in_range 2 (fm_flags m)
     \<and> (\<forall>f \<in> set (fm_match m). field_canon conv (match_field f)) \<and> (\<forall>i \<in> set (fm_instructions m). actions_ok i)
     \<and> 100 + 256 * length (fm_match m) + instructions_bound (fm_instructions m) < 65536"

lemma flow_mod_fits: "flow_mod_ok conv m \<Longrightarrow> fits OFP_FLOW_MOD_PACK_STR0 (flow_mod_fields m)"
  by (simp add: flow_mod_ok_def in_range_def OFP_FLOW_MOD_PACK_STR0_def flow_mod_fields_def)

lemma field_wire_bound: "field_canon conv uf \<Longrightarrow> length (wire_of conv uf) \<le> 256"
proof -
  assume "field_canon conv uf"
  then obtain f v m where f: "field_ok f" "value_ok f v m" "wire_of conv uf = oxm_wire f v m" by (rule field_wire)
  from f(2) have "length (case m of None \<Rightarrow> [] | Some m' \<Rightarrow> m') \<le> length v" by (auto simp: value_ok_def split: option.splits)
  with field_size [OF f(1,2)] exp_hdr_length [of f] show ?thesis by (simp add: f(3) oxm_wire_def)
qed

lemma fields_wire_bound: "\<forall>uf \<in> set ufs. field_canon conv uf \<Longrightarrow> length (fields_wire conv ufs) \<le> 256 * length ufs"
  by (induction ufs) (auto simp: fields_wire_def dest: field_wire_bound)

lemma outputs_ok:
  assumes "\<forall>a \<in> set as. output_ok a"
  shows "\<exists>bs. rmap output_action as = Inr bs \<and> length bs = length as \<and> (\<forall>b \<in> set bs. action_ok conv b)"
  using assms
proof (induction as)
  case (Cons a as)
  then show ?case by (cases a) (auto simp: output_ok_def output_action_def action_ok_def split: pyatom.splits)
qed simp

lemma instructions_ok:
  assumes "\<forall>i \<in> set is. actions_ok i"
  shows "\<exists>js. rmap actions_instruction is = Inr js \<and> length js = length is \<and> (\<forall>j \<in> set js. instruction_ok conv j)
    \<and> sum_list (map instruction_size js) = instructions_bound is"
  using assms
proof (induction "is")
  case (Cons i "is")
  then obtain js where js: "rmap actions_instruction is = Inr js" "length js = length is" "\<forall>j \<in> set js. instruction_ok conv j"
    "sum_list (map instruction_size js) = instructions_bound is" by auto
  obtain ty as where i: "i = InstructionActions ty as" by (cases i)
  with Cons.prems outputs_ok [of as conv] obtain bs where "rmap output_action as = Inr bs" "length bs = length as"
    "\<forall>b \<in> set bs. action_ok conv b" by (auto simp: actions_ok_def)
  moreover from this Cons.prems i have "instruction_ok conv (InstrActions ty bs)"
    by (simp add: instruction_ok_def actions_ok_def)
  moreover from this \<open>length bs = length as\<close> have "instruction_size (InstrActions ty bs) = 8 + 255 * length as"
    by (simp add: instruction_size_def)
  moreover have "actions_instruction i = Inr (InstrActions ty bs)"
    using i \<open>rmap output_action as = Inr bs\<close> by (simp add: actions_instruction_def)
  ultimately show ?case using js i
    by (intro exI [of _ "InstrActions ty bs # js"]) (simp add: instructions_bound_def)
qed (simp add: instructions_bound_def)

definition instructions_wire :: "addrconv \<Rightarrow> instruction list \<Rightarrow> bytes" where
  "instructions_wire conv js = concat (map (instruction_wire conv) js)"

lemma put_instructions_end:
  "\<forall>j \<in> set js. instruction_ok conv j \<Longrightarrow> rfold (put_instruction conv) (buf, length buf) js =
     Inr (buf @ instructions_wire conv js, length (buf @ instructions_wire conv js))"
proof (induction js arbitrary: buf)
  case (Cons j js)
  with instruction_end [of conv j buf] Cons.IH [of "buf @ instruction_wire conv j"] show ?case
    by (simp add: put_instruction_def instructions_wire_def)
qed (simp add: instructions_wire_def)

lemma instructions_wire_bound:
  "\<forall>j \<in> set js. instruction_ok conv j \<Longrightarrow> length (instructions_wire conv js) \<le> sum_list (map instruction_size js)"
proof (induction js)
  case (Cons j js)
  then have "length (instruction_wire conv j) \<le> instruction_size j"
    using instruction_end [of conv j "[]"] by simp
  with Cons show ?case by (simp add: instructions_wire_def)
qed (simp add: instructions_wire_def)

text \<open>Reading some instructions one after the other, as a switch does.\<close>

fun read_instructions :: "addrconv \<Rightarrow> bytes \<Rightarrow> nat \<Rightarrow> nat \<Rightarrow> instruction list option" where
  "read_instructions conv buf offset 0 = Some []"
| "read_instructions conv buf offset (Suc n) =
     (case OFPInstruction_parser conv buf offset of
        Some (Inr (i, len)) \<Rightarrow> map_option (Cons i) (read_instructions conv buf (offset + nat len) n)
      | _ \<Rightarrow> None)"

lemma read_instructions_wire:
  "\<forall>j \<in> set js. instruction_ok conv j \<Longrightarrow>
     read_instructions conv (buf @ instructions_wire conv js @ post) (length buf) (length js) = Some js"
proof (induction js arbitrary: buf)
  case (Cons j js)
  with instruction_end [of conv j buf] Cons.IH [of "buf @ instruction_wire conv j"] show ?case
    by (simp add: instructions_wire_def)
qed simp

lemma flow_mod_body_end:
  assumes ok: "flow_mod_ok conv m"
  shows "\<exists>F ufs js. OFPFlowMod_serialize_body conv m (replicate 8 0) =
      Inr (replicate 8 0 @ F @ match_wire conv ufs @ instructions_wire conv js)
    \<and> struct_pack OFP_FLOW_MOD_PACK_STR0 (flow_mod_fields m) = Inr F \<and> length F = 40
    \<and> mset ufs = mset (map match_field (fm_match m)) \<and> (\<forall>uf \<in> set ufs. field_canon conv uf)
    \<and> rmap actions_instruction (fm_instructions m) = Inr js \<and> (\<forall>j \<in> set js. instruction_ok conv j)
    \<and> 4 + length (fields_wire conv ufs) < 65536
    \<and> 48 + length (match_wire conv ufs) + length (instructions_wire conv js) < 65536"
proof -
  from pack_unpack [OF flow_mod_fits [OF ok]] obtain F where
    F: "struct_pack OFP_FLOW_MOD_PACK_STR0 (flow_mod_fields m) = Inr F" "length F = 40"
    by (auto simp: OFP_FLOW_MOD_PACK_STR0_def)
  have "\<forall>uf \<in> set (map match_field (fm_match m)). field_canon conv uf \<and> snd (snd uf) = None"
    using ok by (auto simp: flow_mod_ok_def match_field_def split: oxm.splits pyatom.splits)
  from OFPMatch_init_canon [OF this] obtain ufs where
    ufs: "OFPMatch_init conv (map match_field (fm_match m)) = Inr ufs" "mset ufs = mset (map match_field (fm_match m))" by blast
  have lu: "length ufs = length (fm_match m)" using ufs(2) by (metis length_map size_mset)
  have cu: "\<forall>uf \<in> set ufs. field_canon conv uf"
    using ok mset_eq_setD [OF ufs(2)] by (auto simp: flow_mod_ok_def)
  from ok have "\<forall>i \<in> set (fm_instructions m). actions_ok i" by (simp add: flow_mod_ok_def)
  from instructions_ok [OF this] obtain js where js: "rmap actions_instruction (fm_instructions m) = Inr js"
    "\<forall>j \<in> set js. instruction_ok conv j" "sum_list (map instruction_size js) = instructions_bound (fm_instructions m)" by blast
  have room: "100 + 256 * length ufs + instructions_bound (fm_instructions m) < 65536" using ok lu by (simp add: flow_mod_ok_def)
  have b1: "4 + length (fields_wire conv ufs) < 65536" using fields_wire_bound [OF cu] room by linarith
  have b2: "48 + length (match_wire conv ufs) + length (instructions_wire conv js) < 65536"
    using fields_wire_bound [OF cu] instructions_wire_bound [OF js(2)] room js(3) round_up_8(3) [of "4 + length (fields_wire conv ufs)"]
    unfolding match_wire_length by linarith
  let ?b = "replicate 8 0 @ F"
  have "match_serialize conv ufs ?b 48 = Inr (?b @ match_wire conv ufs, length (match_wire conv ufs))"
    using match_serialize_end [OF cu b1, of ?b] F(2) by simp
  moreover have "rfold (put_instruction conv) (?b @ match_wire conv ufs, 48 + length (match_wire conv ufs)) js =
      Inr ((?b @ match_wire conv ufs) @ instructions_wire conv js, length ((?b @ match_wire conv ufs) @ instructions_wire conv js))"
    using put_instructions_end [OF js(2), of "?b @ match_wire conv ufs"] F(2) by simp
  ultimately have "OFPFlowMod_serialize_body conv m (replicate 8 0) =
      Inr (replicate 8 0 @ F @ match_wire conv ufs @ instructions_wire conv js)"
    using F ufs(1) js(1)
    by (simp add: OFPFlowMod_serialize_body_def msg_pack_into_end OFP_HEADER_SIZE_def OFP_FLOW_MOD_SIZE_def OFP_MATCH_SIZE_def)
  with F ufs(2) cu js(1,2) b1 b2 show ?thesis by blast
qed

section \<open>Reading a flow modification back\<close>

text \<open>C35: a flow modification that fits is one message of the connection: header, fixed fields, match, instructions.
  Read back at the offsets of the protocol it has the same fields, the same match fields (in the order of the wire) and
  the same instructions, and its header counts its bytes.\<close>

theorem flow_mod_readable:
  assumes "flow_mod_ok conv m" and "in_range 4 xid"
  shows "\<exists>w ufs len. of_msg_serialize conv xid (OFPFlowMod m) = Inr w
    \<and> ofp_header w = Inr \<lparr>h_version = 4, h_type = 14, h_len = int (length w), h_xid = xid\<rparr>
    \<and> unpack_from OFP_FLOW_MOD_PACK_STR0 w 8 = Inr (flow_mod_fields m)
    \<and> match_parser conv w 48 = Inr (OFPMT_OXM, int len, ufs) \<and> mset ufs = mset (map match_field (fm_match m))
    \<and> (\<exists>js. rmap actions_instruction (fm_instructions m) = Inr js
        \<and> read_instructions conv w (48 + round_up len 8) (length (fm_instructions m)) = Some js)"
proof -
  from flow_mod_body_end [OF assms(1)] obtain F ufs js where
    b: "OFPFlowMod_serialize_body conv m (replicate 8 0) = Inr (replicate 8 0 @ F @ match_wire conv ufs @ instructions_wire conv js)"
    and F: "struct_pack OFP_FLOW_MOD_PACK_STR0 (flow_mod_fields m) = Inr F" "length F = 40"
    and ufs: "mset ufs = mset (map match_field (fm_match m))" "\<forall>uf \<in> set ufs. field_canon conv uf" "4 + length (fields_wire conv ufs) < 65536"
    and js: "rmap actions_instruction (fm_instructions m) = Inr js" "\<forall>j \<in> set js. instruction_ok conv j"
    and small: "48 + length (match_wire conv ufs) + length (instructions_wire conv js) < 65536" by blast
  let ?v = "F @ match_wire conv ufs @ instructions_wire conv js"
  let ?h = "header_wire OFPT_FLOW_MOD xid ?v"
  have r: "in_range 1 OFPT_FLOW_MOD" "8 + length ?v < 65536" using small F(2) by (simp_all add: in_range_def OFPT_FLOW_MOD_def)
  have ser: "of_msg_serialize conv xid (OFPFlowMod m) = Inr (?h @ ?v)"
    using msg_serialize_frame(1) [OF _ r(1) assms(2) r(2)] b by (simp add: of_msg_serialize_def of_msg_type_def of_msg_body_def)
  have hd: "ofp_header (?h @ ?v) = Inr \<lparr>h_version = 4, h_type = 14, h_len = int (length (?h @ ?v)), h_xid = xid\<rparr>"
    using ofp_header_wire [OF r(1) assms(2) r(2)] by (simp add: OFP_VERSION_def OFPT_FLOW_MOD_def)
  have fields: "unpack_from OFP_FLOW_MOD_PACK_STR0 (?h @ ?v) 8 = Inr (flow_mod_fields m)"
    by (rule unpack_from_at [OF _ F(1) flow_mod_fits [OF assms(1)]]) simp
  have mtch: "match_parser conv (?h @ ?v) 48 = Inr (OFPMT_OXM, int (4 + length (fields_wire conv ufs)), ufs)"
    using match_parser_wire [OF ufs(2,3), of "?h @ F" "instructions_wire conv js"] F(2) by simp
  have "read_instructions conv ((?h @ F @ match_wire conv ufs) @ instructions_wire conv js @ [])
      (length (?h @ F @ match_wire conv ufs)) (length js) = Some js"
    by (rule read_instructions_wire [OF js(2)])
  moreover have "length (?h @ F @ match_wire conv ufs) = 48 + round_up (4 + length (fields_wire conv ufs)) 8"
    using F(2) by (simp add: match_wire_length)
  moreover have "length js = length (fm_instructions m)"
    using js(1) by (simp add: rmap_eq_Inr_iff list_all2_lengthD)
  ultimately have "read_instructions conv (?h @ ?v) (48 + round_up (4 + length (fields_wire conv ufs)) 8)
      (length (fm_instructions m)) = Some js" by simp
  with js(1) have insts: "rmap actions_instruction (fm_instructions m) = Inr js"
    "read_instructions conv (?h @ ?v) (48 + round_up (4 + length (fields_wire conv ufs)) 8) (length (fm_instructions m)) = Some js"
    by simp_all
  show ?thesis by (intro exI conjI) (rule ser, rule hd, rule fields, rule mtch, rule ufs(1), rule insts(1), rule insts(2))
qed

text \<open>The flow entry that the controller installs for a host behind port 3, on the data center's addresses.\<close>

definition demo_flow :: flow_mod where
  "demo_flow = flow_mod_default\<lparr>fm_match := [OxmInPort (PInt 3), OxmEthDst ''00:00:00:00:00:01''],
     fm_instructions := [InstructionActions OFPIT_APPLY_ACTIONS [OFPActionOutput (PInt 1), OFPActionOutput (PInt OFPP_FLOOD)]]\<rparr>"

lemma demo_flow_ok: "flow_mod_ok demo_conv demo_flow"
proof -
  have "\<forall>f \<in> set (fm_match demo_flow). field_canon demo_conv (match_field f)"
    using demo_fields_canon by (simp add: demo_flow_def demo_fields_def match_field_def)
  then show ?thesis
    by (simp add: flow_mod_ok_def demo_flow_def flow_mod_default_def in_range_def actions_ok_def output_ok_def OFPActionOutput_def
        OFPCML_MAX_def OFPFC_ADD_def OFP_DEFAULT_PRIORITY_def OFP_NO_BUFFER_def OFPP_FLOOD_def instructions_bound_def)
qed

theorem flow_mod_readable_demo:
  "\<exists>w ufs len. of_msg_serialize demo_conv 7 (OFPFlowMod demo_flow) = Inr w
    \<and> ofp_header w = Inr \<lparr>h_version = 4, h_type = 14, h_len = int (length w), h_xid = 7\<rparr>
    \<and> unpack_from OFP_FLOW_MOD_PACK_STR0 w 8 = Inr (flow_mod_fields demo_flow)
    \<and> match_parser demo_conv w 48 = Inr (OFPMT_OXM, int len, ufs) \<and> mset ufs = mset (map match_field (fm_match demo_flow))
    \<and> (\<exists>js. rmap actions_instruction (fm_instructions demo_flow) = Inr js
        \<and> read_instructions demo_conv w (48 + round_up len 8) (length (fm_instructions demo_flow)) = Some js)"
  by (rule flow_mod_readable [OF demo_flow_ok]) (simp add: in_range_def)

section \<open>Everything the controller sends\<close>

definition msg_ok :: "addrconv \<Rightarrow> of_msg \<Rightarrow> bool" where
  "msg_ok conv m =
     (case m of
        OFPErrorMsg ty code data \<Rightarrow> in_range 2 ty \<and> in_range 2 code \<and> length data < 65500
      | OFPSetConfig flags len \<Rightarrow> in_range 2 flags \<and> in_range 2 len
      | OFPPortDescStatsRequest flags \<Rightarrow> in_range 2 flags
      | OFPEchoReply data \<Rightarrow> length data < 65500
      | OFPFlowMod fm \<Rightarrow> flow_mod_ok conv fm
      | OFPPortStatsRequest flags port \<Rightarrow> in_range 2 flags \<and> in_range 4 port
      | _ \<Rightarrow> True)"

lemma of_msg_type_range: "in_range 1 (of_msg_type m)"
  by (simp add: in_range_def of_msg_type_def OFPT_HELLO_def OFPT_ERROR_def OFPT_FEATURES_REQUEST_def OFPT_SET_CONFIG_def
      OFPT_MULTIPART_REQUEST_def OFPT_ECHO_REPLY_def OFPT_FLOW_MOD_def OFPT_BARRIER_REQUEST_def split: of_msg.split)

lemma of_msg_body_end:
  assumes "msg_ok conv m"
  shows "\<exists>w. of_msg_body conv m (replicate 8 0) = Inr (replicate 8 0 @ w) \<and> 8 + length w < 65536"
proof (cases m)
  case (OFPFlowMod fm)
  with assms have "flow_mod_ok conv fm" by (simp add: msg_ok_def)
  from flow_mod_body_end [OF this] OFPFlowMod show ?thesis by (fastforce simp: of_msg_body_def)
qed (use assms in \<open>simp_all add: msg_ok_def in_range_def of_msg_body_def OFPErrorMsg_serialize_body_def OFPSetConfig_serialize_body_def
    OFPMultipartRequest_serialize_body_def OFPEchoReply_serialize_body_def OFPPortStatsRequest_serialize_stats_body_def
    OFP_HEADER_SIZE_def OFP_MULTIPART_REQUEST_SIZE_def OFPMP_PORT_DESC_def OFPMP_PORT_STATS_def msg_pack_into_end\<close>)

lemma of_msg_frame:
  assumes "msg_ok conv m" "in_range 4 xid"
  shows "\<exists>w. of_msg_serialize conv xid m = Inr w \<and> is_message w \<and>
    ofp_header w = Inr \<lparr>h_version = OFP_VERSION, h_type = of_msg_type m, h_len = int (length w), h_xid = xid\<rparr>"
proof -
  from of_msg_body_end [OF assms(1)] obtain w where w: "of_msg_body conv m (replicate 8 0) = Inr (replicate 8 0 @ w)"
    "8 + length w < 65536" by blast
  note f = msg_serialize_frame [where body = "of_msg_body conv m" and w = w, OF w(1) of_msg_type_range assms(2) w(2)]
  from ofp_header_wire [OF of_msg_type_range assms(2) w(2)] f show ?thesis
    by (intro exI [of _ "header_wire (of_msg_type m) xid w @ w"]) (simp add: of_msg_serialize_def)
qed

text \<open>What a kind of message owes for a stream of them to be understood: each is one message of the connection.\<close>

locale message_kind =
  fixes ty :: "'m \<Rightarrow> int" and ser :: "int \<Rightarrow> 'm \<Rightarrow> bytes res" and ok :: "'m \<Rightarrow> bool"
  assumes frame: "ok m \<Longrightarrow> in_range 4 xid \<Longrightarrow> \<exists>w. ser xid m = Inr w \<and> is_message w \<and>
    ofp_header w = Inr \<lparr>h_version = OFP_VERSION, h_type = ty m, h_len = int (length w), h_xid = xid\<rparr>"
begin

lemma sent_received:
  assumes "\<forall>(xid, m) \<in> set sent. in_range 4 xid \<and> ok m"
    and "rmap (\<lambda>(xid, m). ser xid m) sent = Inr ws"
    and "[] \<notin> set chunks" and "concat chunks = concat ws"
  shows "\<exists>fs req. recv_loop chunks [] 8 = Some (fs, Inr ([], req)) \<and> map (snd \<circ> frame_msg) fs = ws
    \<and> map (\<lambda>f. (h_xid (fst f), h_type (fst f), h_version (fst f))) fs = map (\<lambda>(xid, m). (xid, ty m, OFP_VERSION)) sent"
proof -
  define g where "g = (\<lambda>(xid, m). case ser xid m of Inr w \<Rightarrow> w | Inl _ \<Rightarrow> [])"
  have ser: "(case s of (xid, m) \<Rightarrow> ser xid m) = Inr (g s)" "is_message (g s)"
    "headed (g s) = (\<lparr>h_version = OFP_VERSION, h_type = ty (snd s), h_len = int (length (g s)), h_xid = fst s\<rparr>, g s)"
    if "s \<in> set sent" for s
  proof -
    from assms(1) that have "ok (snd s)" "in_range 4 (fst s)" by auto
    from frame [OF this] show "(case s of (xid, m) \<Rightarrow> ser xid m) = Inr (g s)" "is_message (g s)"
      "headed (g s) = (\<lparr>h_version = OFP_VERSION, h_type = ty (snd s), h_len = int (length (g s)), h_xid = fst s\<rparr>, g s)"
      by (auto simp: g_def headed_def split_def)
  qed
  have ws: "ws = map g sent" using rmap_Inr [of sent _ g, OF ser(1)] assms(2) by simp
  have "\<forall>m \<in> set ws. is_message m" using ser(2) by (auto simp: ws)
  moreover have "incomplete []" by (simp add: incomplete_def)
  ultimately obtain fs req where fs: "recv_loop chunks [] 8 = Some (fs, Inr ([], req))" "map frame_msg fs = map headed ws"
    using recv_messages [of ws "[]" chunks] assms(3,4) by auto
  have "map (\<lambda>f. (h_xid (fst f), h_type (fst f), h_version (fst f))) fs =
      map (\<lambda>p. (h_xid (fst p), h_type (fst p), h_version (fst p))) (map frame_msg fs)"
    by (simp add: frame_msg_def comp_def)
  also have "\<dots> = map (\<lambda>(xid, m). (xid, ty m, OFP_VERSION)) sent"
    unfolding fs(2) ws using ser(3) by (simp add: split_def)
  finally have heads: "map (\<lambda>f. (h_xid (fst f), h_type (fst f), h_version (fst f))) fs =
      map (\<lambda>(xid, m). (xid, ty m, OFP_VERSION)) sent" .
  have "map snd (map headed ws) = ws" by (auto simp: headed_def intro!: map_idI split: sum.split)
  moreover have "map (snd \<circ> frame_msg) fs = map snd (map headed ws)" by (simp only: map_map flip: fs(2))
  ultimately have msgs: "map (snd \<circ> frame_msg) fs = ws" by (simp only:)
  show ?thesis by (intro exI conjI) (rule fs(1), rule msgs, rule heads)
qed

end

interpretation sent: message_kind of_msg_type "of_msg_serialize conv" "msg_ok conv"
  by unfold_locales (rule of_msg_frame)

text \<open>The bytes of the messages that a connection sends, in the order of sending and cut by the network in any way,
  come out of the receive loop of a peer as the same messages: one frame for each, with its number, its type and
  version 1.3, and nothing is left in the buffer.\<close>

theorem sent_is_received:
  assumes "\<forall>(xid, m) \<in> set sent. in_range 4 xid \<and> msg_ok conv m"
    and "rmap (\<lambda>(xid, m). of_msg_serialize conv xid m) sent = Inr ws"
    and "[] \<notin> set chunks" and "concat chunks = concat ws"
  shows "\<exists>fs req. recv_loop chunks [] 8 = Some (fs, Inr ([], req)) \<and> map (snd \<circ> frame_msg) fs = ws
    \<and> map (\<lambda>f. (h_xid (fst f), h_type (fst f), h_version (fst f))) fs = map (\<lambda>(xid, m). (xid, of_msg_type m, OFP_VERSION)) sent"
  using assms by (rule sent.sent_received)

definition demo_sent :: "(int \<times> of_msg) list" where
  "demo_sent = [(1, OFPHello), (2, OFPSetConfig OFPC_FRAG_NORMAL 128), (3, OFPFlowMod demo_flow)]"

definition demo_wire :: "bytes list" where
  "demo_wire = (case rmap (\<lambda>(xid, m). of_msg_serialize demo_conv xid m) demo_sent of Inr ws \<Rightarrow> ws | Inl _ \<Rightarrow> [])"

theorem sent_is_received_demo:
  "\<exists>fs req. recv_loop [concat demo_wire] [] 8 = Some (fs, Inr ([], req)) \<and> map (snd \<circ> frame_msg) fs = demo_wire
    \<and> map (\<lambda>f. (h_xid (fst f), h_type (fst f), h_version (fst f))) fs = [(1, 0, 4), (2, 9, 4), (3, 14, 4)]"
proof -
  have ok: "\<forall>(xid, m) \<in> set demo_sent. in_range 4 xid \<and> msg_ok demo_conv m"
    using demo_flow_ok by (simp add: demo_sent_def in_range_def msg_ok_def OFPC_FRAG_NORMAL_def)
  have ws: "rmap (\<lambda>(xid, m). of_msg_serialize demo_conv xid m) demo_sent = Inr demo_wire" and "concat demo_wire \<noteq> []"
    by code_simp+
  with sent_is_received [OF ok ws, of "[concat demo_wire]"] show ?thesis
    by (simp add: demo_sent_def of_msg_type_def OFP_VERSION_def OFPT_HELLO_def OFPT_SET_CONFIG_def OFPT_FLOW_MOD_def)
qed

section \<open>Packet-out\<close>

text \<open>A packet-out message with actions holds its three numbers, its actions and its data, in this order. Without
  actions the data is appended before the numbers are written, and the numbers overwrite its first sixteen bytes.\<close>

theorem packet_out:
  assumes "in_range 4 in_port" and "\<forall>a \<in> set actions. action_ok conv a" and "length actions \<le> 200"
  shows "OFPPacketOut_serialize_body conv 0xffffffff in_port actions (Some data) (replicate 8 0) =
    Inr (replicate 8 0 @ be_bytes 4 0xffffffff @ be_bytes 4 in_port @ be_bytes 2 (int (length (actions_wire conv actions)))
         @ replicate 6 0 @ (if actions = [] then drop 16 data else actions_wire conv actions @ data))"
proof -
  let ?b = "replicate 8 (0 :: 8 word)"
  let ?aw = "actions_wire conv actions"
  have l: "length ?aw \<le> 51000" using actions_wire_length [OF assms(2)] assms(3) by simp
  have p: "struct_pack OFP_PACKET_OUT_PACK_STR [VInt 0xffffffff, VInt in_port, VInt (int (length ?aw))] =
      Inr (be_bytes 4 0xffffffff @ be_bytes 4 in_port @ be_bytes 2 (int (length ?aw)) @ replicate 6 0)"
    using assms(1) l by (simp add: OFP_PACKET_OUT_PACK_STR_def in_range_def)
  have c: "calcsize OFP_PACKET_OUT_PACK_STR = 16" by (simp add: OFP_PACKET_OUT_PACK_STR_def)
  show ?thesis
  proof (cases "actions = []")
    case True
    have "msg_pack_into OFP_PACKET_OUT_PACK_STR (?b @ data) 8 args =
        rbind (struct_pack OFP_PACKET_OUT_PACK_STR args) (\<lambda>bs. Inr (?b @ bs @ drop 16 data))" for args
    proof (cases "data = []")
      case True
      then show ?thesis by (simp add: msg_pack_into_end)
    next
      case False
      then show ?thesis by (simp add: msg_pack_into_def Let_def pack_into_def c)
    qed
    with True p show ?thesis
      by (simp add: OFPPacketOut_serialize_body_def OFP_HEADER_SIZE_def OFP_PACKET_OUT_SIZE_def actions_wire_def)
  next
    case False
    have "rfold (put_action conv) (?b, 24) actions = Inr ((?b @ replicate 16 0) @ ?aw, 24 + length ?aw)"
      using put_actions_gap [OF False, of conv ?b 16] put_actions_end [OF assms(2), of "?b @ replicate 16 0"] by simp
    moreover have "msg_pack_into OFP_PACKET_OUT_PACK_STR (?b @ replicate 16 0 @ ?aw @ data) 8 args =
        rbind (struct_pack OFP_PACKET_OUT_PACK_STR args) (\<lambda>bs. Inr (?b @ bs @ ?aw @ data))" for args
      by (rule msg_pack_into_over) (simp_all add: c)
    ultimately show ?thesis using False p
      by (simp add: OFPPacketOut_serialize_body_def OFP_HEADER_SIZE_def OFP_PACKET_OUT_SIZE_def)
  qed
qed

theorem packet_out_demo:
  "OFPPacketOut_serialize_body demo_conv 0xffffffff 1 [] (Some (replicate 14 9 @ [1, 2, 3, 4])) (replicate 8 0) =
    Inr (replicate 8 0 @ be_bytes 4 0xffffffff @ be_bytes 4 1 @ be_bytes 2 0 @ replicate 6 0 @ [3, 4])"
  using packet_out [of 1 "[]" demo_conv "replicate 14 9 @ [1, 2, 3, 4]"] by (simp add: in_range_def actions_wire_def)

end
