(* ===== verification/OFEntries.thy ===== *)
theory OFEntries
  imports OFMessage
begin

text \<open>
  Lists of structures inside a message. The classes of \<^verbatim>\<open>ofproto_v1_3_parser.py\<close> read such a list with a loop that
  counts the declared length of each structure, and write it with a loop that moves an offset. The loop is defined
  once, and so is what a class owes for the list to be read as it was written.
\<close>

section \<open>Names\<close>

definition rstrip_nul :: "string \<Rightarrow> string" where
  "rstrip_nul s = rev (dropWhile (\<lambda>c. c = CHR 0x00) (rev s))"

lemma rstrip_nul_padded: "rstrip_nul (s @ replicate k (CHR 0x00)) = rstrip_nul s"
proof -
  have "dropWhile (\<lambda>c. c = CHR 0x00) (replicate k (CHR 0x00) @ xs) = dropWhile (\<lambda>c. c = CHR 0x00) xs" for xs
    by (induction k) simp_all
  then show ?thesis by (simp add: rstrip_nul_def)
qed

text \<open>A text written into a field of fixed size and padded with zero bytes.\<close>

lemma padded_text:
  "rstrip_nul s = s \<Longrightarrow> rstrip_nul (text_of (bytes_of s @ replicate k 0)) = s"
proof -
  assume s: "rstrip_nul s = s"
  have "(char_of (0 :: nat) :: char) = CHR 0x00" by (simp add: char_of_def)
  then have "text_of (replicate k 0) = replicate k (CHR 0x00)" by (simp add: text_of_def)
  moreover have "text_of (bytes_of s @ replicate k 0) = text_of (bytes_of s) @ text_of (replicate k 0)" by (simp add: text_of_def)
  ultimately have "text_of (bytes_of s @ replicate k 0) = s @ replicate k (CHR 0x00)" by simp
  with s show ?thesis by (simp add: rstrip_nul_padded)
qed

lemma dropWhile_idem: "dropWhile P (dropWhile P xs) = dropWhile P xs"
  by (induction xs) auto

lemma rstrip_nul_ok: "rstrip_nul (rstrip_nul s) = rstrip_nul s" "length (rstrip_nul s) \<le> length s"
  by (simp_all add: rstrip_nul_def dropWhile_idem length_dropWhile_le [of _ "rev s", simplified])

section \<open>The loop\<close>

text \<open>\<open>left\<close> bytes are left. A structure that says it is empty is read for ever.\<close>

partial_function (option) parse_entries :: "(bytes \<Rightarrow> nat \<Rightarrow> ('a \<times> int) res option) \<Rightarrow> bytes \<Rightarrow> nat \<Rightarrow> int \<Rightarrow> 'a list res option" where
  "parse_entries parse buf offset left =
     (if \<not> left > 0 then Some (Inr [])
      else Option.bind (parse buf offset) (\<lambda>r. case r of
          Inl e \<Rightarrow> Some (Inl e)
        | Inr xl \<Rightarrow> Option.bind (parse_entries parse buf (nat (int offset + snd xl)) (left - snd xl))
            (\<lambda>r. Some (rbind r (\<lambda>xs. Inr (fst xl # xs))))))"

lemma parse_entries_end: "left \<le> 0 \<Longrightarrow> parse_entries parse buf offset left = Some (Inr [])"
  by (subst parse_entries.simps) simp

lemma parse_entries_step:
  "0 < left \<Longrightarrow> parse buf offset = Some (Inr (x, len)) \<Longrightarrow> parse_entries parse buf offset left =
     map_option (\<lambda>r. rbind r (\<lambda>xs. Inr (x # xs))) (parse_entries parse buf (nat (int offset + len)) (left - len))"
  by (subst parse_entries.simps) (simp add: map_option_case Option.bind_eq_Some_conv split: option.split)

lemma parse_entries_error:
  "0 < left \<Longrightarrow> parse buf offset = Some (Inl e) \<Longrightarrow> parse_entries parse buf offset left = Some (Inl e)"
  by (subst parse_entries.simps) simp

text \<open>The loop ends when every structure is read in finite time and says that it is not empty.\<close>

lemma parse_entries_returns:
  assumes "\<And>offset. parse buf offset \<noteq> None" and "\<And>offset x len. parse buf offset = Some (Inr (x, len)) \<Longrightarrow> 0 < len"
  shows "parse_entries parse buf offset left \<noteq> None"
proof (induction "nat left" arbitrary: offset left rule: less_induct)
  case less
  show ?case
  proof (cases "0 < left")
    case True
    from assms(1) [of offset] obtain r where r: "parse buf offset = Some r" by blast
    show ?thesis
    proof (cases r)
      case (Inl e)
      with r True show ?thesis by (simp add: parse_entries_error)
    next
      case (Inr xl)
      then have r: "parse buf offset = Some (Inr (fst xl, snd xl))" using r by simp
      from assms(2) [OF this] True have "nat (left - snd xl) < nat left" by simp
      from less [OF this, of "nat (int offset + snd xl)"] show ?thesis
        by (simp add: parse_entries_step [of _ parse, OF True r])
    qed
  qed (simp add: parse_entries_end)
qed

lemma parse_entries_progress:
  assumes "parse_entries parse buf offset left = Some r"
  shows "parse buf offset = Some (Inr (x, 0)) \<longrightarrow> \<not> 0 < left"
proof (rule parse_entries.raw_induct [where P = "\<lambda>parse buf offset left r. parse buf offset = Some (Inr (x, 0)) \<longrightarrow> \<not> 0 < left", OF _ assms])
  fix rec :: "(bytes \<Rightarrow> nat \<Rightarrow> ('a \<times> int) res option) \<Rightarrow> bytes \<Rightarrow> nat \<Rightarrow> int \<Rightarrow> 'a list res option"
    and parse buf offset left r
  assume IH: "\<And>parse buf offset left r. rec parse buf offset left = Some r \<Longrightarrow> parse buf offset = Some (Inr (x, 0)) \<longrightarrow> \<not> 0 < left"
    and body: "(if \<not> 0 < left then Some (Inr [])
      else Option.bind (parse buf offset) (\<lambda>r. case r of Inl e \<Rightarrow> Some (Inl e)
        | Inr xl \<Rightarrow> Option.bind (rec parse buf (nat (int offset + snd xl)) (left - snd xl))
            (\<lambda>r. Some (rbind r (\<lambda>xs. Inr (fst xl # xs)))))) = Some r"
  show "parse buf offset = Some (Inr (x, 0)) \<longrightarrow> \<not> 0 < left"
  proof (intro impI notI)
    assume p: "parse buf offset = Some (Inr (x, 0))" and left: "0 < left"
    have "Option.bind (rec parse buf offset left) (\<lambda>r. Some (rbind r (\<lambda>xs. Inr (x # xs)))) = Some r"
      using body [unfolded p] left by simp
    then have "rec parse buf offset left \<noteq> None" by (cases "rec parse buf offset left") simp_all
    then obtain r' where "rec parse buf offset left = Some r'" by blast
    from mp [OF IH [OF this] p] left show False by (rule notE)
  qed
qed

lemma parse_entries_stuck:
  assumes "parse buf offset = Some (Inr (x, 0))" and "0 < left"
  shows "parse_entries parse buf offset left = None"
proof (rule ccontr)
  assume "parse_entries parse buf offset left \<noteq> None"
  then obtain r where "parse_entries parse buf offset left = Some r" by blast
  from mp [OF parse_entries_progress [OF this] assms(1)] assms(2) show False by (rule notE)
qed

section \<open>What a class owes\<close>

text \<open>The bytes of an entry are read back as the entry, wherever they stand.\<close>

locale wire_entry =
  fixes parse :: "bytes \<Rightarrow> nat \<Rightarrow> ('a \<times> int) res option"
    and wire :: "'a \<Rightarrow> bytes"
    and ok :: "'a \<Rightarrow> bool"
  assumes parse_wire: "ok x \<Longrightarrow> parse (pre @ wire x @ post) (length pre) = Some (Inr (x, int (length (wire x))))"
    and wire_nonempty: "ok x \<Longrightarrow> wire x \<noteq> []"
begin

lemma entries_all:
  "\<forall>x \<in> set xs. ok x \<Longrightarrow> parse_entries parse (pre @ concat (map wire xs) @ post) (length pre) (int (length (concat (map wire xs)))) = Some (Inr xs)"
proof (induction xs arbitrary: pre)
  case Nil
  show ?case by (simp add: parse_entries_end)
next
  case (Cons x xs)
  then have "ok x" by simp
  note x = parse_wire [OF this, of pre "concat (map wire xs) @ post"] wire_nonempty [OF this]
  have "nat (int (length pre) + int (length (wire x))) = length (pre @ wire x)" by (simp add: nat_int_add)
  moreover have "int (length (concat (map wire (x # xs)))) - int (length (wire x)) = int (length (concat (map wire xs)))" by simp
  moreover have "0 < int (length (concat (map wire (x # xs))))" using x(2) by (cases "wire x") simp_all
  ultimately show ?case using Cons.IH [of "pre @ wire x"] Cons.prems x(1)
    by (subst parse_entries_step [where x = x]) (simp_all only: list.map concat.simps append_assoc, simp_all)
qed

lemma entries_at:
  assumes "\<forall>x \<in> set xs. ok x" and "length pre = offset" and "left = int (length (concat (map wire xs)))"
  shows "parse_entries parse (pre @ concat (map wire xs) @ post) offset left = Some (Inr xs)"
  using entries_all [OF assms(1), of pre post] assms(2,3) by simp

end

text \<open>It is also written at the end of the buffer.\<close>

locale codec = wire_entry parse wire ok
  for parse :: "bytes \<Rightarrow> nat \<Rightarrow> ('a \<times> int) res option" and wire :: "'a \<Rightarrow> bytes" and ok :: "'a \<Rightarrow> bool" +
  fixes put :: "bytes \<times> nat \<Rightarrow> 'a \<Rightarrow> (bytes \<times> nat) res"
  assumes put_wire: "ok x \<Longrightarrow> put (buf, length buf) x = Inr (buf @ wire x, length (buf @ wire x))"
begin

lemma put_all:
  "\<forall>x \<in> set xs. ok x \<Longrightarrow> rfold put (buf, length buf) xs =
     Inr (buf @ concat (map wire xs), length (buf @ concat (map wire xs)))"
proof (induction xs arbitrary: buf)
  case (Cons x xs)
  then show ?case using put_wire [of x buf] Cons.IH [of "buf @ wire x"] by simp
qed simp

text \<open>What is written is read back.\<close>

lemma written_is_read:
  assumes "\<forall>x \<in> set xs. ok x"
  obtains w where "rfold put (buf, length buf) xs = Inr (buf @ w, length (buf @ w))"
    "\<And>pre post. parse_entries parse (pre @ w @ post) (length pre) (int (length w)) = Some (Inr xs)"
  using put_all [OF assms] entries_all [OF assms] that by blast

end

text \<open>The actions of a list are such entries.\<close>

definition parse_action :: "addrconv \<Rightarrow> bytes \<Rightarrow> nat \<Rightarrow> (action \<times> int) res option" where
  "parse_action conv buf offset = Some (OFPAction_parser conv buf offset)"

interpretation acts: codec "parse_action conv" "action_wire conv" "action_ok conv" "put_action conv"
proof
  fix a pre post buf assume a: "action_ok conv a"
  note r = action_roundtrip [OF a]
  show "parse_action conv (pre @ action_wire conv a @ post) (length pre) = Some (Inr (a, int (length (action_wire conv a))))"
    using r [of pre] by (simp add: parse_action_def)
  show "action_wire conv a \<noteq> []" using r [of "[]"] by auto
  show "put_action conv (buf, length buf) a = Inr (buf @ action_wire conv a, length (buf @ action_wire conv a))"
    using r [of buf] by (simp add: put_action_def)
qed

interpretation insts: codec "OFPInstruction_parser conv" "instruction_wire conv" "instruction_ok conv" "put_instruction conv"
proof
  fix i pre post buf assume i: "instruction_ok conv i"
  note r = instruction_end [OF i]
  show "OFPInstruction_parser conv (pre @ instruction_wire conv i @ post) (length pre) =
      Some (Inr (i, int (length (instruction_wire conv i))))"
    using r [of pre] by simp
  show "instruction_wire conv i \<noteq> []" using r [of "[]"] by auto
  show "put_instruction conv (buf, length buf) i = Inr (buf @ instruction_wire conv i, length (buf @ instruction_wire conv i))"
    using r [of buf] by (simp add: put_instruction_def)
qed

end
