(* ===== verification/OFGroup.thy ===== *)
theory OFGroup
  imports OFEntries
begin

text \<open>
  Groups and meters of \<^verbatim>\<open>ofproto_v1_3_parser.py\<close>: the buckets of a group and the bands of a meter, which the controller
  writes in a modification and a switch sends back in a description, and the modifications of groups, meters, ports
  and tables.
\<close>

section \<open>Buckets\<close>

record bucket =
  b_weight :: int
  b_watch_port :: int
  b_watch_group :: int
  b_actions :: "action list"

definition OFP_BUCKET_PACK_STR :: format where "OFP_BUCKET_PACK_STR = [fH, fH, fI, fI, FX 4]"
definition OFP_BUCKET_SIZE :: nat where "OFP_BUCKET_SIZE = 16"

definition OFPBucket_parser :: "addrconv \<Rightarrow> bytes \<Rightarrow> nat \<Rightarrow> (bucket \<times> int) res option" where
  "OFPBucket_parser conv buf offset =
     (case unpack_ints OFP_BUCKET_PACK_STR buf offset of
        Inl e \<Rightarrow> Some (Inl e)
      | Inr [len, weight, watch_port, watch_group] \<Rightarrow>
          map_option (\<lambda>r. rbind r (\<lambda>actions. Inr (\<lparr>b_weight = weight, b_watch_port = watch_port, b_watch_group = watch_group,
            b_actions = actions\<rparr>, len)))
            (parse_entries (parse_action conv) buf (offset + OFP_BUCKET_SIZE) (len - int OFP_BUCKET_SIZE))
      | Inr _ \<Rightarrow> Some (Inl ValueErr))"

text \<open>The length is rounded up, but nothing is written for the padding.\<close>

definition OFPBucket_serialize :: "addrconv \<Rightarrow> bucket \<Rightarrow> bytes \<Rightarrow> nat \<Rightarrow> (bytes \<times> nat) res" where
  "OFPBucket_serialize conv b buf offset =
     rbind (rfold (put_action conv) (buf, offset + OFP_BUCKET_SIZE) (b_actions b)) (\<lambda>(buf1, action_offset).
     let action_len = action_offset - (offset + OFP_BUCKET_SIZE);
         len = round_up (OFP_BUCKET_SIZE + action_len) 8 in
     rbind (msg_pack_into OFP_BUCKET_PACK_STR buf1 offset
       [VInt (int len), VInt (b_weight b), VInt (b_watch_port b), VInt (b_watch_group b)]) (\<lambda>buf2. Inr (buf2, len)))"

definition put_bucket :: "addrconv \<Rightarrow> bytes \<times> nat \<Rightarrow> bucket \<Rightarrow> (bytes \<times> nat) res" where
  "put_bucket conv s b = (case s of (buf, offset) \<Rightarrow>
     rbind (OFPBucket_serialize conv b buf offset) (\<lambda>(buf', len). Inr (buf', offset + len)))"

definition bucket_ok :: "addrconv \<Rightarrow> bucket \<Rightarrow> bool" where
  "bucket_ok conv b \<longleftrightarrow> in_range 2 (b_weight b) \<and> in_range 4 (b_watch_port b) \<and> in_range 4 (b_watch_group b)
     \<and> length (b_actions b) \<le> 255 \<and> (\<forall>a \<in> set (b_actions b). action_ok conv a)"

definition bucket_wire :: "addrconv \<Rightarrow> bucket \<Rightarrow> bytes" where
  "bucket_wire conv b = be_bytes 2 (int (16 + length (actions_wire conv (b_actions b)))) @ be_bytes 2 (b_weight b)
     @ be_bytes 4 (b_watch_port b) @ be_bytes 4 (b_watch_group b) @ replicate 4 0 @ actions_wire conv (b_actions b)"

lemma length_bucket_wire [simp]: "length (bucket_wire conv b) = 16 + length (actions_wire conv (b_actions b))"
  by (simp add: bucket_wire_def)

lemma bucket_head:
  assumes "bucket_ok conv b"
  defines "n \<equiv> length (actions_wire conv (b_actions b))"
  shows "in_range 2 (int (16 + n))" and "round_up (16 + n) 8 = 16 + n"
proof -
  have "n mod 8 = 0" "n \<le> 65025"
    using assms(1) actions_wire_length [of "b_actions b" conv] by (auto simp: n_def bucket_ok_def)
  then show "in_range 2 (int (16 + n))" and "round_up (16 + n) 8 = 16 + n"
    by (auto simp: in_range_def round_up_def elim!: dvdE simp flip: dvd_eq_mod_eq_0)
qed

lemma bucket_parser_wire:
  assumes b: "bucket_ok conv b"
  shows "OFPBucket_parser conv (pre @ bucket_wire conv b @ post) (length pre) = Some (Inr (b, int (length (bucket_wire conv b))))"
proof -
  let ?w = "actions_wire conv (b_actions b)"
  have u: "unpack_ints OFP_BUCKET_PACK_STR (pre @ bucket_wire conv b @ post) (length pre) =
      Inr [16 + int (length ?w), b_weight b, b_watch_port b, b_watch_group b]"
    using b bucket_head(1) [OF b]
    by (simp add: unpack_ints_def unpack_from_def ints_of_def OFP_BUCKET_PACK_STR_def bucket_wire_def bucket_ok_def in_range_def)
  have "parse_entries (parse_action conv) (pre @ bucket_wire conv b @ post) (length pre + 16) (int (length ?w)) = Some (Inr (b_actions b))"
    using b acts.entries_at [of "b_actions b" conv "pre @ take 16 (bucket_wire conv b)" "length pre + 16" "int (length ?w)" post]
    by (simp add: bucket_ok_def bucket_wire_def actions_wire_def)
  with u show ?thesis by (simp add: OFPBucket_parser_def OFP_BUCKET_SIZE_def)
qed

lemma bucket_serialize_wire:
  assumes b: "bucket_ok conv b"
  shows "OFPBucket_serialize conv b buf (length buf) = Inr (buf @ bucket_wire conv b, length (bucket_wire conv b))"
proof -
  let ?w = "actions_wire conv (b_actions b)" and ?b = "buf @ replicate 16 (0 :: 8 word)"
  have ok: "\<forall>a \<in> set (b_actions b). action_ok conv a" using b by (simp add: bucket_ok_def)
  let ?args = "[VInt (int (16 + length ?w)), VInt (b_weight b), VInt (b_watch_port b), VInt (b_watch_group b)]"
  have p: "struct_pack OFP_BUCKET_PACK_STR ?args = Inr (be_bytes 2 (int (16 + length ?w)) @ be_bytes 2 (b_weight b)
     @ be_bytes 4 (b_watch_port b) @ be_bytes 4 (b_watch_group b) @ replicate 4 0)"
    using b bucket_head(1) [OF b] by (simp add: OFP_BUCKET_PACK_STR_def bucket_ok_def in_range_def)
  show ?thesis
  proof (cases "b_actions b = []")
    case True
    with p show ?thesis
      by (simp add: OFPBucket_serialize_def OFP_BUCKET_SIZE_def actions_wire_def bucket_wire_def msg_pack_into_end round_up_def)
  next
    case False
    have f: "rfold (put_action conv) (buf, length buf + 16) (b_actions b) = Inr (?b @ ?w, length buf + 16 + length ?w)"
      using put_actions_gap [OF False, of conv buf 16] put_actions_end [OF ok, of ?b] by simp
    have "msg_pack_into OFP_BUCKET_PACK_STR (buf @ replicate 16 0 @ ?w) (length buf) ?args =
        rbind (struct_pack OFP_BUCKET_PACK_STR ?args) (\<lambda>bs. Inr (buf @ bs @ ?w))"
      by (rule msg_pack_into_over) (simp_all add: OFP_BUCKET_PACK_STR_def)
    with f p bucket_head(2) [OF b] show ?thesis
      by (simp add: OFPBucket_serialize_def OFP_BUCKET_SIZE_def bucket_wire_def Let_def)
  qed
qed

interpretation buckets: codec "OFPBucket_parser conv" "bucket_wire conv" "bucket_ok conv" "put_bucket conv"
proof
  fix b pre post buf assume b: "bucket_ok conv b"
  show "OFPBucket_parser conv (pre @ bucket_wire conv b @ post) (length pre) = Some (Inr (b, int (length (bucket_wire conv b))))"
    by (rule bucket_parser_wire [OF b])
  show "bucket_wire conv b \<noteq> []" by (simp add: bucket_wire_def flip: length_greater_0_conv)
  show "put_bucket conv (buf, length buf) b = Inr (buf @ bucket_wire conv b, length (buf @ bucket_wire conv b))"
    using bucket_serialize_wire [OF b, of buf] by (simp add: put_bucket_def)
qed

section \<open>Meter bands\<close>

datatype meter_band = BandDrop int int | BandDscpRemark int int int | BandExperimenter int int int

definition OFPMBT_DROP :: int where "OFPMBT_DROP = 1"
definition OFPMBT_DSCP_REMARK :: int where "OFPMBT_DSCP_REMARK = 2"
definition OFPMBT_EXPERIMENTER :: int where "OFPMBT_EXPERIMENTER = 0xffff"
definition OFP_METER_BAND_HEADER_PACK_STR :: format where "OFP_METER_BAND_HEADER_PACK_STR = [fH, fH, fI, fI]"
definition OFP_METER_BAND_DROP_PACK_STR :: format where "OFP_METER_BAND_DROP_PACK_STR = [fH, fH, fI, fI, FX 4]"
definition OFP_METER_BAND_DSCP_REMARK_PACK_STR :: format where "OFP_METER_BAND_DSCP_REMARK_PACK_STR = [fH, fH, fI, fI, fB, FX 3]"
definition OFP_METER_BAND_EXPERIMENTER_PACK_STR :: format where "OFP_METER_BAND_EXPERIMENTER_PACK_STR = [fH, fH, fI, fI, fI]"
definition cls_meter_band_len :: int where "cls_meter_band_len = 16"

lemmas band_consts = OFPMBT_DROP_def OFPMBT_DSCP_REMARK_def OFPMBT_EXPERIMENTER_def OFP_METER_BAND_HEADER_PACK_STR_def
  OFP_METER_BAND_DROP_PACK_STR_def OFP_METER_BAND_DSCP_REMARK_PACK_STR_def OFP_METER_BAND_EXPERIMENTER_PACK_STR_def
  cls_meter_band_len_def

definition OFPMeterBandDrop_parser :: "bytes \<Rightarrow> nat \<Rightarrow> meter_band res" where
  "OFPMeterBandDrop_parser buf offset =
     rbind (unpack_ints OFP_METER_BAND_DROP_PACK_STR buf offset) (\<lambda>vs. case vs of
       [ty, len, rate, burst_size] \<Rightarrow>
         if ty = OFPMBT_DROP \<and> len = cls_meter_band_len then Inr (BandDrop rate burst_size) else Inl AssertErr
     | _ \<Rightarrow> Inl ValueErr)"

definition OFPMeterBandDscpRemark_parser :: "bytes \<Rightarrow> nat \<Rightarrow> meter_band res" where
  "OFPMeterBandDscpRemark_parser buf offset =
     rbind (unpack_ints OFP_METER_BAND_DSCP_REMARK_PACK_STR buf offset) (\<lambda>vs. case vs of
       [ty, len, rate, burst_size, prec_level] \<Rightarrow>
         if ty = OFPMBT_DSCP_REMARK \<and> len = cls_meter_band_len then Inr (BandDscpRemark rate burst_size prec_level)
         else Inl AssertErr
     | _ \<Rightarrow> Inl ValueErr)"

definition OFPMeterBandExperimenter_parser :: "bytes \<Rightarrow> nat \<Rightarrow> meter_band res" where
  "OFPMeterBandExperimenter_parser buf offset =
     rbind (unpack_ints OFP_METER_BAND_EXPERIMENTER_PACK_STR buf offset) (\<lambda>vs. case vs of
       [ty, len, rate, burst_size, experimenter] \<Rightarrow>
         if ty = OFPMBT_EXPERIMENTER \<and> len = cls_meter_band_len then Inr (BandExperimenter rate burst_size experimenter)
         else Inl AssertErr
     | _ \<Rightarrow> Inl ValueErr)"

definition OFPMeterBandHeader_parser :: "bytes \<Rightarrow> nat \<Rightarrow> (meter_band \<times> int) res" where
  "OFPMeterBandHeader_parser buf offset =
     rbind (unpack_ints OFP_METER_BAND_HEADER_PACK_STR buf offset) (\<lambda>vs. case vs of
       [ty, len, _, _] \<Rightarrow>
         rbind (if ty = OFPMBT_DROP then Inr OFPMeterBandDrop_parser
                else if ty = OFPMBT_DSCP_REMARK then Inr OFPMeterBandDscpRemark_parser
                else if ty = OFPMBT_EXPERIMENTER then Inr OFPMeterBandExperimenter_parser
                else Inl KeyErr) (\<lambda>cls_parser.
         if cls_meter_band_len \<noteq> len then Inl AssertErr
         else rbind (cls_parser buf offset) (\<lambda>band. Inr (band, cls_meter_band_len)))
     | _ \<Rightarrow> Inl ValueErr)"

definition meter_band_serialize :: "meter_band \<Rightarrow> bytes \<Rightarrow> nat \<Rightarrow> bytes res" where
  "meter_band_serialize band buf offset =
     (case band of
        BandDrop rate burst_size \<Rightarrow>
          msg_pack_into OFP_METER_BAND_DROP_PACK_STR buf offset
            [VInt OFPMBT_DROP, VInt cls_meter_band_len, VInt rate, VInt burst_size]
      | BandDscpRemark rate burst_size prec_level \<Rightarrow>
          msg_pack_into OFP_METER_BAND_DSCP_REMARK_PACK_STR buf offset
            [VInt OFPMBT_DSCP_REMARK, VInt cls_meter_band_len, VInt rate, VInt burst_size, VInt prec_level]
      | BandExperimenter rate burst_size experimenter \<Rightarrow>
          msg_pack_into OFP_METER_BAND_EXPERIMENTER_PACK_STR buf offset
            [VInt OFPMBT_EXPERIMENTER, VInt cls_meter_band_len, VInt rate, VInt burst_size, VInt experimenter])"

definition put_band :: "bytes \<times> nat \<Rightarrow> meter_band \<Rightarrow> (bytes \<times> nat) res" where
  "put_band s band = (case s of (buf, offset) \<Rightarrow>
     rbind (meter_band_serialize band buf offset) (\<lambda>buf'. Inr (buf', offset + nat cls_meter_band_len)))"

definition band_ok :: "meter_band \<Rightarrow> bool" where
  "band_ok band =
     (case band of
        BandDrop rate burst_size \<Rightarrow> in_range 4 rate \<and> in_range 4 burst_size
      | BandDscpRemark rate burst_size prec_level \<Rightarrow> in_range 4 rate \<and> in_range 4 burst_size \<and> in_range 1 prec_level
      | BandExperimenter rate burst_size experimenter \<Rightarrow> in_range 4 rate \<and> in_range 4 burst_size \<and> in_range 4 experimenter)"

definition band_wire :: "meter_band \<Rightarrow> bytes" where
  "band_wire band = (case meter_band_serialize band [] 0 of Inl _ \<Rightarrow> [] | Inr b \<Rightarrow> b)"

lemma band_roundtrip:
  assumes "band_ok band"
  shows "meter_band_serialize band buf (length buf) = Inr (buf @ band_wire band)" and "length (band_wire band) = 16"
    and "OFPMeterBandHeader_parser (pre @ band_wire band @ post) (length pre) = Inr (band, 16)"
  using assms
  by (cases band; simp add: band_ok_def in_range_def band_wire_def meter_band_serialize_def band_consts msg_pack_into_end
      OFPMeterBandHeader_parser_def OFPMeterBandDrop_parser_def OFPMeterBandDscpRemark_parser_def
      OFPMeterBandExperimenter_parser_def unpack_ints_def unpack_from_def ints_of_def)+

definition parse_band :: "bytes \<Rightarrow> nat \<Rightarrow> (meter_band \<times> int) res option" where
  "parse_band buf offset = Some (OFPMeterBandHeader_parser buf offset)"

interpretation bands: codec parse_band band_wire band_ok put_band
proof
  fix band pre post buf assume b: "band_ok band"
  show "parse_band (pre @ band_wire band @ post) (length pre) = Some (Inr (band, int (length (band_wire band))))"
    using band_roundtrip [OF b] by (simp add: parse_band_def)
  show "band_wire band \<noteq> []" using band_roundtrip(2) [OF b] by auto
  show "put_band (buf, length buf) band = Inr (buf @ band_wire band, length (buf @ band_wire band))"
    using band_roundtrip(1,2) [OF b] by (simp add: put_band_def cls_meter_band_len_def)
qed

section \<open>Modifications\<close>

definition OFPT_GROUP_MOD :: int where "OFPT_GROUP_MOD = 15"
definition OFPT_PORT_MOD :: int where "OFPT_PORT_MOD = 16"
definition OFPT_TABLE_MOD :: int where "OFPT_TABLE_MOD = 17"
definition OFPT_METER_MOD :: int where "OFPT_METER_MOD = 29"
definition OFP_GROUP_MOD_PACK_STR :: format where "OFP_GROUP_MOD_PACK_STR = [fH, fB, FX 1, fI]"
definition OFP_GROUP_MOD_SIZE :: nat where "OFP_GROUP_MOD_SIZE = 16"
definition OFP_METER_MOD_PACK_STR :: format where "OFP_METER_MOD_PACK_STR = [fH, fH, fI]"
definition OFP_METER_MOD_SIZE :: nat where "OFP_METER_MOD_SIZE = 16"
definition OFP_PORT_MOD_PACK_STR :: format where "OFP_PORT_MOD_PACK_STR = [fI, FX 4, FS 6, FX 2, fI, fI, fI, FX 4]"
definition OFP_TABLE_MOD_PACK_STR :: format where "OFP_TABLE_MOD_PACK_STR = [fB, FX 3, fI]"

definition OFPGroupMod_serialize_body :: "addrconv \<Rightarrow> int \<Rightarrow> int \<Rightarrow> int \<Rightarrow> bucket list \<Rightarrow> bytes \<Rightarrow> bytes res" where
  "OFPGroupMod_serialize_body conv command ty group_id buckets buf =
     rbind (msg_pack_into OFP_GROUP_MOD_PACK_STR buf OFP_HEADER_SIZE [VInt command, VInt ty, VInt group_id]) (\<lambda>buf1.
     rbind (rfold (put_bucket conv) (buf1, OFP_GROUP_MOD_SIZE) buckets) (\<lambda>(buf2, _). Inr buf2))"

definition OFPMeterMod_serialize_body :: "int \<Rightarrow> int \<Rightarrow> int \<Rightarrow> meter_band list \<Rightarrow> bytes \<Rightarrow> bytes res" where
  "OFPMeterMod_serialize_body command flags meter_id bands buf =
     rbind (msg_pack_into OFP_METER_MOD_PACK_STR buf OFP_HEADER_SIZE [VInt command, VInt flags, VInt meter_id]) (\<lambda>buf1.
     rbind (rfold put_band (buf1, OFP_METER_MOD_SIZE) bands) (\<lambda>(buf2, _). Inr buf2))"

definition OFPPortMod_serialize_body :: "addrconv \<Rightarrow> int \<Rightarrow> string \<Rightarrow> int \<Rightarrow> int \<Rightarrow> int \<Rightarrow> bytes \<Rightarrow> bytes res" where
  "OFPPortMod_serialize_body conv port_no hw_addr config msk advertise buf =
     rbind (text_to_bin conv 6 hw_addr) (\<lambda>hw.
     msg_pack_into OFP_PORT_MOD_PACK_STR buf OFP_HEADER_SIZE
       [VInt port_no, VStr hw, VInt config, VInt msk, VInt advertise])"

definition OFPTableMod_serialize_body :: "int \<Rightarrow> int \<Rightarrow> bytes \<Rightarrow> bytes res" where
  "OFPTableMod_serialize_body table_id config buf =
     msg_pack_into OFP_TABLE_MOD_PACK_STR buf OFP_HEADER_SIZE [VInt table_id, VInt config]"

definition buckets_wire :: "addrconv \<Rightarrow> bucket list \<Rightarrow> bytes" where
  "buckets_wire conv bs = concat (map (bucket_wire conv) bs)"

definition bands_wire :: "meter_band list \<Rightarrow> bytes" where
  "bands_wire bs = concat (map band_wire bs)"

lemma group_mod_end:
  assumes "in_range 2 command" "in_range 1 ty" "in_range 4 group_id" and "\<forall>b \<in> set bs. bucket_ok conv b"
  shows "OFPGroupMod_serialize_body conv command ty group_id bs (replicate 8 0) =
    Inr (replicate 8 0 @ (be_bytes 2 command @ be_bytes 1 ty @ [0] @ be_bytes 4 group_id) @ buckets_wire conv bs)"
proof -
  let ?b = "replicate 8 0 @ (be_bytes 2 command @ be_bytes 1 ty @ [0] @ be_bytes 4 group_id)"
  have "length ?b = 16" by simp
  then have "rfold (put_bucket conv) (?b, 16) bs = Inr (?b @ buckets_wire conv bs, length (?b @ buckets_wire conv bs))"
    using buckets.put_all [OF assms(4), of ?b] by (simp add: buckets_wire_def)
  then show ?thesis using assms(1-3)
    by (simp add: OFPGroupMod_serialize_body_def OFP_GROUP_MOD_SIZE_def OFP_HEADER_SIZE_def OFP_GROUP_MOD_PACK_STR_def
        msg_pack_into_end in_range_def)
qed

lemma meter_mod_end:
  assumes "in_range 2 command" "in_range 2 flags" "in_range 4 meter_id" and "\<forall>b \<in> set bs. band_ok b"
  shows "OFPMeterMod_serialize_body command flags meter_id bs (replicate 8 0) =
    Inr (replicate 8 0 @ (be_bytes 2 command @ be_bytes 2 flags @ be_bytes 4 meter_id) @ bands_wire bs)"
proof -
  let ?b = "replicate 8 0 @ (be_bytes 2 command @ be_bytes 2 flags @ be_bytes 4 meter_id)"
  have "length ?b = 16" by simp
  then have "rfold put_band (?b, 16) bs = Inr (?b @ bands_wire bs, length (?b @ bands_wire bs))"
    using bands.put_all [OF assms(4), of ?b] by (simp add: bands_wire_def)
  then show ?thesis using assms(1-3)
    by (simp add: OFPMeterMod_serialize_body_def OFP_METER_MOD_SIZE_def OFP_HEADER_SIZE_def OFP_METER_MOD_PACK_STR_def
        msg_pack_into_end in_range_def)
qed

text \<open>A bucket whose last action is short: its length is rounded up, its bytes are not.\<close>

lemma short_bucket:
  "\<exists>w. OFPBucket_serialize conv \<lparr>b_weight = 0, b_watch_port = 0, b_watch_group = 0, b_actions = [ActionExperimenter 1 [1, 2, 3, 4]]\<rparr> [] 0
     = Inr (w, 32) \<and> length w = 28"
  by (simp add: OFPBucket_serialize_def put_action_def action_serialize_def OFPActionExperimenterUnknown_serialize_def
      OFPActionExperimenter_serialize_def action_consts OFP_BUCKET_SIZE_def OFP_BUCKET_PACK_STR_def msg_pack_into_def pack_into_def
      Let_def round_up_def)

end
