(* ===== verification/OFTable.thy ===== *)
theory OFTable
  imports OFEntries
begin

unbundle bit_operations_syntax

text \<open>
  Table features of \<^verbatim>\<open>ofproto_v1_3_parser.py\<close>: what a switch says that its flow tables can do, and what a controller
  may ask of them. These classes work on slices: a parser returns what it read and the rest of the string.
\<close>

section \<open>The loop over a string\<close>

text \<open>\<^verbatim>\<open>while rest\<close>: a parser that consumes nothing is called for ever.\<close>

partial_function (option) parse_rest :: "(bytes \<Rightarrow> ('a \<times> bytes) res option) \<Rightarrow> bytes \<Rightarrow> 'a list res option" where
  "parse_rest parse rest =
     (if rest = [] then Some (Inr [])
      else Option.bind (parse rest) (\<lambda>r. case r of
          Inl e \<Rightarrow> Some (Inl e)
        | Inr xr \<Rightarrow> Option.bind (parse_rest parse (snd xr)) (\<lambda>r. Some (rbind r (\<lambda>xs. Inr (fst xr # xs))))))"

lemma parse_rest_Nil [simp]: "parse_rest parse [] = Some (Inr [])"
  by (subst parse_rest.simps) simp

lemma parse_rest_step:
  "rest \<noteq> [] \<Longrightarrow> parse rest = Some (Inr (x, rest')) \<Longrightarrow>
     parse_rest parse rest = map_option (\<lambda>r. rbind r (\<lambda>xs. Inr (x # xs))) (parse_rest parse rest')"
  by (subst parse_rest.simps) (simp add: map_option_case Option.bind_eq_Some_conv split: option.split)

lemma parse_rest_progress:
  assumes "parse_rest parse rest = Some r"
  shows "parse rest = Some (Inr (x, rest)) \<longrightarrow> rest = []"
proof (rule parse_rest.raw_induct [where P = "\<lambda>parse rest r. parse rest = Some (Inr (x, rest)) \<longrightarrow> rest = []", OF _ assms])
  fix rec :: "(bytes \<Rightarrow> ('a \<times> bytes) res option) \<Rightarrow> bytes \<Rightarrow> 'a list res option" and parse rest r
  assume IH: "\<And>parse rest r. rec parse rest = Some r \<Longrightarrow> parse rest = Some (Inr (x, rest)) \<longrightarrow> rest = []"
    and body: "(if rest = [] then Some (Inr [])
      else Option.bind (parse rest) (\<lambda>r. case r of Inl e \<Rightarrow> Some (Inl e)
        | Inr xr \<Rightarrow> Option.bind (rec parse (snd xr)) (\<lambda>r. Some (rbind r (\<lambda>xs. Inr (fst xr # xs)))))) = Some r"
  show "parse rest = Some (Inr (x, rest)) \<longrightarrow> rest = []"
  proof (rule impI, rule ccontr)
    assume p: "parse rest = Some (Inr (x, rest))" and ne: "rest \<noteq> []"
    have "Option.bind (rec parse rest) (\<lambda>r. Some (rbind r (\<lambda>xs. Inr (x # xs)))) = Some r"
      using body [unfolded p] ne by simp
    then have "rec parse rest \<noteq> None" by (cases "rec parse rest") simp_all
    then obtain r' where "rec parse rest = Some r'" by blast
    from mp [OF IH [OF this] p] ne show False by (rule notE [rotated])
  qed
qed

lemma parse_rest_stuck:
  assumes "parse rest = Some (Inr (x, rest))" and "rest \<noteq> []"
  shows "parse_rest parse rest = None"
proof (rule ccontr)
  assume "parse_rest parse rest \<noteq> None"
  then obtain r where "parse_rest parse rest = Some r" by blast
  from mp [OF parse_rest_progress [OF this] assms(1)] assms(2) show False by (rule notE [rotated])
qed

text \<open>What a class owes for a list to be read back: its bytes, followed by anything, give it and what follows.\<close>

locale wire_prefix =
  fixes parse :: "bytes \<Rightarrow> ('a \<times> bytes) res option" and wire :: "'a \<Rightarrow> bytes" and ok :: "'a \<Rightarrow> bool"
  assumes parse_prefix: "ok x \<Longrightarrow> parse (wire x @ post) = Some (Inr (x, post))"
    and wire_prefix_nonempty: "ok x \<Longrightarrow> wire x \<noteq> []"
begin

lemma rest_all: "\<forall>x \<in> set xs. ok x \<Longrightarrow> parse_rest parse (concat (map wire xs)) = Some (Inr xs)"
proof (induction xs)
  case (Cons x xs)
  then have "ok x" by simp
  from parse_prefix [OF this, of "concat (map wire xs)"] wire_prefix_nonempty [OF this] Cons show ?case
    by (subst parse_rest_step [where x = x and rest' = "concat (map wire xs)"]) simp_all
qed simp

end

section \<open>Identifiers\<close>

text \<open>The identifier of an instruction or an action: its type and its length.\<close>

definition HH :: format where "HH = [fH, fH]"

definition OFPInstructionId_parse :: "bytes \<Rightarrow> ((int \<times> int) \<times> bytes) res" where
  "OFPInstructionId_parse buf = rbind (unpack2 HH buf 0) (\<lambda>(ty, len). Inr ((ty, len), drop (nat len) buf))"

definition OFPInstructionId_serialize :: "int \<times> int \<Rightarrow> bytes res" where
  "OFPInstructionId_serialize i = msg_pack_into HH [] 0 [VInt (fst i), VInt (int (calcsize HH))]"

definition OFPActionId_parse :: "bytes \<Rightarrow> ((int \<times> int) \<times> bytes) res" where
  "OFPActionId_parse buf = rbind (unpack2 HH buf 0) (\<lambda>(ty, len). Inr ((ty, len), drop (nat len) buf))"

definition OFPActionId_serialize :: "int \<times> int \<Rightarrow> bytes res" where
  "OFPActionId_serialize i = msg_pack_into HH [] 0 [VInt (fst i), VInt (int (calcsize HH))]"

text \<open>The identifier of a match field, with the experimenter's number for a field of one.\<close>

record oxm_id =
  oi_type :: string
  oi_exp_id :: "int option"
  oi_hasmask :: int
  oi_length :: int

definition OFPOxmId_parse :: "bytes \<Rightarrow> (oxm_id \<times> bytes) res" where
  "OFPOxmId_parse buf =
     rbind (unpack1 [fI] buf 0) (\<lambda>oxm.
     rbind (get_field_info_by_number (Num (drop_bit 9 oxm))) (\<lambda>(ty, _).
     let rest = drop 4 buf;
         hasmask = oxm_tlv_header_extract_hasmask oxm;
         len = oxm AND 0xff;
         oxm_class = drop_bit 16 oxm in
     if oxm_class = OFPXMC_EXPERIMENTER then
       rbind (unpack1 [fI] rest 0) (\<lambda>exp_id.
       Inr (\<lparr>oi_type = ty, oi_exp_id = Some exp_id, oi_hasmask = hasmask, oi_length = len\<rparr>, drop 4 rest))
     else Inr (\<lparr>oi_type = ty, oi_exp_id = None, oi_hasmask = hasmask, oi_length = len\<rparr>, rest)))"

definition OFPOxmId_serialize :: "oxm_id \<Rightarrow> bytes res" where
  "OFPOxmId_serialize i =
     rbind (get_field_info_by_name (oi_type i)) (\<lambda>(num, _). case num of
       ExpNum _ _ \<Rightarrow> Inl TypeErr
     | Num n \<Rightarrow>
         rbind (msg_pack_into [fI] [] 0 [VInt (push_bit 9 n OR push_bit 8 (oi_hasmask i) OR 0)]) (\<lambda>buf.
         if drop_bit 7 n = OFPXMC_EXPERIMENTER then Inl AssertErr else Inr buf))"

text \<open>\<^verbatim>\<open>OFPExperimenterOxmId.serialize\<close> returns nothing, and \<^verbatim>\<open>bin_ids += None\<close> is a \<^verbatim>\<open>TypeError\<close>.\<close>

definition OFPExperimenterOxmId_serialize :: "oxm_id \<Rightarrow> int \<Rightarrow> bytes res" where
  "OFPExperimenterOxmId_serialize i exp_id =
     rbind (OFPOxmId_serialize i) (\<lambda>buf.
     rbind (msg_pack_into [fI] buf (calcsize [fI]) [VInt exp_id]) (\<lambda>_. Inl TypeErr))"

definition oxm_id_serialize :: "oxm_id \<Rightarrow> bytes res" where
  "oxm_id_serialize i = (case oi_exp_id i of None \<Rightarrow> OFPOxmId_serialize i | Some e \<Rightarrow> OFPExperimenterOxmId_serialize i e)"

section \<open>Properties\<close>

datatype table_prop =
    PropInstructions int "(int \<times> int) list"
  | PropNextTables int "int list"
  | PropActions int "(int \<times> int) list"
  | PropOxm int "oxm_id list"
  | PropExperimenter int int int "int list"
  | PropUnknown int bytes

definition prop_type :: "table_prop \<Rightarrow> int" where
  "prop_type p = (case p of PropInstructions ty _ \<Rightarrow> ty | PropNextTables ty _ \<Rightarrow> ty | PropActions ty _ \<Rightarrow> ty
     | PropOxm ty _ \<Rightarrow> ty | PropExperimenter ty _ _ _ \<Rightarrow> ty | PropUnknown ty _ \<Rightarrow> ty)"

definition concat_res :: "('a \<Rightarrow> bytes res) \<Rightarrow> 'a list \<Rightarrow> bytes res" where
  "concat_res f xs = rbind (rmap f xs) (\<lambda>bs. Inr (concat bs))"

definition OFPTableFeaturePropInstructions_parse_prop :: "int \<Rightarrow> bytes \<Rightarrow> table_prop res option" where
  "OFPTableFeaturePropInstructions_parse_prop ty buf =
     map_option (\<lambda>r. rbind r (\<lambda>ids. Inr (PropInstructions ty ids))) (parse_rest (\<lambda>b. Some (OFPInstructionId_parse b)) buf)"

definition OFPTableFeaturePropInstructions_serialize_prop :: "(int \<times> int) list \<Rightarrow> bytes res" where
  "OFPTableFeaturePropInstructions_serialize_prop = concat_res OFPInstructionId_serialize"

definition table_id_parse :: "bytes \<Rightarrow> (int \<times> bytes) res" where
  "table_id_parse rest = rbind (unpack1 [fB] rest 0) (\<lambda>i. Inr (i, drop 1 rest))"

definition OFPTableFeaturePropNextTables_parse_prop :: "int \<Rightarrow> bytes \<Rightarrow> table_prop res option" where
  "OFPTableFeaturePropNextTables_parse_prop ty buf =
     map_option (\<lambda>r. rbind r (\<lambda>ids. Inr (PropNextTables ty ids))) (parse_rest (\<lambda>b. Some (table_id_parse b)) buf)"

definition OFPTableFeaturePropNextTables_serialize_prop :: "int list \<Rightarrow> bytes res" where
  "OFPTableFeaturePropNextTables_serialize_prop = concat_res (\<lambda>i. msg_pack_into [fB] [] 0 [VInt i])"

definition OFPTableFeaturePropActions_parse_prop :: "int \<Rightarrow> bytes \<Rightarrow> table_prop res option" where
  "OFPTableFeaturePropActions_parse_prop ty buf =
     map_option (\<lambda>r. rbind r (\<lambda>ids. Inr (PropActions ty ids))) (parse_rest (\<lambda>b. Some (OFPActionId_parse b)) buf)"

definition OFPTableFeaturePropActions_serialize_prop :: "(int \<times> int) list \<Rightarrow> bytes res" where
  "OFPTableFeaturePropActions_serialize_prop = concat_res OFPActionId_serialize"

definition OFPTableFeaturePropOxm_parse_prop :: "int \<Rightarrow> bytes \<Rightarrow> table_prop res option" where
  "OFPTableFeaturePropOxm_parse_prop ty buf =
     map_option (\<lambda>r. rbind r (\<lambda>ids. Inr (PropOxm ty ids))) (parse_rest (\<lambda>b. Some (OFPOxmId_parse b)) buf)"

definition OFPTableFeaturePropOxm_serialize_prop :: "oxm_id list \<Rightarrow> bytes res" where
  "OFPTableFeaturePropOxm_serialize_prop = concat_res oxm_id_serialize"

text \<open>The words that follow the two numbers: \<^verbatim>\<open>while offset < length\<close>.\<close>

function data_words :: "bytes \<Rightarrow> nat \<Rightarrow> int list res" where
  "data_words buf offset =
     (if \<not> offset < length buf then Inr []
      else rbind (unpack1 [fI] buf offset) (\<lambda>w. rbind (data_words buf (offset + 4)) (\<lambda>ws. Inr (w # ws))))"
  by pat_completeness auto
termination
  by (relation "measure (\<lambda>(buf, offset). length buf - offset)") auto

declare data_words.simps [simp del]

definition OFPTableFeaturePropExperimenter_parse_prop :: "int \<Rightarrow> bytes \<Rightarrow> table_prop res" where
  "OFPTableFeaturePropExperimenter_parse_prop ty buf =
     rbind (unpack2 [fI, fI] buf 0) (\<lambda>(experimenter, exp_type).
     rbind (data_words buf 8) (\<lambda>data. Inr (PropExperimenter ty experimenter exp_type data)))"

definition OFPTableFeaturePropExperimenter_serialize_prop :: "int \<Rightarrow> int \<Rightarrow> int list \<Rightarrow> bytes res" where
  "OFPTableFeaturePropExperimenter_serialize_prop experimenter exp_type data =
     rbind (msg_pack_into [fI, fI] [] 0 [VInt experimenter, VInt exp_type]) (\<lambda>buf.
     if data \<noteq> [] then msg_pack_into (replicate (length data) fI) buf (length buf) (map VInt data) else Inr buf)"

text \<open>The table \<^verbatim>\<open>_TYPES\<close>.\<close>

definition parse_prop :: "int \<Rightarrow> bytes \<Rightarrow> table_prop res option" where
  "parse_prop ty bin =
     (if ty \<in> {0, 1} then OFPTableFeaturePropInstructions_parse_prop ty bin
      else if ty \<in> {2, 3} then OFPTableFeaturePropNextTables_parse_prop ty bin
      else if ty \<in> {4, 5, 6, 7} then OFPTableFeaturePropActions_parse_prop ty bin
      else if ty \<in> {8, 10, 12, 13, 14, 15} then OFPTableFeaturePropOxm_parse_prop ty bin
      else if ty \<in> {0xfffe, 0xffff} then Some (OFPTableFeaturePropExperimenter_parse_prop ty bin)
      else Some (Inr (PropUnknown ty bin)))"

definition serialize_prop :: "table_prop \<Rightarrow> bytes res" where
  "serialize_prop p =
     (case p of
        PropInstructions _ ids \<Rightarrow> OFPTableFeaturePropInstructions_serialize_prop ids
      | PropNextTables _ ids \<Rightarrow> OFPTableFeaturePropNextTables_serialize_prop ids
      | PropActions _ ids \<Rightarrow> OFPTableFeaturePropActions_serialize_prop ids
      | PropOxm _ ids \<Rightarrow> OFPTableFeaturePropOxm_serialize_prop ids
      | PropExperimenter _ experimenter exp_type data \<Rightarrow> OFPTableFeaturePropExperimenter_serialize_prop experimenter exp_type data
      | PropUnknown _ data \<Rightarrow> Inr data)"

text \<open>A property that says it is empty leaves the whole string.\<close>

definition OFPTableFeatureProp_parse :: "bytes \<Rightarrow> (table_prop \<times> bytes) res option" where
  "OFPTableFeatureProp_parse buf =
     (case unpack2 HH buf 0 of Inl e \<Rightarrow> Some (Inl e)
      | Inr (ty, len) \<Rightarrow>
        let bin_prop = drop (calcsize HH) (take (nat len) buf);
            rest = drop (round_up (nat len) 8) buf in
        map_option (\<lambda>r. rbind r (\<lambda>p. Inr (p, rest))) (parse_prop ty bin_prop))"

definition OFPTableFeatureProp_serialize :: "table_prop \<Rightarrow> bytes res" where
  "OFPTableFeatureProp_serialize p =
     rbind (serialize_prop p) (\<lambda>bin_prop.
     let len = calcsize HH + length bin_prop in
     rbind (msg_pack_into HH [] 0 [VInt (prop_type p), VInt (int len)]) (\<lambda>buf.
     let pad_len = round_up len 8 - len in
     Inr (buf @ bin_prop @ replicate pad_len 0)))"

section \<open>A table\<close>

record table_features =
  tf_table_id :: int
  tf_name :: string
  tf_metadata_match :: int
  tf_metadata_write :: int
  tf_config :: int
  tf_max_entries :: int
  tf_properties :: "table_prop list"

definition OFP_TABLE_FEATURES_PACK_STR :: format where "OFP_TABLE_FEATURES_PACK_STR = [fH, fB, FX 5, FS 32, fQ, fQ, fI, fI]"
definition OFP_TABLE_FEATURES_SIZE :: nat where "OFP_TABLE_FEATURES_SIZE = 64"

definition OFPTableFeaturesStats_parser :: "bytes \<Rightarrow> nat \<Rightarrow> (table_features \<times> int) res option" where
  "OFPTableFeaturesStats_parser buf offset =
     (case unpack_from OFP_TABLE_FEATURES_PACK_STR buf offset of
        Inl e \<Rightarrow> Some (Inl e)
      | Inr [VInt len, VInt table_id, VStr name, VInt metadata_match, VInt metadata_write, VInt config, VInt max_entries] \<Rightarrow>
          map_option (\<lambda>r. rbind r (\<lambda>props.
            Inr (\<lparr>tf_table_id = table_id, tf_name = rstrip_nul (text_of name), tf_metadata_match = metadata_match,
              tf_metadata_write = metadata_write, tf_config = config, tf_max_entries = max_entries, tf_properties = props\<rparr>, len)))
            (parse_rest OFPTableFeatureProp_parse (drop (offset + OFP_TABLE_FEATURES_SIZE) (take (nat (int offset + len)) buf)))
      | Inr _ \<Rightarrow> Some (Inl ValueErr))"

definition OFPTableFeaturesStats_serialize :: "table_features \<Rightarrow> bytes res" where
  "OFPTableFeaturesStats_serialize t =
     rbind (concat_res OFPTableFeatureProp_serialize (tf_properties t)) (\<lambda>bin_props.
     let len = OFP_TABLE_FEATURES_SIZE + length bin_props in
     rbind (msg_pack_into OFP_TABLE_FEATURES_PACK_STR [] 0
       [VInt (int len), VInt (tf_table_id t), VStr (bytes_of (tf_name t)), VInt (tf_metadata_match t), VInt (tf_metadata_write t),
        VInt (tf_config t), VInt (tf_max_entries t)]) (\<lambda>buf. Inr (buf @ bin_props)))"

definition OFPTableFeaturesStatsRequest_serialize_stats_body :: "table_features list \<Rightarrow> bytes \<Rightarrow> bytes res" where
  "OFPTableFeaturesStatsRequest_serialize_stats_body body buf =
     rbind (concat_res OFPTableFeaturesStats_serialize body) (\<lambda>bin_body. Inr (buf @ bin_body))"

section \<open>Round trip\<close>

text \<open>The identifiers as a switch sends them: four bytes long; a match field of the table of fields, with the length the
  code writes, which is zero.\<close>

definition id_ok :: "int \<times> int \<Rightarrow> bool" where
  "id_ok i \<longleftrightarrow> in_range 2 (fst i) \<and> snd i = 4"

definition id_wire :: "int \<times> int \<Rightarrow> bytes" where
  "id_wire i = be_bytes 2 (fst i) @ be_bytes 2 4"

definition oxm_id_ok :: "oxm_id \<Rightarrow> bool" where
  "oxm_id_ok i \<longleftrightarrow> oi_exp_id i = None \<and> oi_hasmask i \<in> {0, 1} \<and> oi_length i = 0 \<and>
     oi_type i \<in> set (map of_name (filter (\<lambda>f. case of_num f of Num _ \<Rightarrow> True | ExpNum _ _ \<Rightarrow> False) oxm_types))"

definition oxm_id_wire :: "oxm_id \<Rightarrow> bytes" where
  "oxm_id_wire i = (case oxm_id_serialize i of Inl _ \<Rightarrow> [] | Inr b \<Rightarrow> b)"

interpretation instruction_ids: wire_prefix "\<lambda>b. Some (OFPInstructionId_parse b)" id_wire id_ok
  by unfold_locales (auto simp: OFPInstructionId_parse_def id_wire_def id_ok_def in_range_def unpack2_def unpack_from_def HH_def simp flip: length_0_conv)

interpretation action_ids: wire_prefix "\<lambda>b. Some (OFPActionId_parse b)" id_wire id_ok
  by unfold_locales (auto simp: OFPActionId_parse_def id_wire_def id_ok_def in_range_def unpack2_def unpack_from_def HH_def simp flip: length_0_conv)

interpretation table_ids: wire_prefix "\<lambda>b. Some (table_id_parse b)" "be_bytes 1" "in_range 1"
  by unfold_locales (auto simp: table_id_parse_def in_range_def unpack1_def unpack_from_def simp flip: length_0_conv)

text \<open>The number of a field and its name determine each other.\<close>

lemma numbered_fields:
  "\<forall>f \<in> set (filter (\<lambda>f. case of_num f of Num _ \<Rightarrow> True | ExpNum _ _ \<Rightarrow> False) oxm_types).
     case of_num f of ExpNum _ _ \<Rightarrow> False
     | Num n \<Rightarrow> get_field_info_by_name (of_name f) = Inr (Num n, of_type f) \<and> get_field_info_by_number (Num n) = Inr (of_name f, of_type f)
         \<and> 0 \<le> n \<and> n < 2 ^ 23 \<and> drop_bit 7 n \<noteq> OFPXMC_EXPERIMENTER"
  by code_simp

lemma oxm_id_number:
  assumes "oxm_id_ok i"
  obtains n t where "get_field_info_by_name (oi_type i) = Inr (Num n, t)" "get_field_info_by_number (Num n) = Inr (oi_type i, t)"
    "0 \<le> n" "n < 2 ^ 23" "drop_bit 7 n \<noteq> OFPXMC_EXPERIMENTER"
proof -
  from assms obtain f where f: "f \<in> set (filter (\<lambda>f. case of_num f of Num _ \<Rightarrow> True | ExpNum _ _ \<Rightarrow> False) oxm_types)"
    "oi_type i = of_name f" by (auto simp: oxm_id_ok_def)
  from bspec [OF numbered_fields f(1)] that show ?thesis by (cases "of_num f") (simp_all add: f(2))
qed

lemma oxm_id_header:
  assumes "oxm_id_ok i"
  obtains n t h where "get_field_info_by_name (oi_type i) = Inr (Num n, t)" "get_field_info_by_number (Num n) = Inr (oi_type i, t)"
    "h = push_bit 9 n OR push_bit 8 (oi_hasmask i) OR 0" "drop_bit 7 n \<noteq> OFPXMC_EXPERIMENTER" "0 \<le> h" "h < 256 ^ 4"
    "drop_bit 9 h = n" "drop_bit 8 h AND 1 = oi_hasmask i" "h AND 0xff = 0" "drop_bit 16 h = drop_bit 7 n"
proof -
  from oxm_id_number [OF assms] obtain n t where n: "get_field_info_by_name (oi_type i) = Inr (Num n, t)"
    "get_field_info_by_number (Num n) = Inr (oi_type i, t)" "0 \<le> n" "n < 2 ^ 23" "drop_bit 7 n \<noteq> OFPXMC_EXPERIMENTER" .
  define h where "h = push_bit 9 n OR push_bit 8 (oi_hasmask i) OR 0"
  have m: "oi_hasmask i = 0 \<or> oi_hasmask i = 1" using assms by (auto simp: oxm_id_ok_def)
  note b = oxm_header_bits [OF n(3,4) m, of 0, folded h_def, simplified]
  have "drop_bit 16 h = drop_bit 7 (drop_bit 9 h)" by simp
  with b(1) have "drop_bit 16 h = drop_bit 7 n" by simp
  with that [OF n(1,2) h_def n(5)] b show ?thesis by simp
qed

lemma oxm_id_parse_wire:
  assumes "oxm_id_ok i"
  shows "oxm_id_serialize i = Inr (oxm_id_wire i)" and "length (oxm_id_wire i) = 4"
    and "OFPOxmId_parse (oxm_id_wire i @ post) = Inr (i, post)"
proof -
  from oxm_id_header [OF assms] obtain n t h where h: "get_field_info_by_name (oi_type i) = Inr (Num n, t)"
    "get_field_info_by_number (Num n) = Inr (oi_type i, t)" "h = push_bit 9 n OR push_bit 8 (oi_hasmask i) OR 0"
    "drop_bit 7 n \<noteq> OFPXMC_EXPERIMENTER" "0 \<le> h" "h < 256 ^ 4" "drop_bit 9 h = n" "drop_bit 8 h AND 1 = oi_hasmask i"
    "h AND 0xff = 0" "drop_bit 16 h = drop_bit 7 n" .
  have i: "oi_exp_id i = None" "oi_length i = 0" using assms by (simp_all add: oxm_id_ok_def)
  have "push_bit 9 n OR push_bit 8 (oi_hasmask i) = h" using h(3) by simp
  then have s: "oxm_id_serialize i = Inr (be_bytes 4 h)"
    using h(1,4-6) i by (simp add: oxm_id_serialize_def OFPOxmId_serialize_def msg_pack_into_end)
  then have w: "oxm_id_wire i = be_bytes 4 h" by (simp add: oxm_id_wire_def)
  show "oxm_id_serialize i = Inr (oxm_id_wire i)" "length (oxm_id_wire i) = 4" using s by (simp_all add: w)
  have "unpack1 [fI] (be_bytes 4 h @ post) 0 = Inr h" using h(5,6) by (simp add: unpack1_def unpack_from_def)
  then show "OFPOxmId_parse (oxm_id_wire i @ post) = Inr (i, post)"
    using h(2,4,7-10) i by (simp add: w OFPOxmId_parse_def Let_def oxm_tlv_header_extract_hasmask_def)
qed

interpretation oxm_ids: wire_prefix "\<lambda>b. Some (OFPOxmId_parse b)" oxm_id_wire oxm_id_ok
  by unfold_locales (use oxm_id_parse_wire in \<open>auto simp flip: length_0_conv\<close>)

text \<open>A list of values that all can be written.\<close>

lemma concat_res_wire: "\<forall>x \<in> set xs. f x = Inr (w x) \<Longrightarrow> concat_res f xs = Inr (concat (map w xs))"
  by (simp add: concat_res_def rmap_Inr)

definition words_wire :: "int list \<Rightarrow> bytes" where
  "words_wire ws = concat (map (be_bytes 4) ws)"

lemma length_words_wire [simp]: "length (words_wire ws) = 4 * length ws"
  by (induction ws) (simp_all add: words_wire_def)

lemma data_words_wire:
  "\<forall>x \<in> set ws. in_range 4 x \<Longrightarrow> data_words (pre @ words_wire ws) (length pre) = Inr ws"
proof (induction ws arbitrary: pre)
  case (Cons x ws)
  then show ?case using Cons.IH [of "pre @ be_bytes 4 x"]
    by (subst data_words.simps) (simp add: words_wire_def unpack1_def unpack_from_def in_range_def)
qed (simp add: words_wire_def data_words.simps)

lemma pack_words: "\<forall>x \<in> set ws. in_range 4 x \<Longrightarrow> struct_pack (replicate (length ws) fI) (map VInt ws) = Inr (words_wire ws)"
  by (induction ws) (simp_all add: in_range_def words_wire_def)

definition prop_ok :: "table_prop \<Rightarrow> bool" where
  "prop_ok p \<longleftrightarrow> in_range 2 (prop_type p) \<and>
     (case p of
        PropInstructions ty ids \<Rightarrow> ty \<in> {0, 1} \<and> (\<forall>i \<in> set ids. id_ok i) \<and> length ids < 10000
      | PropNextTables ty ids \<Rightarrow> ty \<in> {2, 3} \<and> (\<forall>i \<in> set ids. in_range 1 i) \<and> length ids < 10000
      | PropActions ty ids \<Rightarrow> ty \<in> {4, 5, 6, 7} \<and> (\<forall>i \<in> set ids. id_ok i) \<and> length ids < 10000
      | PropOxm ty ids \<Rightarrow> ty \<in> {8, 10, 12, 13, 14, 15} \<and> (\<forall>i \<in> set ids. oxm_id_ok i) \<and> length ids < 10000
      | PropExperimenter ty experimenter exp_type data \<Rightarrow> ty \<in> {0xfffe, 0xffff} \<and> in_range 4 experimenter \<and> in_range 4 exp_type
          \<and> (\<forall>x \<in> set data. in_range 4 x) \<and> length data < 10000
      | PropUnknown ty data \<Rightarrow> ty \<notin> {0, 1, 2, 3, 4, 5, 6, 7, 8, 10, 12, 13, 14, 15, 0xfffe, 0xffff} \<and> length data < 40000)"

definition bin_prop :: "table_prop \<Rightarrow> bytes" where
  "bin_prop p = (case p of PropInstructions _ ids \<Rightarrow> concat (map id_wire ids) | PropNextTables _ ids \<Rightarrow> concat (map (be_bytes 1) ids)
     | PropActions _ ids \<Rightarrow> concat (map id_wire ids) | PropOxm _ ids \<Rightarrow> concat (map oxm_id_wire ids)
     | PropExperimenter _ experimenter exp_type data \<Rightarrow> be_bytes 4 experimenter @ be_bytes 4 exp_type @ words_wire data
     | PropUnknown _ data \<Rightarrow> data)"

lemma length_concat_fixed: "\<forall>x \<in> set xs. length (f x) = k \<Longrightarrow> length (concat (map f xs)) = k * length xs"
  by (induction xs) auto

lemma bin_prop_length: "prop_ok p \<Longrightarrow> length (bin_prop p) < 50000"
  using length_concat_fixed [of _ id_wire 4] length_concat_fixed [of _ "be_bytes 1" 1] length_concat_fixed [of _ oxm_id_wire 4]
  by (cases p) (auto simp: prop_ok_def bin_prop_def id_wire_def oxm_id_parse_wire(2))

lemma id_serialize: "id_ok i \<Longrightarrow> OFPInstructionId_serialize i = Inr (id_wire i) \<and> OFPActionId_serialize i = Inr (id_wire i)"
  by (simp add: OFPInstructionId_serialize_def OFPActionId_serialize_def id_ok_def id_wire_def in_range_def HH_def msg_pack_into_end)

lemma bin_prop_roundtrip:
  assumes "prop_ok p"
  shows "serialize_prop p = Inr (bin_prop p)" and "parse_prop (prop_type p) (bin_prop p) = Some (Inr p)"
proof -
  show "serialize_prop p = Inr (bin_prop p)"
  proof (cases p)
    case (PropExperimenter ty e x data)
    with assms pack_words [of data] show ?thesis
      by (simp add: serialize_prop_def bin_prop_def prop_ok_def OFPTableFeaturePropExperimenter_serialize_prop_def in_range_def
          msg_pack_into_end words_wire_def)
  qed (use assms in \<open>simp_all add: serialize_prop_def bin_prop_def prop_ok_def concat_res_wire id_serialize oxm_id_parse_wire(1)
      OFPTableFeaturePropInstructions_serialize_prop_def OFPTableFeaturePropNextTables_serialize_prop_def
      OFPTableFeaturePropActions_serialize_prop_def OFPTableFeaturePropOxm_serialize_prop_def msg_pack_into_end in_range_def\<close>)
  show "parse_prop (prop_type p) (bin_prop p) = Some (Inr p)"
  proof (cases p)
    case (PropExperimenter ty e x data)
    then have ok: "in_range 4 e" "in_range 4 x" "\<forall>x \<in> set data. in_range 4 x" "ty = 0xfffe \<or> ty = 0xffff"
      using assms by (auto simp: prop_ok_def)
    have "unpack2 [fI, fI] (bin_prop p) 0 = Inr (e, x)"
      using ok(1,2) by (simp add: PropExperimenter bin_prop_def unpack2_def unpack_from_def in_range_def)
    moreover have "data_words (bin_prop p) 8 = Inr data"
      using data_words_wire [OF ok(3), of "be_bytes 4 e @ be_bytes 4 x"] by (simp add: PropExperimenter bin_prop_def)
    ultimately have "OFPTableFeaturePropExperimenter_parse_prop ty (bin_prop p) = Inr p"
      by (simp add: OFPTableFeaturePropExperimenter_parse_prop_def PropExperimenter)
    with ok(4) PropExperimenter show ?thesis by (auto simp: parse_prop_def prop_type_def)
  qed (use assms in \<open>auto simp: parse_prop_def prop_type_def bin_prop_def prop_ok_def instruction_ids.rest_all table_ids.rest_all [unfolded One_nat_def]
      action_ids.rest_all oxm_ids.rest_all OFPTableFeaturePropInstructions_parse_prop_def
      OFPTableFeaturePropNextTables_parse_prop_def OFPTableFeaturePropActions_parse_prop_def OFPTableFeaturePropOxm_parse_prop_def\<close>)
qed

definition prop_wire :: "table_prop \<Rightarrow> bytes" where
  "prop_wire p = (let len = 4 + length (bin_prop p) in
     be_bytes 2 (prop_type p) @ be_bytes 2 (int len) @ bin_prop p @ replicate (round_up len 8 - len) 0)"

lemma length_prop_wire: "length (prop_wire p) = round_up (4 + length (bin_prop p)) 8"
  using round_up_8 [of "4 + length (bin_prop p)"] by (simp add: prop_wire_def Let_def)

lemma prop_roundtrip:
  assumes "prop_ok p"
  shows "OFPTableFeatureProp_serialize p = Inr (prop_wire p)"
    and "OFPTableFeatureProp_parse (prop_wire p @ post) = Some (Inr (p, post))"
proof -
  let ?len = "4 + length (bin_prop p)"
  have l: "in_range 2 (int ?len)" "in_range 2 (prop_type p)"
    using bin_prop_length [OF assms] assms by (simp_all add: prop_ok_def in_range_def)
  then show "OFPTableFeatureProp_serialize p = Inr (prop_wire p)"
    by (simp add: OFPTableFeatureProp_serialize_def bin_prop_roundtrip(1) [OF assms] HH_def Let_def prop_wire_def msg_pack_into_end
        in_range_def)
  have "unpack2 HH (prop_wire p @ post) 0 = Inr (prop_type p, int ?len)"
    using l by (simp add: prop_wire_def Let_def unpack2_def unpack_from_def HH_def in_range_def)
  moreover have "drop (calcsize HH) (take (nat (int ?len)) (prop_wire p @ post)) = bin_prop p"
    unfolding nat_int by (simp add: prop_wire_def Let_def HH_def)
  moreover have "drop (round_up (nat (int ?len)) 8) (prop_wire p @ post) = post"
    unfolding nat_int by (simp add: length_prop_wire)
  ultimately show "OFPTableFeatureProp_parse (prop_wire p @ post) = Some (Inr (p, post))"
    using bin_prop_roundtrip(2) [OF assms] by (simp add: OFPTableFeatureProp_parse_def Let_def)
qed

interpretation props: wire_prefix OFPTableFeatureProp_parse prop_wire prop_ok
  by unfold_locales (use prop_roundtrip(2) in \<open>auto simp: prop_wire_def Let_def simp flip: length_0_conv\<close>)

text \<open>A table: its properties, its name without a zero byte at the end, everything in one structure.\<close>

definition table_ok :: "table_features \<Rightarrow> bool" where
  "table_ok t \<longleftrightarrow> in_range 1 (tf_table_id t) \<and> length (tf_name t) \<le> 32 \<and> rstrip_nul (tf_name t) = tf_name t
     \<and> in_range 8 (tf_metadata_match t) \<and> in_range 8 (tf_metadata_write t) \<and> in_range 4 (tf_config t) \<and> in_range 4 (tf_max_entries t)
     \<and> (\<forall>p \<in> set (tf_properties t). prop_ok p) \<and> length (concat (map prop_wire (tf_properties t))) < 65000"

definition table_wire :: "table_features \<Rightarrow> bytes" where
  "table_wire t = be_bytes 2 (int (64 + length (concat (map prop_wire (tf_properties t))))) @ be_bytes 1 (tf_table_id t) @ replicate 5 0
     @ (bytes_of (tf_name t) @ replicate (32 - length (tf_name t)) 0) @ be_bytes 8 (tf_metadata_match t)
     @ be_bytes 8 (tf_metadata_write t) @ be_bytes 4 (tf_config t) @ be_bytes 4 (tf_max_entries t)
     @ concat (map prop_wire (tf_properties t))"

lemma length_table_wire: "table_ok t \<Longrightarrow> length (table_wire t) = 64 + length (concat (map prop_wire (tf_properties t)))"
  by (simp add: table_wire_def table_ok_def)

lemma table_serialize_wire:
  assumes "table_ok t"
  shows "OFPTableFeaturesStats_serialize t = Inr (table_wire t)"
proof -
  have "concat_res OFPTableFeatureProp_serialize (tf_properties t) = Inr (concat (map prop_wire (tf_properties t)))"
    using assms prop_roundtrip(1) by (intro concat_res_wire) (simp add: table_ok_def)
  then show ?thesis using assms
    by (simp add: OFPTableFeaturesStats_serialize_def Let_def OFP_TABLE_FEATURES_SIZE_def OFP_TABLE_FEATURES_PACK_STR_def
        msg_pack_into_end table_ok_def in_range_def table_wire_def take_append)
qed

lemma table_parser_wire:
  assumes t: "table_ok t"
  shows "OFPTableFeaturesStats_parser (pre @ table_wire t @ post) (length pre) = Some (Inr (t, int (length (table_wire t))))"
proof -
  let ?p = "concat (map prop_wire (tf_properties t))"
  let ?vs = "[VInt (int (64 + length ?p)), VInt (tf_table_id t), VStr (bytes_of (tf_name t) @ replicate (32 - length (tf_name t)) 0),
     VInt (tf_metadata_match t), VInt (tf_metadata_write t), VInt (tf_config t), VInt (tf_max_entries t)]"
  have u: "unpack_from OFP_TABLE_FEATURES_PACK_STR (pre @ table_wire t @ post) (length pre) = Inr ?vs"
    using t by (simp add: unpack_from_def OFP_TABLE_FEATURES_PACK_STR_def table_wire_def table_ok_def in_range_def)
  have "take (64 + length ?p) (table_wire t @ post) = table_wire t" by (simp add: length_table_wire [OF t])
  moreover have "drop 64 (table_wire t) = ?p" using t by (simp add: table_wire_def table_ok_def)
  ultimately have d: "drop (length pre + 64) (take (nat (int (length pre) + int (64 + length ?p))) (pre @ table_wire t @ post)) = ?p"
    unfolding nat_int_add by simp
  have "parse_rest OFPTableFeatureProp_parse ?p = Some (Inr (tf_properties t))"
    using t by (intro props.rest_all) (simp add: table_ok_def)
  with u d t show ?thesis
    by (simp add: OFPTableFeaturesStats_parser_def OFP_TABLE_FEATURES_SIZE_def length_table_wire table_ok_def padded_text)
qed

interpretation tables: wire_entry OFPTableFeaturesStats_parser table_wire table_ok
  by unfold_locales (use table_parser_wire in \<open>auto simp: table_wire_def simp flip: length_0_conv\<close>)

text \<open>C37: the tables that a controller writes in a request are read back from the bytes as they were, with every property: the
  identifiers of instructions, actions, tables and match fields, the words of experimenters and the data of unknown
  properties, padded to eight bytes. The loops over the properties and over the identifiers end.\<close>

theorem table_features_roundtrip:
  assumes "\<forall>t \<in> set ts. table_ok t"
  shows "\<exists>w. OFPTableFeaturesStatsRequest_serialize_stats_body ts buf = Inr (buf @ w) \<and>
    (\<forall>pre post. parse_entries OFPTableFeaturesStats_parser (pre @ w @ post) (length pre) (int (length w)) = Some (Inr ts))"
proof (intro exI conjI allI)
  have "concat_res OFPTableFeaturesStats_serialize ts = Inr (concat (map table_wire ts))"
    using assms table_serialize_wire by (intro concat_res_wire) blast
  then show "OFPTableFeaturesStatsRequest_serialize_stats_body ts buf = Inr (buf @ concat (map table_wire ts))"
    by (simp add: OFPTableFeaturesStatsRequest_serialize_stats_body_def)
qed (rule tables.entries_all [OF assms])

definition demo_table :: table_features where
  "demo_table = \<lparr>tf_table_id = 3, tf_name = ''acl'', tf_metadata_match = 0, tf_metadata_write = 0, tf_config = 0, tf_max_entries = 64,
     tf_properties = [PropInstructions 0 [(1, 4), (4, 4)], PropNextTables 2 [4, 5, 6],
       PropOxm 8 [\<lparr>oi_type = ''eth_dst'', oi_exp_id = None, oi_hasmask = 1, oi_length = 0\<rparr>], PropExperimenter 0xfffe 7 1 [42],
       PropUnknown 20 [1, 2, 3]]\<rparr>"

lemma demo_table_ok: "table_ok demo_table"
proof -
  have "''eth_dst'' \<in> set (map of_name (filter (\<lambda>f. case of_num f of Num _ \<Rightarrow> True | ExpNum _ _ \<Rightarrow> False) oxm_types))"
    by code_simp
  then have oxm: "oxm_id_ok \<lparr>oi_type = ''eth_dst'', oi_exp_id = None, oi_hasmask = 1, oi_length = 0\<rparr>"
    unfolding oxm_id_ok_def by (simp del: set_map)
  have p: "\<forall>p \<in> set (tf_properties demo_table). prop_ok p"
    using oxm by (simp add: demo_table_def prop_ok_def prop_type_def in_range_def id_ok_def)
  have "length (concat (map prop_wire (tf_properties demo_table))) < 65000"
    by (simp add: demo_table_def length_prop_wire bin_prop_def id_wire_def oxm_id_parse_wire(2) [OF oxm] round_up_def)
  with p show ?thesis by (simp add: table_ok_def) (simp add: demo_table_def in_range_def rstrip_nul_def)
qed

theorem table_features_roundtrip_demo:
  "\<exists>w. OFPTableFeaturesStatsRequest_serialize_stats_body [demo_table, demo_table] (replicate 16 0) = Inr (replicate 16 0 @ w) \<and>
    (\<forall>pre post. parse_entries OFPTableFeaturesStats_parser (pre @ w @ post) (length pre) (int (length w)) = Some (Inr [demo_table, demo_table]))"
  by (rule table_features_roundtrip) (simp add: demo_table_ok)

text \<open>The identifier of an experimenter's field is read, but it can never be written.\<close>

lemma experimenter_id_unwritable: "oi_exp_id i = Some e \<Longrightarrow> \<exists>err. oxm_id_serialize i = Inl err"
  unfolding oxm_id_serialize_def OFPExperimenterOxmId_serialize_def
  by (cases "OFPOxmId_serialize i"; cases "\<exists>b. OFPOxmId_serialize i = Inr b") (auto simp: rbind_def split: sum.split)

text \<open>A property that declares the length zero, and an identifier that does: the loop does not end.\<close>

lemma zero_length_property: "parse_rest OFPTableFeatureProp_parse [0, 20, 0, 0, 0, 0, 0, 0] = None"
  by (rule parse_rest_stuck [where x = "PropUnknown 20 []"]) (code_simp, simp)

lemma zero_length_id: "OFPTableFeatureProp_parse [0, 0, 0, 8, 0, 1, 0, 0] = None"
proof -
  have "parse_rest (\<lambda>b. Some (OFPInstructionId_parse b)) [0, 1, 0, 0] = None"
    by (rule parse_rest_stuck [where x = "(1, 0)"]) (code_simp, simp)
  moreover have "unpack2 HH [0, 0, 0, 8, 0, 1, 0, 0] 0 = Inr (0, 8)" by code_simp
  ultimately show ?thesis
    by (simp add: OFPTableFeatureProp_parse_def parse_prop_def OFPTableFeaturePropInstructions_parse_prop_def HH_def)
qed

end
