(* ===== verification/OFStats.thy ===== *)
theory OFStats
  imports OFGroup OFTable
begin

text \<open>
  The bodies of the multipart replies of \<^verbatim>\<open>ofproto_v1_3_parser.py\<close>, other than ports, and of the reply on the queues of
  a port: one parser per class, which gives the entry and its length, and the table from the type of a reply to the
  class of its entries. A named tuple is a constructor with its numbers in order.
\<close>

section \<open>Entries of fixed size\<close>

record of_desc =
  od_mfr_desc :: string
  od_hw_desc :: string
  od_sw_desc :: string
  od_serial_num :: string
  od_dp_desc :: string

datatype aggregate_stats = AggregateStats int int int
datatype table_stats = TableStats int int int int
datatype queue_stats = QueueStats int int int int int int int
datatype group_features = GroupFeatures int int "int list" "int list"
datatype meter_features = MeterFeatures int int int int int
datatype experimenter_multipart = ExperimenterMultipart int int bytes

definition OFP_DESC_PACK_STR :: format where "OFP_DESC_PACK_STR = [FS 256, FS 256, FS 256, FS 32, FS 256]"
definition OFP_DESC_SIZE :: int where "OFP_DESC_SIZE = 1056"
definition OFP_AGGREGATE_STATS_REPLY_PACK_STR :: format where "OFP_AGGREGATE_STATS_REPLY_PACK_STR = [fQ, fQ, fI, FX 4]"
definition OFP_AGGREGATE_STATS_REPLY_SIZE :: int where "OFP_AGGREGATE_STATS_REPLY_SIZE = 24"
definition OFP_TABLE_STATS_PACK_STR :: format where "OFP_TABLE_STATS_PACK_STR = [fB, FX 3, fI, fQ, fQ]"
definition OFP_TABLE_STATS_SIZE :: int where "OFP_TABLE_STATS_SIZE = 24"
definition OFP_QUEUE_STATS_PACK_STR :: format where "OFP_QUEUE_STATS_PACK_STR = [fI, fI, fQ, fQ, fQ, fI, fI]"
definition OFP_QUEUE_STATS_SIZE :: int where "OFP_QUEUE_STATS_SIZE = 40"
definition OFP_GROUP_FEATURES_PACK_STR :: format where "OFP_GROUP_FEATURES_PACK_STR = replicate 10 fI"
definition OFP_GROUP_FEATURES_SIZE :: int where "OFP_GROUP_FEATURES_SIZE = 40"
definition OFP_METER_FEATURES_PACK_STR :: format where "OFP_METER_FEATURES_PACK_STR = [fI, fI, fI, fB, fB, FX 2]"
definition OFP_METER_FEATURES_SIZE :: int where "OFP_METER_FEATURES_SIZE = 16"
definition OFP_EXPERIMENTER_MULTIPART_HEADER_PACK_STR :: format where "OFP_EXPERIMENTER_MULTIPART_HEADER_PACK_STR = [fI, fI]"
definition OFP_EXPERIMENTER_MULTIPART_HEADER_SIZE :: nat where "OFP_EXPERIMENTER_MULTIPART_HEADER_SIZE = 8"

definition OFPDescStats_parser :: "bytes \<Rightarrow> nat \<Rightarrow> (of_desc \<times> int) res" where
  "OFPDescStats_parser buf offset =
     rbind (unpack_from OFP_DESC_PACK_STR buf offset) (\<lambda>vs. case vs of
       [VStr mfr_desc, VStr hw_desc, VStr sw_desc, VStr serial_num, VStr dp_desc] \<Rightarrow>
         Inr (\<lparr>od_mfr_desc = rstrip_nul (text_of mfr_desc), od_hw_desc = rstrip_nul (text_of hw_desc),
           od_sw_desc = rstrip_nul (text_of sw_desc), od_serial_num = rstrip_nul (text_of serial_num),
           od_dp_desc = rstrip_nul (text_of dp_desc)\<rparr>, OFP_DESC_SIZE)
     | _ \<Rightarrow> Inl ValueErr)"

definition OFPAggregateStats_parser :: "bytes \<Rightarrow> nat \<Rightarrow> (aggregate_stats \<times> int) res" where
  "OFPAggregateStats_parser buf offset =
     rbind (unpack_ints OFP_AGGREGATE_STATS_REPLY_PACK_STR buf offset) (\<lambda>vs. case vs of
       [packet_count, byte_count, flow_count] \<Rightarrow> Inr (AggregateStats packet_count byte_count flow_count, OFP_AGGREGATE_STATS_REPLY_SIZE)
     | _ \<Rightarrow> Inl ValueErr)"

definition OFPTableStats_parser :: "bytes \<Rightarrow> nat \<Rightarrow> (table_stats \<times> int) res" where
  "OFPTableStats_parser buf offset =
     rbind (unpack_ints OFP_TABLE_STATS_PACK_STR buf offset) (\<lambda>vs. case vs of
       [table_id, active_count, lookup_count, matched_count] \<Rightarrow>
         Inr (TableStats table_id active_count lookup_count matched_count, OFP_TABLE_STATS_SIZE)
     | _ \<Rightarrow> Inl ValueErr)"

definition OFPQueueStats_parser :: "bytes \<Rightarrow> nat \<Rightarrow> (queue_stats \<times> int) res" where
  "OFPQueueStats_parser buf offset =
     rbind (unpack_ints OFP_QUEUE_STATS_PACK_STR buf offset) (\<lambda>vs. case vs of
       [port_no, queue_id, tx_bytes, tx_packets, tx_errors, duration_sec, duration_nsec] \<Rightarrow>
         Inr (QueueStats port_no queue_id tx_bytes tx_packets tx_errors duration_sec duration_nsec, OFP_QUEUE_STATS_SIZE)
     | _ \<Rightarrow> Inl ValueErr)"

definition OFPGroupFeaturesStats_parser :: "bytes \<Rightarrow> nat \<Rightarrow> (group_features \<times> int) res" where
  "OFPGroupFeaturesStats_parser buf offset =
     rbind (unpack_ints OFP_GROUP_FEATURES_PACK_STR buf offset) (\<lambda>vs. case vs of
       types # capabilities # rest \<Rightarrow>
         Inr (GroupFeatures types capabilities (take 4 rest) (take 4 (drop 4 rest)), OFP_GROUP_FEATURES_SIZE)
     | _ \<Rightarrow> Inl IndexErr)"

definition OFPMeterFeaturesStats_parser :: "bytes \<Rightarrow> nat \<Rightarrow> (meter_features \<times> int) res" where
  "OFPMeterFeaturesStats_parser buf offset =
     rbind (unpack_ints OFP_METER_FEATURES_PACK_STR buf offset) (\<lambda>vs. case vs of
       [max_meter, band_types, capabilities, max_bands, max_color] \<Rightarrow>
         Inr (MeterFeatures max_meter band_types capabilities max_bands max_color, OFP_METER_FEATURES_SIZE)
     | _ \<Rightarrow> Inl ValueErr)"

text \<open>The data goes to the end of the buffer; the length is that of the features of a meter.\<close>

definition OFPExperimenterMultipart_parser :: "bytes \<Rightarrow> nat \<Rightarrow> (experimenter_multipart \<times> int) res" where
  "OFPExperimenterMultipart_parser buf offset =
     rbind (unpack2 OFP_EXPERIMENTER_MULTIPART_HEADER_PACK_STR buf offset) (\<lambda>(experimenter, exp_type).
     Inr (ExperimenterMultipart experimenter exp_type (drop (offset + OFP_EXPERIMENTER_MULTIPART_HEADER_SIZE) buf),
       OFP_METER_FEATURES_SIZE))"

section \<open>Flows\<close>

record flow_stats =
  fs_table_id :: int
  fs_duration_sec :: int
  fs_duration_nsec :: int
  fs_priority :: int
  fs_idle_timeout :: int
  fs_hard_timeout :: int
  fs_flags :: int
  fs_cookie :: int
  fs_packet_count :: int
  fs_byte_count :: int
  fs_match :: "user_field list"
  fs_instructions :: "instruction list"

definition OFP_FLOW_STATS_0_PACK_STR :: format where
  "OFP_FLOW_STATS_0_PACK_STR = [fH, fB, FX 1, fI, fI, fH, fH, fH, fH, FX 4, fQ, fQ, fQ]"
definition OFP_FLOW_STATS_0_SIZE :: nat where "OFP_FLOW_STATS_0_SIZE = 48"
definition OFP_FLOW_STATS_SIZE :: nat where "OFP_FLOW_STATS_SIZE = 56"

definition OFPFlowStats_parser :: "addrconv \<Rightarrow> bytes \<Rightarrow> nat \<Rightarrow> (flow_stats \<times> int) res option" where
  "OFPFlowStats_parser conv buf offset0 =
     (case unpack_ints OFP_FLOW_STATS_0_PACK_STR buf offset0 of
        Inl e \<Rightarrow> Some (Inl e)
      | Inr [len, table_id, duration_sec, duration_nsec, priority, idle_timeout, hard_timeout, flags, cookie, packet_count, byte_count] \<Rightarrow>
          (let offset = offset0 + OFP_FLOW_STATS_0_SIZE in
           case match_parser conv buf offset of
             Inl e \<Rightarrow> Some (Inl e)
           | Inr (_, mlen, flds) \<Rightarrow>
               let match_length = round_up (nat mlen) 8;
                   inst_length = len - int (OFP_FLOW_STATS_SIZE - OFP_MATCH_SIZE + match_length) in
               map_option (\<lambda>r. rbind r (\<lambda>instructions.
                 Inr (\<lparr>fs_table_id = table_id, fs_duration_sec = duration_sec, fs_duration_nsec = duration_nsec,
                   fs_priority = priority, fs_idle_timeout = idle_timeout, fs_hard_timeout = hard_timeout, fs_flags = flags,
                   fs_cookie = cookie, fs_packet_count = packet_count, fs_byte_count = byte_count,
                   fs_match = flds, fs_instructions = instructions\<rparr>, len)))
                 (parse_entries (OFPInstruction_parser conv) buf (offset + match_length) inst_length))
      | Inr _ \<Rightarrow> Some (Inl ValueErr))"

section \<open>Groups\<close>

record group_stats =
  gs_group_id :: int
  gs_ref_count :: int
  gs_packet_count :: int
  gs_byte_count :: int
  gs_duration_sec :: int
  gs_duration_nsec :: int
  gs_bucket_stats :: "(int \<times> int) list"

definition OFP_GROUP_STATS_PACK_STR :: format where "OFP_GROUP_STATS_PACK_STR = [fH, FX 2, fI, fI, FX 4, fQ, fQ, fI, fI]"
definition OFP_GROUP_STATS_SIZE :: nat where "OFP_GROUP_STATS_SIZE = 40"
definition OFP_BUCKET_COUNTER_PACK_STR :: format where "OFP_BUCKET_COUNTER_PACK_STR = [fQ, fQ]"
definition OFP_BUCKET_COUNTER_SIZE :: int where "OFP_BUCKET_COUNTER_SIZE = 16"

definition OFPBucketCounter_parser :: "bytes \<Rightarrow> nat \<Rightarrow> ((int \<times> int) \<times> int) res" where
  "OFPBucketCounter_parser buf offset =
     rbind (unpack2 OFP_BUCKET_COUNTER_PACK_STR buf offset) (\<lambda>c. Inr (c, OFP_BUCKET_COUNTER_SIZE))"

definition OFPGroupStats_parser :: "bytes \<Rightarrow> nat \<Rightarrow> (group_stats \<times> int) res option" where
  "OFPGroupStats_parser buf offset =
     (case unpack_ints OFP_GROUP_STATS_PACK_STR buf offset of
        Inl e \<Rightarrow> Some (Inl e)
      | Inr [len, group_id, ref_count, packet_count, byte_count, duration_sec, duration_nsec] \<Rightarrow>
          map_option (\<lambda>r. rbind r (\<lambda>bucket_stats.
            Inr (\<lparr>gs_group_id = group_id, gs_ref_count = ref_count, gs_packet_count = packet_count, gs_byte_count = byte_count,
              gs_duration_sec = duration_sec, gs_duration_nsec = duration_nsec, gs_bucket_stats = bucket_stats\<rparr>, len)))
            (parse_entries (\<lambda>b o'. Some (OFPBucketCounter_parser b o')) buf (offset + OFP_GROUP_STATS_SIZE)
               (len - int OFP_GROUP_STATS_SIZE))
      | Inr _ \<Rightarrow> Some (Inl ValueErr))"

record group_desc =
  gd_type :: int
  gd_group_id :: int
  gd_buckets :: "bucket list"

definition OFP_GROUP_DESC_STATS_PACK_STR :: format where "OFP_GROUP_DESC_STATS_PACK_STR = [fH, fB, FX 1, fI]"
definition OFP_GROUP_DESC_STATS_SIZE :: nat where "OFP_GROUP_DESC_STATS_SIZE = 8"

definition OFPGroupDescStats_parser :: "addrconv \<Rightarrow> bytes \<Rightarrow> nat \<Rightarrow> (group_desc \<times> int) res option" where
  "OFPGroupDescStats_parser conv buf offset =
     (case unpack_ints OFP_GROUP_DESC_STATS_PACK_STR buf offset of
        Inl e \<Rightarrow> Some (Inl e)
      | Inr [len, ty, group_id] \<Rightarrow>
          map_option (\<lambda>r. rbind r (\<lambda>buckets. Inr (\<lparr>gd_type = ty, gd_group_id = group_id, gd_buckets = buckets\<rparr>, len)))
            (parse_entries (OFPBucket_parser conv) buf (offset + OFP_GROUP_DESC_STATS_SIZE) (len - int OFP_GROUP_DESC_STATS_SIZE))
      | Inr _ \<Rightarrow> Some (Inl ValueErr))"

section \<open>Meters\<close>

record meter_stats =
  ms_meter_id :: int
  ms_flow_count :: int
  ms_packet_in_count :: int
  ms_byte_in_count :: int
  ms_duration_sec :: int
  ms_duration_nsec :: int
  ms_band_stats :: "(int \<times> int) list"

definition OFP_METER_STATS_PACK_STR :: format where "OFP_METER_STATS_PACK_STR = [fI, fH, FX 6, fI, fQ, fQ, fI, fI]"
definition OFP_METER_STATS_SIZE :: nat where "OFP_METER_STATS_SIZE = 40"
definition OFP_METER_BAND_STATS_PACK_STR :: format where "OFP_METER_BAND_STATS_PACK_STR = [fQ, fQ]"
definition OFP_METER_BAND_STATS_SIZE :: int where "OFP_METER_BAND_STATS_SIZE = 16"

definition OFPMeterBandStats_parser :: "bytes \<Rightarrow> nat \<Rightarrow> ((int \<times> int) \<times> int) res" where
  "OFPMeterBandStats_parser buf offset =
     rbind (unpack2 OFP_METER_BAND_STATS_PACK_STR buf offset) (\<lambda>c. Inr (c, OFP_METER_BAND_STATS_SIZE))"

definition OFPMeterStats_parser :: "bytes \<Rightarrow> nat \<Rightarrow> (meter_stats \<times> int) res option" where
  "OFPMeterStats_parser buf offset =
     (case unpack_ints OFP_METER_STATS_PACK_STR buf offset of
        Inl e \<Rightarrow> Some (Inl e)
      | Inr [meter_id, len, flow_count, packet_in_count, byte_in_count, duration_sec, duration_nsec] \<Rightarrow>
          map_option (\<lambda>r. rbind r (\<lambda>band_stats.
            Inr (\<lparr>ms_meter_id = meter_id, ms_flow_count = flow_count, ms_packet_in_count = packet_in_count,
              ms_byte_in_count = byte_in_count, ms_duration_sec = duration_sec, ms_duration_nsec = duration_nsec,
              ms_band_stats = band_stats\<rparr>, len)))
            (parse_entries (\<lambda>b o'. Some (OFPMeterBandStats_parser b o')) buf (offset + OFP_METER_STATS_SIZE)
               (len - int OFP_METER_STATS_SIZE))
      | Inr _ \<Rightarrow> Some (Inl ValueErr))"

record meter_config =
  mc_flags :: int
  mc_meter_id :: int
  mc_bands :: "meter_band list"

definition OFP_METER_CONFIG_PACK_STR :: format where "OFP_METER_CONFIG_PACK_STR = [fH, fH, fI]"
definition OFP_METER_CONFIG_SIZE :: nat where "OFP_METER_CONFIG_SIZE = 8"

definition OFPMeterConfigStats_parser :: "bytes \<Rightarrow> nat \<Rightarrow> (meter_config \<times> int) res option" where
  "OFPMeterConfigStats_parser buf offset =
     (case unpack_ints OFP_METER_CONFIG_PACK_STR buf offset of
        Inl e \<Rightarrow> Some (Inl e)
      | Inr [len, flags, meter_id] \<Rightarrow>
          map_option (\<lambda>r. rbind r (\<lambda>bands. Inr (\<lparr>mc_flags = flags, mc_meter_id = meter_id, mc_bands = bands\<rparr>, len)))
            (parse_entries parse_band buf (offset + OFP_METER_CONFIG_SIZE) (len - int OFP_METER_CONFIG_SIZE))
      | Inr _ \<Rightarrow> Some (Inl ValueErr))"

section \<open>Queues\<close>

datatype queue_prop = MinRate int | MaxRate int

record packet_queue =
  pq_queue_id :: int
  pq_port :: int
  pq_properties :: "queue_prop list"

definition OFPQT_MIN_RATE :: int where "OFPQT_MIN_RATE = 1"
definition OFPQT_MAX_RATE :: int where "OFPQT_MAX_RATE = 2"
definition OFP_QUEUE_PROP_HEADER_PACK_STR :: format where "OFP_QUEUE_PROP_HEADER_PACK_STR = [fH, fH, FX 4]"
definition OFP_QUEUE_PROP_HEADER_SIZE :: nat where "OFP_QUEUE_PROP_HEADER_SIZE = 8"
definition OFP_QUEUE_PROP_MIN_RATE_PACK_STR :: format where "OFP_QUEUE_PROP_MIN_RATE_PACK_STR = [fH, FX 6]"
definition OFP_QUEUE_PROP_MIN_RATE_SIZE :: int where "OFP_QUEUE_PROP_MIN_RATE_SIZE = 16"
definition OFP_QUEUE_PROP_MAX_RATE_PACK_STR :: format where "OFP_QUEUE_PROP_MAX_RATE_PACK_STR = [fH, FX 6]"
definition OFP_QUEUE_PROP_MAX_RATE_SIZE :: int where "OFP_QUEUE_PROP_MAX_RATE_SIZE = 16"
definition OFP_PACKET_QUEUE_PACK_STR :: format where "OFP_PACKET_QUEUE_PACK_STR = [fI, fI, fH, FX 6]"
definition OFP_PACKET_QUEUE_SIZE :: nat where "OFP_PACKET_QUEUE_SIZE = 16"
definition OFP_QUEUE_GET_CONFIG_REPLY_PACK_STR :: format where "OFP_QUEUE_GET_CONFIG_REPLY_PACK_STR = [fI, FX 4]"
definition OFP_QUEUE_GET_CONFIG_REPLY_SIZE :: nat where "OFP_QUEUE_GET_CONFIG_REPLY_SIZE = 16"

definition OFPQueuePropMinRate_parser :: "bytes \<Rightarrow> nat \<Rightarrow> (queue_prop \<times> int) res" where
  "OFPQueuePropMinRate_parser buf offset =
     rbind (unpack1 OFP_QUEUE_PROP_MIN_RATE_PACK_STR buf offset) (\<lambda>rate. Inr (MinRate rate, OFP_QUEUE_PROP_MIN_RATE_SIZE))"

definition OFPQueuePropMaxRate_parser :: "bytes \<Rightarrow> nat \<Rightarrow> (queue_prop \<times> int) res" where
  "OFPQueuePropMaxRate_parser buf offset =
     rbind (unpack1 OFP_QUEUE_PROP_MAX_RATE_PACK_STR buf offset) (\<lambda>rate. Inr (MaxRate rate, OFP_QUEUE_PROP_MAX_RATE_SIZE))"

text \<open>A property of another kind has no class: \<^verbatim>\<open>None.parser\<close>.\<close>

definition OFPQueueProp_parser :: "bytes \<Rightarrow> nat \<Rightarrow> (queue_prop \<times> int) res" where
  "OFPQueueProp_parser buf offset =
     rbind (unpack2 OFP_QUEUE_PROP_HEADER_PACK_STR buf offset) (\<lambda>(property, len).
     let offset' = offset + OFP_QUEUE_PROP_HEADER_SIZE in
     if property = OFPQT_MIN_RATE then OFPQueuePropMinRate_parser buf offset'
     else if property = OFPQT_MAX_RATE then OFPQueuePropMaxRate_parser buf offset'
     else Inl AttributeErr)"

definition OFPPacketQueue_parser :: "bytes \<Rightarrow> nat \<Rightarrow> (packet_queue \<times> int) res option" where
  "OFPPacketQueue_parser buf offset =
     (case unpack_ints OFP_PACKET_QUEUE_PACK_STR buf offset of
        Inl e \<Rightarrow> Some (Inl e)
      | Inr [queue_id, port, len] \<Rightarrow>
          map_option (\<lambda>r. rbind r (\<lambda>properties.
            Inr (\<lparr>pq_queue_id = queue_id, pq_port = port, pq_properties = properties\<rparr>, len)))
            (parse_entries (\<lambda>b o'. Some (OFPQueueProp_parser b o')) buf (offset + OFP_PACKET_QUEUE_SIZE) (len - int OFP_PACKET_QUEUE_SIZE))
      | Inr _ \<Rightarrow> Some (Inl ValueErr))"

definition OFPQueueGetConfigReply_parser :: "bytes \<Rightarrow> int \<Rightarrow> (int \<times> packet_queue list) res option" where
  "OFPQueueGetConfigReply_parser buf msg_len =
     (case unpack1 OFP_QUEUE_GET_CONFIG_REPLY_PACK_STR buf OFP_HEADER_SIZE of
        Inl e \<Rightarrow> Some (Inl e)
      | Inr port \<Rightarrow>
          map_option (\<lambda>r. rbind r (\<lambda>queues. Inr (port, queues)))
            (parse_entries OFPPacketQueue_parser buf OFP_QUEUE_GET_CONFIG_REPLY_SIZE (msg_len - int OFP_QUEUE_GET_CONFIG_REPLY_SIZE)))"

section \<open>The body of a reply\<close>

datatype stats =
    StDesc of_desc
  | StFlow "flow_stats list"
  | StAggregate aggregate_stats
  | StTable "table_stats list"
  | StQueue "queue_stats list"
  | StGroup "group_stats list"
  | StGroupDesc "group_desc list"
  | StGroupFeatures group_features
  | StMeter "meter_stats list"
  | StMeterConfig "meter_config list"
  | StMeterFeatures "meter_features list"
  | StTableFeatures "table_features list"
  | StExperimenter experimenter_multipart

definition OFP_MULTIPART_REPLY_SIZE :: nat where "OFP_MULTIPART_REPLY_SIZE = 16"

text \<open>The loop of \<^verbatim>\<open>OFPMultipartReply.parser\<close> over the entries; with \<^verbatim>\<open>body_single_struct\<close> the first entry is the body.\<close>

definition stats_entries :: "(bytes \<Rightarrow> nat \<Rightarrow> ('a \<times> int) res option) \<Rightarrow> bytes \<Rightarrow> int \<Rightarrow> 'a list res option" where
  "stats_entries parse buf msg_len = parse_entries parse buf OFP_MULTIPART_REPLY_SIZE (msg_len - int OFP_MULTIPART_REPLY_SIZE)"

definition list_body :: "('a list \<Rightarrow> stats) \<Rightarrow> 'a list res option \<Rightarrow> stats res option" where
  "list_body c = map_option (\<lambda>r. rbind r (\<lambda>body. Inr (c body)))"

definition single_body :: "('a \<Rightarrow> stats) \<Rightarrow> 'a list res option \<Rightarrow> stats res option" where
  "single_body c = map_option (\<lambda>r. rbind r (\<lambda>body. case body of [] \<Rightarrow> Inl IndexErr | x # _ \<Rightarrow> Inr (c x)))"

definition OFPMP_DESC :: int where "OFPMP_DESC = 0"
definition OFPMP_FLOW :: int where "OFPMP_FLOW = 1"
definition OFPMP_AGGREGATE :: int where "OFPMP_AGGREGATE = 2"
definition OFPMP_TABLE :: int where "OFPMP_TABLE = 3"
definition OFPMP_QUEUE :: int where "OFPMP_QUEUE = 5"
definition OFPMP_GROUP :: int where "OFPMP_GROUP = 6"
definition OFPMP_GROUP_DESC :: int where "OFPMP_GROUP_DESC = 7"
definition OFPMP_GROUP_FEATURES :: int where "OFPMP_GROUP_FEATURES = 8"
definition OFPMP_METER :: int where "OFPMP_METER = 9"
definition OFPMP_METER_CONFIG :: int where "OFPMP_METER_CONFIG = 10"
definition OFPMP_METER_FEATURES :: int where "OFPMP_METER_FEATURES = 11"
definition OFPMP_TABLE_FEATURES :: int where "OFPMP_TABLE_FEATURES = 12"
definition OFPMP_EXPERIMENTER :: int where "OFPMP_EXPERIMENTER = 0xffff"

lemmas stats_types = OFPMP_DESC_def OFPMP_FLOW_def OFPMP_AGGREGATE_def OFPMP_TABLE_def OFPMP_QUEUE_def
  OFPMP_GROUP_def OFPMP_GROUP_DESC_def OFPMP_GROUP_FEATURES_def OFPMP_METER_def OFPMP_METER_CONFIG_def
  OFPMP_METER_FEATURES_def OFPMP_TABLE_FEATURES_def OFPMP_EXPERIMENTER_def

text \<open>\<^verbatim>\<open>_STATS_MSG_TYPES\<close>: a type that is not in the table gives \<^verbatim>\<open>None\<close>, and \<^verbatim>\<open>super(OFPMultipartReply, None).parser\<close>
  is an \<^verbatim>\<open>AttributeError\<close>.\<close>

definition other_stats :: "addrconv \<Rightarrow> int \<Rightarrow> bytes \<Rightarrow> int \<Rightarrow> stats res option" where
  "other_stats conv ty buf msg_len =
     (if ty = OFPMP_DESC then single_body StDesc (stats_entries (\<lambda>b o'. Some (OFPDescStats_parser b o')) buf msg_len)
      else if ty = OFPMP_FLOW then list_body StFlow (stats_entries (OFPFlowStats_parser conv) buf msg_len)
      else if ty = OFPMP_AGGREGATE then single_body StAggregate (stats_entries (\<lambda>b o'. Some (OFPAggregateStats_parser b o')) buf msg_len)
      else if ty = OFPMP_TABLE then list_body StTable (stats_entries (\<lambda>b o'. Some (OFPTableStats_parser b o')) buf msg_len)
      else if ty = OFPMP_QUEUE then list_body StQueue (stats_entries (\<lambda>b o'. Some (OFPQueueStats_parser b o')) buf msg_len)
      else if ty = OFPMP_GROUP then list_body StGroup (stats_entries OFPGroupStats_parser buf msg_len)
      else if ty = OFPMP_GROUP_DESC then list_body StGroupDesc (stats_entries (OFPGroupDescStats_parser conv) buf msg_len)
      else if ty = OFPMP_GROUP_FEATURES then single_body StGroupFeatures (stats_entries (\<lambda>b o'. Some (OFPGroupFeaturesStats_parser b o')) buf msg_len)
      else if ty = OFPMP_METER then list_body StMeter (stats_entries OFPMeterStats_parser buf msg_len)
      else if ty = OFPMP_METER_CONFIG then list_body StMeterConfig (stats_entries OFPMeterConfigStats_parser buf msg_len)
      else if ty = OFPMP_METER_FEATURES then list_body StMeterFeatures (stats_entries (\<lambda>b o'. Some (OFPMeterFeaturesStats_parser b o')) buf msg_len)
      else if ty = OFPMP_TABLE_FEATURES then list_body StTableFeatures (stats_entries OFPTableFeaturesStats_parser buf msg_len)
      else if ty = OFPMP_EXPERIMENTER then single_body StExperimenter (stats_entries (\<lambda>b o'. Some (OFPExperimenterMultipart_parser b o')) buf msg_len)
      else Some (Inl AttributeErr))"

section \<open>What a switch sends\<close>

text \<open>An entry of a list in the body of a reply: it stands after the sixteen bytes of the reply's head.\<close>

context wire_entry
begin

lemma reply_entries:
  assumes "\<forall>x \<in> set xs. ok x" and "length pre = 16" and "msg_len = 16 + int (length (concat (map wire xs)))"
  shows "stats_entries parse (pre @ concat (map wire xs) @ post) msg_len = Some (Inr xs)"
  unfolding stats_entries_def by (rule entries_at [OF assms(1)]) (simp_all add: assms(2,3) OFP_MULTIPART_REPLY_SIZE_def)

end

text \<open>A flow: its numbers, the match and the instructions, written as in a flow modification.\<close>

definition flow_stats_ok :: "addrconv \<Rightarrow> flow_stats \<Rightarrow> bool" where
  "flow_stats_ok conv f \<longleftrightarrow> in_range 1 (fs_table_id f) \<and> in_range 4 (fs_duration_sec f) \<and> in_range 4 (fs_duration_nsec f)
     \<and> in_range 2 (fs_priority f) \<and> in_range 2 (fs_idle_timeout f) \<and> in_range 2 (fs_hard_timeout f) \<and> in_range 2 (fs_flags f)
     \<and> in_range 8 (fs_cookie f) \<and> in_range 8 (fs_packet_count f) \<and> in_range 8 (fs_byte_count f)
     \<and> (\<forall>uf \<in> set (fs_match f). field_canon conv uf) \<and> (\<forall>i \<in> set (fs_instructions f). instruction_ok conv i)
     \<and> 48 + length (match_wire conv (fs_match f)) + length (instructions_wire conv (fs_instructions f)) < 65536"

definition flow_stats_wire :: "addrconv \<Rightarrow> flow_stats \<Rightarrow> bytes" where
  "flow_stats_wire conv f =
     be_bytes 2 (int (48 + length (match_wire conv (fs_match f)) + length (instructions_wire conv (fs_instructions f))))
     @ be_bytes 1 (fs_table_id f) @ [0] @ be_bytes 4 (fs_duration_sec f) @ be_bytes 4 (fs_duration_nsec f)
     @ be_bytes 2 (fs_priority f) @ be_bytes 2 (fs_idle_timeout f) @ be_bytes 2 (fs_hard_timeout f) @ be_bytes 2 (fs_flags f)
     @ replicate 4 0 @ be_bytes 8 (fs_cookie f) @ be_bytes 8 (fs_packet_count f) @ be_bytes 8 (fs_byte_count f)
     @ match_wire conv (fs_match f) @ instructions_wire conv (fs_instructions f)"

lemma length_flow_stats_wire [simp]: "length (flow_stats_wire conv f) =
   48 + length (match_wire conv (fs_match f)) + length (instructions_wire conv (fs_instructions f))"
  by (simp add: flow_stats_wire_def)

lemma flow_stats_parser_wire:
  assumes f: "flow_stats_ok conv f"
  shows "OFPFlowStats_parser conv (pre @ flow_stats_wire conv f @ post) (length pre) =
    Some (Inr (f, int (length (flow_stats_wire conv f))))"
proof -
  let ?m = "match_wire conv (fs_match f)" and ?i = "instructions_wire conv (fs_instructions f)"
  let ?len = "48 + length ?m + length ?i"
  let ?buf = "pre @ flow_stats_wire conv f @ post"
  have len: "0 \<le> int ?len" "int ?len < 65536" using f by (simp_all add: flow_stats_ok_def)
  have u: "unpack_ints OFP_FLOW_STATS_0_PACK_STR ?buf (length pre) =
      Inr [int ?len, fs_table_id f, fs_duration_sec f, fs_duration_nsec f, fs_priority f, fs_idle_timeout f, fs_hard_timeout f,
        fs_flags f, fs_cookie f, fs_packet_count f, fs_byte_count f]"
    using f len by (simp add: unpack_ints_def unpack_from_def ints_of_def OFP_FLOW_STATS_0_PACK_STR_def flow_stats_wire_def
        flow_stats_ok_def in_range_def)
  have fw: "4 + length (fields_wire conv (fs_match f)) < 65536"
    using f match_wire_length [of conv "fs_match f"] round_up_8(1) [of "4 + length (fields_wire conv (fs_match f))"]
    by (simp add: flow_stats_ok_def)
  have head: "take 48 (flow_stats_wire conv f) @ ?m @ ?i = flow_stats_wire conv f" "length (take 48 (flow_stats_wire conv f)) = 48"
    by (simp_all add: flow_stats_wire_def)
  then have buf: "?buf = (pre @ take 48 (flow_stats_wire conv f)) @ ?m @ ?i @ post"
    and buf': "?buf = (pre @ take 48 (flow_stats_wire conv f) @ ?m) @ ?i @ post"
    by (metis append_assoc)+
  have m: "match_parser conv ?buf (length pre + 48) = Inr (OFPMT_OXM, 4 + int (length (fields_wire conv (fs_match f))), fs_match f)"
    unfolding buf using match_parser_wire [OF _ fw, of "pre @ take 48 (flow_stats_wire conv f)" "?i @ post"] f head(2)
    by (simp add: flow_stats_ok_def)
  have "parse_entries (OFPInstruction_parser conv) ?buf (length pre + 48 + length ?m) (int (length ?i)) = Some (Inr (fs_instructions f))"
    unfolding buf' instructions_wire_def
    by (rule insts.entries_at) (use f head(2) in \<open>simp_all add: flow_stats_ok_def\<close>)
  moreover have "nat (4 + int (length (fields_wire conv (fs_match f)))) = 4 + length (fields_wire conv (fs_match f))" by simp
  ultimately show ?thesis
    by (simp add: OFPFlowStats_parser_def u m OFP_FLOW_STATS_0_SIZE_def OFP_FLOW_STATS_SIZE_def OFP_MATCH_SIZE_def Let_def
        match_wire_length [symmetric])
qed

interpretation flows: wire_entry "OFPFlowStats_parser conv" "flow_stats_wire conv" "flow_stats_ok conv"
  by unfold_locales (use flow_stats_parser_wire in \<open>auto simp flip: length_0_conv\<close>)

text \<open>A group and a meter: a head and the buckets or bands of the modification that made it.\<close>

definition group_desc_ok :: "addrconv \<Rightarrow> group_desc \<Rightarrow> bool" where
  "group_desc_ok conv g \<longleftrightarrow> in_range 1 (gd_type g) \<and> in_range 4 (gd_group_id g) \<and> (\<forall>b \<in> set (gd_buckets g). bucket_ok conv b)
     \<and> length (buckets_wire conv (gd_buckets g)) < 65500"

definition group_desc_wire :: "addrconv \<Rightarrow> group_desc \<Rightarrow> bytes" where
  "group_desc_wire conv g = be_bytes 2 (int (8 + length (buckets_wire conv (gd_buckets g)))) @ be_bytes 1 (gd_type g) @ [0]
     @ be_bytes 4 (gd_group_id g) @ buckets_wire conv (gd_buckets g)"

lemma group_desc_parser_wire:
  assumes g: "group_desc_ok conv g"
  shows "OFPGroupDescStats_parser conv (pre @ group_desc_wire conv g @ post) (length pre) =
    Some (Inr (g, int (length (group_desc_wire conv g))))"
proof -
  let ?w = "buckets_wire conv (gd_buckets g)" and ?buf = "pre @ group_desc_wire conv g @ post"
  have u: "unpack_ints OFP_GROUP_DESC_STATS_PACK_STR ?buf (length pre) = Inr [int (8 + length ?w), gd_type g, gd_group_id g]"
    using g by (simp add: unpack_ints_def unpack_from_def ints_of_def OFP_GROUP_DESC_STATS_PACK_STR_def group_desc_wire_def
        group_desc_ok_def in_range_def)
  have "parse_entries (OFPBucket_parser conv) ?buf (length pre + 8) (int (length ?w)) = Some (Inr (gd_buckets g))"
    using g buckets.entries_at [of "gd_buckets g" conv "pre @ take 8 (group_desc_wire conv g)" "length pre + 8" "int (length ?w)" post]
    by (simp add: group_desc_ok_def group_desc_wire_def buckets_wire_def)
  with u show ?thesis by (simp add: OFPGroupDescStats_parser_def OFP_GROUP_DESC_STATS_SIZE_def group_desc_wire_def)
qed

interpretation group_descs: wire_entry "OFPGroupDescStats_parser conv" "group_desc_wire conv" "group_desc_ok conv"
  by unfold_locales (use group_desc_parser_wire in \<open>auto simp: group_desc_wire_def simp flip: length_0_conv\<close>)

definition meter_config_ok :: "meter_config \<Rightarrow> bool" where
  "meter_config_ok m \<longleftrightarrow> in_range 2 (mc_flags m) \<and> in_range 4 (mc_meter_id m) \<and> (\<forall>b \<in> set (mc_bands m). band_ok b)
     \<and> length (bands_wire (mc_bands m)) < 65500"

definition meter_config_wire :: "meter_config \<Rightarrow> bytes" where
  "meter_config_wire m = be_bytes 2 (int (8 + length (bands_wire (mc_bands m)))) @ be_bytes 2 (mc_flags m)
     @ be_bytes 4 (mc_meter_id m) @ bands_wire (mc_bands m)"

lemma meter_config_parser_wire:
  assumes m: "meter_config_ok m"
  shows "OFPMeterConfigStats_parser (pre @ meter_config_wire m @ post) (length pre) = Some (Inr (m, int (length (meter_config_wire m))))"
proof -
  let ?w = "bands_wire (mc_bands m)" and ?buf = "pre @ meter_config_wire m @ post"
  have u: "unpack_ints OFP_METER_CONFIG_PACK_STR ?buf (length pre) = Inr [int (8 + length ?w), mc_flags m, mc_meter_id m]"
    using m by (simp add: unpack_ints_def unpack_from_def ints_of_def OFP_METER_CONFIG_PACK_STR_def meter_config_wire_def
        meter_config_ok_def in_range_def)
  have "parse_entries parse_band ?buf (length pre + 8) (int (length ?w)) = Some (Inr (mc_bands m))"
    using m bands.entries_at [of "mc_bands m" "pre @ take 8 (meter_config_wire m)" "length pre + 8" "int (length ?w)" post]
    by (simp add: meter_config_ok_def meter_config_wire_def bands_wire_def)
  with u show ?thesis by (simp add: OFPMeterConfigStats_parser_def OFP_METER_CONFIG_SIZE_def meter_config_wire_def)
qed

interpretation meter_configs: wire_entry OFPMeterConfigStats_parser meter_config_wire meter_config_ok
  by unfold_locales (use meter_config_parser_wire in \<open>auto simp: meter_config_wire_def simp flip: length_0_conv\<close>)

section \<open>What was written is reported\<close>

text \<open>C36: the buckets of a group modification and the bands of a meter modification that fit are bytes from which the
  descriptions of the group and of the meter are read back: the same type and number, the same buckets with their
  actions, the same bands, in their order.\<close>

theorem modifications_described:
  assumes "in_range 2 command" "in_range 1 ty" "in_range 4 group_id" "\<forall>b \<in> set bs. bucket_ok conv b" "length (buckets_wire conv bs) < 65500"
    and "in_range 2 flags" "in_range 4 meter_id" "\<forall>b \<in> set ms. band_ok b" "length (bands_wire ms) < 65500"
  shows "(\<exists>w. OFPGroupMod_serialize_body conv command ty group_id bs (replicate 8 0) =
        Inr (replicate 8 0 @ (be_bytes 2 command @ be_bytes 1 ty @ [0] @ be_bytes 4 group_id) @ w) \<and>
      (\<forall>pre post. length pre = 16 \<longrightarrow> other_stats conv OFPMP_GROUP_DESC
          (pre @ (be_bytes 2 (int (8 + length w)) @ be_bytes 1 ty @ [0] @ be_bytes 4 group_id @ w) @ post) (int (24 + length w)) =
        Some (Inr (StGroupDesc [\<lparr>gd_type = ty, gd_group_id = group_id, gd_buckets = bs\<rparr>])))) \<and>
    (\<exists>w. OFPMeterMod_serialize_body command flags meter_id ms (replicate 8 0) =
        Inr (replicate 8 0 @ (be_bytes 2 command @ be_bytes 2 flags @ be_bytes 4 meter_id) @ w) \<and>
      (\<forall>pre post. length pre = 16 \<longrightarrow> other_stats conv OFPMP_METER_CONFIG
          (pre @ (be_bytes 2 (int (8 + length w)) @ be_bytes 2 flags @ be_bytes 4 meter_id @ w) @ post) (int (24 + length w)) =
        Some (Inr (StMeterConfig [\<lparr>mc_flags = flags, mc_meter_id = meter_id, mc_bands = ms\<rparr>]))))"
proof (rule conjI)
  let ?g = "\<lparr>gd_type = ty, gd_group_id = group_id, gd_buckets = bs\<rparr>" and ?w = "buckets_wire conv bs"
  have g: "\<forall>x \<in> set [?g]. group_desc_ok conv x" using assms by (simp add: group_desc_ok_def)
  have "other_stats conv OFPMP_GROUP_DESC
        (pre @ (be_bytes 2 (int (8 + length ?w)) @ be_bytes 1 ty @ [0] @ be_bytes 4 group_id @ ?w) @ post) (int (24 + length ?w)) =
      Some (Inr (StGroupDesc [?g]))" if "length pre = 16" for pre post
    using group_descs.reply_entries [OF g that, of "int (24 + length ?w)" post]
    by (simp add: other_stats_def list_body_def stats_types group_desc_wire_def)
  with group_mod_end [OF assms(1-4)] show "\<exists>w. OFPGroupMod_serialize_body conv command ty group_id bs (replicate 8 0) =
        Inr (replicate 8 0 @ (be_bytes 2 command @ be_bytes 1 ty @ [0] @ be_bytes 4 group_id) @ w) \<and>
      (\<forall>pre post. length pre = 16 \<longrightarrow> other_stats conv OFPMP_GROUP_DESC
          (pre @ (be_bytes 2 (int (8 + length w)) @ be_bytes 1 ty @ [0] @ be_bytes 4 group_id @ w) @ post) (int (24 + length w)) =
        Some (Inr (StGroupDesc [?g])))" by blast
next
  let ?m = "\<lparr>mc_flags = flags, mc_meter_id = meter_id, mc_bands = ms\<rparr>" and ?w = "bands_wire ms"
  have m: "\<forall>x \<in> set [?m]. meter_config_ok x" using assms by (simp add: meter_config_ok_def)
  have "other_stats conv OFPMP_METER_CONFIG
        (pre @ (be_bytes 2 (int (8 + length ?w)) @ be_bytes 2 flags @ be_bytes 4 meter_id @ ?w) @ post) (int (24 + length ?w)) =
      Some (Inr (StMeterConfig [?m]))" if "length pre = 16" for pre post
    using meter_configs.reply_entries [OF m that, of "int (24 + length ?w)" post]
    by (simp add: other_stats_def list_body_def stats_types meter_config_wire_def)
  with meter_mod_end [OF assms(1,6-8)] show "\<exists>w. OFPMeterMod_serialize_body command flags meter_id ms (replicate 8 0) =
        Inr (replicate 8 0 @ (be_bytes 2 command @ be_bytes 2 flags @ be_bytes 4 meter_id) @ w) \<and>
      (\<forall>pre post. length pre = 16 \<longrightarrow> other_stats conv OFPMP_METER_CONFIG
          (pre @ (be_bytes 2 (int (8 + length w)) @ be_bytes 2 flags @ be_bytes 4 meter_id @ w) @ post) (int (24 + length w)) =
        Some (Inr (StMeterConfig [?m])))" by blast
qed

theorem modifications_described_demo:
  "(\<exists>w. OFPGroupMod_serialize_body demo_conv 0 1 5 [\<lparr>b_weight = 50, b_watch_port = 0, b_watch_group = 0, b_actions = [PopVlan, ActionNX demo_learn, Output 2 128]\<rparr>]
        (replicate 8 0) = Inr (replicate 8 0 @ (be_bytes 2 0 @ be_bytes 1 1 @ [0] @ be_bytes 4 5) @ w) \<and>
      (\<forall>pre post. length pre = 16 \<longrightarrow> other_stats demo_conv OFPMP_GROUP_DESC
          (pre @ (be_bytes 2 (int (8 + length w)) @ be_bytes 1 1 @ [0] @ be_bytes 4 5 @ w) @ post) (int (24 + length w)) =
        Some (Inr (StGroupDesc [\<lparr>gd_type = 1, gd_group_id = 5,
          gd_buckets = [\<lparr>b_weight = 50, b_watch_port = 0, b_watch_group = 0, b_actions = [PopVlan, ActionNX demo_learn, Output 2 128]\<rparr>]\<rparr>])))) \<and>
   (\<exists>w. OFPMeterMod_serialize_body 0 1 9 [BandDrop 1000 100, BandDscpRemark 500 50 2] (replicate 8 0) =
        Inr (replicate 8 0 @ (be_bytes 2 0 @ be_bytes 2 1 @ be_bytes 4 9) @ w) \<and>
      (\<forall>pre post. length pre = 16 \<longrightarrow> other_stats demo_conv OFPMP_METER_CONFIG
          (pre @ (be_bytes 2 (int (8 + length w)) @ be_bytes 2 1 @ be_bytes 4 9 @ w) @ post) (int (24 + length w)) =
        Some (Inr (StMeterConfig [\<lparr>mc_flags = 1, mc_meter_id = 9, mc_bands = [BandDrop 1000 100, BandDscpRemark 500 50 2]\<rparr>]))))"
proof -
  let ?b = "\<lparr>b_weight = 50, b_watch_port = 0, b_watch_group = 0, b_actions = [PopVlan, ActionNX demo_learn, Output 2 128]\<rparr>"
  have b: "\<forall>b \<in> set [?b]. bucket_ok demo_conv b" by (simp add: bucket_ok_def action_ok_def in_range_def demo_learn_ok)
  then have "length (actions_wire demo_conv (b_actions ?b)) \<le> 765"
    using actions_wire_length [of "b_actions ?b" demo_conv] by (simp add: bucket_ok_def)
  then have lb: "length (buckets_wire demo_conv [?b]) < 65500" by (simp add: buckets_wire_def)
  have m: "\<forall>x \<in> set [BandDrop 1000 100, BandDscpRemark 500 50 2]. band_ok x" by (simp add: band_ok_def in_range_def)
  then have lm: "length (bands_wire [BandDrop 1000 100, BandDscpRemark 500 50 2]) < 65500"
    by (simp add: bands_wire_def band_roundtrip(2))
  note d = modifications_described [where command = 0 and ty = 1 and group_id = 5 and flags = 1 and meter_id = 9
      and conv = demo_conv, OF _ _ _ b lb _ _ m lm]
  show ?thesis by (rule d) (simp_all add: in_range_def)
qed

text \<open>C6: a switch that keeps the match and the instructions of a flow modification as they arrived and reports the flow
  in its statistics, with any counters, is understood: the report is read as a flow of the same table, priority,
  timeouts, flags and cookie, with the match fields and the instructions that the controller gave.\<close>

theorem installed_flow_reported:
  assumes "flow_mod_ok conv m"
    and "in_range 4 sec" "in_range 4 nsec" "in_range 8 packets" "in_range 8 byts"
  shows "\<exists>head rest ufs js. OFPFlowMod_serialize_body conv m (replicate 8 0) = Inr (head @ rest) \<and> length head = 48 \<and>
    mset ufs = mset (map match_field (fm_match m)) \<and> rmap actions_instruction (fm_instructions m) = Inr js \<and>
    (\<forall>pre post. length pre = 16 \<longrightarrow> other_stats conv OFPMP_FLOW
       (pre @ (be_bytes 2 (int (48 + length rest)) @ be_bytes 1 (fm_table_id m) @ [0] @ be_bytes 4 sec @ be_bytes 4 nsec
          @ be_bytes 2 (fm_priority m) @ be_bytes 2 (fm_idle_timeout m) @ be_bytes 2 (fm_hard_timeout m) @ be_bytes 2 (fm_flags m)
          @ replicate 4 0 @ be_bytes 8 (fm_cookie m) @ be_bytes 8 packets @ be_bytes 8 byts @ rest) @ post)
       (int (64 + length rest)) =
     Some (Inr (StFlow [\<lparr>fs_table_id = fm_table_id m, fs_duration_sec = sec, fs_duration_nsec = nsec, fs_priority = fm_priority m,
       fs_idle_timeout = fm_idle_timeout m, fs_hard_timeout = fm_hard_timeout m, fs_flags = fm_flags m, fs_cookie = fm_cookie m,
       fs_packet_count = packets, fs_byte_count = byts, fs_match = ufs, fs_instructions = js\<rparr>])))"
proof -
  from flow_mod_body_end [OF assms(1)] obtain F ufs js where
    b: "OFPFlowMod_serialize_body conv m (replicate 8 0) = Inr (replicate 8 0 @ F @ match_wire conv ufs @ instructions_wire conv js)"
      "length F = 40" "mset ufs = mset (map match_field (fm_match m))" "\<forall>uf \<in> set ufs. field_canon conv uf"
      "rmap actions_instruction (fm_instructions m) = Inr js" "\<forall>j \<in> set js. instruction_ok conv j"
      "48 + length (match_wire conv ufs) + length (instructions_wire conv js) < 65536" by blast
  let ?rest = "match_wire conv ufs @ instructions_wire conv js"
  let ?f = "\<lparr>fs_table_id = fm_table_id m, fs_duration_sec = sec, fs_duration_nsec = nsec, fs_priority = fm_priority m,
       fs_idle_timeout = fm_idle_timeout m, fs_hard_timeout = fm_hard_timeout m, fs_flags = fm_flags m, fs_cookie = fm_cookie m,
       fs_packet_count = packets, fs_byte_count = byts, fs_match = ufs, fs_instructions = js\<rparr>"
  have f: "\<forall>x \<in> set [?f]. flow_stats_ok conv x" using assms b(4,6,7) by (simp add: flow_stats_ok_def flow_mod_ok_def)
  have w: "flow_stats_wire conv ?f = be_bytes 2 (int (48 + length ?rest)) @ be_bytes 1 (fm_table_id m) @ [0] @ be_bytes 4 sec
      @ be_bytes 4 nsec @ be_bytes 2 (fm_priority m) @ be_bytes 2 (fm_idle_timeout m) @ be_bytes 2 (fm_hard_timeout m)
      @ be_bytes 2 (fm_flags m) @ replicate 4 0 @ be_bytes 8 (fm_cookie m) @ be_bytes 8 packets @ be_bytes 8 byts @ ?rest"
    by (simp add: flow_stats_wire_def add.assoc)
  have "other_stats conv OFPMP_FLOW (pre @ flow_stats_wire conv ?f @ post) (int (64 + length ?rest)) = Some (Inr (StFlow [?f]))"
    if "length pre = 16" for pre post
    using flows.reply_entries [OF f that, of "int (64 + length ?rest)" post]
    by (simp add: other_stats_def list_body_def stats_types)
  then show ?thesis using b(1-3,5) unfolding w
    by (intro exI [of _ "replicate 8 0 @ F"] exI [of _ ?rest] exI [of _ ufs] exI [of _ js]) simp
qed

theorem installed_flow_reported_demo:
  "\<exists>head rest ufs js. OFPFlowMod_serialize_body demo_conv demo_flow (replicate 8 0) = Inr (head @ rest) \<and> length head = 48 \<and>
    mset ufs = mset (map match_field (fm_match demo_flow)) \<and> rmap actions_instruction (fm_instructions demo_flow) = Inr js \<and>
    (\<forall>pre post. length pre = 16 \<longrightarrow> other_stats demo_conv OFPMP_FLOW
       (pre @ (be_bytes 2 (int (48 + length rest)) @ be_bytes 1 (fm_table_id demo_flow) @ [0] @ be_bytes 4 60 @ be_bytes 4 0
          @ be_bytes 2 (fm_priority demo_flow) @ be_bytes 2 (fm_idle_timeout demo_flow) @ be_bytes 2 (fm_hard_timeout demo_flow)
          @ be_bytes 2 (fm_flags demo_flow) @ replicate 4 0 @ be_bytes 8 (fm_cookie demo_flow) @ be_bytes 8 10 @ be_bytes 8 840 @ rest)
          @ post) (int (64 + length rest)) =
     Some (Inr (StFlow [\<lparr>fs_table_id = fm_table_id demo_flow, fs_duration_sec = 60, fs_duration_nsec = 0,
       fs_priority = fm_priority demo_flow, fs_idle_timeout = fm_idle_timeout demo_flow, fs_hard_timeout = fm_hard_timeout demo_flow,
       fs_flags = fm_flags demo_flow, fs_cookie = fm_cookie demo_flow, fs_packet_count = 10, fs_byte_count = 840,
       fs_match = ufs, fs_instructions = js\<rparr>])))"
  by (rule installed_flow_reported [OF demo_flow_ok]) (simp_all add: in_range_def)

section \<open>When reading ends\<close>

text \<open>A reply whose entries have a fixed size is read in finite time, whatever its bytes are.\<close>

lemma fixed_entries:
  assumes "0 < k" and "\<And>b o' x len. P b o' = Inr (x, len) \<Longrightarrow> len = k"
  shows "stats_entries (\<lambda>b o'. Some (P b o')) buf msg_len \<noteq> None"
  unfolding stats_entries_def by (rule parse_entries_returns) (use assms in \<open>simp, fastforce\<close>)

lemma bodies_None [simp]: "list_body c r = None \<longleftrightarrow> r = None" "single_body c' r' = None \<longleftrightarrow> r' = None"
  by (simp_all add: list_body_def single_body_def)

lemma fixed_lengths:
  "OFPDescStats_parser b n = Inr (d, len) \<Longrightarrow> len = OFP_DESC_SIZE"
  "OFPAggregateStats_parser b n = Inr (a, len) \<Longrightarrow> len = OFP_AGGREGATE_STATS_REPLY_SIZE"
  "OFPTableStats_parser b n = Inr (t, len) \<Longrightarrow> len = OFP_TABLE_STATS_SIZE"
  "OFPQueueStats_parser b n = Inr (q, len) \<Longrightarrow> len = OFP_QUEUE_STATS_SIZE"
  "OFPGroupFeaturesStats_parser b n = Inr (g, len) \<Longrightarrow> len = OFP_GROUP_FEATURES_SIZE"
  "OFPMeterFeaturesStats_parser b n = Inr (m, len) \<Longrightarrow> len = OFP_METER_FEATURES_SIZE"
  "OFPExperimenterMultipart_parser b n = Inr (e, len) \<Longrightarrow> len = OFP_METER_FEATURES_SIZE"
  unfolding OFPDescStats_parser_def OFPAggregateStats_parser_def OFPTableStats_parser_def OFPQueueStats_parser_def
    OFPGroupFeaturesStats_parser_def OFPMeterFeaturesStats_parser_def OFPExperimenterMultipart_parser_def
  by (auto dest!: rbind_InrD split: list.split_asm pyval.split_asm)

lemmas fixed_sizes = OFP_DESC_SIZE_def OFP_AGGREGATE_STATS_REPLY_SIZE_def OFP_TABLE_STATS_SIZE_def OFP_QUEUE_STATS_SIZE_def
  OFP_GROUP_FEATURES_SIZE_def OFP_METER_FEATURES_SIZE_def

lemma fixed_stats_end:
  assumes "ty \<in> {OFPMP_DESC, OFPMP_AGGREGATE, OFPMP_TABLE, OFPMP_QUEUE, OFPMP_GROUP_FEATURES, OFPMP_METER_FEATURES, OFPMP_EXPERIMENTER}"
  shows "other_stats conv ty buf msg_len \<noteq> None"
proof -
  have "stats_entries (\<lambda>b o'. Some (OFPDescStats_parser b o')) buf msg_len \<noteq> None"
    "stats_entries (\<lambda>b o'. Some (OFPAggregateStats_parser b o')) buf msg_len \<noteq> None"
    "stats_entries (\<lambda>b o'. Some (OFPTableStats_parser b o')) buf msg_len \<noteq> None"
    "stats_entries (\<lambda>b o'. Some (OFPQueueStats_parser b o')) buf msg_len \<noteq> None"
    "stats_entries (\<lambda>b o'. Some (OFPGroupFeaturesStats_parser b o')) buf msg_len \<noteq> None"
    "stats_entries (\<lambda>b o'. Some (OFPMeterFeaturesStats_parser b o')) buf msg_len \<noteq> None"
    "stats_entries (\<lambda>b o'. Some (OFPExperimenterMultipart_parser b o')) buf msg_len \<noteq> None"
    by (rule fixed_entries [rotated], erule fixed_lengths, simp add: fixed_sizes)+
  note ends = this
  from assms consider "ty = 0" | "ty = 2" | "ty = 3" | "ty = 5" | "ty = 8" | "ty = 11" | "ty = 0xffff"
    by (auto simp: stats_types)
  then show ?thesis by cases (simp_all only: other_stats_def stats_types, simp_all add: ends)
qed

text \<open>An entry that says that it is empty.\<close>

lemma empty_list [simp]: "left \<le> 0 \<Longrightarrow> parse_entries parse buf offset left = Some (Inr [])"
  by (rule parse_entries_end)

lemma stuck_stats:
  assumes "parse buf 16 = Some (Inr (x, 0))" and "16 < msg_len"
  shows "stats_entries parse buf msg_len = None"
  unfolding stats_entries_def OFP_MULTIPART_REPLY_SIZE_def
  by (rule parse_entries_stuck [where parse = parse and x = x]) (use assms in simp_all)

lemma be_int_00 [simp]: "be_int [0, 0] = 0"
  by (simp add: be_int_def)

text \<open>C39: reading a multipart reply ends for every buffer when the entries have a fixed size: descriptions, aggregates,
  tables, queues, features of groups and of meters, experimenters. For groups, their descriptions and the
  configurations of meters the entries declare their length, and a first entry that declares the length zero, in a buffer that
  holds its fixed part (56 bytes) and a message longer than its header, keeps the receive loop of the connection busy for ever.\<close>

theorem stats_reading_ends:
  "(ty \<in> {OFPMP_DESC, OFPMP_AGGREGATE, OFPMP_TABLE, OFPMP_QUEUE, OFPMP_GROUP_FEATURES, OFPMP_METER_FEATURES, OFPMP_EXPERIMENTER}
      \<longrightarrow> other_stats conv ty buf msg_len \<noteq> None)
   \<and> (ty \<in> {OFPMP_GROUP, OFPMP_GROUP_DESC, OFPMP_METER_CONFIG} \<longrightarrow> take 2 (drop 16 buf) = [0, 0] \<longrightarrow> 56 \<le> length buf \<longrightarrow> 16 < msg_len
      \<longrightarrow> other_stats conv ty buf msg_len = None)"
proof (intro conjI impI)
  assume "ty \<in> {OFPMP_DESC, OFPMP_AGGREGATE, OFPMP_TABLE, OFPMP_QUEUE, OFPMP_GROUP_FEATURES, OFPMP_METER_FEATURES, OFPMP_EXPERIMENTER}"
  then show "other_stats conv ty buf msg_len \<noteq> None" by (rule fixed_stats_end)
next
  assume ty: "ty \<in> {OFPMP_GROUP, OFPMP_GROUP_DESC, OFPMP_METER_CONFIG}" and z: "take 2 (drop 16 buf) = [0, 0]"
    and len: "56 \<le> length buf" "16 < msg_len"
  have "\<exists>g. OFPGroupStats_parser buf 16 = Some (Inr (g, 0))"
    using z len(1) by (simp add: OFPGroupStats_parser_def unpack_ints_def unpack_from_def ints_of_def OFP_GROUP_STATS_PACK_STR_def
        OFP_GROUP_STATS_SIZE_def)
  then have g: "stats_entries OFPGroupStats_parser buf msg_len = None"
    using stuck_stats [where parse = OFPGroupStats_parser, OF _ len(2)] by (elim exE) simp
  have "\<exists>d. OFPGroupDescStats_parser conv buf 16 = Some (Inr (d, 0))"
    using z len(1) by (simp add: OFPGroupDescStats_parser_def unpack_ints_def unpack_from_def ints_of_def
        OFP_GROUP_DESC_STATS_PACK_STR_def OFP_GROUP_DESC_STATS_SIZE_def)
  then have d: "stats_entries (OFPGroupDescStats_parser conv) buf msg_len = None"
    using stuck_stats [where parse = "(OFPGroupDescStats_parser conv)", OF _ len(2)] by (elim exE) simp
  have "\<exists>m. OFPMeterConfigStats_parser buf 16 = Some (Inr (m, 0))"
    using z len(1) by (simp add: OFPMeterConfigStats_parser_def unpack_ints_def unpack_from_def ints_of_def
        OFP_METER_CONFIG_PACK_STR_def OFP_METER_CONFIG_SIZE_def)
  then have m: "stats_entries OFPMeterConfigStats_parser buf msg_len = None"
    using stuck_stats [where parse = OFPMeterConfigStats_parser, OF _ len(2)] by (elim exE) simp
  from ty consider "ty = 6" | "ty = 7" | "ty = 10" by (auto simp: stats_types)
  then show "other_stats conv ty buf msg_len = None"
    by cases (simp_all only: other_stats_def stats_types, simp_all add: g d m)
qed

theorem stats_reading_ends_demo:
  "other_stats demo_conv OFPMP_DESC [] 99 \<noteq> None \<and>
   other_stats demo_conv OFPMP_GROUP (replicate 56 0) 56 = None"
  using stats_reading_ends [of OFPMP_DESC demo_conv "[]" 99]
    stats_reading_ends [of OFPMP_GROUP demo_conv "replicate 56 0" 56]
  by (simp add: numeral_2_eq_2)

text \<open>A reply of an experimenter with more than eight bytes of data is parsed again, sixteen bytes further on; when less
  than eight bytes are there the whole message is lost.\<close>

lemma experimenter_reply_lost:
  "length buf = 34 \<Longrightarrow> other_stats conv OFPMP_EXPERIMENTER buf 34 = Some (Inl struct_error)"
proof -
  assume l: "length buf = 34"
  define parse where "parse = (\<lambda>b o'. Some (OFPExperimenterMultipart_parser b o'))"
  have "\<exists>x. parse buf 16 = Some (Inr (x, 16))" and e: "parse buf 32 = Some (Inl struct_error)"
    using l by (simp_all add: parse_def OFPExperimenterMultipart_parser_def unpack2_def unpack_from_def
        OFP_EXPERIMENTER_MULTIPART_HEADER_PACK_STR_def OFP_METER_FEATURES_SIZE_def)
  then obtain x where x: "parse buf 16 = Some (Inr (x, 16))" by blast
  have "parse_entries parse buf 32 2 = Some (Inl struct_error)" by (rule parse_entries_error [of _ parse, OF _ e]) simp
  then have "parse_entries parse buf 16 18 = Some (Inl struct_error)"
    using parse_entries_step [of 18 parse, OF _ x] by simp
  then show ?thesis
    by (simp add: other_stats_def stats_types single_body_def stats_entries_def OFP_MULTIPART_REPLY_SIZE_def flip: parse_def)
qed

end
