(* ===== verification/OFParse.thy ===== *)
theory OFParse
  imports OFStats Datapath
begin

text \<open>
  Reading a message: \<^verbatim>\<open>ofproto_parser.msg\<close>, \<^verbatim>\<open>msg_parser\<close> and the classes of \<^verbatim>\<open>ofproto_v1_3_parser.py\<close> that a
  switch sends to this controller, and what the connection of \<^verbatim>\<open>Datapath\<close> makes of them. A parser gets the whole
  buffer of the receive loop, as in the code. The messages of other versions of the protocol are read by other parsers,
  which are an argument.
\<close>

section \<open>Messages\<close>

record packet_in =
  pi_buffer_id :: int
  pi_total_len :: int
  pi_reason :: int
  pi_table_id :: int
  pi_cookie :: int
  pi_match :: "user_field list"
  pi_data :: bytes

record flow_removed =
  fr_numbers :: "int list"
  fr_match :: "user_field list"

datatype in_msg =
    InHello "int list list"
  | InError int int bytes
  | InErrorExperimenter int int int bytes
  | InEchoRequest bytes
  | InEchoReply bytes
  | InExperimenter int int bytes
  | InSwitchFeatures int int int int int int
  | InGetConfigReply int int
  | InPacketIn packet_in
  | InFlowRemoved flow_removed
  | InPortStatus int of_port
  | InBarrierReply
  | InRoleReply int int
  | InGetAsyncReply "int list" "int list" "int list"
  | InPortStats int "port_stats list"
  | InPortDesc int "of_port list"
  | InStats int stats
  | InQueueConfig int "packet_queue list"

type_synonym other_versions = "of_header \<Rightarrow> bytes \<Rightarrow> in_msg res option"

section \<open>Hello\<close>

definition OFPHET_VERSIONBITMAP :: int where "OFPHET_VERSIONBITMAP = 1"

text \<open>The bitmaps of an element: \<^verbatim>\<open>while bitmaps_len >= 4\<close>.\<close>

function bitmaps :: "bytes \<Rightarrow> nat \<Rightarrow> int \<Rightarrow> int list res" where
  "bitmaps buf offset bitmaps_len =
     (if bitmaps_len \<ge> 4 then
        rbind (unpack1 [fI] buf offset) (\<lambda>b. rbind (bitmaps buf (offset + 4) (bitmaps_len - 4)) (\<lambda>bs. Inr (b # bs)))
      else Inr [])"
  by pat_completeness auto
termination
  by (relation "measure (\<lambda>(buf, offset, len). nat len)") auto

declare bitmaps.simps [simp del]

text \<open>\<^verbatim>\<open>for shift in range(31) if bitmap & (1 << shift)\<close>\<close>

definition bitmap_versions :: "int list \<Rightarrow> int list" where
  "bitmap_versions bs =
     concat (map (\<lambda>(i, bitmap). map (\<lambda>shift. int i * 32 + int shift)
       (filter (\<lambda>shift. bitmap AND push_bit shift 1 \<noteq> 0) [0..<31])) (enumerate 0 bs))"

definition OFPHelloElemVersionBitmap_parser :: "bytes \<Rightarrow> nat \<Rightarrow> int list res" where
  "OFPHelloElemVersionBitmap_parser buf offset =
     rbind (unpack2 [fH, fH] buf offset) (\<lambda>(ty, len).
     if ty \<noteq> OFPHET_VERSIONBITMAP then Inl AssertErr
     else rbind (bitmaps buf (offset + 4) (len - 4)) (\<lambda>bs. Inr (bitmap_versions bs)))"

text \<open>An element of length zero is read for ever.\<close>

partial_function (option) hello_elems :: "bytes \<Rightarrow> nat \<Rightarrow> int \<Rightarrow> int list list res option" where
  "hello_elems buf offset msg_len =
     (if \<not> int offset < msg_len then Some (Inr [])
      else (case rbind (unpack2 [fH, fH] buf offset) (\<lambda>(ty, len).
              if ty = OFPHET_VERSIONBITMAP then rbind (OFPHelloElemVersionBitmap_parser buf offset) (\<lambda>vs. Inr ([vs], len))
              else Inr ([], len)) of
          Inl e \<Rightarrow> Some (Inl e)
        | Inr el \<Rightarrow> Option.bind (hello_elems buf (nat (int offset + snd el)) msg_len)
            (\<lambda>r. Some (rbind r (\<lambda>els. Inr (fst el @ els))))))"

definition OFPHello_parser :: "of_header \<Rightarrow> bytes \<Rightarrow> in_msg res option" where
  "OFPHello_parser h buf = map_option (\<lambda>r. rbind r (\<lambda>els. Inr (InHello els))) (hello_elems buf 8 (h_len h))"

section \<open>Messages of one structure\<close>

definition OFPET_EXPERIMENTER :: int where "OFPET_EXPERIMENTER = 0xffff"

definition OFPErrorExperimenterMsg_parser :: "bytes \<Rightarrow> in_msg res" where
  "OFPErrorExperimenterMsg_parser buf =
     rbind (unpack3 [fH, fH, fI] buf OFP_HEADER_SIZE) (\<lambda>(ty, exp_type, experimenter).
     Inr (InErrorExperimenter ty exp_type experimenter (drop 16 buf)))"

definition OFPErrorMsg_parser :: "bytes \<Rightarrow> in_msg res" where
  "OFPErrorMsg_parser buf =
     rbind (unpack1 [fH] buf OFP_HEADER_SIZE) (\<lambda>ty0.
     if ty0 = OFPET_EXPERIMENTER then OFPErrorExperimenterMsg_parser buf
     else rbind (unpack2 [fH, fH] buf OFP_HEADER_SIZE) (\<lambda>(ty, code). Inr (InError ty code (drop 12 buf))))"

definition OFPEchoRequest_parser :: "bytes \<Rightarrow> in_msg res" where
  "OFPEchoRequest_parser buf = Inr (InEchoRequest (drop OFP_HEADER_SIZE buf))"

definition OFPEchoReply_parser :: "bytes \<Rightarrow> in_msg res" where
  "OFPEchoReply_parser buf = Inr (InEchoReply (drop OFP_HEADER_SIZE buf))"

definition OFPExperimenter_parser :: "bytes \<Rightarrow> in_msg res" where
  "OFPExperimenter_parser buf =
     rbind (unpack2 [fI, fI] buf OFP_HEADER_SIZE) (\<lambda>(experimenter, exp_type).
     Inr (InExperimenter experimenter exp_type (drop 16 buf)))"

definition OFP_SWITCH_FEATURES_PACK_STR :: format where "OFP_SWITCH_FEATURES_PACK_STR = [fQ, fI, fB, fB, FX 2, fI, fI]"

definition OFPSwitchFeatures_parser :: "bytes \<Rightarrow> in_msg res" where
  "OFPSwitchFeatures_parser buf =
     rbind (unpack_ints OFP_SWITCH_FEATURES_PACK_STR buf OFP_HEADER_SIZE) (\<lambda>vs. case vs of
       [datapath_id, n_buffers, n_tables, auxiliary_id, capabilities, reserved] \<Rightarrow>
         Inr (InSwitchFeatures datapath_id n_buffers n_tables auxiliary_id capabilities reserved)
     | _ \<Rightarrow> Inl ValueErr)"

definition OFPGetConfigReply_parser :: "bytes \<Rightarrow> in_msg res" where
  "OFPGetConfigReply_parser buf =
     rbind (unpack2 [fH, fH] buf OFP_HEADER_SIZE) (\<lambda>(flags, miss_send_len). Inr (InGetConfigReply flags miss_send_len))"

definition OFPRoleReply_parser :: "bytes \<Rightarrow> in_msg res" where
  "OFPRoleReply_parser buf =
     rbind (unpack2 [fI, FX 4, fQ] buf OFP_HEADER_SIZE) (\<lambda>(role, generation_id). Inr (InRoleReply role generation_id))"

definition OFPGetAsyncReply_parser :: "bytes \<Rightarrow> in_msg res" where
  "OFPGetAsyncReply_parser buf =
     rbind (unpack_ints [fI, fI, fI, fI, fI, fI] buf OFP_HEADER_SIZE) (\<lambda>vs. case vs of
       [pm, ps, sm, ss, fm, fs] \<Rightarrow> Inr (InGetAsyncReply [pm, ps] [sm, ss] [fm, fs]) | _ \<Rightarrow> Inl ValueErr)"

definition OFP_PACKET_IN_PACK_STR :: format where "OFP_PACKET_IN_PACK_STR = [fI, fH, fB, fB, fQ]"
definition OFP_PACKET_IN_SIZE :: nat where "OFP_PACKET_IN_SIZE = 32"

definition OFPPacketIn_parser :: "addrconv \<Rightarrow> bytes \<Rightarrow> in_msg res" where
  "OFPPacketIn_parser conv buf =
     rbind (unpack_ints OFP_PACKET_IN_PACK_STR buf OFP_HEADER_SIZE) (\<lambda>vs. case vs of
       [buffer_id, total_len, reason, table_id, cookie] \<Rightarrow>
         rbind (match_parser conv buf (OFP_PACKET_IN_SIZE - OFP_MATCH_SIZE)) (\<lambda>(ty, len, fields).
         let match_len = round_up (nat len) 8;
             data = drop (OFP_PACKET_IN_SIZE - OFP_MATCH_SIZE + match_len + 2) buf in
         Inr (InPacketIn \<lparr>pi_buffer_id = buffer_id, pi_total_len = total_len, pi_reason = reason, pi_table_id = table_id,
           pi_cookie = cookie, pi_match = fields,
           pi_data = (if total_len < int (length data) then take (nat total_len) data else data)\<rparr>))
     | _ \<Rightarrow> Inl ValueErr)"

definition OFP_FLOW_REMOVED_PACK_STR0 :: format where
  "OFP_FLOW_REMOVED_PACK_STR0 = [fQ, fH, fB, fB, fI, fI, fH, fH, fQ, fQ]"
definition OFP_FLOW_REMOVED_SIZE :: nat where "OFP_FLOW_REMOVED_SIZE = 56"

definition OFPFlowRemoved_parser :: "addrconv \<Rightarrow> bytes \<Rightarrow> in_msg res" where
  "OFPFlowRemoved_parser conv buf =
     rbind (unpack_ints OFP_FLOW_REMOVED_PACK_STR0 buf OFP_HEADER_SIZE) (\<lambda>vs.
     rbind (match_parser conv buf (OFP_FLOW_REMOVED_SIZE - OFP_MATCH_SIZE)) (\<lambda>(ty, len, fields).
     Inr (InFlowRemoved \<lparr>fr_numbers = vs, fr_match = fields\<rparr>)))"

section \<open>Ports and statistics\<close>

definition OFP_PORT_PACK_STR :: format where
  "OFP_PORT_PACK_STR = [fI, FX 4, FS 6, FX 2, FS 16, fI, fI, fI, fI, fI, fI, fI, fI]"
definition OFP_PORT_SIZE :: int where "OFP_PORT_SIZE = 64"

text \<open>The result is the port and its attribute \<^verbatim>\<open>length\<close>.\<close>

definition OFPPort_parser :: "addrconv \<Rightarrow> bytes \<Rightarrow> nat \<Rightarrow> (of_port \<times> int) res" where
  "OFPPort_parser conv buf offset =
     rbind (unpack_from OFP_PORT_PACK_STR buf offset) (\<lambda>vs. case vs of
       [VInt port_no, VStr hw, VStr name, VInt config, VInt state, VInt current, VInt advertised, VInt supported, VInt peer,
        VInt curr_speed, VInt max_speed] \<Rightarrow>
         Inr (\<lparr>po_port_no = port_no, po_hw_addr = bin_to_text conv 6 hw, po_name = rstrip_nul (text_of name), po_config = config,
           po_state = state, po_curr = current, po_advertised = advertised, po_supported = supported, po_peer = peer,
           po_curr_speed = curr_speed, po_max_speed = max_speed\<rparr>, OFP_PORT_SIZE)
     | _ \<Rightarrow> Inl ValueErr)"

definition OFP_PORT_STATUS_DESC_OFFSET :: nat where "OFP_PORT_STATUS_DESC_OFFSET = OFP_HEADER_SIZE + 8"

definition OFPPortStatus_parser :: "addrconv \<Rightarrow> bytes \<Rightarrow> in_msg res" where
  "OFPPortStatus_parser conv buf =
     rbind (unpack_from ([fB, FX 7] @ OFP_PORT_PACK_STR) buf OFP_HEADER_SIZE) (\<lambda>vs. case vs of
       VInt reason # _ \<Rightarrow> rbind (OFPPort_parser conv buf OFP_PORT_STATUS_DESC_OFFSET) (\<lambda>(desc, _). Inr (InPortStatus reason desc))
     | _ \<Rightarrow> Inl ValueErr)"

definition OFP_PORT_STATS_PACK_STR :: format where
  "OFP_PORT_STATS_PACK_STR = [fI, FX 4, fQ, fQ, fQ, fQ, fQ, fQ, fQ, fQ, fQ, fQ, fQ, fQ, fI, fI]"
definition OFP_PORT_STATS_SIZE :: int where "OFP_PORT_STATS_SIZE = 112"

definition OFPPortStats_parser :: "bytes \<Rightarrow> nat \<Rightarrow> (port_stats \<times> int) res" where
  "OFPPortStats_parser buf offset =
     rbind (unpack_ints OFP_PORT_STATS_PACK_STR buf offset) (\<lambda>vs. case vs of
       [port_no, rx_packets, tx_packets, rx_bytes, tx_bytes, rx_dropped, tx_dropped, rx_errors, tx_errors, rx_frame_err,
        rx_over_err, rx_crc_err, collisions, duration_sec, duration_nsec] \<Rightarrow>
         Inr (\<lparr>ps_port_no = port_no, ps_rx_packets = rx_packets, ps_tx_packets = tx_packets, ps_rx_bytes = rx_bytes,
           ps_tx_bytes = tx_bytes, ps_rx_dropped = rx_dropped, ps_tx_dropped = tx_dropped, ps_rx_errors = rx_errors,
           ps_tx_errors = tx_errors, ps_rx_frame_err = rx_frame_err, ps_rx_over_err = rx_over_err,
           ps_rx_crc_err = rx_crc_err, ps_collisions = collisions, ps_duration_sec = duration_sec,
           ps_duration_nsec = duration_nsec\<rparr>, OFP_PORT_STATS_SIZE)
     | _ \<Rightarrow> Inl ValueErr)"

definition parse_port :: "addrconv \<Rightarrow> bytes \<Rightarrow> nat \<Rightarrow> (of_port \<times> int) res option" where
  "parse_port conv buf offset = Some (OFPPort_parser conv buf offset)"

definition parse_port_stats :: "bytes \<Rightarrow> nat \<Rightarrow> (port_stats \<times> int) res option" where
  "parse_port_stats buf offset = Some (OFPPortStats_parser buf offset)"

definition OFPMultipartReply_parser :: "addrconv \<Rightarrow> of_header \<Rightarrow> bytes \<Rightarrow> in_msg res option" where
  "OFPMultipartReply_parser conv h buf =
     (case unpack2 [fH, fH, FX 4] buf OFP_HEADER_SIZE of Inl e \<Rightarrow> Some (Inl e)
      | Inr (ty, flags) \<Rightarrow>
        if ty = OFPMP_PORT_STATS then
          map_option (\<lambda>r. rbind r (\<lambda>body. Inr (InPortStats flags body))) (stats_entries parse_port_stats buf (h_len h))
        else if ty = OFPMP_PORT_DESC then
          map_option (\<lambda>r. rbind r (\<lambda>body. Inr (InPortDesc flags body))) (stats_entries (parse_port conv) buf (h_len h))
        else map_option (\<lambda>r. rbind r (\<lambda>body. Inr (InStats flags body))) (other_stats conv ty buf (h_len h)))"

section \<open>The dispatcher\<close>

definition OFPT_EXPERIMENTER :: int where "OFPT_EXPERIMENTER = 4"
definition OFPT_GET_CONFIG_REPLY :: int where "OFPT_GET_CONFIG_REPLY = 8"
definition OFPT_PACKET_IN :: int where "OFPT_PACKET_IN = 10"
definition OFPT_FLOW_REMOVED :: int where "OFPT_FLOW_REMOVED = 11"
definition OFPT_PORT_STATUS :: int where "OFPT_PORT_STATUS = 12"
definition OFPT_BARRIER_REPLY :: int where "OFPT_BARRIER_REPLY = 21"
definition OFPT_QUEUE_GET_CONFIG_REPLY :: int where "OFPT_QUEUE_GET_CONFIG_REPLY = 23"
definition OFPT_ROLE_REPLY :: int where "OFPT_ROLE_REPLY = 25"
definition OFPT_GET_ASYNC_REPLY :: int where "OFPT_GET_ASYNC_REPLY = 27"

lemmas msg_types = OFPT_HELLO_def OFPT_ERROR_def OFPT_ECHO_REQUEST_def OFPT_ECHO_REPLY_def OFPT_EXPERIMENTER_def
  OFPT_FEATURES_REPLY_def OFPT_GET_CONFIG_REPLY_def OFPT_PACKET_IN_def OFPT_FLOW_REMOVED_def OFPT_PORT_STATUS_def
  OFPT_MULTIPART_REPLY_def OFPT_BARRIER_REPLY_def OFPT_QUEUE_GET_CONFIG_REPLY_def OFPT_ROLE_REPLY_def OFPT_GET_ASYNC_REPLY_def

text \<open>A type without a parser: \<^verbatim>\<open>None\<close> is called, a \<^verbatim>\<open>TypeError\<close>.\<close>

definition msg_parser :: "addrconv \<Rightarrow> of_header \<Rightarrow> bytes \<Rightarrow> in_msg res option" where
  "msg_parser conv h buf =
     (let ty = h_type h in
      if ty = OFPT_HELLO then OFPHello_parser h buf
      else if ty = OFPT_ERROR then Some (OFPErrorMsg_parser buf)
      else if ty = OFPT_ECHO_REQUEST then Some (OFPEchoRequest_parser buf)
      else if ty = OFPT_ECHO_REPLY then Some (OFPEchoReply_parser buf)
      else if ty = OFPT_EXPERIMENTER then Some (OFPExperimenter_parser buf)
      else if ty = OFPT_FEATURES_REPLY then Some (OFPSwitchFeatures_parser buf)
      else if ty = OFPT_GET_CONFIG_REPLY then Some (OFPGetConfigReply_parser buf)
      else if ty = OFPT_PACKET_IN then Some (OFPPacketIn_parser conv buf)
      else if ty = OFPT_FLOW_REMOVED then Some (OFPFlowRemoved_parser conv buf)
      else if ty = OFPT_PORT_STATUS then Some (OFPPortStatus_parser conv buf)
      else if ty = OFPT_MULTIPART_REPLY then OFPMultipartReply_parser conv h buf
      else if ty = OFPT_BARRIER_REPLY then Some (Inr InBarrierReply)
      else if ty = OFPT_QUEUE_GET_CONFIG_REPLY then
        map_option (\<lambda>r. rbind r (\<lambda>(port, queues). Inr (InQueueConfig port queues))) (OFPQueueGetConfigReply_parser buf (h_len h))
      else if ty = OFPT_ROLE_REPLY then Some (OFPRoleReply_parser buf)
      else if ty = OFPT_GET_ASYNC_REPLY then Some (OFPGetAsyncReply_parser buf)
      else Some (Inl TypeErr))"

text \<open>\<^verbatim>\<open>ofproto_parser.msg\<close>: an exception of the parser gives no message. A message of another version is read by
  that version's parser, which is not modelled.\<close>

definition ofp_msg :: "other_versions \<Rightarrow> addrconv \<Rightarrow> of_header \<Rightarrow> bytes \<Rightarrow> in_msg option option" where
  "ofp_msg other conv h buf =
     map_option (\<lambda>r. case r of Inl _ \<Rightarrow> None | Inr m \<Rightarrow> Some m)
       (if h_version h = OFP_VERSION then msg_parser conv h buf else other h buf)"

section \<open>From frames to the connection\<close>

definition msg_event :: "of_header \<Rightarrow> in_msg \<Rightarrow> recv_event" where
  "msg_event h m =
     (case m of
        InHello els \<Rightarrow> RecvHello (h_version h) els
      | InSwitchFeatures datapath_id _ _ _ _ _ \<Rightarrow> RecvFeatures datapath_id []
      | InPortDesc flags body \<Rightarrow> RecvPortDesc flags body
      | InEchoRequest data \<Rightarrow> RecvEcho (h_xid h) (text_of data)
      | _ \<Rightarrow> RecvOther)"

definition recv_frame :: "(hello_failure \<Rightarrow> string) \<Rightarrow> other_versions \<Rightarrow> addrconv \<Rightarrow> datapath \<Rightarrow> frame \<Rightarrow>
    datapath option" where
  "recv_frame desc other conv d f =
     map_option (\<lambda>m. case m of None \<Rightarrow> d | Some m' \<Rightarrow> recv_step desc d (msg_event (fst f) m')) (ofp_msg other conv (fst f) (snd f))"

text \<open>An exception of a handler ends the connection, and the rest is not read.\<close>

fun recv_frames :: "(hello_failure \<Rightarrow> string) \<Rightarrow> other_versions \<Rightarrow> addrconv \<Rightarrow> datapath \<Rightarrow> frame list \<Rightarrow>
    datapath option" where
  "recv_frames desc other conv d [] = Some d"
| "recv_frames desc other conv d (f # fs) =
     (if dp_state d = DEAD_DISPATCHER then Some d
      else case recv_frame desc other conv d f of None \<Rightarrow> None | Some d' \<Rightarrow> recv_frames desc other conv d' fs)"

section \<open>What a switch sends during the handshake\<close>

definition message :: "int \<Rightarrow> int \<Rightarrow> bytes \<Rightarrow> bytes" where
  "message ty xid body = header_wire ty xid body @ body"

definition hello_body :: "int \<Rightarrow> bytes" where
  "hello_body bitmap = be_bytes 2 OFPHET_VERSIONBITMAP @ be_bytes 2 8 @ be_bytes 4 bitmap"

definition features_body :: "int \<Rightarrow> int \<Rightarrow> int \<Rightarrow> int \<Rightarrow> int \<Rightarrow> bytes" where
  "features_body datapath_id n_buffers n_tables auxiliary_id capabilities =
     be_bytes 8 datapath_id @ be_bytes 4 n_buffers @ be_bytes 1 n_tables @ be_bytes 1 auxiliary_id @ replicate 2 0
     @ be_bytes 4 capabilities @ be_bytes 4 0"

definition mac_bytes :: "addrconv \<Rightarrow> string \<Rightarrow> bytes" where
  "mac_bytes conv s = (case text_to_bin conv 6 s of Inr b \<Rightarrow> b | Inl _ \<Rightarrow> [])"

definition port_wire :: "addrconv \<Rightarrow> of_port \<Rightarrow> bytes" where
  "port_wire conv p = be_bytes 4 (po_port_no p) @ replicate 4 0 @ mac_bytes conv (po_hw_addr p) @ replicate 2 0
     @ bytes_of (po_name p) @ replicate (16 - length (po_name p)) 0
     @ be_bytes 4 (po_config p) @ be_bytes 4 (po_state p) @ be_bytes 4 (po_curr p) @ be_bytes 4 (po_advertised p)
     @ be_bytes 4 (po_supported p) @ be_bytes 4 (po_peer p) @ be_bytes 4 (po_curr_speed p) @ be_bytes 4 (po_max_speed p)"

definition ports_wire :: "addrconv \<Rightarrow> of_port list \<Rightarrow> bytes" where
  "ports_wire conv ps = concat (map (port_wire conv) ps)"

definition port_desc_body :: "addrconv \<Rightarrow> int \<Rightarrow> of_port list \<Rightarrow> bytes" where
  "port_desc_body conv flags ps = be_bytes 2 OFPMP_PORT_DESC @ be_bytes 2 flags @ replicate 4 0 @ ports_wire conv ps"

definition port_ok :: "addrconv \<Rightarrow> of_port \<Rightarrow> bool" where
  "port_ok conv p \<longleftrightarrow> in_range 4 (po_port_no p) \<and> length (mac_bytes conv (po_hw_addr p)) = 6
     \<and> bin_to_text conv 6 (mac_bytes conv (po_hw_addr p)) = po_hw_addr p
     \<and> length (po_name p) \<le> 16 \<and> rstrip_nul (po_name p) = po_name p
     \<and> in_range 4 (po_config p) \<and> in_range 4 (po_state p) \<and> in_range 4 (po_curr p) \<and> in_range 4 (po_advertised p)
     \<and> in_range 4 (po_supported p) \<and> in_range 4 (po_peer p) \<and> in_range 4 (po_curr_speed p) \<and> in_range 4 (po_max_speed p)"

lemma port_wire_length: "port_ok conv p \<Longrightarrow> length (port_wire conv p) = 64"
  by (simp add: port_ok_def port_wire_def)

lemma port_parser_wire:
  assumes "port_ok conv p"
  shows "OFPPort_parser conv (pre @ port_wire conv p @ post) (length pre) = Inr (p, OFP_PORT_SIZE)"
proof -
  let ?args = "[VInt (po_port_no p), VStr (mac_bytes conv (po_hw_addr p)), VStr (bytes_of (po_name p) @ replicate (16 - length (po_name p)) 0),
    VInt (po_config p), VInt (po_state p), VInt (po_curr p), VInt (po_advertised p), VInt (po_supported p), VInt (po_peer p),
    VInt (po_curr_speed p), VInt (po_max_speed p)]"
  have "struct_pack OFP_PORT_PACK_STR ?args = Inr (port_wire conv p)"
    using assms by (simp add: OFP_PORT_PACK_STR_def port_ok_def in_range_def port_wire_def)
  moreover have "fits OFP_PORT_PACK_STR ?args"
    using assms by (simp add: OFP_PORT_PACK_STR_def port_ok_def in_range_def)
  ultimately have "unpack_from OFP_PORT_PACK_STR (pre @ port_wire conv p @ post) (length pre) = Inr ?args"
    by (rule unpack_from_at [OF refl])
  with assms show ?thesis by (simp add: OFPPort_parser_def padded_text port_ok_def)
qed

interpretation ports: wire_entry "parse_port conv" "port_wire conv" "port_ok conv"
  by unfold_locales (auto simp: parse_port_def port_parser_wire port_wire_length OFP_PORT_SIZE_def simp flip: length_0_conv)

section \<open>The counters of a port\<close>

definition stats_ok :: "port_stats \<Rightarrow> bool" where
  "stats_ok s \<longleftrightarrow> in_range 4 (ps_port_no s) \<and> in_range 8 (ps_rx_packets s) \<and> in_range 8 (ps_tx_packets s) \<and> in_range 8 (ps_rx_bytes s)
     \<and> in_range 8 (ps_tx_bytes s) \<and> in_range 8 (ps_rx_dropped s) \<and> in_range 8 (ps_tx_dropped s) \<and> in_range 8 (ps_rx_errors s)
     \<and> in_range 8 (ps_tx_errors s) \<and> in_range 8 (ps_rx_frame_err s) \<and> in_range 8 (ps_rx_over_err s) \<and> in_range 8 (ps_rx_crc_err s)
     \<and> in_range 8 (ps_collisions s) \<and> in_range 4 (ps_duration_sec s) \<and> in_range 4 (ps_duration_nsec s)"

definition stats_wire :: "port_stats \<Rightarrow> bytes" where
  "stats_wire s = be_bytes 4 (ps_port_no s) @ replicate 4 0 @ be_bytes 8 (ps_rx_packets s) @ be_bytes 8 (ps_tx_packets s)
     @ be_bytes 8 (ps_rx_bytes s) @ be_bytes 8 (ps_tx_bytes s) @ be_bytes 8 (ps_rx_dropped s) @ be_bytes 8 (ps_tx_dropped s)
     @ be_bytes 8 (ps_rx_errors s) @ be_bytes 8 (ps_tx_errors s) @ be_bytes 8 (ps_rx_frame_err s) @ be_bytes 8 (ps_rx_over_err s)
     @ be_bytes 8 (ps_rx_crc_err s) @ be_bytes 8 (ps_collisions s) @ be_bytes 4 (ps_duration_sec s) @ be_bytes 4 (ps_duration_nsec s)"

definition stats_reply_body :: "int \<Rightarrow> port_stats list \<Rightarrow> bytes" where
  "stats_reply_body flags ss = be_bytes 2 OFPMP_PORT_STATS @ be_bytes 2 flags @ replicate 4 0 @ concat (map stats_wire ss)"

lemma length_stats_wire [simp]: "length (stats_wire s) = 112"
  by (simp add: stats_wire_def)

lemma length_stats_reply [simp]: "length (stats_reply_body flags ss) = 8 + 112 * length ss"
  by (simp add: stats_reply_body_def length_concat comp_def sum_list_triv)

lemma stats_parser_wire:
  assumes "stats_ok s"
  shows "OFPPortStats_parser (pre @ stats_wire s @ post) (length pre) = Inr (s, 112)"
proof -
  let ?vs = "[VInt (ps_port_no s), VInt (ps_rx_packets s), VInt (ps_tx_packets s), VInt (ps_rx_bytes s), VInt (ps_tx_bytes s),
     VInt (ps_rx_dropped s), VInt (ps_tx_dropped s), VInt (ps_rx_errors s), VInt (ps_tx_errors s), VInt (ps_rx_frame_err s),
     VInt (ps_rx_over_err s), VInt (ps_rx_crc_err s), VInt (ps_collisions s), VInt (ps_duration_sec s), VInt (ps_duration_nsec s)]"
  have "unpack_from OFP_PORT_STATS_PACK_STR (pre @ stats_wire s @ post) (length pre) = Inr ?vs"
    by (rule unpack_from_at)
       (use assms in \<open>simp_all add: OFP_PORT_STATS_PACK_STR_def stats_wire_def stats_ok_def in_range_def\<close>)
  then show ?thesis
    by (simp add: OFPPortStats_parser_def unpack_ints_def ints_of_def OFP_PORT_STATS_SIZE_def)
qed

interpretation counters: wire_entry parse_port_stats stats_wire stats_ok
  by unfold_locales (auto simp: parse_port_stats_def stats_parser_wire simp flip: length_0_conv)

definition no_other :: other_versions where
  "no_other h buf = None"

section \<open>What a parsed port is\<close>

lemma fits_length: "fits fmt vs \<Longrightarrow> list_all2 (\<lambda>f v. case f of FU n \<Rightarrow> (\<exists>i. v = VInt i \<and> in_range n i) | FS n \<Rightarrow> (\<exists>s. v = VStr s \<and> length s = n) | FX n \<Rightarrow> False)
    (filter (\<lambda>f. \<forall>n. f \<noteq> FX n) fmt) vs"
  by (induction fmt vs rule: fits.induct) (auto simp: in_range_def)

text \<open>C40: a port is parsed exactly when its 64 bytes are in the buffer, and what is parsed has its type: every number fits
  the four bytes it came from, the name is at most sixteen characters without a zero byte at its end.\<close>

theorem port_typed:
  "(offset + 64 \<le> length buf \<and> (\<exists>p. OFPPort_parser conv buf offset = Inr (p, 64) \<and> in_range 4 (po_port_no p)
      \<and> in_range 4 (po_config p) \<and> in_range 4 (po_state p) \<and> in_range 4 (po_curr p) \<and> in_range 4 (po_advertised p)
      \<and> in_range 4 (po_supported p) \<and> in_range 4 (po_peer p) \<and> in_range 4 (po_curr_speed p) \<and> in_range 4 (po_max_speed p)
      \<and> length (po_name p) \<le> 16 \<and> rstrip_nul (po_name p) = po_name p))
   \<or> (length buf < offset + 64 \<and> OFPPort_parser conv buf offset = Inl struct_error)"
proof (cases "offset + 64 \<le> length buf")
  case False
  then show ?thesis by (simp add: OFPPort_parser_def unpack_from_def OFP_PORT_PACK_STR_def)
next
  case True
  define vs where "vs = unpack_items OFP_PORT_PACK_STR (drop offset buf)"
  have u: "unpack_from OFP_PORT_PACK_STR buf offset = Inr vs"
    using True by (simp add: unpack_from_def vs_def OFP_PORT_PACK_STR_def)
  have "fits OFP_PORT_PACK_STR vs"
    unfolding vs_def by (rule unpack_fits) (use True in \<open>simp add: OFP_PORT_PACK_STR_def\<close>)
  from fits_length [OF this] obtain no hw name cfg st cu ad su pe cs ms where
    vs: "vs = [VInt no, VStr hw, VStr name, VInt cfg, VInt st, VInt cu, VInt ad, VInt su, VInt pe, VInt cs, VInt ms]"
    "in_range 4 no" "length name = 16" "in_range 4 cfg" "in_range 4 st" "in_range 4 cu" "in_range 4 ad" "in_range 4 su"
    "in_range 4 pe" "in_range 4 cs" "in_range 4 ms"
    by (auto simp: OFP_PORT_PACK_STR_def list_all2_Cons1)
  have n: "length (rstrip_nul (text_of name)) \<le> 16" using rstrip_nul_ok(2) [of "text_of name"] vs(3) by (simp add: text_of_def)
  have "OFPPort_parser conv buf offset = Inr (\<lparr>po_port_no = no, po_hw_addr = bin_to_text conv 6 hw, po_name = rstrip_nul (text_of name),
      po_config = cfg, po_state = st, po_curr = cu, po_advertised = ad, po_supported = su, po_peer = pe, po_curr_speed = cs,
      po_max_speed = ms\<rparr>, 64)"
    by (simp add: OFPPort_parser_def u vs(1) OFP_PORT_SIZE_def)
  with True n vs(2-) show ?thesis by (auto simp: rstrip_nul_ok)
qed

end
