(* ===== verification/Handshake.thy ===== *)
theory Handshake
  imports OFParse
begin

text \<open>
  The layers together: bytes of a switch, cut by the network, through the receive loop (\<open>Framing\<close>), the parsers
  (\<open>OFParse\<close>) and the handlers (\<open>Datapath\<close>) to the state of the connection.
\<close>

section \<open>Frames of given messages\<close>

lemma message_header:
  assumes "in_range 1 ty" "in_range 4 xid" "8 + length body < 65536"
  shows "ofp_header (message ty xid body) = Inr \<lparr>h_version = 4, h_type = ty, h_len = int (8 + length body), h_xid = xid\<rparr>"
    and "is_message (message ty xid body)"
  using ofp_header_wire [OF assms] by (simp_all add: message_def is_message_def OFP_VERSION_def msg_versions_def)

lemma frame_of_message:
  assumes "frame_msg f = headed (message ty xid body)" and "in_range 1 ty" "in_range 4 xid" "8 + length body < 65536"
  shows "fst f = \<lparr>h_version = 4, h_type = ty, h_len = int (8 + length body), h_xid = xid\<rparr>"
    and "\<exists>post. snd f = header_wire ty xid body @ body @ post"
proof -
  let ?m = "message ty xid body"
  from assms(1) message_header(1) [OF assms(2-4)] have fm: "fst f = \<lparr>h_version = 4, h_type = ty, h_len = int (8 + length body), h_xid = xid\<rparr>"
    "take (8 + length body) (snd f) = ?m"
    by (auto simp: frame_msg_def headed_def nat_add_distrib)
  then show "fst f = \<lparr>h_version = 4, h_type = ty, h_len = int (8 + length body), h_xid = xid\<rparr>" by simp
  have "snd f = ?m @ drop (8 + length body) (snd f)" using fm(2) by (metis append_take_drop_id)
  then show "\<exists>post. snd f = header_wire ty xid body @ body @ post" by (auto simp: message_def)
qed

section \<open>Hello\<close>

lemma hello_parsed:
  assumes "in_range 4 bitmap"
  shows "OFPHello_parser \<lparr>h_version = 4, h_type = 0, h_len = 16, h_xid = x\<rparr> (header_wire ty xid b @ hello_body bitmap @ post) =
    Some (Inr (InHello [bitmap_versions [bitmap]]))"
proof -
  let ?buf = "header_wire ty xid b @ hello_body bitmap @ post"
  have u: "unpack2 [fH, fH] ?buf 8 = Inr (1, 8)"
    by (simp add: unpack2_def unpack_from_def hello_body_def OFPHET_VERSIONBITMAP_def)
  have b: "unpack1 [fI] ?buf 12 = Inr bitmap"
    using assms by (simp add: unpack1_def unpack_from_def hello_body_def in_range_def)
  have "bitmaps ?buf 12 4 = Inr [bitmap]"
    by (subst bitmaps.simps) (simp add: b bitmaps.simps [of _ _ 0])
  then have p: "OFPHelloElemVersionBitmap_parser ?buf 8 = Inr (bitmap_versions [bitmap])"
    by (simp add: OFPHelloElemVersionBitmap_parser_def u OFPHET_VERSIONBITMAP_def)
  have "hello_elems ?buf 16 16 = Some (Inr [])" by (subst hello_elems.simps) simp
  then have "hello_elems ?buf 8 16 = Some (Inr [bitmap_versions [bitmap]])"
    by (subst hello_elems.simps) (simp add: u p OFPHET_VERSIONBITMAP_def)
  then show ?thesis by (simp add: OFPHello_parser_def)
qed

lemma and_bit: "0 \<le> (b :: int) \<Longrightarrow> (b AND push_bit n 1 \<noteq> 0) = bit b n"
proof -
  have "b AND push_bit n 1 = push_bit n (of_bool (bit b n))"
    by (rule bit_eqI) (auto simp: bit_simps)
  then show ?thesis by (simp add: push_bit_eq_0_iff)
qed

lemma bitmap_versions_single:
  "0 \<le> b \<Longrightarrow> bitmap_versions [b] = map int (filter (bit b) [0..<31])"
  by (simp only: bitmap_versions_def and_bit enumerate_simps list.map concat.simps prod.case append_Nil2) simp

text \<open>A hello message with a bitmap of versions, in a buffer that may hold more, is parsed to the versions below 31
  whose bits are set, in ascending order; the bit of version 31 is ignored.\<close>

theorem hello_versions:
  assumes "in_range 4 bitmap" and "in_range 4 xid"
  shows "\<exists>vs. ofp_msg other conv \<lparr>h_version = 4, h_type = 0, h_len = 16, h_xid = xid\<rparr> (message 0 xid (hello_body bitmap) @ post) =
      Some (Some (InHello [vs])) \<and> sorted vs \<and> distinct vs \<and> (\<forall>v. int v \<in> set vs \<longleftrightarrow> v < 31 \<and> bit bitmap v)"
proof -
  have "0 \<le> bitmap" using assms(1) by (simp add: in_range_def)
  note vs = bitmap_versions_single [OF this]
  have "sorted (map int [0..<31])" by code_simp
  then have "sorted (map int (filter (bit bitmap) [0..<31]))" by (rule sorted_filter)
  moreover have "distinct (map int (filter (bit bitmap) [0..<31]))" by (simp add: distinct_map inj_on_def)
  ultimately show ?thesis using hello_parsed [OF assms(1)]
    by (intro exI [of _ "bitmap_versions [bitmap]"]) (auto simp: ofp_msg_def msg_parser_def OFP_VERSION_def msg_types message_def vs)
qed

theorem hello_versions_demo:
  "\<exists>vs. ofp_msg no_other demo_conv \<lparr>h_version = 4, h_type = 0, h_len = 16, h_xid = 1\<rparr> (message 0 1 (hello_body 0x80000012) @ [4, 2]) =
      Some (Some (InHello [vs])) \<and> sorted vs \<and> distinct vs \<and> (\<forall>v. int v \<in> set vs \<longleftrightarrow> v < 31 \<and> bit (0x80000012 :: int) v)"
  by (rule hello_versions) (simp_all add: in_range_def)

section \<open>Features and ports\<close>

lemma features_parsed:
  assumes "in_range 8 i" "in_range 4 nb" "in_range 1 nt" "in_range 1 aux" "in_range 4 caps"
  shows "OFPSwitchFeatures_parser (header_wire ty xid b @ features_body i nb nt aux caps @ post) = Inr (InSwitchFeatures i nb nt aux caps 0)"
proof -
  have "unpack_from OFP_SWITCH_FEATURES_PACK_STR (header_wire ty xid b @ features_body i nb nt aux caps @ post) 8 =
      Inr [VInt i, VInt nb, VInt nt, VInt aux, VInt caps, VInt 0]"
    by (rule unpack_from_at)
       (use assms in \<open>simp_all add: OFP_SWITCH_FEATURES_PACK_STR_def features_body_def in_range_def\<close>)
  then show ?thesis by (simp add: OFPSwitchFeatures_parser_def unpack_ints_def ints_of_def OFP_HEADER_SIZE_def)
qed

lemma port_desc_parsed:
  assumes "in_range 2 flags" and "\<forall>p \<in> set ps. port_ok conv p" and "h_len h = int (8 + length (port_desc_body conv flags ps))"
  shows "OFPMultipartReply_parser conv h (header_wire ty xid b @ port_desc_body conv flags ps @ post) =
    Some (Inr (InPortDesc flags ps))"
proof -
  let ?pre = "header_wire ty xid b @ be_bytes 2 OFPMP_PORT_DESC @ be_bytes 2 flags @ replicate 4 0"
  have buf: "header_wire ty xid b @ port_desc_body conv flags ps @ post = ?pre @ ports_wire conv ps @ post"
    by (simp add: port_desc_body_def)
  have u: "unpack2 [fH, fH, FX 4] (?pre @ ports_wire conv ps @ post) 8 = Inr (OFPMP_PORT_DESC, flags)"
    using assms(1) by (simp add: unpack2_def unpack_from_def in_range_def OFPMP_PORT_DESC_def)
  have l: "length ?pre = 16" by simp
  have "h_len h = 16 + int (length (concat (map (port_wire conv) ps)))" using assms(3) by (simp add: port_desc_body_def ports_wire_def)
  from ports.reply_entries [OF assms(2) l this, of post]
  have "stats_entries (parse_port conv) (?pre @ ports_wire conv ps @ post) (h_len h) = Some (Inr ps)"
    by (simp add: ports_wire_def)
  moreover have "OFPMP_PORT_DESC \<noteq> OFPMP_PORT_STATS" by (simp add: OFPMP_PORT_DESC_def OFPMP_PORT_STATS_def)
  ultimately show ?thesis
    unfolding buf OFPMultipartReply_parser_def OFP_HEADER_SIZE_def u by simp
qed

section \<open>The handshake\<close>

lemma py_max_four: "py_max [4] = Inr 4"
  by (simp add: py_max_def)

text \<open>The controller application speaks version 1.3 only; the switch names it in its bitmap.\<close>

lemma py_max_is: "(m :: int) \<in> set xs \<Longrightarrow> \<forall>v \<in> set xs. v \<le> m \<Longrightarrow> py_max xs = Inr m"
proof -
  assume m: "m \<in> set xs" "\<forall>v \<in> set xs. v \<le> m"
  then have "Max (set xs) = m" by (intro Max_eqI) auto
  moreover from m have "xs \<noteq> []" by auto
  ultimately show ?thesis by (simp add: py_max_Inr)
qed

lemma negotiate_four:
  assumes "4 \<in> set vs" "dp_supported d = [4]"
  shows "negotiate d 4 [vs] = Inr (Inr 4)"
proof -
  define us where "us = filter (\<lambda>v. v = 4) vs"
  define ns where "ns = filter (\<lambda>v. v \<le> 4) vs"
  have us: "4 \<in> set us" "\<forall>v \<in> set us. v \<le> 4" and ns: "4 \<in> set ns" "\<forall>v \<in> set ns. v \<le> 4"
    using assms by (simp_all add: us_def ns_def)
  have ne: "vs \<noteq> []" "us \<noteq> []" "ns \<noteq> []" using assms us ns by auto
  have n: "negotiate d 4 [vs] =
      (if ns \<noteq> [] \<and> us = [] then Inr (Inl NoUsable)
       else rbind (if ns \<noteq> [] \<and> us \<noteq> [] then rbind (py_max ns) (\<lambda>n. rbind (py_max us) (\<lambda>u. Inr (n \<noteq> u))) else Inr False) (\<lambda>differ.
            if differ then Inr (Inl NotTheNegotiated)
            else if us = [] then Inr (Inl Unsupported)
            else rbind (py_max us) (\<lambda>u. Inr (Inr u))))"
    using ne(1) by (simp add: negotiate_def Let_def assms(2) py_max_four us_def ns_def cong: if_cong)
  show ?thesis unfolding n using ne py_max_is [OF us] py_max_is [OF ns] by simp
qed

definition port_table :: "of_port list \<Rightarrow> (int, of_port) dict" where
  "port_table ps = foldl (\<lambda>m p. dput m (po_port_no p) p) [] ps"

lemma store_ports_all:
  "dp_ports d = Some m \<Longrightarrow> store_ports d ps = Inr (d\<lparr>dp_ports := Some (foldl (\<lambda>m p. dput m (po_port_no p) p) m ps)\<rparr>)"
proof (induction ps arbitrary: d m)
  case (Cons p ps)
  from Cons.IH [of "d\<lparr>dp_ports := Some (dput m (po_port_no p) p)\<rparr>" "dput m (po_port_no p) p"] Cons.prems show ?case
    by (simp add: store_ports_def)
qed (simp add: store_ports_def)

lemma recv_frame_hello:
  assumes "frame_msg f = headed (message 0 x (hello_body bitmap))" "in_range 4 x" "in_range 4 bitmap" "bit bitmap 4"
    and "dp_state d = HANDSHAKE_DISPATCHER" "dp_supported d = [4]"
  shows "recv_frame desc other conv d f = Some (set_state (send_msg (d\<lparr>dp_version := 4\<rparr>) None OFPFeaturesRequest) CONFIG_DISPATCHER)"
proof -
  have "in_range 1 0" "8 + length (hello_body bitmap) < 65536" by (simp_all add: in_range_def hello_body_def)
  note fr = frame_of_message [OF assms(1) this(1) assms(2) this(2)]
  from fr obtain post where f: "fst f = \<lparr>h_version = 4, h_type = 0, h_len = 16, h_xid = x\<rparr>"
    "snd f = header_wire 0 x (hello_body bitmap) @ hello_body bitmap @ post" by (auto simp: hello_body_def)
  have b: "0 \<le> bitmap" using assms(3) by (simp add: in_range_def)
  have "4 \<in> set (bitmap_versions [bitmap])"
    using assms(4) by (force simp: bitmap_versions_single [OF b])
  from negotiate_four [OF this assms(6)] assms(5,6) show ?thesis
    by (simp add: recv_frame_def ofp_msg_def f OFP_VERSION_def msg_parser_def msg_types hello_parsed [OF assms(3)] msg_event_def
        recv_step_def recv_handler_def hello_handler_def set_version_def)
qed

lemma recv_frame_features:
  assumes "frame_msg f = headed (message 6 x (features_body i nb nt aux caps))" "in_range 4 x"
    "in_range 8 i" "in_range 4 nb" "in_range 1 nt" "in_range 1 aux" "in_range 4 caps"
    and "dp_state d = CONFIG_DISPATCHER" "dp_version d = 4"
  shows "recv_frame desc other conv d f = Some (send_msg (send_msg (d\<lparr>dp_id := Some i, dp_ports := Some []\<rparr>) None
      (OFPSetConfig OFPC_FRAG_NORMAL 128)) None (OFPPortDescStatsRequest 0))"
proof -
  have "in_range 1 6" "8 + length (features_body i nb nt aux caps) < 65536" by (simp_all add: in_range_def features_body_def)
  note fr = frame_of_message [OF assms(1) this(1) assms(2) this(2)]
  from fr(2) obtain post where f: "snd f = header_wire 6 x (features_body i nb nt aux caps) @ features_body i nb nt aux caps @ post" by blast
  show ?thesis
    using assms(8,9) by (simp add: recv_frame_def ofp_msg_def fr(1) f OFP_VERSION_def msg_parser_def msg_types
        features_parsed [OF assms(3-7)] msg_event_def recv_step_def recv_handler_def switch_features_handler_def Let_def)
qed

lemma recv_frame_ports:
  assumes "frame_msg f = headed (message 19 x (port_desc_body conv flags ps))" "in_range 4 x" "in_range 2 flags"
    "flags AND OFPMPF_REPLY_MORE = 0" "\<forall>p \<in> set ps. port_ok conv p" "16 + length (ports_wire conv ps) < 65536"
    and "dp_state d = CONFIG_DISPATCHER" "dp_ports d = Some []"
  shows "recv_frame desc other conv d f = Some (set_state (d\<lparr>dp_ports := Some (port_table ps)\<rparr>) MAIN_DISPATCHER)"
proof -
  have "in_range 1 19" "8 + length (port_desc_body conv flags ps) < 65536"
    using assms(6) by (simp_all add: in_range_def port_desc_body_def)
  note fr = frame_of_message [OF assms(1) this(1) assms(2) this(2)]
  from fr(2) obtain post where f: "snd f = header_wire 19 x (port_desc_body conv flags ps) @ port_desc_body conv flags ps @ post" by blast
  have "h_len (fst f) = int (8 + length (port_desc_body conv flags ps))" using fr(1) by simp
  note p = port_desc_parsed [OF assms(3,5) this]
  show ?thesis
    using assms(4,7,8) by (simp add: recv_frame_def ofp_msg_def f p fr(1) [THEN arg_cong [where f = h_type], simplified]
        fr(1) [THEN arg_cong [where f = h_version], simplified] OFP_VERSION_def msg_parser_def msg_types
        msg_event_def recv_step_def recv_handler_def multipart_reply_handler_def store_ports_all port_table_def)
qed

text \<open>C3: a switch that says hello with version 1.3 among its versions, answers with its features and its ports, brings the
  connection to the state MAIN, with its datapath id, version 1.3 and its ports, however the network cuts its bytes.
  The controller has then sent its hello, the features request, the configuration and the request for the ports, and
  has announced the three states in order.\<close>

theorem handshake_completes:
  assumes d0: "datapath_init [4] x0 = Inr d0"
    and hello: "in_range 4 x1" "in_range 4 bitmap" "bit bitmap 4"
    and features: "in_range 4 x2" "in_range 8 i" "in_range 4 nb" "in_range 1 nt" "in_range 1 aux" "in_range 4 caps"
    and ports: "in_range 4 x3" "in_range 2 flags" "flags AND OFPMPF_REPLY_MORE = 0" "\<forall>p \<in> set ps. port_ok conv p"
      "16 + 64 * length ps < 65536"
    and chunks: "[] \<notin> set chunks" "concat chunks = message 0 x1 (hello_body bitmap)
      @ message 6 x2 (features_body i nb nt aux caps) @ message 19 x3 (port_desc_body conv flags ps)"
  shows "\<exists>fs req d. recv_loop chunks [] 8 = Some (fs, Inr ([], req)) \<and> recv_frames desc other conv (serve_hello d0) fs = Some d
    \<and> dp_state d = MAIN_DISPATCHER \<and> dp_version d = 4 \<and> dp_id d = Some i \<and> dp_ports d = Some (port_table ps)
    \<and> dp_announced d = [HANDSHAKE_DISPATCHER, CONFIG_DISPATCHER, MAIN_DISPATCHER]
    \<and> map snd (dp_sent d) = [OFPHello, OFPFeaturesRequest, OFPSetConfig 0 128, OFPPortDescStatsRequest 0]"
proof -
  let ?ms = "[message 0 x1 (hello_body bitmap), message 6 x2 (features_body i nb nt aux caps), message 19 x3 (port_desc_body conv flags ps)]"
  have pl: "length (ports_wire conv ps) = 64 * length ps"
    using ports(4) by (induction ps) (simp_all add: ports_wire_def port_wire_length)
  have ok: "\<forall>m \<in> set ?ms. is_message m"
    using message_header(2) [of 0 x1 "hello_body bitmap"] message_header(2) [of 6 x2 "features_body i nb nt aux caps"]
      message_header(2) [of 19 x3 "port_desc_body conv flags ps"] hello features ports pl
    by (simp add: in_range_def hello_body_def features_body_def port_desc_body_def)
  have "incomplete []" by (simp add: incomplete_def)
  from recv_messages [OF ok this chunks(1)] chunks(2) obtain fs req where
    fs: "recv_loop chunks [] 8 = Some (fs, Inr ([], req))" "map frame_msg fs = map headed ?ms" by auto
  from fs(2) obtain f1 f2 f3 where f: "fs = [f1, f2, f3]" "frame_msg f1 = headed (message 0 x1 (hello_body bitmap))"
    "frame_msg f2 = headed (message 6 x2 (features_body i nb nt aux caps))"
    "frame_msg f3 = headed (message 19 x3 (port_desc_body conv flags ps))" by (auto simp: map_eq_Cons_conv)
  have z: "16 + length (ports_wire conv ps) < 65536" using ports(5) pl by simp
  show ?thesis
    using d0 recv_frame_hello [OF f(2) hello, of _ desc other conv] recv_frame_features [OF f(3) features, of _ desc other conv]
      recv_frame_ports [OF f(4) ports(1-4) z, of _ desc other]
    by (intro exI [of _ fs]) (auto simp: fs(1) f(1) datapath_init_def py_max_four serve_hello_def send_msg_def set_xid_def
        set_state_def Let_def OFPC_FRAG_NORMAL_def)
qed

text \<open>A switch with one port, whose bytes arrive one by one.\<close>

definition demo_port :: of_port where
  "demo_port = \<lparr>po_port_no = 1, po_hw_addr = ''00:00:00:00:00:01'', po_name = ''s1-eth1'', po_config = 0, po_state = 0, po_curr = 2112,
     po_advertised = 0, po_supported = 0, po_peer = 0, po_curr_speed = 10000000, po_max_speed = 0\<rparr>"

definition demo_switch :: bytes where
  "demo_switch = message 0 1 (hello_body 0x12) @ message 6 2 (features_body 42 256 254 0 0x47)
     @ message 19 3 (port_desc_body demo_conv 0 [demo_port])"

theorem handshake_completes_demo:
  "\<exists>d0. datapath_init [4] 0 = Inr d0 \<and>
    (\<exists>fs req d. recv_loop (map (\<lambda>b. [b]) demo_switch) [] 8 = Some (fs, Inr ([], req))
      \<and> recv_frames (\<lambda>_. []) no_other demo_conv (serve_hello d0) fs = Some d
      \<and> dp_state d = MAIN_DISPATCHER \<and> dp_version d = 4 \<and> dp_id d = Some 42 \<and> dp_ports d = Some (port_table [demo_port])
      \<and> dp_announced d = [HANDSHAKE_DISPATCHER, CONFIG_DISPATCHER, MAIN_DISPATCHER]
      \<and> map snd (dp_sent d) = [OFPHello, OFPFeaturesRequest, OFPSetConfig 0 128, OFPPortDescStatsRequest 0])"
proof -
  obtain d0 where d0: "datapath_init [4] 0 = Inr d0" by (simp add: datapath_init_def py_max_four)
  have p: "\<forall>p \<in> set [demo_port]. port_ok demo_conv p"
    by (simp add: port_ok_def demo_port_def in_range_def mac_bytes_def demo_conv_def rstrip_nul_def)
  have c: "concat (map (\<lambda>b. [b]) xs) = xs" for xs :: bytes by (induction xs) simp_all
  have "\<exists>fs req d. recv_loop (map (\<lambda>b. [b]) demo_switch) [] 8 = Some (fs, Inr ([], req))
      \<and> recv_frames (\<lambda>_. []) no_other demo_conv (serve_hello d0) fs = Some d
      \<and> dp_state d = MAIN_DISPATCHER \<and> dp_version d = 4 \<and> dp_id d = Some 42 \<and> dp_ports d = Some (port_table [demo_port])
      \<and> dp_announced d = [HANDSHAKE_DISPATCHER, CONFIG_DISPATCHER, MAIN_DISPATCHER]
      \<and> map snd (dp_sent d) = [OFPHello, OFPFeaturesRequest, OFPSetConfig 0 128, OFPPortDescStatsRequest 0]"
    by (rule handshake_completes [OF d0, where ?x1.0 = 1 and bitmap = "0x12" and ?x2.0 = 2 and nb = 256 and nt = 254 and aux = 0
          and caps = "0x47" and ?x3.0 = 3 and flags = 0])
       (use p in \<open>auto simp: in_range_def c demo_switch_def\<close>)
  then have "datapath_init [4] 0 = Inr d0 \<and> (\<exists>fs req d. recv_loop (map (\<lambda>b. [b]) demo_switch) [] 8 = Some (fs, Inr ([], req))
      \<and> recv_frames (\<lambda>_. []) no_other demo_conv (serve_hello d0) fs = Some d
      \<and> dp_state d = MAIN_DISPATCHER \<and> dp_version d = 4 \<and> dp_id d = Some 42 \<and> dp_ports d = Some (port_table [demo_port])
      \<and> dp_announced d = [HANDSHAKE_DISPATCHER, CONFIG_DISPATCHER, MAIN_DISPATCHER]
      \<and> map snd (dp_sent d) = [OFPHello, OFPFeaturesRequest, OFPSetConfig 0 128, OFPPortDescStatsRequest 0])"
    using d0 by simp
  then show ?thesis ..
qed

text \<open>The echo request of \<open>frame_overrun\<close> is answered with twelve bytes instead of its four: the data reaches into the
  barrier reply.\<close>

lemma echo_overrun:
  "ofp_msg other conv \<lparr>h_version = 4, h_type = 2, h_len = 12, h_xid = 1\<rparr> (demo_echo @ demo_barrier) =
     Some (Some (InEchoRequest ([7, 7, 7, 7] @ demo_barrier)))"
  by (simp add: ofp_msg_def OFP_VERSION_def msg_parser_def msg_types OFPEchoRequest_parser_def OFP_HEADER_SIZE_def demo_echo_def)

text \<open>A hello element of length zero is read for ever.\<close>

lemma hello_elems_returns:
  assumes "hello_elems buf offset n = Some r"
  shows "\<not> (int offset < n \<and> (\<exists>ty. ty \<noteq> OFPHET_VERSIONBITMAP \<and> unpack2 [fH, fH] buf offset = Inr (ty, 0)))"
  by (rule hello_elems.raw_induct [where P = "\<lambda>buf offset n r. \<not> (int offset < n \<and>
        (\<exists>ty. ty \<noteq> OFPHET_VERSIONBITMAP \<and> unpack2 [fH, fH] buf offset = Inr (ty, 0)))", OF _ assms])
     (auto simp: bind_eq_Some_conv split: if_splits, blast)

lemma zero_length_element:
  "OFPHello_parser \<lparr>h_version = 4, h_type = 0, h_len = 12, h_xid = 0\<rparr> (message 0 0 (be_bytes 2 2 @ be_bytes 2 0)) = None"
proof -
  have "unpack2 [fH, fH] (message 0 0 (be_bytes 2 2 @ be_bytes 2 0)) 8 = Inr (2, 0)"
    by (simp add: unpack2_def unpack_from_def message_def)
  then have "hello_elems (message 0 0 (be_bytes 2 2 @ be_bytes 2 0)) 8 12 = None"
    using hello_elems_returns [of "message 0 0 (be_bytes 2 2 @ be_bytes 2 0)" 8 12]
    by (cases "hello_elems (message 0 0 (be_bytes 2 2 @ be_bytes 2 0)) 8 12") (auto simp: OFPHET_VERSIONBITMAP_def)
  then show ?thesis by (simp add: OFPHello_parser_def)
qed

end
