(* ===== verification/Wire.thy ===== *)
theory Wire
  imports Controller Deploy Handshake
begin

text \<open>
  The parts together, over the bytes of the connections: the flow modifications of a policy as messages that a
  switch reads back (\<open>Controller\<close>, \<open>OFMessage\<close>, \<open>Framing\<close>), the port counters of a reply from its bytes to the
  statistics (\<open>OFParse\<close>, \<open>BwMon\<close>), and the controller started on the file that the data center wrote (\<open>Deploy\<close>).
\<close>

section \<open>Entries that fit a flow modification\<close>

text \<open>An address that the converter takes and gives back, and an entry of a routing table that fits a message.\<close>

definition eth_ok :: "addrconv \<Rightarrow> string \<Rightarrow> bool" where
  "eth_ok conv s = (case text_to_bin conv 6 s of Inr b \<Rightarrow> length b = 6 \<and> bin_to_text conv 6 b = s | Inl _ \<Rightarrow> False)"

definition out_ok :: "pyatom \<Rightarrow> bool" where
  "out_ok a = (case a of PInt p \<Rightarrow> in_range 4 p | PStr _ \<Rightarrow> a = FLOOD)"

definition match_ok :: "addrconv \<Rightarrow> flow_match \<Rightarrow> bool" where
  "match_ok conv m = (case m of MSrc e \<Rightarrow> eth_ok conv e | MDst e \<Rightarrow> eth_ok conv e
     | MInport (PInt p) \<Rightarrow> in_range 4 p | MInport (PStr _) \<Rightarrow> False | MNone \<Rightarrow> True)"

definition flow_ok :: "addrconv \<Rightarrow> flow \<Rightarrow> bool" where
  "flow_ok conv f \<longleftrightarrow> in_range 2 (f_priority f) \<and> match_ok conv (f_match f) \<and>
     length (f_output f) \<le> 250 \<and> (\<forall>a \<in> set (f_output f). out_ok a)"

lemma known_fields:
  "name_to_field ''in_port'' = Some (OpenFlowBasic ''in_port'' 0 (IntDescr 4))"
  "name_to_field ''eth_dst'' = Some (OpenFlowBasic ''eth_dst'' 3 MacAddr)"
  "name_to_field ''eth_src'' = Some (OpenFlowBasic ''eth_src'' 4 MacAddr)"
  by (simp_all add: name_to_field_def oxm_types_def OpenFlowBasic_def OxmClass_init_def Let_def)

lemma basic_field: "of_type (OpenFlowBasic k i ty) = ty" "of_name (OpenFlowBasic k i ty) = k"
  by (simp_all add: OpenFlowBasic_def OxmClass_init_def Let_def)

lemma basic_types:
  "OpenFlowBasic ''in_port'' 0 (IntDescr 4) \<in> set oxm_types"
  "OpenFlowBasic ''eth_dst'' 3 MacAddr \<in> set oxm_types" "OpenFlowBasic ''eth_src'' 4 MacAddr \<in> set oxm_types"
  by (simp_all add: oxm_types_def)

lemmas basic_fields = known_fields basic_field basic_types

lemma eth_field:
  assumes "eth_ok conv e"
  shows "field_canon conv (''eth_dst'', (UText e, None))" "field_canon conv (''eth_src'', (UText e, None))"
proof -
  obtain b where "text_to_bin conv 6 e = Inr b" "length b = 6" "bin_to_text conv 6 b = e"
    using assms by (auto simp: eth_ok_def split: sum.splits)
  then have "canon conv MacAddr (UText e) b" by (rule canon_addr)
  then show "field_canon conv (''eth_dst'', (UText e, None))" "field_canon conv (''eth_src'', (UText e, None))"
    by (auto simp: field_canon_def basic_fields)
qed

lemma port_field: "in_range 4 p \<Longrightarrow> field_canon conv (''in_port'', (UInt p, None))"
  using canon_int [of p 4 conv] by (auto simp: field_canon_def basic_fields in_range_def)

lemma mod_of_ok:
  assumes "flow_ok conv f"
  shows "flow_mod_ok conv (mod_of f)"
proof -
  have "\<forall>x \<in> set (makeMatch f). field_canon conv (match_field x)"
    using assms eth_field port_field
    by (auto simp: flow_ok_def match_ok_def makeMatch_def match_field_def split: flow_match.splits pyatom.splits)
  moreover have "length (makeMatch f) \<le> 1" by (simp add: makeMatch_def split: flow_match.split)
  moreover have "\<forall>a \<in> set (flow_actions (f_output f)). output_ok a"
    using assms by (auto simp: flow_ok_def out_ok_def flow_actions_def OFPActionOutput_def output_ok_def in_range_def OFPCML_MAX_def
        OFPP_FLOOD_def split: pyatom.splits)
  moreover have "length (flow_actions (f_output f)) \<le> 250" using assms by (simp add: flow_ok_def flow_actions_def)
  ultimately show ?thesis
    using assms by (simp add: mod_of_def flow_to_mod_def flow_mod_default_def flow_mod_ok_def flow_ok_def actions_ok_def
        instructions_bound_def in_range_def OFPFC_ADD_def OFP_NO_BUFFER_def)
qed

lemma clear_mod_ok: "clear_flags fl \<Longrightarrow> flow_mod_ok conv (clear_mod fl)"
  by (auto simp: clear_flags_def clear_mod_def flow_mod_ok_def in_range_def instructions_bound_def OFPTT_ALL_def OFPFC_DELETE_def
      OFP_NO_BUFFER_def OFPP_ANY_def OFPG_ANY_def OFPFF_SEND_FLOW_REM_def OFPFF_RESET_COUNTS_def)

text \<open>A topology whose addresses and numbers of ports fit.\<close>

definition fits_messages :: "addrconv \<Rightarrow> topology \<Rightarrow> bool" where
  "fits_messages conv t \<longleftrightarrow> (\<forall>h \<in> set (dvals (t_hosts t)). eth_ok conv (h_eth h)) \<and> length (t_edges t) < 65536 \<and>
     (\<forall>e \<in> set (dvals (t_edges t)). length (t_cores t) + length (e_neighbors e) \<le> 250)"

lemma port_no_fits:
  assumes "fits_messages conv t" "wf_topology t"
  shows "in_range 4 (port_no t sw n)"
proof -
  have "length (adjacent t sw) \<le> 65536"
  proof (cases "map_of (t_edges t) sw")
    case (Some e)
    then have "(sw, e) \<in> set (t_edges t)" by (rule map_of_SomeD)
    then have "e \<in> set (dvals (t_edges t))" by force
    with assms(1) have "length (t_cores t) + length (e_neighbors e) \<le> 250" unfolding fits_messages_def by blast
    then show ?thesis by (simp add: adjacent_def Some)
  qed (use assms(1) in \<open>simp add: adjacent_def fits_messages_def\<close>)
  moreover have "idx (adjacent t sw) n \<le> length (adjacent t sw)" by (simp add: idx_def length_takeWhile_le)
  ultimately show ?thesis by (simp add: port_no_def in_range_def)
qed

lemma policy_flow_ok:
  assumes fit: "fits_messages conv t" and wf: "wf_topology t" and pt: "policy_tables t active choice rt"
    and sw: "d \<in> set (map c_dpid (dvals (t_cores t))) \<or> d \<in> set (map e_dpid (dvals (t_edges t)))"
    and fs: "map_of rt d = Some fs" and f: "f \<in> set fs"
  shows "flow_ok conv f"
proof -
  note p = port_no_fits [OF fit wf]
  have eth: "eth_ok conv (h_eth h)" if "h \<in> set (dvals (t_hosts t))" for h using fit that unfolding fits_messages_def by blast
  have dst: "flow_ok conv (dst_flow h (PInt (port_no t n m)))" if "h \<in> set (dvals (t_hosts t))" for h n m
    using eth [OF that] p by (simp add: flow_ok_def dst_flow_def match_ok_def out_ok_def in_range_def)
  have src: "flow_ok conv (src_flow h)" if "h \<in> set (dvals (t_hosts t))" for h
    using eth [OF that] by (simp add: flow_ok_def src_flow_def match_ok_def out_ok_def in_range_def)
  have drop: "flow_ok conv drop_flow" by (simp add: flow_ok_def drop_flow_def match_ok_def in_range_def)
  from sw show ?thesis
  proof
    assume "d \<in> set (map c_dpid (dvals (t_cores t)))"
    then obtain c where c: "c \<in> set (dvals (t_cores t))" "d = c_dpid c" by auto
    then have "fs = core_tail t (if active (c_name c) then Some (core_dst t (c_name c)) else None)"
      using pt fs unfolding policy_tables_def by fastforce
    with f dst src drop show ?thesis by (force simp: core_tail_def core_dst_def split: if_splits)
  next
    assume "d \<in> set (map e_dpid (dvals (t_edges t)))"
    then obtain e where e: "e \<in> set (dvals (t_edges t))" "d = e_dpid e" by auto
    then have "fs = edge_dst t choice e @ edge_tail t e" using pt fs unfolding policy_tables_def by fastforce
    moreover have size: "length (t_cores t) + length (e_neighbors e) \<le> 250" using fit e(1) unfolding fits_messages_def by blast
    have down: "flow_ok conv (down_flow t e n)" for n
      using p size by (auto simp: flow_ok_def down_flow_def inport_flow_def match_ok_def out_ok_def in_range_def)
    have "length (filter P (e_neighbors e)) \<le> length (e_neighbors e)" for P by (rule length_filter_le)
    then have "length (t_cores t) + length (filter P (e_neighbors e)) \<le> 250" for P using size by (meson add_left_mono le_trans)
    then have up: "flow_ok conv (up_flow t e n)" for n
      using p by (auto simp: flow_ok_def up_flow_def inport_flow_def match_ok_def out_ok_def in_range_def)
    ultimately show ?thesis using f dst down up drop by (auto simp: edge_dst_def edge_tail_def)
  qed
qed

section \<open>Numbered messages\<close>

text \<open>A connection numbers the messages that it sends one after the other.\<close>

definition send_msgs :: "datapath \<Rightarrow> of_msg list \<Rightarrow> datapath" where
  "send_msgs d ms = foldl (\<lambda>d m. send_msg d None m) d ms"

lemma send_msgs_sent:
  "\<exists>xs. dp_sent (send_msgs d ms) = dp_sent d @ zip xs ms \<and> length xs = length ms \<and> (\<forall>x \<in> set xs. in_range 4 x)"
proof (induction ms arbitrary: d)
  case (Cons m ms)
  obtain y where y: "dp_sent (send_msg d None m) = dp_sent d @ [(y, m)]" "in_range 4 y"
    using send_msg_sent [of d None m] by (auto simp: in_range_def)
  obtain xs where "dp_sent (send_msgs (send_msg d None m) ms) = dp_sent (send_msg d None m) @ zip xs ms" "length xs = length ms"
    "\<forall>x \<in> set xs. in_range 4 x" using Cons.IH by blast
  with y show ?case by (intro exI [of _ "y # xs"]) (simp add: send_msgs_def)
qed (simp add: send_msgs_def)

section \<open>A flow modification at the switch\<close>

text \<open>The instructions up to the end of the message. An instruction has at least eight bytes, so the number of bytes is enough fuel.\<close>

fun instructions_to :: "nat \<Rightarrow> addrconv \<Rightarrow> bytes \<Rightarrow> nat \<Rightarrow> instruction list option" where
  "instructions_to 0 conv w off = None"
| "instructions_to (Suc n) conv w off =
     (if off = length w then Some []
      else case OFPInstruction_parser conv w off of
        Some (Inr (i, len)) \<Rightarrow> map_option (Cons i) (instructions_to n conv w (off + nat len))
      | _ \<Rightarrow> None)"

text \<open>What the bytes of a flow modification say, at the offsets of the protocol; what a flow modification says.\<close>

definition read_flow_mod :: "addrconv \<Rightarrow> bytes \<Rightarrow> (pyval list \<times> user_field list \<times> instruction list) option" where
  "read_flow_mod conv w =
     (case unpack_from OFP_FLOW_MOD_PACK_STR0 w 8 of Inl _ \<Rightarrow> None
      | Inr vs \<Rightarrow> (case match_parser conv w 48 of Inl _ \<Rightarrow> None
        | Inr (ty, len, ufs) \<Rightarrow> map_option (\<lambda>is. (vs, ufs, is))
            (instructions_to (length w) conv w (48 + round_up (nat len) 8))))"

definition mod_contents :: "flow_mod \<Rightarrow> (pyval list \<times> user_field list \<times> instruction list) option" where
  "mod_contents m = (case rmap actions_instruction (fm_instructions m) of Inl _ \<Rightarrow> None
     | Inr is \<Rightarrow> Some (flow_mod_fields m, map match_field (fm_match m), is))"

lemma instructions_to_wire:
  "\<forall>j \<in> set js. instruction_ok conv j \<Longrightarrow> length js < n \<Longrightarrow>
     instructions_to n conv (buf @ instructions_wire conv js) (length buf) = Some js"
proof (induction js arbitrary: buf n)
  case Nil
  then show ?case by (cases n) (simp_all add: instructions_wire_def)
next
  case (Cons j js)
  obtain k where n: "n = Suc k" "length js < k" using Cons.prems(2) by (cases n) auto
  have j: "8 \<le> length (instruction_wire conv j)"
    "OFPInstruction_parser conv (buf @ instruction_wire conv j @ instructions_wire conv js) (length buf) =
       Some (Inr (j, int (length (instruction_wire conv j))))"
    using instruction_end [of conv j buf] Cons.prems(1) by auto
  then have "instruction_wire conv j \<noteq> []" by auto
  with j Cons.IH [of k "buf @ instruction_wire conv j"] Cons.prems(1) n show ?case
    by (simp add: instructions_wire_def)
qed

lemma instructions_wire_many: "\<forall>j \<in> set js. instruction_ok conv j \<Longrightarrow> 8 * length js \<le> length (instructions_wire conv js)"
proof (induction js)
  case (Cons j js)
  with instruction_end [of conv j "[]"] show ?case by (simp add: instructions_wire_def)
qed simp

text \<open>With at most one match field there is no question of their order.\<close>

lemma flow_mod_read:
  assumes ok: "flow_mod_ok conv m" and one: "length (fm_match m) \<le> 1" and xid: "in_range 4 xid"
  shows "\<exists>w. of_msg_serialize conv xid (OFPFlowMod m) = Inr w \<and> is_message w \<and> read_flow_mod conv w = mod_contents m \<and>
    mod_contents m \<noteq> None"
proof -
  from flow_mod_body_end [OF ok] obtain F ufs js where
    b: "OFPFlowMod_serialize_body conv m (replicate 8 0) = Inr (replicate 8 0 @ F @ match_wire conv ufs @ instructions_wire conv js)"
    and F: "struct_pack OFP_FLOW_MOD_PACK_STR0 (flow_mod_fields m) = Inr F" "length F = 40"
    and ufs: "mset ufs = mset (map match_field (fm_match m))" "\<forall>uf \<in> set ufs. field_canon conv uf" "4 + length (fields_wire conv ufs) < 65536"
    and js: "rmap actions_instruction (fm_instructions m) = Inr js" "\<forall>j \<in> set js. instruction_ok conv j"
    and small: "48 + length (match_wire conv ufs) + length (instructions_wire conv js) < 65536" by blast
  have u: "ufs = map match_field (fm_match m)"
    using one ufs(1) by (cases "fm_match m") (auto simp: length_Suc_conv)
  let ?v = "F @ match_wire conv ufs @ instructions_wire conv js"
  let ?h = "header_wire OFPT_FLOW_MOD xid ?v"
  have r: "in_range 1 OFPT_FLOW_MOD" "8 + length ?v < 65536" using small F(2) by (simp_all add: in_range_def OFPT_FLOW_MOD_def)
  note f = msg_serialize_frame [where body = "OFPFlowMod_serialize_body conv m", OF b r(1) xid r(2)]
  have ser: "of_msg_serialize conv xid (OFPFlowMod m) = Inr (?h @ ?v)"
    using f(1) by (simp add: of_msg_serialize_def of_msg_type_def of_msg_body_def)
  have fields: "unpack_from OFP_FLOW_MOD_PACK_STR0 (?h @ ?v) 8 = Inr (flow_mod_fields m)"
    by (rule unpack_from_at [OF _ F(1) flow_mod_fits [OF ok]]) simp
  have mtch: "match_parser conv (?h @ ?v) 48 = Inr (OFPMT_OXM, int (4 + length (fields_wire conv ufs)), ufs)"
    using match_parser_wire [OF ufs(2,3), of "?h @ F" "instructions_wire conv js"] F(2) by simp
  have "length js < length (?h @ ?v)" using instructions_wire_many [OF js(2)] F(2) by simp
  from instructions_to_wire [OF js(2) this, of "?h @ F @ match_wire conv ufs"]
  have "instructions_to (length (?h @ ?v)) conv (?h @ ?v) (48 + round_up (4 + length (fields_wire conv ufs)) 8) = Some js"
    using F(2) by (simp add: match_wire_length add.assoc)
  then have "read_flow_mod conv (?h @ ?v) = Some (flow_mod_fields m, ufs, js)"
    unfolding read_flow_mod_def fields mtch sum.case prod.case nat_int by simp
  moreover have "mod_contents m = Some (flow_mod_fields m, ufs, js)" by (simp add: mod_contents_def js(1) u)
  ultimately show ?thesis using ser f(2) by auto
qed

section \<open>A policy at its switches\<close>

text \<open>The bytes of the messages that connection \<open>d\<close> sends for the list \<open>ms\<close>.\<close>

definition sent_bytes :: "addrconv \<Rightarrow> datapath \<Rightarrow> of_msg list \<Rightarrow> bytes list res" where
  "sent_bytes conv d ms =
     rmap (\<lambda>(xid, m). of_msg_serialize conv xid m) (drop (length (dp_sent d)) (dp_sent (send_msgs d ms)))"

lemma sent_flow_mods:
  assumes "\<forall>m \<in> set ms. flow_mod_ok conv m \<and> length (fm_match m) \<le> 1"
  shows "\<exists>ws. sent_bytes conv d (map OFPFlowMod ms) = Inr ws \<and> (\<forall>w \<in> set ws. is_message w) \<and>
    map (read_flow_mod conv) ws = map mod_contents ms"
proof -
  from send_msgs_sent [of d "map OFPFlowMod ms"] obtain xs where
    xs: "dp_sent (send_msgs d (map OFPFlowMod ms)) = dp_sent d @ zip xs (map OFPFlowMod ms)" "length xs = length ms"
    "\<forall>x \<in> set xs. in_range 4 x" by auto
  have "\<exists>ws. rmap (\<lambda>(xid, m). of_msg_serialize conv xid m) (zip xs (map OFPFlowMod ms)) = Inr ws \<and>
      (\<forall>w \<in> set ws. is_message w) \<and> map (read_flow_mod conv) ws = map mod_contents ms"
    using xs(2,3) assms
  proof (induction xs ms rule: list_induct2)
    case (Cons x xs m ms)
    from flow_mod_read [of conv m x] Cons.prems obtain w where
      "of_msg_serialize conv x (OFPFlowMod m) = Inr w" "is_message w" "read_flow_mod conv w = mod_contents m" by auto
    with Cons show ?case by fastforce
  qed simp
  then show ?thesis by (simp add: sent_bytes_def xs(1))
qed

text \<open>What the switch makes of the bytes it receives in any chunks: the flow modifications \<open>ms\<close>, in order, and no rest.\<close>

definition switch_reads :: "addrconv \<Rightarrow> bytes list \<Rightarrow> flow_mod list \<Rightarrow> bool" where
  "switch_reads conv chunks ms \<longleftrightarrow> (\<exists>frs req. recv_loop chunks [] 8 = Some (frs, Inr ([], req)) \<and>
     map (\<lambda>f. read_flow_mod conv (snd (frame_msg f))) frs = map mod_contents ms)"

lemma flow_mods_read:
  assumes "\<forall>w \<in> set ws. is_message w" and "map (read_flow_mod conv) ws = map mod_contents ms"
    and "[] \<notin> set chunks" and "concat chunks = concat ws"
  shows "switch_reads conv chunks ms"
proof -
  have "incomplete []" by (simp add: incomplete_def)
  from recv_messages [OF assms(1) this assms(3)] assms(4) obtain frs req where
    r: "recv_loop chunks [] 8 = Some (frs, Inr ([], req))" "map frame_msg frs = map headed ws" by auto
  have "map (\<lambda>f. read_flow_mod conv (snd (frame_msg f))) frs = map (\<lambda>p. read_flow_mod conv (snd p)) (map frame_msg frs)"
    by (simp add: comp_def)
  also have "\<dots> = map (read_flow_mod conv) (map (snd \<circ> headed) ws)" by (simp add: r(2) comp_def)
  also have "map (snd \<circ> headed) ws = ws" by (auto simp: headed_def intro!: map_idI split: sum.split)
  finally show ?thesis unfolding switch_reads_def using r(1) assms(2) by auto
qed

text \<open>The controller's log, at every connected switch.\<close>

definition log_arrives :: "addrconv \<Rightarrow> (nat \<Rightarrow> datapath) \<Rightarrow> dpset \<Rightarrow> rtable \<Rightarrow> (nat \<times> of_msg) list \<Rightarrow> bool" where
  "log_arrives conv st ds rt log \<longleftrightarrow> (\<forall>p \<in> set (ds_dps ds). \<exists>fs fl ws. map_of rt (fst p) = Some fs \<and>
     sent_bytes conv (st (snd p)) (sent_to (snd p) log) = Inr ws \<and>
     (\<forall>chunks. [] \<notin> set chunks \<and> concat chunks = concat ws \<longrightarrow> switch_reads conv chunks (clear_mod fl # map mod_of fs)))"

lemma log_for_arrives:
  assumes "fits_messages conv t" and "wf_topology t" and "policy_tables t active choice rt" and "switches_known t ds"
    and "log_for ds rt log"
  shows "log_arrives conv st ds rt log"
  unfolding log_arrives_def
proof
  fix p assume p: "p \<in> set (ds_dps ds)"
  obtain fs fl where fs: "map_of rt (fst p) = Some fs" "clear_flags fl"
    "sent_to (snd p) log = OFPFlowMod (clear_mod fl) # map (\<lambda>f. OFPFlowMod (mod_of f)) fs"
    using assms(5) p unfolding log_for_def by blast
  have "flow_ok conv f" if "f \<in> set fs" for f
    using policy_flow_ok [OF assms(1-3) _ fs(1) that] assms(4) p unfolding switches_known_def by blast
  then have "\<forall>m \<in> set (clear_mod fl # map mod_of fs). flow_mod_ok conv m \<and> length (fm_match m) \<le> 1"
    using mod_of_ok clear_mod_ok [OF fs(2)] by (auto simp: clear_mod_def makeMatch_def split: flow_match.split)
  from sent_flow_mods [OF this] obtain ws where
    ws: "sent_bytes conv (st (snd p)) (map OFPFlowMod (clear_mod fl # map mod_of fs)) = Inr ws" "\<forall>w \<in> set ws. is_message w"
    "map (read_flow_mod conv) ws = map mod_contents (clear_mod fl # map mod_of fs)" by blast
  have "sent_bytes conv (st (snd p)) (sent_to (snd p) log) = Inr ws" using ws(1) by (simp add: fs(3) comp_def)
  with fs(1) flow_mods_read [OF ws(2,3)] show "\<exists>fs fl ws. map_of rt (fst p) = Some fs \<and>
     sent_bytes conv (st (snd p)) (sent_to (snd p) log) = Inr ws \<and>
     (\<forall>chunks. [] \<notin> set chunks \<and> concat chunks = concat ws \<longrightarrow> switch_reads conv chunks (clear_mod fl # map mod_of fs))"
    by blast
qed

text \<open>C2: for a controller whose invariant holds, loading a policy that is not the current one puts its entries on the wire: for every connected switch the messages are numbered and
  serialized without failure, and a peer that reads the bytes, however they are cut, finds the deletion of all entries and
  then exactly the entries of the requested policy's table for that switch, in order (the controller's default table, its
  static table, or what the adaptive policy's redistribution gives); under that table every unicast frame between two hosts
  is delivered. The addresses of the topology must be ones that the address converter takes, and its ports few enough for
  the entries of a switch to fit a message.\<close>

theorem policy_on_the_wire:
  assumes "ctrl_inv t c" and "is_order ko" and "dpset_inv st ds" and "switches_known t ds"
    and "openflow xmit" and "policy \<in> set policy_names" and "policy \<noteq> ct_cur c" and "fits_messages conv t"
  shows "\<exists>c' rt log. rpcLoadPolicy ko t st ds c policy = Inr ((True, ''Policy '' @ policy @ '' loaded''), c') \<and>
    ct_cur c' = policy \<and> ct_sent c' = ct_sent c @ log \<and> policy_table ko t c policy (ct_adaptive c') rt \<and>
    log_arrives conv st ds rt log \<and> all_unicast xmit t rt"
proof -
  have wf: "wf_topology t" using assms(1) by (simp add: ctrl_inv_def)
  obtain c' rt log active choice where l: "rpcLoadPolicy ko t st ds c policy = Inr ((True, ''Policy '' @ policy @ '' loaded''), c')"
    "ct_sent c' = ct_sent c @ log" "log_for ds rt log" "policy_tables t active choice rt" "all_unicast xmit t rt"
    "policy_table ko t c policy (ct_adaptive c') rt" "ct_cur c' = policy"
    using load_policy [OF assms(1-4,6,7)] assms(5) by blast
  with log_for_arrives [OF assms(8) wf l(4) assms(4) l(3)] show ?thesis by blast
qed

definition digit_conv :: addrconv where
  "digit_conv = demo_conv\<lparr>text_to_bin := (\<lambda>n s. Inr (replicate 5 0 @ [word_of_nat (of_char (last s))])),
     bin_to_text := (\<lambda>n b. ''00:00:00:00:00:0'' @ [char_of (unat (last b))])\<rparr>"

lemma demo_fits: "fits_messages digit_conv demo"
  by (simp add: fits_messages_def demo_def demo_hosts_def demo_host_def demo_edges_def demo_cores_def eth_ok_def digit_conv_def
      str_of_nat.simps digit_char_def)

theorem policy_on_the_wire_demo:
  "\<exists>c. controller_init demo = Inr c \<and> (\<exists>c' rt log.
    rpcLoadPolicy rev demo demo_conns demo_ds c ''static'' = Inr ((True, ''Policy '' @ ''static'' @ '' loaded''), c') \<and>
    ct_cur c' = ''static'' \<and> ct_sent c' = ct_sent c @ log \<and> policy_table rev demo c ''static'' (ct_adaptive c') rt \<and>
    log_arrives digit_conv demo_conns demo_ds rt log \<and> all_unicast of_first demo rt)"
proof -
  obtain c where c: "controller_init demo = Inr c" "ctrl_inv demo c" "ct_cur c = ''default''"
    using controller_init_ok [OF demo_wf demo_ready(3,1) demo_vlan_cover] by blast
  have "''static'' \<in> set policy_names" "''static'' \<noteq> ct_cur c" by (simp_all add: policy_names_def c(3))
  from policy_on_the_wire [OF c(2) is_order_rev demo_ds_ok of_first_openflow this demo_fits] c(1) show ?thesis by blast
qed

section \<open>Counters from a switch\<close>

lemma stats_reply_parsed:
  assumes "in_range 2 flags" and "\<forall>s \<in> set ss. stats_ok s" and "h_len h = int (16 + 112 * length ss)"
  shows "OFPMultipartReply_parser conv h (header_wire ty xid b @ stats_reply_body flags ss @ post) = Some (Inr (InPortStats flags ss))"
proof -
  let ?pre = "header_wire ty xid b @ be_bytes 2 OFPMP_PORT_STATS @ be_bytes 2 flags @ replicate 4 0"
  let ?w = "concat (map stats_wire ss)"
  have buf: "header_wire ty xid b @ stats_reply_body flags ss @ post = ?pre @ ?w @ post" by (simp add: stats_reply_body_def)
  have u: "unpack2 [fH, fH, FX 4] (?pre @ ?w @ post) 8 = Inr (OFPMP_PORT_STATS, flags)"
    using assms(1) by (simp add: unpack2_def unpack_from_def in_range_def OFPMP_PORT_STATS_def)
  have l: "length ?pre = 16" by simp
  have "h_len h = 16 + int (length ?w)" using assms(3) by (simp add: length_concat comp_def sum_list_triv)
  from counters.reply_entries [OF assms(2) l this, of post]
  show ?thesis unfolding buf OFPMultipartReply_parser_def OFP_HEADER_SIZE_def u by simp
qed

text \<open>What the monitor makes of the frames of connection \<open>r\<close>: it handles the port statistics.\<close>

definition monitor_frame :: "other_versions \<Rightarrow> addrconv \<Rightarrow> topology \<Rightarrow> (nat \<Rightarrow> datapath) \<Rightarrow> nat \<Rightarrow>
    bwmon \<Rightarrow> Framing.frame \<Rightarrow> bwmon res option" where
  "monitor_frame other conv t st r m f =
     map_option (\<lambda>msg. case msg of Some (InPortStats flags body) \<Rightarrow> statsReplyHandler t st m r body | _ \<Rightarrow> Inr m)
       (ofp_msg other conv (fst f) (snd f))"

lemma monitor_stats:
  assumes "frame_msg f = headed (message 19 x (stats_reply_body flags ss))" and "in_range 4 x" and "in_range 2 flags"
    and "\<forall>s \<in> set ss. stats_ok s" and "16 + 112 * length ss < 65536"
  shows "monitor_frame other conv t st r m f = Some (statsReplyHandler t st m r ss)"
proof -
  have "in_range 1 19" "8 + length (stats_reply_body flags ss) < 65536" using assms(5) by (simp_all add: in_range_def)
  note fr = frame_of_message [OF assms(1) this(1) assms(2) this(2)]
  from fr(2) obtain post where f: "snd f = header_wire 19 x (stats_reply_body flags ss) @ stats_reply_body flags ss @ post" by blast
  have "h_len (fst f) = int (16 + 112 * length ss)" using fr(1) by simp
  note p = stats_reply_parsed [OF assms(3,4) this]
  show ?thesis
    by (simp add: monitor_frame_def ofp_msg_def f p fr(1) [THEN arg_cong [where f = h_type], simplified]
        fr(1) [THEN arg_cong [where f = h_version], simplified] OFP_VERSION_def msg_parser_def msg_types)
qed

text \<open>C5: the bytes of an edge switch's answer to the request for its counters, cut in any way, are one frame, which is parsed
  to the counters that the switch wrote; the monitor records them: the bandwidth of every host that is attached to a port
  of the answer becomes the port's byte counters (sent to the host counts as received), other hosts keep theirs, the
  dropped packets of the switch are the sum over its ports, and the number of answers goes up. With the last outstanding
  answer the tenants' counters become the sums over the updated hosts; before that they do not change.\<close>

theorem counters_recorded:
  assumes "wf_topology t" and "(k, e) \<in> set (t_edges t)" and "dp_id (st r) = Some (e_dpid e)"
    and "bwstats_inv t (bm_stats m)" and "bm_replied m = Some n"
    and "in_range 4 x" and "in_range 2 flags" and "\<forall>s \<in> set ss. stats_ok s" and "16 + 112 * length ss < 65536"
    and "[] \<notin> set chunks" and "concat chunks = message 19 x (stats_reply_body flags ss)"
  shows "\<exists>f req m'. recv_loop chunks [] 8 = Some ([f], Inr ([], req)) \<and> monitor_frame other conv t st r m f = Some (Inr m') \<and>
    bwstats_inv t (bm_stats m') \<and> bm_replied m' = Some (n + 1) \<and>
    map_of (swDroppedPkts (bm_stats m')) (Some k) = Some (total_dropped ss) \<and>
    (if n + 1 = int (length (bm_datapaths m))
     then \<forall>v \<in> set (dkeys (vlanBw (bm_stats m))). map_of (vlanBw (bm_stats m')) v =
       Some \<lparr>bw_in = vlan_total t (hostBw (bm_stats m')) bw_in v, bw_out = vlan_total t (hostBw (bm_stats m')) bw_out v\<rparr>
     else vlanBw (bm_stats m') = vlanBw (bm_stats m)) \<and>
    (\<forall>h \<in> set (dkeys (t_hosts t)). map_of (hostBw (bm_stats m')) h =
       (case stat_of t k h ss of None \<Rightarrow> map_of (hostBw (bm_stats m)) h
        | Some s \<Rightarrow> Some \<lparr>bw_in = ps_tx_bytes s, bw_out = ps_rx_bytes s\<rparr>))"
proof -
  have "in_range 1 19" "8 + length (stats_reply_body flags ss) < 65536" using assms(9) by (simp_all add: in_range_def)
  then have "is_message (message 19 x (stats_reply_body flags ss))" using message_header(2) assms(6) by blast
  moreover have "incomplete []" by (simp add: incomplete_def)
  ultimately obtain fs req where fs: "recv_loop chunks [] 8 = Some (fs, Inr ([], req))"
    "map frame_msg fs = map headed [message 19 x (stats_reply_body flags ss)]"
    using recv_messages [of "[message 19 x (stats_reply_body flags ss)]" "[]" chunks] assms(10,11) by auto
  then obtain f where f: "fs = [f]" "frame_msg f = headed (message 19 x (stats_reply_body flags ss))" by (auto simp: map_eq_Cons_conv)
  note h = monitor_stats [OF f(2) assms(6-9), of other conv t st r m]
  from record_reply [of t k e st r m n ss, OF assms(1-5)] obtain m' where
    m: "statsReplyHandler t st m r ss = Inr m'" "bwstats_inv t (bm_stats m')" "bm_replied m' = Some (n + 1)"
      "map_of (swDroppedPkts (bm_stats m')) (Some k) = Some (total_dropped ss)"
      "if n + 1 = int (length (bm_datapaths m))
       then \<forall>v \<in> set (dkeys (vlanBw (bm_stats m))). map_of (vlanBw (bm_stats m')) v =
         Some \<lparr>bw_in = vlan_total t (hostBw (bm_stats m')) bw_in v, bw_out = vlan_total t (hostBw (bm_stats m')) bw_out v\<rparr>
       else vlanBw (bm_stats m') = vlanBw (bm_stats m)"
      "\<forall>h \<in> set (dkeys (t_hosts t)). map_of (hostBw (bm_stats m')) h =
         (case stat_of t k h ss of None \<Rightarrow> map_of (hostBw (bm_stats m)) h | Some s \<Rightarrow> Some (stat_bw s))" by blast
  show ?thesis
    by (intro exI [of _ f] exI [of _ req] exI [of _ m'] conjI) (use fs(1) f(1) h m(1-4) m(5) m(6) in \<open>simp_all only: stat_bw_def\<close>)
qed

definition demo_reply :: bytes where
  "demo_reply = message 19 5 (stats_reply_body 0 [demo_stat 1, demo_stat 3])"

theorem counters_recorded_demo:
  "\<exists>f req m'. recv_loop (map (\<lambda>b. [b]) demo_reply) [] 8 = Some ([f], Inr ([], req)) \<and>
    monitor_frame no_other digit_conv demo demo_conn 0 demo_mon f = Some (Inr m') \<and>
    bwstats_inv demo (bm_stats m') \<and> bm_replied m' = Some (0 + 1) \<and>
    map_of (swDroppedPkts (bm_stats m')) (Some ''s1'') = Some (total_dropped [demo_stat 1, demo_stat 3]) \<and>
    (if 0 + 1 = int (length (bm_datapaths demo_mon))
     then \<forall>v \<in> set (dkeys (vlanBw (bm_stats demo_mon))). map_of (vlanBw (bm_stats m')) v =
       Some \<lparr>bw_in = vlan_total demo (hostBw (bm_stats m')) bw_in v, bw_out = vlan_total demo (hostBw (bm_stats m')) bw_out v\<rparr>
     else vlanBw (bm_stats m') = vlanBw (bm_stats demo_mon)) \<and>
    (\<forall>h \<in> set (dkeys (t_hosts demo)). map_of (hostBw (bm_stats m')) h =
       (case stat_of demo ''s1'' h [demo_stat 1, demo_stat 3] of None \<Rightarrow> map_of (hostBw (bm_stats demo_mon)) h
        | Some s \<Rightarrow> Some \<lparr>bw_in = ps_tx_bytes s, bw_out = ps_rx_bytes s\<rparr>))"
proof -
  have e: "(''s1'', \<lparr>e_name = ''s1'', e_dpid = 1, e_neighbors = [''h1'', ''h2'']\<rparr>) \<in> set (t_edges demo)"
    by (simp add: demo_def demo_edges_def)
  have r: "dp_id (demo_conn 0) = Some (e_dpid \<lparr>e_name = ''s1'', e_dpid = 1, e_neighbors = [''h1'', ''h2'']\<rparr>)"
    "bm_replied demo_mon = Some 0" by (simp_all add: demo_conn_def demo_mon_def)
  have ok: "in_range 4 5" "in_range 2 0" "\<forall>s \<in> set [demo_stat 1, demo_stat 3]. stats_ok s" "16 + 112 * length [demo_stat 1, demo_stat 3] < 65536"
    by (simp_all add: in_range_def stats_ok_def demo_stat_def)
  have c: "[] \<notin> set (map (\<lambda>b. [b]) demo_reply)" "concat (map (\<lambda>b. [b]) demo_reply) = message 19 5 (stats_reply_body 0 [demo_stat 1, demo_stat 3])"
    by (auto simp: demo_reply_def concat_map_singleton [where f = id, simplified])
  show ?thesis by (rule counters_recorded [where st = demo_conn and r = 0, OF demo_wf e r(1) demo_mon_inv r(2) ok c])
qed

section \<open>The controller of a deployed data center\<close>

lemma add_vlan_keys: "set (dkeys (add_vlan_member vs v x)) = insert v (set (dkeys vs))"
  by (auto simp: add_vlan_member_def in_keys_iff split: option.split dest: map_of_in_keys)

lemma vlan_member_keys: "set (dkeys (vlan_members hs)) = (\<Union>h \<in> set hs. set (h_vlans h))"
proof -
  have i: "set (dkeys (foldl (\<lambda>vs v. add_vlan_member vs v x) d ws)) = set (dkeys d) \<union> set ws"
    for d :: "(int, string list) dict" and x ws
    by (induction ws arbitrary: d) (simp_all add: add_vlan_keys del: set_map)
  have "set (dkeys (foldl (\<lambda>vs h. foldl (\<lambda>vs v. add_vlan_member vs v (h_name h)) vs (h_vlans h)) d hs)) =
      set (dkeys d) \<union> (\<Union>h \<in> set hs. set (h_vlans h))" for d :: "(int, string list) dict"
    by (induction hs arbitrary: d) (auto simp: i simp del: set_map)
  then show ?thesis by (simp add: vlan_members_def)
qed

lemma edge_hosts_bound: "1 \<le> n \<Longrightarrow> 0 \<le> hpe \<Longrightarrow> length (edge_host_ids n hpe s) \<le> nat (hpe + 1)"
proof -
  assume n: "1 \<le> n" "0 \<le> hpe"
  let ?xs = "edge_host_ids n hpe s"
  have "distinct ?xs" by (simp add: edge_host_ids_def host_ids_def)
  moreover have "inj_on (\<lambda>h. h div n) (set ?xs)"
  proof (rule inj_onI)
    fix g h assume "g \<in> set ?xs" "h \<in> set ?xs" "g div n = h div n"
    moreover from this have "g mod n = h mod n" by (simp add: edge_host_ids_def)
    ultimately show "g = h" by (metis mult_div_mod_eq)
  qed
  ultimately have "length ?xs = card ((\<lambda>h. h div n) ` set ?xs)" by (simp add: card_image distinct_card)
  also have "\<dots> \<le> card {0..hpe}"
  proof (rule card_mono)
    have "h div n \<le> hpe" if "h \<le> n * hpe" for h
      using zdiv_mono1 [OF that, of n] n by simp
    then show "(\<lambda>h. h div n) ` set ?xs \<subseteq> {0..hpe}" using n by (auto simp: edge_host_ids_def host_ids_def pos_imp_zdiv_nonneg_iff)
  qed simp
  finally show ?thesis by simp
qed

lemma config_parts:
  assumes "is_order ko" and "is_order kv" and "config_ok cs es"
  defines "t \<equiv> config_topology ko kv cs es"
  shows "set (dvals (t_cores t)) = set cs" "set (dvals (t_edges t)) = edge_of ` set es" "set (dvals (t_hosts t)) = set (edge_hosts_of es)"
    and "length (t_cores t) = length cs" "length (t_edges t) = length es"
    and "\<forall>h \<in> set (dvals (t_hosts t)). set (h_vlans h) \<subseteq> set (dkeys (t_vlans t))"
proof -
  have d: "distinct (map c_name cs)" "distinct (map fst es)" "distinct (map h_name (edge_hosts_of es))"
    using assms(3) by (simp_all add: config_ok_def)
  show v: "set (dvals (t_cores t)) = set cs" "set (dvals (t_edges t)) = edge_of ` set es" "set (dvals (t_hosts t)) = set (edge_hosts_of es)"
    using d assms(1) by (simp_all add: t_def config_topology_def Let_def comp_def image_image)
  have len: "length (ko xs) = length xs" for xs using assms(1) by (metis is_order_def size_mset)
  have dk: "length (dkeys x) = length x" for x :: "('a, 'b) dict" by simp
  have "length (dkeys (t_cores t)) = length cs" "length (dkeys (t_edges t)) = length es"
    using assms(1) len by (simp_all add: t_def config_topology_def Let_def del: length_map) simp_all
  then show "length (t_cores t) = length cs" "length (t_edges t) = length es" by simp_all
  have "set (dkeys (t_vlans t)) = set (dkeys (vlan_members (dvals (t_hosts t))))"
    using is_order_set [OF assms(2)] assms(2) by (simp add: t_def config_topology_def Let_def del: set_map)
  then show "\<forall>h \<in> set (dvals (t_hosts t)). set (h_vlans h) \<subseteq> set (dkeys (t_vlans t))"
    unfolding vlan_member_keys by blast
qed

lemma fat_fits:
  assumes n: "2 \<le> n" "0 \<le> hpe" "n + hpe \<le> 250" and d: "dc_ready d" and ko: "is_order ko" "is_order kv"
    and ok: "config_ok (fat_cores d n hpe) (fat_edges d n hpe ip mac)" and conv: "\<forall>h \<in> set (host_ids n hpe). eth_ok conv (mac h)"
  shows "fits_messages conv (config_topology ko kv (fat_cores d n hpe) (fat_edges d n hpe ip mac))"
  unfolding fits_messages_def
proof (intro conjI ballI)
  let ?cs = "fat_cores d n hpe" and ?es = "fat_edges d n hpe ip mac"
  let ?t = "config_topology ko kv ?cs ?es"
  note t = config_parts [OF ko ok]
  have len: "length (t_cores ?t) = nat (n - 1)" "length (t_edges ?t) = nat n"
    using t(4,5) by (simp_all add: fat_cores_def fat_edges_def core_ids_def edge_ids_def)
  then show "length (t_edges ?t) < 65536" using n by simp
  { fix h assume "h \<in> set (dvals (t_hosts ?t))"
    then have "h_eth h \<in> set (map h_eth (edge_hosts_of ?es))" unfolding t(3) by simp
    then have "h_eth h \<in> mac ` set (fat_host_ids n hpe)" by (simp only: fat_hosts(2) set_map)
    then show "eth_ok conv (h_eth h)" using conv fat_host_ids(2) [of n hpe] n by auto }
  fix e assume "e \<in> set (dvals (t_edges ?t))"
  then obtain s where "e_neighbors e = map h_name (map (fat_host d ip mac (nm CHR ''s'' s)) (edge_host_ids n hpe s))"
    unfolding t(2) by (auto simp: fat_edges_def edge_of_def simp del: map_map)
  then have "length (e_neighbors e) \<le> nat (hpe + 1)" using edge_hosts_bound [of n hpe s] n by simp
  then show "length (t_cores ?t) + length (e_neighbors e) \<le> 250" using len n by linarith
qed

text \<open>C1: the whole path. For a fat tree of two or more edge switches whose ports fit a message, and a data center with at
  least one tenant (with none the VLAN field of a host is empty and cannot be read back), distinct random hardware addresses
  and addresses that the address converter takes, the data center writes a file from which the controller starts with the
  default policy; when switches of the tree are connected, the static or the adaptive policy is loaded, and what the switches
  read from their connections, however the bytes are cut, is the deletion of all entries and then exactly the entries of that
  policy's table: the one built at the start from the VLANs of the file, or the one of the adaptive policy's redistribution.
  Under it every unicast frame between two hosts of the data center is delivered.\<close>

theorem deployed_controller:
  assumes n: "2 \<le> n" "0 \<le> hpe" "n + hpe \<le> 250" and build: "fattree_spec n hpe ft"
    and ready: "net_ready net n hpe ip (\<lambda>h. randMac (draw h))" and d: "dc_ready d"
    and ips: "\<forall>h \<in> set (host_ids n hpe). word (ip h)" and macs: "inj_on (\<lambda>h. randMac (draw h)) (set (host_ids n hpe))"
    and conv: "\<forall>h \<in> set (host_ids n hpe). eth_ok conv (randMac (draw h))" and ko: "is_order ko" "is_order kv"
    and ds: "dpset_inv st ds" "\<forall>p \<in> set (ds_dps ds). fst p \<in> set (core_ids n hpe @ edge_ids n hpe)"
    and of: "openflow xmit" and policy: "policy = ''static'' \<or> policy = ''adaptive''"
  shows "\<exists>cfg t c c' rt log. writeConfig net ft d = Inr cfg \<and> topology_parse ko kv (readlines cfg) = Inr t \<and>
    set (dkeys (t_hosts t)) = set (ft_hosts ft) \<and> controller_init t = Inr c \<and> rpcCurrentPolicy c = (True, ''default'') \<and>
    rpcLoadPolicy ko t st ds c policy = Inr ((True, ''Policy '' @ policy @ '' loaded''), c') \<and> ct_sent c' = ct_sent c @ log \<and>
    policy_table ko t c policy (ct_adaptive c') rt \<and> log_arrives conv st ds rt log \<and> all_unicast xmit t rt"
proof -
  let ?cs = "fat_cores d n hpe" and ?es = "fat_edges d n hpe ip (\<lambda>h. randMac (draw h))"
  let ?t = "config_topology ko kv ?cs ?es"
  have "n * hpe \<le> 250 * 250" using n by (intro mult_mono) auto
  then have small: "firstSwitch (n * hpe) + 2 * n \<le> 2 ^ 63" using n by (simp add: firstSwitch_def)
  note t = deployed [OF n(1) build ready small d ips macs ko(1), of kv]
  have words: "\<forall>h \<in> set (host_ids n hpe). word (ip h) \<and> word (randMac (draw h))" using ips randMac_word by blast
  note ok = fat_config_ok(1) [OF n(1) d words]
  note parts = config_parts [OF ko ok]
  have fit: "fits_messages conv ?t" by (rule fat_fits [OF n d ko ok conv])
  obtain c where c: "controller_init ?t = Inr c" "ctrl_inv ?t c" "ct_cur c = ''default''"
    using controller_init_ok [OF t(2,5,3) parts(6)] by blast
  have "set (map c_dpid (dvals (t_cores ?t))) = set (core_ids n hpe)"
    unfolding set_map [of c_dpid] parts(1) by (simp only: fat_core_names(2) flip: set_map)
  moreover have "e_dpid (edge_of x) = (fst \<circ> snd) x" for x by (simp add: edge_of_def split: prod.split)
  then have "set (map e_dpid (dvals (t_edges ?t))) = set (map (fst \<circ> snd) ?es)"
    unfolding set_map [of e_dpid] parts(2) by (simp add: image_image)
  then have "set (map e_dpid (dvals (t_edges ?t))) = set (edge_ids n hpe)" by (simp only: fat_edge_names(2))
  ultimately have sw: "switches_known ?t ds" using ds(2) unfolding switches_known_def by simp
  have pol: "policy \<in> set policy_names" "policy \<noteq> ct_cur c" using policy c(3) by (auto simp: policy_names_def)
  obtain c' rt log active choice where l: "rpcLoadPolicy ko ?t st ds c policy = Inr ((True, ''Policy '' @ policy @ '' loaded''), c')"
    "ct_sent c' = ct_sent c @ log" "log_for ds rt log" "policy_tables ?t active choice rt" "all_unicast xmit ?t rt"
    "policy_table ko ?t c policy (ct_adaptive c') rt"
    using load_policy [OF c(2) ko(1) ds(1) sw pol] of by blast
  note arr = log_for_arrives [OF fit t(2) l(4) sw l(3)]
  obtain cfg where "writeConfig net ft d = Inr cfg" "topology_parse ko kv (readlines cfg) = Inr ?t" using t(1) by blast
  with t(8) c l(1,2,5,6) arr show ?thesis
    by (intro exI [of _ cfg] exI [of _ ?t] exI [of _ c] exI [of _ c'] exI [of _ rt] exI [of _ log]) (simp add: rpcCurrentPolicy_def)
qed

definition fleet_conv :: addrconv where
  "fleet_conv = demo_conv\<lparr>text_to_bin := (\<lambda>n s. Inr (replicate 5 0 @ [if s = randMac 3 then 1 else 2])),
     bin_to_text := (\<lambda>n b. if last b = 1 then randMac 3 else randMac 1)\<rparr>"

definition fleet_ds :: dpset where
  "fleet_ds = \<lparr>ds_dps = [(101, 1)], ds_port_state = [(101, [])], ds_events = []\<rparr>"

theorem deployed_controller_demo:
  "\<exists>cfg t c c' rt log. writeConfig demo_net demo_ft demo_dc = Inr cfg \<and> topology_parse rev rev (readlines cfg) = Inr t \<and>
    set (dkeys (t_hosts t)) = set (ft_hosts demo_ft) \<and> controller_init t = Inr c \<and> rpcCurrentPolicy c = (True, ''default'') \<and>
    rpcLoadPolicy rev t demo_conns fleet_ds c ''adaptive'' = Inr ((True, ''Policy '' @ ''adaptive'' @ '' loaded''), c') \<and>
    ct_sent c' = ct_sent c @ log \<and> policy_table rev t c ''adaptive'' (ct_adaptive c') rt \<and>
    log_arrives fleet_conv demo_conns fleet_ds rt log \<and> all_unicast of_first t rt"
proof -
  have h: "host_ids 2 1 = [1, 2]" by code_simp
  have d: "dc_ready demo_dc" by code_simp
  have w: "\<forall>h \<in> set (host_ids 2 1). word (demo_ip h)" unfolding h by code_simp
  have ne: "distinct (map (\<lambda>h. randMac (demo_draw h)) [1, 2])" by code_simp
  then have m: "inj_on (\<lambda>h. randMac (demo_draw h)) (set (host_ids 2 1))" unfolding h distinct_map by (rule conjunct2)
  have c: "\<forall>h \<in> set (host_ids 2 1). eth_ok fleet_conv (randMac (demo_draw h))"
    using ne unfolding h by (auto simp: eth_ok_def fleet_conv_def demo_draw_def)
  have s: "dpset_inv demo_conns fleet_ds"
    by (simp add: dpset_inv_def fleet_ds_def demo_conns_def ports_ok_def)
  have i: "\<forall>p \<in> set (ds_dps fleet_ds). fst p \<in> set (core_ids 2 1 @ edge_ids 2 1)"
    by (simp add: fleet_ds_def edge_ids_def firstSwitch_def)
  show ?thesis
    by (rule deployed_controller [OF _ _ _ demo_ft_spec demo_net_ready d w m c is_order_rev is_order_rev s i of_first_openflow]) simp_all
qed

end
