(* ===== verification/OFRequest.thy ===== *)
theory OFRequest
  imports OFStats
begin

text \<open>
  The other messages a controller can send: requests for statistics and configuration, modifications of groups, meters,
  ports and tables, roles and asynchronous messages, from \<^verbatim>\<open>ofproto_v1_3_parser.py\<close>. The data center's controller
  uses none of them; they are here because they share its connection: each is one message of it.
\<close>

section \<open>Bodies\<close>
















section \<open>The messages\<close>





section \<open>Each is one message\<close>





text \<open>The head of a multipart request, and what its class appends.\<close>

definition multipart_head :: "int \<Rightarrow> int \<Rightarrow> bytes" where
  "multipart_head ty flags = be_bytes 2 ty @ be_bytes 2 flags @ replicate 4 0"


















section \<open>What a switch reads\<close>

text \<open>The number in \<open>n\<close> bytes of a message, most significant byte first.\<close>

definition field_at :: "bytes \<Rightarrow> nat \<Rightarrow> nat \<Rightarrow> int" where
  "field_at w offset n = be_int (take n (drop offset w))"






text \<open>Reading a field that a message has at its place.\<close>

lemma field_at_wire: "length pre = offset \<Longrightarrow> in_range n i \<Longrightarrow> field_at (pre @ be_bytes n i @ post) offset n = i"
  by (simp add: field_at_def in_range_def)







lemma length_multipart_head [simp]: "length (multipart_head ty flags) = 8"
  by (simp add: multipart_head_def)


section \<open>A stream of requests\<close>







end
