(* ===== verification/Spec2Isabelle.thy ===== *)
theory Spec2Isabelle
  imports AppManager SendQueue Wire OFRequest
begin

text \<open>
  A model of the emulated SDN application of \<^verbatim>\<open>src/emulated-sdn-application\<close>: a data center with a two-level
  tree of switches, its Ryu controller application (\<^verbatim>\<open>minidc/controller\<close>), the dashboard's statistics
  (\<^verbatim>\<open>minidc/stats.py\<close>), the data center itself (\<^verbatim>\<open>minidc\<close>), and the parts of the bundled Ryu and Mininet
  (\<^verbatim>\<open>ext/ryu\<close>, \<^verbatim>\<open>ext/mininet\<close>) that it runs on.

  How the parts interact.  The data center builds its topology on Mininet's objects, places its tenants on the
  hosts, gives them VLANs and writes the configuration file.  The controller parses that file into a topology (hosts,
  edge switches, core switches, VLANs, port numbers), builds one routing table per policy (default, static,
  adaptive), and installs the table of the current policy as OpenFlow entries on every switch that is connected.
  Ryu loads the applications, routes events between them, and runs one connection per switch: its bytes are cut into
  messages, the messages are parsed, and a handshake that ends in the state MAIN announces each change of state to
  the applications; the registry \<^verbatim>\<open>DPSet\<close> turns the announcements into enter and leave events.  A monitor polls the
  switches of the registry for port counters, which the bandwidth statistics sum per host and per tenant; their sums
  drive the adaptive policy and the dashboard.

  Theories and the code they model.
  \<^item> \<^verbatim>\<open>Prelude\<close>: errors as values of a sum type (\<^verbatim>\<open>'a res\<close>, one constructor per exception), dictionaries as
    association lists with an explicit iteration order, loops over lists that may fail (\<^verbatim>\<open>rfold\<close>, \<^verbatim>\<open>rmap\<close>).
  \<^item> \<^verbatim>\<open>PyStr\<close>, \<^verbatim>\<open>PyStruct\<close>: the string operations of Python that the sources use; the module \<^verbatim>\<open>struct\<close> and
    \<^verbatim>\<open>ryu/lib/pack_utils.py\<close>.
  \<^item> \<^verbatim>\<open>Topology\<close> (\<^verbatim>\<open>controller/topo.py\<close>): parser, port numbering, lookups. \<^verbatim>\<open>Config\<close>: what the parser
    makes of a file that is laid out as the data center lays it out.
  \<^item> \<^verbatim>\<open>Flood\<close>, \<^verbatim>\<open>Policy\<close>, \<^verbatim>\<open>Adaptive\<close> (\<^verbatim>\<open>controller/flood.py\<close>, \<^verbatim>\<open>policy.py\<close>): flooding rules and policies.
  \<^item> \<^verbatim>\<open>Dataplane\<close>, \<^verbatim>\<open>Network\<close>: the abstract specification. A table is a function from switch, port and
    addresses to ports; a frame is followed from switch to switch, and the theorems say where it arrives.
  \<^item> \<^verbatim>\<open>Stats\<close> (\<^verbatim>\<open>minidc/stats.py\<close>), \<^verbatim>\<open>BwStats\<close> (\<^verbatim>\<open>controller/bwstats.py\<close>), \<^verbatim>\<open>BwMon\<close>
    (\<^verbatim>\<open>controller/bwmon.py\<close>): the statistics.
  \<^item> \<^verbatim>\<open>Controller\<close> (\<^verbatim>\<open>controller/controller.py\<close>): the application.
  \<^item> \<^verbatim>\<open>MnUtil\<close>, \<^verbatim>\<open>MnTopo\<close>, \<^verbatim>\<open>MnNet\<close> (\<^verbatim>\<open>mininet/util.py\<close>, \<^verbatim>\<open>topo.py\<close>, \<^verbatim>\<open>net.py\<close>, \<^verbatim>\<open>node.py\<close>,
    \<^verbatim>\<open>link.py\<close>): addresses, topology objects, the network built from one.
  \<^item> \<^verbatim>\<open>Fattree\<close>, \<^verbatim>\<open>Tenants\<close>, \<^verbatim>\<open>Profiles\<close>, \<^verbatim>\<open>Dc\<close> (\<^verbatim>\<open>minidc/topo.py\<close>, \<^verbatim>\<open>placement.py\<close>, \<^verbatim>\<open>roles.py\<close>,
    \<^verbatim>\<open>profiles.py\<close>, \<^verbatim>\<open>dc.py\<close>): the data center. \<^verbatim>\<open>Deploy\<close>: the topology that the controller reads from the file
    that the data center wrote.
  \<^item> \<^verbatim>\<open>OFProto\<close>, \<^verbatim>\<open>Datapath\<close>, \<^verbatim>\<open>DPSet\<close> (\<^verbatim>\<open>ryu/ofproto\<close>, \<^verbatim>\<open>ryu/controller\<close>): messages as data, the
    connection's state machine, the registry.
  \<^item> \<^verbatim>\<open>SendQueue\<close> (\<^verbatim>\<open>ryu/controller/controller.py\<close>): the queue between the threads that send on a connection and
    the loop that writes to the socket, as a step relation with reachable states.
  \<^item> \<^verbatim>\<open>Handler\<close>, \<^verbatim>\<open>Bricks\<close>, \<^verbatim>\<open>AppManager\<close> (\<^verbatim>\<open>ryu/controller/handler.py\<close>, \<^verbatim>\<open>ryu/base/app_manager.py\<close>):
    declaration of handlers, routing and queues of events, loading and creation of applications.
  \<^item> \<^verbatim>\<open>Oxm\<close>, \<^verbatim>\<open>OFMatch\<close>, \<^verbatim>\<open>NXActions\<close>, \<^verbatim>\<open>OFAction\<close> (\<^verbatim>\<open>oxm_fields.py\<close>, \<^verbatim>\<open>ofproto_v1_3_parser.py\<close>, \<^verbatim>\<open>nx_actions.py\<close>): match fields,
    matches, the actions of Nicira, actions and instructions as bytes, with the loops that read them back.
  \<^item> \<^verbatim>\<open>Framing\<close> (\<^verbatim>\<open>_recv_loop\<close> of \<^verbatim>\<open>ryu/controller/controller.py\<close>), \<^verbatim>\<open>OFMessage\<close>, \<^verbatim>\<open>OFParse\<close>: from a stream of
    bytes to messages, writing and reading of messages. \<^verbatim>\<open>OFEntries\<close>: lists of structures inside a message, the loop
    that reads them, and the locales \<^verbatim>\<open>wire_entry\<close> and \<^verbatim>\<open>codec\<close> that say what a class of structures owes for a list of them
    to be read as it was written. \<^verbatim>\<open>OFGroup\<close>, \<^verbatim>\<open>OFTable\<close>, \<^verbatim>\<open>OFStats\<close>: groups, meters, the features of tables, and the
    bodies of the multipart replies. \<^verbatim>\<open>OFRequest\<close>: the requests and modifications that a controller may send beside those
    of the program, with the bytes of each (\<^verbatim>\<open>request_wire\<close>) and what a switch reads from them (\<^verbatim>\<open>read_request\<close>);
    \<^verbatim>\<open>message_kind\<close> is what a kind of message owes for a stream of them to be cut into its messages, \<^verbatim>\<open>readable_kind\<close> what it
    owes for the peer to know them again.
    \<^verbatim>\<open>Handshake\<close>: the layers together, from the bytes of a switch
    to the state of its connection.
  \<^item> \<^verbatim>\<open>Wire\<close>: the components together. The entries of a policy as bytes that a switch reads back, the counters of a
    switch from its bytes to the statistics, and the controller started on the file of a deployed data center.

  What the lemmas show.  Every parser reads back what the writer of the same structure wrote, at any offset and before
  any bytes (\<^verbatim>\<open>oxm_parse_wire\<close>, \<^verbatim>\<open>match_parser_wire\<close>, \<^verbatim>\<open>instruction_end\<close>, \<^verbatim>\<open>port_parser_wire\<close>, \<^verbatim>\<open>bucket_parser_wire\<close>,
  \<^verbatim>\<open>flow_stats_parser_wire\<close>, \<^verbatim>\<open>table_parser_wire\<close>), and where a length of zero keeps a loop busy for ever this is a theorem; the receive loop
  does not depend on how the network cuts the stream; the send queue keeps the order of each thread; the routing tables deliver, and the
  table that is installed is the requested policy's (\<^verbatim>\<open>policy_table\<close>); the registry and the connection keep
  their invariants; the events of a queue are taken in order and run the methods that are declared for them (\<^verbatim>\<open>ran\<close>).

  What is outside.  The switch that executes the entries is a parameter: \<^verbatim>\<open>openflow\<close> states how it
  chooses an entry for a frame, \<^verbatim>\<open>mod_table\<close> how its table changes on a flow message; both are the
  behaviour documented by OpenFlow 1.3 and have instances (\<^verbatim>\<open>of_first\<close>, \<^verbatim>\<open>table_mod\<close>) in the witnesses.
  The order in which Python 2 iterates over a dictionary is the parameter \<^verbatim>\<open>ko\<close>, any function that
  permutes the keys (\<^verbatim>\<open>is_order\<close>). Addresses are converted by the package \<^verbatim>\<open>netaddr\<close>: the parameter \<^verbatim>\<open>conv\<close>, whose
  two directions are inverse on the addresses that are used (\<^verbatim>\<open>canon\<close>, \<^verbatim>\<open>eth_ok\<close>, \<^verbatim>\<open>port_ok\<close>). What the socket returns is a list of
  chunks.

  Bounds.  A frame crosses at most three switches (edge, core, edge), so \<^verbatim>\<open>deliver\<close> runs on fuel 3, and
  the delivery theorems show that it is enough. The switch reads the instructions of a flow modification with the number
  of its bytes as fuel, since each has at least eight. The bounds of \<open>fits_messages\<close> (at most 250 ports of an edge
  switch) keep every flow modification below the 65535 bytes that its header can count. The loops of the receiving side that may not end are partial functions
  whose result is \<^verbatim>\<open>None\<close> when they do not; the theorems about them give the result.

  Not modelled: sockets, processes, files and log lines, and the scheduler: green threads switch only where a call blocks,
  so each operation that the code runs under a lock or in one green thread without blocking is one step. Of the OpenFlow
  parser: the match interface of the older API and the JSON forms of messages, which the program does not use. The
  messages of other versions are read by an argument of the parser of messages, \<^verbatim>\<open>other_versions\<close> of \<^verbatim>\<open>OFParse\<close>.
\<close>

end
